(* ===== verification/Prelude.thy ===== *)
theory Prelude
  imports Complex_Main "HOL-Library.Product_Lexorder"
begin

text \<open>
  Shared ground of the development: the machine integers the engine computes with, the byte
  ranges it passes around, and the collections of facts the component theories draw on.

  A Rust \<open>u64\<close> is a \<^typ>\<open>nat\<close> kept below \<open>2 ^ 64\<close> by the invariants of the components. Each
  arithmetic operator of the source has its own definition: \<open>sat_add\<close> is \<open>saturating_add\<close>,
  \<open>checked_add\<close> is \<open>checked_add\<close>, \<open>wadd\<close> is the bare \<open>+\<close> of a release build, which wraps.
  \<open>saturating_sub\<close> is the subtraction of \<^typ>\<open>nat\<close>. A bare \<open>-\<close> of the source is written \<open>-\<close> where
  the branch it stands in proves that it does not underflow.
\<close>

named_theorems arith64 \<open>the machine operators away from their limits\<close>
named_theorems denot \<open>denotation of range lists as sets of bytes\<close>
named_theorems canon_intro \<open>introduction rules for the representation invariants\<close>

type_synonym u64 = nat
type_synonym range = "nat \<times> nat"

subsection \<open>Machine arithmetic\<close>

definition u64_max :: nat where
  "u64_max = 18446744073709551615"

definition u32_max :: nat where
  "u32_max = 4294967295"

definition sat_add :: "nat \<Rightarrow> nat \<Rightarrow> nat" where
  "sat_add a b = min (a + b) u64_max"

definition sat_mul :: "nat \<Rightarrow> nat \<Rightarrow> nat" where
  "sat_mul a b = min (a * b) u64_max"

definition checked_add :: "nat \<Rightarrow> nat \<Rightarrow> nat option" where
  "checked_add a b = (if a + b \<le> u64_max then Some (a + b) else None)"

definition wadd :: "nat \<Rightarrow> nat \<Rightarrow> nat" where
  "wadd a b = (a + b) mod (u64_max + 1)"

lemma sat_add_exact [arith64]: "a + b \<le> u64_max \<Longrightarrow> sat_add a b = a + b"
  by (simp add: sat_add_def)

lemma sat_add_le_max [simp]: "sat_add a b \<le> u64_max"
  by (simp add: sat_add_def)

lemma sat_add_le [simp]: "sat_add a b \<le> a + b"
  by (simp add: sat_add_def)

lemma sat_mul_exact [arith64]: "a * b \<le> u64_max \<Longrightarrow> sat_mul a b = a * b"
  by (simp add: sat_mul_def)

lemma checked_add_exact [arith64]: "a + b \<le> u64_max \<Longrightarrow> checked_add a b = Some (a + b)"
  by (simp add: checked_add_def)

lemma checked_add_Some_iff: "checked_add a b = Some c \<longleftrightarrow> a + b \<le> u64_max \<and> c = a + b"
  by (auto simp: checked_add_def)

lemma wadd_exact [arith64]: "a + b \<le> u64_max \<Longrightarrow> wadd a b = a + b"
  by (simp add: wadd_def)

lemma wadd_le_max [simp]: "wadd a b \<le> u64_max"
  by (simp add: wadd_def less_Suc_eq_le [symmetric])

subsection \<open>Binary floating point\<close>

text \<open>
  The \<open>f64\<close> values of the engine are loss figures and rates. \<open>Fin\<close> holds a finite value as the
  rational it denotes; the sign of zero is not kept, no operation of the engine observes it.
\<close>

datatype f64 = NaN | NegInf | PosInf | Fin rat

definition is_nan :: "f64 \<Rightarrow> bool" where
  "is_nan x = (x = NaN)"

definition is_finite :: "f64 \<Rightarrow> bool" where
  "is_finite x = (case x of Fin _ \<Rightarrow> True | _ \<Rightarrow> False)"

text \<open>The IEEE order: every comparison with a NaN is false.\<close>

fun f64_less :: "f64 \<Rightarrow> f64 \<Rightarrow> bool" where
  "f64_less NaN _ = False"
| "f64_less _ NaN = False"
| "f64_less NegInf y = (y \<noteq> NegInf)"
| "f64_less _ NegInf = False"
| "f64_less PosInf _ = False"
| "f64_less (Fin _) PosInf = True"
| "f64_less (Fin a) (Fin b) = (a < b)"

definition f64_le :: "f64 \<Rightarrow> f64 \<Rightarrow> bool" where
  "f64_le x y = (f64_less x y \<or> (x = y \<and> x \<noteq> NaN))"

subsection \<open>Results\<close>

text \<open>A Rust \<open>Result\<close> is a sum with the error on the left; \<open>bind_res\<close> is the \<open>?\<close> operator.\<close>

definition bind_res :: "'e + 'a \<Rightarrow> ('a \<Rightarrow> 'e + 'b) \<Rightarrow> 'e + 'b" where
  "bind_res r f = (case r of Inl e \<Rightarrow> Inl e | Inr a \<Rightarrow> f a)"

lemma bind_res_simps [simp]:
  "bind_res (Inl e) f = Inl e"
  "bind_res (Inr a) f = f a"
  by (simp_all add: bind_res_def)

lemma bind_res_eq_Inr: "bind_res r f = Inr b \<longleftrightarrow> (\<exists>a. r = Inr a \<and> f a = Inr b)"
  by (cases r) auto

lemma bind_res_eq_Inl: "bind_res r f = Inl e \<longleftrightarrow> r = Inl e \<or> (\<exists>a. r = Inr a \<and> f a = Inl e)"
  by (cases r) auto

definition ok_or :: "'a option \<Rightarrow> 'e \<Rightarrow> 'e + 'a" where
  "ok_or x e = (case x of None \<Rightarrow> Inl e | Some a \<Rightarrow> Inr a)"

lemma ok_or_simps [simp]:
  "ok_or None e = Inl e"
  "ok_or (Some a) e = Inr a"
  by (simp_all add: ok_or_def)

subsection \<open>Lists\<close>

text \<open>\<open>partition_point\<close> of a slice: the length of the prefix that satisfies the predicate.\<close>

definition partition_point :: "('a \<Rightarrow> bool) \<Rightarrow> 'a list \<Rightarrow> nat" where
  "partition_point P xs = length (takeWhile P xs)"

lemma partition_point_le [simp]: "partition_point P xs \<le> length xs"
  by (simp add: partition_point_def length_takeWhile_le)

lemma take_partition_point: "take (partition_point P xs) xs = takeWhile P xs"
  unfolding partition_point_def by (rule takeWhile_eq_take [symmetric])

lemma drop_partition_point: "drop (partition_point P xs) xs = dropWhile P xs"
  unfolding partition_point_def by (rule dropWhile_eq_drop [symmetric])

lemma sum_list_filter_split:
  "sum_list (map f xs) =
     sum_list (map f (filter P xs)) + (sum_list (map f (filter (\<lambda>x. \<not> P x) xs)) :: nat)"
  by (induction xs) auto

lemma sum_list_filter_le:
  "sum_list (map f (filter P xs)) \<le> (sum_list (map f xs) :: nat)"
  by (induction xs) auto

end
