(* ===== verification/Ranges.thy ===== *)
theory Ranges
  imports Prelude
begin

text \<open>
  Byte ranges \<open>(pos, size)\<close>, as \<open>src/src/recovery/mapfile.rs\<close> computes with them:
  \<open>merge_byte_ranges\<close>, \<open>intersect\<close>, \<open>subtract\<close>, and \<open>snap_to_sectors\<close> of
  \<open>src/src/recovery/mod.rs\<close>. Each is proved to be the set operation on the bytes it denotes.
  The locale \<open>byte_ranges\<close> states that contract for the passes that scope their work with it.
\<close>

subsection \<open>What a list of ranges denotes\<close>

definition bytes_of :: "range list \<Rightarrow> nat set" where
  "bytes_of rs = (\<Union>r \<in> set rs. {fst r ..< fst r + snd r})"

definition total_len :: "range list \<Rightarrow> nat" where
  "total_len rs = sum_list (map snd rs)"

text \<open>Sorted, pairwise disjoint, non-empty ranges from \<open>c\<close> on, with representable ends.\<close>

fun disj_from :: "nat \<Rightarrow> range list \<Rightarrow> bool" where
  "disj_from c [] = True"
| "disj_from c ((p, n) # rs) = (c \<le> p \<and> 0 < n \<and> p + n \<le> u64_max \<and> disj_from (p + n) rs)"

text \<open>The same with a gap between neighbours, which is what merging leaves.\<close>

fun sep_from :: "nat \<Rightarrow> range list \<Rightarrow> bool" where
  "sep_from c [] = True"
| "sep_from c ((p, n) # rs) = (c \<le> p \<and> 0 < n \<and> p + n \<le> u64_max \<and> sep_from (Suc (p + n)) rs)"

definition ranges_ok :: "range list \<Rightarrow> bool" where
  "ranges_ok rs = (\<forall>r \<in> set rs. fst r + snd r \<le> u64_max)"

lemma bytes_of_Nil [simp, denot]: "bytes_of [] = {}"
  by (simp add: bytes_of_def)

lemma bytes_of_Cons [simp, denot]: "bytes_of (r # rs) = {fst r ..< fst r + snd r} \<union> bytes_of rs"
  by (simp add: bytes_of_def)

lemma bytes_of_append [simp, denot]: "bytes_of (xs @ ys) = bytes_of xs \<union> bytes_of ys"
  by (simp add: bytes_of_def)

lemma bytes_of_rev [simp, denot]: "bytes_of (rev xs) = bytes_of xs"
  by (simp add: bytes_of_def)

lemma bytes_of_filter_pos [simp]: "bytes_of (filter (\<lambda>r. 0 < snd r) rs) = bytes_of rs"
  by (induction rs) auto

lemma bytes_of_sort [simp]: "bytes_of (sort rs) = bytes_of rs"
  by (simp add: bytes_of_def)

lemma finite_bytes_of [simp]: "finite (bytes_of rs)"
  by (simp add: bytes_of_def)

lemma bytes_of_concat: "bytes_of (concat xss) = (\<Union>xs \<in> set xss. bytes_of xs)"
  by (induction xss) auto

lemma total_len_simps [simp]:
  "total_len [] = 0"
  "total_len (r # rs) = snd r + total_len rs"
  "total_len (xs @ ys) = total_len xs + total_len ys"
  "total_len (rev xs) = total_len xs"
  by (simp_all add: total_len_def rev_map [symmetric])

lemma disj_from_mono: "disj_from c rs \<Longrightarrow> d \<le> c \<Longrightarrow> disj_from d rs"
  by (cases rs) auto

lemma disj_from_lower: "disj_from c rs \<Longrightarrow> bytes_of rs \<subseteq> {c ..}"
proof (induction rs arbitrary: c)
  case (Cons r rs)
  then show ?case
    by (cases r) fastforce
qed simp

lemma sep_from_mono: "sep_from c rs \<Longrightarrow> d \<le> c \<Longrightarrow> sep_from d rs"
  by (cases rs) auto

lemma sep_imp_disj: "sep_from c rs \<Longrightarrow> disj_from c rs"
  by (induction c rs rule: sep_from.induct) (auto intro: disj_from_mono)

lemma disj_from_mem:
  "disj_from c rs \<Longrightarrow> r \<in> set rs \<Longrightarrow> c \<le> fst r \<and> 0 < snd r \<and> fst r + snd r \<le> u64_max"
  by (induction c rs rule: disj_from.induct) fastforce+

lemma disj_from_ok: "disj_from c rs \<Longrightarrow> ranges_ok rs"
  by (induction c rs rule: disj_from.induct) (auto simp: ranges_ok_def)

lemma ranges_ok_Cons [simp]: "ranges_ok (r # rs) \<longleftrightarrow> fst r + snd r \<le> u64_max \<and> ranges_ok rs"
  by (auto simp: ranges_ok_def)

lemma ranges_ok_Nil [simp]: "ranges_ok []"
  by (simp add: ranges_ok_def)

lemma disj_from_append:
  "disj_from c (xs @ ys) \<longleftrightarrow>
     disj_from c xs \<and> disj_from (if xs = [] then c else fst (last xs) + snd (last xs)) ys"
proof (induction c xs rule: disj_from.induct)
  case (2 c p n rs)
  then show ?case by auto
qed simp

text \<open>Disjoint ranges: the sizes add up to the number of bytes.\<close>

lemma total_len_card: "disj_from c rs \<Longrightarrow> total_len rs = card (bytes_of rs)"
proof (induction rs arbitrary: c)
  case (Cons r rs)
  obtain p n where r: "r = (p, n)" by (cases r)
  have "{p..<p + n} \<inter> bytes_of rs = {}"
    using Cons.prems disj_from_lower [of "p + n" rs] by (auto simp: r)
  then show ?case
    using Cons by (auto simp: r card_Un_disjoint)
qed simp

lemma disj_from_upper: "disj_from c rs \<Longrightarrow> bytes_of rs \<subseteq> {..<u64_max}"
  by (induction c rs rule: disj_from.induct) auto

lemma disj_from_total_le: "disj_from c rs \<Longrightarrow> c \<le> u64_max \<Longrightarrow> c + total_len rs \<le> u64_max"
proof (induction c rs rule: disj_from.induct)
  case (2 c p n rs)
  then show ?case by auto
qed simp

subsection \<open>Merging\<close>

definition merge_push :: "range list \<Rightarrow> range \<Rightarrow> range list" where
  "merge_push acc r =
     (case r of (p, n) \<Rightarrow>
       (case acc of
          (lp, lsz) # rest \<Rightarrow>
            (if p \<le> sat_add lp lsz then (lp, max lsz (sat_add p n - lp)) # rest else (p, n) # acc)
        | [] \<Rightarrow> [(p, n)]))"

text \<open>The output vector is built at the head of \<open>acc\<close>, so the result is its reverse.\<close>

definition merge_byte_ranges :: "range list \<Rightarrow> range list" where
  "merge_byte_ranges rs =
     rev (foldl merge_push [] (filter (\<lambda>r. 0 < snd r) (sort rs)))"

text \<open>Reversed separated lists: the accumulator's invariant.\<close>

definition merge_inv :: "range list \<Rightarrow> bool" where
  "merge_inv acc = sep_from 0 (rev acc)"

lemma sep_from_append:
  "sep_from c (xs @ ys) \<longleftrightarrow>
     sep_from c xs \<and> sep_from (if xs = [] then c else Suc (fst (last xs) + snd (last xs))) ys"
proof (induction c xs rule: sep_from.induct)
  case (2 c p n rs)
  then show ?case by (cases rs) auto
qed simp

lemma merge_push_ok:
  assumes "merge_inv acc" and "0 < snd r" and "fst r + snd r \<le> u64_max"
    and "acc \<noteq> [] \<Longrightarrow> fst (hd acc) \<le> fst r"
  shows "merge_inv (merge_push acc r)"
    and "bytes_of (merge_push acc r) = bytes_of acc \<union> {fst r ..< fst r + snd r}"
    and "fst (hd (merge_push acc r)) \<le> fst r"
    and "merge_push acc r \<noteq> []"
proof -
  obtain p n where r: "r = (p, n)" by (cases r)
  have all: "merge_inv (merge_push acc r) \<and>
      bytes_of (merge_push acc r) = bytes_of acc \<union> {fst r ..< fst r + snd r} \<and>
      fst (hd (merge_push acc r)) \<le> fst r \<and> merge_push acc r \<noteq> []"
  proof (cases acc)
    case Nil
    with assms show ?thesis by (simp add: merge_push_def merge_inv_def r)
  next
    case (Cons l rest)
    obtain lp lsz where l: "l = (lp, lsz)" by (cases l)
    from assms have sep: "sep_from 0 (rev rest @ [(lp, lsz)])" and lp: "lp \<le> p"
      and n: "0 < n" "p + n \<le> u64_max"
      by (auto simp: merge_inv_def Cons l r)
    from sep have ll: "0 < lsz" "lp + lsz \<le> u64_max" by (simp_all add: sep_from_append)
    show ?thesis
    proof (cases "p \<le> lp + lsz")
      case True
      then have "max lsz (p + n - lp) + lp \<le> u64_max" using ll n lp by auto
      moreover have "{lp ..< lp + max lsz (p + n - lp)} = {lp ..< lp + lsz} \<union> {p ..< p + n}"
        using True lp by auto
      ultimately show ?thesis using True sep ll n lp
        by (auto simp: merge_push_def merge_inv_def Cons l r arith64 sep_from_append Un_ac)
    next
      case False
      then show ?thesis using sep ll n lp
        by (auto simp: merge_push_def merge_inv_def Cons l r arith64 sep_from_append)
    qed
  qed
  then show "merge_inv (merge_push acc r)"
    and "bytes_of (merge_push acc r) = bytes_of acc \<union> {fst r ..< fst r + snd r}"
    and "fst (hd (merge_push acc r)) \<le> fst r"
    and "merge_push acc r \<noteq> []" by auto
qed

lemma foldl_merge_push:
  assumes "merge_inv acc" and "sorted (map fst rs)" and "\<forall>r \<in> set rs. 0 < snd r" and "ranges_ok rs"
    and "acc \<noteq> [] \<Longrightarrow> \<forall>r \<in> set rs. fst (hd acc) \<le> fst r"
  shows "merge_inv (foldl merge_push acc rs) \<and>
    bytes_of (foldl merge_push acc rs) = bytes_of acc \<union> bytes_of rs"
  using assms
proof (induction rs arbitrary: acc)
  case (Cons r rs)
  note step = merge_push_ok [of acc r]
  have pre: "merge_inv acc" "0 < snd r" "fst r + snd r \<le> u64_max" "acc \<noteq> [] \<Longrightarrow> fst (hd acc) \<le> fst r"
    using Cons.prems by auto
  have "\<forall>x \<in> set rs. fst (hd (merge_push acc r)) \<le> fst x"
    using step(3) [OF pre] Cons.prems(2) by (fastforce intro: order_trans)
  then have "merge_inv (foldl merge_push (merge_push acc r) rs) \<and>
      bytes_of (foldl merge_push (merge_push acc r) rs) = bytes_of (merge_push acc r) \<union> bytes_of rs"
    using Cons.prems step(1) [OF pre] by (intro Cons.IH) auto
  then show ?case using step(2) [OF pre] by auto
qed simp

lemma sorted_map_fst_sort: "sorted (map fst (sort (rs :: range list)))"
proof -
  have "sorted_wrt (\<le>) (sort rs)" by simp
  then have "sorted_wrt (\<lambda>x y. fst x \<le> fst y) (sort rs)"
    by (rule sorted_wrt_mono_rel [rotated]) (auto simp: less_eq_prod_def)
  then show ?thesis by (simp add: sorted_wrt_map)
qed

lemma merge_byte_ranges_correct:
  assumes "ranges_ok rs"
  shows "sep_from 0 (merge_byte_ranges rs) \<and> bytes_of (merge_byte_ranges rs) = bytes_of rs"
proof -
  let ?rs = "filter (\<lambda>r. 0 < snd r) (sort rs)"
  have srt: "sorted (map fst ?rs)"
    by (intro sorted_filter sorted_map_fst_sort)
  have pos: "\<forall>r \<in> set ?rs. 0 < snd r" by simp
  have ok: "ranges_ok ?rs" using assms unfolding ranges_ok_def by simp
  have ini: "merge_inv []" unfolding merge_inv_def by simp
  have "merge_inv (foldl merge_push [] ?rs) \<and>
      bytes_of (foldl merge_push [] ?rs) = bytes_of [] \<union> bytes_of ?rs"
    by (rule foldl_merge_push [OF ini srt pos ok]) (simp only: simp_thms)
  then show ?thesis by (simp add: merge_byte_ranges_def merge_inv_def)
qed

text \<open>A separated list is a fixed point, so merging is idempotent.\<close>

lemma sep_from_sorted: "sep_from c rs \<Longrightarrow> sorted rs \<and> (\<forall>r \<in> set rs. c \<le> fst r \<and> 0 < snd r)"
proof (induction c rs rule: sep_from.induct)
  case (2 c p n rs)
  then have "sorted rs" "\<forall>r \<in> set rs. Suc (p + n) \<le> fst r \<and> 0 < snd r" by auto
  moreover from this have "\<forall>r \<in> set rs. (p, n) \<le> r \<and> p \<le> fst r" by (auto simp: less_eq_prod_def)
  moreover have "c \<le> p" "0 < n" using 2(2) by auto
  ultimately show ?case by (auto intro: order_trans)
qed simp

lemma foldl_merge_push_sep:
  "sep_from c rs \<Longrightarrow> (acc \<noteq> [] \<Longrightarrow> sat_add (fst (hd acc)) (snd (hd acc)) < c) \<Longrightarrow>
     foldl merge_push acc rs = rev rs @ acc"
proof (induction c rs arbitrary: acc rule: sep_from.induct)
  case (2 c p n rs)
  then have "merge_push acc (p, n) = (p, n) # acc"
    by (cases acc) (auto simp: merge_push_def)
  then show ?case using 2 by (simp add: arith64)
qed simp

lemma merge_byte_ranges_id: "sep_from 0 rs \<Longrightarrow> merge_byte_ranges rs = rs"
proof -
  assume sep: "sep_from 0 rs"
  then have "sort rs = rs" "filter (\<lambda>r. 0 < snd r) rs = rs"
    using sep_from_sorted [OF sep] by (auto simp: sorted_sort_id intro: filter_True)
  then show ?thesis using foldl_merge_push_sep [OF sep, of "[]"] by (simp add: merge_byte_ranges_def)
qed

subsection \<open>Intersection and difference\<close>

text \<open>One walk over both lists: the range that ends first is dropped.\<close>

fun intersect :: "range list \<Rightarrow> range list \<Rightarrow> range list" where
  "intersect ((p, n) # rs) ((sp, sn) # ss) =
     (let e = sat_add p n; se = sat_add sp sn; a = max p sp; b = min e se
      in (if a < b then [(a, b - a)] else []) @
         (if e \<le> se then intersect rs ((sp, sn) # ss) else intersect ((p, n) # rs) ss))"
| "intersect [] ss = []"
| "intersect rs [] = []"

text \<open>What one cut leaves of one range: the bytes before it and the bytes after it.\<close>

definition cut_one :: "range \<Rightarrow> range \<Rightarrow> range list" where
  "cut_one c r =
     (let cp = fst c; cend = sat_add cp (snd c); p = fst r; e = sat_add p (snd r)
      in (if p < min cp e then [(p, min cp e - p)] else []) @
         (if max cend p < e then [(max cend p, e - max cend p)] else []))"

definition subtract :: "range list \<Rightarrow> range list \<Rightarrow> range list" where
  "subtract rs cuts = foldl (\<lambda>out c. concat (map (cut_one c) out)) rs cuts"

lemma intersect_Nil2 [simp]: "intersect rs [] = []"
  by (cases rs) auto

lemma intersect_lower: "disj_from c rs \<Longrightarrow> disj_from d ss \<Longrightarrow>
  disj_from (max c d) (intersect rs ss)"
proof (induction rs ss arbitrary: c d rule: intersect.induct)
  case (1 p n rs sp sn ss)
  from "1.prems" have r: "c \<le> p" "0 < n" "p + n \<le> u64_max" "disj_from (p + n) rs"
    and s: "d \<le> sp" "0 < sn" "sp + sn \<le> u64_max" "disj_from (sp + sn) ss" by auto
  show ?case
  proof (cases "p + n \<le> sp + sn")
    case True
    have "disj_from (max (p + n) sp) (intersect rs ((sp, sn) # ss))"
      using "1.IH"(1) [of "sat_add p n" "sat_add sp sn" "max p sp" "min (p + n) (sp + sn)" "p + n" sp] r s True
      by (simp add: arith64)
    then show ?thesis using r s True
      by (auto simp: Let_def arith64 max_def intro: disj_from_mono split: if_splits)
  next
    case False
    have "disj_from (max p (sp + sn)) (intersect ((p, n) # rs) ss)"
      using "1.IH"(2) [of "sat_add p n" "sat_add sp sn" "max p sp" "min (p + n) (sp + sn)" p "sp + sn"] r s False
      by (simp add: arith64)
    then show ?thesis using r s False
      by (auto simp: Let_def arith64 max_def min_def intro: disj_from_mono split: if_splits)
  qed
qed auto

lemma intersect_bytes: "disj_from c rs \<Longrightarrow> disj_from d ss \<Longrightarrow>
  bytes_of (intersect rs ss) = bytes_of rs \<inter> bytes_of ss"
proof (induction rs ss arbitrary: c d rule: intersect.induct)
  case (1 p n rs sp sn ss)
  from "1.prems" have r: "p + n \<le> u64_max" "disj_from (p + n) rs" "0 < n"
    and s: "sp + sn \<le> u64_max" "disj_from (sp + sn) ss" "0 < sn" by auto
  note lows = disj_from_lower [OF r(2)] disj_from_lower [OF s(2)]
  have head: "bytes_of (if max p sp < min (p + n) (sp + sn)
      then [(max p sp, min (p + n) (sp + sn) - max p sp)] else []) = {p..<p + n} \<inter> {sp..<sp + sn}"
    by auto
  show ?case
  proof (cases "p + n \<le> sp + sn")
    case True
    have IH: "bytes_of (intersect rs ((sp, sn) # ss)) = bytes_of rs \<inter> bytes_of ((sp, sn) # ss)"
      using "1.IH"(1) [of "sat_add p n" "sat_add sp sn" "max p sp" "min (p + n) (sp + sn)" "p + n" sp] r s True
      by (simp add: arith64)
    have "bytes_of (intersect ((p, n) # rs) ((sp, sn) # ss)) =
        ({p..<p + n} \<inter> {sp..<sp + sn}) \<union> (bytes_of rs \<inter> bytes_of ((sp, sn) # ss))"
      unfolding IH [symmetric] head [symmetric] bytes_of_append [symmetric]
      using r s True by (simp add: arith64 Let_def del: bytes_of_append bytes_of_Cons)
    also have "\<dots> = bytes_of ((p, n) # rs) \<inter> bytes_of ((sp, sn) # ss)"
      using lows True by fastforce
    finally show ?thesis .
  next
    case False
    have IH: "bytes_of (intersect ((p, n) # rs) ss) = bytes_of ((p, n) # rs) \<inter> bytes_of ss"
      using "1.IH"(2) [of "sat_add p n" "sat_add sp sn" "max p sp" "min (p + n) (sp + sn)" p "sp + sn"] r s False
      by (simp add: arith64 del: bytes_of_Cons)
    have "bytes_of (intersect ((p, n) # rs) ((sp, sn) # ss)) =
        ({p..<p + n} \<inter> {sp..<sp + sn}) \<union> (bytes_of ((p, n) # rs) \<inter> bytes_of ss)"
      unfolding IH [symmetric] head [symmetric] bytes_of_append [symmetric]
      using r s False by (simp add: arith64 Let_def del: bytes_of_append bytes_of_Cons)
    also have "\<dots> = bytes_of ((p, n) # rs) \<inter> bytes_of ((sp, sn) # ss)"
      using lows False by fastforce
    finally show ?thesis .
  qed
qed auto

lemma cut_one_bytes:
  assumes "fst c + snd c \<le> u64_max" and "fst r + snd r \<le> u64_max"
  shows "bytes_of (cut_one c r) = {fst r ..< fst r + snd r} - {fst c ..< fst c + snd c}"
  using assms by (auto simp: cut_one_def Let_def arith64)

lemma cut_one_disj:
  assumes "p + n \<le> u64_max" and "d \<le> p"
  shows "disj_from d (cut_one c (p, n))"
    and "cut_one c (p, n) \<noteq> [] \<Longrightarrow>
      fst (last (cut_one c (p, n))) + snd (last (cut_one c (p, n))) \<le> p + n"
  using assms by (auto simp: cut_one_def Let_def sat_add_def split: if_splits)

lemma cut_all_disj: "disj_from d rs \<Longrightarrow> disj_from d (concat (map (cut_one c) rs))"
proof (induction d rs rule: disj_from.induct)
  case (2 d p n rs)
  let ?x = "cut_one c (p, n)"
  from 2 have rest: "disj_from (p + n) (concat (map (cut_one c) rs))" by simp
  have "disj_from d ?x" using 2 cut_one_disj(1) by simp
  moreover have "?x \<noteq> [] \<Longrightarrow> fst (last ?x) + snd (last ?x) \<le> p + n"
    using 2 cut_one_disj(2) [of p n d c] by simp
  ultimately show ?case
    using 2 rest by (simp add: disj_from_append) (metis disj_from_mono le_add1 le_trans)
qed simp

lemma cut_all_bytes:
  assumes "fst c + snd c \<le> u64_max" and "ranges_ok rs"
  shows "bytes_of (concat (map (cut_one c) rs)) = bytes_of rs - {fst c ..< fst c + snd c}"
  using assms(2) by (induction rs) (auto simp: cut_one_bytes [OF assms(1)])

lemma subtract_correct:
  assumes "disj_from d rs" and "ranges_ok cuts"
  shows "disj_from d (subtract rs cuts) \<and> bytes_of (subtract rs cuts) = bytes_of rs - bytes_of cuts"
  using assms
proof (induction cuts arbitrary: rs)
  case Nil
  then show ?case by (simp add: subtract_def)
next
  case (Cons c cuts)
  let ?rs = "concat (map (cut_one c) rs)"
  have "disj_from d (subtract ?rs cuts) \<and> bytes_of (subtract ?rs cuts) = bytes_of ?rs - bytes_of cuts"
    using Cons.prems by (intro Cons.IH cut_all_disj) auto
  moreover have "bytes_of ?rs = bytes_of rs - {fst c ..< fst c + snd c}"
    using Cons.prems disj_from_ok by (intro cut_all_bytes) auto
  ultimately show ?case by (auto simp: subtract_def)
qed

subsection \<open>The contract the passes rely on\<close>

text \<open>
  A pass takes its work list as ranges, narrows it to a scope and drops sectors it must not
  read; every progress figure it reports is a sum of sizes. The locale states what those
  figures then mean.
\<close>

locale byte_ranges =
  fixes bytes :: "'r \<Rightarrow> nat set"
    and len :: "'r \<Rightarrow> nat"
    and good :: "'r \<Rightarrow> bool"
    and inter :: "'r \<Rightarrow> 'r \<Rightarrow> 'r"
    and diff :: "'r \<Rightarrow> 'r \<Rightarrow> 'r"
  assumes finite_bytes: "finite (bytes a)"
    and len_card: "good a \<Longrightarrow> len a = card (bytes a)"
    and good_inter: "good a \<Longrightarrow> good b \<Longrightarrow> good (inter a b)"
    and bytes_inter: "good a \<Longrightarrow> good b \<Longrightarrow> bytes (inter a b) = bytes a \<inter> bytes b"
    and good_diff: "good a \<Longrightarrow> good b \<Longrightarrow> good (diff a b)"
    and bytes_diff: "good a \<Longrightarrow> good b \<Longrightarrow> bytes (diff a b) = bytes a - bytes b"
begin

lemma work_split:
  assumes "good a" and "good b"
  shows "len a = len (diff a b) + len (inter a b)"
proof -
  have "card (bytes a) = card (bytes a - bytes b) + card (bytes a \<inter> bytes b)"
    using card_Diff_subset_Int [of "bytes a" "bytes b"] card_mono [of "bytes a" "bytes a \<inter> bytes b"]
    by (simp add: finite_bytes)
  then show ?thesis
    using assms by (simp add: len_card good_inter good_diff bytes_inter bytes_diff)
qed

lemma len_inter_le: "good a \<Longrightarrow> good b \<Longrightarrow> len (inter a b) \<le> len a"
  using work_split [of a b] by simp

lemma len_diff_le: "good a \<Longrightarrow> good b \<Longrightarrow> len (diff a b) \<le> len a"
  using work_split [of a b] by simp

lemma covered_iff:
  assumes "good a" and "good b"
  shows "len (inter a b) = len a \<longleftrightarrow> bytes a \<subseteq> bytes b"
proof
  assume "len (inter a b) = len a"
  then have "len (diff a b) = 0" using work_split [OF assms] by simp
  then show "bytes a \<subseteq> bytes b"
    using assms by (simp add: len_card good_diff bytes_diff finite_bytes)
next
  assume "bytes a \<subseteq> bytes b"
  then have "bytes a \<inter> bytes b = bytes a" by blast
  then show "len (inter a b) = len a"
    using assms by (simp add: len_card good_inter bytes_inter)
qed

end

interpretation br: byte_ranges bytes_of total_len "disj_from 0" intersect subtract
proof (unfold_locales, goal_cases)
  case (2 a) then show ?case by (rule total_len_card)
next
  case (3 a b) then show ?case using intersect_lower [of 0 a 0 b] by simp
next
  case (4 a b) then show ?case by (rule intersect_bytes)
next
  case (5 a b) then show ?case using subtract_correct disj_from_ok by blast
next
  case (6 a b) then show ?case using subtract_correct disj_from_ok by blast
qed simp

subsection \<open>Sector alignment\<close>

definition SECTOR :: nat where
  "SECTOR = 2048"

definition div_ceil :: "nat \<Rightarrow> nat \<Rightarrow> nat" where
  "div_ceil a b = (a + b - 1) div b"

text \<open>The end is computed in 128 bits, then clamped to the last whole sector of 64 bits.\<close>

definition snap_to_sectors :: "nat \<Rightarrow> nat \<Rightarrow> range" where
  "snap_to_sectors pos n =
     (let start = pos - pos mod SECTOR
      in if n = 0 then (start, 0)
         else (let end128 = div_ceil (pos + n) SECTOR * SECTOR;
                   max_end = (u64_max div SECTOR) * SECTOR;
                   e = min end128 max_end
               in (start, e - start)))"

definition aligned :: "range \<Rightarrow> bool" where
  "aligned r = (fst r mod SECTOR = 0 \<and> snd r mod SECTOR = 0)"

lemma SECTOR_pos [simp]: "0 < SECTOR"
  by (simp add: SECTOR_def)

lemma div_ceil_mult_ge: "a \<le> div_ceil a SECTOR * SECTOR"
proof -
  let ?x = "a + SECTOR - 1"
  have "?x = ?x div SECTOR * SECTOR + ?x mod SECTOR" by simp
  moreover have "?x mod SECTOR < SECTOR" by simp
  ultimately show ?thesis unfolding div_ceil_def using SECTOR_pos by linarith
qed

lemma snap_aligned: "aligned (snap_to_sectors pos n)"
proof -
  have st: "SECTOR dvd pos - pos mod SECTOR" by (simp add: minus_mod_eq_mult_div)
  have "SECTOR dvd min (a * SECTOR) (b * SECTOR) - (pos - pos mod SECTOR)" for a b
    by (intro dvd_diff_nat st) (simp add: min_def)
  then show ?thesis
    unfolding aligned_def snap_to_sectors_def Let_def
    using st by (cases "n = 0") (simp_all only: if_True if_False fst_conv snd_conv dvd_imp_mod_0 mod_0 simp_thms)
qed

lemma snap_start: "fst (snap_to_sectors pos n) = pos - pos mod SECTOR"
  by (simp add: snap_to_sectors_def Let_def)

lemma snap_end_le: "fst (snap_to_sectors pos n) + snd (snap_to_sectors pos n) \<le> u64_max \<or>
  snd (snap_to_sectors pos n) = 0"
  by (auto simp: snap_to_sectors_def Let_def SECTOR_def u64_max_def)

lemma snap_covers:
  assumes "pos + n \<le> (u64_max div SECTOR) * SECTOR"
  shows "{pos ..< pos + n} \<subseteq> bytes_of [snap_to_sectors pos n]"
proof -
  have "pos + n \<le> min (div_ceil (pos + n) SECTOR * SECTOR) ((u64_max div SECTOR) * SECTOR)"
    using assms div_ceil_mult_ge by simp
  then show ?thesis by (auto simp: snap_to_sectors_def Let_def)
qed

lemma div_ceil_mult_less: "div_ceil a SECTOR * SECTOR < a + SECTOR"
proof -
  have "(a + SECTOR - 1) div SECTOR * SECTOR \<le> a + SECTOR - 1" by simp
  then show ?thesis unfolding div_ceil_def using SECTOR_pos by linarith
qed

lemma snap_tight:
  assumes "pos + n \<le> (u64_max div SECTOR) * SECTOR" and "0 < n"
  shows "fst (snap_to_sectors pos n) + snd (snap_to_sectors pos n) < pos + n + SECTOR"
proof -
  have "pos - pos mod SECTOR \<le> min (div_ceil (pos + n) SECTOR * SECTOR) ((u64_max div SECTOR) * SECTOR)"
    using assms(1) div_ceil_mult_ge [of "pos + n"] by (intro min.boundedI) linarith+
  then show ?thesis
    using assms(2) div_ceil_mult_less [of "pos + n"] by (simp add: snap_to_sectors_def Let_def)
qed

subsection \<open>Properties\<close>

text \<open>
Merging byte ranges keeps exactly their bytes, leaves sorted ranges with a gap between
neighbours, changes nothing the second time, and its sizes add up to the number of bytes.
\<close>

theorem merge_byte_ranges_exact:
  assumes "ranges_ok rs"
  shows "sep_from 0 (merge_byte_ranges rs) \<and> bytes_of (merge_byte_ranges rs) = bytes_of rs \<and>
    merge_byte_ranges (merge_byte_ranges rs) = merge_byte_ranges rs \<and>
    total_len (merge_byte_ranges rs) = card (bytes_of rs)"
  using merge_byte_ranges_correct [OF assms] merge_byte_ranges_id sep_imp_disj total_len_card by metis

theorem merge_byte_ranges_exact_witness:
  "merge_byte_ranges [(5, 3), (0, 2), (2, 4), (9, 0)] = [(0, 8)] \<and>
   bytes_of (merge_byte_ranges [(5, 3), (0, 2), (2, 4), (9, 0)]) = bytes_of [(5, 3), (0, 2), (2, 4), (9, 0)]"
  using merge_byte_ranges_exact [of "[(5, 3), (0, 2), (2, 4), (9, 0)]"]
  by (simp add: u64_max_def merge_byte_ranges_def merge_push_def sat_add_def)

text \<open>
Narrowing a work list to a scope keeps exactly the common bytes, cutting sectors out keeps
exactly the others, both results are again sorted and disjoint, and their sizes add up to the size of
the work list.
\<close>

theorem narrowing_exact:
  assumes "disj_from 0 rs" and "disj_from 0 sc"
  shows "bytes_of (intersect rs sc) = bytes_of rs \<inter> bytes_of sc \<and> disj_from 0 (intersect rs sc) \<and>
    bytes_of (subtract rs sc) = bytes_of rs - bytes_of sc \<and> disj_from 0 (subtract rs sc) \<and>
    total_len rs = total_len (subtract rs sc) + total_len (intersect rs sc)"
  using br.good_inter [OF assms] br.bytes_inter [OF assms] br.good_diff [OF assms]
    br.bytes_diff [OF assms] br.work_split [OF assms] by simp

theorem narrowing_exact_witness:
  "intersect [(0, 10), (20, 10)] [(5, 20)] = [(5, 5), (20, 5)] \<and>
   subtract [(0, 10), (20, 10)] [(5, 20)] = [(0, 5), (25, 5)] \<and>
   total_len [(0, 10), (20, 10)] =
     total_len (subtract [(0, 10), (20, 10)] [(5, 20)]) + total_len (intersect [(0, 10), (20, 10)] [(5, 20)])"
  using narrowing_exact [of "[(0, 10), (20, 10)]" "[(5, 20)]"]
  by (simp add: u64_max_def sat_add_def subtract_def cut_one_def Let_def)

text \<open>
Snapping a byte span to sectors gives an aligned span that contains it and reaches less than one
sector beyond either end.
\<close>

theorem snap_to_sectors_exact:
  assumes "pos + n \<le> (u64_max div SECTOR) * SECTOR" and "0 < n"
  shows "aligned (snap_to_sectors pos n) \<and>
    fst (snap_to_sectors pos n) \<le> pos \<and> pos < fst (snap_to_sectors pos n) + SECTOR \<and>
    pos + n \<le> fst (snap_to_sectors pos n) + snd (snap_to_sectors pos n) \<and>
    fst (snap_to_sectors pos n) + snd (snap_to_sectors pos n) < pos + n + SECTOR"
proof -
  have "pos + n - 1 \<in> bytes_of [snap_to_sectors pos n]"
    using snap_covers [OF assms(1)] assms(2) by (rule_tac subsetD) auto
  then have "pos + n \<le> fst (snap_to_sectors pos n) + snd (snap_to_sectors pos n)"
    using assms(2) by auto
  moreover have "pos - pos mod SECTOR \<le> pos" "pos < pos - pos mod SECTOR + SECTOR"
    using mod_less_divisor [OF SECTOR_pos, of pos] mod_less_eq_dividend [of pos SECTOR] by linarith+
  ultimately show ?thesis
    using snap_aligned snap_tight [OF assms] by (simp add: snap_start)
qed

theorem snap_to_sectors_exact_witness:
  "aligned (snap_to_sectors 3000 100) \<and> snap_to_sectors 3000 100 = (2048, 2048)"
  using snap_to_sectors_exact [of 3000 100]
  by (simp add: u64_max_def SECTOR_def snap_to_sectors_def div_ceil_def)

end
