(* ===== verification/MapfileCore.thy ===== *)
theory MapfileCore
  imports Ranges
begin

text \<open>
  The damage map of \<open>src/src/recovery/mapfile.rs\<close> in memory: its runs, the status of a byte,
  \<open>record\<close> (through \<open>splice\<close>), \<open>promote\<close>, the queries and the incrementally kept statistics.

  The representation invariant \<open>canon\<close> is the maximal-run partition of the source's comment.
  The abstraction \<open>look\<close> maps a list of runs to the status of each byte; \<open>splice\<close> is proved to be
  a function update of it, and two canonical lists with the same abstraction are equal.
\<close>

subsection \<open>Statuses\<close>

datatype SectorStatus = NonTried | NonTrimmed | NonScraped | Unreadable | Finished

fun is_finished :: "SectorStatus \<Rightarrow> bool" where
  "is_finished Finished = True"
| "is_finished NonTried = False"
| "is_finished NonTrimmed = False"
| "is_finished NonScraped = False"
| "is_finished Unreadable = False"

definition bad_sector_statuses :: "SectorStatus list" where
  "bad_sector_statuses = [NonTried, NonTrimmed, NonScraped, Unreadable]"

definition damage_sector_statuses :: "SectorStatus list" where
  "damage_sector_statuses = [NonTrimmed, NonScraped, Unreadable]"

fun to_char :: "SectorStatus \<Rightarrow> char" where
  "to_char NonTried = CHR ''?''"
| "to_char NonTrimmed = CHR ''*''"
| "to_char NonScraped = CHR ''/''"
| "to_char Unreadable = CHR ''-''"
| "to_char Finished = CHR ''+''"

definition from_char :: "char \<Rightarrow> SectorStatus option" where
  "from_char c =
     (if c = CHR ''?'' then Some NonTried
      else if c = CHR ''*'' then Some NonTrimmed
      else if c = CHR ''/'' then Some NonScraped
      else if c = CHR ''-'' then Some Unreadable
      else if c = CHR ''+'' then Some Finished
      else None)"

lemma from_to_char [simp]: "from_char (to_char s) = Some s"
  by (cases s) (simp_all add: from_char_def)

lemma from_char_Some: "from_char c = Some s \<Longrightarrow> c = to_char s"
  by (auto simp: from_char_def split: if_splits)

subsection \<open>Runs\<close>

record MapEntry =
  e_pos :: u64
  e_size :: u64
  e_status :: SectorStatus

abbreviation entry :: "u64 \<Rightarrow> u64 \<Rightarrow> SectorStatus \<Rightarrow> MapEntry" where
  "entry p n s \<equiv> \<lparr>e_pos = p, e_size = n, e_status = s\<rparr>"

text \<open>\<open>run_end\<close> of \<open>splice\<close>: the saturated end of a run.\<close>

definition run_end :: "MapEntry \<Rightarrow> u64" where
  "run_end e = sat_add (e_pos e) (e_size e)"

definition mergeable :: "MapEntry \<Rightarrow> MapEntry \<Rightarrow> bool" where
  "mergeable l e = (run_end l = e_pos e \<and> e_status l = e_status e)"

text \<open>\<open>push_coalesced\<close> on an output vector whose last element is the head of the list.\<close>

definition push_coalesced :: "MapEntry list \<Rightarrow> MapEntry \<Rightarrow> MapEntry list" where
  "push_coalesced out e =
     (case out of
        l # rest \<Rightarrow>
          (if run_end l = e_pos e \<and> e_status l = e_status e
           then l\<lparr>e_size := sat_add (e_size l) (e_size e)\<rparr> # rest
           else e # out)
      | [] \<Rightarrow> [e])"

definition coalesce :: "MapEntry list \<Rightarrow> MapEntry list" where
  "coalesce es = rev (foldl push_coalesced [] es)"

subsection \<open>Statistics\<close>

record MapStats =
  bytes_total :: u64
  bytes_good :: u64
  bytes_unreadable :: u64
  bytes_pending :: u64
  bytes_nontried :: u64
  bytes_retryable :: u64
  num_bad_ranges :: nat
  main_lost_ms :: f64

definition MapStats_default :: MapStats where
  "MapStats_default =
     \<lparr>bytes_total = 0, bytes_good = 0, bytes_unreadable = 0, bytes_pending = 0,
      bytes_nontried = 0, bytes_retryable = 0, num_bad_ranges = 0, main_lost_ms = Fin 0\<rparr>"

text \<open>The closure \<open>f\<close> of \<open>tally\<close> and its 32-bit sibling.\<close>

definition bump :: "bool \<Rightarrow> u64 \<Rightarrow> u64 \<Rightarrow> u64" where
  "bump add n v = (if add then sat_add v n else v - n)"

definition bump32 :: "bool \<Rightarrow> nat \<Rightarrow> nat" where
  "bump32 add v = (if add then min (v + 1) u32_max else v - 1)"

definition tally :: "bool \<Rightarrow> MapStats \<Rightarrow> MapEntry \<Rightarrow> MapStats" where
  "tally add s e =
     (let f = bump add (e_size e)
      in case e_status e of
           Finished \<Rightarrow> s\<lparr>bytes_good := f (bytes_good s)\<rparr>
         | Unreadable \<Rightarrow> s\<lparr>bytes_unreadable := f (bytes_unreadable s),
                          num_bad_ranges := bump32 add (num_bad_ranges s)\<rparr>
         | NonTried \<Rightarrow> s\<lparr>bytes_pending := f (bytes_pending s), bytes_nontried := f (bytes_nontried s)\<rparr>
         | _ \<Rightarrow> s\<lparr>bytes_pending := f (bytes_pending s), bytes_retryable := f (bytes_retryable s)\<rparr>)"

definition compute_stats :: "MapEntry list \<Rightarrow> u64 \<Rightarrow> MapStats" where
  "compute_stats es tot = foldl (tally True) (MapStats_default\<lparr>bytes_total := tot\<rparr>) es"

subsection \<open>The mapfile and its operations\<close>

text \<open>
  Time stamps are milliseconds of a monotonic clock. \<open>disowned\<close> is the value of the shared flag.
  \<open>vidfp\<close> and the legacy fingerprints are byte lists.
\<close>

record Mapfile =
  path :: string
  entries :: "MapEntry list"
  total_size :: u64
  version :: string
  stats_field :: MapStats
  dirty :: bool
  last_flushed :: nat
  disc_hash :: "string option"
  vidfp :: "nat list option"
  legacy_keyfps :: "nat list list"
  scope :: "range list option"
  raw :: "bool option"
  disowned :: bool

text \<open>The scan of \<open>splice\<close> over the overlapped window; \<open>placed\<close> is its flag.\<close>

fun splice_pieces :: "u64 \<Rightarrow> u64 \<Rightarrow> MapEntry \<Rightarrow> bool \<Rightarrow> MapEntry list \<Rightarrow> MapEntry list" where
  "splice_pieces p q new_run placed [] = (if placed then [] else [new_run])"
| "splice_pieces p q new_run placed (e # es) =
     (let e_end = run_end e
      in if e_end \<le> p then e # splice_pieces p q new_run placed es
         else (if e_pos e < p then [entry (e_pos e) (p - e_pos e) (e_status e)] else []) @
              (if e_end > q \<and> \<not> placed then [new_run] else []) @
              (if e_pos e \<ge> q then [e]
               else if e_end > q then [entry q (e_end - q) (e_status e)] else []) @
              splice_pieces p q new_run (placed \<or> e_end > q) es)"

definition splice_lo :: "MapEntry list \<Rightarrow> u64 \<Rightarrow> nat" where
  "splice_lo es p = partition_point (\<lambda>e. run_end e < p) es"

definition splice_hi :: "MapEntry list \<Rightarrow> u64 \<Rightarrow> nat" where
  "splice_hi es q = partition_point (\<lambda>e. e_pos e \<le> q) es"

definition splice_window :: "MapEntry list \<Rightarrow> u64 \<Rightarrow> u64 \<Rightarrow> MapEntry list" where
  "splice_window es p q = drop (splice_lo es p) (take (splice_hi es q) es)"

definition splice_merged :: "MapEntry list \<Rightarrow> u64 \<Rightarrow> u64 \<Rightarrow> SectorStatus \<Rightarrow> MapEntry list" where
  "splice_merged es p q st =
     coalesce (splice_pieces p q (entry p (q - p) st) False (splice_window es p q))"

definition splice_entries :: "MapEntry list \<Rightarrow> u64 \<Rightarrow> u64 \<Rightarrow> SectorStatus \<Rightarrow> MapEntry list" where
  "splice_entries es p q st =
     take (splice_lo es p) es @ splice_merged es p q st @ drop (splice_hi es q) es"

definition splice_stats :: "MapEntry list \<Rightarrow> u64 \<Rightarrow> u64 \<Rightarrow> SectorStatus \<Rightarrow> MapStats \<Rightarrow> MapStats" where
  "splice_stats es p q st s =
     foldl (tally True) (foldl (tally False) s (splice_window es p q)) (splice_merged es p q st)"

definition splice :: "u64 \<Rightarrow> u64 \<Rightarrow> SectorStatus \<Rightarrow> Mapfile \<Rightarrow> Mapfile" where
  "splice p q st m =
     m\<lparr>entries := splice_entries (entries m) p q st,
       stats_field := splice_stats (entries m) p q st (stats_field m)\<rparr>"

text \<open>The loop of \<open>promote\<close>: the merged entries and whether a run was re-marked.\<close>

definition promote_entries :: "SectorStatus list \<Rightarrow> SectorStatus \<Rightarrow> MapEntry list \<Rightarrow> MapEntry list" where
  "promote_entries frm to es =
     coalesce (map (\<lambda>e. if e_status e \<in> set frm then e\<lparr>e_status := to\<rparr> else e) es)"

definition promote_hit :: "SectorStatus list \<Rightarrow> MapEntry list \<Rightarrow> bool" where
  "promote_hit frm es = list_ex (\<lambda>e. e_status e \<in> set frm) es"

definition promote_map :: "SectorStatus list \<Rightarrow> SectorStatus \<Rightarrow> Mapfile \<Rightarrow> Mapfile" where
  "promote_map frm to m =
     (let es = promote_entries frm to (entries m)
      in if promote_hit frm (entries m)
         then m\<lparr>entries := es, stats_field := compute_stats es (total_size m)\<rparr>
         else m\<lparr>entries := es\<rparr>)"

subsection \<open>Queries\<close>

definition ranges_with :: "Mapfile \<Rightarrow> SectorStatus list \<Rightarrow> range list" where
  "ranges_with m statuses =
     map (\<lambda>e. (e_pos e, e_size e)) (filter (\<lambda>e. e_status e \<in> set statuses) (entries m))"

fun next_with_entries :: "MapEntry list \<Rightarrow> u64 \<Rightarrow> SectorStatus \<Rightarrow> range option" where
  "next_with_entries [] from st = None"
| "next_with_entries (e # es) from st =
     (if e_status e \<noteq> st then next_with_entries es from st
      else if run_end e \<le> from then next_with_entries es from st
      else (let start = max (e_pos e) from in Some (start, run_end e - start)))"

definition next_with :: "Mapfile \<Rightarrow> u64 \<Rightarrow> SectorStatus \<Rightarrow> range option" where
  "next_with m from st = next_with_entries (entries m) from st"

text \<open>The inner sum of \<open>nontried_outside_scope\<close>: the scope bytes inside one run.\<close>

definition scope_inside :: "range list \<Rightarrow> u64 \<Rightarrow> u64 \<Rightarrow> u64" where
  "scope_inside sc p e_end =
     sum_list (map (\<lambda>r. min (sat_add (fst r) (snd r)) e_end - max (fst r) p)
       (takeWhile (\<lambda>r. fst r < e_end) sc))"

text \<open>The walk: \<open>sc\<close> is the rest of the scope from the index \<open>first\<close> on.\<close>

fun outside_walk :: "range list \<Rightarrow> MapEntry list \<Rightarrow> u64 \<Rightarrow> u64" where
  "outside_walk sc [] acc = acc"
| "outside_walk sc (e # es) acc =
     (let e_end = run_end e;
          sc' = dropWhile (\<lambda>r. sat_add (fst r) (snd r) \<le> e_pos e) sc;
          inside = scope_inside sc' (e_pos e) e_end
      in outside_walk sc' es (sat_add acc (e_size e - inside)))"

definition nontried_outside_scope :: "Mapfile \<Rightarrow> u64" where
  "nontried_outside_scope m =
     (case scope m of
        None \<Rightarrow> 0
      | Some sc \<Rightarrow> outside_walk sc (filter (\<lambda>e. e_status e = NonTried) (entries m)) 0)"

definition stats :: "Mapfile \<Rightarrow> MapStats" where
  "stats m =
     (case scope m of
        None \<Rightarrow> stats_field m
      | Some _ \<Rightarrow>
          (let outside = nontried_outside_scope m; s = stats_field m
           in s\<lparr>bytes_pending := bytes_pending s - outside,
                bytes_nontried := bytes_nontried s - outside\<rparr>))"

definition set_scope :: "range list \<Rightarrow> Mapfile \<Rightarrow> Mapfile" where
  "set_scope rs m = m\<lparr>scope := Some (merge_byte_ranges rs), dirty := True\<rparr>"

definition clear_scope :: "Mapfile \<Rightarrow> Mapfile" where
  "clear_scope m = (case scope m of Some _ \<Rightarrow> m\<lparr>scope := None, dirty := True\<rparr> | None \<Rightarrow> m)"

definition set_raw :: "bool \<Rightarrow> Mapfile \<Rightarrow> Mapfile" where
  "set_raw r m = (if raw m \<noteq> Some r then m\<lparr>raw := Some r, dirty := True\<rparr> else m)"

definition set_vid_fingerprint :: "nat list \<Rightarrow> Mapfile \<Rightarrow> Mapfile" where
  "set_vid_fingerprint fp m =
     (if vidfp m \<noteq> Some fp then m\<lparr>vidfp := Some fp, dirty := True\<rparr> else m)"

end
