(* ===== verification/MapfileInv.thy ===== *)
theory MapfileInv
  imports MapfileCore
begin

text \<open>
  The representation invariant of the damage map, its abstraction to a status per byte, and the
  proof that \<open>splice\<close> and \<open>promote\<close> refine updates of that abstraction. The locale \<open>damage_map\<close>
  at the end is what the passes, the sinks and the name-undo log rely on.
\<close>

subsection \<open>Invariant and abstraction\<close>

fun runs_from :: "nat \<Rightarrow> MapEntry list \<Rightarrow> bool" where
  "runs_from c [] = True"
| "runs_from c (e # es) =
     (c \<le> e_pos e \<and> 0 < e_size e \<and> e_pos e + e_size e \<le> u64_max \<and> runs_from (e_pos e + e_size e) es)"

fun maximal :: "MapEntry list \<Rightarrow> bool" where
  "maximal (a # b # es) = (\<not> mergeable a b \<and> maximal (b # es))"
| "maximal _ = True"

definition canon :: "MapEntry list \<Rightarrow> bool" where
  "canon es = (runs_from 0 es \<and> maximal es)"

fun look :: "MapEntry list \<Rightarrow> nat \<Rightarrow> SectorStatus option" where
  "look [] b = None"
| "look (e # es) b =
     (if e_pos e \<le> b \<and> b < e_pos e + e_size e then Some (e_status e) else look es b)"

lemma runs_from_mono: "runs_from c es \<Longrightarrow> d \<le> c \<Longrightarrow> runs_from d es"
  by (cases es) auto

lemma run_end_exact [arith64]: "e_pos e + e_size e \<le> u64_max \<Longrightarrow> run_end e = e_pos e + e_size e"
  by (simp add: run_end_def arith64)

lemma runs_from_append:
  "runs_from c (xs @ ys) \<longleftrightarrow>
     runs_from c xs \<and> runs_from (if xs = [] then c else e_pos (last xs) + e_size (last xs)) ys"
  by (induction c xs rule: runs_from.induct) auto

lemma runs_from_mem:
  "runs_from c es \<Longrightarrow> e \<in> set es \<Longrightarrow> c \<le> e_pos e \<and> 0 < e_size e \<and> e_pos e + e_size e \<le> u64_max"
  by (induction c es rule: runs_from.induct) fastforce+

lemma runs_from_run_end: "runs_from c es \<Longrightarrow> e \<in> set es \<Longrightarrow> run_end e = e_pos e + e_size e"
  by (simp add: runs_from_mem arith64)

lemma look_below: "runs_from c es \<Longrightarrow> b < c \<Longrightarrow> look es b = None"
  by (induction c es rule: runs_from.induct) auto

lemma look_append: "look (xs @ ys) b = (case look xs b of None \<Rightarrow> look ys b | s \<Rightarrow> s)"
  by (induction xs) auto

lemma look_Some_mem: "look es b = Some s \<Longrightarrow>
  \<exists>e \<in> set es. e_pos e \<le> b \<and> b < e_pos e + e_size e \<and> e_status e = s"
  by (induction es) (auto split: if_splits)

lemma look_mem: "runs_from c es \<Longrightarrow> e \<in> set es \<Longrightarrow> e_pos e \<le> b \<Longrightarrow> b < e_pos e + e_size e \<Longrightarrow>
  look es b = Some (e_status e)"
proof (induction c es rule: runs_from.induct)
  case (2 c x es)
  then show ?case using runs_from_mem [of "e_pos x + e_size x" es e] by auto
qed simp

lemma look_iff: "runs_from c es \<Longrightarrow> look es b = Some s \<longleftrightarrow>
  (\<exists>e \<in> set es. e_pos e \<le> b \<and> b < e_pos e + e_size e \<and> e_status e = s)"
  using look_mem look_Some_mem by blast

lemma maximal_append:
  "maximal (xs @ ys) \<longleftrightarrow>
     maximal xs \<and> maximal ys \<and> (xs \<noteq> [] \<longrightarrow> ys \<noteq> [] \<longrightarrow> \<not> mergeable (last xs) (hd ys))"
proof (induction xs rule: maximal.induct)
  case two: "2_2"
  then show ?case by (cases ys) auto
qed auto

subsection \<open>Coalescing\<close>

text \<open>The left-to-right reading of the accumulator loop.\<close>

fun merge_runs :: "MapEntry list \<Rightarrow> MapEntry list" where
  "merge_runs (a # b # es) =
     (if mergeable a b then merge_runs (a\<lparr>e_size := sat_add (e_size a) (e_size b)\<rparr> # es)
      else a # merge_runs (b # es))"
| "merge_runs es = es"

lemma foldl_push_merge_runs:
  "rev (foldl push_coalesced (a # acc) es) = rev acc @ merge_runs (a # es)"
  by (induction es arbitrary: a acc) (auto simp: push_coalesced_def mergeable_def)

lemma coalesce_eq_merge_runs: "coalesce es = merge_runs es"
  using foldl_push_merge_runs [of _ "[]"]
  by (cases es) (simp_all add: coalesce_def push_coalesced_def)

lemma merge_runs_maximal_id: "maximal es \<Longrightarrow> merge_runs es = es"
  by (induction es rule: merge_runs.induct) auto

lemma merge_runs_Nil_iff [simp]: "merge_runs es = [] \<longleftrightarrow> es = []"
  by (induction es rule: merge_runs.induct) auto

lemma merge_runs_hd:
  "es \<noteq> [] \<Longrightarrow> e_pos (hd (merge_runs es)) = e_pos (hd es) \<and> e_status (hd (merge_runs es)) = e_status (hd es)"
  by (induction es rule: merge_runs.induct) auto

lemma merge_runs_correct:
  "runs_from c es \<Longrightarrow> runs_from c (merge_runs es) \<and> maximal (merge_runs es) \<and>
     look (merge_runs es) = look es \<and>
     (es \<noteq> [] \<longrightarrow> run_end (last (merge_runs es)) = run_end (last es) \<and>
        e_status (last (merge_runs es)) = e_status (last es))"
proof (induction es arbitrary: c rule: merge_runs.induct)
  case (1 a b es)
  show ?case
  proof (cases "mergeable a b")
    case True
    let ?a = "a\<lparr>e_size := sat_add (e_size a) (e_size b)\<rparr>"
    from "1.prems" True have ab: "e_pos a + e_size a = e_pos b" "e_status a = e_status b"
      "0 < e_size a" "0 < e_size b" "e_pos b + e_size b \<le> u64_max"
      by (auto simp: mergeable_def arith64)
    then have sz: "sat_add (e_size a) (e_size b) = e_size a + e_size b" by (simp add: arith64)
    have "runs_from c (?a # es)" using "1.prems" ab sz by (auto simp flip: add.assoc)
    note IH = "1.IH"(1) [OF True this]
    have "look (?a # es) = look (a # b # es)"
      using ab sz by (auto simp: fun_eq_iff)
    moreover have "run_end (last (?a # es)) = run_end (last (a # b # es))"
      "e_status (last (?a # es)) = e_status (last (a # b # es))"
      using ab sz by (auto simp: arith64)
    ultimately show ?thesis using IH True by simp
  next
    case False
    then have "runs_from (e_pos a + e_size a) (b # es)" using "1.prems" by simp
    note IH = "1.IH"(2) [OF False this]
    have ne: "merge_runs (b # es) \<noteq> []" by simp
    then obtain b' r where br: "merge_runs (b # es) = b' # r" by (cases "merge_runs (b # es)") auto
    have "e_pos b' = e_pos b" "e_status b' = e_status b"
      using merge_runs_hd [of "b # es"] br by auto
    with False have "\<not> mergeable a b'" by (simp add: mergeable_def)
    then show ?thesis using IH False br "1.prems" by (auto simp: fun_eq_iff)
  qed
qed auto

lemma merge_runs_append_left:
  "maximal xs \<Longrightarrow> (xs \<noteq> [] \<Longrightarrow> ys \<noteq> [] \<Longrightarrow> \<not> mergeable (last xs) (hd ys)) \<Longrightarrow>
     merge_runs (xs @ ys) = xs @ merge_runs ys"
proof (induction xs rule: maximal.induct)
  case two: "2_2"
  then show ?case by (cases ys) auto
qed auto

lemma merge_runs_append_right:
  "runs_from c xs \<Longrightarrow> maximal ys \<Longrightarrow>
   (xs \<noteq> [] \<Longrightarrow> ys \<noteq> [] \<Longrightarrow> \<not> mergeable (last xs) (hd ys)) \<Longrightarrow>
     merge_runs (xs @ ys) = merge_runs xs @ ys"
proof (induction xs arbitrary: c rule: merge_runs.induct)
  case (1 a b es)
  show ?case
  proof (cases "mergeable a b")
    case True
    let ?a = "a\<lparr>e_size := sat_add (e_size a) (e_size b)\<rparr>"
    from "1.prems" True have ab: "e_pos a + e_size a = e_pos b" "e_status a = e_status b"
      "0 < e_size a" "0 < e_size b" "e_pos b + e_size b \<le> u64_max"
      by (auto simp: mergeable_def arith64)
    then have sz: "sat_add (e_size a) (e_size b) = e_size a + e_size b" by (simp add: arith64)
    have r: "runs_from c (?a # es)" using "1.prems" ab sz by (auto simp flip: add.assoc)
    have "mergeable (last (?a # es)) y = mergeable (last (a # b # es)) y" for y
      using ab sz by (auto simp: mergeable_def arith64)
    then show ?thesis using "1.IH"(1) [OF True r] "1.prems" True by simp
  next
    case False
    from "1.prems" have r: "runs_from (e_pos a + e_size a) (b # es)" by simp
    show ?thesis using "1.IH"(2) [OF False r] "1.prems" False by simp
  qed
next
  case two: "2_2"
  then show ?case by (cases ys) (auto simp: merge_runs_maximal_id)
qed (auto simp: merge_runs_maximal_id)

lemma canon_coalesce [canon_intro]: "runs_from 0 es \<Longrightarrow> canon (coalesce es)"
  by (simp add: canon_def coalesce_eq_merge_runs merge_runs_correct)

lemma look_coalesce [simp]: "runs_from c es \<Longrightarrow> look (coalesce es) = look es"
  by (simp add: coalesce_eq_merge_runs merge_runs_correct)

subsection \<open>The splice\<close>

lemma takeWhile_pre:
  "runs_from c es \<Longrightarrow> e \<in> set (takeWhile (\<lambda>e. run_end e < p) es) \<Longrightarrow> run_end e < p"
  by (meson set_takeWhileD)

text \<open>The three parts of the entries: before the window, the window, after it.\<close>

lemma splice_parts:
  assumes "runs_from c es" and "p \<le> q"
  obtains pre win post where "es = pre @ win @ post"
    and "splice_lo es p = length pre" and "splice_hi es q = length pre + length win"
    and "\<forall>e \<in> set pre. run_end e < p" and "\<forall>e \<in> set win. p \<le> run_end e \<and> e_pos e \<le> q"
    and "\<forall>e \<in> set post. q < e_pos e"
  using assms
proof (induction c es arbitrary: thesis rule: runs_from.induct)
  case (1 c)
  show ?case
    by (rule "1.prems"(1) [of "[]" "[]" "[]"])
      (simp_all add: splice_lo_def splice_hi_def partition_point_def)
next
  case (2 c e es)
  from "2.prems" have e: "e_pos e + e_size e \<le> u64_max" "0 < e_size e"
    and r: "runs_from (e_pos e + e_size e) es" by auto
  have ge: "\<forall>x \<in> set es. e_pos e + e_size e \<le> e_pos x \<and> run_end x = e_pos x + e_size x"
    using r runs_from_mem runs_from_run_end by blast
  obtain pre win post where w: "es = pre @ win @ post"
    "splice_lo es p = length pre" "splice_hi es q = length pre + length win"
    "\<forall>e \<in> set pre. run_end e < p" "\<forall>e \<in> set win. p \<le> run_end e \<and> e_pos e \<le> q"
    "\<forall>e \<in> set post. q < e_pos e"
    using "2.IH" [OF _ r "2.prems"(3)] by blast
  consider (pre) "run_end e < p" | (win) "p \<le> run_end e" "e_pos e \<le> q" | (post) "q < e_pos e" 
    using "2.prems"(3) by fastforce
  then show ?case
  proof cases
    case pre
    then have "e_pos e \<le> q" using e "2.prems"(3) by (simp add: arith64)
    then show ?thesis using pre w
      by (intro "2.prems"(1) [of "e # pre" win post])
        (auto simp: splice_lo_def splice_hi_def partition_point_def)
  next
    case win
    then have "\<forall>x \<in> set es. p \<le> run_end x" using ge e by (fastforce simp: arith64)
    then have "pre = []" using w(1,4) by (cases pre) fastforce+
    then show ?thesis using win w
      by (intro "2.prems"(1) [of "[]" "e # win" post])
        (auto simp: splice_lo_def splice_hi_def partition_point_def)
  next
    case post
    then have "\<forall>x \<in> set es. q < e_pos x" using ge e by fastforce
    moreover have "p \<le> run_end e" using post e "2.prems"(3) by (simp add: arith64)
    ultimately show ?thesis using post
      by (intro "2.prems"(1) [of "[]" "[]" "e # es"])
        (auto simp: splice_lo_def splice_hi_def partition_point_def)
  qed
qed

lemma runs_from_raise: "runs_from c es \<Longrightarrow> \<forall>e \<in> set es. d \<le> e_pos e \<Longrightarrow> runs_from d es"
  by (cases es) auto

lemma splice_pieces_placed:
  "runs_from c win \<Longrightarrow> q < c \<Longrightarrow> \<forall>e \<in> set win. e_pos e \<le> q \<Longrightarrow> splice_pieces p q nr True win = []"
  by (cases win) auto

lemma splice_pieces_runs:
  assumes "runs_from c (win @ post)" and "\<forall>e \<in> set win. e_pos e \<le> q"
    and "\<forall>e \<in> set post. q < e_pos e" and "p < q" and "q \<le> u64_max"
  shows "runs_from (min c p) (splice_pieces p q (entry p (q - p) st) False win @ post)"
  using assms(1,2)
proof (induction win arbitrary: c)
  case Nil
  have "runs_from q post" using Nil assms(3) by (auto intro: runs_from_raise less_imp_le)
  then show ?case using assms by simp
next
  case (Cons e win)
  let ?nr = "entry p (q - p) st"
  from Cons.prems have e: "c \<le> e_pos e" "0 < e_size e" "e_pos e + e_size e \<le> u64_max" "e_pos e \<le> q"
    and r: "runs_from (e_pos e + e_size e) (win @ post)" by auto
  have re: "run_end e = e_pos e + e_size e" using e by (simp add: arith64)
  have IH: "runs_from (min (e_pos e + e_size e) p) (splice_pieces p q ?nr False win @ post)"
    using Cons r by simp
  have pl: "q < e_pos e + e_size e \<Longrightarrow> splice_pieces p q ?nr True win = []"
    "q < e_pos e + e_size e \<Longrightarrow> win = []"
    using r Cons.prems by (cases win; force)+
  show ?case
    using e IH pl assms(4,5) r
    by (auto simp: Let_def re min_def not_le intro: runs_from_mono split: if_splits)
qed

lemma splice_pieces_look:
  assumes "runs_from c win" and "\<forall>e \<in> set win. e_pos e \<le> q" and "p < q" and "q \<le> u64_max"
  shows "look (splice_pieces p q (entry p (q - p) st) False win) b =
    (if p \<le> b \<and> b < q then Some st else look win b)"
  using assms(1,2)
proof (induction win arbitrary: c)
  case Nil
  then show ?case using assms by auto
next
  case (Cons e win)
  let ?nr = "entry p (q - p) st"
  from Cons.prems have e: "c \<le> e_pos e" "0 < e_size e" "e_pos e + e_size e \<le> u64_max" "e_pos e \<le> q"
    and r: "runs_from (e_pos e + e_size e) win" by auto
  have re: "run_end e = e_pos e + e_size e" using e by (simp add: arith64)
  have IH: "look (splice_pieces p q ?nr False win) b = (if p \<le> b \<and> b < q then Some st else look win b)"
    using Cons r by simp
  have pl: "q < e_pos e + e_size e \<Longrightarrow> splice_pieces p q ?nr True win = []"
    "q < e_pos e + e_size e \<Longrightarrow> win = []"
    using splice_pieces_placed r Cons.prems by (simp, cases win) auto
  have lb: "b < e_pos e + e_size e \<Longrightarrow> look win b = None" using r by (rule look_below)
  show ?case
    using e IH pl lb assms(3,4) by (auto simp: Let_def re look_append split: option.splits)
qed

lemma splice_pieces_hd:
  assumes "runs_from c win" and "p < q" and "run_end x < p"
    and "mergeable x (hd (splice_pieces p q (entry p (q - p) st) False win))"
  shows "win \<noteq> [] \<and> mergeable x (hd win)"
proof -
  let ?nr = "entry p (q - p) st"
  have right: "hd (splice_pieces p q ?nr False w) = ?nr" if "runs_from d w" "p \<le> d" for d w
    using that by (induction w arbitrary: d) (auto simp: Let_def arith64)
  show ?thesis
  proof (cases win)
    case Nil
    then show ?thesis using assms by (simp add: mergeable_def)
  next
    case (Cons e es)
    from assms(1) have e: "0 < e_size e" "e_pos e + e_size e \<le> u64_max" "runs_from (e_pos e + e_size e) es"
      by (auto simp: Cons)
    then show ?thesis
      using assms right [OF e(3)]
      by (auto simp: Cons Let_def mergeable_def arith64 split: if_splits)
  qed
qed

lemma splice_pieces_last:
  assumes "runs_from c win" and "\<forall>e \<in> set win. e_pos e \<le> q" and "p < q" and "q \<le> u64_max"
    and "q < e_pos y" and "mergeable (last (splice_pieces p q (entry p (q - p) st) False win)) y"
  shows "win \<noteq> [] \<and> mergeable (last win) y"
  using assms(1,2,6)
proof (induction win arbitrary: c)
  case Nil
  then show ?case using assms(3-5) by (simp add: mergeable_def arith64)
next
  case (Cons e win)
  let ?nr = "entry p (q - p) st"
  from Cons.prems have e: "0 < e_size e" "e_pos e + e_size e \<le> u64_max" "e_pos e \<le> q"
    and r: "runs_from (e_pos e + e_size e) win" by auto
  have re: "run_end e = e_pos e + e_size e" using e by (simp add: arith64)
  have ne: "splice_pieces p q ?nr False win \<noteq> []"
    by (induction win) (auto simp: Let_def)
  show ?case
  proof (cases "q < e_pos e + e_size e")
    case True
    then have "splice_pieces p q ?nr True win = []" "win = []"
      using splice_pieces_placed r Cons.prems by (simp, cases win) auto
    then show ?thesis using Cons.prems(3) True e assms(3-5) re
      by (auto simp: Let_def mergeable_def arith64 split: if_splits)
  next
    case False
    then have "mergeable (last (splice_pieces p q ?nr False win)) y"
      using Cons.prems(3) ne e by (auto simp: Let_def re split: if_splits)
    then show ?thesis using Cons.IH [OF r] Cons.prems by auto
  qed
qed

lemma splice_pieces_ne: "splice_pieces p q nr False win \<noteq> []"
  by (induction win) (auto simp: Let_def)

text \<open>
  ``Nothing outside the window can merge, so this equals a full rebuild'': the spliced entries are
  the coalescing of the whole list with the window's pieces in place.
\<close>

lemma splice_full_rebuild:
  assumes "canon es" and "p < q" and "q \<le> u64_max"
    and "es = pre @ win @ post" and "\<forall>e \<in> set pre. run_end e < p"
    and "\<forall>e \<in> set win. p \<le> run_end e \<and> e_pos e \<le> q" and "\<forall>e \<in> set post. q < e_pos e"
  shows "pre @ coalesce (splice_pieces p q (entry p (q - p) st) False win) @ post =
    coalesce (pre @ splice_pieces p q (entry p (q - p) st) False win @ post)"
proof -
  let ?ps = "splice_pieces p q (entry p (q - p) st) False win"
  from assms have mx: "maximal (pre @ win @ post)" and rf: "runs_from 0 (pre @ win @ post)"
    by (auto simp: canon_def)
  define c where "c = (if pre = [] then 0 else e_pos (last pre) + e_size (last pre))"
  from rf have rw: "runs_from c win" by (auto simp: runs_from_append c_def)
  have starts: "\<forall>e \<in> set win. e_pos e \<le> q" using assms(6) by blast
  have rp: "runs_from (min c p) ?ps"
    using splice_pieces_runs [OF _ starts _ assms(2,3), where post = "[]"] rw by simp
  have left: "\<not> mergeable (last pre) (hd (?ps @ post))" if "pre \<noteq> []"
  proof
    assume "mergeable (last pre) (hd (?ps @ post))"
    then have "mergeable (last pre) (hd ?ps)" using splice_pieces_ne by simp
    moreover have "run_end (last pre) < p" using that assms(5) by simp
    ultimately have "win \<noteq> [] \<and> mergeable (last pre) (hd win)"
      using splice_pieces_hd [OF rw assms(2)] by blast
    with mx that show False by (auto simp: maximal_append)
  qed
  have right: "\<not> mergeable (last ?ps) (hd post)" if "post \<noteq> []"
  proof
    assume m: "mergeable (last ?ps) (hd post)"
    have "q < e_pos (hd post)" using that assms(7) by simp
    then have "win \<noteq> [] \<and> mergeable (last win) (hd post)"
      using splice_pieces_last [OF rw starts assms(2,3) _ m] by blast
    with mx that show False by (auto simp: maximal_append)
  qed
  have "merge_runs (pre @ ?ps @ post) = pre @ merge_runs (?ps @ post)"
    using mx left by (intro merge_runs_append_left) (auto simp: maximal_append)
  also have "merge_runs (?ps @ post) = merge_runs ?ps @ post"
    using mx right by (intro merge_runs_append_right [OF rp]) (auto simp: maximal_append)
  finally show ?thesis by (simp add: coalesce_eq_merge_runs)
qed

lemma splice_decompose:
  assumes "canon es" and "p < q" and "q \<le> u64_max"
  obtains pre win post where "es = pre @ win @ post" and "splice_window es p q = win"
    and "splice_entries es p q st =
      coalesce (pre @ splice_pieces p q (entry p (q - p) st) False win @ post)"
    and "splice_entries es p q st = pre @ splice_merged es p q st @ post"
    and "runs_from 0 (pre @ splice_pieces p q (entry p (q - p) st) False win @ post)"
    and "\<And>b. look (pre @ splice_pieces p q (entry p (q - p) st) False win @ post) b =
      (if p \<le> b \<and> b < q then Some st else look es b)"
proof -
  from assms obtain pre win post where d: "es = pre @ win @ post"
    "splice_lo es p = length pre" "splice_hi es q = length pre + length win"
    and b: "\<forall>e \<in> set pre. run_end e < p" "\<forall>e \<in> set win. p \<le> run_end e \<and> e_pos e \<le> q"
    "\<forall>e \<in> set post. q < e_pos e"
    by (auto simp: canon_def elim: splice_parts [of 0 es p q])
  let ?ps = "splice_pieces p q (entry p (q - p) st) False win"
  have win: "splice_window es p q = win" using d by (simp add: splice_window_def)
  have split: "splice_entries es p q st = pre @ splice_merged es p q st @ post"
    using d by (simp add: splice_entries_def)
  have eq: "splice_entries es p q st = coalesce (pre @ ?ps @ post)"
    using splice_full_rebuild [OF assms d(1) b] by (simp add: split splice_merged_def win)
  from assms d have rf: "runs_from 0 (pre @ win @ post)" by (simp add: canon_def)
  define c where "c = (if pre = [] then 0 else e_pos (last pre) + e_size (last pre))"
  from rf have rw: "runs_from c (win @ post)" and rpre: "runs_from 0 pre"
    by (auto simp: runs_from_append c_def)
  have starts: "\<forall>e \<in> set win. e_pos e \<le> q" using b by blast
  have rp: "runs_from (min c p) (?ps @ post)"
    by (rule splice_pieces_runs [OF rw starts b(3) assms(2,3)])
  have cp: "c \<le> p"
  proof (cases "pre = []")
    case False
    then have "last pre \<in> set pre" by simp
    then show ?thesis using b(1) runs_from_run_end [OF rpre] by (fastforce simp: c_def False)
  qed (simp add: c_def)
  then have runs: "runs_from 0 (pre @ ?ps @ post)"
    using rp rpre by (auto simp: runs_from_append c_def min_absorb1 split: if_splits)
  have look: "look (pre @ ?ps @ post) x = (if p \<le> x \<and> x < q then Some st else look es x)" for x
  proof -
    have lp: "look ?ps x = (if p \<le> x \<and> x < q then Some st else look win x)"
      using rw by (intro splice_pieces_look [OF _ starts assms(2,3)]) (auto simp: runs_from_append)
    have "look pre x = None" if "p \<le> x"
    proof (rule ccontr)
      assume "look pre x \<noteq> None"
      then obtain e where "e \<in> set pre" "x < e_pos e + e_size e" using look_Some_mem by blast
      then show False using b(1) runs_from_run_end [OF rpre] that by fastforce
    qed
    then show ?thesis by (auto simp: d(1) look_append lp split: option.splits)
  qed
  show thesis by (rule that [OF d(1) win eq split runs look])
qed

lemma splice_entries_canon [canon_intro]:
  "canon es \<Longrightarrow> p < q \<Longrightarrow> q \<le> u64_max \<Longrightarrow> canon (splice_entries es p q st)"
  by (metis splice_decompose canon_coalesce)

lemma look_splice_entries:
  "canon es \<Longrightarrow> p < q \<Longrightarrow> q \<le> u64_max \<Longrightarrow>
     look (splice_entries es p q st) b = (if p \<le> b \<and> b < q then Some st else look es b)"
  by (metis splice_decompose look_coalesce)

subsection \<open>Canonical lists are determined by the statuses of their bytes\<close>

lemma canon_unique_from:
  assumes "runs_from c es" and "maximal es" and "runs_from d es'" and "maximal es'"
    and "look es = look es'"
  shows "es = es'"
  using assms
proof (induction es arbitrary: c d es')
  case Nil
  show ?case
  proof (cases es')
    case (Cons e' r')
    then have "look es' (e_pos e') = Some (e_status e')" using Nil by simp
    then show ?thesis using Nil.prems(5) by (metis look.simps(1) option.distinct(1))
  qed simp
next
  case (Cons e r)
  have E: "0 < e_size e" "e_pos e + e_size e \<le> u64_max" "runs_from (e_pos e + e_size e) r"
    using Cons.prems(1) by auto
  have "look es' (e_pos e) = Some (e_status e)"
    using Cons.prems(5) E by (metis look.simps(2) le_refl less_add_same_cancel1)
  then obtain e' r' where es': "es' = e' # r'" by (cases es') auto
  have E': "0 < e_size e'" "e_pos e' + e_size e' \<le> u64_max" "runs_from (e_pos e' + e_size e') r'"
    using Cons.prems(3) by (auto simp: es')
  have eq: "look (e # r) b = look (e' # r') b" for b
    using fun_cong [OF Cons.prems(5), of b] unfolding es' .
  have pos: "e_pos e = e_pos e'"
  proof (rule ccontr)
    assume ne: "e_pos e \<noteq> e_pos e'"
    show False
    proof (cases "e_pos e < e_pos e'")
      case True
      then have "look (e' # r') (e_pos e) = None"
        using look_below [OF E'(3), of "e_pos e"] by auto
      then show False using eq [of "e_pos e"] E by simp
    next
      case False
      then have "look (e # r) (e_pos e') = None"
        using look_below [OF E(3), of "e_pos e'"] ne by auto
      then show False using eq [of "e_pos e'"] E' by simp
    qed
  qed
  have st: "e_status e = e_status e'" using eq [of "e_pos e"] E E' pos by simp
  have nolt: False
    if X: "e_size a < e_size b" "e_pos a = e_pos b" "e_status a = e_status b"
      "maximal (a # ra)" "runs_from (e_pos a + e_size a) ra" "e_pos b + e_size b \<le> u64_max"
      "\<And>x. look (a # ra) x = look (b # rb) x" for a b ra rb
  proof -
    have "look ra (e_pos a + e_size a) = Some (e_status a)"
      using X(7) [of "e_pos a + e_size a"] X(1-3) by simp
    then obtain h t where ra: "ra = h # t" by (cases ra) auto
    have "e_pos a + e_size a \<le> e_pos h" "0 < e_size h" "runs_from (e_pos h + e_size h) t"
      using X(5) by (auto simp: ra)
    moreover from this have "e_pos h \<le> e_pos a + e_size a"
      using \<open>look ra (e_pos a + e_size a) = Some (e_status a)\<close>
        look_below [of "e_pos h + e_size h" t "e_pos a + e_size a"]
      by (auto simp: ra split: if_splits)
    ultimately have "mergeable a h"
      using \<open>look ra (e_pos a + e_size a) = Some (e_status a)\<close> X(1,2,6)
      by (auto simp: ra mergeable_def arith64)
    then show False using X(4) by (simp add: ra)
  qed
  have sz: "e_size e = e_size e'"
    using nolt [of e e' r r'] nolt [of e' e r' r] Cons.prems(2,4) E E' eq pos st
    by (metis es' nat_neq_iff)
  have ee: "e = e'" using pos st sz by simp
  have "look r = look r'"
  proof
    fix b show "look r b = look r' b"
      using eq [of b] look_below [OF E(3), of b] look_below [OF E'(3), of b]
      by (auto simp: ee split: if_splits)
  qed
  moreover have "maximal r" "maximal r'" using Cons.prems(2,4) by (cases r; cases r'; simp add: es')+
  ultimately have "r = r'" using Cons.IH [OF E(3) _ E'(3)] by simp
  then show ?case by (simp add: es' ee)
qed

lemma canon_unique: "canon es \<Longrightarrow> canon es' \<Longrightarrow> look es = look es' \<Longrightarrow> es = es'"
  using canon_unique_from by (auto simp: canon_def)

subsection \<open>Statistics\<close>

text \<open>The bytes a list of runs holds in a set of statuses.\<close>

definition weight :: "SectorStatus set \<Rightarrow> MapEntry list \<Rightarrow> nat" where
  "weight S es = sum_list (map e_size (filter (\<lambda>e. e_status e \<in> S) es))"

definition bad_runs :: "MapEntry list \<Rightarrow> nat" where
  "bad_runs es = length (filter (\<lambda>e. e_status e = Unreadable) es)"

lemma weight_simps [simp]:
  "weight S [] = 0"
  "weight S (e # es) = (if e_status e \<in> S then e_size e else 0) + weight S es"
  "weight S (xs @ ys) = weight S xs + weight S ys"
  by (simp_all add: weight_def)

lemma bad_runs_simps [simp]:
  "bad_runs [] = 0"
  "bad_runs (e # es) = (if e_status e = Unreadable then 1 else 0) + bad_runs es"
  "bad_runs (xs @ ys) = bad_runs xs + bad_runs ys"
  by (simp_all add: bad_runs_def)

definition stats_plus :: "MapStats \<Rightarrow> MapEntry list \<Rightarrow> MapStats" where
  "stats_plus s es =
     s\<lparr>bytes_good := bytes_good s + weight {Finished} es,
       bytes_unreadable := bytes_unreadable s + weight {Unreadable} es,
       bytes_pending := bytes_pending s + weight {NonTried, NonTrimmed, NonScraped} es,
       bytes_nontried := bytes_nontried s + weight {NonTried} es,
       bytes_retryable := bytes_retryable s + weight {NonTrimmed, NonScraped} es,
       num_bad_ranges := num_bad_ranges s + bad_runs es\<rparr>"

definition stats_minus :: "MapStats \<Rightarrow> MapEntry list \<Rightarrow> MapStats" where
  "stats_minus s es =
     s\<lparr>bytes_good := bytes_good s - weight {Finished} es,
       bytes_unreadable := bytes_unreadable s - weight {Unreadable} es,
       bytes_pending := bytes_pending s - weight {NonTried, NonTrimmed, NonScraped} es,
       bytes_nontried := bytes_nontried s - weight {NonTried} es,
       bytes_retryable := bytes_retryable s - weight {NonTrimmed, NonScraped} es,
       num_bad_ranges := num_bad_ranges s - bad_runs es\<rparr>"

definition stats_fit :: "MapStats \<Rightarrow> bool" where
  "stats_fit s =
     (bytes_good s \<le> u64_max \<and> bytes_unreadable s \<le> u64_max \<and> bytes_pending s \<le> u64_max \<and>
      bytes_nontried s \<le> u64_max \<and> bytes_retryable s \<le> u64_max \<and> num_bad_ranges s \<le> u32_max)"

lemma weight_le: "runs_from c es \<Longrightarrow> c \<le> u64_max \<Longrightarrow> c + weight S es \<le> u64_max"
  by (induction c es rule: runs_from.induct) auto

lemma tally_add:
  "stats_fit (stats_plus s [e]) \<Longrightarrow> tally True s e = stats_plus s [e]"
  by (cases "e_status e")
    (auto simp: tally_def stats_plus_def stats_fit_def bump_def bump32_def sat_add_def)

lemma tally_remove: "tally False s e = stats_minus s [e]"
  by (cases "e_status e") (auto simp: tally_def stats_minus_def bump_def bump32_def)

lemma stats_plus_Cons: "stats_plus s (e # es) = stats_plus (stats_plus s [e]) es"
  by (simp add: stats_plus_def)

lemma stats_minus_Cons: "stats_minus s (e # es) = stats_minus (stats_minus s [e]) es"
  by (simp add: stats_minus_def diff_diff_left)

lemma stats_fit_prefix: "stats_fit (stats_plus s (e # es)) \<Longrightarrow> stats_fit (stats_plus s [e])"
  by (auto simp: stats_fit_def stats_plus_def)

lemma foldl_tally_add: "stats_fit (stats_plus s es) \<Longrightarrow> foldl (tally True) s es = stats_plus s es"
proof (induction es arbitrary: s)
  case Nil
  then show ?case by (simp add: stats_plus_def)
next
  case (Cons e es)
  then have "tally True s e = stats_plus s [e]" using stats_fit_prefix tally_add by blast
  moreover have "stats_fit (stats_plus (stats_plus s [e]) es)"
    using Cons.prems by (simp flip: stats_plus_Cons)
  ultimately show ?case using Cons.IH by (simp flip: stats_plus_Cons)
qed

lemma foldl_tally_remove: "foldl (tally False) s es = stats_minus s es"
proof (induction es arbitrary: s)
  case Nil
  then show ?case by (simp add: stats_minus_def)
next
  case (Cons e es)
  then show ?case by (simp add: tally_remove flip: stats_minus_Cons)
qed

lemma compute_stats_eq:
  assumes "runs_from 0 es" and "bad_runs es \<le> u32_max"
  shows "compute_stats es tot = stats_plus (MapStats_default\<lparr>bytes_total := tot\<rparr>) es"
proof -
  have "weight S es \<le> u64_max" for S using weight_le [OF assms(1), of S] by simp
  then show ?thesis
    using assms(2) unfolding compute_stats_def
    by (intro foldl_tally_add) (simp add: stats_fit_def stats_plus_def MapStats_default_def)
qed

lemma splice_stats_correct:
  assumes "canon es" and "p < q" and "q \<le> u64_max"
    and "bad_runs es \<le> u32_max" and "bad_runs (splice_entries es p q st) \<le> u32_max"
  shows "splice_stats es p q st (compute_stats es tot) = compute_stats (splice_entries es p q st) tot"
proof -
  from assms(1-3) obtain pre win post where d: "es = pre @ win @ post" "splice_window es p q = win"
    "splice_entries es p q st = pre @ splice_merged es p q st @ post"
    by (metis splice_decompose)
  define m where "m = splice_merged es p q st"
  let ?es' = "splice_entries es p q st" and ?s0 = "MapStats_default\<lparr>bytes_total := tot\<rparr>"
  have r: "runs_from 0 es" "runs_from 0 ?es'"
    using assms splice_entries_canon by (auto simp: canon_def)
  have w: "weight S pre + weight S m + weight S post \<le> u64_max" for S
    using weight_le [OF r(2), of S] by (simp add: d(3) m_def [symmetric])
  have k: "bad_runs pre + bad_runs m + bad_runs post \<le> u32_max"
    using assms(5) by (simp add: d(3) m_def [symmetric])
  have cs: "compute_stats es tot = stats_plus ?s0 (pre @ win @ post)"
    using compute_stats_eq [OF r(1) assms(4)] d(1) by simp
  have fit: "stats_fit (stats_plus (stats_minus (compute_stats es tot) win) m)"
    using k w [of "{Finished}"] w [of "{Unreadable}"] w [of "{NonTried, NonTrimmed, NonScraped}"]
      w [of "{NonTried}"] w [of "{NonTrimmed, NonScraped}"]
    unfolding cs by (simp add: stats_fit_def stats_plus_def stats_minus_def MapStats_default_def)
  have "splice_stats es p q st (compute_stats es tot) =
      stats_plus (stats_minus (compute_stats es tot) win) m"
    using foldl_tally_add [OF fit] by (simp add: splice_stats_def d(2) foldl_tally_remove m_def)
  also have "\<dots> = stats_plus ?s0 (pre @ m @ post)"
    unfolding cs by (simp add: stats_plus_def stats_minus_def MapStats_default_def)
  also have "pre @ m @ post = ?es'" by (simp add: d(3) m_def)
  finally show ?thesis by (simp add: compute_stats_eq [OF r(2) assms(5)])
qed

text \<open>What the figures count: bytes by status.\<close>

lemma weight_card: "runs_from c es \<Longrightarrow> weight S es = card {b. \<exists>s \<in> S. look es b = Some s}"
proof (induction es arbitrary: c)
  case (Cons e es)
  have r: "runs_from (e_pos e + e_size e) es" using Cons.prems by simp
  have split: "{b. \<exists>s \<in> S. look (e # es) b = Some s} =
      (if e_status e \<in> S then {e_pos e ..< e_pos e + e_size e} else {}) \<union> {b. \<exists>s \<in> S. look es b = Some s}"
    using look_below [OF r] by (auto split: if_splits)
  have fin: "finite {b. \<exists>s \<in> S. look es b = Some s}"
  proof (rule finite_subset)
    show "{b. \<exists>s \<in> S. look es b = Some s} \<subseteq> (\<Union>e \<in> set es. {e_pos e ..< e_pos e + e_size e})"
      using look_Some_mem by fastforce
  qed simp
  have "{e_pos e ..< e_pos e + e_size e} \<inter> {b. \<exists>s \<in> S. look es b = Some s} = {}"
    using look_below [OF r] by fastforce
  then show ?case
    unfolding split using fin Cons.IH [OF r] by (simp add: card_Un_disjoint)
qed simp

subsection \<open>Queries\<close>

definition spans :: "MapEntry list \<Rightarrow> range list" where
  "spans es = map (\<lambda>e. (e_pos e, e_size e)) es"

lemma spans_simps [simp]: "spans [] = []" "spans (e # es) = (e_pos e, e_size e) # spans es"
  by (simp_all add: spans_def)

lemma spans_disj: "runs_from c es \<Longrightarrow> disj_from c (spans (filter P es))"
proof (induction c es rule: runs_from.induct)
  case (2 c e es)
  then show ?case by (auto intro: disj_from_mono)
qed simp

lemma spans_bytes: "runs_from c es \<Longrightarrow>
  bytes_of (spans (filter (\<lambda>e. e_status e \<in> S) es)) = {b. \<exists>s \<in> S. look es b = Some s}"
proof (induction c es rule: runs_from.induct)
  case (2 c e es)
  then have r: "runs_from (e_pos e + e_size e) es" by simp
  have "{b. \<exists>s \<in> S. look (e # es) b = Some s} =
      (if e_status e \<in> S then {e_pos e ..< e_pos e + e_size e} else {}) \<union> {b. \<exists>s \<in> S. look es b = Some s}"
    using look_below [OF r] by (auto split: if_splits)
  then show ?case using 2 r by simp
qed simp

lemma ranges_with_spans:
  "ranges_with m sts = spans (filter (\<lambda>e. e_status e \<in> set sts) (entries m))"
  by (simp add: ranges_with_def spans_def)

lemma ranges_with_correct:
  assumes "runs_from 0 (entries m)"
  shows "disj_from 0 (ranges_with m sts)"
    and "bytes_of (ranges_with m sts) = {b. \<exists>s \<in> set sts. look (entries m) b = Some s}"
  using assms by (simp_all add: ranges_with_spans spans_disj spans_bytes)

lemma next_with_correct:
  assumes "runs_from c es"
  shows "case next_with_entries es from st of
      None \<Rightarrow> \<forall>b \<ge> from. look es b \<noteq> Some st
    | Some (p, n) \<Rightarrow> 0 < n \<and> from \<le> p \<and> (\<forall>b. p \<le> b \<and> b < p + n \<longrightarrow> look es b = Some st) \<and>
        (\<forall>b. from \<le> b \<and> b < p \<longrightarrow> look es b \<noteq> Some st)"
  using assms
proof (induction es arbitrary: c)
  case (Cons e es)
  then have r: "runs_from (e_pos e + e_size e) es" and e: "0 < e_size e" "e_pos e + e_size e \<le> u64_max"
    by auto
  note IH = Cons.IH [OF r] and below = look_below [OF r]
  show ?case
  proof (cases "e_status e = st \<and> from < e_pos e + e_size e")
    case True
    then show ?thesis using e below by (auto simp: Let_def arith64 max_def)
  next
    case False
    then have eq: "next_with_entries (e # es) from st = next_with_entries es from st"
      using e by (auto simp: arith64)
    have skip: "look (e # es) b \<noteq> Some st"
      if "from \<le> b" "b < e_pos e + e_size e" for b
      using False that below by (auto simp: not_less)
    have rest: "look (e # es) b = look es b" if "e_pos e + e_size e \<le> b" for b
      using that by simp
    show ?thesis
    proof (cases "next_with_entries es from st")
      case None
      then have none: "look es b \<noteq> Some st" if "from \<le> b" for b using IH that by simp
      have "look (e # es) b \<noteq> Some st" if "from \<le> b" for b
        using skip [OF that] rest [of b] none [OF that]
        by (cases "b < e_pos e + e_size e") (simp_all del: look.simps)
      then show ?thesis using None eq by (simp del: look.simps)
    next
      case (Some r')
      obtain p n where "r' = (p, n)" by (cases r')
      with Some have pn: "next_with_entries es from st = Some (p, n)" by simp
      have ih: "0 < n" "from \<le> p"
        "\<And>b. p \<le> b \<Longrightarrow> b < p + n \<Longrightarrow> look es b = Some st"
        "\<And>b. from \<le> b \<Longrightarrow> b < p \<Longrightarrow> look es b \<noteq> Some st"
        using IH pn by simp_all
      have le: "e_pos e + e_size e \<le> p"
        using below [of p] ih(1) ih(3) [of p] by (cases "e_pos e + e_size e \<le> p") simp_all
      have no: "look (e # es) b \<noteq> Some st" if "from \<le> b" "b < p" for b
        using skip [OF that(1)] rest [of b] ih(4) [OF that]
        by (cases "b < e_pos e + e_size e") (simp_all del: look.simps)
      have yes: "look (e # es) b = Some st" if "p \<le> b" "b < p + n" for b
        using ih(3) [OF that] rest [of b] le that by (simp del: look.simps)
      show ?thesis using ih(1,2) no yes pn unfolding eq by (simp del: look.simps)
    qed
  qed
qed simp

subsection \<open>Promotion\<close>

lemma look_map_status:
  "look (map (\<lambda>e. if e_status e \<in> S then e\<lparr>e_status := to\<rparr> else e) es) b =
     map_option (\<lambda>s. if s \<in> S then to else s) (look es b)"
  by (induction es) auto

lemma runs_from_map_status:
  "runs_from c (map (\<lambda>e. if e_status e \<in> S then e\<lparr>e_status := to\<rparr> else e) es) = runs_from c es"
  by (induction es arbitrary: c) auto

lemma promote_entries_canon [canon_intro]: "canon es \<Longrightarrow> canon (promote_entries frm to es)"
  unfolding promote_entries_def
  by (rule canon_coalesce) (simp add: runs_from_map_status canon_def)

lemma look_promote_entries:
  "canon es \<Longrightarrow> look (promote_entries frm to es) b =
     map_option (\<lambda>s. if s \<in> set frm then to else s) (look es b)"
  using look_coalesce [of 0 "map (\<lambda>e. if e_status e \<in> set frm then e\<lparr>e_status := to\<rparr> else e) es"]
  by (simp add: promote_entries_def canon_def runs_from_map_status look_map_status)

subsection \<open>The contract of a damage map\<close>

text \<open>
  What the passes, the sinks and the name-undo log use of a damage map: marking a span updates the
  status of its bytes and of no other, and keeps the map well formed; a well-formed map is
  determined by its statuses.
\<close>

locale damage_map =
  fixes mark :: "'m \<Rightarrow> nat \<Rightarrow> nat \<Rightarrow> SectorStatus \<Rightarrow> 'm"
    and status_at :: "'m \<Rightarrow> nat \<Rightarrow> SectorStatus option"
    and wf :: "'m \<Rightarrow> bool"
  assumes mark_wf: "wf m \<Longrightarrow> p < q \<Longrightarrow> q \<le> u64_max \<Longrightarrow> wf (mark m p q s)"
    and status_mark: "wf m \<Longrightarrow> p < q \<Longrightarrow> q \<le> u64_max \<Longrightarrow>
      status_at (mark m p q s) = (\<lambda>b. if p \<le> b \<and> b < q then Some s else status_at m b)"
    and wf_ext: "wf m \<Longrightarrow> wf m' \<Longrightarrow> status_at m = status_at m' \<Longrightarrow> m = m'"
begin

lemma mark_twice:
  assumes "wf m" and "p < q" and "q \<le> u64_max"
  shows "mark (mark m p q s) p q t = mark m p q t"
  using assms by (intro wf_ext) (auto simp: mark_wf status_mark)

lemma marks_commute:
  assumes "wf m" and "p < q" and "q \<le> u64_max" and "a < b" and "b \<le> u64_max"
    and "q \<le> a \<or> b \<le> p \<or> s = t"
  shows "mark (mark m p q s) a b t = mark (mark m a b t) p q s"
  using assms by (intro wf_ext) (auto simp: mark_wf status_mark fun_eq_iff)

lemma mark_same:
  assumes "wf m" and "p < q" and "q \<le> u64_max" and "\<And>b. p \<le> b \<Longrightarrow> b < q \<Longrightarrow> status_at m b = Some s"
  shows "mark m p q s = m"
  using assms by (intro wf_ext) (auto simp: mark_wf status_mark fun_eq_iff)

lemma mark_split:
  assumes "wf m" and "p < r" and "r < q" and "q \<le> u64_max"
  shows "mark (mark m p r s) r q s = mark m p q s"
  using assms by (intro wf_ext) (auto simp: mark_wf status_mark fun_eq_iff)

lemma marks_all:
  assumes "wf m" and "\<forall>r \<in> set rs. 0 < snd r" and "ranges_ok rs"
  shows "wf (foldl (\<lambda>m r. mark m (fst r) (fst r + snd r) s) m rs) \<and>
    status_at (foldl (\<lambda>m r. mark m (fst r) (fst r + snd r) s) m rs) =
      (\<lambda>b. if b \<in> bytes_of rs then Some s else status_at m b)"
  using assms
proof (induction rs arbitrary: m)
  case (Cons r rs)
  let ?m = "mark m (fst r) (fst r + snd r) s"
  have "wf ?m" using Cons.prems by (intro mark_wf) auto
  moreover have "status_at ?m = (\<lambda>b. if fst r \<le> b \<and> b < fst r + snd r then Some s else status_at m b)"
    using Cons.prems by (intro status_mark) auto
  ultimately show ?case using Cons.IH [of ?m] Cons.prems by (auto simp: fun_eq_iff)
qed simp

end

interpretation dm: damage_map splice_entries look canon
proof
  show "canon (splice_entries m p q s)" if "canon m" "p < q" "q \<le> u64_max" for m p q s
    using that by (rule splice_entries_canon)
  show "look (splice_entries m p q s) = (\<lambda>b. if p \<le> b \<and> b < q then Some s else look m b)"
    if "canon m" "p < q" "q \<le> u64_max" for m p q s
    using look_splice_entries [OF that] by auto
  show "m = m'" if "canon m" "canon m'" "look m = look m'" for m m'
    using that by (rule canon_unique)
qed

text \<open>Recording a list of ranges one after the other.\<close>

definition record_ranges :: "SectorStatus \<Rightarrow> range list \<Rightarrow> MapEntry list \<Rightarrow> MapEntry list" where
  "record_ranges st rs es =
     foldl (\<lambda>es r. splice_entries es (fst r) (fst r + snd r) st) es rs"

lemma record_ranges_correct:
  assumes "canon es" and "\<forall>r \<in> set rs. 0 < snd r" and "ranges_ok rs"
  shows "canon (record_ranges st rs es) \<and>
    look (record_ranges st rs es) = (\<lambda>b. if b \<in> bytes_of rs then Some st else look es b)"
  using dm.marks_all [OF assms] by (simp add: record_ranges_def)

lemma promote_eq_record_ranges:
  assumes "canon (entries m)"
  shows "promote_entries frm to (entries m) = record_ranges to (ranges_with m frm) (entries m)"
proof (rule canon_unique)
  have r: "runs_from 0 (entries m)" using assms by (simp add: canon_def)
  have ok: "ranges_ok (ranges_with m frm)" using ranges_with_correct(1) [OF r] disj_from_ok by blast
  have pos: "\<forall>x \<in> set (ranges_with m frm). 0 < snd x"
    using runs_from_mem [OF r] by (auto simp: ranges_with_def)
  note rec = record_ranges_correct [OF assms pos ok, of to]
  show "canon (promote_entries frm to (entries m))" using assms by (rule promote_entries_canon)
  show "canon (record_ranges to (ranges_with m frm) (entries m))" using rec by simp
  show "look (promote_entries frm to (entries m)) =
      look (record_ranges to (ranges_with m frm) (entries m))"
    using rec ranges_with_correct(2) [OF r, of frm]
    by (auto simp: fun_eq_iff look_promote_entries [OF assms] map_option_case split: option.splits)
qed

subsection \<open>Scoped statistics\<close>

lemma scope_inside_card:
  assumes "disj_from d sc" and "p < e_end" and "\<forall>r \<in> set sc. p < fst r + snd r"
  shows "scope_inside sc p e_end = card ({p..<e_end} \<inter> bytes_of sc)"
  using assms
proof (induction sc arbitrary: d)
  case Nil
  then show ?case by (simp add: scope_inside_def)
next
  case (Cons r sc)
  obtain sp sn where r: "r = (sp, sn)" by (cases r)
  have s: "0 < sn" "sp + sn \<le> u64_max" "disj_from (sp + sn) sc" "p < sp + sn"
    using Cons.prems by (auto simp: r)
  have low: "bytes_of sc \<subseteq> {sp + sn ..}" by (rule disj_from_lower [OF s(3)])
  show ?case
  proof (cases "sp < e_end")
    case True
    have IH: "scope_inside sc p e_end = card ({p..<e_end} \<inter> bytes_of sc)"
      using Cons.IH [OF s(3)] Cons.prems by simp
    have "{p..<e_end} \<inter> bytes_of (r # sc) = {max sp p ..< min (sp + sn) e_end} \<union> ({p..<e_end} \<inter> bytes_of sc)"
      by (auto simp: r)
    moreover have "{max sp p ..< min (sp + sn) e_end} \<inter> ({p..<e_end} \<inter> bytes_of sc) = {}"
      using low by auto
    ultimately have "card ({p..<e_end} \<inter> bytes_of (r # sc)) =
        (min (sp + sn) e_end - max sp p) + card ({p..<e_end} \<inter> bytes_of sc)"
      by (simp add: card_Un_disjoint)
    then show ?thesis using True s IH by (simp add: scope_inside_def r arith64)
  next
    case False
    then have "{p..<e_end} \<inter> bytes_of (r # sc) = {}" using low by (auto simp: r)
    then show ?thesis using False by (simp add: scope_inside_def r)
  qed
qed

lemma disj_from_suffix: "disj_from d (xs @ ys) \<Longrightarrow> \<exists>d'. disj_from d' ys"
  by (auto simp: disj_from_append)

lemma dropWhile_scope:
  assumes "disj_from d sc" and sc': "sc' = dropWhile (\<lambda>r. sat_add (fst r) (snd r) \<le> p) sc"
  shows "\<exists>d'. disj_from d' sc'" and "\<forall>r \<in> set sc'. p < fst r + snd r"
    and "bytes_of sc' \<inter> {p..} = bytes_of sc \<inter> {p..}"
proof -
  have all: "(\<exists>d'. disj_from d' sc') \<and> (\<forall>r \<in> set sc'. p < fst r + snd r) \<and>
      bytes_of sc' \<inter> {p..} = bytes_of sc \<inter> {p..}"
    using assms(1) unfolding sc'
  proof (induction sc arbitrary: d)
    case (Cons r sc)
    obtain sp sn where r: "r = (sp, sn)" by (cases r)
    have s: "sp + sn \<le> u64_max" "disj_from (sp + sn) sc" using Cons.prems by (auto simp: r)
    show ?case
    proof (cases "sp + sn \<le> p")
      case True
      then show ?thesis using Cons.IH [OF s(2)] s by (auto simp: r arith64)
    next
      case False
      have "\<forall>x \<in> set sc. sp + sn < fst x + snd x"
        using disj_from_mem [OF s(2)] by fastforce
      then show ?thesis using False s Cons.prems by (fastforce simp: r arith64)
    qed
  qed auto
  show "\<exists>d'. disj_from d' sc'" "\<forall>r \<in> set sc'. p < fst r + snd r"
    "bytes_of sc' \<inter> {p..} = bytes_of sc \<inter> {p..}" using all by blast+
qed

lemma outside_walk_correct:
  assumes "runs_from c es" and "disj_from d sc" and "acc + total_len (spans es) \<le> u64_max"
  shows "outside_walk sc es acc = acc + card (bytes_of (spans es) - bytes_of sc)"
  using assms
proof (induction es arbitrary: c d sc acc)
  case (Cons e es)
  from Cons.prems have e: "0 < e_size e" "e_pos e + e_size e \<le> u64_max"
    and r: "runs_from (e_pos e + e_size e) es" by auto
  define sc' where "sc' = dropWhile (\<lambda>r. sat_add (fst r) (snd r) \<le> e_pos e) sc"
  obtain d' where d': "disj_from d' sc'" and after: "\<forall>r \<in> set sc'. e_pos e < fst r + snd r"
    and same: "bytes_of sc' \<inter> {e_pos e..} = bytes_of sc \<inter> {e_pos e..}"
    using dropWhile_scope [OF Cons.prems(2) sc'_def] by blast
  let ?E = "{e_pos e ..< e_pos e + e_size e}" and ?B = "bytes_of (spans es)"
  have B: "?B \<subseteq> {e_pos e + e_size e ..}"
    using disj_from_lower [OF spans_disj [OF r, of "\<lambda>_. True"]] by simp
  have pw: "x \<in> bytes_of sc' \<longleftrightarrow> x \<in> bytes_of sc" if "e_pos e \<le> x" for x
    using same that by (metis Int_iff atLeast_iff)
  have inside: "scope_inside sc' (e_pos e) (run_end e) = card (?E \<inter> bytes_of sc')"
    using scope_inside_card [OF d' _ after, of "run_end e"] e by (simp add: arith64)
  have "card ?E = card (?E - bytes_of sc') + card (?E \<inter> bytes_of sc')"
    using card_Diff_subset_Int [of ?E "bytes_of sc'"] card_mono [of ?E "?E \<inter> bytes_of sc'"] by simp
  then have out: "e_size e - scope_inside sc' (e_pos e) (run_end e) = card (?E - bytes_of sc')"
    using inside by simp
  have le: "card (?E - bytes_of sc') \<le> e_size e" using card_mono [of ?E "?E - bytes_of sc'"] by simp
  have "outside_walk sc (e # es) acc = outside_walk sc' es (acc + card (?E - bytes_of sc'))"
    using out le Cons.prems(3) by (simp add: Let_def sc'_def [symmetric] arith64)
  also have "\<dots> = acc + card (?E - bytes_of sc') + card (?B - bytes_of sc')"
    using Cons.IH [OF r d'] le Cons.prems(3) by simp
  also have "?E - bytes_of sc' = ?E - bytes_of sc" using pw by auto
  also have "?B - bytes_of sc' = ?B - bytes_of sc" using pw B by fastforce
  also have "acc + card (?E - bytes_of sc) + card (?B - bytes_of sc) =
      acc + card ((?E \<union> ?B) - bytes_of sc)"
    using B by (subst Un_Diff, subst card_Un_disjoint) auto
  finally show ?case by simp
qed simp

lemma nontried_outside_scope_correct:
  assumes "canon (entries m)" and "scope m = Some sc" and "disj_from 0 sc"
  shows "nontried_outside_scope m = card {b. look (entries m) b = Some NonTried \<and> b \<notin> bytes_of sc}"
proof -
  let ?es = "filter (\<lambda>e. e_status e \<in> {NonTried}) (entries m)"
  have r: "runs_from 0 (entries m)" using assms(1) by (simp add: canon_def)
  have rf: "runs_from c es \<Longrightarrow> runs_from c (filter P es)" for c es P
    by (induction c es rule: runs_from.induct) (auto intro: runs_from_mono)
  have tot: "0 + total_len (spans ?es) \<le> u64_max"
    using disj_from_total_le [OF spans_disj [OF r]] by simp
  have "bytes_of (spans ?es) = {b. look (entries m) b = Some NonTried}"
    using spans_bytes [OF r, of "{NonTried}"] by simp
  then show ?thesis
    using outside_walk_correct [OF rf [OF r] assms(3) tot]
    by (simp add: nontried_outside_scope_def assms(2) set_diff_eq)
qed

subsection \<open>Properties\<close>

text \<open>
C1: Recording a span over a canonical map updates the status of exactly its bytes, keeps the map
canonical, and gives the only canonical map with those statuses: the window \<open>splice\<close> touches
suffices, whatever runs lie around it.
\<close>

theorem splice_refines_update:
  assumes "canon (entries m)" and "p < q" and "q \<le> u64_max"
  shows "canon (entries (splice p q st m)) \<and>
    look (entries (splice p q st m)) = (\<lambda>b. if p \<le> b \<and> b < q then Some st else look (entries m) b) \<and>
    (\<forall>es. canon es \<longrightarrow> look es = (\<lambda>b. if p \<le> b \<and> b < q then Some st else look (entries m) b) \<longrightarrow>
       es = entries (splice p q st m))"
proof -
  have e: "entries (splice p q st m) = splice_entries (entries m) p q st" by (simp add: splice_def)
  show ?thesis
    using dm.mark_wf [OF assms] dm.status_mark [OF assms] dm.wf_ext by (simp add: e)
qed

definition sample_map :: Mapfile where
  "sample_map =
     \<lparr>path = ''disc.iso.mapfile'', entries = [entry 0 8192 Finished, entry 8192 4096 NonTrimmed, entry 12288 4096 NonTried],
      total_size = 16384, version = ''freemkv'',
      stats_field = compute_stats [entry 0 8192 Finished, entry 8192 4096 NonTrimmed, entry 12288 4096 NonTried] 16384,
      dirty = False, last_flushed = 0, disc_hash = None, vidfp = None, legacy_keyfps = [],
      scope = Some [(0, 14336)], raw = Some False, disowned = False\<rparr>"

lemma sample_canon: "canon (entries sample_map)"
  by (simp add: sample_map_def canon_def mergeable_def run_end_def sat_add_def u64_max_def)

theorem splice_refines_update_witness:
  "look (entries (splice 2048 10240 Unreadable sample_map)) 9000 = Some Unreadable \<and>
   look (entries (splice 2048 10240 Unreadable sample_map)) 11000 = Some NonTrimmed"
  using splice_refines_update [of sample_map 2048 10240 Unreadable] sample_canon
  by (simp add: sample_map_def u64_max_def)

text \<open>
Records over disjoint spans commute, a span recorded in two adjacent pieces is the span recorded
once, recording the same span again overwrites, and recording what a map already says changes
nothing.
\<close>

theorem records_algebra:
  assumes "canon es" and "p < r" and "r < q" and "q \<le> u64_max" and "q \<le> a" and "a < b" and "b \<le> u64_max"
  shows "splice_entries (splice_entries es p q s) a b t = splice_entries (splice_entries es a b t) p q s \<and>
    splice_entries (splice_entries es p r s) r q s = splice_entries es p q s \<and>
    splice_entries (splice_entries es p q s) p q t = splice_entries es p q t \<and>
    ((\<forall>x. p \<le> x \<and> x < q \<longrightarrow> look es x = Some s) \<longrightarrow> splice_entries es p q s = es)"
  using dm.marks_commute [of es p q a b s t] dm.mark_split [of es p r q s] dm.mark_twice [of es p q s t]
    dm.mark_same [of es p q s] assms by simp

theorem records_algebra_witness:
  "splice_entries (splice_entries [entry 0 100 NonTried] 10 30 Finished) 40 50 Unreadable =
     splice_entries (splice_entries [entry 0 100 NonTried] 40 50 Unreadable) 10 30 Finished"
  using records_algebra [of "[entry 0 100 NonTried]" 10 20 30 40 50 Finished Unreadable]
  by (simp add: canon_def u64_max_def)

text \<open>
C28: Promoting a set of statuses gives the map that recording every matching range one after the
other gives: matching bytes change, all others keep their status.
\<close>

theorem promote_is_recording:
  assumes "canon (entries m)"
  shows "entries (promote_map frm to m) = record_ranges to (ranges_with m frm) (entries m) \<and>
    canon (entries (promote_map frm to m)) \<and>
    look (entries (promote_map frm to m)) =
      (\<lambda>b. map_option (\<lambda>s. if s \<in> set frm then to else s) (look (entries m) b))"
  using promote_eq_record_ranges [OF assms] promote_entries_canon [OF assms] look_promote_entries [OF assms]
  by (simp add: promote_map_def Let_def fun_eq_iff)

theorem promote_is_recording_witness:
  "look (entries (promote_map [NonTrimmed, NonScraped] Unreadable sample_map)) 9000 = Some Unreadable \<and>
   look (entries (promote_map [NonTrimmed, NonScraped] Unreadable sample_map)) 13000 = Some NonTried"
  using promote_is_recording [OF sample_canon, of "[NonTrimmed, NonScraped]" Unreadable,
      THEN conjunct2, THEN conjunct2]
  by (simp add: sample_map_def)

text \<open>
The range queries are exact: \<open>ranges_with\<close> lists, sorted and disjoint, the bytes with one of the
statuses, and \<open>next_with\<close> finds the first byte at or after a position with a status and the rest of
its run.
\<close>

theorem queries_exact:
  assumes "canon (entries m)"
  shows "disj_from 0 (ranges_with m sts) \<and>
    bytes_of (ranges_with m sts) = {b. \<exists>s \<in> set sts. look (entries m) b = Some s} \<and>
    (case next_with m from st of
       None \<Rightarrow> \<forall>b \<ge> from. look (entries m) b \<noteq> Some st
     | Some (p, n) \<Rightarrow> 0 < n \<and> from \<le> p \<and> (\<forall>b. p \<le> b \<and> b < p + n \<longrightarrow> look (entries m) b = Some st) \<and>
         (\<forall>b. from \<le> b \<and> b < p \<longrightarrow> look (entries m) b \<noteq> Some st))"
proof -
  have r: "runs_from 0 (entries m)" using assms by (simp add: canon_def)
  show ?thesis
    unfolding next_with_def using ranges_with_correct [OF r, of sts] next_with_correct [OF r, of "from" st]
    by blast
qed

theorem queries_exact_witness:
  "ranges_with sample_map bad_sector_statuses = [(8192, 4096), (12288, 4096)] \<and>
   bytes_of (ranges_with sample_map bad_sector_statuses) =
     {b. \<exists>s \<in> set bad_sector_statuses. look (entries sample_map) b = Some s}"
  using queries_exact [OF sample_canon, of bad_sector_statuses]
  by (simp add: sample_map_def ranges_with_def bad_sector_statuses_def)

end
