(* ===== verification/MapfileText.thy ===== *)
theory MapfileText
  imports MapfileInv
begin

text \<open>
  The text form of the damage map: what \<open>write_locked\<close> prints and what \<open>load\<close> reads, in
  \<open>src/src/recovery/mapfile.rs\<close>.

  Text is a list of characters with code points below 256 (the type \<^typ>\<open>char\<close>); white space is the
  Unicode property restricted to them. The hexadecimal parser \<open>ph n s\<close> of \<open>n\<close> bytes
  (\<open>libfreemkv::hex::parse_hex_fixed\<close>) and the hash \<open>sh tag bytes\<close> (\<open>sha2\<close>) are parameters; bytes are
  naturals below 256.
\<close>

subsection \<open>The string operations of the standard library\<close>

definition nl :: char where "nl = CHR 0x0A"

definition cr :: char where "cr = CHR 0x0D"

definition is_ws :: "char \<Rightarrow> bool" where
  "is_ws c = (let n = of_char c :: nat in 9 \<le> n \<and> n \<le> 13 \<or> n = 32 \<or> n = 133 \<or> n = 160)"

definition trim :: "string \<Rightarrow> string" where
  "trim s = rev (dropWhile is_ws (rev (dropWhile is_ws s)))"

fun strip_prefix :: "string \<Rightarrow> string \<Rightarrow> string option" where
  "strip_prefix [] s = Some s"
| "strip_prefix (p # ps) [] = None"
| "strip_prefix (p # ps) (c # cs) = (if p = c then strip_prefix ps cs else None)"

text \<open>\<open>lines\<close>: the first argument is the current line, reversed.\<close>

definition strip_cr :: "string \<Rightarrow> string" where
  "strip_cr s = (if s \<noteq> [] \<and> last s = cr then butlast s else s)"

fun lines_acc :: "string \<Rightarrow> string \<Rightarrow> string list" where
  "lines_acc acc [] = (if acc = [] then [] else [rev acc])"
| "lines_acc acc (c # cs) =
     (if c = nl then strip_cr (rev acc) # lines_acc [] cs else lines_acc (c # acc) cs)"

definition lines_of :: "string \<Rightarrow> string list" where
  "lines_of s = lines_acc [] s"

text \<open>\<open>split_whitespace\<close>, with the same accumulator.\<close>

fun ws_acc :: "string \<Rightarrow> string \<Rightarrow> string list" where
  "ws_acc acc [] = (if acc = [] then [] else [rev acc])"
| "ws_acc acc (c # cs) =
     (if is_ws c then (if acc = [] then ws_acc [] cs else rev acc # ws_acc [] cs)
      else ws_acc (c # acc) cs)"

definition split_whitespace :: "string \<Rightarrow> string list" where
  "split_whitespace s = ws_acc [] s"

text \<open>\<open>split\<close> on a separator, and \<open>split_once\<close>.\<close>

fun split_on :: "char \<Rightarrow> string \<Rightarrow> string list" where
  "split_on d [] = [[]]"
| "split_on d (c # cs) =
     (if c = d then [] # split_on d cs
      else case split_on d cs of [] \<Rightarrow> [[c]] | w # ws \<Rightarrow> (c # w) # ws)"

fun split_once :: "char \<Rightarrow> string \<Rightarrow> (string \<times> string) option" where
  "split_once d [] = None"
| "split_once d (c # cs) =
     (if c = d then Some ([], cs)
      else case split_once d cs of None \<Rightarrow> None | Some (a, b) \<Rightarrow> Some (c # a, b))"

text \<open>\<open>join(",")\<close>.\<close>

fun join_with :: "string \<Rightarrow> string list \<Rightarrow> string" where
  "join_with d [] = []"
| "join_with d [w] = w"
| "join_with d (w # v # ws) = w @ d @ join_with d (v # ws)"

text \<open>Digits, \<open>{:x}\<close> and \<open>{:02x}\<close>, and \<open>from_str_radix\<close> of an unsigned type with the given maximum.\<close>

definition digit_char :: "nat \<Rightarrow> char" where
  "digit_char d = (if d < 10 then char_of (48 + d) else char_of (87 + d))"

definition to_digit :: "nat \<Rightarrow> char \<Rightarrow> nat option" where
  "to_digit radix c =
     (let n = of_char c :: nat;
          d = (if 48 \<le> n \<and> n \<le> 57 then Some (n - 48)
               else if 97 \<le> n \<and> n \<le> 122 then Some (n - 87)
               else if 65 \<le> n \<and> n \<le> 90 then Some (n - 55)
               else None)
      in case d of None \<Rightarrow> None | Some v \<Rightarrow> (if v < radix then Some v else None))"

fun hex :: "nat \<Rightarrow> string" where
  "hex n = (if n < 16 then [digit_char n] else hex (n div 16) @ [digit_char (n mod 16)])"

declare hex.simps [simp del]

definition zero_pad :: "nat \<Rightarrow> string \<Rightarrow> string" where
  "zero_pad w s = replicate (w - length s) CHR ''0'' @ s"

fun parse_digits :: "nat \<Rightarrow> nat \<Rightarrow> nat \<Rightarrow> string \<Rightarrow> nat option" where
  "parse_digits radix mx acc [] = Some acc"
| "parse_digits radix mx acc (c # cs) =
     (case to_digit radix c of
        None \<Rightarrow> None
      | Some d \<Rightarrow>
          (if acc * radix > mx then None
           else if acc * radix + d > mx then None
           else parse_digits radix mx (acc * radix + d) cs))"

definition from_str_radix :: "nat \<Rightarrow> nat \<Rightarrow> string \<Rightarrow> nat option" where
  "from_str_radix radix mx s =
     (case s of
        [] \<Rightarrow> None
      | c # cs \<Rightarrow>
          (if cs = [] \<and> (c = CHR ''+'' \<or> c = CHR ''-'') then None
           else if c = CHR ''+'' then parse_digits radix mx 0 cs
           else parse_digits radix mx 0 s))"

subsection \<open>Printing\<close>

definition hex_lower :: "nat list \<Rightarrow> string" where
  "hex_lower bs = concat (map (\<lambda>b. zero_pad 2 (hex b)) bs)"

definition print_range :: "range \<Rightarrow> string" where
  "print_range r = ''0x'' @ hex (fst r) @ ''+0x'' @ hex (snd r)"

definition print_entry :: "MapEntry \<Rightarrow> string" where
  "print_entry e =
     ''0x'' @ zero_pad 9 (hex (e_pos e)) @ ''  0x'' @ zero_pad 9 (hex (e_size e)) @ ''    '' @
     [to_char (e_status e)]"

definition header_lines :: "Mapfile \<Rightarrow> string list" where
  "header_lines m =
     [''# Rescue Logfile. Created by '' @ version m] @
     (case disc_hash m of Some h \<Rightarrow> [''# freemkv-disc: '' @ h] | None \<Rightarrow> []) @
     (case vidfp m of Some fp \<Rightarrow> [''# freemkv-vidfp: '' @ hex_lower fp] | None \<Rightarrow> []) @
     map (\<lambda>fp. ''# freemkv-legacy-keyfp: '' @ hex_lower fp) (legacy_keyfps m) @
     (case scope m of
        Some rs \<Rightarrow> [''# freemkv-scope: '' @ join_with '','' (map print_range rs)]
      | None \<Rightarrow> []) @
     (case raw m of
        Some r \<Rightarrow> [''# freemkv-raw: '' @ (if r then ''1'' else ''0'')]
      | None \<Rightarrow> [])"

definition map_lines :: "Mapfile \<Rightarrow> string list" where
  "map_lines m =
     header_lines m @
     [''# Current pos / status / pass / pass_time'',
      ''0x000000000  ?  1  0'',
      ''#      pos        size  status''] @
     map print_entry (entries m)"

definition text_of :: "string list \<Rightarrow> string" where
  "text_of ls = concat (map (\<lambda>l. l @ [nl]) ls)"

definition print_map :: "Mapfile \<Rightarrow> string" where
  "print_map m = text_of (map_lines m)"

subsection \<open>Errors\<close>

text \<open>
  \<open>io::Error\<close> as the engine distinguishes it: the missing file, the parse errors with their stable
  kind, and every other error of the operating system.
\<close>

datatype io_error = NotFound | MapfileInvalid string | NotUtf8 | OsError nat

definition invalid :: "string \<Rightarrow> io_error" where
  "invalid kind = MapfileInvalid kind"

subsection \<open>Parsing\<close>

definition parse_hex :: "string \<Rightarrow> io_error + u64" where
  "parse_hex s =
     (let t = (case strip_prefix ''0x'' s of Some r \<Rightarrow> r | None \<Rightarrow> s)
      in ok_or (from_str_radix 16 u64_max t) (invalid ''hex''))"

fun single_char :: "string \<Rightarrow> char option" where
  "single_char [c] = Some c"
| "single_char _ = None"

definition field :: "string list \<Rightarrow> nat \<Rightarrow> string option" where
  "field fs i = (if i < length fs then Some (fs ! i) else None)"

definition is_current_line :: "string list \<Rightarrow> bool" where
  "is_current_line fs =
     (case Option.bind (field fs 1) single_char of
        None \<Rightarrow> False
      | Some c \<Rightarrow>
          (if c = CHR ''G'' then True
           else if c = CHR ''F'' then
             \<not> (case Option.bind (field fs 2) single_char of
                  None \<Rightarrow> False
                | Some s \<Rightarrow> from_char s \<noteq> None)
           else from_char c \<noteq> None))"

definition parse_disc_hash :: "(nat \<Rightarrow> string \<Rightarrow> nat list option) \<Rightarrow> string \<Rightarrow> string option" where
  "parse_disc_hash ph s = map_option hex_lower (ph 20 s)"

text \<open>The identity lines of a file written before 1.8. Tags are the byte strings of the source.\<close>

record LegacyIdentity =
  lg_vidfp :: "nat list option"
  lg_keyfps :: "nat list list"

definition LEGACY_BASE_CPS_LIMIT :: nat where "LEGACY_BASE_CPS_LIMIT = 16777216"

definition vid_fingerprint :: "(string \<Rightarrow> nat list \<Rightarrow> nat list) \<Rightarrow> nat list \<Rightarrow> nat list" where
  "vid_fingerprint sh vid = sh ''freemkv-vid-fp-v1'' vid"

definition key_fingerprint :: "(string \<Rightarrow> nat list \<Rightarrow> nat list) \<Rightarrow> nat list \<Rightarrow> nat list" where
  "key_fingerprint sh key = take 8 (sh ''freemkv-key-fp-v1'' key)"

definition parse_uk_line ::
  "(nat \<Rightarrow> string \<Rightarrow> nat list option) \<Rightarrow> string \<Rightarrow> (nat \<times> nat list) option" where
  "parse_uk_line ph s =
     (case split_once CHR '':'' s of
        None \<Rightarrow> None
      | Some (cps, hx) \<Rightarrow>
          (case from_str_radix 10 u32_max (trim cps) of
             None \<Rightarrow> None
           | Some c \<Rightarrow> (case ph 16 (trim hx) of None \<Rightarrow> None | Some key \<Rightarrow> Some (c, key))))"

definition parse_legacy_key_lines ::
  "(nat \<Rightarrow> string \<Rightarrow> nat list option) \<Rightarrow> (string \<Rightarrow> nat list \<Rightarrow> nat list) \<Rightarrow> string \<Rightarrow>
   LegacyIdentity \<Rightarrow> io_error + LegacyIdentity" where
  "parse_legacy_key_lines ph sh comment out =
     (case strip_prefix ''freemkv-vid:'' comment of
        Some hx \<Rightarrow>
          bind_res (ok_or (ph 16 (trim hx)) (invalid ''vid'')) (\<lambda>vid.
            Inr (out\<lparr>lg_vidfp := Some (vid_fingerprint sh vid)\<rparr>))
      | None \<Rightarrow>
          (case Option.bind (strip_prefix ''freemkv-uk:'' comment) (\<lambda>uk. parse_uk_line ph (trim uk)) of
             None \<Rightarrow> Inr out
           | Some (cps, key) \<Rightarrow>
               (if cps < LEGACY_BASE_CPS_LIMIT \<and> key_fingerprint sh key \<notin> set (lg_keyfps out)
                then Inr (out\<lparr>lg_keyfps := lg_keyfps out @ [key_fingerprint sh key]\<rparr>)
                else Inr out)))"

fun parse_scope_parts :: "string list \<Rightarrow> range list option" where
  "parse_scope_parts [] = Some []"
| "parse_scope_parts (part # parts) =
     (case split_once CHR ''+'' part of
        None \<Rightarrow> None
      | Some (p, n) \<Rightarrow>
          (case (parse_hex (trim p), parse_hex (trim n)) of
             (Inr p', Inr n') \<Rightarrow>
               (case checked_add p' n' of
                  None \<Rightarrow> None
                | Some _ \<Rightarrow> map_option (\<lambda>rs. (p', n') # rs) (parse_scope_parts parts))
           | _ \<Rightarrow> None))"

definition parse_scope :: "string \<Rightarrow> range list option" where
  "parse_scope s =
     map_option merge_byte_ranges
       (parse_scope_parts (filter (\<lambda>p. p \<noteq> []) (map trim (split_on CHR '','' s))))"

subsection \<open>The loop of \<open>load\<close>\<close>

record LoadState =
  ls_entries :: "MapEntry list"
  saw_current_line :: bool
  ls_version :: string
  ls_disc_hash :: "string option"
  ls_vidfp :: "nat list option"
  legacy :: LegacyIdentity
  ls_scope :: "range list option"
  ls_raw :: "bool option"

definition load_init :: LoadState where
  "load_init =
     \<lparr>ls_entries = [], saw_current_line = False, ls_version = ''unknown'', ls_disc_hash = None,
      ls_vidfp = None, legacy = \<lparr>lg_vidfp = None, lg_keyfps = []\<rparr>, ls_scope = None, ls_raw = None\<rparr>"

text \<open>One step of the comment branch per \<open>if let\<close> of the source, in its order.\<close>

definition comment_version :: "string \<Rightarrow> LoadState \<Rightarrow> io_error + LoadState" where
  "comment_version rest st =
     (case strip_prefix ''Rescue Logfile. Created by '' rest of
        Some v \<Rightarrow> Inr (st\<lparr>ls_version := v\<rparr>) | None \<Rightarrow> Inr st)"

definition comment_disc ::
  "(nat \<Rightarrow> string \<Rightarrow> nat list option) \<Rightarrow> string \<Rightarrow> LoadState \<Rightarrow> io_error + LoadState" where
  "comment_disc ph rest st =
     (case strip_prefix ''freemkv-disc:'' rest of
        Some h \<Rightarrow> bind_res (ok_or (parse_disc_hash ph (trim h)) (invalid ''disc'')) (\<lambda>d.
          Inr (st\<lparr>ls_disc_hash := Some d\<rparr>))
      | None \<Rightarrow> Inr st)"

definition comment_vidfp ::
  "(nat \<Rightarrow> string \<Rightarrow> nat list option) \<Rightarrow> string \<Rightarrow> LoadState \<Rightarrow> io_error + LoadState" where
  "comment_vidfp ph rest st =
     (case strip_prefix ''freemkv-vidfp:'' rest of
        Some h \<Rightarrow> bind_res (ok_or (ph 32 (trim h)) (invalid ''vidfp'')) (\<lambda>fp.
          Inr (st\<lparr>ls_vidfp := Some fp\<rparr>))
      | None \<Rightarrow> Inr st)"

definition comment_keyfp ::
  "(nat \<Rightarrow> string \<Rightarrow> nat list option) \<Rightarrow> string \<Rightarrow> LoadState \<Rightarrow> io_error + LoadState" where
  "comment_keyfp ph rest st =
     (case strip_prefix ''freemkv-legacy-keyfp:'' rest of
        Some h \<Rightarrow> bind_res (ok_or (ph 8 (trim h)) (invalid ''keyfp'')) (\<lambda>fp.
          Inr (st\<lparr>legacy := (legacy st)\<lparr>lg_keyfps := lg_keyfps (legacy st) @ [fp]\<rparr>\<rparr>))
      | None \<Rightarrow> Inr st)"

definition comment_legacy ::
  "(nat \<Rightarrow> string \<Rightarrow> nat list option) \<Rightarrow> (string \<Rightarrow> nat list \<Rightarrow> nat list) \<Rightarrow> string \<Rightarrow> LoadState \<Rightarrow>
   io_error + LoadState" where
  "comment_legacy ph sh rest st =
     bind_res (parse_legacy_key_lines ph sh rest (legacy st)) (\<lambda>l. Inr (st\<lparr>legacy := l\<rparr>))"

definition comment_raw :: "string \<Rightarrow> LoadState \<Rightarrow> io_error + LoadState" where
  "comment_raw rest st =
     (case strip_prefix ''freemkv-raw:'' rest of
        Some r \<Rightarrow>
          (if trim r = ''1'' then Inr (st\<lparr>ls_raw := Some True\<rparr>)
           else if trim r = ''0'' then Inr (st\<lparr>ls_raw := Some False\<rparr>)
           else Inl (invalid ''raw''))
      | None \<Rightarrow> Inr st)"

definition comment_scope :: "string \<Rightarrow> LoadState \<Rightarrow> io_error + LoadState" where
  "comment_scope rest st =
     (case strip_prefix ''freemkv-scope:'' rest of
        Some sc \<Rightarrow>
          (case parse_scope (trim sc) of
             None \<Rightarrow> Inl (invalid ''scope'') | Some rs \<Rightarrow> Inr (st\<lparr>ls_scope := Some rs\<rparr>))
      | None \<Rightarrow> Inr st)"

definition load_comment ::
  "(nat \<Rightarrow> string \<Rightarrow> nat list option) \<Rightarrow> (string \<Rightarrow> nat list \<Rightarrow> nat list) \<Rightarrow> string \<Rightarrow> LoadState \<Rightarrow>
   io_error + LoadState" where
  "load_comment ph sh rest st =
     bind_res (comment_version rest st) (\<lambda>st.
     bind_res (comment_disc ph rest st) (\<lambda>st.
     bind_res (comment_vidfp ph rest st) (\<lambda>st.
     bind_res (comment_keyfp ph rest st) (\<lambda>st.
     bind_res (comment_legacy ph sh rest st) (\<lambda>st.
     bind_res (comment_raw rest st) (\<lambda>st.
     comment_scope rest st))))))"

definition load_entry :: "string list \<Rightarrow> LoadState \<Rightarrow> io_error + LoadState" where
  "load_entry fs st =
     (if length fs < 3 then Inl (invalid ''short_line'')
      else if length fs > 3 then Inl (invalid ''long_line'')
      else
        bind_res (parse_hex (fs ! 0)) (\<lambda>p.
        bind_res (parse_hex (fs ! 1)) (\<lambda>n.
          (if checked_add p n = None then Inl (invalid ''range'')
           else if n = 0 then Inl (invalid ''zero_size'')
           else
             bind_res (ok_or (Option.bind (single_char (fs ! 2)) from_char) (invalid ''status_char''))
               (\<lambda>s. Inr (st\<lparr>ls_entries := ls_entries st @ [entry p n s]\<rparr>))))))"

definition load_data :: "string \<Rightarrow> LoadState \<Rightarrow> io_error + LoadState" where
  "load_data t st =
     (let fs = split_whitespace t
      in if \<not> saw_current_line st
         then (let st' = st\<lparr>saw_current_line := True\<rparr>
               in if is_current_line fs then Inr st' else load_entry fs st')
         else load_entry fs st)"

definition load_line ::
  "(nat \<Rightarrow> string \<Rightarrow> nat list option) \<Rightarrow> (string \<Rightarrow> nat list \<Rightarrow> nat list) \<Rightarrow> string \<Rightarrow> LoadState \<Rightarrow>
   io_error + LoadState" where
  "load_line ph sh line st =
     (let t = trim line
      in if t = [] then Inr st
         else case strip_prefix ''#'' t of
                Some rest \<Rightarrow> load_comment ph sh (trim rest) st
              | None \<Rightarrow> load_data t st)"

fun load_lines ::
  "(nat \<Rightarrow> string \<Rightarrow> nat list option) \<Rightarrow> (string \<Rightarrow> nat list \<Rightarrow> nat list) \<Rightarrow> string list \<Rightarrow> LoadState \<Rightarrow>
   io_error + LoadState" where
  "load_lines ph sh [] st = Inr st"
| "load_lines ph sh (l # ls) st = bind_res (load_line ph sh l st) (load_lines ph sh ls)"

text \<open>
  The second loop: overlaps are refused, gaps become \<open>NonTried\<close> runs. \<open>filled\<close> is the output vector
  with its last element first, as \<^const>\<open>push_coalesced\<close> expects.
\<close>

fun fill_gaps :: "MapEntry list \<Rightarrow> u64 \<Rightarrow> MapEntry list \<Rightarrow> io_error + MapEntry list" where
  "fill_gaps filled cursor [] = Inr (rev filled)"
| "fill_gaps filled cursor (e # es) =
     (if e_pos e < cursor then Inl (invalid ''overlap'')
      else (let filled' = (if e_pos e > cursor
                           then push_coalesced filled (entry cursor (e_pos e - cursor) NonTried)
                           else filled)
            in fill_gaps (push_coalesced filled' e) (run_end e) es))"

definition entries_end :: "MapEntry list \<Rightarrow> u64" where
  "entries_end es = (if es = [] then 0 else run_end (last es))"

definition load_text ::
  "(nat \<Rightarrow> string \<Rightarrow> nat list option) \<Rightarrow> (string \<Rightarrow> nat list \<Rightarrow> nat list) \<Rightarrow> string \<Rightarrow> nat \<Rightarrow> string \<Rightarrow>
   io_error + Mapfile" where
  "load_text ph sh file_path now text =
     bind_res (load_lines ph sh (lines_of text) load_init) (\<lambda>st.
     bind_res (fill_gaps [] 0 (sort_key e_pos (ls_entries st))) (\<lambda>es.
       Inr \<lparr>path = file_path, entries = es, total_size = entries_end es, version = ls_version st,
            stats_field = compute_stats es (entries_end es), dirty = False, last_flushed = now,
            disc_hash = ls_disc_hash st,
            vidfp = (case ls_vidfp st of None \<Rightarrow> lg_vidfp (legacy st) | fp \<Rightarrow> fp),
            legacy_keyfps = lg_keyfps (legacy st), scope = ls_scope st, raw = ls_raw st,
            disowned = False\<rparr>))"

end
