(* ===== verification/MapfileTextInv.thy ===== *)
theory MapfileTextInv
  imports MapfileText
begin

text \<open>
  What \<open>load\<close> guarantees of any text it accepts, and that it reads back what \<open>write_locked\<close> prints.
\<close>

subsection \<open>Filling the gaps\<close>

definition entry_valid :: "MapEntry \<Rightarrow> bool" where
  "entry_valid e = (0 < e_size e \<and> e_pos e + e_size e \<le> u64_max)"

fun with_gaps :: "nat \<Rightarrow> MapEntry list \<Rightarrow> MapEntry list" where
  "with_gaps c [] = []"
| "with_gaps c (e # es) =
     (if c < e_pos e then [entry c (e_pos e - c) NonTried] else []) @ e # with_gaps (run_end e) es"

lemma fill_gaps_eq:
  assumes "\<forall>e \<in> set es. entry_valid e"
  shows "fill_gaps filled c es =
    (if runs_from c es then Inr (rev (foldl push_coalesced filled (with_gaps c es)))
     else Inl (MapfileInvalid ''overlap''))"
  using assms
proof (induction es arbitrary: filled c)
  case (Cons e es)
  then have e: "0 < e_size e" "e_pos e + e_size e \<le> u64_max" by (auto simp: entry_valid_def)
  have v: "\<forall>x \<in> set es. entry_valid x" using Cons.prems by simp
  show ?case
    using e by (simp add: Cons.IH [OF v] Let_def invalid_def arith64 del: foldl_append)
qed (simp add: invalid_def)

lemma with_gaps_runs: "runs_from c es \<Longrightarrow> runs_from c (with_gaps c es)"
  by (induction c es rule: with_gaps.induct) (auto simp: arith64)

lemma with_gaps_last: "es \<noteq> [] \<Longrightarrow> with_gaps c es \<noteq> [] \<and> last (with_gaps c es) = last es"
  by (induction c es rule: with_gaps.induct) auto

lemma entries_end_bound: "runs_from c es \<Longrightarrow> look es b = Some s \<Longrightarrow> b < entries_end es"
proof (induction c es rule: runs_from.induct)
  case (2 c e es)
  then have e: "0 < e_size e" "run_end e = e_pos e + e_size e" by (auto simp: arith64)
  have r: "runs_from (e_pos e + e_size e) es" using 2 by simp
  have "es \<noteq> [] \<Longrightarrow> e_pos e + e_size e \<le> run_end (last es)"
    using runs_from_mem [OF r, of "last es"] by (simp add: arith64)
  then show ?case using 2 e r by (auto simp: entries_end_def split: if_splits)
qed simp

lemma with_gaps_look:
  "runs_from c es \<Longrightarrow> look (with_gaps c es) b =
     (case look es b of Some s \<Rightarrow> Some s
      | None \<Rightarrow> if c \<le> b \<and> b < entries_end es then Some NonTried else None)"
proof (induction c es rule: runs_from.induct)
  case (2 c e es)
  then have e: "0 < e_size e" "run_end e = e_pos e + e_size e" "c \<le> e_pos e" by (auto simp: arith64)
  have r: "runs_from (e_pos e + e_size e) es" using 2 by simp
  have last: "es \<noteq> [] \<Longrightarrow> e_pos e + e_size e \<le> run_end (last es)"
    using runs_from_mem [OF r, of "last es"] by (simp add: arith64)
  have low: "b < e_pos e + e_size e \<Longrightarrow> look es b = None" using look_below [OF r] by simp
  show ?case using "2.IH" [OF r] e last low
    by (auto simp: entries_end_def split: option.splits if_splits)
qed (simp add: entries_end_def)

lemma coalesce_end: "runs_from c es \<Longrightarrow> entries_end (coalesce es) = entries_end es"
  using merge_runs_correct [of c es] by (auto simp: coalesce_eq_merge_runs entries_end_def)

lemma fill_gaps_correct:
  assumes "\<forall>e \<in> set es. entry_valid e" and "fill_gaps [] 0 es = Inr r"
  shows "canon r \<and> runs_from 0 es \<and> entries_end r = entries_end es \<and>
    look r = (\<lambda>b. case look es b of Some s \<Rightarrow> Some s
                  | None \<Rightarrow> if b < entries_end es then Some NonTried else None)"
proof -
  have es: "runs_from 0 es" and r: "r = coalesce (with_gaps 0 es)"
    using assms by (auto simp: fill_gaps_eq coalesce_def split: if_splits)
  note g = with_gaps_runs [OF es]
  have "entries_end (with_gaps 0 es) = entries_end es"
    using with_gaps_last [of es 0] by (auto simp: entries_end_def)
  then show ?thesis
    using g es canon_coalesce [OF g] coalesce_end [OF g] look_coalesce [OF g]
    by (auto simp: r with_gaps_look fun_eq_iff)
qed

subsection \<open>What a loaded map satisfies\<close>

text \<open>A gapless canonical partition of \<open>[0, total_size)\<close> with the statistics of its runs.\<close>

definition map_ok :: "Mapfile \<Rightarrow> bool" where
  "map_ok m = (canon (entries m) \<and> total_size m = entries_end (entries m) \<and>
     (\<forall>b < total_size m. look (entries m) b \<noteq> None) \<and>
     stats_field m = compute_stats (entries m) (total_size m))"

lemma load_entry_valid:
  "load_entry fs st = Inr st' \<Longrightarrow> \<forall>e \<in> set (ls_entries st). entry_valid e \<Longrightarrow>
     \<forall>e \<in> set (ls_entries st'). entry_valid e"
  by (auto simp: load_entry_def bind_res_eq_Inr checked_add_def entry_valid_def split: if_splits)

lemma comment_entries:
  "comment_version rest st = Inr st' \<Longrightarrow> ls_entries st' = ls_entries st"
  "comment_disc ph rest st = Inr st' \<Longrightarrow> ls_entries st' = ls_entries st"
  "comment_vidfp ph rest st = Inr st' \<Longrightarrow> ls_entries st' = ls_entries st"
  "comment_keyfp ph rest st = Inr st' \<Longrightarrow> ls_entries st' = ls_entries st"
  "comment_legacy ph sh rest st = Inr st' \<Longrightarrow> ls_entries st' = ls_entries st"
  "comment_raw rest st = Inr st' \<Longrightarrow> ls_entries st' = ls_entries st"
  "comment_scope rest st = Inr st' \<Longrightarrow> ls_entries st' = ls_entries st"
  by (auto simp: comment_version_def comment_disc_def comment_vidfp_def comment_keyfp_def
      comment_legacy_def comment_raw_def comment_scope_def bind_res_eq_Inr
      split: option.splits if_splits)

lemma load_comment_entries:
  "load_comment ph sh rest st = Inr st' \<Longrightarrow> ls_entries st' = ls_entries st"
  by (auto simp: load_comment_def bind_res_eq_Inr dest!: comment_entries)

lemma load_line_valid:
  assumes "load_line ph sh l st = Inr st'" and "\<forall>e \<in> set (ls_entries st). entry_valid e"
  shows "\<forall>e \<in> set (ls_entries st'). entry_valid e"
proof (cases "strip_prefix ''#'' (trim l)")
  case None
  then show ?thesis
    using assms load_entry_valid [of "split_whitespace (trim l)" st st']
      load_entry_valid [of "split_whitespace (trim l)" "st\<lparr>saw_current_line := True\<rparr>" st']
    by (auto simp: load_line_def load_data_def Let_def split: if_splits)
next
  case (Some rest)
  then have "trim l \<noteq> []" by auto
  then have "ls_entries st' = ls_entries st"
    using assms(1) Some load_comment_entries by (simp add: load_line_def Let_def)
  then show ?thesis using assms(2) by simp
qed

lemma load_lines_valid:
  "load_lines ph sh ls st = Inr st' \<Longrightarrow> \<forall>e \<in> set (ls_entries st). entry_valid e \<Longrightarrow>
     \<forall>e \<in> set (ls_entries st'). entry_valid e"
proof (induction ls arbitrary: st)
  case (Cons l ls)
  then obtain st1 where "load_line ph sh l st = Inr st1" "load_lines ph sh ls st1 = Inr st'"
    by (auto simp: bind_res_eq_Inr)
  then show ?case using Cons.IH load_line_valid Cons.prems(2) by blast
qed simp

lemma load_text_sound:
  assumes "load_text ph sh fp now text = Inr m"
  shows "map_ok m \<and> \<not> dirty m \<and> \<not> disowned m"
proof -
  obtain st es where st: "load_lines ph sh (lines_of text) load_init = Inr st"
    and es: "fill_gaps [] 0 (sort_key e_pos (ls_entries st)) = Inr es"
    and m: "entries m = es" "total_size m = entries_end es" "\<not> dirty m" "\<not> disowned m"
      "stats_field m = compute_stats es (entries_end es)"
    using assms by (auto simp: load_text_def bind_res_eq_Inr)
  have "\<forall>e \<in> set (ls_entries st). entry_valid e"
    by (rule load_lines_valid [OF st]) (simp add: load_init_def)
  then have "\<forall>e \<in> set (sort_key e_pos (ls_entries st)). entry_valid e" by simp
  note f = fill_gaps_correct [OF this es]
  show ?thesis using f m by (auto simp: map_ok_def split: option.split)
qed

subsection \<open>Strings\<close>

definition rtrim :: "string \<Rightarrow> string" where
  "rtrim s = rev (dropWhile is_ws (rev s))"

lemma rtrim_Cons:
  "rtrim (c # s) = (if \<forall>d \<in> set s. is_ws d then (if is_ws c then [] else [c]) else c # rtrim s)"
  by (auto simp: rtrim_def dropWhile_append)

lemma rtrim_Nil [simp]: "rtrim [] = []"
  by (simp add: rtrim_def)

lemma rtrim_all: "rtrim s = [] \<longleftrightarrow> (\<forall>d \<in> set s. is_ws d)"
  by (auto simp: rtrim_def)

lemma rtrim_idem [simp]: "rtrim (rtrim s) = rtrim s"
  by (simp add: rtrim_def)

lemma rtrim_id: "s \<noteq> [] \<Longrightarrow> \<not> is_ws (last s) \<Longrightarrow> rtrim s = s"
  by (cases s rule: rev_cases) (auto simp: rtrim_def)

lemma trim_alt: "trim s = rtrim (dropWhile is_ws s)"
  by (simp add: trim_def rtrim_def)

lemma trim_ws: "is_ws c \<Longrightarrow> trim (c # s) = trim s"
  by (simp add: trim_def)

lemma trim_non_ws: "\<not> is_ws c \<Longrightarrow> trim (c # s) = c # rtrim s"
  using rtrim_all [of s] by (auto simp: trim_alt rtrim_Cons)

lemma trim_all_ws: "\<forall>d \<in> set s. is_ws d \<Longrightarrow> trim s = []"
proof -
  assume "\<forall>d \<in> set s. is_ws d"
  then have "dropWhile is_ws s = []" by (simp add: dropWhile_eq_Nil_conv)
  then show ?thesis by (simp only: trim_alt rtrim_Nil)
qed

lemma trim_rtrim: "trim (rtrim s) = trim s"
proof (induction s)
  case (Cons c s)
  show ?case
  proof (cases "\<forall>d \<in> set s. is_ws d")
    case True
    then have "rtrim s = []" by (simp add: rtrim_all)
    then show ?thesis using True by (cases "is_ws c")
        (auto simp: rtrim_Cons trim_non_ws trim_ws trim_all_ws)
  next
    case False
    then have "rtrim (c # s) = c # rtrim s" by (auto simp: rtrim_Cons)
    then show ?thesis using Cons.IH by (cases "is_ws c") (simp_all add: trim_ws trim_non_ws)
  qed
qed simp

lemma trim_id: "s \<noteq> [] \<Longrightarrow> \<not> is_ws (hd s) \<Longrightarrow> \<not> is_ws (last s) \<Longrightarrow> trim s = s"
  by (cases s) (auto simp: trim_alt rtrim_id)

lemma strip_prefix_append [simp]: "strip_prefix p (p @ s) = Some s"
  by (induction p) auto

lemma ws_lits [simp]:
  "is_ws CHR '' ''" "\<not> is_ws CHR ''#''" "\<not> is_ws CHR ''0''" "\<not> is_ws CHR ''1''"
  by (simp_all add: is_ws_def)

lemma to_char_not_ws [simp]: "\<not> is_ws (to_char s)" "to_char s \<noteq> nl" "to_char s \<noteq> cr"
  by (cases s; simp add: is_ws_def nl_def cr_def)+

subsection \<open>Lines\<close>

definition plain :: "string \<Rightarrow> bool" where
  "plain l = (nl \<notin> set l \<and> cr \<notin> set l)"

lemma lines_acc_line:
  "nl \<notin> set l \<Longrightarrow> lines_acc acc (l @ nl # rest) = strip_cr (rev acc @ l) # lines_acc [] rest"
  by (induction l arbitrary: acc) auto

lemma strip_cr_id: "l = [] \<or> last l \<noteq> cr \<Longrightarrow> strip_cr l = l"
  by (auto simp: strip_cr_def)

lemma lines_of_text:
  "\<forall>l \<in> set ls. nl \<notin> set l \<and> (l = [] \<or> last l \<noteq> cr) \<Longrightarrow> lines_of (text_of ls) = ls"
proof (induction ls)
  case (Cons l ls)
  then show ?case
    using lines_acc_line [of l "[]" "text_of ls"] strip_cr_id [of l]
    by (simp add: lines_of_def text_of_def)
qed (simp add: lines_of_def text_of_def)

lemma load_lines_append:
  "load_lines ph sh (xs @ ys) st = bind_res (load_lines ph sh xs st) (load_lines ph sh ys)"
proof (induction xs arbitrary: st)
  case (Cons x xs)
  then show ?case by (cases "load_line ph sh x st") auto
qed simp

text \<open>A comment line reaches the comment branch with its text trimmed.\<close>

lemma load_line_comment:
  "load_line ph sh (CHR ''#'' # x) st = load_comment ph sh (trim x) st"
  by (simp add: load_line_def trim_non_ws trim_rtrim Let_def)

subsection \<open>Hexadecimal numbers\<close>

definition hex_char :: "char \<Rightarrow> bool" where
  "hex_char c = (to_digit 16 c \<noteq> None)"

lemma to_digit_digit_char: "d < 16 \<Longrightarrow> to_digit 16 (digit_char d) = Some d"
  by (auto simp: to_digit_def digit_char_def Let_def)

lemma hex_char_digit [simp]: "d < 16 \<Longrightarrow> hex_char (digit_char d)"
  by (simp add: hex_char_def to_digit_digit_char)

lemma hex_chars: "c \<in> set (hex n) \<Longrightarrow> hex_char c"
proof (induction n rule: hex.induct)
  case (1 n)
  then show ?case by (cases "n < 16") (auto simp: hex.simps [of n])
qed

lemma hex_ne [simp]: "hex n \<noteq> []"
  by (subst hex.simps) simp

lemma hex_char_plain:
  "hex_char c \<Longrightarrow> \<not> is_ws c \<and> c \<noteq> nl \<and> c \<noteq> cr \<and> c \<noteq> CHR ''+'' \<and> c \<noteq> CHR ''-'' \<and> c \<noteq> CHR '',''"
  by (auto simp: hex_char_def to_digit_def is_ws_def Let_def nl_def cr_def split: if_splits)

lemma parse_digits_snoc:
  "parse_digits r mx a (xs @ [c]) = (case parse_digits r mx a xs of None \<Rightarrow> None
     | Some v \<Rightarrow> parse_digits r mx v [c])"
  by (induction xs arbitrary: a) (auto split: option.splits)

lemma parse_digits_hex: "n \<le> mx \<Longrightarrow> parse_digits 16 mx 0 (hex n) = Some n"
proof (induction n rule: hex.induct)
  case (1 n)
  show ?case
  proof (cases "n < 16")
    case True
    then show ?thesis using 1 by (simp add: hex.simps [of n] to_digit_digit_char)
  next
    case False
    have le: "n div 16 * 16 \<le> mx" "n div 16 \<le> mx" "n div 16 * 16 + n mod 16 = n"
      using 1(2) div_mult_mod_eq [of n 16] by linarith+
    have "parse_digits 16 mx 0 (hex (n div 16)) = Some (n div 16)" using 1(1) False le by simp
    then show ?thesis
      using False le 1(2) by (simp add: hex.simps [of n] parse_digits_snoc to_digit_digit_char)
  qed
qed

lemma parse_digits_zeros: "parse_digits 16 mx 0 (replicate k CHR ''0'' @ s) = parse_digits 16 mx 0 s"
  by (induction k) (auto simp: to_digit_def)

lemma zero_pad_chars: "c \<in> set (zero_pad w (hex n)) \<Longrightarrow> hex_char c"
  by (auto simp: zero_pad_def dest: hex_chars) (simp add: hex_char_def to_digit_def)

lemma parse_hex_pad: "n \<le> u64_max \<Longrightarrow> parse_hex (''0x'' @ zero_pad w (hex n)) = Inr n"
proof -
  assume n: "n \<le> u64_max"
  obtain c cs where c: "zero_pad w (hex n) = c # cs"
    by (cases "zero_pad w (hex n)") (auto simp: zero_pad_def)
  then have "hex_char c" using zero_pad_chars [of c w n] by simp
  moreover have "parse_digits 16 u64_max 0 (zero_pad w (hex n)) = Some n"
    using n by (simp add: zero_pad_def parse_digits_zeros parse_digits_hex)
  ultimately show ?thesis using c hex_char_plain [of c] by (simp add: parse_hex_def from_str_radix_def)
qed

lemma parse_hex_plain: "n \<le> u64_max \<Longrightarrow> parse_hex (''0x'' @ hex n) = Inr n"
  using parse_hex_pad [of n 0] by (simp add: zero_pad_def)

lemma hex_lower_chars: "c \<in> set (hex_lower bs) \<Longrightarrow> hex_char c"
  by (auto simp: hex_lower_def dest: zero_pad_chars)

lemma hex_lower_ne: "bs \<noteq> [] \<Longrightarrow> hex_lower bs \<noteq> []"
  by (cases bs) (auto simp: hex_lower_def zero_pad_def)

subsection \<open>Entry lines\<close>

lemma ws_acc_word:
  "\<forall>c \<in> set w. \<not> is_ws c \<Longrightarrow> is_ws d \<Longrightarrow> acc \<noteq> [] \<or> w \<noteq> [] \<Longrightarrow>
     ws_acc acc (w @ d # rest) = (rev acc @ w) # ws_acc [] rest"
  by (induction w arbitrary: acc) auto

lemma split_print_entry:
  "split_whitespace (print_entry e) =
     [''0x'' @ zero_pad 9 (hex (e_pos e)), ''0x'' @ zero_pad 9 (hex (e_size e)), [to_char (e_status e)]]"
proof -
  have word: "\<forall>c \<in> set (''0x'' @ zero_pad 9 (hex n)). \<not> is_ws c" for n
    using zero_pad_chars [of _ 9 n] hex_char_plain by (auto simp: is_ws_def)
  have two: "ws_acc [] ((''0x'' @ zero_pad 9 (hex n)) @ CHR '' '' # CHR '' '' # rest) =
      (''0x'' @ zero_pad 9 (hex n)) # ws_acc [] rest" for n rest
    using ws_acc_word [OF word, of "CHR '' ''" "[]" n "CHR '' '' # rest"] by simp
  show ?thesis
    using two [of "e_pos e" "(''0x'' @ zero_pad 9 (hex (e_size e))) @ ''    '' @ [to_char (e_status e)]"]
      two [of "e_size e" "''  '' @ [to_char (e_status e)]"]
    by (simp add: split_whitespace_def print_entry_def)
qed

lemma load_print_entry:
  assumes "entry_valid e"
  shows "load_entry (split_whitespace (print_entry e)) st =
    Inr (st\<lparr>ls_entries := ls_entries st @ [e]\<rparr>)"
proof -
  have "parse_hex (''0x'' @ zero_pad 9 (hex (e_pos e))) = Inr (e_pos e)"
    "parse_hex (''0x'' @ zero_pad 9 (hex (e_size e))) = Inr (e_size e)"
    using assms parse_hex_pad [of "e_pos e" 9] parse_hex_pad [of "e_size e" 9]
    by (simp_all add: entry_valid_def)
  then show ?thesis
    using assms by (simp add: load_entry_def split_print_entry entry_valid_def arith64)
qed

lemma trim_print_entry: "trim (print_entry e) = print_entry e"
  by (rule trim_id) (simp_all add: print_entry_def)

lemma load_line_entry:
  assumes "entry_valid e" and "saw_current_line st"
  shows "load_line ph sh (print_entry e) st = Inr (st\<lparr>ls_entries := ls_entries st @ [e]\<rparr>)"
proof -
  have "strip_prefix ''#'' (print_entry e) = None" "print_entry e \<noteq> []"
    by (simp_all add: print_entry_def)
  then show ?thesis
    using load_print_entry [OF assms(1), of st] assms(2)
    by (simp add: load_line_def trim_print_entry load_data_def Let_def)
qed

lemma load_lines_entries:
  "\<forall>e \<in> set es. entry_valid e \<Longrightarrow> saw_current_line st \<Longrightarrow>
     load_lines ph sh (map print_entry es) st = Inr (st\<lparr>ls_entries := ls_entries st @ es\<rparr>)"
proof (induction es arbitrary: st)
  case (Cons e es)
  then show ?case by (simp add: load_line_entry)
qed simp

subsection \<open>Scopes\<close>

lemma split_on_word: "d \<notin> set w \<Longrightarrow> split_on d (w @ d # rest) = w # split_on d rest"
  by (induction w) auto

lemma split_on_last: "d \<notin> set w \<Longrightarrow> split_on d w = [w]"
  by (induction w) auto

lemma split_join:
  "ws \<noteq> [] \<Longrightarrow> \<forall>w \<in> set ws. d \<notin> set w \<Longrightarrow> split_on d (join_with [d] ws) = ws"
  by (induction "[d]" ws rule: join_with.induct) (auto simp: split_on_word split_on_last)

lemma split_once_word: "d \<notin> set w \<Longrightarrow> split_once d (w @ d # rest) = Some (w, rest)"
  by (induction w) auto

lemma print_range_chars:
  "c \<in> set (print_range r) \<Longrightarrow> \<not> is_ws c \<and> c \<noteq> nl \<and> c \<noteq> cr \<and> c \<noteq> CHR '',''"
  using hex_char_plain hex_chars by (auto simp: print_range_def is_ws_def nl_def cr_def)

lemma trim_no_ws: "\<forall>c \<in> set s. \<not> is_ws c \<Longrightarrow> trim s = s"
proof (cases "s = []")
  case False
  assume "\<forall>c \<in> set s. \<not> is_ws c"
  then show ?thesis using False by (intro trim_id) simp_all
qed (simp add: trim_def)

lemma parse_scope_parts_print:
  "ranges_ok rs \<Longrightarrow> parse_scope_parts (map print_range rs) = Some rs"
proof (induction rs)
  case (Cons r rs)
  obtain p n where r: "r = (p, n)" by (cases r)
  have le: "p \<le> u64_max" "n \<le> u64_max" "p + n \<le> u64_max" using Cons.prems by (auto simp: r)
  have hx: "\<forall>c \<in> set (''0x'' @ hex k). \<not> is_ws c \<and> c \<noteq> CHR ''+''" for k
    using hex_char_plain hex_chars by (auto simp: is_ws_def)
  have "split_once CHR ''+'' (print_range r) = Some (''0x'' @ hex p, ''0x'' @ hex n)"
    using split_once_word [of "CHR ''+''" "''0x'' @ hex p" "''0x'' @ hex n"] hx
    by (auto simp: print_range_def r)
  moreover have "trim (''0x'' @ hex k) = ''0x'' @ hex k" for k using hx by (intro trim_no_ws) blast
  ultimately show ?case
    using Cons le parse_hex_plain [of p] parse_hex_plain [of n] by (simp add: r arith64)
qed simp

lemma parse_scope_print:
  assumes "ranges_ok rs" and "merge_byte_ranges rs = rs"
  shows "parse_scope (join_with '','' (map print_range rs)) = Some rs"
proof -
  have "map trim (map print_range rs) = map print_range rs"
    using print_range_chars by (auto intro: trim_no_ws)
  moreover have "\<forall>w \<in> set (map print_range rs). w \<noteq> [] \<and> CHR '','' \<notin> set w"
    using print_range_chars by (auto simp: print_range_def)
  ultimately have "filter (\<lambda>p. p \<noteq> []) (map trim (split_on CHR '','' (join_with '','' (map print_range rs)))) =
      map print_range rs"
    using split_join [of "map print_range rs" "CHR '',''"]
    by (cases "rs = []") (auto simp: trim_def)
  then show ?thesis using assms parse_scope_parts_print [of rs] by (simp add: parse_scope_def)
qed

subsection \<open>Header lines\<close>

definition byte_list :: "nat \<Rightarrow> nat list \<Rightarrow> bool" where
  "byte_list n bs = (length bs = n \<and> (\<forall>b \<in> set bs. b < 256))"

text \<open>What the development relies on of the library's hexadecimal parser.\<close>

definition hex_parser_ok :: "(nat \<Rightarrow> string \<Rightarrow> nat list option) \<Rightarrow> bool" where
  "hex_parser_ok ph = (\<forall>n bs. byte_list n bs \<longrightarrow> ph n (hex_lower bs) = Some bs)"

text \<open>The header fields \<open>create\<close>, \<open>load\<close> and the setters produce.\<close>

definition header_ok :: "Mapfile \<Rightarrow> bool" where
  "header_ok m =
     (version m \<noteq> [] \<and> \<not> is_ws (last (version m)) \<and> nl \<notin> set (version m) \<and>
      (\<forall>h. disc_hash m = Some h \<longrightarrow> (\<exists>bs. byte_list 20 bs \<and> h = hex_lower bs)) \<and>
      (\<forall>fp. vidfp m = Some fp \<longrightarrow> byte_list 32 fp) \<and>
      (\<forall>fp \<in> set (legacy_keyfps m). byte_list 8 fp) \<and>
      (\<forall>rs. scope m = Some rs \<longrightarrow> sep_from 0 rs))"

lemmas comment_defs = load_comment_def comment_version_def comment_disc_def comment_vidfp_def
  comment_keyfp_def comment_legacy_def comment_raw_def comment_scope_def parse_legacy_key_lines_def

lemma trim_hex_lower: "trim (hex_lower bs) = hex_lower bs"
  using hex_char_plain hex_lower_chars by (auto intro!: trim_no_ws)

lemma last_hex_lower: "bs \<noteq> [] \<Longrightarrow> \<not> is_ws (last (hex_lower bs))"
  using hex_char_plain hex_lower_chars [OF last_in_set [OF hex_lower_ne]] by blast

text \<open>A tagged comment line with a non-empty value.\<close>

lemma trim_tagged:
  "v \<noteq> [] \<Longrightarrow> \<not> is_ws (last v) \<Longrightarrow> tag \<noteq> [] \<Longrightarrow> \<not> is_ws (hd tag) \<Longrightarrow> trim (CHR '' '' # tag @ v) = tag @ v"
  by (simp add: trim_ws trim_id)

lemma load_version_line:
  assumes "v \<noteq> []" "\<not> is_ws (last v)"
  shows "load_line ph sh (''# Rescue Logfile. Created by '' @ v) st = Inr (st\<lparr>ls_version := v\<rparr>)"
  using trim_tagged [OF assms, of "''Rescue Logfile. Created by ''"]
  by (simp add: load_line_comment comment_defs is_ws_def)

lemma load_disc_line:
  assumes "hex_parser_ok ph" and "byte_list 20 bs"
  shows "load_line ph sh (''# freemkv-disc: '' @ hex_lower bs) st =
    Inr (st\<lparr>ls_disc_hash := Some (hex_lower bs)\<rparr>)"
proof -
  have bs: "bs \<noteq> []" "ph 20 (hex_lower bs) = Some bs"
    using assms by (auto simp: byte_list_def hex_parser_ok_def)
  show ?thesis
    using bs trim_tagged [OF hex_lower_ne [OF bs(1)] last_hex_lower [OF bs(1)], of "''freemkv-disc: ''"]
    by (simp add: load_line_comment comment_defs is_ws_def trim_ws trim_hex_lower parse_disc_hash_def)
qed

lemma load_vidfp_line:
  assumes "hex_parser_ok ph" and "byte_list 32 bs"
  shows "load_line ph sh (''# freemkv-vidfp: '' @ hex_lower bs) st = Inr (st\<lparr>ls_vidfp := Some bs\<rparr>)"
proof -
  have bs: "bs \<noteq> []" "ph 32 (hex_lower bs) = Some bs"
    using assms by (auto simp: byte_list_def hex_parser_ok_def)
  show ?thesis
    using bs trim_tagged [OF hex_lower_ne [OF bs(1)] last_hex_lower [OF bs(1)], of "''freemkv-vidfp: ''"]
    by (simp add: load_line_comment comment_defs is_ws_def trim_ws trim_hex_lower)
qed

lemma load_keyfp_line:
  assumes "hex_parser_ok ph" and "byte_list 8 bs"
  shows "load_line ph sh (''# freemkv-legacy-keyfp: '' @ hex_lower bs) st =
    Inr (st\<lparr>legacy := (legacy st)\<lparr>lg_keyfps := lg_keyfps (legacy st) @ [bs]\<rparr>\<rparr>)"
proof -
  have bs: "bs \<noteq> []" "ph 8 (hex_lower bs) = Some bs"
    using assms by (auto simp: byte_list_def hex_parser_ok_def)
  show ?thesis
    using bs trim_tagged [OF hex_lower_ne [OF bs(1)] last_hex_lower [OF bs(1)], of "''freemkv-legacy-keyfp: ''"]
    by (simp add: load_line_comment comment_defs is_ws_def trim_ws trim_hex_lower)
qed

lemma load_keyfp_lines:
  "hex_parser_ok ph \<Longrightarrow> \<forall>fp \<in> set fps. byte_list 8 fp \<Longrightarrow>
     load_lines ph sh (map (\<lambda>fp. ''# freemkv-legacy-keyfp: '' @ hex_lower fp) fps) st =
       Inr (st\<lparr>legacy := (legacy st)\<lparr>lg_keyfps := lg_keyfps (legacy st) @ fps\<rparr>\<rparr>)"
proof (induction fps arbitrary: st)
  case (Cons fp fps)
  then show ?case using load_keyfp_line [of ph fp sh st] by simp
qed simp

lemma load_raw_line:
  "load_line ph sh (''# freemkv-raw: '' @ (if r then ''1'' else ''0'')) st = Inr (st\<lparr>ls_raw := Some r\<rparr>)"
  by (cases r) (simp_all add: load_line_comment comment_defs trim_def is_ws_def)

lemma join_last:
  "ws \<noteq> [] \<Longrightarrow> \<forall>w \<in> set ws. w \<noteq> [] \<Longrightarrow>
     join_with d ws \<noteq> [] \<and> last (join_with d ws) = last (last ws)"
  by (induction d ws rule: join_with.induct) auto

lemma load_scope_line:
  assumes "sep_from 0 rs"
  shows "load_line ph sh (''# freemkv-scope: '' @ join_with '','' (map print_range rs)) st =
    Inr (st\<lparr>ls_scope := Some rs\<rparr>)"
proof -
  have ok: "ranges_ok rs" "merge_byte_ranges rs = rs"
    using assms sep_imp_disj disj_from_ok merge_byte_ranges_id by blast+
  note p = parse_scope_print [OF ok]
  show ?thesis
  proof (cases "rs = []")
    case True
    then show ?thesis using p
      by (simp add: load_line_comment comment_defs trim_def is_ws_def)
  next
    case False
    let ?v = "join_with '','' (map print_range rs)"
    have ne: "\<forall>w \<in> set (map print_range rs). w \<noteq> []" by (simp add: print_range_def)
    have nws: "\<not> is_ws (last (print_range r))" for r
      using print_range_chars [of "last (print_range r)" r] by (simp add: print_range_def)
    have v: "?v \<noteq> []" "\<not> is_ws (last ?v)"
      using join_last [OF _ ne, of "'',''"] False nws by (auto simp: last_map)
    have "hd ?v = CHR ''0''" using False
      by (cases rs rule: list.exhaust; cases "tl rs") (auto simp: print_range_def)
    then have "trim ?v = ?v" using v by (intro trim_id) simp_all
    then show ?thesis using p trim_tagged [OF v, of "''freemkv-scope: ''"]
      by (simp add: load_line_comment comment_defs is_ws_def trim_ws)
  qed
qed

subsection \<open>The round trip\<close>

definition header_state :: "Mapfile \<Rightarrow> LoadState" where
  "header_state m =
     load_init\<lparr>ls_version := version m, ls_disc_hash := disc_hash m, ls_vidfp := vidfp m,
       legacy := \<lparr>lg_vidfp = None, lg_keyfps = legacy_keyfps m\<rparr>, ls_scope := scope m, ls_raw := raw m\<rparr>"

lemma load_opt:
  "(\<And>v. x = Some v \<Longrightarrow> load_line ph sh (f v) st = Inr (g v)) \<Longrightarrow>
     load_lines ph sh (case x of Some v \<Rightarrow> [f v] | None \<Rightarrow> []) st =
       Inr (case x of Some v \<Rightarrow> g v | None \<Rightarrow> st)"
  by (cases x) simp_all

lemma load_header:
  assumes "hex_parser_ok ph" and "header_ok m"
  shows "load_lines ph sh (header_lines m) load_init = Inr (header_state m)"
proof -
  have ver: "version m \<noteq> []" "\<not> is_ws (last (version m))" using assms(2) by (auto simp: header_ok_def)
  have disc: "load_line ph sh (''# freemkv-disc: '' @ h) st = Inr (st\<lparr>ls_disc_hash := Some h\<rparr>)"
    if "disc_hash m = Some h" for h st
    using that assms load_disc_line [OF assms(1)] by (auto simp: header_ok_def)
  have vid: "load_line ph sh (''# freemkv-vidfp: '' @ hex_lower fp) st = Inr (st\<lparr>ls_vidfp := Some fp\<rparr>)"
    if "vidfp m = Some fp" for fp st
    using that assms load_vidfp_line [OF assms(1)] by (auto simp: header_ok_def)
  have keys: "\<forall>fp \<in> set (legacy_keyfps m). byte_list 8 fp" using assms(2) by (simp add: header_ok_def)
  have sc: "load_line ph sh (''# freemkv-scope: '' @ join_with '','' (map print_range rs)) st =
      Inr (st\<lparr>ls_scope := Some rs\<rparr>)" if "scope m = Some rs" for rs st
    using that assms load_scope_line by (auto simp: header_ok_def)
  show ?thesis
    unfolding header_lines_def load_lines_append
    using load_version_line [OF ver, of ph sh load_init]
    by (simp only: load_lines.simps bind_res_simps load_opt [OF disc] load_opt [OF vid]
        load_keyfp_lines [OF assms(1) keys] load_opt [OF sc] load_opt [OF load_raw_line])
      (simp add: header_state_def load_init_def split: option.split)
qed

lemma load_fixed_lines:
  "\<not> saw_current_line st \<Longrightarrow>
   load_lines ph sh [''# Current pos / status / pass / pass_time'', ''0x000000000  ?  1  0'',
      ''#      pos        size  status''] st = Inr (st\<lparr>saw_current_line := True\<rparr>)"
  by (simp add: load_line_comment comment_defs trim_def is_ws_def load_line_def load_data_def
      split_whitespace_def is_current_line_def field_def from_char_def Let_def)

definition line_ok :: "string \<Rightarrow> bool" where
  "line_ok l = (nl \<notin> set l \<and> (l = [] \<or> last l \<noteq> cr))"

lemma plain_simps [simp]:
  "plain []"
  "plain (c # s) \<longleftrightarrow> c \<noteq> nl \<and> c \<noteq> cr \<and> plain s"
  "plain (s @ t) \<longleftrightarrow> plain s \<and> plain t"
  by (auto simp: plain_def)

lemma plain_line_ok: "plain l \<Longrightarrow> line_ok l"
  unfolding plain_def line_ok_def by (metis last_in_set)

lemma line_ok_append: "plain t \<Longrightarrow> line_ok s \<Longrightarrow> line_ok (t @ s)"
  by (cases "s = []") (auto simp: plain_line_ok, auto simp: plain_def line_ok_def)

lemma plain_hex_chars: "(\<And>c. c \<in> set s \<Longrightarrow> hex_char c) \<Longrightarrow> plain s"
  using hex_char_plain unfolding plain_def by blast

lemma plain_hex: "plain (hex_lower bs)" "plain (zero_pad w (hex n))" "plain (print_range r)"
proof -
  show "plain (hex_lower bs)" using hex_lower_chars by (rule plain_hex_chars)
  show "plain (zero_pad w (hex n))" using zero_pad_chars by (rule plain_hex_chars)
  show "plain (print_range r)" using print_range_chars [of _ r] unfolding plain_def by blast
qed

lemma plain_join: "\<forall>w \<in> set ws. plain w \<Longrightarrow> plain d \<Longrightarrow> plain (join_with d ws)"
  by (induction d ws rule: join_with.induct) auto

lemma plain_lits:
  "plain ''# Rescue Logfile. Created by ''" "plain ''# freemkv-disc: ''" "plain ''# freemkv-vidfp: ''"
  "plain ''# freemkv-legacy-keyfp: ''" "plain ''# freemkv-scope: ''"
  "plain ''# freemkv-raw: ''" "plain ''1''" "plain ''0''" "plain '',''"
  "plain ''# Current pos / status / pass / pass_time''" "plain ''0x000000000  ?  1  0''"
  "plain ''#      pos        size  status''" "plain ''0x''" "plain ''  0x''" "plain ''    ''"
  by (simp_all only: plain_simps) (simp_all add: nl_def cr_def)

lemma plain_print_entry: "plain (print_entry e)"
  unfolding print_entry_def by (simp only: plain_simps plain_lits plain_hex to_char_not_ws simp_thms)
    (simp add: nl_def cr_def)

lemma map_lines_ok:
  assumes "header_ok m"
  shows "\<forall>l \<in> set (map_lines m). line_ok l"
proof -
  have "is_ws cr" by (simp add: is_ws_def cr_def)
  then have ver: "line_ok (version m)"
    using assms by (auto simp: header_ok_def line_ok_def)
  have disc: "line_ok h" if "disc_hash m = Some h" for h
    using that assms plain_line_ok [OF plain_hex(1)] by (auto simp: header_ok_def)
  have sc: "line_ok (join_with '','' (map print_range rs))" for rs
    by (intro plain_line_ok plain_join plain_lits) (simp add: plain_hex)
  have raws: "line_ok ''0''" "line_ok ''1''" by (intro plain_line_ok plain_lits)+
  have hdr: "\<forall>l \<in> set (header_lines m). line_ok l"
    using ver disc sc raws plain_line_ok [OF plain_hex(1)] unfolding header_lines_def
    by (auto simp del: append.simps plain_simps split: option.splits
        intro!: line_ok_append [OF plain_lits(1)] line_ok_append [OF plain_lits(2)]
          line_ok_append [OF plain_lits(3)] line_ok_append [OF plain_lits(4)]
          line_ok_append [OF plain_lits(5)] line_ok_append [OF plain_lits(6)])
  have fixed: "\<forall>l \<in> set [''# Current pos / status / pass / pass_time'', ''0x000000000  ?  1  0'',
      ''#      pos        size  status'']. line_ok l"
    by (intro ballI plain_line_ok) (auto simp only: set_simps insert_iff empty_iff plain_lits)
  show ?thesis
    unfolding map_lines_def set_append using hdr fixed plain_line_ok [OF plain_print_entry] by fastforce
qed

lemma canon_entries_valid: "canon es \<Longrightarrow> \<forall>e \<in> set es. entry_valid e"
  using runs_from_mem by (auto simp: canon_def entry_valid_def)

lemma runs_from_sorted: "runs_from c es \<Longrightarrow> sorted (map e_pos es)"
proof (induction c es rule: runs_from.induct)
  case (2 c e es)
  then have r: "runs_from (e_pos e + e_size e) es" by simp
  show ?case using 2 runs_from_mem [OF r] by fastforce
qed simp

lemma load_map_lines:
  assumes "hex_parser_ok ph" and "header_ok m" and "canon (entries m)"
  shows "load_lines ph sh (lines_of (print_map m)) load_init =
    Inr ((header_state m)\<lparr>saw_current_line := True, ls_entries := entries m\<rparr>)"
proof -
  have lines: "lines_of (print_map m) = map_lines m"
    using map_lines_ok [OF assms(2)] unfolding print_map_def by (intro lines_of_text) (simp add: line_ok_def)
  have new: "\<not> saw_current_line (header_state m)" "ls_entries (header_state m) = []"
    by (simp_all add: header_state_def load_init_def)
  show ?thesis
    unfolding lines map_lines_def load_lines_append load_header [OF assms(1,2)] bind_res_simps
      load_fixed_lines [OF new(1)]
    using load_lines_entries [OF canon_entries_valid [OF assms(3)]] new(2) by simp
qed

lemma load_print_map:
  assumes "hex_parser_ok ph" and "header_ok m" and "canon (entries m)"
  obtains m' where "load_text ph sh fp now (print_map m) = Inr m'" and "map_ok m'"
    and "look (entries m') = (\<lambda>b. case look (entries m) b of Some s \<Rightarrow> Some s
           | None \<Rightarrow> if b < entries_end (entries m) then Some NonTried else None)"
    and "version m' = version m \<and> disc_hash m' = disc_hash m \<and> vidfp m' = vidfp m \<and>
         legacy_keyfps m' = legacy_keyfps m \<and> scope m' = scope m \<and> raw m' = raw m"
    and "total_size m' = entries_end (entries m)"
    and "path m' = fp \<and> \<not> dirty m' \<and> last_flushed m' = now \<and> \<not> disowned m'"
proof -
  have runs: "runs_from 0 (entries m)" using assms(3) by (simp add: canon_def)
  have srt: "sort_key e_pos (entries m) = entries m"
    by (intro sort_key_id_if_sorted runs_from_sorted [OF runs])
  note v = canon_entries_valid [OF assms(3)]
  obtain es where es: "fill_gaps [] 0 (entries m) = Inr es"
    using runs by (simp add: fill_gaps_eq [OF v])
  note c = fill_gaps_correct [OF v es]
  define m' where "m' = \<lparr>path = fp, entries = es, total_size = entries_end es, version = version m,
    stats_field = compute_stats es (entries_end es), dirty = False, last_flushed = now,
    disc_hash = disc_hash m, vidfp = vidfp m, legacy_keyfps = legacy_keyfps m, scope = scope m,
    raw = raw m, disowned = False\<rparr>"
  have "load_text ph sh fp now (print_map m) = Inr m'"
    unfolding load_text_def load_map_lines [OF assms] using es
    by (simp add: srt header_state_def load_init_def m'_def split: option.split)
  then show ?thesis
    using c by (rule_tac that [of m']) (auto simp: m'_def map_ok_def split: option.split)
qed

lemma map_ok_load_print_map:
  assumes "hex_parser_ok ph" and "header_ok m" and "map_ok m"
  shows "load_text ph sh fp now (print_map m) =
    Inr (m\<lparr>path := fp, dirty := False, last_flushed := now, disowned := False\<rparr>)"
proof -
  have c: "canon (entries m)" and tot: "total_size m = entries_end (entries m)"
    and full: "\<forall>b < total_size m. look (entries m) b \<noteq> None"
    and st: "stats_field m = compute_stats (entries m) (total_size m)"
    using assms(3) by (auto simp: map_ok_def)
  obtain m' where m': "load_text ph sh fp now (print_map m) = Inr m'" "map_ok m'"
    "look (entries m') = (\<lambda>b. case look (entries m) b of Some s \<Rightarrow> Some s
           | None \<Rightarrow> if b < entries_end (entries m) then Some NonTried else None)"
    "version m' = version m \<and> disc_hash m' = disc_hash m \<and> vidfp m' = vidfp m \<and>
         legacy_keyfps m' = legacy_keyfps m \<and> scope m' = scope m \<and> raw m' = raw m"
    "total_size m' = entries_end (entries m)"
    "path m' = fp \<and> \<not> dirty m' \<and> last_flushed m' = now \<and> \<not> disowned m'"
    using load_print_map [OF assms(1,2) c] by blast
  have "look (entries m') = look (entries m)"
    using full by (auto simp: m'(3) tot fun_eq_iff split: option.split)
  then have es: "entries m' = entries m" using c m'(2) by (intro canon_unique) (simp_all add: map_ok_def)
  have "stats_field m' = stats_field m" using m'(2) st es tot m'(5) by (simp add: map_ok_def)
  then have "m' = m\<lparr>path := fp, dirty := False, last_flushed := now, disowned := False\<rparr>"
    using m'(4-6) es tot by (cases m', cases m) simp
  then show ?thesis using m'(1) by simp
qed

subsection \<open>Every failure of the parser is a parse error\<close>

definition parse_err :: "io_error + 'a \<Rightarrow> bool" where
  "parse_err r = (\<forall>e. r = Inl e \<longrightarrow> (\<exists>k. e = MapfileInvalid k))"

lemma parse_err_simps [simp]:
  "parse_err (Inr a)" "parse_err (Inl (invalid k))" "parse_err (ok_or x (invalid k))"
  by (auto simp: parse_err_def invalid_def ok_or_def split: option.splits)

lemma parse_err_bind: "parse_err r \<Longrightarrow> (\<And>a. parse_err (g a)) \<Longrightarrow> parse_err (bind_res r g)"
  by (auto simp: parse_err_def bind_res_eq_Inl)

lemma parse_err_entry: "parse_err (load_entry fs st)"
  by (auto simp: load_entry_def parse_hex_def Let_def intro!: parse_err_bind)

lemma parse_err_comment: "parse_err (load_comment ph sh rest st)"
  unfolding load_comment_def
  by (intro parse_err_bind)
    (auto simp: comment_version_def comment_disc_def comment_vidfp_def comment_keyfp_def
      comment_legacy_def comment_raw_def comment_scope_def parse_legacy_key_lines_def
      split: option.split intro!: parse_err_bind)

lemma parse_err_line: "parse_err (load_line ph sh l st)"
  by (auto simp: load_line_def load_data_def Let_def parse_err_comment parse_err_entry split: option.split)

lemma parse_err_lines: "parse_err (load_lines ph sh ls st)"
  by (induction ls arbitrary: st) (auto intro!: parse_err_bind parse_err_line)

lemma parse_err_gaps: "parse_err (fill_gaps filled c es)"
  by (induction filled c es rule: fill_gaps.induct) (auto simp: Let_def)

lemma load_text_error: "load_text ph sh fp now text = Inl e \<Longrightarrow> \<exists>k. e = MapfileInvalid k"
proof -
  have "parse_err (load_text ph sh fp now text)"
    unfolding load_text_def by (intro parse_err_bind parse_err_lines parse_err_gaps) simp
  then show "load_text ph sh fp now text = Inl e \<Longrightarrow> \<exists>k. e = MapfileInvalid k"
    by (simp add: parse_err_def)
qed

end
