(* ===== verification/MapfileIO.thy ===== *)
theory MapfileIO
  imports MapfileTextInv
begin

text \<open>
  Persistence of the damage map: \<open>create\<close>, \<open>record\<close>, \<open>promote\<close>, \<open>flush\<close>, the atomic replacement in
  \<open>write_locked\<close>, \<open>load\<close> from a file, and the identity check of a resume
  (\<open>src/src/recovery/mapfile.rs\<close>).

  A file system maps paths to file texts. A write is the list of file-system states it goes
  through, the last one being where it ends; a crash leaves any one of them. What the operating
  system does to a write (the call that fails, the owner being disowned meanwhile, the clock) is
  an argument \<open>WriteEnv\<close>, so every theorem holds for all of them.
\<close>

type_synonym fs = "string \<Rightarrow> string option"

definition FLUSH_INTERVAL :: nat where "FLUSH_INTERVAL = 1000"

definition MAX_MAPFILE_BYTES :: nat where "MAX_MAPFILE_BYTES = 268435456"

subsection \<open>Writing\<close>

text \<open>Which call of \<open>write_locked\<close> fails, with the error number; \<open>WriteFails k\<close> after \<open>k\<close> characters.\<close>

datatype write_fault =
  NoFault | OpenFails nat | WriteFails nat nat | SyncFails nat | RenameFails nat

text \<open>What a read of a file meets: its open refused, a read broken off, bytes that are not UTF-8.\<close>

datatype read_fault = ReadFine | OpenRefused nat | ReadBreaks nat | NotText

text \<open>
  What the operating system does to a write and around it: the clock, the call that fails, the owner disowned
  meanwhile, what a load before the write meets, and the removals of the temporary file, before the write
  (\<open>w_stale\<close>) and after a failed one (\<open>w_left\<close>), that fail unseen.
\<close>

record WriteEnv =
  w_now :: nat
  w_after :: nat
  w_fault :: write_fault
  w_disowned :: bool
  w_read :: read_fault
  w_stale :: bool
  w_left :: bool

definition tmp_path :: "string \<Rightarrow> string" where
  "tmp_path p = p @ ''.tmp''"

text \<open>The partial contents the temporary file goes through while \<open>k\<close> characters are written.\<close>

definition partial_writes :: "fs \<Rightarrow> string \<Rightarrow> string \<Rightarrow> nat \<Rightarrow> fs list" where
  "partial_writes f tmp text k = map (\<lambda>i. f(tmp \<mapsto> take i text)) [0..<Suc k]"

text \<open>A removal of the temporary file whose error is ignored.\<close>

definition unlink_quiet :: "bool \<Rightarrow> string \<Rightarrow> fs \<Rightarrow> fs" where
  "unlink_quiet fails tmp f = (if fails then f else f(tmp := None))"

definition EEXIST :: nat where "EEXIST = 17"

text \<open>
  The result and the states gone through; the flag \<open>disowned\<close> is read again before the rename. The temporary
  file is created exclusively, so one that could not be removed fails the write. The states start from the given
  one, so the list is never empty.
\<close>

definition write_locked :: "WriteEnv \<Rightarrow> Mapfile \<Rightarrow> fs \<Rightarrow> (io_error + unit) \<times> fs list" where
  "write_locked env m f =
     (if disowned m then (Inr (), [f])
      else
        (let tmp = tmp_path (path m); text = print_map m; f1 = unlink_quiet (w_stale env) tmp f;
             cleaned = (\<lambda>states. states @ [unlink_quiet (w_left env) tmp (last states)])
         in case (if f1 tmp \<noteq> None then OpenFails EEXIST else w_fault env) of
              OpenFails e \<Rightarrow> (Inl (OsError e), cleaned [f, f1])
            | WriteFails k e \<Rightarrow> (Inl (OsError e), cleaned ([f, f1] @ partial_writes f1 tmp text k))
            | SyncFails e \<Rightarrow> (Inl (OsError e), cleaned ([f, f1] @ partial_writes f1 tmp text (length text)))
            | fault \<Rightarrow>
                (let written = [f, f1] @ partial_writes f1 tmp text (length text)
                 in if w_disowned env then (Inr (), cleaned written)
                    else case fault of
                           RenameFails e \<Rightarrow> (Inl (OsError e), cleaned written)
                         | _ \<Rightarrow> (Inr (), written @ [f1(path m \<mapsto> text)]))))"

definition write_to_disk :: "WriteEnv \<Rightarrow> Mapfile \<Rightarrow> fs \<Rightarrow> (io_error + unit) \<times> Mapfile \<times> fs" where
  "write_to_disk env m f =
     (case write_locked env m f of
        (r, states) \<Rightarrow> (r, m\<lparr>disowned := disowned m \<or> w_disowned env\<rparr>, last states))"

definition clean :: "WriteEnv \<Rightarrow> Mapfile \<Rightarrow> Mapfile" where
  "clean env m = m\<lparr>dirty := False, last_flushed := w_after env\<rparr>"

definition persist :: "WriteEnv \<Rightarrow> Mapfile \<Rightarrow> fs \<Rightarrow> (io_error + unit) \<times> Mapfile \<times> fs" where
  "persist env m f =
     (case write_to_disk env m f of
        (Inl e, m', f') \<Rightarrow> (Inl e, m', f')
      | (Inr _, m', f') \<Rightarrow> (Inr (), clean env m', f'))"

definition persist_due :: "WriteEnv \<Rightarrow> Mapfile \<Rightarrow> bool" where
  "persist_due env m = (FLUSH_INTERVAL \<le> w_now env - last_flushed m)"

definition changed :: "WriteEnv \<Rightarrow> Mapfile \<Rightarrow> fs \<Rightarrow> (io_error + unit) \<times> Mapfile \<times> fs" where
  "changed env m f =
     (let m1 = m\<lparr>dirty := True\<rparr>
      in if FLUSH_INTERVAL \<le> w_now env - last_flushed m1 then persist env m1 f else (Inr (), m1, f))"

definition flush :: "WriteEnv \<Rightarrow> Mapfile \<Rightarrow> fs \<Rightarrow> (io_error + unit) \<times> Mapfile \<times> fs" where
  "flush env m f = (if dirty m then persist env m f else (Inr (), m, f))"

text \<open>The drop of a map flushes it; errors are swallowed.\<close>

definition drop_map :: "WriteEnv \<Rightarrow> Mapfile \<Rightarrow> fs \<Rightarrow> fs" where
  "drop_map env m f = snd (snd (flush env m f))"

subsection \<open>Operations that persist\<close>

definition record_range ::
  "WriteEnv \<Rightarrow> u64 \<Rightarrow> u64 \<Rightarrow> SectorStatus \<Rightarrow> Mapfile \<Rightarrow> fs \<Rightarrow> (io_error + unit) \<times> Mapfile \<times> fs" where
  "record_range env pos n st m f =
     (if n = 0 then (Inr (), m, f)
      else case checked_add pos n of
             None \<Rightarrow> (Inl (invalid ''range''), m, f)
           | Some e \<Rightarrow> changed env (splice pos e st m) f)"

definition promote ::
  "WriteEnv \<Rightarrow> SectorStatus list \<Rightarrow> SectorStatus \<Rightarrow> Mapfile \<Rightarrow> fs \<Rightarrow>
   (io_error + unit) \<times> Mapfile \<times> fs" where
  "promote env frm to m f =
     (if promote_hit frm (entries m) then changed env (promote_map frm to m) f
      else (Inr (), promote_map frm to m, f))"

definition new_map :: "string \<Rightarrow> u64 \<Rightarrow> string \<Rightarrow> nat \<Rightarrow> Mapfile" where
  "new_map p tot ver now =
     \<lparr>path = p, entries = (if tot > 0 then [entry 0 tot NonTried] else []), total_size = tot,
      version = ver,
      stats_field = MapStats_default\<lparr>bytes_total := tot, bytes_pending := tot, bytes_nontried := tot\<rparr>,
      dirty = False, last_flushed = now, disc_hash = None, vidfp = None, legacy_keyfps = [],
      scope = None, raw = None, disowned = False\<rparr>"

definition create ::
  "WriteEnv \<Rightarrow> string \<Rightarrow> u64 \<Rightarrow> string \<Rightarrow> fs \<Rightarrow> (io_error + Mapfile) \<times> fs" where
  "create env p tot ver f =
     (case write_to_disk env (new_map p tot ver (w_now env)) f of
        (Inl e, m, f') \<Rightarrow> (Inl e, f')
      | (Inr _, m, f') \<Rightarrow> (Inr (m\<lparr>last_flushed := w_after env\<rparr>), f'))"

subsection \<open>Reading\<close>

text \<open>The size of a text in UTF-8: two bytes from code point 128 on.\<close>

definition utf8_len :: "string \<Rightarrow> nat" where
  "utf8_len s = sum_list (map (\<lambda>c. if of_char c < (128 :: nat) then 1 else 2) s)"

text \<open>
  The open or the stat of the file may be refused, a read may break off, and what is read may not be UTF-8 (which
  Rust reports as invalid data).
\<close>

definition read_capped :: "read_fault \<Rightarrow> fs \<Rightarrow> string \<Rightarrow> io_error + string" where
  "read_capped rd f p =
     (case rd of
        OpenRefused n \<Rightarrow> Inl (OsError n)
      | _ \<Rightarrow>
          (case f p of
             None \<Rightarrow> Inl NotFound
           | Some text \<Rightarrow>
               (if utf8_len text > MAX_MAPFILE_BYTES then Inl (invalid ''too_large'')
                else case rd of ReadBreaks n \<Rightarrow> Inl (OsError n) | NotText \<Rightarrow> Inl NotUtf8 | _ \<Rightarrow> Inr text)))"

text \<open>One load: when it happens, and what its read meets.\<close>

type_synonym map_read = "nat \<times> read_fault"

definition load ::
  "(nat \<Rightarrow> string \<Rightarrow> nat list option) \<Rightarrow> (string \<Rightarrow> nat list \<Rightarrow> nat list) \<Rightarrow> map_read \<Rightarrow> fs \<Rightarrow> string \<Rightarrow>
   io_error + Mapfile" where
  "load ph sh rd f p = bind_res (read_capped (snd rd) f p) (load_text ph sh p (fst rd))"

definition open_or_create ::
  "(nat \<Rightarrow> string \<Rightarrow> nat list option) \<Rightarrow> (string \<Rightarrow> nat list \<Rightarrow> nat list) \<Rightarrow> WriteEnv \<Rightarrow> string \<Rightarrow> u64 \<Rightarrow>
   string \<Rightarrow> fs \<Rightarrow> (io_error + Mapfile) \<times> fs" where
  "open_or_create ph sh env p tot ver f =
     (case load ph sh (w_now env, w_read env) f p of
        Inr m \<Rightarrow> (Inr m, f)
      | Inl e \<Rightarrow> (if e = NotFound then create env p tot ver f else (Inl e, f)))"

definition load_if_present ::
  "(nat \<Rightarrow> string \<Rightarrow> nat list option) \<Rightarrow> (string \<Rightarrow> nat list \<Rightarrow> nat list) \<Rightarrow> map_read \<Rightarrow> fs \<Rightarrow> string \<Rightarrow>
   io_error + Mapfile option" where
  "load_if_present ph sh rd f p =
     (case load ph sh rd f p of
        Inr m \<Rightarrow> Inr (Some m)
      | Inl e \<Rightarrow> (if e = NotFound then Inr None else Inl e))"

subsection \<open>Identity of the disc in hand\<close>

record DiscIdentity =
  d_disc_hash :: "string option"
  d_vidfp :: "nat list option"
  proven :: "nat list list"

definition differ :: "'a option \<Rightarrow> 'a option \<Rightarrow> bool" where
  "differ a b = (case (a, b) of (Some x, Some y) \<Rightarrow> x \<noteq> y | _ \<Rightarrow> False)"

definition check_identity :: "Mapfile \<Rightarrow> DiscIdentity \<Rightarrow> io_error + unit" where
  "check_identity m d =
     (if differ (disc_hash m) (d_disc_hash d) then Inl (invalid ''disc-mismatch'')
      else if differ (vidfp m) (d_vidfp d) then Inl (invalid ''disc-mismatch'')
      else if legacy_keyfps m \<noteq> [] \<and> proven d \<noteq> [] \<and>
              \<not> list_ex (\<lambda>fp. fp \<in> set (proven d)) (legacy_keyfps m)
           then Inl (invalid ''disc-mismatch'')
      else Inr ())"

definition set_disc_hash ::
  "(nat \<Rightarrow> string \<Rightarrow> nat list option) \<Rightarrow> string \<Rightarrow> Mapfile \<Rightarrow> Mapfile" where
  "set_disc_hash ph h m =
     (let h' = parse_disc_hash ph h
      in if h' \<noteq> None \<and> h' \<noteq> disc_hash m then m\<lparr>disc_hash := h', dirty := True\<rparr> else m)"

text \<open>
  \<open>stamp_identity\<close> and \<open>DiscIdentity::of\<close>: the scanned disc gives its intrinsic id and its Volume
  ID, the key set the fingerprint of the Volume ID it knows and its proven keys.
\<close>

definition disc_vid_fingerprint ::
  "(string \<Rightarrow> nat list \<Rightarrow> nat list) \<Rightarrow> nat list option \<Rightarrow> nat list option option \<Rightarrow> nat list option" where
  "disc_vid_fingerprint sh vid keys_vidfp =
     (case vid of Some v \<Rightarrow> Some (vid_fingerprint sh v) | None \<Rightarrow> Option.bind keys_vidfp id)"

definition stamp_identity ::
  "(nat \<Rightarrow> string \<Rightarrow> nat list option) \<Rightarrow> (string \<Rightarrow> nat list \<Rightarrow> nat list) \<Rightarrow> string option \<Rightarrow>
   nat list option \<Rightarrow> nat list option option \<Rightarrow> Mapfile \<Rightarrow> Mapfile" where
  "stamp_identity ph sh disc_id vid keys_vidfp m =
     (let m1 = (case disc_id of Some h \<Rightarrow> set_disc_hash ph h m | None \<Rightarrow> m)
      in case disc_vid_fingerprint sh vid keys_vidfp of
           Some fp \<Rightarrow> set_vid_fingerprint fp m1 | None \<Rightarrow> m1)"

definition identity_of ::
  "(nat \<Rightarrow> string \<Rightarrow> nat list option) \<Rightarrow> (string \<Rightarrow> nat list \<Rightarrow> nat list) \<Rightarrow> string option \<Rightarrow>
   nat list option \<Rightarrow> nat list option option \<Rightarrow> nat list list option \<Rightarrow> DiscIdentity" where
  "identity_of ph sh disc_id vid keys_vidfp keys_proven =
     \<lparr>d_disc_hash = Option.bind disc_id (parse_disc_hash ph),
      d_vidfp = disc_vid_fingerprint sh vid keys_vidfp,
      proven = (case keys_proven of None \<Rightarrow> [] | Some ps \<Rightarrow> ps)\<rparr>"

end
