(* ===== verification/MapfileIOInv.thy ===== *)
theory MapfileIOInv
  imports MapfileIO
begin

text \<open>
  What persistence guarantees: a crash at any point of a write leaves the old or the new text, a
  clean map is on disk, and a run of records followed by a flush is read back unchanged.
\<close>

subsection \<open>The atomic replacement\<close>

lemma tmp_path_neq [simp]: "tmp_path p \<noteq> p" "p \<noteq> tmp_path p"
  by (simp_all add: tmp_path_def)

lemma partial_writes_other:
  "s \<in> set (partial_writes f tmp text k) \<Longrightarrow> x \<noteq> tmp \<Longrightarrow> s x = f x"
  by (auto simp: partial_writes_def)

lemma partial_writes_ne [simp]: "partial_writes f tmp text k \<noteq> []"
  by (simp add: partial_writes_def)

lemma last_partial_writes [simp]: "last (partial_writes f tmp text k) = f(tmp \<mapsto> take k text)"
  by (simp add: partial_writes_def last_map)

lemma unlink_quiet_other [simp]: "x \<noteq> tmp \<Longrightarrow> unlink_quiet b tmp f x = f x"
  by (simp add: unlink_quiet_def)

lemma partial_writes_tmp:
  "s \<in> set (partial_writes f tmp text k) \<Longrightarrow> \<exists>i. s tmp = Some (take i text)"
  by (auto simp: partial_writes_def)

text \<open>The two ways a write goes: over a temporary file that could not be removed, or with none in the way.\<close>

abbreviation first_unlinked :: "WriteEnv \<Rightarrow> Mapfile \<Rightarrow> fs \<Rightarrow> fs" where
  "first_unlinked env m f \<equiv> unlink_quiet (w_stale env) (tmp_path (path m)) f"

lemma write_locked_blocked:
  assumes "\<not> disowned m" and "first_unlinked env m f (tmp_path (path m)) \<noteq> None"
  shows "write_locked env m f =
    (Inl (OsError EEXIST), [f, first_unlinked env m f, unlink_quiet (w_left env) (tmp_path (path m)) (first_unlinked env m f)])"
  using assms by (simp add: write_locked_def Let_def)

lemma write_locked_free:
  assumes "\<not> disowned m" and "first_unlinked env m f (tmp_path (path m)) = None"
  obtains g where "g (tmp_path (path m)) = None" and "\<And>x. x \<noteq> tmp_path (path m) \<Longrightarrow> g x = f x"
    and "write_locked env m f =
      (let tmp = tmp_path (path m); text = print_map m; written = [f, g] @ partial_writes g tmp text (length text);
           cleaned = (\<lambda>states. states @ [unlink_quiet (w_left env) tmp (last states)])
       in case w_fault env of
            OpenFails e \<Rightarrow> (Inl (OsError e), cleaned [f, g])
          | WriteFails k e \<Rightarrow> (Inl (OsError e), cleaned ([f, g] @ partial_writes g tmp text k))
          | SyncFails e \<Rightarrow> (Inl (OsError e), cleaned written)
          | fault \<Rightarrow>
              if w_disowned env then (Inr (), cleaned written)
              else case fault of
                     RenameFails e \<Rightarrow> (Inl (OsError e), cleaned written)
                   | _ \<Rightarrow> (Inr (), written @ [g(path m \<mapsto> text)]))"
proof (rule that [of "first_unlinked env m f"])
  show "first_unlinked env m f (tmp_path (path m)) = None" by (rule assms(2))
  show "first_unlinked env m f x = f x" if "x \<noteq> tmp_path (path m)" for x using that by simp
qed (use assms in \<open>simp add: write_locked_def Let_def split: write_fault.split\<close>)

lemma write_locked_ends:
  assumes "\<not> disowned m"
  shows "fst (write_locked env m f) = Inr () \<Longrightarrow> \<not> w_disowned env \<Longrightarrow>
      last (snd (write_locked env m f)) (path m) = Some (print_map m) \<and> last (snd (write_locked env m f)) (tmp_path (path m)) = None"
    and "fst (write_locked env m f) = Inl e \<or> w_disowned env \<Longrightarrow>
      last (snd (write_locked env m f)) (path m) = f (path m) \<and>
      (\<not> w_left env \<longrightarrow> last (snd (write_locked env m f)) (tmp_path (path m)) = None)"
proof -
  have "(fst (write_locked env m f) = Inr () \<longrightarrow> \<not> w_disowned env \<longrightarrow>
      last (snd (write_locked env m f)) (path m) = Some (print_map m) \<and> last (snd (write_locked env m f)) (tmp_path (path m)) = None) \<and>
    (fst (write_locked env m f) = Inl e \<or> w_disowned env \<longrightarrow>
      last (snd (write_locked env m f)) (path m) = f (path m) \<and>
      (\<not> w_left env \<longrightarrow> last (snd (write_locked env m f)) (tmp_path (path m)) = None))"
  proof (cases "first_unlinked env m f (tmp_path (path m)) = None")
    case False
    then show ?thesis using write_locked_blocked [OF assms, of env f] by (simp add: unlink_quiet_def)
  next
    case True
    from write_locked_free [OF assms True] obtain g where g: "g (tmp_path (path m)) = None"
      "\<And>x. x \<noteq> tmp_path (path m) \<Longrightarrow> g x = f x" and w: "write_locked env m f =
      (let tmp = tmp_path (path m); text = print_map m; written = [f, g] @ partial_writes g tmp text (length text);
           cleaned = (\<lambda>states. states @ [unlink_quiet (w_left env) tmp (last states)])
       in case w_fault env of
            OpenFails e \<Rightarrow> (Inl (OsError e), cleaned [f, g])
          | WriteFails k e \<Rightarrow> (Inl (OsError e), cleaned ([f, g] @ partial_writes g tmp text k))
          | SyncFails e \<Rightarrow> (Inl (OsError e), cleaned written)
          | fault \<Rightarrow>
              if w_disowned env then (Inr (), cleaned written)
              else case fault of
                     RenameFails e \<Rightarrow> (Inl (OsError e), cleaned written)
                   | _ \<Rightarrow> (Inr (), written @ [g(path m \<mapsto> text)]))" by blast
    show ?thesis using g by (cases "w_fault env") (simp_all add: w Let_def unlink_quiet_def)
  qed
  then show "fst (write_locked env m f) = Inr () \<Longrightarrow> \<not> w_disowned env \<Longrightarrow>
      last (snd (write_locked env m f)) (path m) = Some (print_map m) \<and> last (snd (write_locked env m f)) (tmp_path (path m)) = None"
    "fst (write_locked env m f) = Inl e \<or> w_disowned env \<Longrightarrow>
      last (snd (write_locked env m f)) (path m) = f (path m) \<and>
      (\<not> w_left env \<longrightarrow> last (snd (write_locked env m f)) (tmp_path (path m)) = None)" by blast+
qed

text \<open>Every state a write goes through.\<close>

lemma write_locked_states:
  assumes "\<not> disowned m" and s: "s \<in> set (snd (write_locked env m f))"
  shows "(s (path m) = f (path m) \<or> \<not> w_disowned env \<and> s (path m) = Some (print_map m)) \<and>
    (\<forall>x. x \<noteq> path m \<longrightarrow> x \<noteq> tmp_path (path m) \<longrightarrow> s x = f x) \<and>
    s (tmp_path (path m)) \<in> {None, f (tmp_path (path m))} \<union> range (\<lambda>i. Some (take i (print_map m)))"
proof (cases "first_unlinked env m f (tmp_path (path m)) = None")
  case False
  then show ?thesis using s write_locked_blocked [OF assms(1), of env f] by (auto simp: unlink_quiet_def split: if_splits)
next
  case True
  from write_locked_free [OF assms(1) True] obtain g where g: "g (tmp_path (path m)) = None"
    "\<And>x. x \<noteq> tmp_path (path m) \<Longrightarrow> g x = f x" and w: "write_locked env m f =
      (let tmp = tmp_path (path m); text = print_map m; written = [f, g] @ partial_writes g tmp text (length text);
           cleaned = (\<lambda>states. states @ [unlink_quiet (w_left env) tmp (last states)])
       in case w_fault env of
            OpenFails e \<Rightarrow> (Inl (OsError e), cleaned [f, g])
          | WriteFails k e \<Rightarrow> (Inl (OsError e), cleaned ([f, g] @ partial_writes g tmp text k))
          | SyncFails e \<Rightarrow> (Inl (OsError e), cleaned written)
          | fault \<Rightarrow>
              if w_disowned env then (Inr (), cleaned written)
              else case fault of
                     RenameFails e \<Rightarrow> (Inl (OsError e), cleaned written)
                   | _ \<Rightarrow> (Inr (), written @ [g(path m \<mapsto> text)]))" by blast
  consider "s = f" | "s = g" | k where "s \<in> set (partial_writes g (tmp_path (path m)) (print_map m) k)"
    | k where "s = unlink_quiet (w_left env) (tmp_path (path m)) (g(tmp_path (path m) \<mapsto> take k (print_map m)))"
    | "s = unlink_quiet (w_left env) (tmp_path (path m)) (g(tmp_path (path m) \<mapsto> print_map m))"
    | "s = unlink_quiet (w_left env) (tmp_path (path m)) g" | "s = g(path m \<mapsto> print_map m)" "\<not> w_disowned env"
    using s by (cases "w_fault env") (auto simp: w Let_def split: if_splits)
  then show ?thesis
  proof cases
    case 3
    then show ?thesis using g partial_writes_other [of s g "tmp_path (path m)"] partial_writes_tmp by fastforce
  next
    case 5
    have "\<exists>i. print_map m = take i (print_map m)" by (metis order_refl take_all)
    then show ?thesis using g 5 by (auto simp: unlink_quiet_def)
  qed (use g in \<open>auto simp: unlink_quiet_def\<close>)
qed

lemma write_locked_atomic:
  assumes "s \<in> set (snd (write_locked env m f))"
  shows "s (path m) = f (path m) \<or> s (path m) = Some (print_map m)"
    and "x \<noteq> path m \<Longrightarrow> x \<noteq> tmp_path (path m) \<Longrightarrow> s x = f x"
    and "s (tmp_path (path m)) \<in> {None, f (tmp_path (path m))} \<union> range (\<lambda>i. Some (take i (print_map m)))"
proof -
  have "disowned m \<Longrightarrow> s = f" using assms by (simp add: write_locked_def)
  then show "s (path m) = f (path m) \<or> s (path m) = Some (print_map m)"
    "x \<noteq> path m \<Longrightarrow> x \<noteq> tmp_path (path m) \<Longrightarrow> s x = f x"
    "s (tmp_path (path m)) \<in> {None, f (tmp_path (path m))} \<union> range (\<lambda>i. Some (take i (print_map m)))"
    using write_locked_states [OF _ assms] by blast+
qed

lemma write_locked_ne: "snd (write_locked env m f) \<noteq> []"
  by (simp add: write_locked_def Let_def split: write_fault.splits)

lemma write_locked_done:
  "fst (write_locked env m f) = Inr () \<Longrightarrow> \<not> disowned m \<Longrightarrow> \<not> w_disowned env \<Longrightarrow>
     last (snd (write_locked env m f)) (path m) = Some (print_map m)"
  using write_locked_ends(1) by blast

lemma write_locked_no_tmp:
  assumes "\<not> disowned m" and "(fst (write_locked env m f) = Inr () \<and> \<not> w_disowned env) \<or> \<not> w_left env"
  shows "last (snd (write_locked env m f)) (tmp_path (path m)) = None"
  using write_locked_ends [OF assms(1), of env f] assms(2)
  by (cases "fst (write_locked env m f)"; cases "w_disowned env") auto

lemma write_locked_failed:
  "fst (write_locked env m f) = Inl e \<Longrightarrow> last (snd (write_locked env m f)) (path m) = f (path m)"
  using write_locked_ends(2) [of m env f e] by (cases "disowned m") (auto simp: write_locked_def)

lemma write_locked_disowned:
  "disowned m \<or> w_disowned env \<Longrightarrow> s \<in> set (snd (write_locked env m f)) \<Longrightarrow> s (path m) = f (path m)"
  using write_locked_states [of m s env f] by (cases "disowned m") (auto simp: write_locked_def)

subsection \<open>A clean map is on disk\<close>

definition on_disk :: "Mapfile \<Rightarrow> fs \<Rightarrow> bool" where
  "on_disk m f = (\<not> dirty m \<longrightarrow> \<not> disowned m \<longrightarrow> f (path m) = Some (print_map m))"

lemma print_map_irrelevant [simp]:
  "print_map (m\<lparr>dirty := d\<rparr>) = print_map m" "print_map (m\<lparr>last_flushed := t\<rparr>) = print_map m"
  "print_map (m\<lparr>disowned := w\<rparr>) = print_map m"
  "print_map (m\<lparr>stats_field := s\<rparr>) = print_map m"
  by (simp_all add: print_map_def map_lines_def header_lines_def)

lemma persist_cases:
  "persist env m f = (r, m', f') \<Longrightarrow>
     (\<exists>e. r = Inl e \<and> m' = m\<lparr>disowned := disowned m \<or> w_disowned env\<rparr> \<and> f' (path m) = f (path m)) \<or>
     (r = Inr () \<and> m' = clean env (m\<lparr>disowned := disowned m \<or> w_disowned env\<rparr>) \<and>
      (\<not> disowned m' \<longrightarrow> f' (path m) = Some (print_map m)))"
  using write_locked_failed [of env m f] write_locked_done [of env m f]
  by (auto simp: persist_def write_to_disk_def clean_def split: prod.splits sum.splits)

lemma persist_on_disk: "dirty m \<Longrightarrow> persist env m f = (r, m', f') \<Longrightarrow> on_disk m' f'"
  by (drule persist_cases) (auto simp: on_disk_def clean_def)

lemma changed_on_disk: "changed env m f = (r, m', f') \<Longrightarrow> on_disk m' f'"
  using persist_on_disk [of "m\<lparr>dirty := True\<rparr>"]
  by (auto simp: changed_def Let_def on_disk_def split: if_splits)

lemma flush_on_disk: "on_disk m f \<Longrightarrow> flush env m f = (r, m', f') \<Longrightarrow> on_disk m' f'"
  using persist_on_disk by (auto simp: flush_def split: if_splits)

lemma record_on_disk: "on_disk m f \<Longrightarrow> record_range env p n st m f = (r, m', f') \<Longrightarrow> on_disk m' f'"
  by (auto simp: record_range_def dest: changed_on_disk split: if_splits option.splits)

lemma promote_on_disk:
  assumes "canon (entries m)" and "on_disk m f" and "promote env frm to m f = (r, m', f')"
  shows "on_disk m' f'"
proof (cases "promote_hit frm (entries m)")
  case True
  then show ?thesis using assms(3) changed_on_disk by (simp add: promote_def)
next
  case False
  then have "map (\<lambda>e. if e_status e \<in> set frm then e\<lparr>e_status := to\<rparr> else e) (entries m) = entries m"
    by (auto simp: promote_hit_def list_ex_iff intro: map_idI)
  moreover have "coalesce (entries m) = entries m"
    using assms(1) by (simp add: coalesce_eq_merge_runs merge_runs_maximal_id canon_def)
  ultimately have "promote_map frm to m = m"
    using False by (simp add: promote_map_def promote_entries_def Let_def)
  then show ?thesis using False assms by (simp add: promote_def)
qed

lemma new_map_simps [simp]:
  "path (new_map p tot ver now) = p" "\<not> dirty (new_map p tot ver now)"
  "\<not> disowned (new_map p tot ver now)" "total_size (new_map p tot ver now) = tot"
  by (simp_all add: new_map_def)

lemma create_cases:
  "create env p tot ver f = (Inr m, f') \<Longrightarrow>
     m = (new_map p tot ver (w_now env))\<lparr>disowned := w_disowned env, last_flushed := w_after env\<rparr> \<and>
     (\<not> disowned m \<longrightarrow> f' p = Some (print_map m))"
  using write_locked_done [of env "new_map p tot ver (w_now env)" f]
  by (auto simp: create_def write_to_disk_def split: prod.splits sum.splits)

lemma create_on_disk: "create env p tot ver f = (Inr m, f') \<Longrightarrow> on_disk m f' \<and> path m = p"
  by (drule create_cases) (auto simp: on_disk_def)

lemma setters_on_disk:
  "on_disk m f \<Longrightarrow> on_disk (set_scope rs m) f" "on_disk m f \<Longrightarrow> on_disk (clear_scope m) f"
  "on_disk m f \<Longrightarrow> on_disk (set_raw r m) f" "on_disk m f \<Longrightarrow> on_disk (set_vid_fingerprint fp m) f"
  "on_disk m f \<Longrightarrow> on_disk (set_disc_hash ph h m) f"
  by (auto simp: on_disk_def set_scope_def clear_scope_def set_raw_def set_vid_fingerprint_def
      set_disc_hash_def Let_def split: option.splits)

text \<open>A load succeeds only on a readable text of admissible size; a load that finds no file had none to find.\<close>

lemma read_capped_Inr:
  "read_capped rd f p = Inr s \<longleftrightarrow> rd = ReadFine \<and> f p = Some s \<and> utf8_len s \<le> MAX_MAPFILE_BYTES"
  by (auto simp: read_capped_def split: read_fault.splits option.splits)

lemma load_Inr:
  "load ph sh rd f p = Inr m \<longleftrightarrow>
     (\<exists>s. snd rd = ReadFine \<and> f p = Some s \<and> utf8_len s \<le> MAX_MAPFILE_BYTES \<and> load_text ph sh p (fst rd) s = Inr m)"
  by (auto simp: load_def bind_res_eq_Inr read_capped_Inr)

lemma load_missing: "load ph sh rd f p = Inl NotFound \<Longrightarrow> f p = None"
  by (auto simp: load_def bind_res_eq_Inl read_capped_def invalid_def dest: load_text_error
      split: read_fault.splits option.splits if_splits)

lemma load_absent: "f p = None \<Longrightarrow> load ph sh rd f p \<noteq> Inr m"
  by (simp add: load_Inr)

lemma load_path [simp]: "load ph sh rd f p = Inr m \<Longrightarrow> path m = p"
  by (auto simp: load_Inr load_text_def bind_res_eq_Inr)

lemma on_disk_load:
  assumes "on_disk m f" and "\<not> dirty m" and "\<not> disowned m"
    and "hex_parser_ok ph" and "header_ok m" and "map_ok m"
    and "utf8_len (print_map m) \<le> MAX_MAPFILE_BYTES"
  shows "load ph sh (now, ReadFine) f (path m) = Inr (m\<lparr>last_flushed := now\<rparr>)"
proof -
  have "f (path m) = Some (print_map m)" using assms(1-3) by (simp add: on_disk_def)
  then have "load ph sh (now, ReadFine) f (path m) =
      Inr (m\<lparr>path := path m, dirty := False, last_flushed := now, disowned := False\<rparr>)"
    using map_ok_load_print_map [OF assms(4-6)] assms(7) by (simp add: load_def read_capped_def)
  also have "m\<lparr>path := path m, dirty := False, last_flushed := now, disowned := False\<rparr> =
      m\<lparr>last_flushed := now\<rparr>" using assms(2,3) by (cases m) simp
  finally show ?thesis .
qed

subsection \<open>Sector-aligned maps\<close>

text \<open>
  The engine records whole sectors. Under that discipline the 32-bit count of bad runs cannot
  saturate on an image of at most \<open>2 ^ 32 - 1\<close> sectors, so the statistics are exact.
\<close>

definition entries_aligned :: "MapEntry list \<Rightarrow> bool" where
  "entries_aligned es = (\<forall>e \<in> set es. SECTOR dvd e_pos e \<and> SECTOR dvd e_size e)"

lemma entries_aligned_simps [simp]:
  "entries_aligned []"
  "entries_aligned (e # es) \<longleftrightarrow> SECTOR dvd e_pos e \<and> SECTOR dvd e_size e \<and> entries_aligned es"
  "entries_aligned (es @ fs) \<longleftrightarrow> entries_aligned es \<and> entries_aligned fs"
  by (auto simp: entries_aligned_def)

lemma merge_runs_aligned:
  "runs_from c es \<Longrightarrow> entries_aligned es \<Longrightarrow> entries_aligned (merge_runs es)"
proof (induction es arbitrary: c rule: merge_runs.induct)
  case (1 a b es)
  show ?case
  proof (cases "mergeable a b")
    case True
    then have "sat_add (e_size a) (e_size b) = e_size a + e_size b" "e_pos a + e_size a = e_pos b"
      using "1.prems" by (auto simp: mergeable_def arith64)
    then show ?thesis
      using "1.IH"(1) [OF True, of c] "1.prems" True by (simp flip: add.assoc)
  next
    case False
    then show ?thesis using "1.IH"(2) [OF False, of "e_pos a + e_size a"] "1.prems" by simp
  qed
qed auto

lemma splice_pieces_aligned:
  "entries_aligned es \<Longrightarrow> runs_from c es \<Longrightarrow> SECTOR dvd p \<Longrightarrow> SECTOR dvd q \<Longrightarrow>
     SECTOR dvd e_pos r \<Longrightarrow> SECTOR dvd e_size r \<Longrightarrow> entries_aligned (splice_pieces p q r b es)"
  by (induction es arbitrary: c b) (auto simp: Let_def arith64 intro!: dvd_diff_nat dvd_add)

lemma splice_entries_aligned:
  assumes "canon es" and "entries_aligned es" and "p < q" and "q \<le> u64_max"
    and "SECTOR dvd p" and "SECTOR dvd q"
  shows "entries_aligned (splice_entries es p q st)"
proof -
  let ?ps = "\<lambda>win. splice_pieces p q (entry p (q - p) st) False win"
  obtain pre win post where d: "es = pre @ win @ post"
    "splice_entries es p q st = coalesce (pre @ ?ps win @ post)" "runs_from 0 (pre @ ?ps win @ post)"
    by (rule splice_decompose [OF assms(1,3,4)])
  have "runs_from 0 (pre @ win @ post)" using assms(1) d(1) by (simp add: canon_def)
  then obtain c where "runs_from c win" by (auto simp: runs_from_append)
  then have "entries_aligned (?ps win)"
    using assms d(1) by (intro splice_pieces_aligned) (simp_all add: dvd_diff_nat)
  then show ?thesis
    using merge_runs_aligned [OF d(3)] assms(2) unfolding d(2) coalesce_eq_merge_runs
    by (simp add: d(1))
qed

lemma bad_runs_weight:
  "runs_from c es \<Longrightarrow> entries_aligned es \<Longrightarrow> bad_runs es * SECTOR \<le> weight {Unreadable} es"
proof (induction es arbitrary: c)
  case (Cons e es)
  then have "SECTOR \<le> e_size e" by (auto intro: dvd_imp_le)
  moreover have "bad_runs es * SECTOR \<le> weight {Unreadable} es"
    using Cons.prems by (intro Cons.IH) auto
  ultimately show ?case by (simp add: algebra_simps)
qed simp

lemma bad_runs_bound:
  assumes "runs_from 0 es" and "entries_aligned es" and "entries_end es \<le> u32_max * SECTOR"
  shows "bad_runs es \<le> u32_max"
proof -
  have "{b. look es b = Some Unreadable} \<subseteq> {..<entries_end es}"
    using entries_end_bound [OF assms(1)] by auto
  then have "weight {Unreadable} es \<le> entries_end es"
    using weight_card [OF assms(1), of "{Unreadable}"] card_mono [of "{..<entries_end es}"] by fastforce
  then have "bad_runs es * SECTOR \<le> u32_max * SECTOR"
    using bad_runs_weight [OF assms(1,2)] assms(3) by linarith
  then show ?thesis by simp
qed

lemma entries_end_eq:
  assumes "runs_from 0 es" and "\<And>b. look es b \<noteq> None \<longleftrightarrow> b < N"
  shows "entries_end es = N"
proof (cases "es = []")
  case True
  then show ?thesis using assms(2) [of 0] by (simp add: entries_end_def)
next
  case False
  let ?e = "last es"
  have e: "0 < e_size ?e" "run_end ?e = e_pos ?e + e_size ?e"
    using runs_from_mem [OF assms(1), of ?e] False by (auto simp: arith64)
  then have "look es (run_end ?e - 1) = Some (e_status ?e)"
    using look_mem [OF assms(1), of ?e] False by simp
  then have "run_end ?e - 1 < N" using assms(2) by fastforce
  moreover have "N = 0 \<or> N - 1 < entries_end es"
    using assms(2) [of "N - 1"] entries_end_bound [OF assms(1)] by fastforce
  ultimately show ?thesis using False e by (auto simp: entries_end_def)
qed

subsection \<open>The invariant of a map in use\<close>

definition map_inv :: "Mapfile \<Rightarrow> bool" where
  "map_inv m = (map_ok m \<and> entries_aligned (entries m) \<and> total_size m \<le> u32_max * SECTOR)"

definition span_ok :: "Mapfile \<Rightarrow> nat \<Rightarrow> nat \<Rightarrow> bool" where
  "span_ok m p n = (SECTOR dvd p \<and> SECTOR dvd n \<and> p + n \<le> total_size m)"

lemma total_fits: "total_size m \<le> u32_max * SECTOR \<Longrightarrow> total_size m \<le> u64_max"
  by (simp add: u32_max_def u64_max_def SECTOR_def)

lemma map_inv_look:
  assumes "map_inv m"
  shows "look (entries m) b \<noteq> None \<longleftrightarrow> b < total_size m"
  using assms entries_end_bound [of 0 "entries m" b]
  by (auto simp: map_inv_def map_ok_def canon_def)

lemma map_inv_new:
  assumes "tot \<le> u32_max * SECTOR" and "SECTOR dvd tot"
  shows "map_inv (new_map p tot ver now)"
proof -
  have "tot \<le> u64_max" using assms(1) by (simp add: u32_max_def u64_max_def SECTOR_def)
  then show ?thesis
    using assms by (auto simp: map_inv_def map_ok_def new_map_def canon_def entries_end_def arith64
        compute_stats_def tally_def bump_def MapStats_default_def)
qed

lemma splice_map_inv:
  assumes inv: "map_inv m" and "span_ok m p n" and "0 < n"
  shows "map_inv (splice p (p + n) st m)"
    and "look (entries (splice p (p + n) st m)) =
      (\<lambda>b. if p \<le> b \<and> b < p + n then Some st else look (entries m) b)"
proof -
  let ?m = "splice p (p + n) st m"
  have sp: "SECTOR dvd p" "SECTOR dvd n" "p + n \<le> total_size m" "p < p + n" "p + n \<le> u64_max"
    using assms total_fits [of m] by (auto simp: span_ok_def map_inv_def)
  have c: "canon (entries m)" "entries_aligned (entries m)" "entries_end (entries m) = total_size m"
    "total_size m \<le> u32_max * SECTOR"
    "stats_field m = compute_stats (entries m) (total_size m)"
    using inv by (simp_all add: map_inv_def map_ok_def)
  have es: "entries ?m = splice_entries (entries m) p (p + n) st" "total_size ?m = total_size m"
    by (simp_all add: splice_def)
  note c' = splice_entries_canon [OF c(1) sp(4,5), of st]
  have al: "entries_aligned (splice_entries (entries m) p (p + n) st)"
    using c sp by (intro splice_entries_aligned) simp_all
  show lk: "look (entries ?m) = (\<lambda>b. if p \<le> b \<and> b < p + n then Some st else look (entries m) b)"
    using look_splice_entries [OF c(1) sp(4,5)] by (auto simp: es)
  have some: "look (splice_entries (entries m) p (p + n) st) b \<noteq> None \<longleftrightarrow> b < total_size m" for b
    using lk map_inv_look [OF inv, of b] sp(3) by (simp add: es fun_eq_iff)
  have "entries_end (splice_entries (entries m) p (p + n) st) = total_size m"
    using c' some by (intro entries_end_eq) (simp_all add: canon_def)
  moreover from this have "stats_field ?m = compute_stats (entries ?m) (total_size m)"
    using splice_stats_correct [OF c(1) sp(4,5)] bad_runs_bound al c c'
    by (simp add: splice_def canon_def)
  ultimately show "map_inv ?m" using c' al c(4) some by (simp add: map_inv_def map_ok_def es)
qed

lemma map_ok_promote:
  assumes "map_ok m"
  shows "map_ok (promote_map frm to m)"
    and "look (entries (promote_map frm to m)) b =
      map_option (\<lambda>s. if s \<in> set frm then to else s) (look (entries m) b)"
proof -
  have c: "canon (entries m)" "entries_end (entries m) = total_size m"
    "\<forall>b < total_size m. look (entries m) b \<noteq> None"
    "stats_field m = compute_stats (entries m) (total_size m)"
    using assms by (simp_all add: map_ok_def)
  have es: "entries (promote_map frm to m) = promote_entries frm to (entries m)"
    "total_size (promote_map frm to m) = total_size m"
    by (simp_all add: promote_map_def Let_def)
  note c' = promote_entries_canon [OF c(1), of frm to]
  have lk: "look (promote_entries frm to (entries m)) b =
      map_option (\<lambda>s. if s \<in> set frm then to else s) (look (entries m) b)" for b
    by (rule look_promote_entries [OF c(1)])
  then show "look (entries (promote_map frm to m)) b =
      map_option (\<lambda>s. if s \<in> set frm then to else s) (look (entries m) b)" by (simp add: es)
  have some: "look (promote_entries frm to (entries m)) b \<noteq> None \<longleftrightarrow> b < total_size m" for b
    using c entries_end_bound [of 0 "entries m" b] by (auto simp: lk canon_def)
  then have "entries_end (promote_entries frm to (entries m)) = total_size m"
    using c' by (intro entries_end_eq) (simp_all add: canon_def)
  moreover have "stats_field (promote_map frm to m) =
      compute_stats (promote_entries frm to (entries m)) (total_size m)"
  proof (cases "promote_hit frm (entries m)")
    case False
    then have "map (\<lambda>e. if e_status e \<in> set frm then e\<lparr>e_status := to\<rparr> else e) (entries m) = entries m"
      by (auto simp: promote_hit_def list_ex_iff intro: map_idI)
    then have "promote_entries frm to (entries m) = entries m"
      using c(1) by (simp add: promote_entries_def coalesce_eq_merge_runs merge_runs_maximal_id canon_def)
    then show ?thesis using False c(4) by (simp add: promote_map_def Let_def)
  qed (simp add: promote_map_def Let_def)
  ultimately show "map_ok (promote_map frm to m)" using c' some by (auto simp: map_ok_def es)
qed

subsection \<open>A run of records\<close>

type_synonym record_op = "WriteEnv \<times> nat \<times> nat \<times> SectorStatus"

definition do_record :: "Mapfile \<times> fs \<Rightarrow> record_op \<Rightarrow> Mapfile \<times> fs" where
  "do_record s op =
     (case s of (m, f) \<Rightarrow> case op of (env, p, n, st) \<Rightarrow> snd (record_range env p n st m f))"

definition mark_op :: "(nat \<Rightarrow> SectorStatus option) \<Rightarrow> record_op \<Rightarrow> nat \<Rightarrow> SectorStatus option" where
  "mark_op a op = (case op of (env, p, n, st) \<Rightarrow> \<lambda>b. if p \<le> b \<and> b < p + n then Some st else a b)"

definition op_ok :: "nat \<Rightarrow> record_op \<Rightarrow> bool" where
  "op_ok tot op = (case op of (env, p, n, st) \<Rightarrow> SECTOR dvd p \<and> SECTOR dvd n \<and> p + n \<le> tot)"

lemma mark_op_eq:
  "mark_op a (env, p, n, st) = (\<lambda>b. if p \<le> b \<and> b < p + n then Some st else a b)"
  by (simp add: mark_op_def)

text \<open>Two maps that differ in nothing a text or a query shows.\<close>

definition same_map :: "Mapfile \<Rightarrow> Mapfile \<Rightarrow> bool" where
  "same_map a b = (entries a = entries b \<and> stats_field a = stats_field b \<and> total_size a = total_size b \<and>
     path a = path b \<and> version a = version b \<and> disc_hash a = disc_hash b \<and> vidfp a = vidfp b \<and>
     legacy_keyfps a = legacy_keyfps b \<and> scope a = scope b \<and> raw a = raw b)"

lemma same_map_inv: "same_map a b \<Longrightarrow> map_inv a = map_inv b" "same_map a b \<Longrightarrow> header_ok a = header_ok b"
  by (simp_all add: same_map_def map_inv_def map_ok_def header_ok_def)

lemma persist_same: "persist env m f = (r, m', f') \<Longrightarrow> same_map m' m"
  by (drule persist_cases) (auto simp: same_map_def clean_def)

lemma changed_same: "changed env m f = (r, m', f') \<Longrightarrow> same_map m' m"
  using persist_same [of env "m\<lparr>dirty := True\<rparr>" f]
  by (auto simp: changed_def Let_def same_map_def split: if_splits)

lemma flush_same: "flush env m f = (r, m', f') \<Longrightarrow> same_map m' m"
  using persist_same by (auto simp: flush_def same_map_def split: if_splits)

lemma record_range_correct:
  assumes "map_inv m" and "span_ok m p n" and "record_range env p n st m f = (r, m', f')"
  shows "map_inv m' \<and> path m' = path m \<and> total_size m' = total_size m \<and> header_ok m' = header_ok m \<and>
    scope m' = scope m \<and>
    look (entries m') = (\<lambda>b. if p \<le> b \<and> b < p + n then Some st else look (entries m) b)"
proof (cases "n = 0")
  case True
  moreover from this have "m' = m" using assms(3) by (simp add: record_range_def)
  ultimately show ?thesis using assms(1) by (auto simp: fun_eq_iff)
next
  case False
  then have n: "0 < n" by simp
  have "p + n \<le> u64_max" using assms total_fits [of m] by (auto simp: span_ok_def map_inv_def)
  then have "changed env (splice p (p + n) st m) f = (r, m', f')"
    using assms(3) n by (simp add: record_range_def arith64)
  then have sm: "same_map m' (splice p (p + n) st m)" by (rule changed_same)
  moreover have "path (splice p (p + n) st m) = path m" "total_size (splice p (p + n) st m) = total_size m"
    "header_ok (splice p (p + n) st m) = header_ok m" "scope (splice p (p + n) st m) = scope m"
    by (simp_all add: splice_def header_ok_def)
  ultimately show ?thesis
    using splice_map_inv [OF assms(1,2) n, of st] same_map_inv [OF sm] by (simp add: same_map_def)
qed

lemma run_records:
  assumes "map_inv m" and "on_disk m f" and "header_ok m" and "\<forall>op \<in> set ops. op_ok (total_size m) op"
    and "foldl do_record (m, f) ops = (m', f')"
  shows "map_inv m' \<and> on_disk m' f' \<and> header_ok m' \<and> path m' = path m \<and> total_size m' = total_size m \<and>
    look (entries m') = foldl mark_op (look (entries m)) ops"
  using assms
proof (induction ops arbitrary: m f)
  case (Cons op ops)
  obtain env p n st where op: "op = (env, p, n, st)" by (cases op)
  obtain r m1 f1 where r: "record_range env p n st m f = (r, m1, f1)" by (metis prod_cases3)
  have "span_ok m p n" using Cons.prems(4) by (simp add: op op_ok_def span_ok_def)
  note c = record_range_correct [OF Cons.prems(1) this r]
  have "on_disk m1 f1" by (rule record_on_disk [OF Cons.prems(2) r])
  moreover have "foldl do_record (m1, f1) ops = (m', f')" "\<forall>op \<in> set ops. op_ok (total_size m1) op"
    using Cons.prems(4,5) c r by (simp_all add: op) (simp add: do_record_def)
  ultimately have "map_inv m' \<and> on_disk m' f' \<and> header_ok m' \<and> path m' = path m1 \<and>
      total_size m' = total_size m1 \<and> look (entries m') = foldl mark_op (look (entries m1)) ops"
    using Cons.IH [of m1 f1] c Cons.prems(3) by simp
  then show ?case using c by (simp add: op mark_op_eq)
qed simp

subsection \<open>What the statistics count\<close>

definition count_bytes :: "Mapfile \<Rightarrow> (nat \<Rightarrow> SectorStatus \<Rightarrow> bool) \<Rightarrow> nat" where
  "count_bytes m P = card {b. \<exists>s. look (entries m) b = Some s \<and> P b s}"

definition in_scope :: "Mapfile \<Rightarrow> nat \<Rightarrow> bool" where
  "in_scope m b = (case scope m of None \<Rightarrow> True | Some sc \<Rightarrow> b \<in> bytes_of sc)"

lemma count_weight: "canon (entries m) \<Longrightarrow> count_bytes m (\<lambda>b s. s \<in> S) = weight S (entries m)"
proof -
  assume "canon (entries m)"
  then have "runs_from 0 (entries m)" by (simp add: canon_def)
  note weight_card [OF this, of S]
  moreover have "{b. \<exists>s. look (entries m) b = Some s \<and> s \<in> S} = {b. \<exists>s \<in> S. look (entries m) b = Some s}"
    by blast
  ultimately show ?thesis by (simp add: count_bytes_def)
qed

lemma field_stats:
  assumes "map_inv m"
  shows "bytes_good (stats_field m) = count_bytes m (\<lambda>b s. s \<in> {Finished})"
    and "bytes_unreadable (stats_field m) = count_bytes m (\<lambda>b s. s \<in> {Unreadable})"
    and "bytes_nontried (stats_field m) = count_bytes m (\<lambda>b s. s \<in> {NonTried})"
    and "bytes_retryable (stats_field m) = count_bytes m (\<lambda>b s. s \<in> {NonTrimmed, NonScraped})"
    and "bytes_pending (stats_field m) = count_bytes m (\<lambda>b s. s \<in> {NonTried, NonTrimmed, NonScraped})"
    and "bytes_total (stats_field m) = total_size m"
    and "num_bad_ranges (stats_field m) = length (filter (\<lambda>e. e_status e = Unreadable) (entries m))"
proof -
  have c: "canon (entries m)" "runs_from 0 (entries m)" "entries_aligned (entries m)"
    "entries_end (entries m) \<le> u32_max * SECTOR"
    and st: "stats_field m = compute_stats (entries m) (total_size m)"
    using assms by (auto simp: map_inv_def map_ok_def canon_def)
  have "stats_field m = stats_plus (MapStats_default\<lparr>bytes_total := total_size m\<rparr>) (entries m)"
    using compute_stats_eq [OF c(2) bad_runs_bound [OF c(2-4)]] st by simp
  then show "bytes_good (stats_field m) = count_bytes m (\<lambda>b s. s \<in> {Finished})"
    "bytes_unreadable (stats_field m) = count_bytes m (\<lambda>b s. s \<in> {Unreadable})"
    "bytes_nontried (stats_field m) = count_bytes m (\<lambda>b s. s \<in> {NonTried})"
    "bytes_retryable (stats_field m) = count_bytes m (\<lambda>b s. s \<in> {NonTrimmed, NonScraped})"
    "bytes_pending (stats_field m) = count_bytes m (\<lambda>b s. s \<in> {NonTried, NonTrimmed, NonScraped})"
    "bytes_total (stats_field m) = total_size m"
    "num_bad_ranges (stats_field m) = length (filter (\<lambda>e. e_status e = Unreadable) (entries m))"
    unfolding count_weight [OF c(1)]
    by (simp_all add: stats_plus_def MapStats_default_def bad_runs_def)
qed

lemma finite_look: "finite {b. look es b \<noteq> None}"
proof (rule finite_subset)
  show "{b. look es b \<noteq> None} \<subseteq> (\<Union>e \<in> set es. {e_pos e ..< e_pos e + e_size e})"
    using look_Some_mem by fastforce
qed simp

lemma count_split:
  assumes "\<And>b s. P b s \<Longrightarrow> Q b s \<Longrightarrow> False"
  shows "count_bytes m (\<lambda>b s. P b s \<or> Q b s) = count_bytes m P + count_bytes m Q"
proof -
  let ?A = "\<lambda>P. {b. \<exists>s. look (entries m) b = Some s \<and> P b s}"
  have fin: "finite (?A P)" for P by (rule finite_subset [OF _ finite_look [of "entries m"]]) auto
  have "?A (\<lambda>b s. P b s \<or> Q b s) = ?A P \<union> ?A Q" "?A P \<inter> ?A Q = {}" using assms by auto
  then show ?thesis using fin by (simp add: count_bytes_def card_Un_disjoint)
qed

definition scope_ok :: "Mapfile \<Rightarrow> bool" where
  "scope_ok m = (\<forall>sc. scope m = Some sc \<longrightarrow> disj_from 0 sc)"

lemma header_scope_ok: "header_ok m \<Longrightarrow> scope_ok m"
  using sep_imp_disj by (auto simp: header_ok_def scope_ok_def)

lemma outside_scope_count:
  assumes "map_inv m" and "scope_ok m" and "scope m = Some sc"
  shows "nontried_outside_scope m = count_bytes m (\<lambda>b s. s = NonTried \<and> \<not> in_scope m b)"
proof -
  have "disj_from 0 sc" using assms(2,3) by (simp add: scope_ok_def)
  moreover have "canon (entries m)" using assms(1) by (simp add: map_inv_def map_ok_def)
  moreover have "{b. \<exists>s. look (entries m) b = Some s \<and> s = NonTried \<and> \<not> in_scope m b} =
      {b. look (entries m) b = Some NonTried \<and> b \<notin> bytes_of sc}"
    using assms(3) by (auto simp: in_scope_def)
  ultimately show ?thesis
    using nontried_outside_scope_correct [of m sc] assms(3) by (simp add: count_bytes_def)
qed

lemma stats_counts:
  assumes "map_inv m" and "scope_ok m"
  shows "bytes_good (stats m) = count_bytes m (\<lambda>b s. s = Finished) \<and>
    bytes_unreadable (stats m) = count_bytes m (\<lambda>b s. s = Unreadable) \<and>
    bytes_retryable (stats m) = count_bytes m (\<lambda>b s. s = NonTrimmed \<or> s = NonScraped) \<and>
    bytes_nontried (stats m) = count_bytes m (\<lambda>b s. s = NonTried \<and> in_scope m b) \<and>
    bytes_pending (stats m) = bytes_nontried (stats m) + bytes_retryable (stats m) \<and>
    bytes_total (stats m) = total_size m"
proof -
  note f = field_stats [OF assms(1), simplified insert_iff empty_iff simp_thms]
  have pend: "bytes_pending (stats_field m) = bytes_nontried (stats_field m) + bytes_retryable (stats_field m)"
    unfolding f by (rule count_split) simp
  show ?thesis
  proof (cases "scope m")
    case None
    then show ?thesis using f pend by (simp add: stats_def in_scope_def)
  next
    case (Some sc)
    have "count_bytes m (\<lambda>b s. s = NonTried) =
        count_bytes m (\<lambda>b s. s = NonTried \<and> in_scope m b \<or> s = NonTried \<and> \<not> in_scope m b)"
      by (rule arg_cong [of _ _ "count_bytes m"]) (auto simp: fun_eq_iff)
    also have "\<dots> = count_bytes m (\<lambda>b s. s = NonTried \<and> in_scope m b) +
        count_bytes m (\<lambda>b s. s = NonTried \<and> \<not> in_scope m b)"
      by (rule count_split) simp
    finally have nt: "bytes_nontried (stats_field m) =
        count_bytes m (\<lambda>b s. s = NonTried \<and> in_scope m b) + nontried_outside_scope m"
      using f(3) outside_scope_count [OF assms Some] by simp
    have "stats m = (stats_field m)\<lparr>bytes_pending := bytes_pending (stats_field m) - nontried_outside_scope m,
        bytes_nontried := bytes_nontried (stats_field m) - nontried_outside_scope m\<rparr>"
      using Some by (simp add: stats_def Let_def)
    then show ?thesis using nt pend f(1,2,4,6) by simp
  qed
qed

subsection \<open>Properties\<close>

text \<open>
C26: The statistics are exact at any time: good, unreadable and retryable bytes are counted over the
whole image, the bytes not yet tried only inside the scope of a scoped image, and the pending figure is
the sum of the last two.
\<close>

theorem stats_exact:
  assumes "map_inv m" and "header_ok m"
  shows "bytes_good (stats m) = count_bytes m (\<lambda>b s. s = Finished) \<and>
    bytes_unreadable (stats m) = count_bytes m (\<lambda>b s. s = Unreadable) \<and>
    bytes_retryable (stats m) = count_bytes m (\<lambda>b s. s = NonTrimmed \<or> s = NonScraped) \<and>
    bytes_nontried (stats m) = count_bytes m (\<lambda>b s. s = NonTried \<and> in_scope m b) \<and>
    bytes_pending (stats m) = bytes_nontried (stats m) + bytes_retryable (stats m) \<and>
    bytes_total (stats m) = total_size m"
  by (rule stats_counts [OF assms(1) header_scope_ok [OF assms(2)]])

lemma sample_inv: "map_inv sample_map" "header_ok sample_map"
proof -
  have c: "canon (entries sample_map)" by (rule sample_canon)
  show "header_ok sample_map"
    by (simp add: header_ok_def sample_map_def is_ws_def nl_def u64_max_def)
  have "look (entries sample_map) b \<noteq> None" if "b < 16384" for b
    using that by (simp add: sample_map_def)
  then show "map_inv sample_map"
    using c by (simp add: map_inv_def map_ok_def)
      (simp add: sample_map_def entries_end_def run_end_def sat_add_def u64_max_def SECTOR_def u32_max_def)
qed

theorem stats_exact_witness:
  "bytes_good (stats sample_map) = 8192 \<and>
   bytes_nontried (stats sample_map) = count_bytes sample_map (\<lambda>b s. s = NonTried \<and> in_scope sample_map b)"
  using stats_exact [OF sample_inv]
  by (simp add: stats_def nontried_outside_scope_def sample_map_def compute_stats_def tally_def bump_def
      MapStats_default_def sat_add_def u64_max_def Let_def)

text \<open>
C27: Every text that \<open>load\<close> accepts gives a canonical, gapless partition of \<open>[0, total_size)\<close> whose
statistics are those of its runs. A file it cannot open, read, decode or parse is never taken for a missing one: it
is missing exactly when it is not there and its open was not refused, \<open>load_if_present\<close> answers none exactly then,
and every other failure is the error of the call that failed, a text too large is refused whatever its reads give,
and one that is not UTF-8 is invalid data.
\<close>

theorem load_sound:
  "(case load ph sh rd f p of
      Inr m \<Rightarrow> snd rd = ReadFine \<and> map_ok m \<and> path m = p \<and> \<not> dirty m \<and> \<not> disowned m \<and>
        (\<exists>txt. f p = Some txt \<and> utf8_len txt \<le> MAX_MAPFILE_BYTES \<and> load_text ph sh p (fst rd) txt = Inr m)
    | Inl e \<Rightarrow>
        (e = NotFound) = (f p = None \<and> (\<nexists>n. snd rd = OpenRefused n)) \<and>
        (case (snd rd, f p) of
           (OpenRefused n, _) \<Rightarrow> e = OsError n
         | (_, None) \<Rightarrow> e = NotFound
         | (fault, Some txt) \<Rightarrow>
             (if utf8_len txt > MAX_MAPFILE_BYTES then e = invalid ''too_large''
              else case fault of
                     ReadBreaks n \<Rightarrow> e = OsError n
                   | NotText \<Rightarrow> e = NotUtf8
                   | _ \<Rightarrow> load_text ph sh p (fst rd) txt = Inl e \<and> (\<exists>k. e = invalid k)))) \<and>
   load_if_present ph sh rd f p =
     (if f p = None \<and> (\<nexists>n. snd rd = OpenRefused n) then Inr None
      else case load ph sh rd f p of Inr m \<Rightarrow> Inr (Some m) | Inl e \<Rightarrow> Inl e)"
proof (cases "load ph sh rd f p")
  case (Inl e)
  have err: "read_capped (snd rd) f p = Inl e \<or> (\<exists>s. read_capped (snd rd) f p = Inr s \<and> load_text ph sh p (fst rd) s = Inl e)"
    using Inl by (simp add: load_def bind_res_eq_Inl)
  have parse: "\<exists>k. e = invalid k" if "load_text ph sh p (fst rd) s = Inl e" for s using load_text_error that by (auto simp: invalid_def)
  have miss: "(e = NotFound) = (f p = None \<and> (\<nexists>n. snd rd = OpenRefused n))"
    using err parse by (auto simp: read_capped_def invalid_def split: read_fault.splits option.splits if_splits)
  have "case (snd rd, f p) of
           (OpenRefused n, _) \<Rightarrow> e = OsError n
         | (_, None) \<Rightarrow> e = NotFound
         | (fault, Some txt) \<Rightarrow>
             (if utf8_len txt > MAX_MAPFILE_BYTES then e = invalid ''too_large''
              else case fault of
                     ReadBreaks n \<Rightarrow> e = OsError n
                   | NotText \<Rightarrow> e = NotUtf8
                   | _ \<Rightarrow> load_text ph sh p (fst rd) txt = Inl e \<and> (\<exists>k. e = invalid k))"
    using err parse by (auto simp: read_capped_def split: read_fault.splits option.splits if_splits)
  then show ?thesis using Inl miss by (simp add: load_if_present_def)
next
  case (Inr m)
  then obtain s where s: "f p = Some s" "snd rd = ReadFine" "utf8_len s \<le> MAX_MAPFILE_BYTES" "load_text ph sh p (fst rd) s = Inr m"
    by (auto simp: load_def read_capped_def bind_res_eq_Inr split: read_fault.splits option.splits if_splits)
  moreover from s(4) have "path m = p" by (auto simp: load_text_def bind_res_eq_Inr)
  ultimately show ?thesis using Inr load_text_sound by (simp add: load_if_present_def)
qed

text \<open>
C24: What \<open>write_locked\<close> prints, \<open>load_text\<close> reads back: the same runs, statistics, identity, scope
and raw stamp, for every map the operations produce.
\<close>

theorem load_print_round_trip:
  assumes "hex_parser_ok ph" and "header_ok m" and "map_ok m"
  shows "load_text ph sh fp now (print_map m) =
    Inr (m\<lparr>path := fp, dirty := False, last_flushed := now, disowned := False\<rparr>)"
  by (rule map_ok_load_print_map [OF assms])

text \<open>A hexadecimal parser that meets the contract, for the witnesses.\<close>

fun unhex :: "string \<Rightarrow> nat list option" where
  "unhex [] = Some []"
| "unhex [c] = None"
| "unhex (c # d # cs) =
     (case (to_digit 16 c, to_digit 16 d, unhex cs) of
        (Some x, Some y, Some bs) \<Rightarrow> Some ((x * 16 + y) # bs) | _ \<Rightarrow> None)"

definition sample_ph :: "nat \<Rightarrow> string \<Rightarrow> nat list option" where
  "sample_ph n s = (case unhex s of Some bs \<Rightarrow> if length bs = n then Some bs else None | None \<Rightarrow> None)"

lemma byte_hex:
  assumes "b < 256"
  shows "zero_pad 2 (hex b) = [digit_char (b div 16), digit_char (b mod 16)]"
proof (cases "b < 16")
  case True
  moreover have "digit_char 0 = CHR ''0''"
    using char_of_char [where ?'a = nat, of "CHR ''0''"] by (simp add: digit_char_def)
  ultimately show ?thesis by (simp add: hex.simps [of b] zero_pad_def)
next
  case False
  have "b div 16 < 16" using assms by (simp add: less_mult_imp_div_less)
  then show ?thesis
    using False by (simp add: hex.simps [of b] hex.simps [of "b div 16"] zero_pad_def)
qed

lemma unhex_hex_lower: "\<forall>b \<in> set bs. b < 256 \<Longrightarrow> unhex (hex_lower bs) = Some bs"
proof (induction bs)
  case (Cons b bs)
  then have "b < 256" "b div 16 < 16" by (simp_all add: less_mult_imp_div_less)
  then show ?case using Cons by (simp add: hex_lower_def byte_hex to_digit_digit_char)
qed (simp add: hex_lower_def)

lemma sample_ph_ok: "hex_parser_ok sample_ph"
  by (simp add: hex_parser_ok_def byte_list_def sample_ph_def unhex_hex_lower)

theorem load_print_round_trip_witness:
  "load_text sample_ph (\<lambda>_ bs. bs) ''x'' 7 (print_map sample_map) =
     Inr (sample_map\<lparr>path := ''x'', last_flushed := 7\<rparr>)"
proof -
  have "map_ok sample_map" using sample_inv(1) by (simp add: map_inv_def)
  from load_print_round_trip [OF sample_ph_ok sample_inv(2) this]
  show ?thesis by (simp add: sample_map_def)
qed

text \<open>
C25: A write is atomic: in every state it goes through, failed or cut short at any point, the path
holds the text it held before or the complete new text, and no file but the temporary one is touched;
success leaves the new text unless the owner was disowned, failure leaves the old one, and a disowned
owner never touches it. The temporary file is gone after a write that succeeded, and after any other
whose cleanup could remove it; what else may stay there is the file that was there or a prefix of the
new text. A temporary file in the way that cannot be removed fails the write, and is never written to.
\<close>

theorem write_atomic:
  "(\<forall>s \<in> set (snd (write_locked env m f)).
      s (path m) \<in> {f (path m), Some (print_map m)} \<and>
      (\<forall>p. p \<noteq> path m \<and> p \<noteq> tmp_path (path m) \<longrightarrow> s p = f p) \<and>
      s (tmp_path (path m)) \<in> {None, f (tmp_path (path m))} \<union> range (\<lambda>i. Some (take i (print_map m)))) \<and>
   (case write_locked env m f of
      (Inr _, states) \<Rightarrow> last states (path m) =
        (if disowned m \<or> w_disowned env then f (path m) else Some (print_map m))
    | (Inl _, states) \<Rightarrow> last states (path m) = f (path m)) \<and>
   (\<not> disowned m \<and> ((fst (write_locked env m f) = Inr () \<and> \<not> w_disowned env) \<or> \<not> w_left env) \<longrightarrow>
      last (snd (write_locked env m f)) (tmp_path (path m)) = None) \<and>
   (\<not> disowned m \<and> w_stale env \<and> f (tmp_path (path m)) \<noteq> None \<longrightarrow>
      fst (write_locked env m f) = Inl (OsError EEXIST) \<and>
      (\<forall>s \<in> set (snd (write_locked env m f)). s (tmp_path (path m)) \<in> {None, f (tmp_path (path m))}))"
proof (intro conjI)
  obtain r states where w: "write_locked env m f = (r, states)" by (cases "write_locked env m f")
  have ne: "states \<noteq> []" using write_locked_ne [of env m f] by (simp add: w)
  have "last states (path m) = f (path m)" if "disowned m \<or> w_disowned env"
    using write_locked_disowned [OF that, of "last states" f] ne by (simp add: w)
  then show "case write_locked env m f of
      (Inr _, states) \<Rightarrow> last states (path m) =
        (if disowned m \<or> w_disowned env then f (path m) else Some (print_map m))
    | (Inl _, states) \<Rightarrow> last states (path m) = f (path m)"
    using write_locked_done [of env m f] write_locked_failed [of env m f] by (auto simp: w split: sum.splits)
  show "\<forall>s \<in> set (snd (write_locked env m f)).
      s (path m) \<in> {f (path m), Some (print_map m)} \<and>
      (\<forall>p. p \<noteq> path m \<and> p \<noteq> tmp_path (path m) \<longrightarrow> s p = f p) \<and>
      s (tmp_path (path m)) \<in> {None, f (tmp_path (path m))} \<union> range (\<lambda>i. Some (take i (print_map m)))"
    using write_locked_atomic [of _ env m f] by blast
  show "\<not> disowned m \<and> ((fst (write_locked env m f) = Inr () \<and> \<not> w_disowned env) \<or> \<not> w_left env) \<longrightarrow>
      last (snd (write_locked env m f)) (tmp_path (path m)) = None"
    using write_locked_no_tmp [of m env f] by blast
  show "\<not> disowned m \<and> w_stale env \<and> f (tmp_path (path m)) \<noteq> None \<longrightarrow>
      fst (write_locked env m f) = Inl (OsError EEXIST) \<and>
      (\<forall>s \<in> set (snd (write_locked env m f)). s (tmp_path (path m)) \<in> {None, f (tmp_path (path m))})"
    using write_locked_blocked [of m env f] by (auto simp: unlink_quiet_def)
qed

definition good_env :: WriteEnv where
  "good_env = \<lparr>w_now = 5000, w_after = 5001, w_fault = NoFault, w_disowned = False, w_read = ReadFine,
     w_stale = False, w_left = False\<rparr>"

theorem write_atomic_witness:
  "last (snd (write_locked good_env sample_map (\<lambda>_. None))) (path sample_map) = Some (print_map sample_map)"
proof -
  obtain states where "write_locked good_env sample_map (\<lambda>_. None) = (Inr (), states)"
    by (simp add: write_locked_def unlink_quiet_def good_env_def sample_map_def Let_def)
  then show ?thesis using write_atomic [of good_env sample_map "\<lambda>_. None"]
    by (simp add: good_env_def sample_map_def)
qed

text \<open>
C23: Records survive a restart: after any run of sector-aligned records, whatever writes failed on the
way, a successful \<open>flush\<close> of a map still owned leaves a file that loads as that map, in which every
byte has the status recorded last.
\<close>

theorem records_survive:
  assumes "map_inv m" and "on_disk m f" and "header_ok m" and "hex_parser_ok ph"
    and "\<forall>op \<in> set ops. op_ok (total_size m) op" and "foldl do_record (m, f) ops = (m1, f1)"
    and "flush env m1 f1 = (Inr (), m2, f2)" and "\<not> disowned m2"
    and "utf8_len (print_map m2) \<le> MAX_MAPFILE_BYTES"
  shows "load ph sh (now, ReadFine) f2 (path m) = Inr (m2\<lparr>last_flushed := now\<rparr>) \<and> map_inv m2 \<and>
    look (entries m2) = foldl mark_op (look (entries m)) ops"
proof -
  note r = run_records [OF assms(1-3,5,6)]
  have sm: "same_map m2 m1" by (rule flush_same [OF assms(7)])
  then have inv: "map_inv m2" "header_ok m2" "path m2 = path m" "entries m2 = entries m1"
    using r same_map_inv [OF sm] by (simp_all add: same_map_def)
  have "on_disk m2 f2" using r flush_on_disk [OF _ assms(7)] by blast
  moreover have "\<not> dirty m2"
    using assms(7) by (auto simp: flush_def clean_def dest: persist_cases split: if_splits)
  ultimately have "load ph sh (now, ReadFine) f2 (path m2) = Inr (m2\<lparr>last_flushed := now\<rparr>)"
    using inv assms(4,8,9) by (intro on_disk_load) (simp_all add: map_inv_def)
  then show ?thesis using inv r by simp
qed

definition sample_fs :: fs where
  "sample_fs = (\<lambda>p. if p = path sample_map then Some (print_map sample_map) else None)"

definition sample_after :: Mapfile where
  "sample_after = fst (do_record (sample_map, sample_fs) (good_env, 8192, 2048, Finished))"

lemma good_persist:
  "\<not> disowned m \<Longrightarrow> persist good_env m f =
     (Inr (), clean good_env m, f(tmp_path (path m) := None, path m \<mapsto> print_map m))"
  by (cases m) (simp add: persist_def write_to_disk_def write_locked_def unlink_quiet_def good_env_def Let_def)

lemma length_hex: "n < 16 ^ k \<Longrightarrow> 0 < k \<Longrightarrow> length (hex n) \<le> k"
proof (induction n arbitrary: k rule: hex.induct)
  case (1 n)
  show ?case
  proof (cases "n < 16")
    case True
    then show ?thesis using 1(3) by (simp add: hex.simps [of n])
  next
    case False
    obtain j where j: "k = Suc j" using 1(3) by (cases k) auto
    then have "n div 16 < 16 ^ j" using 1(2) by (simp add: less_mult_imp_div_less mult.commute)
    moreover from this False have "0 < j" by (cases j) auto
    ultimately show ?thesis using 1(1) False j by (simp add: hex.simps [of n])
  qed
qed

lemma length_print_entry:
  "e_pos e < 16 ^ 9 \<Longrightarrow> e_size e < 16 ^ 9 \<Longrightarrow> length (print_entry e) = 29"
  using length_hex [of "e_pos e" 9] length_hex [of "e_size e" 9]
  by (simp add: print_entry_def zero_pad_def)

lemma utf8_len_le: "utf8_len s \<le> 2 * length s"
  by (induction s) (auto simp: utf8_len_def)

lemma sample_after_eq:
  "sample_after = clean good_env ((splice 8192 10240 Finished sample_map)\<lparr>dirty := True\<rparr>)"
proof -
  have "\<not> disowned (splice 8192 10240 Finished sample_map)"
    "last_flushed (splice 8192 10240 Finished sample_map) = 0"
    by (simp_all add: splice_def sample_map_def)
  then show ?thesis
    by (simp add: sample_after_def do_record_def record_range_def checked_add_def u64_max_def changed_def
        Let_def good_persist) (simp add: good_env_def FLUSH_INTERVAL_def)
qed

theorem records_survive_witness:
  "load sample_ph (\<lambda>_ bs. bs) (9, ReadFine) (snd (do_record (sample_map, sample_fs) (good_env, 8192, 2048, Finished)))
     (path sample_map) = Inr (sample_after\<lparr>last_flushed := 9\<rparr>) \<and>
   look (entries sample_after) 9000 = Some Finished"
proof -
  let ?f = "snd (do_record (sample_map, sample_fs) (good_env, 8192, 2048, Finished))"
  have disk: "on_disk sample_map sample_fs" by (simp add: on_disk_def sample_fs_def)
  have op: "\<forall>op \<in> set [(good_env, 8192, 2048, Finished)]. op_ok (total_size sample_map) op"
    by (simp add: op_ok_def SECTOR_def sample_map_def)
  have run: "foldl do_record (sample_map, sample_fs) [(good_env, 8192, 2048, Finished)] = (sample_after, ?f)"
    by (simp add: sample_after_def)
  have own: "\<not> dirty sample_after" "\<not> disowned sample_after"
    by (simp_all add: sample_after_eq clean_def splice_def sample_map_def)
  then have fl: "flush good_env sample_after ?f = (Inr (), sample_after, ?f)" by (simp add: flush_def)
  have es: "entries (splice 8192 10240 Finished sample_map) =
      [entry 0 10240 Finished, entry 10240 2048 NonTrimmed, entry 12288 4096 NonTried]"
    by (simp add: splice_def sample_map_def splice_entries_def splice_lo_def splice_hi_def
        splice_merged_def splice_window_def partition_point_def run_end_def sat_add_def u64_max_def
        coalesce_def push_coalesced_def Let_def)
  have "length (print_map sample_after) =
      length (print_map (sample_map\<lparr>entries := entries (splice 8192 10240 Finished sample_map)\<rparr>))"
    by (simp add: sample_after_eq clean_def print_map_def map_lines_def header_lines_def splice_def)
  also have "\<dots> < 1000" unfolding es
    using length_hex [of 0 1] length_hex [of 14336 4]
    by (simp add: sample_map_def print_map_def map_lines_def header_lines_def text_of_def
        length_print_entry print_range_def)
  finally have short: "length (print_map sample_after) < 1000" .
  have len: "utf8_len (print_map sample_after) \<le> MAX_MAPFILE_BYTES"
    using utf8_len_le [of "print_map sample_after"] short by (simp add: MAX_MAPFILE_BYTES_def)
  from records_survive [OF sample_inv(1) disk sample_inv(2) sample_ph_ok op run fl own(2) len,
      of "\<lambda>_ bs. bs" 9]
  show ?thesis by (simp add: mark_op_eq)
qed

text \<open>
The identity check refuses a resume exactly when the disc hashes, or the Volume ID fingerprints,
are known on both sides and differ, or when keys were proven and none of them is one the file names.
\<close>

theorem check_identity_exact:
  "check_identity m d = Inr () \<longleftrightarrow>
     (\<forall>a b. disc_hash m = Some a \<longrightarrow> d_disc_hash d = Some b \<longrightarrow> a = b) \<and>
     (\<forall>a b. vidfp m = Some a \<longrightarrow> d_vidfp d = Some b \<longrightarrow> a = b) \<and>
     (legacy_keyfps m = [] \<or> proven d = [] \<or> set (legacy_keyfps m) \<inter> set (proven d) \<noteq> {})"
  by (auto simp: check_identity_def differ_def list_ex_iff split: option.splits)

theorem check_identity_exact_witness:
  "check_identity (sample_map\<lparr>disc_hash := Some ''aa''\<rparr>)
     \<lparr>d_disc_hash = Some ''bb'', d_vidfp = None, proven = []\<rparr> \<noteq> Inr ()"
  using check_identity_exact [of "sample_map\<lparr>disc_hash := Some ''aa''\<rparr>"
      "\<lparr>d_disc_hash = Some ''bb'', d_vidfp = None, proven = []\<rparr>"] by simp

end
