(* ===== verification/ReadError.thy ===== *)
theory ReadError
  imports Prelude
begin

text \<open>
  What Pass 1 does when a sector read fails: the context \<open>ReadCtx\<close>, its bookkeeping on a good read and
  \<open>handle_read_error\<close> (\<open>src/src/recovery/read_error.rs\<close>), with the error classes of
  \<open>src/src/recovery/mod.rs\<close>.

  An error of the disc library is what the engine sees of it: the variant it matches on and the
  answers of the methods it calls. Sense keys the engine compares with are constructors. Time stamps
  are naturals. The family of a sense key is computed by the library and only logged, so the context
  keeps the key itself.
\<close>

subsection \<open>Errors of the disc library\<close>

datatype err_kind =
  ScsiError | DiscRead | IoError | DeviceNotFound | NoDiscKey | WholeDiscKeyMissing | Halted
  | OtherError nat

datatype sense_key = KeyRecovered | KeyNotReady | KeyHardware | KeyIllegalRequest | KeyOther nat

record Sense =
  s_key :: sense_key
  s_unit_attention :: bool

record lib_error =
  e_kind :: err_kind
  scsi_sense :: "Sense option"
  is_scsi_transport_failure :: bool
  is_bridge_degradation :: bool
  scsi_status :: nat

definition is_read_fault :: "lib_error \<Rightarrow> bool" where
  "is_read_fault e = (e_kind e \<in> {ScsiError, DiscRead, IoError, DeviceNotFound})"

definition is_key_stop :: "lib_error \<Rightarrow> bool" where
  "is_key_stop e = (e_kind e = NoDiscKey \<or> e_kind e = WholeDiscKeyMissing)"

definition is_damage_candidate :: "lib_error \<Rightarrow> bool" where
  "is_damage_candidate e = (\<not> is_key_stop e \<and> (is_read_fault e \<or> e_kind e = Halted))"

text \<open>
  The error a pass ends with: the library's own, or a \<open>DiscRead\<close> the engine builds (the sector, the
  status if one was reported, the sense).
\<close>

datatype pass_error =
  LibError lib_error
  | NewDiscRead nat "nat option" "Sense option"

definition classify_pass_abort :: "lib_error \<Rightarrow> nat \<Rightarrow> pass_error" where
  "classify_pass_abort e block_lba =
     (if e_kind e = DiscRead then LibError e
      else if is_read_fault e then NewDiscRead block_lba (Some (scsi_status e)) (scsi_sense e)
      else LibError e)"

subsection \<open>The context\<close>

record ReadCtx =
  batch :: nat
  consecutive_good :: nat
  consecutive_failures :: nat
  consecutive_outer_failures :: nat
  damage_window :: "bool list"
  damage_window_max :: nat
  damage_threshold_pct :: nat
  fast_jump_threshold :: nat
  jump_multiplier :: nat
  not_ready_retries :: nat
  bridge_degradation_count :: nat
  patch_pass :: bool
  wedge_count :: nat
  last_success_at :: "nat option"
  last_error_at :: "nat option"
  last_error_family :: "sense_key option option"
  total_errors :: nat
  total_reads_ok :: nat
  zones_entered :: nat
  jumps_taken :: nat
  in_damage_zone :: bool
  long_pause_escalations :: nat
  marginal_recovered :: nat

definition for_sweep :: "nat \<Rightarrow> ReadCtx" where
  "for_sweep b =
     \<lparr>batch = b, consecutive_good = 0, consecutive_failures = 0, consecutive_outer_failures = 0,
      damage_window = [], damage_window_max = 16, damage_threshold_pct = 12, fast_jump_threshold = 1,
      jump_multiplier = 1, not_ready_retries = 0, bridge_degradation_count = 0, patch_pass = False,
      wedge_count = 0, last_success_at = None, last_error_at = None, last_error_family = None,
      total_errors = 0, total_reads_ok = 0, zones_entered = 0, jumps_taken = 0, in_damage_zone = False,
      long_pause_escalations = 0, marginal_recovered = 0\<rparr>"

text \<open>\<open>push\<close> on the bounded window: the oldest entry goes when it is over its limit.\<close>

definition window_push :: "nat \<Rightarrow> bool list \<Rightarrow> bool \<Rightarrow> bool list" where
  "window_push mx w x = (let w' = w @ [x] in if length w' > mx then tl w' else w')"

definition on_success :: "nat \<Rightarrow> ReadCtx \<Rightarrow> ReadCtx" where
  "on_success now ctx =
     (let c = ctx\<lparr>consecutive_good := consecutive_good ctx + 1, consecutive_failures := 0,
                  not_ready_retries := 0, wedge_count := 0, bridge_degradation_count := 0,
                  consecutive_outer_failures := 0,
                  damage_window := window_push (damage_window_max ctx) (damage_window ctx) True,
                  total_reads_ok := total_reads_ok ctx + 1, last_success_at := Some now\<rparr>
      in if in_damage_zone c \<and> consecutive_good c \<ge> damage_window_max c
         then c\<lparr>in_damage_zone := False, last_error_family := None, jump_multiplier := 1\<rparr>
         else c)"

record PassSummary =
  ps_total_reads_ok :: nat
  ps_total_errors :: nat
  ps_zones_entered :: nat
  ps_jumps_taken :: nat
  ps_long_pause_escalations :: nat
  ps_marginal_recovered :: nat

definition pass_summary :: "ReadCtx \<Rightarrow> PassSummary" where
  "pass_summary c =
     \<lparr>ps_total_reads_ok = total_reads_ok c, ps_total_errors = total_errors c,
      ps_zones_entered = zones_entered c, ps_jumps_taken = jumps_taken c,
      ps_long_pause_escalations = long_pause_escalations c,
      ps_marginal_recovered = marginal_recovered c\<rparr>"

subsection \<open>Policy constants\<close>

definition FAIL_PAUSE_SECS :: nat where "FAIL_PAUSE_SECS = 5"
definition ZONE_ENTRY_COOLDOWN_SECS :: nat where "ZONE_ENTRY_COOLDOWN_SECS = 30"
definition CONSECUTIVE_FAIL_LONG_PAUSE_SECS :: nat where "CONSECUTIVE_FAIL_LONG_PAUSE_SECS = 5"
definition CONSECUTIVE_FAIL_LONG_PAUSE_THRESHOLD :: nat where "CONSECUTIVE_FAIL_LONG_PAUSE_THRESHOLD = 10"
definition POST_JUMP_EXTRA_PAUSE_SECS :: nat where "POST_JUMP_EXTRA_PAUSE_SECS = 2"
definition NOT_READY_PAUSE_SECS :: nat where "NOT_READY_PAUSE_SECS = 3"
definition NOT_READY_MAX_RETRIES :: nat where "NOT_READY_MAX_RETRIES = 3"
definition BRIDGE_DEGRADATION_PAUSE_SECS :: nat where "BRIDGE_DEGRADATION_PAUSE_SECS = 15"
definition BRIDGE_DEGRADATION_MAX_RETRIES :: nat where "BRIDGE_DEGRADATION_MAX_RETRIES = 5"
definition JUMP_BASE_SECTORS :: nat where "JUMP_BASE_SECTORS = 1024"
definition MAX_JUMP_MULTIPLIER :: nat where "MAX_JUMP_MULTIPLIER = 64"
definition WEDGE_JUMP_SECTORS :: nat where "WEDGE_JUMP_SECTORS = 524288"
definition WEDGE_PAUSE_SECS :: nat where "WEDGE_PAUSE_SECS = 30"
definition WEDGE_ABORT_THRESHOLD :: nat where "WEDGE_ABORT_THRESHOLD = 16"
definition WEDGE_PASS_N_SKIP_SECTORS :: nat where "WEDGE_PASS_N_SKIP_SECTORS = 64"

lemmas policy_defs = FAIL_PAUSE_SECS_def ZONE_ENTRY_COOLDOWN_SECS_def CONSECUTIVE_FAIL_LONG_PAUSE_SECS_def
  CONSECUTIVE_FAIL_LONG_PAUSE_THRESHOLD_def POST_JUMP_EXTRA_PAUSE_SECS_def NOT_READY_PAUSE_SECS_def
  NOT_READY_MAX_RETRIES_def BRIDGE_DEGRADATION_PAUSE_SECS_def BRIDGE_DEGRADATION_MAX_RETRIES_def
  JUMP_BASE_SECTORS_def MAX_JUMP_MULTIPLIER_def WEDGE_JUMP_SECTORS_def WEDGE_PAUSE_SECS_def
  WEDGE_ABORT_THRESHOLD_def WEDGE_PASS_N_SKIP_SECTORS_def

subsection \<open>The handler\<close>

datatype ReadAction = Retry nat | SkipBlock nat | JumpAhead nat nat | AbortPass

definition sense_key_of :: "lib_error \<Rightarrow> sense_key" where
  "sense_key_of e = (case scsi_sense e of Some s \<Rightarrow> s_key s | None \<Rightarrow> KeyOther 0)"

definition is_recovered :: "lib_error \<Rightarrow> bool" where
  "is_recovered e = (map_option s_key (scsi_sense e) = Some KeyRecovered)"

definition is_unit_attention :: "lib_error \<Rightarrow> bool" where
  "is_unit_attention e = (case scsi_sense e of Some s \<Rightarrow> s_unit_attention s | None \<Rightarrow> False)"

text \<open>The counters that move for every error but a key stop.\<close>

definition note_error :: "nat \<Rightarrow> lib_error \<Rightarrow> ReadCtx \<Rightarrow> ReadCtx" where
  "note_error now e ctx =
     ctx\<lparr>consecutive_failures := consecutive_failures ctx + 1, consecutive_good := 0,
         consecutive_outer_failures := consecutive_outer_failures ctx + 1,
         total_errors := total_errors ctx + 1, last_error_at := Some now,
         last_error_family := Some (map_option s_key (scsi_sense e))\<rparr>"

text \<open>Case 4 of the source: the firmware-wedge family.\<close>

definition wedge_step :: "ReadCtx \<Rightarrow> ReadCtx \<times> ReadAction" where
  "wedge_step ctx =
     (let c = ctx\<lparr>wedge_count := wedge_count ctx + 1\<rparr>
      in if wedge_count c \<ge> WEDGE_ABORT_THRESHOLD then (c, AbortPass)
         else (c\<lparr>jumps_taken := jumps_taken c + 1\<rparr>,
               JumpAhead (if patch_pass c then WEDGE_PASS_N_SKIP_SECTORS else WEDGE_JUMP_SECTORS)
                 WEDGE_PAUSE_SECS))"

definition recovered_step :: "ReadCtx \<Rightarrow> ReadCtx \<times> ReadAction" where
  "recovered_step ctx = (ctx\<lparr>marginal_recovered := marginal_recovered ctx + 1\<rparr>, SkipBlock FAIL_PAUSE_SECS)"

definition bad_pct :: "bool list \<Rightarrow> nat" where
  "bad_pct w = (if w = [] then 0 else length (filter Not w) * 100 div length w)"

text \<open>Cases 5 to 7: the damage window, the pause and the damage jump.\<close>

definition failure_step :: "bool \<Rightarrow> ReadCtx \<Rightarrow> ReadCtx \<times> ReadAction" where
  "failure_step zone_entry ctx =
     (let c = ctx\<lparr>damage_window := window_push (damage_window_max ctx) (damage_window ctx) False\<rparr>;
          long_streak = consecutive_failures c \<ge> CONSECUTIVE_FAIL_LONG_PAUSE_THRESHOLD;
          entry_pause = zone_entry \<and> \<not> patch_pass c;
          pause = (if entry_pause then ZONE_ENTRY_COOLDOWN_SECS
                   else if long_streak then CONSECUTIVE_FAIL_LONG_PAUSE_SECS
                   else FAIL_PAUSE_SECS);
          c = (if \<not> entry_pause \<and> long_streak
               then c\<lparr>long_pause_escalations := long_pause_escalations c + 1\<rparr> else c);
          fast_trigger = consecutive_outer_failures c \<ge> fast_jump_threshold c;
          window_trigger = length (damage_window c) \<ge> damage_window_max c \<and>
            bad_pct (damage_window c) \<ge> damage_threshold_pct c
      in if fast_trigger \<or> window_trigger
         then (let mult = min (jump_multiplier c) MAX_JUMP_MULTIPLIER;
                   sectors = sat_mul (sat_mul JUMP_BASE_SECTORS (batch c)) mult
               in (c\<lparr>jump_multiplier := min (sat_mul (jump_multiplier c) 2) MAX_JUMP_MULTIPLIER,
                     consecutive_outer_failures := 0, jumps_taken := jumps_taken c + 1\<rparr>,
                   JumpAhead sectors (pause + POST_JUMP_EXTRA_PAUSE_SECS)))
         else (c, SkipBlock pause))"

definition enter_zone :: "bool \<Rightarrow> ReadCtx \<Rightarrow> ReadCtx" where
  "enter_zone zone_entry ctx =
     (if zone_entry then ctx\<lparr>in_damage_zone := True, zones_entered := zones_entered ctx + 1\<rparr> else ctx)"

definition handle_read_error :: "nat \<Rightarrow> lib_error \<Rightarrow> ReadCtx \<Rightarrow> ReadCtx \<times> ReadAction" where
  "handle_read_error now e ctx =
     (if is_key_stop e then (ctx, AbortPass)
      else let c = note_error now e ctx; key = sense_key_of e in
        if is_scsi_transport_failure e then (c, AbortPass)
        else if is_unit_attention e then (c, AbortPass)
        else if is_bridge_degradation e \<and> bridge_degradation_count c < BRIDGE_DEGRADATION_MAX_RETRIES
        then (c\<lparr>bridge_degradation_count := bridge_degradation_count c + 1\<rparr>,
              Retry BRIDGE_DEGRADATION_PAUSE_SECS)
        else if key = KeyNotReady \<and> not_ready_retries c < NOT_READY_MAX_RETRIES
        then (c\<lparr>not_ready_retries := not_ready_retries c + 1\<rparr>, Retry NOT_READY_PAUSE_SECS)
        else let zone_entry = \<not> in_damage_zone c \<and> \<not> is_recovered e;
                 c = enter_zone zone_entry (c\<lparr>not_ready_retries := 0\<rparr>) in
          if key = KeyHardware \<or> key = KeyIllegalRequest then wedge_step c
          else if key = KeyRecovered then recovered_step c
          else failure_step zone_entry c)"

end
