(* ===== verification/Handoff.thy ===== *)
theory Handoff
  imports ReadError MapfileIO
begin

text \<open>
  The bounded hand-off from a pass's producer to its consumer thread and the error that fails a pass
  (\<open>src/src/recovery/mod.rs\<close>).

  The pipeline is the library's: a first-in first-out queue into the consumer. What one hand-off
  observes of it is the record \<open>PipeView\<close>, in the order the code asks.
\<close>

datatype try_result = TryOk | TryFull | TryDisconnected

record PipeView =
  v_failed :: bool
  v_try :: try_result
  v_sent :: bool
  v_cancelled :: bool
  v_failed_after :: bool
  v_retry :: try_result

datatype SendStall = StallHalted | ConsumerGone | Stalled

text \<open>
  The errors a pass ends with: the cause of an aborted read, a failed hand-off, or an error of the
  consumer (the image file or the map file).
\<close>

datatype pass_fail =
  ReadAborted pass_error
  | PipelineConsumerGone
  | PipelineJoinTimeout
  | HaltedError
  | FileError io_error

definition into_error :: "SendStall \<Rightarrow> pass_fail" where
  "into_error s =
     (case s of StallHalted \<Rightarrow> HaltedError | ConsumerGone \<Rightarrow> PipelineConsumerGone
      | Stalled \<Rightarrow> PipelineJoinTimeout)"

definition pass_error_of :: "SendStall \<Rightarrow> pass_fail option" where
  "pass_error_of s = (case s of StallHalted \<Rightarrow> None | stall \<Rightarrow> Some (into_error stall))"

definition send_bounded_within :: "PipeView \<Rightarrow> SendStall + unit" where
  "send_bounded_within v =
     (if v_failed v then Inl ConsumerGone
      else if v_try v = TryOk then Inr ()
      else if v_sent v then Inr ()
      else if v_cancelled v then Inl StallHalted
      else if v_failed_after v then Inl ConsumerGone
      else case v_retry v of
             TryOk \<Rightarrow> Inr ()
           | TryDisconnected \<Rightarrow> Inl ConsumerGone
           | TryFull \<Rightarrow> Inl Stalled)"

text \<open>The closure \<open>send\<close> of a pass: \<open>Inl None\<close> ends it as stopped, \<open>Inl (Some e)\<close> as failed.\<close>

definition send_item :: "PipeView \<Rightarrow> pass_fail option + unit" where
  "send_item v = (case send_bounded_within v of Inl s \<Rightarrow> Inl (pass_error_of s) | Inr u \<Rightarrow> Inr u)"

definition pass_failure :: "pass_fail \<Rightarrow> pass_fail + 'r \<Rightarrow> bool \<Rightarrow> pass_fail" where
  "pass_failure producer consumer consumer_failed =
     (case consumer of
        Inl cause \<Rightarrow> (if consumer_failed then cause else producer)
      | Inr _ \<Rightarrow> producer)"

text \<open>\<open>finish_bounded_disowning\<close>: a failed teardown revokes the map file.\<close>

definition finish_disowning :: "pass_fail + 'r \<Rightarrow> Mapfile \<Rightarrow> (pass_fail + 'r) \<times> Mapfile" where
  "finish_disowning r m = (case r of Inl _ \<Rightarrow> (r, m\<lparr>disowned := True\<rparr>) | Inr _ \<Rightarrow> (r, m))"

lemma send_item_ok:
  "send_item v = Inr () \<longleftrightarrow>
     \<not> v_failed v \<and> (v_try v = TryOk \<or> v_sent v \<or>
       (\<not> v_cancelled v \<and> \<not> v_failed_after v \<and> v_retry v = TryOk))"
  by (auto simp: send_item_def send_bounded_within_def split: try_result.splits)

text \<open>A hand-off that failed never blames the consumer when the operator pressed Stop.\<close>

lemma send_item_stop:
  "\<not> v_failed v \<Longrightarrow> v_cancelled v \<Longrightarrow> send_item v = Inr () \<or> send_item v = Inl None"
  by (auto simp: send_item_def send_bounded_within_def pass_error_of_def)

end
