(* ===== verification/ReadErrorInv.thy ===== *)
theory ReadErrorInv
  imports ReadError
begin

text \<open>
  The read-error policy of Pass 1 as a state machine: the contexts a pass can reach, their invariant,
  and the bounds it gives on retries, wedges and jumps.
\<close>

subsection \<open>Reachable contexts\<close>

text \<open>
  A pass starts with \<open>for_sweep\<close>, calls \<open>on_success\<close> after a good read and the handler after a failed
  one, and ends with the first \<open>AbortPass\<close>.
\<close>

inductive reach :: "nat \<Rightarrow> ReadCtx \<Rightarrow> bool" for b where
  start: "reach b (for_sweep b)"
| good: "reach b c \<Longrightarrow> reach b (on_success now c)"
| bad: "reach b c \<Longrightarrow> handle_read_error now e c = (c', a) \<Longrightarrow> a \<noteq> AbortPass \<Longrightarrow> reach b c'"

definition pow64 :: "nat set" where
  "pow64 = {1, 2, 4, 8, 16, 32, 64}"

definition ctx_ok :: "nat \<Rightarrow> ReadCtx \<Rightarrow> bool" where
  "ctx_ok b c =
     (batch c = b \<and> damage_window_max c = 16 \<and> damage_threshold_pct c = 12 \<and> fast_jump_threshold c = 1 \<and>
      \<not> patch_pass c \<and> length (damage_window c) \<le> 16 \<and> jump_multiplier c \<in> pow64 \<and>
      not_ready_retries c \<le> 3 \<and> bridge_degradation_count c \<le> 5 \<and> wedge_count c < 16 \<and>
      (\<not> in_damage_zone c \<longrightarrow> jump_multiplier c = 1) \<and> (in_damage_zone c \<longrightarrow> consecutive_good c < 16) \<and>
      jumps_taken c \<le> total_errors c \<and> zones_entered c \<le> total_errors c)"

lemma ctx_ok_start: "ctx_ok b (for_sweep b)"
  by (simp add: ctx_ok_def for_sweep_def pow64_def)

lemma window_push_length: "length w \<le> mx \<Longrightarrow> length (window_push mx w x) \<le> mx"
  by (simp add: window_push_def Let_def)

lemma ctx_ok_success: "ctx_ok b c \<Longrightarrow> ctx_ok b (on_success now c)"
  using window_push_length [of "damage_window c" 16 True]
  by (auto simp: ctx_ok_def on_success_def Let_def pow64_def)

lemma pow64_image: "pow64 = (\<lambda>k. 2 ^ k) ` {..6 :: nat}"
proof -
  have "{..6 :: nat} = {0, 1, 2, 3, 4, 5, 6}" by auto
  then show ?thesis by (simp add: pow64_def)
qed

lemma pow64_double: "m \<in> pow64 \<Longrightarrow> min (sat_mul m 2) 64 \<in> pow64"
  by (auto simp: pow64_def sat_mul_def u64_max_def)

text \<open>The handler, one rule per branch that goes on.\<close>

definition aborts_at_once :: "lib_error \<Rightarrow> bool" where
  "aborts_at_once e = (is_key_stop e \<or> is_scsi_transport_failure e \<or> is_unit_attention e)"

definition retries_bridge :: "lib_error \<Rightarrow> ReadCtx \<Rightarrow> bool" where
  "retries_bridge e c = (is_bridge_degradation e \<and> bridge_degradation_count c < 5)"

definition retries_not_ready :: "lib_error \<Rightarrow> ReadCtx \<Rightarrow> bool" where
  "retries_not_ready e c = (sense_key_of e = KeyNotReady \<and> not_ready_retries c < 3)"

definition is_wedge :: "lib_error \<Rightarrow> bool" where
  "is_wedge e = (sense_key_of e = KeyHardware \<or> sense_key_of e = KeyIllegalRequest)"

lemma note_error_fields [simp]:
  "batch (note_error now e c) = batch c" "damage_window (note_error now e c) = damage_window c"
  "damage_window_max (note_error now e c) = damage_window_max c"
  "damage_threshold_pct (note_error now e c) = damage_threshold_pct c"
  "fast_jump_threshold (note_error now e c) = fast_jump_threshold c"
  "jump_multiplier (note_error now e c) = jump_multiplier c"
  "not_ready_retries (note_error now e c) = not_ready_retries c"
  "bridge_degradation_count (note_error now e c) = bridge_degradation_count c"
  "patch_pass (note_error now e c) = patch_pass c" "wedge_count (note_error now e c) = wedge_count c"
  "in_damage_zone (note_error now e c) = in_damage_zone c"
  "zones_entered (note_error now e c) = zones_entered c" "jumps_taken (note_error now e c) = jumps_taken c"
  "total_errors (note_error now e c) = total_errors c + 1"
  "consecutive_good (note_error now e c) = 0"
  "consecutive_failures (note_error now e c) = consecutive_failures c + 1"
  "consecutive_outer_failures (note_error now e c) = consecutive_outer_failures c + 1"
  by (simp_all add: note_error_def)

definition zone_ctx :: "nat \<Rightarrow> lib_error \<Rightarrow> ReadCtx \<Rightarrow> ReadCtx" where
  "zone_ctx now e c =
     enter_zone (\<not> in_damage_zone c \<and> \<not> is_recovered e) ((note_error now e c)\<lparr>not_ready_retries := 0\<rparr>)"

lemma handle_cases:
  obtains (abort) "aborts_at_once e" "snd (handle_read_error now e c) = AbortPass"
    | (bridge) "\<not> aborts_at_once e" "retries_bridge e c"
      "handle_read_error now e c =
        ((note_error now e c)\<lparr>bridge_degradation_count := bridge_degradation_count c + 1\<rparr>, Retry 15)"
    | (not_ready) "\<not> aborts_at_once e" "\<not> retries_bridge e c" "retries_not_ready e c"
      "handle_read_error now e c =
        ((note_error now e c)\<lparr>not_ready_retries := not_ready_retries c + 1\<rparr>, Retry 3)"
    | (wedge) "\<not> aborts_at_once e" "\<not> retries_bridge e c" "\<not> retries_not_ready e c" "is_wedge e"
      "handle_read_error now e c = wedge_step (zone_ctx now e c)"
    | (recovered) "\<not> aborts_at_once e" "\<not> retries_bridge e c" "\<not> retries_not_ready e c" "\<not> is_wedge e"
      "is_recovered e" "handle_read_error now e c = recovered_step (zone_ctx now e c)"
    | (failure) "\<not> aborts_at_once e" "\<not> retries_bridge e c" "\<not> retries_not_ready e c" "\<not> is_wedge e"
      "\<not> is_recovered e"
      "handle_read_error now e c = failure_step (\<not> in_damage_zone c) (zone_ctx now e c)"
proof -
  have rec: "is_recovered e = (sense_key_of e = KeyRecovered)"
    by (auto simp: is_recovered_def sense_key_of_def split: option.splits)
  show thesis
  proof (cases "aborts_at_once e")
    case True
    then show thesis by (intro abort) (auto simp: aborts_at_once_def handle_read_error_def Let_def)
  next
    case no: False
    show thesis
    proof (cases "retries_bridge e c")
      case True
      then show thesis using no
        by (intro bridge) (auto simp: aborts_at_once_def retries_bridge_def handle_read_error_def Let_def policy_defs)
    next
      case nb: False
      show thesis
      proof (cases "retries_not_ready e c")
        case True
        then show thesis using no nb
          by (intro not_ready)
            (auto simp: aborts_at_once_def retries_bridge_def retries_not_ready_def handle_read_error_def Let_def policy_defs)
      next
        case nn: False
        have eq: "handle_read_error now e c =
            (if is_wedge e then wedge_step (zone_ctx now e c)
             else if is_recovered e then recovered_step (zone_ctx now e c)
             else failure_step (\<not> in_damage_zone c \<and> \<not> is_recovered e) (zone_ctx now e c))"
        proof -
          have f: "\<not> is_key_stop e" "\<not> is_scsi_transport_failure e" "\<not> is_unit_attention e"
            "\<not> (is_bridge_degradation e \<and> bridge_degradation_count c < BRIDGE_DEGRADATION_MAX_RETRIES)"
            "\<not> (sense_key_of e = KeyNotReady \<and> not_ready_retries c < NOT_READY_MAX_RETRIES)"
            using no nb nn
            by (auto simp: aborts_at_once_def retries_bridge_def retries_not_ready_def policy_defs)
          show ?thesis
            unfolding handle_read_error_def Let_def zone_ctx_def note_error_fields
            by (simp only: f if_False rec is_wedge_def)
        qed
        show thesis
        proof (cases "is_wedge e")
          case True
          then show thesis using wedge [OF no nb nn] eq by simp
        next
          case w: False
          show thesis using recovered [OF no nb nn w] failure [OF no nb nn w] eq w
            by (cases "is_recovered e") simp_all
        qed
      qed
    qed
  qed
qed

lemma zone_ctx_fields [simp]:
  "batch (zone_ctx now e c) = batch c" "damage_window (zone_ctx now e c) = damage_window c"
  "damage_window_max (zone_ctx now e c) = damage_window_max c"
  "damage_threshold_pct (zone_ctx now e c) = damage_threshold_pct c"
  "fast_jump_threshold (zone_ctx now e c) = fast_jump_threshold c"
  "jump_multiplier (zone_ctx now e c) = jump_multiplier c"
  "not_ready_retries (zone_ctx now e c) = 0"
  "bridge_degradation_count (zone_ctx now e c) = bridge_degradation_count c"
  "patch_pass (zone_ctx now e c) = patch_pass c" "wedge_count (zone_ctx now e c) = wedge_count c"
  "in_damage_zone (zone_ctx now e c) = (in_damage_zone c \<or> \<not> is_recovered e)"
  "jumps_taken (zone_ctx now e c) = jumps_taken c"
  "total_errors (zone_ctx now e c) = total_errors c + 1"
  "consecutive_good (zone_ctx now e c) = 0"
  "consecutive_failures (zone_ctx now e c) = consecutive_failures c + 1"
  "consecutive_outer_failures (zone_ctx now e c) = consecutive_outer_failures c + 1"
  by (auto simp: zone_ctx_def enter_zone_def)

lemma zone_ctx_zones: "zones_entered (zone_ctx now e c) \<le> zones_entered c + 1"
  by (simp add: zone_ctx_def enter_zone_def)

text \<open>In Pass 1 the fast trigger makes every plain failure a jump.\<close>

definition failure_pause :: "bool \<Rightarrow> nat" where
  "failure_pause zone_entry = (if zone_entry then 30 else 5)"

lemma failure_step_sweep:
  assumes "fast_jump_threshold c = 1" and "1 \<le> consecutive_outer_failures c" and "\<not> patch_pass c"
    and "jump_multiplier c \<in> pow64"
  shows "snd (failure_step ze c) =
      JumpAhead (sat_mul (sat_mul 1024 (batch c)) (jump_multiplier c)) (failure_pause ze + 2)"
    and "fst (failure_step ze c) =
      c\<lparr>damage_window := window_push (damage_window_max c) (damage_window c) False,
        long_pause_escalations := long_pause_escalations c +
          (if \<not> ze \<and> 10 \<le> consecutive_failures c then 1 else 0),
        jump_multiplier := min (sat_mul (jump_multiplier c) 2) 64, consecutive_outer_failures := 0,
        jumps_taken := jumps_taken c + 1\<rparr>"
  using assms by (auto simp: failure_step_def Let_def policy_defs failure_pause_def pow64_def)

lemma ctx_ok_handle:
  assumes "ctx_ok b c" and "handle_read_error now e c = (c', a)" and "a \<noteq> AbortPass"
  shows "ctx_ok b c'"
proof (cases rule: handle_cases [of e now c])
  case abort
  then show ?thesis using assms by simp
next
  case bridge
  then show ?thesis using assms by (auto simp: ctx_ok_def retries_bridge_def)
next
  case not_ready
  then show ?thesis using assms by (auto simp: ctx_ok_def retries_not_ready_def)
next
  case wedge
  then have "c' = (zone_ctx now e c)\<lparr>wedge_count := wedge_count c + 1, jumps_taken := jumps_taken c + 1\<rparr>"
    "wedge_count c + 1 < 16" "\<not> is_recovered e"
    using assms(2,3)
    by (auto simp: wedge_step_def Let_def policy_defs is_wedge_def is_recovered_def sense_key_of_def
        split: if_splits option.splits)
  then show ?thesis using assms(1) zone_ctx_zones [of now e c] by (auto simp: ctx_ok_def)
next
  case recovered
  then show ?thesis using assms zone_ctx_zones [of now e c] by (auto simp: ctx_ok_def recovered_step_def)
next
  case failure
  have pre: "fast_jump_threshold (zone_ctx now e c) = 1" "1 \<le> consecutive_outer_failures (zone_ctx now e c)"
    "\<not> patch_pass (zone_ctx now e c)" "jump_multiplier (zone_ctx now e c) \<in> pow64"
    using assms(1) by (auto simp: ctx_ok_def)
  have "c' = fst (failure_step (\<not> in_damage_zone c) (zone_ctx now e c))"
    using failure(6) assms(2) by (metis fst_conv)
  note c' = this [unfolded failure_step_sweep(2) [OF pre]]
  show ?thesis
    using assms(1) failure(5) zone_ctx_zones [of now e c] pow64_double [of "jump_multiplier c"]
      window_push_length [of "damage_window c" 16 False]
    by (auto simp: ctx_ok_def c')
qed

lemma reach_ok: "reach b c \<Longrightarrow> ctx_ok b c"
proof (induction rule: reach.induct)
  case start
  show ?case by (rule ctx_ok_start)
next
  case (good c now)
  then show ?case by (rule_tac ctx_ok_success)
next
  case (bad c now e c' a)
  then show ?case using ctx_ok_handle by blast
qed

subsection \<open>Runs of errors and of good reads\<close>

fun actions :: "ReadCtx \<Rightarrow> (nat \<times> lib_error) list \<Rightarrow> ReadAction list" where
  "actions c [] = []"
| "actions c ((now, e) # es) =
     (case handle_read_error now e c of (c', a) \<Rightarrow> a # actions c' es)"

definition good_reads :: "ReadCtx \<Rightarrow> nat list \<Rightarrow> ReadCtx" where
  "good_reads c ts = foldl (\<lambda>c t. on_success t c) c ts"

definition retry_budget :: "ReadCtx \<Rightarrow> nat" where
  "retry_budget c = (5 - bridge_degradation_count c) + (3 - not_ready_retries c)"

fun is_retry :: "ReadAction \<Rightarrow> bool" where
  "is_retry (Retry _) = True"
| "is_retry _ = False"

lemma retry_uses_budget:
  assumes "handle_read_error now e c = (c', a)" and "is_retry a"
  shows "retry_budget c = Suc (retry_budget c')"
proof (cases rule: handle_cases [of e now c])
  case abort
  then show ?thesis using assms by auto
next
  case bridge
  then show ?thesis using assms by (auto simp: retries_bridge_def retry_budget_def)
next
  case not_ready
  then show ?thesis using assms by (auto simp: retries_not_ready_def retry_budget_def)
next
  case wedge
  then show ?thesis using assms by (auto simp: wedge_step_def Let_def split: if_splits)
next
  case recovered
  then show ?thesis using assms by (auto simp: recovered_step_def)
next
  case failure
  then show ?thesis using assms by (auto simp: failure_step_def Let_def split: if_splits)
qed

lemma retries_bounded: "\<forall>a \<in> set (actions c es). is_retry a \<Longrightarrow> length es \<le> retry_budget c"
proof (induction c es rule: actions.induct)
  case (2 c now e es)
  obtain c' a where h: "handle_read_error now e c = (c', a)" by fastforce
  then show ?case using 2 retry_uses_budget [OF h] by auto
qed simp

definition plain_wedge :: "nat \<times> lib_error \<Rightarrow> bool" where
  "plain_wedge x = (is_wedge (snd x) \<and> \<not> aborts_at_once (snd x) \<and> \<not> is_bridge_degradation (snd x))"

lemma plain_wedge_step:
  assumes "plain_wedge (now, e)"
  shows "handle_read_error now e c = wedge_step (zone_ctx now e c)"
  using assms
  by (cases rule: handle_cases [of e now c])
    (auto simp: plain_wedge_def retries_bridge_def retries_not_ready_def is_wedge_def is_recovered_def)

lemma wedge_run:
  "\<forall>x \<in> set es. plain_wedge x \<Longrightarrow> \<not> patch_pass c \<Longrightarrow> wedge_count c + length es = 16 \<Longrightarrow> es \<noteq> [] \<Longrightarrow>
     actions c es = replicate (length es - 1) (JumpAhead 524288 30) @ [AbortPass]"
proof (induction c es rule: actions.induct)
  case (2 c now e es)
  have h: "handle_read_error now e c = wedge_step (zone_ctx now e c)"
    using 2(2) by (intro plain_wedge_step) simp
  show ?case
  proof (cases es)
    case Nil
    then show ?thesis using 2(2-4) h by (simp add: wedge_step_def Let_def policy_defs)
  next
    case (Cons x xs)
    let ?c' = "(zone_ctx now e c)\<lparr>wedge_count := wedge_count c + 1, jumps_taken := jumps_taken c + 1\<rparr>"
    have step: "handle_read_error now e c = (?c', JumpAhead 524288 30)"
      using 2(2-4) h Cons by (simp add: wedge_step_def Let_def policy_defs)
    have "actions ?c' es = replicate (length es - 1) (JumpAhead 524288 30) @ [AbortPass]"
      using 2(1) [OF step [symmetric]] 2(2-4) Cons by simp
    then show ?thesis using step Cons by simp
  qed
qed simp

lemma good_reads_zone:
  assumes "damage_window_max c = 16" and "in_damage_zone c \<Longrightarrow> consecutive_good c < 16"
    and "\<not> in_damage_zone c \<Longrightarrow> jump_multiplier c = 1"
  shows "in_damage_zone (good_reads c ts) = (in_damage_zone c \<and> consecutive_good c + length ts < 16) \<and>
    jump_multiplier (good_reads c ts) = (if in_damage_zone (good_reads c ts) then jump_multiplier c else 1) \<and>
    consecutive_good (good_reads c ts) = consecutive_good c + length ts \<and>
    (ts \<noteq> [] \<longrightarrow> wedge_count (good_reads c ts) = 0 \<and> retry_budget (good_reads c ts) = 8)"
  using assms
proof (induction ts arbitrary: c)
  case Nil
  then show ?case by (auto simp: good_reads_def)
next
  case (Cons t ts)
  let ?c = "on_success t c"
  have c: "damage_window_max ?c = 16" "in_damage_zone ?c \<Longrightarrow> consecutive_good ?c < 16"
    "\<not> in_damage_zone ?c \<Longrightarrow> jump_multiplier ?c = 1"
    "consecutive_good ?c = consecutive_good c + 1"
    "in_damage_zone ?c = (in_damage_zone c \<and> consecutive_good c + 1 < 16)"
    "wedge_count ?c = 0" "retry_budget ?c = 8"
    "jump_multiplier ?c = (if in_damage_zone ?c then jump_multiplier c else 1)"
    using Cons.prems by (auto simp: on_success_def Let_def retry_budget_def)
  have "good_reads c (t # ts) = good_reads ?c ts" by (simp add: good_reads_def)
  moreover have "ts = [] \<Longrightarrow> good_reads ?c ts = ?c" by (simp add: good_reads_def)
  ultimately show ?case using Cons.IH [OF c(1-3)] c(4-8) by (cases "ts = []") auto
qed

subsection \<open>Properties\<close>


definition medium_error :: lib_error where
  "medium_error =
     \<lparr>e_kind = ScsiError, scsi_sense = Some \<lparr>s_key = KeyOther 3, s_unit_attention = False\<rparr>,
      is_scsi_transport_failure = False, is_bridge_degradation = False, scsi_status = 2\<rparr>"

definition wedge_error :: lib_error where
  "wedge_error = medium_error\<lparr>scsi_sense := Some \<lparr>s_key = KeyHardware, s_unit_attention = False\<rparr>\<rparr>"

definition key_stop_error :: lib_error where
  "key_stop_error = medium_error\<lparr>e_kind := NoDiscKey, scsi_sense := None\<rparr>"


text \<open>
Retries are bounded: from any context, a run of failures that the handler answers with nothing but
retries has at most five bridge and three not-ready retries, eight in all.
\<close>

theorem retry_run_bounded:
  assumes "\<forall>a \<in> set (actions c es). is_retry a"
  shows "length es \<le> (5 - bridge_degradation_count c) + (3 - not_ready_retries c) \<and> length es \<le> 8"
  using retries_bounded [OF assms] by (simp add: retry_budget_def)

definition not_ready_error :: lib_error where
  "not_ready_error = medium_error\<lparr>scsi_sense := Some \<lparr>s_key = KeyNotReady, s_unit_attention = False\<rparr>\<rparr>"

theorem retry_run_bounded_witness:
  "actions (for_sweep 60) (replicate 3 (0, not_ready_error)) = [Retry 3, Retry 3, Retry 3] \<and>
   length (replicate 3 (0 :: nat, not_ready_error)) \<le> 8"
proof -
  have run: "actions (for_sweep 60) (replicate 3 (0, not_ready_error)) = [Retry 3, Retry 3, Retry 3]"
    by (simp add: numeral_3_eq_3 handle_read_error_def not_ready_error_def medium_error_def is_key_stop_def
        is_unit_attention_def sense_key_of_def note_error_def for_sweep_def Let_def policy_defs)
  then show ?thesis using retry_run_bounded [of "for_sweep 60" "replicate 3 (0, not_ready_error)"] by simp
qed

text \<open>
A stuck drive ends Pass 1: sixteen wedge errors in a row without a good read give fifteen jumps of
one gibibyte with a thirty second pause each, then the end of the pass; any good read in between
restores the full budget of wedges and retries.
\<close>

theorem wedge_streak_aborts:
  assumes "reach b c" and "wedge_count c = 0" and "length es = 16" and "\<forall>x \<in> set es. plain_wedge x"
  shows "actions c es = replicate 15 (JumpAhead 524288 30) @ [AbortPass] \<and>
    wedge_count (on_success now c) = 0 \<and> retry_budget (on_success now c) = 8"
proof -
  have "\<not> patch_pass c" using reach_ok [OF assms(1)] by (simp add: ctx_ok_def)
  moreover have "es \<noteq> []" using assms(3) by auto
  ultimately show ?thesis
    using wedge_run [OF assms(4)] assms(2,3) by (simp add: on_success_def Let_def retry_budget_def)
qed

theorem wedge_streak_aborts_witness:
  "actions (for_sweep 60) (replicate 16 (0, wedge_error)) = replicate 15 (JumpAhead 524288 30) @ [AbortPass]"
  using wedge_streak_aborts [OF start [of 60], of "replicate 16 (0, wedge_error)"]
  by (simp add: for_sweep_def plain_wedge_def wedge_error_def medium_error_def is_wedge_def sense_key_of_def
      aborts_at_once_def is_key_stop_def is_unit_attention_def)

text \<open>
Every plain read failure of a Pass 1 is answered by a damage jump of 1024 batches times a power of
two that starts at one in each zone, doubles with each jump and stops at 64; the first failure of a zone
pauses for 32 seconds, the others for 7.
\<close>

theorem damage_jump_doubles:
  assumes "reach b c" and "b \<le> 65535" and "handle_read_error now e c = (c', a)"
    and "\<not> aborts_at_once e" and "\<not> retries_bridge e c" and "\<not> retries_not_ready e c"
    and "\<not> is_wedge e" and "\<not> is_recovered e"
  shows "\<exists>k \<le> 6. jump_multiplier c = 2 ^ k \<and> (\<not> in_damage_zone c \<longrightarrow> k = 0) \<and>
    a = JumpAhead (1024 * b * 2 ^ k) (if in_damage_zone c then 7 else 32) \<and>
    jump_multiplier c' = 2 ^ min 6 (k + 1) \<and> in_damage_zone c'"
proof -
  have ok: "ctx_ok b c" by (rule reach_ok [OF assms(1)])
  have h: "handle_read_error now e c = failure_step (\<not> in_damage_zone c) (zone_ctx now e c)"
    using assms(4-8) by (cases rule: handle_cases [of e now c]) auto
  have pre: "fast_jump_threshold (zone_ctx now e c) = 1" "1 \<le> consecutive_outer_failures (zone_ctx now e c)"
    "\<not> patch_pass (zone_ctx now e c)" "jump_multiplier (zone_ctx now e c) \<in> pow64"
    using ok by (auto simp: ctx_ok_def)
  note f = failure_step_sweep [OF pre, of "\<not> in_damage_zone c"]
  have a: "a = JumpAhead (sat_mul (sat_mul 1024 b) (jump_multiplier c)) (if in_damage_zone c then 7 else 32)"
  proof -
    have "snd (failure_step (\<not> in_damage_zone c) (zone_ctx now e c)) = a"
      using h assms(3) by (metis snd_conv)
    moreover have "batch c = b" using ok by (simp add: ctx_ok_def)
    ultimately show ?thesis using f(1) by (cases "in_damage_zone c") (simp_all add: failure_pause_def)
  qed
  have c': "jump_multiplier c' = min (sat_mul (jump_multiplier c) 2) 64" "in_damage_zone c'"
  proof -
    have "c' = fst (failure_step (\<not> in_damage_zone c) (zone_ctx now e c))"
      using h assms(3) by (metis fst_conv)
    note this [unfolded f(2)]
    then show "jump_multiplier c' = min (sat_mul (jump_multiplier c) 2) 64" "in_damage_zone c'"
      using assms(8) by simp_all
  qed
  have "jump_multiplier c \<in> pow64" using ok by (simp add: ctx_ok_def)
  then obtain k where k: "k \<le> 6" "jump_multiplier c = 2 ^ k" unfolding pow64_image by blast
  have le: "(2 :: nat) ^ k \<le> 2 ^ 6" using k(1) by (intro power_increasing) auto
  have "1024 * b * 2 ^ k \<le> 1024 * 65535 * 2 ^ 6" using assms(2) le by (intro mult_le_mono) auto
  then have s: "sat_mul (sat_mul 1024 b) (2 ^ k) = 1024 * b * 2 ^ k"
    using assms(2) by (simp add: sat_mul_def u64_max_def)
  have m: "min (sat_mul (2 ^ k) 2) 64 = (2 :: nat) ^ min 6 (k + 1)"
  proof (cases "k = 6")
    case False
    then have "(2 :: nat) ^ (k + 1) \<le> 2 ^ 6" using k(1) by (intro power_increasing) auto
    moreover have "min 6 (k + 1) = k + 1" using False k(1) by simp
    ultimately show ?thesis by (simp add: sat_mul_def u64_max_def)
  qed (simp add: sat_mul_def u64_max_def)
  have "\<not> in_damage_zone c \<longrightarrow> k = 0" using ok k(2) by (auto simp: ctx_ok_def)
  then show ?thesis using k a s m c' by auto
qed

theorem damage_jump_doubles_witness:
  "snd (handle_read_error 7 medium_error (for_sweep 32)) = JumpAhead 32768 32"
proof -
  obtain c' a where h: "handle_read_error 7 medium_error (for_sweep 32) = (c', a)" by fastforce
  from damage_jump_doubles [OF start _ h] have "a = JumpAhead 32768 32"
    by (auto simp: medium_error_def aborts_at_once_def is_key_stop_def is_unit_attention_def
        retries_bridge_def retries_not_ready_def is_wedge_def is_recovered_def sense_key_of_def for_sweep_def)
  then show ?thesis using h by simp
qed

text \<open>
A damage zone ends after exactly sixteen good reads in a row, and the jump distance starts over
with it.
\<close>

theorem zone_exit_exactly:
  assumes "reach b c" and "in_damage_zone c"
  shows "in_damage_zone (good_reads c ts) = (consecutive_good c + length ts < 16) \<and>
    jump_multiplier (good_reads c ts) =
      (if consecutive_good c + length ts < 16 then jump_multiplier c else 1)"
proof -
  have ok: "ctx_ok b c" by (rule reach_ok [OF assms(1)])
  then have pre: "damage_window_max c = 16" "in_damage_zone c \<Longrightarrow> consecutive_good c < 16"
    "\<not> in_damage_zone c \<Longrightarrow> jump_multiplier c = 1" by (simp_all add: ctx_ok_def)
  show ?thesis using good_reads_zone [OF pre, of ts] assms(2) by simp
qed

theorem zone_exit_exactly_witness:
  "in_damage_zone (good_reads (fst (handle_read_error 7 medium_error (for_sweep 32))) (replicate 15 0)) \<and>
   \<not> in_damage_zone (good_reads (fst (handle_read_error 7 medium_error (for_sweep 32))) (replicate 16 0))"
proof -
  let ?c = "fst (handle_read_error 7 medium_error (for_sweep 32))"
  obtain c' a where h: "handle_read_error 7 medium_error (for_sweep 32) = (c', a)" by fastforce
  have e: "in_damage_zone ?c" "consecutive_good ?c = 0" "snd (handle_read_error 7 medium_error (for_sweep 32)) \<noteq> AbortPass"
    by (simp_all add: handle_read_error_def medium_error_def is_key_stop_def is_unit_attention_def
        sense_key_of_def is_recovered_def failure_step_def enter_zone_def note_error_def for_sweep_def
        Let_def policy_defs)
  then have "reach 32 ?c" using bad [OF start h] h by simp
  from zone_exit_exactly [OF this e(1)] show ?thesis using e(2) by simp
qed

end
