(* ===== verification/Sweep.thy ===== *)
theory Sweep
  imports Handoff ReadErrorInv
begin

text \<open>
  Pass 1: the producer loop of \<open>sweep_linked\<close> (\<open>src/src/recovery/mod.rs\<close>) and the consumer
  \<open>SweepSink\<close> (\<open>src/src/recovery/sweep.rs\<close>).

  The producer is a function of what one iteration of its loop observes, an \<open>IterEnv\<close>: the stop
  token, the clock, the reader, the hand-offs, the pause and the report. A run is given the list of
  these observations; a run whose list ends before its loop is still running. The queue between
  producer and consumer keeps the order, so the consumer is a fold over the items sent.
\<close>

subsection \<open>Work items\<close>

datatype work_item =
  Good u64 "nat list"
  | SkipFill u64 u64
  | GapFill u64 u64
  | StatsRequest

subsection \<open>The producer\<close>

record IterEnv =
  i_cancelled :: bool
  i_now :: nat
  i_read :: "nat \<Rightarrow> nat \<Rightarrow> bool \<Rightarrow> (lib_error + nat) \<times> (nat \<Rightarrow> nat)"
  i_send :: PipeView
  i_send_gap :: PipeView
  i_pause_cut :: bool
  i_stop_at_report :: bool

text \<open>
  What stays fixed over a pass: the batch in sectors, the mode, the library's unit grid
  (\<open>unit_block_end\<close>) and the error the engine builds for a short transfer, as the library sees it.
\<close>

record SweepCfg =
  c_batch :: nat
  c_skip_on_error :: bool
  c_unit_block_end :: "nat \<Rightarrow> nat \<Rightarrow> nat"
  c_short_read :: lib_error

datatype exit_reason = Stopped | Failed pass_fail

text \<open>The loop's variables; \<open>p_items\<close> and \<open>p_speeds\<close> log what was sent and set, the newest first.\<close>

record Producer =
  p_pos :: u64
  p_ctx :: ReadCtx
  p_items :: "work_item list"
  p_speeds :: "nat list"
  bytes_done :: u64
  bytes_good_done :: u64
  p_exit :: "exit_reason option"

definition MIN_SPEED :: nat where "MIN_SPEED = 0"
definition MAX_SPEED :: nat where "MAX_SPEED = 65535"

definition require_full_read :: "lib_error \<Rightarrow> nat \<Rightarrow> lib_error + nat \<Rightarrow> lib_error + nat" where
  "require_full_read short requested r =
     (case r of
        Inr n \<Rightarrow> (if n = requested then Inr n else Inl short)
      | Inl e \<Rightarrow> Inl e)"

definition block_bytes_at :: "SweepCfg \<Rightarrow> u64 \<Rightarrow> u64 \<Rightarrow> u64" where
  "block_bytes_at cfg pos region_end =
     (let bb = min (region_end - pos) (c_batch cfg * SECTOR)
      in if pos + bb < region_end
         then c_unit_block_end cfg (pos div SECTOR) ((pos + bb) div SECTOR) * SECTOR - pos
         else bb)"

text \<open>A hand-off, and the end of the loop when it fails.\<close>

definition p_send :: "PipeView \<Rightarrow> work_item \<Rightarrow> Producer \<Rightarrow> Producer" where
  "p_send v it s =
     (case send_item v of
        Inr _ \<Rightarrow> s\<lparr>p_items := it # p_items s\<rparr>
      | Inl None \<Rightarrow> s\<lparr>p_exit := Some Stopped\<rparr>
      | Inl (Some e) \<Rightarrow> s\<lparr>p_exit := Some (Failed e)\<rparr>)"

text \<open>\<open>then_run s f\<close> goes on with \<open>f\<close> unless the loop was left.\<close>

definition then_run :: "Producer \<Rightarrow> (Producer \<Rightarrow> Producer) \<Rightarrow> Producer" where
  "then_run s f = (if p_exit s = None then f s else s)"

definition p_pause :: "bool \<Rightarrow> nat \<Rightarrow> Producer \<Rightarrow> Producer" where
  "p_pause was_cut secs s = (if secs \<noteq> 0 \<and> was_cut then s\<lparr>p_exit := Some Stopped\<rparr> else s)"

definition good_read :: "IterEnv \<Rightarrow> nat list \<Rightarrow> Producer \<Rightarrow> Producer" where
  "good_read env buf s =
     (let was_in_zone = in_damage_zone (p_ctx s);
          c = on_success (i_now env) (p_ctx s);
          s = s\<lparr>p_ctx := c\<rparr>;
          s = (if was_in_zone \<and> \<not> in_damage_zone c then s\<lparr>p_speeds := MAX_SPEED # p_speeds s\<rparr> else s)
      in then_run (p_send (i_send env) (Good (p_pos s) buf) s) (\<lambda>s.
           s\<lparr>bytes_good_done := sat_add (bytes_good_done s) (length buf),
             bytes_done := sat_add (bytes_done s) (length buf),
             p_pos := p_pos s + length buf\<rparr>))"

definition skip_block :: "IterEnv \<Rightarrow> u64 \<Rightarrow> nat \<Rightarrow> Producer \<Rightarrow> Producer" where
  "skip_block env bb pause s =
     then_run (p_send (i_send env) (SkipFill (p_pos s) bb) s) (\<lambda>s.
     then_run (p_pause (i_pause_cut env) pause (s\<lparr>bytes_done := sat_add (bytes_done s) bb\<rparr>)) (\<lambda>s.
       s\<lparr>p_pos := p_pos s + bb\<rparr>))"

definition jump_pos :: "u64 \<Rightarrow> u64 \<Rightarrow> nat \<Rightarrow> u64 \<Rightarrow> u64" where
  "jump_pos pos bb sectors region_end =
     min (sat_add (sat_add pos bb) (sat_mul sectors SECTOR)) region_end"

text \<open>Entering damage slows the drive down: every Pass 1 jump follows the error that entered the zone.\<close>

definition slow_down :: "bool \<Rightarrow> Producer \<Rightarrow> Producer" where
  "slow_down was_in_zone s = (if \<not> was_in_zone then s\<lparr>p_speeds := MIN_SPEED # p_speeds s\<rparr> else s)"

definition jump_gap :: "IterEnv \<Rightarrow> u64 \<Rightarrow> u64 \<Rightarrow> nat \<Rightarrow> nat \<Rightarrow> Producer \<Rightarrow> Producer" where
  "jump_gap env bb region_end sectors pause s =
     (let jp = jump_pos (p_pos s) bb sectors region_end;
          gap_start = p_pos s + bb;
          gap_bytes = jp - gap_start
      in then_run
           (if gap_bytes > 0
            then then_run (p_send (i_send_gap env) (GapFill gap_start gap_bytes) s) (\<lambda>s.
                   s\<lparr>bytes_done := sat_add (bytes_done s) gap_bytes\<rparr>)
            else s)
           (\<lambda>s. p_pause (i_pause_cut env) pause (s\<lparr>p_pos := jp\<rparr>)))"

definition jump_ahead :: "IterEnv \<Rightarrow> u64 \<Rightarrow> bool \<Rightarrow> u64 \<Rightarrow> nat \<Rightarrow> nat \<Rightarrow> Producer \<Rightarrow> Producer" where
  "jump_ahead env bb was_in_zone region_end sectors pause s =
     then_run (p_send (i_send env) (SkipFill (p_pos s) bb) s) (\<lambda>s.
       jump_gap env bb region_end sectors pause
         (slow_down was_in_zone (s\<lparr>bytes_done := sat_add (bytes_done s) bb\<rparr>)))"

definition failed_read :: "IterEnv \<Rightarrow> lib_error \<Rightarrow> u64 \<Rightarrow> nat \<Rightarrow> u64 \<Rightarrow> Producer \<Rightarrow> Producer" where
  "failed_read env e bb block_lba region_end s =
     (let was_in_zone = in_damage_zone (p_ctx s)
      in case handle_read_error (i_now env) e (p_ctx s) of
           (c, action) \<Rightarrow>
             (let s = s\<lparr>p_ctx := c\<rparr>
              in case action of
                   Retry pause \<Rightarrow> p_pause (i_pause_cut env) pause s
                 | SkipBlock pause \<Rightarrow> skip_block env bb pause s
                 | JumpAhead sectors pause \<Rightarrow> jump_ahead env bb was_in_zone region_end sectors pause s
                 | AbortPass \<Rightarrow>
                     s\<lparr>p_exit := Some (Failed (ReadAborted (classify_pass_abort e block_lba)))\<rparr>))"

text \<open>One iteration of the inner loop, for a cursor before the region's end.\<close>

definition sweep_iter :: "SweepCfg \<Rightarrow> u64 \<Rightarrow> IterEnv \<Rightarrow> Producer \<Rightarrow> Producer" where
  "sweep_iter cfg region_end env s =
     (if i_cancelled env then s\<lparr>p_exit := Some Stopped\<rparr>
      else
        (let pos = p_pos s;
             bb = block_bytes_at cfg pos region_end;
             block_lba = (pos div SECTOR) mod (u32_max + 1);
             block_count = (bb div SECTOR) mod 65536;
             rd = i_read env block_lba block_count (\<not> c_skip_on_error cfg)
         in then_run
              (case require_full_read (c_short_read cfg) bb (fst rd) of
                 Inr _ \<Rightarrow> good_read env (map (snd rd) [0..<bb]) s
               | Inl e \<Rightarrow>
                   (if e_kind e = Halted then s\<lparr>p_exit := Some Stopped\<rparr>
                    else if \<not> c_skip_on_error cfg \<or> \<not> is_damage_candidate e
                    then s\<lparr>p_exit := Some (Failed (ReadAborted (classify_pass_abort e block_lba)))\<rparr>
                    else failed_read env e bb block_lba region_end s))
              (\<lambda>s. if i_stop_at_report env then s\<lparr>p_exit := Some Stopped\<rparr> else s)))"

text \<open>The inner loop: the observations left over go to the next region.\<close>

fun sweep_region :: "SweepCfg \<Rightarrow> u64 \<Rightarrow> IterEnv list \<Rightarrow> Producer \<Rightarrow> Producer \<times> IterEnv list" where
  "sweep_region cfg region_end [] s = (s, [])"
| "sweep_region cfg region_end (env # es) s =
     (if p_exit s \<noteq> None \<or> \<not> p_pos s < region_end then (s, env # es)
      else sweep_region cfg region_end es (sweep_iter cfg region_end env s))"

text \<open>The outer loop; the result says whether the loops ended.\<close>

definition region_over :: "u64 \<Rightarrow> Producer \<Rightarrow> bool" where
  "region_over region_end s = (p_exit s \<noteq> None \<or> \<not> p_pos s < region_end)"

fun sweep_regions :: "SweepCfg \<Rightarrow> range list \<Rightarrow> IterEnv list \<Rightarrow> Producer \<Rightarrow> Producer \<times> bool" where
  "sweep_regions cfg [] es s = (s, True)"
| "sweep_regions cfg (r # rs) es s =
     (let r' = snap_to_sectors (fst r) (snd r);
          region_end = fst r' + snd r'
      in case sweep_region cfg region_end es (s\<lparr>p_pos := fst r'\<rparr>) of
           (s', es') \<Rightarrow>
             (if \<not> region_over region_end s' then (s', False)
              else if p_exit s' \<noteq> None then (s', True)
              else sweep_regions cfg rs es' s'))"

definition producer_init :: "nat \<Rightarrow> Producer" where
  "producer_init b =
     \<lparr>p_pos = 0, p_ctx = for_sweep b, p_items = [], p_speeds = [MAX_SPEED], bytes_done = 0,
      bytes_good_done = 0, p_exit = None\<rparr>"

definition produce :: "SweepCfg \<Rightarrow> range list \<Rightarrow> IterEnv list \<Rightarrow> Producer \<times> bool" where
  "produce cfg regions es = sweep_regions cfg regions es (producer_init (c_batch cfg))"

end
