(* ===== verification/SweepSink.thy ===== *)
theory SweepSink
  imports MapfileIOInv Sweep
begin

text \<open>
  The consumer of Pass 1, \<open>SweepSink\<close> (\<open>src/src/recovery/sweep.rs\<close>): it writes each item into the
  image and records its span in the damage map. The part that writes recovered data is the same code
  as \<open>PatchSink\<close>'s in \<open>patch.rs\<close>.

  The image is a map from offsets to bytes, once as the next reader sees it and once as it is on
  stable storage after the last successful sync. What the file system does to one item (which write
  fails and after how many bytes, whether the owner is disowned meanwhile) is the argument \<open>SinkEnv\<close>.
\<close>

record ImageSink =
  sk_img :: "nat \<Rightarrow> nat"
  sk_dur :: "nat \<Rightarrow> nat"
  sk_map :: Mapfile
  sk_fs :: fs
  is_regular :: bool

record SinkEnv =
  k_disown :: bool
  k_seek_ok :: bool
  k_written :: nat
  k_sync_ok :: bool
  k_fill_disown :: "nat \<Rightarrow> bool"
  k_rec :: WriteEnv

datatype sink_flow = Continue | Stop

definition ZERO_CHUNK :: nat where "ZERO_CHUNK = 65536"

text \<open>A write of \<open>data\<close> at \<open>pos\<close>.\<close>

definition write_at :: "nat \<Rightarrow> nat list \<Rightarrow> (nat \<Rightarrow> nat) \<Rightarrow> nat \<Rightarrow> nat" where
  "write_at pos data img = (\<lambda>b. if pos \<le> b \<and> b < pos + length data then data ! (b - pos) else img b)"

definition image_write_failed :: "ImageSink \<Rightarrow> (pass_fail + sink_flow) \<times> ImageSink" where
  "image_write_failed s = (Inl (FileError (OsError 5)), s\<lparr>sk_map := (sk_map s)\<lparr>disowned := True\<rparr>\<rparr>)"

text \<open>\<open>map.record(...)?\<close> at the end of an item.\<close>

definition record_item ::
  "WriteEnv \<Rightarrow> u64 \<Rightarrow> u64 \<Rightarrow> SectorStatus \<Rightarrow> ImageSink \<Rightarrow> (pass_fail + sink_flow) \<times> ImageSink" where
  "record_item env p n st s =
     (case record_range env p n st (sk_map s) (sk_fs s) of
        (r, m, f) \<Rightarrow>
          (case r of Inl e \<Rightarrow> Inl (FileError e) | Inr _ \<Rightarrow> Inr Continue, s\<lparr>sk_map := m, sk_fs := f\<rparr>))"

definition apply_good ::
  "SinkEnv \<Rightarrow> u64 \<Rightarrow> nat list \<Rightarrow> ImageSink \<Rightarrow> (pass_fail + sink_flow) \<times> ImageSink" where
  "apply_good env p buf s =
     (if \<not> k_seek_ok env then image_write_failed s
      else if k_written env < length buf
      then image_write_failed (s\<lparr>sk_img := write_at p (take (k_written env) buf) (sk_img s)\<rparr>)
      else
        (let s = s\<lparr>sk_img := write_at p buf (sk_img s)\<rparr>
         in if persist_due (k_rec env) (sk_map s) \<and> is_regular s
            then (if \<not> k_sync_ok env then image_write_failed s
                  else record_item (k_rec env) p (length buf) Finished (s\<lparr>sk_dur := sk_img s\<rparr>))
            else record_item (k_rec env) p (length buf) Finished s))"

text \<open>The loop of a fill: zeros in chunks, a disown check before each. \<open>k_written\<close> is its byte budget.\<close>

datatype fill_end = FillDone | FillStopped | FillFailed

function fill_loop ::
  "SinkEnv \<Rightarrow> u64 \<Rightarrow> u64 \<Rightarrow> u64 \<Rightarrow> (nat \<Rightarrow> nat) \<Rightarrow> fill_end \<times> (nat \<Rightarrow> nat)" where
  "fill_loop env pos filled len img =
     (if filled < len
      then if k_fill_disown env filled then (FillStopped, img)
           else (let chunk = min (len - filled) ZERO_CHUNK
                 in if k_written env < filled + chunk
                    then (FillFailed, write_at (pos + filled) (replicate (k_written env - filled) 0) img)
                    else fill_loop env pos (filled + chunk) len
                           (write_at (pos + filled) (replicate chunk 0) img))
      else (FillDone, img))"
  by pat_completeness auto
termination
  by (relation "measure (\<lambda>(env, pos, filled, len, img). len - filled)") (auto simp: ZERO_CHUNK_def min_def)

declare fill_loop.simps [simp del]

definition apply_fill ::
  "SinkEnv \<Rightarrow> u64 \<Rightarrow> u64 \<Rightarrow> ImageSink \<Rightarrow> (pass_fail + sink_flow) \<times> ImageSink" where
  "apply_fill env p n s =
     (if \<not> k_seek_ok env then image_write_failed s
      else case fill_loop env p 0 n (sk_img s) of
             (FillStopped, img) \<Rightarrow> (Inr Stop, s\<lparr>sk_img := img, sk_map := (sk_map s)\<lparr>disowned := True\<rparr>\<rparr>)
           | (FillFailed, img) \<Rightarrow> image_write_failed (s\<lparr>sk_img := img\<rparr>)
           | (FillDone, img) \<Rightarrow> record_item (k_rec env) p n NonTrimmed (s\<lparr>sk_img := img\<rparr>))"

text \<open>\<open>apply\<close>. A \<open>StatsRequest\<close> only reads the map (\<open>stats\<close>, \<open>ranges_with\<close>).\<close>

definition sweep_apply ::
  "SinkEnv \<Rightarrow> work_item \<Rightarrow> ImageSink \<Rightarrow> (pass_fail + sink_flow) \<times> ImageSink" where
  "sweep_apply env it s0 =
     (let s = (if k_disown env then s0\<lparr>sk_map := (sk_map s0)\<lparr>disowned := True\<rparr>\<rparr> else s0)
      in if disowned (sk_map s) then (Inr Stop, s)
         else case it of
                Good p buf \<Rightarrow> apply_good env p buf s
              | SkipFill p n \<Rightarrow> apply_fill env p n s
              | GapFill p n \<Rightarrow> apply_fill env p n s
              | StatsRequest \<Rightarrow> (Inr Continue, s))"

definition snapshot_bad_ranges :: "Mapfile \<Rightarrow> range list" where
  "snapshot_bad_ranges m = ranges_with m damage_sector_statuses"

text \<open>The queue's consumer: items in order until the first that does not go on.\<close>

fun apply_items ::
  "(SinkEnv \<times> work_item) list \<Rightarrow> ImageSink \<Rightarrow> (pass_fail + sink_flow) \<times> ImageSink" where
  "apply_items [] s = (Inr Continue, s)"
| "apply_items (x # xs) s =
     (case sweep_apply (fst x) (snd x) s of
        (Inr Continue, s') \<Rightarrow> apply_items xs s'
      | r \<Rightarrow> r)"

text \<open>\<open>close\<close>: sync the image, then flush the map.\<close>

definition sink_close ::
  "SinkEnv \<Rightarrow> ImageSink \<Rightarrow> (pass_fail + MapStats) \<times> ImageSink" where
  "sink_close env s =
     (if \<not> k_sync_ok env \<and> is_regular s
      then (Inl (FileError (OsError 5)), s\<lparr>sk_map := (sk_map s)\<lparr>disowned := True\<rparr>\<rparr>)
      else
        (let s = (if k_sync_ok env then s\<lparr>sk_dur := sk_img s\<rparr> else s)
         in case flush (k_rec env) (sk_map s) (sk_fs s) of
              (Inl e, m, f) \<Rightarrow> (Inl (FileError e), s\<lparr>sk_map := m, sk_fs := f\<rparr>)
            | (Inr _, m, f) \<Rightarrow> (Inr (stats m), s\<lparr>sk_map := m, sk_fs := f\<rparr>)))"

end
