(* ===== verification/SweepInv.thy ===== *)
theory SweepInv
  imports Sweep
begin

text \<open>
  The producer of Pass 1: what it sends tiles each region from its start, its counters are the bytes
  sent, and with enough observations every region ends.
\<close>

subsection \<open>Logs of work items\<close>

fun it_pos :: "work_item \<Rightarrow> nat" where
  "it_pos (Good p buf) = p"
| "it_pos (SkipFill p n) = p"
| "it_pos (GapFill p n) = p"
| "it_pos StatsRequest = 0"

fun it_len :: "work_item \<Rightarrow> nat" where
  "it_len (Good p buf) = length buf"
| "it_len (SkipFill p n) = n"
| "it_len (GapFill p n) = n"
| "it_len StatsRequest = 0"

fun it_good :: "work_item \<Rightarrow> nat" where
  "it_good (Good p buf) = length buf"
| "it_good _ = 0"

definition log_bytes :: "work_item list \<Rightarrow> nat" where
  "log_bytes its = sum_list (map it_len its)"

definition good_bytes :: "work_item list \<Rightarrow> nat" where
  "good_bytes its = sum_list (map it_good its)"

lemma it_good_le: "it_good it \<le> it_len it"
  by (cases it) auto

lemma good_bytes_le: "good_bytes its \<le> log_bytes its"
  unfolding good_bytes_def log_bytes_def by (rule sum_list_mono) (rule it_good_le)

text \<open>A log, newest first, whose items lie end to end from \<open>a\<close> to \<open>b\<close>.\<close>

fun tiles :: "nat \<Rightarrow> work_item list \<Rightarrow> nat \<Rightarrow> bool" where
  "tiles a [] b = (a = b)"
| "tiles a (it # its) b = (it_pos it + it_len it = b \<and> tiles a its (it_pos it))"

text \<open>An item of whole sectors; a good one holds the disc's bytes.\<close>

fun item_ok :: "(nat \<Rightarrow> nat) \<Rightarrow> work_item \<Rightarrow> bool" where
  "item_ok disc (Good p buf) = (SECTOR dvd p \<and> SECTOR dvd length buf \<and> buf \<noteq> [] \<and>
     buf = map disc [p ..< p + length buf])"
| "item_ok disc (SkipFill p n) = (SECTOR dvd p \<and> SECTOR dvd n \<and> 0 < n)"
| "item_ok disc (GapFill p n) = (SECTOR dvd p \<and> SECTOR dvd n \<and> 0 < n)"
| "item_ok disc StatsRequest = False"

lemma tiles_le: "tiles a its b \<Longrightarrow> a \<le> b"
  by (induction its arbitrary: b) fastforce+

lemma tiles_log_bytes: "tiles a its b \<Longrightarrow> log_bytes its = b - a"
proof (induction its arbitrary: b)
  case (Cons it its)
  then have "log_bytes its = it_pos it - a" "a \<le> it_pos it" using tiles_le by auto
  then show ?case using Cons.prems by (auto simp: log_bytes_def)
qed (simp add: log_bytes_def)

subsection \<open>Assumptions on the surroundings\<close>

text \<open>
  The unit grid of the library ends a block inside it, on a sector it moves on to. The error built for
  a short transfer is a \<open>DiscRead\<close> without sense data.
\<close>

definition cfg_ok :: "SweepCfg \<Rightarrow> bool" where
  "cfg_ok cfg =
     (0 < c_batch cfg \<and> c_batch cfg \<le> 65535 \<and>
      (\<forall>a b. a < b \<longrightarrow> a < c_unit_block_end cfg a b \<and> c_unit_block_end cfg a b \<le> b) \<and>
      e_kind (c_short_read cfg) = DiscRead \<and> scsi_sense (c_short_read cfg) = None)"

text \<open>A reader that fills the buffer with the disc's bytes when it reports a full transfer.\<close>

definition faithful :: "(nat \<Rightarrow> nat) \<Rightarrow> IterEnv \<Rightarrow> bool" where
  "faithful disc env =
     (\<forall>lba n rec d. i_read env lba n rec = (Inr (n * SECTOR), d) \<longrightarrow>
        (\<forall>i < n * SECTOR. d i = disc (lba * SECTOR + i)))"

lemma block_bytes_ok:
  assumes "cfg_ok cfg" and "SECTOR dvd pos" and "SECTOR dvd re" and "pos < re"
  shows "0 < block_bytes_at cfg pos re" and "pos + block_bytes_at cfg pos re \<le> re"
    and "SECTOR dvd block_bytes_at cfg pos re" and "block_bytes_at cfg pos re \<le> c_batch cfg * SECTOR"
proof -
  define bb where "bb = min (re - pos) (c_batch cfg * SECTOR)"
  have b: "0 < c_batch cfg" using assms(1) by (simp add: cfg_ok_def)
  have bb: "0 < bb" "SECTOR dvd bb" "pos + bb \<le> re" "bb \<le> c_batch cfg * SECTOR"
    using assms b SECTOR_pos by (auto simp: bb_def min_def dvd_diff_nat)
  have def2: "block_bytes_at cfg pos re = (if pos + bb < re
      then c_unit_block_end cfg (pos div SECTOR) ((pos + bb) div SECTOR) * SECTOR - pos else bb)"
    by (simp add: block_bytes_at_def Let_def bb_def)
  have all: "0 < block_bytes_at cfg pos re \<and> pos + block_bytes_at cfg pos re \<le> re \<and>
      SECTOR dvd block_bytes_at cfg pos re \<and> block_bytes_at cfg pos re \<le> c_batch cfg * SECTOR"
  proof (cases "pos + bb < re")
    case False
    then show ?thesis using bb by (simp add: def2)
  next
    case True
    let ?e = "c_unit_block_end cfg (pos div SECTOR) ((pos + bb) div SECTOR)"
    obtain k where k: "pos = SECTOR * k" using assms(2) by (elim dvdE)
    obtain j where j: "bb = SECTOR * j" using bb(2) by (elim dvdE)
    have "0 < j" using bb(1) j by (cases j) auto
    moreover have "pos div SECTOR = k" "(pos + bb) div SECTOR = k + j"
      unfolding k j distrib_left [symmetric] by simp_all
    ultimately have e: "k < ?e" "?e \<le> k + j" using assms(1) by (auto simp: cfg_ok_def)
    have "(k + 1) * SECTOR \<le> ?e * SECTOR" "?e * SECTOR \<le> (k + j) * SECTOR"
      using e by (intro mult_le_mono1; simp)+
    moreover have "(k + 1) * SECTOR = pos + SECTOR" "(k + j) * SECTOR = pos + bb"
      unfolding k j by (simp_all add: algebra_simps)
    moreover define x where "x = ?e * SECTOR"
    ultimately have x: "pos + SECTOR \<le> x" "x \<le> pos + bb" "SECTOR dvd x" by simp_all
    have eq: "block_bytes_at cfg pos re = x - pos" using True by (simp add: def2 x_def)
    have "0 < x - pos" "pos + (x - pos) \<le> re" "x - pos \<le> c_batch cfg * SECTOR"
      using x bb True SECTOR_pos by linarith+
    then show ?thesis unfolding eq using x(3) assms(2) by (simp add: dvd_diff_nat)
  qed
  then show "0 < block_bytes_at cfg pos re" "pos + block_bytes_at cfg pos re \<le> re"
    "SECTOR dvd block_bytes_at cfg pos re" "block_bytes_at cfg pos re \<le> c_batch cfg * SECTOR" by blast+
qed

subsection \<open>The invariant of the producer\<close>

definition prod_inv ::
  "SweepCfg \<Rightarrow> (nat \<Rightarrow> nat) \<Rightarrow> nat \<Rightarrow> nat \<Rightarrow> work_item list \<Rightarrow> Producer \<Rightarrow> bool" where
  "prod_inv cfg disc a re base s \<longleftrightarrow>
     (\<exists>new b. p_items s = new @ base \<and> tiles a new b \<and> p_pos s \<le> b \<and> b \<le> re \<and>
        (p_exit s = None \<longrightarrow> b = p_pos s) \<and> SECTOR dvd p_pos s \<and> (\<forall>it \<in> set new. item_ok disc it)) \<and>
     (p_exit s = None \<longrightarrow> reach (c_batch cfg) (p_ctx s)) \<and>
     bytes_done s = min u64_max (log_bytes (p_items s)) \<and>
     bytes_good_done s = min u64_max (good_bytes (p_items s))"

lemma prod_invI:
  assumes "p_items s = new @ base" and "tiles a new b" and "p_pos s \<le> b" and "b \<le> re"
    and "p_exit s = None \<Longrightarrow> b = p_pos s" and "SECTOR dvd p_pos s" and "\<forall>it \<in> set new. item_ok disc it"
    and "p_exit s = None \<Longrightarrow> reach (c_batch cfg) (p_ctx s)"
    and "bytes_done s = min u64_max (log_bytes (p_items s))"
    and "bytes_good_done s = min u64_max (good_bytes (p_items s))"
  shows "prod_inv cfg disc a re base s"
  unfolding prod_inv_def by (intro conjI exI [of _ new] exI [of _ b] impI assms)

lemma sat_add_min: "sat_add (min u64_max x) y = min u64_max (x + y)"
  by (auto simp: sat_add_def min_def)

lemma p_send_cases:
  obtains (sent) "p_send v it s = s\<lparr>p_items := it # p_items s\<rparr>" "send_item v = Inr ()"
    | (left) x where "p_send v it s = s\<lparr>p_exit := Some x\<rparr>"
proof (cases "send_item v")
  case (Inl a)
  then show thesis by (cases a) (auto simp: p_send_def intro: left)
next
  case (Inr u)
  then show thesis by (auto simp: p_send_def intro: sent)
qed

text \<open>The invariant survives leaving the loop.\<close>

lemma prod_inv_exit: "prod_inv cfg disc a re base s \<Longrightarrow> prod_inv cfg disc a re base (s\<lparr>p_exit := Some x\<rparr>)"
  by (auto simp: prod_inv_def)

lemma prod_inv_ctx:
  "prod_inv cfg disc a re base s \<Longrightarrow> reach (c_batch cfg) c \<Longrightarrow> prod_inv cfg disc a re base (s\<lparr>p_ctx := c\<rparr>)"
  by (auto simp: prod_inv_def)

lemma prod_inv_speed:
  "prod_inv cfg disc a re base (s\<lparr>p_speeds := v\<rparr>) = prod_inv cfg disc a re base s"
  by (simp add: prod_inv_def)

text \<open>An item at the cursor, its bytes counted, the cursor after it.\<close>

lemma prod_inv_item:
  assumes "prod_inv cfg disc a re base s" and "p_exit s = None" and "item_ok disc it"
    and "it_pos it = p_pos s" and "p_pos s + it_len it \<le> re"
  shows "prod_inv cfg disc a re base
    (s\<lparr>p_items := it # p_items s, bytes_done := sat_add (bytes_done s) (it_len it),
       bytes_good_done := sat_add (bytes_good_done s) (it_good it), p_pos := p_pos s + it_len it\<rparr>)"
proof -
  obtain new where n: "p_items s = new @ base" "tiles a new (p_pos s)" "\<forall>it \<in> set new. item_ok disc it"
    "SECTOR dvd p_pos s" "reach (c_batch cfg) (p_ctx s)"
    "bytes_done s = min u64_max (log_bytes (p_items s))"
    "bytes_good_done s = min u64_max (good_bytes (p_items s))"
    using assms(1,2) by (auto simp: prod_inv_def)
  have "SECTOR dvd it_len it" using assms(3) by (cases it) auto
  then show ?thesis
    using n assms(2-5)
    by (intro prod_invI [where new = "it # new" and b = "p_pos s + it_len it"])
      (auto simp: sat_add_min log_bytes_def good_bytes_def add.commute)
qed

lemma prod_inv_cut:
  assumes "prod_inv cfg disc a re base (s\<lparr>p_pos := p\<rparr>)" and "SECTOR dvd q" and "q \<le> p"
  shows "prod_inv cfg disc a re base (s\<lparr>p_pos := q, p_exit := Some x\<rparr>)"
  using assms unfolding prod_inv_def by (auto intro: order_trans)

lemma prod_inv_fill:
  assumes "prod_inv cfg disc a re base s" and "p_exit s = None" and "item_ok disc it" and "it_good it = 0"
    and "it_pos it = p_pos s" and "p_pos s + it_len it \<le> re"
  shows "prod_inv cfg disc a re base
    (s\<lparr>p_items := it # p_items s, bytes_done := sat_add (bytes_done s) (it_len it),
       p_pos := p_pos s + it_len it\<rparr>)"
proof -
  have "bytes_good_done s = min u64_max (good_bytes (p_items s))"
    using assms(1) by (simp add: prod_inv_def)
  then have "sat_add (bytes_good_done s) 0 = bytes_good_done s" by (simp add: sat_add_def)
  then show ?thesis using prod_inv_item [OF assms(1-3,5,6)] assms(4) by (cases s) simp
qed

subsection \<open>One iteration\<close>

text \<open>An iteration that goes on over the block moved the cursor past it.\<close>

definition iter_ok ::
  "SweepCfg \<Rightarrow> (nat \<Rightarrow> nat) \<Rightarrow> nat \<Rightarrow> nat \<Rightarrow> work_item list \<Rightarrow> nat \<Rightarrow> Producer \<Rightarrow> Producer \<Rightarrow> bool" where
  "iter_ok cfg disc a re base bb s s' \<longleftrightarrow>
     prod_inv cfg disc a re base s' \<and> (p_exit s' = None \<longrightarrow> p_pos s + bb \<le> p_pos s')"

lemma good_read_ok:
  assumes inv: "prod_inv cfg disc a re base s" and go: "p_exit s = None"
    and ok: "item_ok disc (Good (p_pos s) buf)" and le: "p_pos s + length buf \<le> re"
  shows "iter_ok cfg disc a re base (length buf) s (good_read env buf s)"
proof -
  let ?c = "on_success (i_now env) (p_ctx s)"
  define s1 where "s1 = (if in_damage_zone (p_ctx s) \<and> \<not> in_damage_zone ?c
    then (s\<lparr>p_ctx := ?c\<rparr>)\<lparr>p_speeds := MAX_SPEED # p_speeds s\<rparr> else s\<lparr>p_ctx := ?c\<rparr>)"
  have "reach (c_batch cfg) ?c" using inv go by (auto simp: prod_inv_def intro: reach.good)
  then have i1: "prod_inv cfg disc a re base s1"
    using prod_inv_ctx [OF inv] by (simp add: s1_def prod_inv_speed)
  have s1: "p_pos s1 = p_pos s" "p_exit s1 = None" using go by (simp_all add: s1_def)
  have eq: "good_read env buf s = then_run (p_send (i_send env) (Good (p_pos s1) buf) s1) (\<lambda>s.
      s\<lparr>bytes_good_done := sat_add (bytes_good_done s) (length buf),
        bytes_done := sat_add (bytes_done s) (length buf), p_pos := p_pos s + length buf\<rparr>)"
    by (simp add: good_read_def Let_def s1_def)
  show ?thesis
  proof (cases rule: p_send_cases [of "i_send env" "Good (p_pos s1) buf" s1])
    case sent
    let ?it = "Good (p_pos s1) buf"
    have "good_read env buf s = s1\<lparr>p_items := ?it # p_items s1, bytes_done := sat_add (bytes_done s1) (it_len ?it),
        bytes_good_done := sat_add (bytes_good_done s1) (it_good ?it), p_pos := p_pos s1 + it_len ?it\<rparr>"
      unfolding eq sent(1) by (cases s1) (use s1(2) in \<open>simp add: then_run_def\<close>)
    then show ?thesis
      using prod_inv_item [OF i1 s1(2), of ?it] ok le s1(1) by (simp add: iter_ok_def)
  next
    case (left x)
    then have "good_read env buf s = s1\<lparr>p_exit := Some x\<rparr>" unfolding eq by (simp add: then_run_def)
    then show ?thesis using prod_inv_exit [OF i1] by (simp add: iter_ok_def)
  qed
qed

lemma skip_block_ok:
  assumes inv: "prod_inv cfg disc a re base s" and go: "p_exit s = None"
    and ok: "item_ok disc (SkipFill (p_pos s) bb)" and le: "p_pos s + bb \<le> re"
  shows "iter_ok cfg disc a re base bb s (skip_block env bb pause s)"
proof (cases rule: p_send_cases [of "i_send env" "SkipFill (p_pos s) bb" s])
  case sent
  let ?it = "SkipFill (p_pos s) bb"
  define s1 where "s1 = s\<lparr>p_items := ?it # p_items s, bytes_done := sat_add (bytes_done s) bb\<rparr>"
  have eq: "skip_block env bb pause s =
      (if pause \<noteq> 0 \<and> i_pause_cut env then s1\<lparr>p_exit := Some Stopped\<rparr> else s1\<lparr>p_pos := p_pos s1 + bb\<rparr>)"
    using go by (simp add: skip_block_def sent(1) then_run_def p_pause_def s1_def)
  have i1: "prod_inv cfg disc a re base (s1\<lparr>p_pos := p_pos s + bb\<rparr>)"
    using prod_inv_fill [OF inv go, of ?it] ok le by (simp add: s1_def)
  have al: "SECTOR dvd p_pos s" "p_pos s1 = p_pos s" using ok by (simp_all add: s1_def)
  have "prod_inv cfg disc a re base (s1\<lparr>p_pos := p_pos s, p_exit := Some Stopped\<rparr>)"
    using prod_inv_cut [OF i1 al(1)] by simp
  moreover have "s1\<lparr>p_pos := p_pos s, p_exit := Some Stopped\<rparr> = s1\<lparr>p_exit := Some Stopped\<rparr>"
    using al(2) by (cases s1) simp
  ultimately show ?thesis using i1 al(2) by (simp add: eq iter_ok_def)
next
  case (left x)
  then have "skip_block env bb pause s = s\<lparr>p_exit := Some x\<rparr>" by (simp add: skip_block_def then_run_def)
  then show ?thesis using prod_inv_exit [OF inv] by (simp add: iter_ok_def)
qed

lemma jump_pos_eq:
  "pos + bb \<le> re \<Longrightarrow> re \<le> u64_max \<Longrightarrow> jump_pos pos bb sectors re = min (pos + bb + sectors * SECTOR) re"
  by (auto simp: jump_pos_def sat_add_def sat_mul_def min_def)

lemma jump_ahead_ok:
  assumes inv: "prod_inv cfg disc a re base s" and go: "p_exit s = None"
    and ok: "item_ok disc (SkipFill (p_pos s) bb)" and le: "p_pos s + bb \<le> re" and re: "re \<le> u64_max" "SECTOR dvd re"
  shows "iter_ok cfg disc a re base bb s (jump_ahead env bb zone re sectors pause s)"
proof (cases rule: p_send_cases [of "i_send env" "SkipFill (p_pos s) bb" s])
  case sent
  let ?it = "SkipFill (p_pos s) bb"
  define sp where "sp = (if \<not> zone then MIN_SPEED # p_speeds s else p_speeds s)"
  define s1 where "s1 = s\<lparr>p_items := ?it # p_items s, bytes_done := sat_add (bytes_done s) bb, p_speeds := sp\<rparr>"
  define jp where "jp = jump_pos (p_pos s) bb sectors re"
  define gap where "gap = jp - (p_pos s + bb)"
  have al: "SECTOR dvd p_pos s" "SECTOR dvd bb" "p_pos s1 = p_pos s" "p_exit s1 = None"
    using ok go by (simp_all add: s1_def)
  have jp: "p_pos s + bb \<le> jp" "jp \<le> re" "SECTOR dvd jp" "jp = p_pos s + bb + gap"
    using le re al(1,2) unfolding gap_def by (simp_all add: jp_def jump_pos_eq min_def)
  have slow: "slow_down zone (s\<lparr>p_items := ?it # p_items s, bytes_done := sat_add (bytes_done s) bb\<rparr>) = s1"
    unfolding s1_def sp_def by (cases s; cases zone) (simp_all add: slow_down_def)
  have "jump_ahead env bb zone re sectors pause s = jump_gap env bb re sectors pause s1"
    using go slow by (simp add: jump_ahead_def sent(1) then_run_def)
  also have "\<dots> = then_run (if 0 < gap
          then then_run (p_send (i_send_gap env) (GapFill (p_pos s + bb) gap) s1) (\<lambda>s.
            s\<lparr>bytes_done := sat_add (bytes_done s) gap\<rparr>)
          else s1) (\<lambda>s. p_pause (i_pause_cut env) pause (s\<lparr>p_pos := jp\<rparr>))"
    unfolding jump_gap_def Let_def al(3) jp_def [symmetric] gap_def [symmetric] by (rule refl)
  finally have eq: "jump_ahead env bb zone re sectors pause s = \<dots>" .
  let ?s2 = "s1\<lparr>p_pos := p_pos s + bb\<rparr>"
  have "prod_inv cfg disc a re base (s\<lparr>p_items := ?it # p_items s, bytes_done := sat_add (bytes_done s) bb,
      p_pos := p_pos s + bb\<rparr>)"
    using prod_inv_fill [OF inv go, of ?it] ok le by simp
  from this [THEN prod_inv_speed [THEN iffD2, of _ _ _ _ _ _ sp]]
  have i2: "prod_inv cfg disc a re base ?s2" by (cases s) (simp add: s1_def)
  have fin: "iter_ok cfg disc a re base bb s (p_pause (i_pause_cut env) pause t)"
    if "prod_inv cfg disc a re base t" "p_pos t = jp" for t
    using that jp(1) prod_inv_exit [of cfg disc a re base t Stopped]
    by (auto simp: p_pause_def iter_ok_def)
  show ?thesis
  proof (cases "0 < gap")
    case False
    then have "jp = p_pos s + bb" using jp(4) by simp
    then show ?thesis using False fin [OF i2] al(4) unfolding eq by (simp add: then_run_def)
  next
    case True
    show ?thesis
    proof (cases rule: p_send_cases [of "i_send_gap env" "GapFill (p_pos s + bb) gap" s1])
      case sent
      let ?g = "GapFill (p_pos s + bb) gap"
      have "SECTOR dvd gap" using jp(3,4) al(1,2) by (metis dvd_add dvd_add_right_iff)
      then have g: "item_ok disc ?g" using True al(1,2) by simp
      have "prod_inv cfg disc a re base (?s2\<lparr>p_items := ?g # p_items ?s2,
          bytes_done := sat_add (bytes_done ?s2) (it_len ?g), p_pos := p_pos ?s2 + it_len ?g\<rparr>)"
        by (rule prod_inv_fill [OF i2]) (use al(4) g jp in simp_all)
      then have "prod_inv cfg disc a re base (s1\<lparr>p_items := ?g # p_items s1,
          bytes_done := sat_add (bytes_done s1) gap, p_pos := jp\<rparr>)" using jp(4) by simp
      from fin [OF this] show ?thesis
        using True al(4) unfolding eq sent(1) by (simp add: then_run_def)
    next
      case (left x)
      have "prod_inv cfg disc a re base (s1\<lparr>p_pos := p_pos s, p_exit := Some x\<rparr>)"
        using prod_inv_cut [OF i2 al(1)] by simp
      moreover have "s1\<lparr>p_pos := p_pos s, p_exit := Some x\<rparr> = s1\<lparr>p_exit := Some x\<rparr>"
        using al(3) by (cases s1) simp
      ultimately show ?thesis using True left unfolding eq by (simp add: then_run_def iter_ok_def)
    qed
  qed
next
  case (left x)
  then have "jump_ahead env bb zone re sectors pause s = s\<lparr>p_exit := Some x\<rparr>"
    by (simp add: jump_ahead_def then_run_def)
  then show ?thesis using prod_inv_exit [OF inv] by (simp add: iter_ok_def)
qed

text \<open>The loop measure: nine per sector ahead of the cursor, and the retries left.\<close>

definition sweep_measure :: "nat \<Rightarrow> Producer \<Rightarrow> nat" where
  "sweep_measure re s = 9 * ((re - p_pos s) div SECTOR) + retry_budget (p_ctx s)"

lemma retry_budget_le: "retry_budget c \<le> 8"
  by (simp add: retry_budget_def)

lemma measure_advance:
  assumes "p_pos s + bb \<le> p_pos s'" and "SECTOR \<le> bb" and "p_pos s' \<le> re"
  shows "sweep_measure re s' < sweep_measure re s"
proof -
  have "re - p_pos s' + SECTOR \<le> re - p_pos s" using assms by linarith
  then have "(re - p_pos s' + SECTOR) div SECTOR \<le> (re - p_pos s) div SECTOR" by (rule div_le_mono)
  then have "(re - p_pos s') div SECTOR + 1 \<le> (re - p_pos s) div SECTOR" by simp
  then show ?thesis using retry_budget_le [of "p_ctx s'"] by (simp add: sweep_measure_def)
qed

definition iter_done ::
  "SweepCfg \<Rightarrow> (nat \<Rightarrow> nat) \<Rightarrow> nat \<Rightarrow> nat \<Rightarrow> work_item list \<Rightarrow> Producer \<Rightarrow> Producer \<Rightarrow> bool" where
  "iter_done cfg disc a re base s s' \<longleftrightarrow>
     prod_inv cfg disc a re base s' \<and> (p_exit s' = None \<longrightarrow> sweep_measure re s' < sweep_measure re s)"

lemma iter_ok_done:
  assumes "iter_ok cfg disc a re base bb s s'" and "SECTOR \<le> bb"
  shows "iter_done cfg disc a re base s s'"
proof -
  have "p_pos s' \<le> re" using assms(1) by (auto simp: iter_ok_def prod_inv_def)
  then show ?thesis using assms measure_advance by (auto simp: iter_ok_def iter_done_def)
qed

lemma failed_read_done:
  assumes inv: "prod_inv cfg disc a re base s" and go: "p_exit s = None"
    and ok: "item_ok disc (SkipFill (p_pos s) bb)" and le: "p_pos s + bb \<le> re" and re: "re \<le> u64_max" "SECTOR dvd re"
  shows "iter_done cfg disc a re base s (failed_read env e bb lba re s)"
proof -
  obtain c act where h: "handle_read_error (i_now env) e (p_ctx s) = (c, act)" by fastforce
  let ?s = "s\<lparr>p_ctx := c\<rparr>"
  have bb: "SECTOR \<le> bb" using ok by (auto intro: dvd_imp_le)
  show ?thesis
  proof (cases "act = AbortPass")
    case True
    have "prod_inv cfg disc a re base (?s\<lparr>p_exit := Some x\<rparr>)" for x
      using inv by (auto simp: prod_inv_def)
    then show ?thesis using True h by (simp add: failed_read_def Let_def iter_done_def)
  next
    case False
    have "reach (c_batch cfg) c"
      using inv go h False by (auto simp: prod_inv_def intro: reach.bad)
    then have i1: "prod_inv cfg disc a re base ?s" by (rule prod_inv_ctx [OF inv])
    have same: "p_exit ?s = None" "p_pos ?s = p_pos s" using go by simp_all
    have up: "iter_done cfg disc a re base s t" if "iter_ok cfg disc a re base bb ?s t" for t
    proof -
      have "iter_ok cfg disc a re base bb s t" using that by (simp add: iter_ok_def)
      then show ?thesis using bb by (rule iter_ok_done)
    qed
    show ?thesis
    proof (cases act)
      case (Retry pause)
      then have "retry_budget (p_ctx s) = Suc (retry_budget c)" using retry_uses_budget [OF h] by simp
      then have "sweep_measure re ?s < sweep_measure re s" by (simp add: sweep_measure_def)
      then show ?thesis using Retry h i1 prod_inv_exit [OF i1]
        by (simp add: failed_read_def Let_def iter_done_def p_pause_def)
    next
      case (SkipBlock pause)
      then show ?thesis using h up [OF skip_block_ok [OF i1 same(1)]] ok le
        by (simp add: failed_read_def Let_def)
    next
      case (JumpAhead sectors pause)
      then show ?thesis using h up [OF jump_ahead_ok [OF i1 same(1)]] ok le re
        by (simp add: failed_read_def Let_def)
    qed (use False in simp)
  qed
qed

lemma iter_done_exit: "prod_inv cfg disc a re base s \<Longrightarrow> iter_done cfg disc a re base s (s\<lparr>p_exit := Some x\<rparr>)"
  using prod_inv_exit by (simp add: iter_done_def)

lemma sweep_iter_done:
  assumes cfg: "cfg_ok cfg" and inv: "prod_inv cfg disc a re base s" and go: "p_exit s = None"
    and pos: "p_pos s < re" and re: "SECTOR dvd re" "re \<le> (u32_max + 1) * SECTOR" and f: "faithful disc env"
  shows "iter_done cfg disc a re base s (sweep_iter cfg re env s)"
proof (cases "i_cancelled env")
  case True
  then show ?thesis using iter_done_exit [OF inv] by (simp add: sweep_iter_def)
next
  case False
  define bb where "bb = block_bytes_at cfg (p_pos s) re"
  have al: "SECTOR dvd p_pos s" using inv by (auto simp: prod_inv_def)
  note b = block_bytes_ok [OF cfg al re(1) pos, folded bb_def]
  have max: "re \<le> u64_max" using re(2) by (simp add: u32_max_def u64_max_def SECTOR_def)
  have lba: "(p_pos s div SECTOR) mod (u32_max + 1) = p_pos s div SECTOR"
    using pos re(2) by (intro mod_less) (simp add: less_mult_imp_div_less)
  have cnt: "(bb div SECTOR) mod 65536 = bb div SECTOR"
  proof (rule mod_less)
    have "bb div SECTOR \<le> (c_batch cfg * SECTOR) div SECTOR" using b(4) by (rule div_le_mono)
    then show "bb div SECTOR < 65536" using cfg by (simp add: cfg_ok_def)
  qed
  define rd where "rd = i_read env (p_pos s div SECTOR) (bb div SECTOR) (\<not> c_skip_on_error cfg)"
  define t where "t = (case require_full_read (c_short_read cfg) bb (fst rd) of
       Inr _ \<Rightarrow> good_read env (map (snd rd) [0..<bb]) s
     | Inl e \<Rightarrow>
         (if e_kind e = Halted then s\<lparr>p_exit := Some Stopped\<rparr>
          else if \<not> c_skip_on_error cfg \<or> \<not> is_damage_candidate e
          then s\<lparr>p_exit := Some (Failed (ReadAborted (classify_pass_abort e (p_pos s div SECTOR))))\<rparr>
          else failed_read env e bb (p_pos s div SECTOR) re s))"
  have eq: "sweep_iter cfg re env s =
      then_run t (\<lambda>s. if i_stop_at_report env then s\<lparr>p_exit := Some Stopped\<rparr> else s)"
    unfolding sweep_iter_def Let_def lba bb_def [symmetric] cnt rd_def [symmetric] t_def [symmetric]
    using False by (simp only: if_False)
  have t: "iter_done cfg disc a re base s t"
  proof (cases "require_full_read (c_short_read cfg) bb (fst rd)")
    case (Inl e)
    have "item_ok disc (SkipFill (p_pos s) bb)" using al b by simp
    then show ?thesis
      using Inl iter_done_exit [OF inv] failed_read_done [OF inv go _ b(2) max re(1)] by (simp add: t_def)
  next
    case (Inr n)
    then have full: "fst rd = Inr (bb div SECTOR * SECTOR)"
      using b(3) by (auto simp: require_full_read_def split: sum.splits if_splits)
    then have "i_read env (p_pos s div SECTOR) (bb div SECTOR) (\<not> c_skip_on_error cfg) =
        (Inr (bb div SECTOR * SECTOR), snd rd)" by (metis rd_def prod.collapse)
    then have "\<forall>i < bb div SECTOR * SECTOR. snd rd i = disc (p_pos s div SECTOR * SECTOR + i)"
      using f unfolding faithful_def by blast
    then have data: "\<forall>i < bb. snd rd i = disc (p_pos s + i)" using al b(3) by simp
    have "map (snd rd) [0..<bb] = map disc [p_pos s ..< p_pos s + bb]"
      using data by (intro nth_equalityI) auto
    then have "item_ok disc (Good (p_pos s) (map (snd rd) [0..<bb]))" using al b by simp
    then have "iter_ok cfg disc a re base bb s (good_read env (map (snd rd) [0..<bb]) s)"
      using good_read_ok [OF inv go, of "map (snd rd) [0..<bb]" env] b(2) by simp
    moreover have "SECTOR \<le> bb" using b by (intro dvd_imp_le) auto
    ultimately show ?thesis using Inr iter_ok_done by (simp add: t_def)
  qed
  then show ?thesis
    using prod_inv_exit [of cfg disc a re base t Stopped] unfolding eq
    by (auto simp: then_run_def iter_done_def)
qed

subsection \<open>A region\<close>

lemma sweep_region_done:
  assumes cfg: "cfg_ok cfg" and re: "SECTOR dvd re" "re \<le> (u32_max + 1) * SECTOR"
    and "prod_inv cfg disc a re base s" and "\<forall>env \<in> set es. faithful disc env"
    and "sweep_region cfg re es s = (s', es')"
  shows "prod_inv cfg disc a re base s' \<and> set es' \<subseteq> set es \<and> (region_over re s' \<or> es' = []) \<and>
    (p_exit s' = None \<longrightarrow> length es + sweep_measure re s' \<le> length es' + sweep_measure re s)"
  using assms(4-6)
proof (induction es arbitrary: s)
  case (Cons env es)
  show ?case
  proof (cases "p_exit s \<noteq> None \<or> \<not> p_pos s < re")
    case True
    then show ?thesis using Cons.prems by (auto simp: region_over_def)
  next
    case False
    let ?t = "sweep_iter cfg re env s"
    have t: "iter_done cfg disc a re base s ?t"
      using False Cons.prems(1,2) by (intro sweep_iter_done [OF cfg _ _ _ re]) auto
    have run: "sweep_region cfg re es ?t = (s', es')" using False Cons.prems(3) by auto
    have IH: "prod_inv cfg disc a re base s' \<and> set es' \<subseteq> set es \<and> (region_over re s' \<or> es' = []) \<and>
        (p_exit s' = None \<longrightarrow> length es + sweep_measure re s' \<le> length es' + sweep_measure re ?t)"
      using t Cons.prems(2) by (intro Cons.IH [OF _ _ run]) (auto simp: iter_done_def)
    have "p_exit s' = None \<Longrightarrow> p_exit ?t = None"
    proof (rule ccontr)
      assume "p_exit s' = None" "p_exit ?t \<noteq> None"
      moreover have "sweep_region cfg re es ?t = (?t, es)" if "p_exit ?t \<noteq> None"
        using that by (cases es) auto
      ultimately show False using run by simp
    qed
    then show ?thesis using IH t by (fastforce simp: iter_done_def)
  qed
qed (auto)

definition spans_of :: "work_item list \<Rightarrow> range list" where
  "spans_of its = rev (map (\<lambda>it. (it_pos it, it_len it)) its)"

lemma spans_of_simps [simp]:
  "spans_of [] = []" "spans_of (it # its) = spans_of its @ [(it_pos it, it_len it)]"
  "spans_of (xs @ ys) = spans_of ys @ spans_of xs"
  by (simp_all add: spans_of_def)

lemma item_ok_pos: "item_ok disc it \<Longrightarrow> 0 < it_len it"
  by (cases it) auto

lemma tiles_spans:
  "tiles a its b \<Longrightarrow> \<forall>it \<in> set its. item_ok disc it \<Longrightarrow> b \<le> u64_max \<Longrightarrow>
     disj_from a (spans_of its) \<and> bytes_of (spans_of its) = {a..<b} \<and>
     (its \<noteq> [] \<longrightarrow> fst (last (spans_of its)) + snd (last (spans_of its)) = b)"
proof (induction its arbitrary: b)
  case (Cons it its)
  let ?p = "it_pos it"
  have t: "tiles a its ?p" "?p + it_len it = b" "0 < it_len it" "a \<le> ?p"
    using Cons.prems item_ok_pos tiles_le by auto
  then have IH: "disj_from a (spans_of its)" "bytes_of (spans_of its) = {a..<?p}"
    "its \<noteq> [] \<longrightarrow> fst (last (spans_of its)) + snd (last (spans_of its)) = ?p"
    using Cons.IH [OF t(1)] Cons.prems by auto
  have one: "disj_from ?p [(?p, it_len it)]" using t(2,3) Cons.prems(3) by simp
  have "(if spans_of its = [] then a else fst (last (spans_of its)) + snd (last (spans_of its))) = ?p"
  proof (cases "its = []")
    case True
    then show ?thesis using t(1) by simp
  next
    case False
    then have "spans_of its \<noteq> []" by (simp add: spans_of_def)
    then show ?thesis using IH(3) False by simp
  qed
  then have "disj_from a (spans_of (it # its))"
    using IH(1) one unfolding spans_of_simps disj_from_append by simp
  moreover have "bytes_of (spans_of (it # its)) = {a..<b}"
    using IH(2) t(2,4) ivl_disj_un_two(3) [of a ?p b] by simp
  ultimately show ?case using t(2) by simp
qed simp

subsection \<open>All regions\<close>

definition snap :: "range \<Rightarrow> range" where
  "snap r = snap_to_sectors (fst r) (snd r)"

definition region_budget :: "range list \<Rightarrow> nat" where
  "region_budget rs = sum_list (map (\<lambda>r. 9 * (snd (snap r) div SECTOR) + 9) rs)"

text \<open>What a log says against the regions: the items lie in order, inside them, intact.\<close>

definition log_ok :: "(nat \<Rightarrow> nat) \<Rightarrow> range list \<Rightarrow> work_item list \<Rightarrow> bool" where
  "log_ok disc rs its \<longleftrightarrow>
     disj_from 0 (spans_of its) \<and> bytes_of (spans_of its) \<subseteq> bytes_of (map snap rs) \<and>
     (\<forall>it \<in> set its. item_ok disc it)"

definition outer_inv :: "SweepCfg \<Rightarrow> (nat \<Rightarrow> nat) \<Rightarrow> nat \<Rightarrow> Producer \<Rightarrow> bool" where
  "outer_inv cfg disc c s \<longleftrightarrow>
     disj_from 0 (spans_of (p_items s)) \<and> bytes_of (spans_of (p_items s)) \<subseteq> {..<c} \<and>
     (\<forall>it \<in> set (p_items s). item_ok disc it) \<and> p_exit s = None \<and> reach (c_batch cfg) (p_ctx s) \<and>
     bytes_done s = min u64_max (log_bytes (p_items s)) \<and>
     bytes_good_done s = min u64_max (good_bytes (p_items s))"

lemma disj_from_end:
  "disj_from c rs \<Longrightarrow> rs \<noteq> [] \<Longrightarrow> bytes_of rs \<subseteq> {..<d} \<Longrightarrow> fst (last rs) + snd (last rs) \<le> d"
proof -
  assume a: "disj_from c rs" "rs \<noteq> []" "bytes_of rs \<subseteq> {..<d}"
  obtain p n where pn: "last rs = (p, n)" by (cases "last rs")
  then have mem: "(p, n) \<in> set rs" using last_in_set [OF a(2)] by simp
  then have n: "0 < n" using disj_from_mem [OF a(1) mem] by simp
  have "{p ..< p + n} \<subseteq> bytes_of rs"
    unfolding bytes_of_def using mem by (intro subsetI UN_I [of "(p, n)"]) auto
  then have "{p ..< p + n} \<subseteq> {..<d}" using a(3) by (rule subset_trans)
  moreover have "p + n - 1 \<in> {p ..< p + n}" using n by simp
  ultimately have "p + n - 1 \<in> {..<d}" by (rule subsetD)
  then show ?thesis using pn n by simp
qed

lemma outer_step:
  assumes cfg: "cfg_ok cfg" and o: "outer_inv cfg disc c s" and r: "snap r = (a, n)" "c \<le> a" "0 < n"
    and fit: "a + n \<le> (u32_max + 1) * SECTOR" and f: "\<forall>env \<in> set es. faithful disc env"
    and run: "sweep_region cfg (a + n) es (s\<lparr>p_pos := a\<rparr>) = (s', es')"
  shows "set es' \<subseteq> set es \<and> disj_from 0 (spans_of (p_items s')) \<and>
    bytes_of (spans_of (p_items s')) \<subseteq> bytes_of (spans_of (p_items s)) \<union> {a ..< a + n} \<and>
    (\<forall>it \<in> set (p_items s'). item_ok disc it) \<and>
    bytes_done s' = min u64_max (log_bytes (p_items s')) \<and>
    bytes_good_done s' = min u64_max (good_bytes (p_items s')) \<and>
    (region_over (a + n) s' \<and> p_exit s' = None \<longrightarrow>
       outer_inv cfg disc (a + n) s' \<and>
       bytes_of (spans_of (p_items s')) = bytes_of (spans_of (p_items s)) \<union> {a ..< a + n}) \<and>
    (9 * (n div SECTOR) + 9 \<le> length es \<longrightarrow> region_over (a + n) s') \<and>
    (p_exit s' = None \<longrightarrow> length es \<le> length es' + (9 * (n div SECTOR) + 8))"
proof -
  let ?s = "s\<lparr>p_pos := a\<rparr>" and ?re = "a + n"
  have "aligned (snap r)" unfolding snap_def by (rule snap_aligned)
  then have al: "SECTOR dvd a" "SECTOR dvd n" using r(1) by (auto simp: aligned_def)
  have max: "?re \<le> u64_max" using fit by (simp add: u32_max_def u64_max_def SECTOR_def)
  have base: "disj_from 0 (spans_of (p_items s))" "bytes_of (spans_of (p_items s)) \<subseteq> {..<a}"
    "\<forall>it \<in> set (p_items s). item_ok disc it"
    using o r(2) by (auto simp: outer_inv_def)
  have "prod_inv cfg disc a ?re (p_items s) ?s"
    using o al(1) by (intro prod_invI [where new = "[]" and b = a]) (auto simp: outer_inv_def)
  from sweep_region_done [OF cfg _ fit this f run] al
  have res: "prod_inv cfg disc a ?re (p_items s) s'" "set es' \<subseteq> set es" "region_over ?re s' \<or> es' = []"
    "p_exit s' = None \<longrightarrow> length es + sweep_measure ?re s' \<le> length es' + sweep_measure ?re ?s"
    by auto
  have m0: "sweep_measure ?re ?s \<le> 9 * (n div SECTOR) + 8"
    using retry_budget_le by (simp add: sweep_measure_def)
  obtain new b where new: "p_items s' = new @ p_items s" "tiles a new b" "b \<le> ?re"
    "p_exit s' = None \<longrightarrow> b = p_pos s'" "\<forall>it \<in> set new. item_ok disc it" "p_pos s' \<le> b"
    using res(1) by (auto simp: prod_inv_def)
  have t: "disj_from a (spans_of new)" "bytes_of (spans_of new) = {a..<b}"
    using tiles_spans [OF new(2,5)] new(3) max by auto
  have sp: "spans_of (p_items s') = spans_of (p_items s) @ spans_of new" by (simp add: new(1))
  have "disj_from (if spans_of (p_items s) = [] then 0 else
      fst (last (spans_of (p_items s))) + snd (last (spans_of (p_items s)))) (spans_of new)"
    using disj_from_end [OF base(1) _ base(2)] by (intro disj_from_mono [OF t(1)]) auto
  then have disj: "disj_from 0 (spans_of (p_items s'))" using base(1) by (simp add: sp disj_from_append)
  have bytes: "bytes_of (spans_of (p_items s')) = bytes_of (spans_of (p_items s)) \<union> {a..<b}"
    by (simp add: sp t(2))
  have items: "\<forall>it \<in> set (p_items s'). item_ok disc it" using new(1,5) base(3) by auto
  have cnt: "bytes_done s' = min u64_max (log_bytes (p_items s'))"
    "bytes_good_done s' = min u64_max (good_bytes (p_items s'))"
    "p_exit s' = None \<longrightarrow> reach (c_batch cfg) (p_ctx s')"
    using res(1) by (auto simp: prod_inv_def)
  have over: "b = ?re" if "region_over ?re s'" "p_exit s' = None"
    using that new(3,4) by (auto simp: region_over_def)
  have fin: "region_over ?re s'" if "9 * (n div SECTOR) + 9 \<le> length es"
  proof (rule ccontr)
    assume "\<not> region_over ?re s'"
    then have "es' = []" "p_exit s' = None" using res(3) by (auto simp: region_over_def)
    then show False using res(4) that m0 by simp
  qed
  have done_inv: "outer_inv cfg disc ?re s'" if "region_over ?re s'" "p_exit s' = None"
    using that disj items cnt base(2) bytes new(3) by (auto simp: outer_inv_def)
  show ?thesis
    using res(2) disj items cnt(1,2) fin done_inv bytes over new(3) res(4) m0
    by (intro conjI) auto
qed

end
