(* ===== verification/SweepRun.thy ===== *)
theory SweepRun
  imports SweepInv
begin

text \<open>
  A whole Pass 1: the producer over all its regions, the consumer \<open>SweepSink\<close> that applies what was sent,
  and the two together.
\<close>

subsection \<open>The producer over its regions\<close>

lemma sweep_regions_ok:
  assumes cfg: "cfg_ok cfg" and "outer_inv cfg disc c s" and "disj_from c (map snap rs)"
    and "\<forall>r \<in> set rs. fst (snap r) + snd (snap r) \<le> (u32_max + 1) * SECTOR"
    and "\<forall>env \<in> set es. faithful disc env" and "sweep_regions cfg rs es s = (s', over)"
  shows "disj_from 0 (spans_of (p_items s')) \<and>
    bytes_of (spans_of (p_items s')) \<subseteq> bytes_of (spans_of (p_items s)) \<union> bytes_of (map snap rs) \<and>
    (\<forall>it \<in> set (p_items s'). item_ok disc it) \<and>
    bytes_done s' = min u64_max (log_bytes (p_items s')) \<and>
    bytes_good_done s' = min u64_max (good_bytes (p_items s')) \<and>
    (over \<and> p_exit s' = None \<longrightarrow>
       bytes_of (spans_of (p_items s')) = bytes_of (spans_of (p_items s)) \<union> bytes_of (map snap rs)) \<and>
    (region_budget rs \<le> length es \<longrightarrow> over)"
  using assms(2-6)
proof (induction rs arbitrary: s c es)
  case Nil
  then show ?case by (auto simp: outer_inv_def)
next
  case (Cons r rs)
  obtain a n where r: "snap r = (a, n)" by (cases "snap r")
  have an: "c \<le> a" "0 < n" "disj_from (a + n) (map snap rs)" "a + n \<le> (u32_max + 1) * SECTOR"
    using Cons.prems(2,3) r by auto
  obtain s1 es1 where run: "sweep_region cfg (a + n) es (s\<lparr>p_pos := a\<rparr>) = (s1, es1)" by fastforce
  note st = outer_step [OF cfg Cons.prems(1) r an(1,2,4) Cons.prems(4) run]
  have eq: "sweep_regions cfg (r # rs) es s =
      (if \<not> region_over (a + n) s1 then (s1, False)
       else if p_exit s1 \<noteq> None then (s1, True) else sweep_regions cfg rs es1 s1)"
    using r run by (simp add: snap_def Let_def)
  have bud: "region_budget (r # rs) = 9 * (n div SECTOR) + 9 + region_budget rs"
    using r by (simp add: region_budget_def)
  have rb: "bytes_of (map snap (r # rs)) = {a ..< a + n} \<union> bytes_of (map snap rs)" using r by simp
  show ?case
  proof (cases "region_over (a + n) s1 \<and> p_exit s1 = None")
    case False
    have res: "s' = s1" "over = region_over (a + n) s1" "over \<Longrightarrow> p_exit s1 \<noteq> None"
      using eq False Cons.prems(5) by (auto split: if_splits)
    have "region_budget (r # rs) \<le> length es \<longrightarrow> over" using st res(2) bud by simp
    then show ?thesis using st res(3) unfolding res(1) rb by blast
  next
    case True
    then have go: "sweep_regions cfg rs es1 s1 = (s', over)" using eq Cons.prems(5) by simp
    have o1: "outer_inv cfg disc (a + n) s1"
      and b1: "bytes_of (spans_of (p_items s1)) = bytes_of (spans_of (p_items s)) \<union> {a ..< a + n}"
      and e1: "\<forall>env \<in> set es1. faithful disc env"
      using st True Cons.prems(4) by blast+
    have len: "region_budget (r # rs) \<le> length es \<Longrightarrow> region_budget rs \<le> length es1"
      using st True bud by simp
    have fit: "\<forall>r \<in> set rs. fst (snap r) + snd (snap r) \<le> (u32_max + 1) * SECTOR"
      using Cons.prems(3) by simp
    note IH = Cons.IH [OF o1 an(3) fit e1 go]
    have "region_budget (r # rs) \<le> length es \<longrightarrow> over" using IH len by blast
    then show ?thesis using IH unfolding rb b1 by (simp only: Un_assoc simp_thms) blast
  qed
qed

lemma produce_ok:
  assumes "cfg_ok cfg" and "disj_from 0 (map snap rs)"
    and "\<forall>r \<in> set rs. fst (snap r) + snd (snap r) \<le> (u32_max + 1) * SECTOR"
    and "\<forall>env \<in> set es. faithful disc env" and "produce cfg rs es = (s, over)"
  shows "log_ok disc rs (p_items s)"
    and "over \<Longrightarrow> p_exit s = None \<Longrightarrow> bytes_of (spans_of (p_items s)) = bytes_of (map snap rs)"
    and "region_budget rs \<le> length es \<Longrightarrow> over"
    and "bytes_done s = min u64_max (log_bytes (p_items s))"
    and "bytes_good_done s = min u64_max (good_bytes (p_items s))"
proof -
  have "outer_inv cfg disc 0 (producer_init (c_batch cfg))"
    by (auto simp: outer_inv_def producer_init_def log_bytes_def good_bytes_def intro: reach.start)
  from sweep_regions_ok [OF assms(1) this assms(2-4) assms(5) [unfolded produce_def]]
  have *: "disj_from 0 (spans_of (p_items s)) \<and> bytes_of (spans_of (p_items s)) \<subseteq> bytes_of (map snap rs) \<and>
    (\<forall>it \<in> set (p_items s). item_ok disc it) \<and>
    bytes_done s = min u64_max (log_bytes (p_items s)) \<and>
    bytes_good_done s = min u64_max (good_bytes (p_items s)) \<and>
    (over \<and> p_exit s = None \<longrightarrow> bytes_of (spans_of (p_items s)) = bytes_of (map snap rs)) \<and>
    (region_budget rs \<le> length es \<longrightarrow> over)"
    by (simp add: producer_init_def)
  then show "log_ok disc rs (p_items s)"
    "over \<Longrightarrow> p_exit s = None \<Longrightarrow> bytes_of (spans_of (p_items s)) = bytes_of (map snap rs)"
    "region_budget rs \<le> length es \<Longrightarrow> over"
    "bytes_done s = min u64_max (log_bytes (p_items s))"
    "bytes_good_done s = min u64_max (good_bytes (p_items s))" by (auto simp: log_ok_def)
qed

end
