(* ===== verification/SweepSinkInv.thy ===== *)
theory SweepSinkInv
  imports SweepSink SweepRun
begin

text \<open>
  What the consumer keeps true whatever write fails: a byte marked Finished in the damage map is the
  disc's byte in the image. And Pass 1 as a whole: producer and consumer together.
\<close>

subsection \<open>Writes\<close>

lemma write_at_in: "p \<le> b \<Longrightarrow> b < p + length data \<Longrightarrow> write_at p data img b = data ! (b - p)"
  by (simp add: write_at_def)

lemma write_at_out: "b < p \<or> p + length data \<le> b \<Longrightarrow> write_at p data img b = img b"
  by (auto simp: write_at_def)

lemma fill_step:
  assumes "filled < len" and "\<not> k_fill_disown env filled"
  shows "fill_loop env p filled len img =
    (let chunk = min (len - filled) ZERO_CHUNK
     in if k_written env < filled + chunk
        then (FillFailed, write_at (p + filled) (replicate (k_written env - filled) 0) img)
        else fill_loop env p (filled + chunk) len (write_at (p + filled) (replicate chunk 0) img))"
  using assms by (simp add: fill_loop.simps [of env p filled])

lemma fill_loop_out:
  "fill_loop env p filled len img = (r, img') \<Longrightarrow> b < p + filled \<or> p + len \<le> b \<Longrightarrow> img' b = img b"
proof (induction env p filled len img rule: fill_loop.induct)
  case (1 env p filled len img)
  define chunk where "chunk = min (len - filled) ZERO_CHUNK"
  show ?case
  proof (cases "filled < len \<and> \<not> k_fill_disown env filled")
    case False
    then show ?thesis using "1.prems"(1) by (auto simp: fill_loop.simps [of env p filled] split: if_splits)
  next
    case go: True
    then have fit: "filled + chunk \<le> len" by (auto simp: chunk_def)
    note step = fill_step [of filled len env p img, folded chunk_def, unfolded Let_def]
    show ?thesis
    proof (cases "k_written env < filled + chunk")
      case True
      then have "img' = write_at (p + filled) (replicate (k_written env - filled) 0) img"
        using go "1.prems"(1) step by simp
      then show ?thesis using True "1.prems"(2) fit by (auto intro!: write_at_out)
    next
      case False
      then have run: "fill_loop env p (filled + chunk) len (write_at (p + filled) (replicate chunk 0) img) = (r, img')"
        using go "1.prems"(1) step by simp
      have "img' b = write_at (p + filled) (replicate chunk 0) img b"
        using go False run "1.prems"(2) chunk_def by (intro "1.IH") auto
      also have "\<dots> = img b" using "1.prems"(2) fit by (intro write_at_out) auto
      finally show ?thesis .
    qed
  qed
qed

lemma fill_loop_done:
  "fill_loop env p filled len img = (FillDone, img') \<Longrightarrow> p + filled \<le> b \<Longrightarrow> b < p + len \<Longrightarrow> img' b = 0"
proof (induction env p filled len img rule: fill_loop.induct)
  case (1 env p filled len img)
  define chunk where "chunk = min (len - filled) ZERO_CHUNK"
  have go: "filled < len" "\<not> k_fill_disown env filled" "\<not> k_written env < filled + chunk"
    using "1.prems" by (auto simp: fill_loop.simps [of env p filled] Let_def chunk_def split: if_splits)
  let ?img = "write_at (p + filled) (replicate chunk 0) img"
  have run: "fill_loop env p (filled + chunk) len ?img = (FillDone, img')"
    using fill_step [of filled len env p img, folded chunk_def] go "1.prems"(1) by (simp add: Let_def)
  show ?case
  proof (cases "p + (filled + chunk) \<le> b")
    case True
    then show ?thesis using go run "1.prems"(3) chunk_def by (intro "1.IH") auto
  next
    case False
    then have "img' b = ?img b" using fill_loop_out [OF run] by simp
    also have "\<dots> = 0" using False "1.prems"(2) by (simp add: write_at_in)
    finally show ?thesis .
  qed
qed

subsection \<open>One item\<close>

fun it_status :: "work_item \<Rightarrow> SectorStatus" where
  "it_status (Good p buf) = Finished"
| "it_status _ = NonTrimmed"

fun it_byte :: "(nat \<Rightarrow> nat) \<Rightarrow> work_item \<Rightarrow> nat \<Rightarrow> nat" where
  "it_byte disc (Good p buf) = disc"
| "it_byte disc _ = (\<lambda>b. 0)"

abbreviation sk_look :: "ImageSink \<Rightarrow> nat \<Rightarrow> SectorStatus option" where
  "sk_look s \<equiv> look (entries (sk_map s))"

text \<open>Every byte the map calls Finished is the disc's byte in the image.\<close>

definition image_ok :: "(nat \<Rightarrow> nat) \<Rightarrow> ImageSink \<Rightarrow> bool" where
  "image_ok disc s \<longleftrightarrow> map_inv (sk_map s) \<and> (\<forall>b. sk_look s b = Some Finished \<longrightarrow> sk_img s b = disc b)"

lemma map_inv_disowned [simp]: "map_inv (m\<lparr>disowned := d\<rparr>) = map_inv m"
  by (simp add: map_inv_def map_ok_def)

text \<open>
  The effect of an item on the span \<open>[p, p + n)\<close> with bytes \<open>v\<close> and status \<open>st\<close>: outside nothing
  changes; inside the span is recorded after it is written whole, or it is not recorded.
\<close>

definition item_effect ::
  "nat \<Rightarrow> nat \<Rightarrow> (nat \<Rightarrow> nat) \<Rightarrow> SectorStatus \<Rightarrow> ImageSink \<Rightarrow> (pass_fail + sink_flow) \<Rightarrow> ImageSink \<Rightarrow> bool" where
  "item_effect p n v st s r s' \<longleftrightarrow>
     map_inv (sk_map s') \<and> total_size (sk_map s') = total_size (sk_map s) \<and>
     path (sk_map s') = path (sk_map s) \<and> scope (sk_map s') = scope (sk_map s) \<and>
     (\<forall>b. b < p \<or> p + n \<le> b \<longrightarrow> sk_img s' b = sk_img s b \<and> sk_look s' b = sk_look s b) \<and>
     ((\<forall>b. p \<le> b \<and> b < p + n \<longrightarrow> sk_img s' b = v b \<and> sk_look s' b = Some st) \<or>
      r \<noteq> Inr Continue \<and>
      (\<forall>b. p \<le> b \<and> b < p + n \<longrightarrow> sk_look s' b = sk_look s b \<and>
         (sk_img s' b = v b \<or> sk_img s' b = sk_img s b)))"

lemma not_recorded:
  assumes "map_inv (sk_map s)" and "entries (sk_map s') = entries (sk_map s)" and "map_inv (sk_map s')"
    and "total_size (sk_map s') = total_size (sk_map s)" and "path (sk_map s') = path (sk_map s)"
    and "scope (sk_map s') = scope (sk_map s)" and "r \<noteq> Inr Continue"
    and "\<And>b. b < p \<or> p + n \<le> b \<Longrightarrow> sk_img s' b = sk_img s b"
    and "\<And>b. p \<le> b \<Longrightarrow> b < p + n \<Longrightarrow> sk_img s' b = v b \<or> sk_img s' b = sk_img s b"
  shows "item_effect p n v st s r s'"
  using assms unfolding item_effect_def by auto

lemma record_item_effect:
  assumes inv: "map_inv (sk_map s)" and sp: "span_ok (sk_map s) p n"
    and run: "record_item env p n st s1 = (r, s')" and s1: "sk_map s1 = sk_map s"
    and out: "\<And>b. b < p \<or> p + n \<le> b \<Longrightarrow> sk_img s1 b = sk_img s b"
    and ins: "\<And>b. p \<le> b \<Longrightarrow> b < p + n \<Longrightarrow> sk_img s1 b = v b"
  shows "item_effect p n v st s r s'"
proof -
  obtain q m f where rec: "record_range env p n st (sk_map s1) (sk_fs s1) = (q, m, f)" by (rule prod_cases3)
  have s': "s' = s1\<lparr>sk_map := m, sk_fs := f\<rparr>" using run rec by (simp add: record_item_def)
  note m = record_range_correct [OF inv sp rec [unfolded s1]]
  show ?thesis using m out ins unfolding item_effect_def s' by auto
qed

lemma write_failed_effect:
  assumes inv: "map_inv (sk_map s)" and run: "image_write_failed s1 = (r, s')" and s1: "sk_map s1 = sk_map s"
    and out: "\<And>b. b < p \<or> p + n \<le> b \<Longrightarrow> sk_img s1 b = sk_img s b"
    and ins: "\<And>b. p \<le> b \<Longrightarrow> b < p + n \<Longrightarrow> sk_img s1 b = v b \<or> sk_img s1 b = sk_img s b"
  shows "item_effect p n v st s r s'"
proof -
  have "r = Inl (FileError (OsError 5))" "s' = s1\<lparr>sk_map := (sk_map s)\<lparr>disowned := True\<rparr>\<rparr>"
    using run s1 by (auto simp: image_write_failed_def)
  then show ?thesis using assms by (intro not_recorded) simp_all
qed

lemma apply_good_effect:
  assumes inv: "map_inv (sk_map s)" and sp: "span_ok (sk_map s) p (length buf)"
    and buf: "buf = map disc [p ..< p + length buf]" and run: "apply_good env p buf s = (r, s')"
  shows "item_effect p (length buf) disc Finished s r s'"
proof -
  have nth: "buf ! i = disc (p + i)" if "i < length buf" for i
    using that by (subst buf) simp
  have full: "write_at p buf img b = disc b" if "p \<le> b" "b < p + length buf" for img b
    using that nth [of "b - p"] by (simp add: write_at_in)
  consider (seek) "image_write_failed s = (r, s')"
    | (short) "k_written env < length buf"
        "image_write_failed (s\<lparr>sk_img := write_at p (take (k_written env) buf) (sk_img s)\<rparr>) = (r, s')"
    | (sync) "image_write_failed (s\<lparr>sk_img := write_at p buf (sk_img s)\<rparr>) = (r, s')"
    | (synced) "record_item (k_rec env) p (length buf) Finished
        (s\<lparr>sk_img := write_at p buf (sk_img s), sk_dur := write_at p buf (sk_img s)\<rparr>) = (r, s')"
    | (plain) "record_item (k_rec env) p (length buf) Finished (s\<lparr>sk_img := write_at p buf (sk_img s)\<rparr>) = (r, s')"
    using run unfolding apply_good_def Let_def by (auto split: if_splits)
  then show ?thesis
  proof cases
    case seek
    then show ?thesis by (rule write_failed_effect [OF inv]) simp_all
  next
    case short
    from short(2) show ?thesis
    proof (rule write_failed_effect [OF inv])
      fix b assume b: "p \<le> b" "b < p + length buf"
      have "write_at p (take (k_written env) buf) (sk_img s) b = disc b \<or>
          write_at p (take (k_written env) buf) (sk_img s) b = sk_img s b"
        using b short(1) nth [of "b - p"] by (auto simp: write_at_def)
      then show "sk_img (s\<lparr>sk_img := write_at p (take (k_written env) buf) (sk_img s)\<rparr>) b = disc b \<or>
          sk_img (s\<lparr>sk_img := write_at p (take (k_written env) buf) (sk_img s)\<rparr>) b = sk_img s b" by simp
    qed (auto simp: write_at_def)
  next
    case sync
    then show ?thesis by (rule write_failed_effect [OF inv]) (auto simp: full write_at_out)
  next
    case synced
    then show ?thesis by (rule record_item_effect [OF inv sp]) (auto simp: full write_at_out)
  next
    case plain
    then show ?thesis by (rule record_item_effect [OF inv sp]) (auto simp: full write_at_out)
  qed
qed

lemma fill_loop_bytes:
  "fill_loop env p filled len img = (r, img') \<Longrightarrow> img' b = 0 \<or> img' b = img b"
proof (induction env p filled len img rule: fill_loop.induct)
  case (1 env p filled len img)
  define chunk where "chunk = min (len - filled) ZERO_CHUNK"
  have zeros: "write_at q (replicate n 0) im b = 0 \<or> write_at q (replicate n 0) im b = im b" for q n im
    by (auto simp: write_at_def)
  show ?case
  proof (cases "filled < len \<and> \<not> k_fill_disown env filled")
    case False
    then show ?thesis using "1.prems" by (auto simp: fill_loop.simps [of env p filled] split: if_splits)
  next
    case go: True
    note step = fill_step [of filled len env p img, folded chunk_def, unfolded Let_def]
    show ?thesis
    proof (cases "k_written env < filled + chunk")
      case True
      then show ?thesis using go "1.prems" step zeros [of "p + filled" _ img] by auto
    next
      case False
      then have run: "fill_loop env p (filled + chunk) len (write_at (p + filled) (replicate chunk 0) img) = (r, img')"
        using go "1.prems" step by simp
      have "img' b = 0 \<or> img' b = write_at (p + filled) (replicate chunk 0) img b"
        using go False run chunk_def by (intro "1.IH") auto
      then show ?thesis using zeros [of "p + filled" chunk img] by auto
    qed
  qed
qed

lemma apply_fill_effect:
  assumes inv: "map_inv (sk_map s)" and sp: "span_ok (sk_map s) p n" and run: "apply_fill env p n s = (r, s')"
  shows "item_effect p n (\<lambda>b. 0) NonTrimmed s r s'"
proof (cases "k_seek_ok env")
  case False
  then have "image_write_failed s = (r, s')" using run by (simp add: apply_fill_def)
  then show ?thesis by (rule write_failed_effect [OF inv]) simp_all
next
  case True
  obtain e img where loop: "fill_loop env p 0 n (sk_img s) = (e, img)" by fastforce
  have out: "img b = sk_img s b" if "b < p \<or> p + n \<le> b" for b
    using fill_loop_out [OF loop] that by simp
  have any: "img b = 0 \<or> img b = sk_img s b" for b using fill_loop_bytes [OF loop] .
  show ?thesis
  proof (cases e)
    case FillDone
    then have rec: "record_item (k_rec env) p n NonTrimmed (s\<lparr>sk_img := img\<rparr>) = (r, s')"
      using True run loop by (simp add: apply_fill_def)
    have zero: "img b = 0" if "p \<le> b" "b < p + n" for b
      using fill_loop_done [of env p 0 n] loop FillDone that by simp
    show ?thesis by (rule record_item_effect [OF inv sp rec]) (use out zero in auto)
  next
    case FillStopped
    then have "r = Inr Stop" "s' = s\<lparr>sk_img := img, sk_map := (sk_map s)\<lparr>disowned := True\<rparr>\<rparr>"
      using True run loop by (auto simp: apply_fill_def)
    then show ?thesis using inv out any by (intro not_recorded) simp_all
  next
    case FillFailed
    then have failed: "image_write_failed (s\<lparr>sk_img := img\<rparr>) = (r, s')"
      using True run loop by (simp add: apply_fill_def)
    show ?thesis by (rule write_failed_effect [OF inv failed]) (use out any in auto)
  qed
qed

lemma sweep_apply_effect:
  assumes inv: "map_inv (sk_map s)" and sp: "span_ok (sk_map s) (it_pos it) (it_len it)"
    and it: "item_ok disc it" and run: "sweep_apply env it s = (r, s')"
  shows "item_effect (it_pos it) (it_len it) (it_byte disc it) (it_status it) s r s'"
proof -
  define s1 where "s1 = (if k_disown env then s\<lparr>sk_map := (sk_map s)\<lparr>disowned := True\<rparr>\<rparr> else s)"
  have inv1: "map_inv (sk_map s1)" using inv by (simp add: s1_def)
  have sp1: "span_ok (sk_map s1) p n = span_ok (sk_map s) p n" for p n by (simp add: s1_def span_ok_def)
  have same: "item_effect p n v st s r s' = item_effect p n v st s1 r s'" for p n v st
    by (simp add: item_effect_def s1_def)
  show ?thesis
  proof (cases "disowned (sk_map s1)")
    case True
    then have "r = Inr Stop" "s' = s1" using run by (auto simp: sweep_apply_def Let_def s1_def)
    then show ?thesis using inv1 unfolding same by (intro not_recorded) simp_all
  next
    case False
    then have go: "(case it of Good p buf \<Rightarrow> apply_good env p buf s1 | SkipFill p n \<Rightarrow> apply_fill env p n s1
        | GapFill p n \<Rightarrow> apply_fill env p n s1 | StatsRequest \<Rightarrow> (Inr Continue, s1)) = (r, s')"
      using run unfolding sweep_apply_def Let_def s1_def by simp
    show ?thesis
    proof (cases it)
      case (Good p buf)
      then show ?thesis using go sp it unfolding same
        by (auto intro!: apply_good_effect [OF inv1] simp: sp1)
    next
      case (SkipFill p n)
      then show ?thesis using go sp unfolding same by (auto intro!: apply_fill_effect [OF inv1] simp: sp1)
    next
      case (GapFill p n)
      then show ?thesis using go sp unfolding same by (auto intro!: apply_fill_effect [OF inv1] simp: sp1)
    next
      case StatsRequest
      then show ?thesis using it by simp
    qed
  qed
qed

lemma image_ok_effect:
  assumes ok: "image_ok disc s" and eff: "item_effect p n v st s r s'"
    and v: "st = Finished \<Longrightarrow> v = disc"
    and fresh: "\<And>b. st \<noteq> Finished \<Longrightarrow> p \<le> b \<Longrightarrow> b < p + n \<Longrightarrow> sk_look s b \<noteq> Some Finished"
  shows "image_ok disc s'"
proof -
  have "sk_img s' b = disc b" if fin: "sk_look s' b = Some Finished" for b
  proof (cases "p \<le> b \<and> b < p + n")
    case False
    then show ?thesis using eff ok fin by (auto simp: item_effect_def image_ok_def)
  next
    case True
    from eff consider "sk_img s' b = v b" "sk_look s' b = Some st"
      | "sk_look s' b = sk_look s b" "sk_img s' b = v b \<or> sk_img s' b = sk_img s b"
      using True unfolding item_effect_def by blast
    then show ?thesis
    proof cases
      case 1
      then show ?thesis using fin v by simp
    next
      case two: 2
      then have was: "sk_look s b = Some Finished" using fin by simp
      then have "st = Finished" using fresh True by blast
      then show ?thesis using two(2) v was ok by (auto simp: image_ok_def)
    qed
  qed
  then show ?thesis using eff by (simp add: image_ok_def item_effect_def)
qed

subsection \<open>All items\<close>

abbreviation span :: "work_item \<Rightarrow> range" where
  "span it \<equiv> (it_pos it, it_len it)"

definition items_fit :: "(nat \<Rightarrow> nat) \<Rightarrow> Mapfile \<Rightarrow> work_item list \<Rightarrow> bool" where
  "items_fit disc m its \<longleftrightarrow>
     (\<forall>it \<in> set its. item_ok disc it \<and> it_pos it + it_len it \<le> total_size m) \<and>
     (\<forall>b \<in> bytes_of (map span its). look (entries m) b \<noteq> Some Finished)"

lemma item_ok_span: "item_ok disc it \<Longrightarrow> it_pos it + it_len it \<le> total_size m \<Longrightarrow> span_ok m (it_pos it) (it_len it)"
  by (cases it) (auto simp: span_ok_def)

lemma fills_fresh:
  assumes "items_fit disc (sk_map s) (it # its)" and "image_ok disc s"
    and "item_effect (it_pos it) (it_len it) (it_byte disc it) (it_status it) s r s'"
  shows "image_ok disc s'"
proof (rule image_ok_effect [OF assms(2,3)])
  show "it_status it = Finished \<Longrightarrow> it_byte disc it = disc" by (cases it) auto
  show "\<And>b. it_status it \<noteq> Finished \<Longrightarrow> it_pos it \<le> b \<Longrightarrow> b < it_pos it + it_len it \<Longrightarrow> sk_look s b \<noteq> Some Finished"
    using assms(1) by (auto simp: items_fit_def)
qed

lemma items_fit_Cons:
  assumes fit: "items_fit disc (sk_map s) (it # its)" and disj: "disj_from c (map span (it # its))"
    and eff: "item_effect (it_pos it) (it_len it) v st s r s'"
  shows "items_fit disc (sk_map s') its"
proof -
  have "bytes_of (map span its) \<subseteq> {it_pos it + it_len it ..}" using disj disj_from_lower by auto
  then have "\<forall>b \<in> bytes_of (map span its). sk_look s' b = sk_look s b"
    using eff by (auto simp: item_effect_def)
  then show ?thesis using fit eff by (auto simp: items_fit_def item_effect_def)
qed

lemma apply_items_ok:
  assumes "image_ok disc s" and "items_fit disc (sk_map s) (map snd xs)"
    and "disj_from c (map span (map snd xs))" and "apply_items xs s = (r, s')"
  shows "image_ok disc s' \<and> total_size (sk_map s') = total_size (sk_map s) \<and>
    scope (sk_map s') = scope (sk_map s) \<and>
    (\<forall>b. b \<notin> bytes_of (map span (map snd xs)) \<longrightarrow> sk_look s' b = sk_look s b \<and> sk_img s' b = sk_img s b) \<and>
    (r = Inr Continue \<longrightarrow> (\<forall>it \<in> set (map snd xs). \<forall>b. it_pos it \<le> b \<and> b < it_pos it + it_len it \<longrightarrow>
       sk_look s' b = Some (it_status it) \<and> sk_img s' b = it_byte disc it b))"
  using assms
proof (induction xs arbitrary: s c)
  case Nil
  then show ?case by auto
next
  case (Cons x xs)
  let ?it = "snd x"
  obtain r1 s1 where step: "sweep_apply (fst x) ?it s = (r1, s1)" by fastforce
  have fit: "items_fit disc (sk_map s) (?it # map snd xs)" using Cons.prems(2) by simp
  then have it: "item_ok disc ?it" "span_ok (sk_map s) (it_pos ?it) (it_len ?it)"
    by (auto simp: items_fit_def intro: item_ok_span)
  have "map_inv (sk_map s)" using Cons.prems(1) by (simp add: image_ok_def)
  note eff = sweep_apply_effect [OF this it(2,1) step]
  have disj: "disj_from c (map span (?it # map snd xs))" using Cons.prems(3) by simp
  have ok1: "image_ok disc s1" by (rule fills_fresh [OF fit Cons.prems(1) eff])
  have out: "\<forall>b. b < it_pos ?it \<or> it_pos ?it + it_len ?it \<le> b \<longrightarrow> sk_look s1 b = sk_look s b \<and> sk_img s1 b = sk_img s b"
    and tot: "total_size (sk_map s1) = total_size (sk_map s)" "scope (sk_map s1) = scope (sk_map s)" using eff by (auto simp: item_effect_def)
  show ?case
  proof (cases "r1 = Inr Continue")
    case False
    then have "r = r1" "s' = s1" using Cons.prems(4) step by (auto split: sum.splits sink_flow.splits)
    then show ?thesis using ok1 tot out False by auto
  next
    case True
    then have rest: "apply_items xs s1 = (r, s')" using Cons.prems(4) step by simp
    have dis: "disj_from (it_pos ?it + it_len ?it) (map span (map snd xs))" using disj by simp
    note IH = Cons.IH [OF ok1 items_fit_Cons [OF fit disj eff] dis rest]
    have own: "sk_look s' b = Some (it_status ?it) \<and> sk_img s' b = it_byte disc ?it b"
      if b: "it_pos ?it \<le> b" "b < it_pos ?it + it_len ?it" for b
    proof -
      have "b \<notin> bytes_of (map span (map snd xs))" using disj_from_lower [OF dis] b by auto
      then have "sk_look s' b = sk_look s1 b" "sk_img s' b = sk_img s1 b" using IH by blast+
      then show ?thesis using eff True b by (auto simp: item_effect_def)
    qed
    have rb: "sk_look s' b = sk_look s b \<and> sk_img s' b = sk_img s b"
      if "b \<notin> bytes_of (map span (map snd (x # xs)))" for b
    proof -
      have "b \<notin> bytes_of (map span (map snd xs))" "b < it_pos ?it \<or> it_pos ?it + it_len ?it \<le> b"
        using that by auto
      then show ?thesis using IH out by metis
    qed
    have all: "\<forall>it \<in> set (map snd (x # xs)). \<forall>b. it_pos it \<le> b \<and> b < it_pos it + it_len it \<longrightarrow>
        sk_look s' b = Some (it_status it) \<and> sk_img s' b = it_byte disc it b" if "r = Inr Continue"
      using IH own that unfolding list.map set_simps ball_simps by blast
    show ?thesis using IH rb tot all by (intro conjI) (simp_all only: simp_thms, metis+)
  qed
qed

end
