(* ===== verification/SweepPass.thy ===== *)
theory SweepPass
  imports SweepSinkInv
begin

text \<open>
  Pass 1 as a whole: the producer reads the regions, the consumer applies what was sent. The theorems
  hold for every fault of the drive, the queue, the image file and the map file.
\<close>

lemma snap_id: "aligned r \<Longrightarrow> fst r + snd r \<le> u32_max * SECTOR \<Longrightarrow> snap r = r"
proof -
  assume a: "aligned r" and fit: "fst r + snd r \<le> u32_max * SECTOR"
  obtain i j where r: "fst r = SECTOR * i" "snd r = SECTOR * j" using a by (auto simp: aligned_def elim!: dvdE)
  have "(SECTOR * i + SECTOR * j) = (i + j) * SECTOR" by (simp add: algebra_simps)
  moreover have "(i + j) * SECTOR \<le> u32_max * SECTOR" using fit r by (simp add: algebra_simps)
  then have "i + j \<le> u64_max div SECTOR" using SECTOR_pos by (simp add: SECTOR_def u32_max_def u64_max_def)
  moreover have "div_ceil ((i + j) * SECTOR) SECTOR = i + j"
    by (simp add: div_ceil_def SECTOR_def)
  ultimately have "min (div_ceil (fst r + snd r) SECTOR * SECTOR) ((u64_max div SECTOR) * SECTOR) = (i + j) * SECTOR"
    using r by (simp add: min_def)
  then show ?thesis using r by (simp add: snap_def snap_to_sectors_def Let_def prod_eq_iff algebra_simps)
qed

text \<open>The regions of a pass: sorted, whole sectors, bytes the map calls NonTried.\<close>

definition regions_ok :: "Mapfile \<Rightarrow> range list \<Rightarrow> bool" where
  "regions_ok m rs \<longleftrightarrow>
     disj_from 0 rs \<and> (\<forall>r \<in> set rs. aligned r) \<and>
     (\<forall>b \<in> bytes_of rs. look (entries m) b = Some NonTried)"

lemma disj_from_ends: "disj_from c rs \<Longrightarrow> r \<in> set rs \<Longrightarrow> 0 < snd r"
  by (induction c rs rule: disj_from.induct) auto

lemma regions_fit:
  assumes "map_inv m" and "regions_ok m rs" and "r \<in> set rs"
  shows "fst r + snd r \<le> total_size m" and "snap r = r"
proof -
  have "disj_from 0 rs" using assms(2) by (simp add: regions_ok_def)
  then have n: "0 < snd r" using assms(3) by (rule disj_from_ends)
  then have "fst r + snd r - 1 \<in> bytes_of rs" using assms(3) by (auto simp: bytes_of_def intro!: bexI [of _ r])
  then have "fst r + snd r - 1 < total_size m"
    using assms map_inv_look [OF assms(1), of "fst r + snd r - 1"] by (auto simp: regions_ok_def)
  then show fit: "fst r + snd r \<le> total_size m" using n by linarith
  then have "fst r + snd r \<le> u32_max * SECTOR" using assms(1) by (simp add: map_inv_def)
  then show "snap r = r" using assms by (intro snap_id) (auto simp: regions_ok_def)
qed

lemma regions_snap: "map_inv m \<Longrightarrow> regions_ok m rs \<Longrightarrow> map snap rs = rs"
  by (simp add: map_idI regions_fit(2))

lemma span_in_bytes: "it \<in> set its \<Longrightarrow> 0 < it_len it \<Longrightarrow> it_pos it + it_len it - 1 \<in> bytes_of (map span its)"
  by (auto simp: bytes_of_def intro!: bexI [of _ it])

text \<open>What the producer sends fits the map the consumer starts from.\<close>

lemma log_fits:
  assumes "map_inv m" and "regions_ok m rs" and "log_ok disc rs its"
  shows "items_fit disc m (rev its)" and "disj_from 0 (map span (rev its))"
proof -
  have sp: "map span (rev its) = spans_of its" by (simp add: spans_of_def rev_map)
  have sub: "bytes_of (map span (rev its)) \<subseteq> bytes_of rs"
    using assms(3) regions_snap [OF assms(1,2)] by (simp add: log_ok_def sp)
  have non: "look (entries m) b = Some NonTried" if "b \<in> bytes_of (map span (rev its))" for b
    using that sub assms(2) by (auto simp: regions_ok_def)
  have "it_pos it + it_len it \<le> total_size m" if it: "it \<in> set its" "item_ok disc it" for it
  proof -
    have n: "0 < it_len it" using it(2) by (rule item_ok_pos)
    then have "it_pos it + it_len it - 1 \<in> bytes_of (map span (rev its))" using it(1) by (intro span_in_bytes) simp_all
    then have "it_pos it + it_len it - 1 < total_size m" using non map_inv_look [OF assms(1)] by blast
    then show ?thesis using n by linarith
  qed
  then show "items_fit disc m (rev its)" using assms(3) non by (auto simp: items_fit_def log_ok_def)
  show "disj_from 0 (map span (rev its))" using assms(3) by (simp add: log_ok_def sp)
qed

lemma regions_end:
  assumes "map_inv m" and "regions_ok m rs"
  shows "disj_from 0 (map snap rs)" and "\<forall>r \<in> set rs. fst (snap r) + snd (snap r) \<le> (u32_max + 1) * SECTOR"
proof -
  show "disj_from 0 (map snap rs)" using regions_snap [OF assms] assms(2) by (simp add: regions_ok_def)
  have "total_size m \<le> u32_max * SECTOR" using assms(1) by (simp add: map_inv_def)
  then show "\<forall>r \<in> set rs. fst (snap r) + snd (snap r) \<le> (u32_max + 1) * SECTOR"
    using regions_fit [OF assms] by fastforce
qed

subsection \<open>A sample pass\<close>

text \<open>A disc of sevens, the sample map beside an image that holds its Finished bytes, a drive that reads.\<close>

definition sample_sink :: ImageSink where
  "sample_sink =
     \<lparr>sk_img = (\<lambda>b. if b < 8192 then 7 else 0), sk_dur = (\<lambda>b. 0), sk_map = sample_map,
      sk_fs = sample_fs, is_regular = True\<rparr>"

definition sample_cfg :: SweepCfg where
  "sample_cfg =
     \<lparr>c_batch = 2, c_skip_on_error = True, c_unit_block_end = (\<lambda>a b. b),
      c_short_read = \<lparr>e_kind = DiscRead, scsi_sense = None, is_scsi_transport_failure = False,
        is_bridge_degradation = False, scsi_status = 0\<rparr>\<rparr>"

definition free_pipe :: PipeView where
  "free_pipe = \<lparr>v_failed = False, v_try = TryOk, v_sent = True, v_cancelled = False,
     v_failed_after = False, v_retry = TryOk\<rparr>"

definition sample_read :: IterEnv where
  "sample_read = \<lparr>i_cancelled = False, i_now = 0, i_read = (\<lambda>lba n rc. (Inr (n * SECTOR), \<lambda>i. 7)),
     i_send = free_pipe, i_send_gap = free_pipe, i_pause_cut = False, i_stop_at_report = False\<rparr>"

definition sample_sink_env :: SinkEnv where
  "sample_sink_env = \<lparr>k_disown = False, k_seek_ok = True, k_written = 4096, k_sync_ok = True,
     k_fill_disown = (\<lambda>_. False), k_rec = good_env\<rparr>"

definition sample_buf :: "nat list" where
  "sample_buf = replicate 4096 7"

lemma sample_buf_length [simp]: "length sample_buf = 4096"
  unfolding sample_buf_def by (rule length_replicate)

lemma sample_cfg_ok: "cfg_ok sample_cfg"
  by (auto simp: cfg_ok_def sample_cfg_def)

lemma sample_image_ok: "image_ok (\<lambda>_. 7) sample_sink"
  using sample_inv(1) by (simp add: image_ok_def sample_sink_def sample_map_def)

lemma sample_faithful: "\<forall>env \<in> set (replicate n sample_read). faithful (\<lambda>_. 7) env"
  by (simp add: faithful_def sample_read_def)

lemma sample_regions_ok: "regions_ok sample_map [(12288, 4096)]"
  by (auto simp: regions_ok_def sample_map_def aligned_def SECTOR_def u64_max_def)

lemma sample_snap: "snap_to_sectors 12288 4096 = (12288, 4096)"
  using regions_fit(2) [OF sample_inv(1) sample_regions_ok, of "(12288, 4096)"] by (simp add: snap_def)

lemma sample_sent: "send_item free_pipe = Inr ()"
  by (simp add: send_item_def send_bounded_within_def free_pipe_def)

lemma sample_iter:
  "sweep_iter sample_cfg 16384 sample_read (producer_init 2\<lparr>p_pos := 12288\<rparr>) =
     \<lparr>p_pos = 16384, p_ctx = on_success 0 (for_sweep 2), p_items = [Good 12288 sample_buf],
      p_speeds = [MAX_SPEED], bytes_done = 4096, bytes_good_done = 4096, p_exit = None\<rparr>"
proof -
  have bb: "block_bytes_at sample_cfg 12288 16384 = 4096"
    by (simp add: block_bytes_at_def sample_cfg_def SECTOR_def)
  have buf: "map (\<lambda>i. 7) [0..<4096] = sample_buf"
    by (simp add: map_replicate_const sample_buf_def del: upt_rec_numeral)
  have "require_full_read (c_short_read sample_cfg) 4096 (Inr (2 * SECTOR)) = Inr 4096"
    by (simp add: require_full_read_def SECTOR_def)
  then show ?thesis
    using sample_sent
    by (simp add: sweep_iter_def bb producer_init_def sample_read_def buf SECTOR_def Let_def good_read_def
        p_send_def then_run_def for_sweep_def sat_add_def u64_max_def del: upt_rec_numeral)
qed

subsection \<open>What a pass does\<close>

text \<open>
C3: A sector Pass 1 marks Finished holds the disc's data, whatever fails: after any run, in which reads,
sends, image writes, syncs and map writes fail anywhere, the image has the disc's bytes wherever the
map says Finished; outside the regions nothing changed; and a run that went through with every item
applied leaves each byte of the regions either recovered or zero-filled and marked for the next pass.
\<close>

theorem sweep_pass_integrity:
  assumes "cfg_ok cfg" and "image_ok disc s" and "regions_ok (sk_map s) rs"
    and "\<forall>env \<in> set es. faithful disc env"
    and "produce cfg rs es = (p, over)" and "map snd ks = rev (p_items p)" and "apply_items ks s = (r, s')"
  shows "image_ok disc s' \<and>
    (\<forall>b. b \<notin> bytes_of rs \<longrightarrow> sk_look s' b = sk_look s b \<and> sk_img s' b = sk_img s b) \<and>
    (over \<and> p_exit p = None \<and> r = Inr Continue \<longrightarrow>
      (\<forall>b \<in> bytes_of rs. (sk_look s' b = Some Finished \<and> sk_img s' b = disc b) \<or>
         (sk_look s' b = Some NonTrimmed \<and> sk_img s' b = 0)))"
proof -
  have inv: "map_inv (sk_map s)" using assms(2) by (simp add: image_ok_def)
  note pr = produce_ok [OF assms(1) regions_end [OF inv assms(3)] assms(4,5)]
  note fit = log_fits [OF inv assms(3) pr(1)]
  note ap = apply_items_ok [OF assms(2) fit [folded assms(6)] assms(7)]
  have sp: "bytes_of (map span (map snd ks)) = bytes_of (spans_of (p_items p))"
    by (simp add: assms(6) spans_of_def rev_map)
  have sub: "bytes_of (spans_of (p_items p)) \<subseteq> bytes_of rs"
    using pr(1) regions_snap [OF inv assms(3)] by (simp add: log_ok_def)
  have done_: "(sk_look s' b = Some Finished \<and> sk_img s' b = disc b) \<or>
      (sk_look s' b = Some NonTrimmed \<and> sk_img s' b = 0)"
    if fin: "over" "p_exit p = None" "r = Inr Continue" and b: "b \<in> bytes_of rs" for b
  proof -
    have "b \<in> bytes_of (map span (map snd ks))"
      using pr(2) [OF fin(1,2)] b regions_snap [OF inv assms(3)] sp by simp
    then obtain it where it: "it \<in> set (map snd ks)" "it_pos it \<le> b" "b < it_pos it + it_len it"
      by (auto simp: bytes_of_def)
    then have "sk_look s' b = Some (it_status it)" "sk_img s' b = it_byte disc it b" using ap fin(3) by blast+
    then show ?thesis by (cases it) auto
  qed
  show ?thesis using ap sub done_ unfolding sp by blast
qed

lemma sample_produce:
  "produce sample_cfg [(12288, 4096)] [sample_read] =
     (\<lparr>p_pos = 16384, p_ctx = on_success 0 (for_sweep 2), p_items = [Good 12288 sample_buf],
       p_speeds = [MAX_SPEED], bytes_done = 4096, bytes_good_done = 4096, p_exit = None\<rparr>, True)"
proof -
  let ?s = "producer_init 2\<lparr>p_pos := 12288\<rparr>"
  have init: "p_exit ?s = None" "p_pos ?s = 12288" "c_batch sample_cfg = 2"
    by (simp_all add: producer_init_def sample_cfg_def)
  have "sweep_region sample_cfg 16384 [sample_read] ?s = (sweep_iter sample_cfg 16384 sample_read ?s, [])"
    using init by simp
  then show ?thesis
    unfolding produce_def init(3) sweep_regions.simps Let_def fst_conv snd_conv sample_snap
    using sample_iter by (simp add: region_over_def)
qed

lemma sample_record: "fst (record_range good_env 12288 4096 Finished sample_map f) = Inr ()"
proof -
  have own: "\<not> disowned (splice 12288 16384 Finished sample_map)"
    by (simp add: splice_def sample_map_def)
  have "fst (changed good_env (splice 12288 16384 Finished sample_map) f) = Inr ()"
    using own by (simp add: changed_def Let_def good_persist)
  then show ?thesis by (simp add: record_range_def checked_add_def u64_max_def)
qed

lemma sample_apply:
  "fst (apply_items [(sample_sink_env, Good 12288 sample_buf)] sample_sink) = Inr Continue"
proof -
  have rec: "fst (record_item good_env 12288 4096 Finished s) = Inr Continue" if "sk_map s = sample_map" for s
    using sample_record [of "sk_fs s"] that by (auto simp: record_item_def split: prod.splits)
  have env: "k_disown sample_sink_env = False" "k_seek_ok sample_sink_env" "k_written sample_sink_env = 4096"
    "k_sync_ok sample_sink_env" "k_rec sample_sink_env = good_env" "sk_map sample_sink = sample_map"
    "\<not> disowned sample_map"
    by (simp_all add: sample_sink_env_def sample_sink_def sample_map_def)
  have "fst (sweep_apply sample_sink_env (Good 12288 sample_buf) sample_sink) = Inr Continue"
    using env rec by (simp add: sweep_apply_def apply_good_def Let_def)
  then show ?thesis by (auto split: prod.splits)
qed

theorem sweep_pass_integrity_witness:
  "sk_look (snd (apply_items [(sample_sink_env, Good 12288 sample_buf)] sample_sink)) 13000 = Some Finished \<or>
   sk_look (snd (apply_items [(sample_sink_env, Good 12288 sample_buf)] sample_sink)) 13000 = Some NonTrimmed"
proof -
  let ?ks = "[(sample_sink_env, Good 12288 sample_buf)]"
  obtain s' where run: "apply_items ?ks sample_sink = (Inr Continue, s')"
    using sample_apply by (metis prod.collapse)
  have "regions_ok (sk_map sample_sink) [(12288, 4096)]" using sample_regions_ok by (simp add: sample_sink_def)
  from sweep_pass_integrity [OF sample_cfg_ok sample_image_ok this _ sample_produce _ run]
  have "\<forall>b \<in> bytes_of [(12288, 4096)]. sk_look s' b = Some Finished \<or> sk_look s' b = Some NonTrimmed"
    using sample_faithful [of 1] by auto
  then show ?thesis using run by simp
qed

text \<open>
C21: Pass 1 ends: nine loop iterations for each sector of the regions and nine for each region are enough,
whatever the reader answers and however the handler jumps or retries.
\<close>

theorem sweep_terminates:
  assumes "cfg_ok cfg" and "map_inv m" and "regions_ok m rs" and "\<forall>env \<in> set es. faithful disc env"
    and "sum_list (map (\<lambda>r. 9 * (snd r div SECTOR) + 9) rs) \<le> length es"
  shows "snd (produce cfg rs es)"
proof -
  obtain p over where run: "produce cfg rs es = (p, over)" by fastforce
  have "region_budget rs = sum_list (map (\<lambda>r. 9 * (snd r div SECTOR) + 9) rs)"
    using regions_fit(2) [OF assms(2,3)] unfolding region_budget_def by (intro arg_cong [where f = sum_list] map_cong) auto
  then show ?thesis
    using produce_ok(3) [OF assms(1) regions_end [OF assms(2,3)] assms(4) run] assms(5) run by simp
qed

theorem sweep_terminates_witness: "snd (produce sample_cfg [(12288, 4096)] (replicate 27 sample_read))"
  by (rule sweep_terminates [OF sample_cfg_ok sample_inv(1) sample_regions_ok sample_faithful])
    (simp add: SECTOR_def)

text \<open>
The counters of Pass 1 are exact: the position counts the bytes of every item sent, the recovered
count only those of good items, so it never passes the position, and neither passes the regions' size.
\<close>

theorem sweep_counters_exact:
  assumes "cfg_ok cfg" and "map_inv m" and "regions_ok m rs" and "\<forall>env \<in> set es. faithful disc env"
    and "produce cfg rs es = (p, over)"
  shows "bytes_done p = sum_list (map it_len (p_items p)) \<and>
    bytes_good_done p = sum_list (map it_good (p_items p)) \<and>
    bytes_good_done p \<le> bytes_done p \<and> bytes_done p \<le> card (bytes_of rs)"
proof -
  note pr = produce_ok [OF assms(1) regions_end [OF assms(2,3)] assms(4,5)]
  have d: "disj_from 0 (spans_of (p_items p))" "bytes_of (spans_of (p_items p)) \<subseteq> bytes_of rs"
    using pr(1) regions_snap [OF assms(2,3)] by (simp_all add: log_ok_def)
  have card: "disj_from c xs \<Longrightarrow> card (bytes_of xs) = sum_list (map snd xs)" for c xs
  proof (induction c xs rule: disj_from.induct)
    case (2 c p n rs)
    have "{p ..< p + n} \<inter> bytes_of rs = {}" using "2.prems" disj_from_lower by fastforce
    then show ?case using 2 by (simp add: card_Un_disjoint)
  qed simp
  have "sum_list (map snd (spans_of (p_items p))) = log_bytes (p_items p)"
    by (simp add: spans_of_def log_bytes_def rev_map [symmetric] comp_def)
  then have le: "log_bytes (p_items p) \<le> card (bytes_of rs)" using card [OF d(1)] card_mono [OF _ d(2)] by simp
  have "bytes_of rs \<subseteq> {..< total_size m}"
    using assms(3) map_inv_look [OF assms(2)] by (force simp: regions_ok_def)
  then have "card (bytes_of rs) \<le> total_size m" using card_mono [of "{..< total_size m}" "bytes_of rs"] by simp
  then have fits: "card (bytes_of rs) \<le> u64_max" using assms(2) total_fits by (force simp: map_inv_def)
  have "bytes_done p = log_bytes (p_items p)" "bytes_good_done p = good_bytes (p_items p)"
    using pr(4,5) le fits good_bytes_le [of "p_items p"] by simp_all
  then show ?thesis using le good_bytes_le [of "p_items p"] by (simp add: log_bytes_def good_bytes_def)
qed

theorem sweep_counters_exact_witness:
  "bytes_done (fst (produce sample_cfg [(12288, 4096)] [sample_read])) =
     sum_list (map it_len (p_items (fst (produce sample_cfg [(12288, 4096)] [sample_read]))))"
  using sweep_counters_exact [OF sample_cfg_ok sample_inv(1) sample_regions_ok _ sample_produce]
    sample_faithful [of 1] by (simp add: sample_produce)

end
