(* ===== verification/CopyDispatch.thy ===== *)
theory CopyDispatch
  imports SweepPass
begin

text \<open>
  What an interrupted rip resumes with: the copy dispatch \<open>copy_titled\<close>, the resume decision and the
  set-up of a sweep, the whole-image checks (\<open>src/src/recovery/mod.rs\<close>).

  Preflight checks of other modules (\<open>ensure_decryptable\<close>, \<open>ensure_image_debussable\<close>,
  \<open>image_read_sectors\<close>) enter as their results. The undo log of renamed files does not touch the
  image's bytes here and is left to its own module; the ranges it makes a pass skip are an argument.
\<close>

subsection \<open>Metadata of the image\<close>

text \<open>The result of a \<open>stat\<close>: whether the path is a regular file, and the length it reports.\<close>

type_synonym metadata = "io_error + bool \<times> u64"

datatype IsoLen = IsoMissing | IsoLen u64

definition iso_len_from_metadata :: "metadata \<Rightarrow> io_error + IsoLen" where
  "iso_len_from_metadata m =
     (case m of
        Inr (_, n) \<Rightarrow> Inr (IsoLen n)
      | Inl e \<Rightarrow> (if e = NotFound then Inr IsoMissing else Inl e))"

record ImageState =
  img_len :: u64
  img_want :: u64

definition is_intact :: "ImageState \<Rightarrow> bool" where
  "is_intact s = (img_len s = img_want s)"

definition is_short :: "ImageState \<Rightarrow> bool" where
  "is_short s = (img_len s < img_want s)"

definition image_state :: "metadata \<Rightarrow> u64 \<Rightarrow> io_error + ImageState" where
  "image_state meta want =
     (case meta of
        Inr (False, _) \<Rightarrow> Inr \<lparr>img_len = want, img_want = want\<rparr>
      | _ \<Rightarrow> bind_res (iso_len_from_metadata meta) (\<lambda>l.
          Inr \<lparr>img_len = (case l of IsoMissing \<Rightarrow> 0 | IsoLen n \<Rightarrow> n), img_want = want\<rparr>))"

definition no_image :: "metadata \<Rightarrow> io_error + bool" where
  "no_image meta =
     (case meta of
        Inr (is_file, n) \<Rightarrow> Inr (is_file \<and> n = 0)
      | Inl e \<Rightarrow> (if e = NotFound then Inr True else Inl e))"

definition output_is_regular :: "metadata \<Rightarrow> bool" where
  "output_is_regular m = (case m of Inr (is_file, _) \<Rightarrow> is_file | Inl _ \<Rightarrow> True)"

definition stale_mapfile_removed :: "io_error + unit \<Rightarrow> io_error + unit" where
  "stale_mapfile_removed r =
     (case r of
        Inr _ \<Rightarrow> Inr ()
      | Inl e \<Rightarrow> (if e = NotFound then Inr () else Inl e))"

definition DEFAULT_BATCH_SECTORS_OPTICAL :: nat where "DEFAULT_BATCH_SECTORS_OPTICAL = 60"

definition sweep_batch_sectors :: "nat option \<Rightarrow> bool \<Rightarrow> nat \<Rightarrow> nat" where
  "sweep_batch_sectors requested skip_on_error ecc_block =
     (case requested of
        Some b \<Rightarrow> max b 1
      | None \<Rightarrow> (if skip_on_error then ecc_block else DEFAULT_BATCH_SECTORS_OPTICAL))"

subsection \<open>Results\<close>

record CopyResult =
  cr_total :: u64
  cr_good :: u64
  cr_unreadable :: u64
  cr_pending :: u64
  recovered_this_pass :: u64
  complete :: bool
  cr_halted :: bool

definition copy_result :: "u64 \<Rightarrow> u64 \<Rightarrow> u64 \<Rightarrow> u64 \<Rightarrow> u64 \<Rightarrow> bool \<Rightarrow> CopyResult" where
  "copy_result tot good unreadable pending recovered halted =
     \<lparr>cr_total = tot, cr_good = good, cr_unreadable = unreadable, cr_pending = pending,
      recovered_this_pass = recovered, complete = (pending = 0 \<and> unreadable = 0 \<and> \<not> halted),
      cr_halted = halted\<rparr>"

datatype copy_error = Gate lib_error | CopyIo io_error | ImageScoped | DiscTitleRange nat nat

definition copy_io :: "io_error + 'a \<Rightarrow> copy_error + 'a" where
  "copy_io r = (case r of Inl e \<Rightarrow> Inl (CopyIo e) | Inr x \<Rightarrow> Inr x)"

definition is_invalid_data :: "io_error \<Rightarrow> bool" where
  "is_invalid_data e = (case e of MapfileInvalid _ \<Rightarrow> True | NotUtf8 \<Rightarrow> True | _ \<Rightarrow> False)"

fun gates :: "(lib_error + unit) list \<Rightarrow> copy_error + unit" where
  "gates [] = Inr ()"
| "gates (Inl e # gs) = Inl (Gate e)"
| "gates (Inr _ # gs) = gates gs"

subsection \<open>The copy dispatch\<close>

datatype copy_action = RunSweep bool | RunPatch | Report CopyResult

record CopyEnv =
  ce_gates :: "(lib_error + unit) list"
  ce_read :: map_read
  ce_no_image :: metadata
  ce_flush :: WriteEnv
  ce_drop :: WriteEnv
  ce_image :: metadata
  ce_id :: DiscIdentity
  ce_decrypt :: bool
  ce_multipass :: bool
  ce_capacity :: u64

text \<open>The decision over a map that names this disc, in this mode.\<close>

definition dispatch_stats :: "CopyEnv \<Rightarrow> Mapfile \<Rightarrow> ImageState \<Rightarrow> copy_action" where
  "dispatch_stats env m im =
     (let st = stats m;
          disc_size = ce_capacity env;
          covers_disc = (total_size m = disc_size);
          bad_bytes = wadd (bytes_pending st) (bytes_unreadable st)
      in if covers_disc \<and> bad_bytes = 0 \<and> bytes_nontried st = 0 \<and> \<not> is_intact im then RunSweep False
         else if covers_disc \<and> bad_bytes = 0 \<and> bytes_nontried st = 0 \<and> is_intact im
         then Report (copy_result disc_size (bytes_good st) (bytes_unreadable st) 0 0 False)
         else if \<not> covers_disc then RunSweep False
         else if bytes_nontried st > 0 then RunSweep True
         else if ce_multipass env
         then (if bytes_retryable st > 0 then RunPatch
               else Report (copy_result disc_size (bytes_good st) (bytes_unreadable st) 0 0 False))
         else Report (copy_result disc_size (bytes_good st) (bytes_unreadable st) (bytes_pending st) 0 False))"

text \<open>
  A scoped image is widened to the whole disc once its identity is checked. A map whose flush failed is dropped,
  which flushes it again.
\<close>

definition widen :: "CopyEnv \<Rightarrow> Mapfile \<Rightarrow> fs \<Rightarrow> (io_error + Mapfile) \<times> fs" where
  "widen env m f =
     (if scope m = None then (Inr m, f)
      else case check_identity m (ce_id env) of
             Inl e \<Rightarrow> (Inl e, f)
           | Inr _ \<Rightarrow>
               (case flush (ce_flush env) (clear_scope m) f of
                  (Inl e, m', f') \<Rightarrow> (Inl e, drop_map (ce_drop env) m' f')
                | (Inr _, m', f') \<Rightarrow> (Inr m', f')))"

definition dispatch_map :: "CopyEnv \<Rightarrow> Mapfile \<Rightarrow> io_error + copy_action" where
  "dispatch_map env m =
     bind_res (check_identity m (ce_id env)) (\<lambda>_.
       if raw m = Some (ce_decrypt env) then Inr (RunSweep False)
       else bind_res (image_state (ce_image env) (ce_capacity env)) (\<lambda>im.
         Inr (dispatch_stats env m im)))"

text \<open>The other disc's map without an image: \<open>?\<close> propagates a failed stat only when the identities differ.\<close>

definition other_disc_no_image :: "CopyEnv \<Rightarrow> Mapfile \<Rightarrow> io_error + bool" where
  "other_disc_no_image env m =
     (case check_identity m (ce_id env) of
        Inl _ \<Rightarrow> no_image (ce_no_image env)
      | Inr _ \<Rightarrow> Inr False)"

definition dispatch_loaded :: "CopyEnv \<Rightarrow> Mapfile \<Rightarrow> fs \<Rightarrow> (io_error + copy_action) \<times> fs" where
  "dispatch_loaded env m f =
     (case other_disc_no_image env m of
        Inl e \<Rightarrow> (Inl e, f)
      | Inr True \<Rightarrow> (Inr (RunSweep False), f)
      | Inr False \<Rightarrow>
          (case widen env m f of
             (Inl e, f') \<Rightarrow> (Inl e, f')
           | (Inr m', f') \<Rightarrow> (dispatch_map env m', f')))"

definition copy_titled ::
  "(nat \<Rightarrow> string \<Rightarrow> nat list option) \<Rightarrow> (string \<Rightarrow> nat list \<Rightarrow> nat list) \<Rightarrow> CopyEnv \<Rightarrow> string \<Rightarrow> fs \<Rightarrow>
   (copy_error + copy_action) \<times> fs" where
  "copy_titled ph sh env mf f =
     (case gates (ce_gates env) of
        Inl e \<Rightarrow> (Inl e, f)
      | Inr _ \<Rightarrow>
          (if f mf = None then (Inr (RunSweep False), f)
           else case load ph sh (ce_read env) f mf of
                  Inl e \<Rightarrow> (if is_invalid_data e then (Inr (RunSweep False), f) else (Inl (CopyIo e), f))
                | Inr m \<Rightarrow> (case dispatch_loaded env m f of (r, f') \<Rightarrow> (copy_io r, f'))))"

subsection \<open>The checks of a whole image\<close>

definition ensure_whole_image :: "io_error + Mapfile \<Rightarrow> copy_error + unit" where
  "ensure_whole_image loaded =
     (case loaded of
        Inr m \<Rightarrow> (if scope m \<noteq> None then Inl ImageScoped else Inr ())
      | Inl e \<Rightarrow> (if e = NotFound then Inr () else Inl (CopyIo e)))"

text \<open>The titles as their extents \<open>(start_lba, sector_count)\<close>.\<close>

definition extent_staged :: "range list \<Rightarrow> range list \<Rightarrow> nat \<times> nat \<Rightarrow> bool" where
  "extent_staged sc unread e =
     (let want = (fst e * SECTOR, snd e * SECTOR);
          have_bytes = sum_list (map snd (intersect [want] sc))
      in \<not> (have_bytes \<noteq> snd want \<or> intersect [want] unread \<noteq> []))"

definition ensure_titles_staged ::
  "io_error + Mapfile \<Rightarrow> (nat \<times> nat) list list \<Rightarrow> nat list \<Rightarrow> copy_error + unit" where
  "ensure_titles_staged loaded titles wanted =
     (case loaded of
        Inl e \<Rightarrow> (if e = NotFound then Inr () else Inl (CopyIo e))
      | Inr m \<Rightarrow>
          (case scope m of
             None \<Rightarrow> Inr ()
           | Some sc \<Rightarrow>
               (let unread = ranges_with m [NonTried]
                in case find (\<lambda>i. length titles \<le> i) wanted of
                     Some i \<Rightarrow> Inl (DiscTitleRange i (length titles))
                   | None \<Rightarrow>
                       (if list_all (extent_staged sc unread) (concat (map (\<lambda>i. titles ! i) wanted))
                        then Inr () else Inl ImageScoped))))"

definition sector_scope_to_bytes :: "(nat \<times> nat) list \<Rightarrow> range list" where
  "sector_scope_to_bytes sc = map (\<lambda>(l, n). (l * SECTOR, n * SECTOR)) sc"

subsection \<open>The set-up of a sweep\<close>

record SweepEnv =
  se_decryptable :: "lib_error + unit"
  se_debussable :: "lib_error + unit"
  se_sectors :: "lib_error + nat"
  se_reader :: "lib_error + unit"
  se_resume :: bool
  se_decrypt :: bool
  se_scope :: "range list option"
  se_read :: map_read
  se_no_image :: metadata
  se_image :: metadata
  se_remove :: "nat option"
  se_skip :: "range list"
  se_create :: WriteEnv
  se_creator :: string
  se_disc_id :: "string option"
  se_vid :: "nat list option"
  se_keys_vidfp :: "nat list option option"
  se_id :: DiscIdentity
  se_existing :: metadata
  se_open :: "io_error + unit"
  se_handle :: metadata
  se_set_len :: "io_error + unit"
  se_writeback :: "io_error + unit"
  se_spawn :: "io_error + unit"

text \<open>Whether a sweep that was asked to resume may: \<open>Inl\<close> fails the pass, \<open>Inr False\<close> starts over.\<close>

definition resume_over :: "SweepEnv \<Rightarrow> u64 \<Rightarrow> Mapfile \<Rightarrow> io_error + bool" where
  "resume_over env tot m =
     (case check_identity m (se_id env) of
        Inl e \<Rightarrow> bind_res (no_image (se_no_image env)) (\<lambda>gone. if \<not> gone then Inl e else Inr False)
      | Inr _ \<Rightarrow>
          (if raw m = Some (se_decrypt env) then Inr False
           else if total_size m \<noteq> tot then Inr False
           else bind_res (image_state (se_image env) (total_size m)) (\<lambda>im.
             Inr (\<not> (is_short im \<and> bytes_pending (stats m) \<noteq> total_size m)))))"

definition sweep_resume ::
  "(nat \<Rightarrow> string \<Rightarrow> nat list option) \<Rightarrow> (string \<Rightarrow> nat list \<Rightarrow> nat list) \<Rightarrow> SweepEnv \<Rightarrow> u64 \<Rightarrow> string \<Rightarrow>
   fs \<Rightarrow> io_error + bool" where
  "sweep_resume ph sh env tot mf f =
     (if se_resume env \<and> f mf \<noteq> None
      then (case load ph sh (se_read env) f mf of
              Inr m \<Rightarrow> resume_over env tot m
            | Inl e \<Rightarrow> (if is_invalid_data e then Inr False else Inl e))
      else Inr (se_resume env))"

definition remove_file :: "nat option \<Rightarrow> string \<Rightarrow> fs \<Rightarrow> (io_error + unit) \<times> fs" where
  "remove_file fault p f =
     (case fault of
        Some e \<Rightarrow> (Inl (OsError e), f)
      | None \<Rightarrow> (if f p = None then (Inl NotFound, f) else (Inr (), f(p := None))))"

text \<open>The map a pass works on; a fresh pass removes the old one first.\<close>

definition sweep_map ::
  "(nat \<Rightarrow> string \<Rightarrow> nat list option) \<Rightarrow> (string \<Rightarrow> nat list \<Rightarrow> nat list) \<Rightarrow> SweepEnv \<Rightarrow> u64 \<Rightarrow> bool \<Rightarrow>
   string \<Rightarrow> fs \<Rightarrow> (io_error + Mapfile) \<times> fs" where
  "sweep_map ph sh env tot resume mf f =
     (let removed = (if resume then (Inr (), f) else remove_file (se_remove env) mf f)
      in case stale_mapfile_removed (fst removed) of
           Inl e \<Rightarrow> (Inl e, snd removed)
         | Inr _ \<Rightarrow>
             (case open_or_create ph sh (se_create env) mf tot (se_creator env) (snd removed) of
                (Inl e, f') \<Rightarrow> (Inl e, f')
              | (Inr m, f') \<Rightarrow>
                  (Inr (set_raw (\<not> se_decrypt env)
                     (stamp_identity ph sh (se_disc_id env) (se_vid env) (se_keys_vidfp env) m)), f')))"

text \<open>
  The image file: reopened, or created empty and sized. The result says whether it is regular, and comes with
  what the image holds then, also when sizing the emptied file failed.
\<close>

definition sweep_image :: "SweepEnv \<Rightarrow> bool \<Rightarrow> (nat \<Rightarrow> nat) \<Rightarrow> (io_error + bool) \<times> (nat \<Rightarrow> nat)" where
  "sweep_image env resume img =
     (case bind_res (iso_len_from_metadata (se_existing env)) (\<lambda>l. bind_res (se_open env) (\<lambda>_. Inr l)) of
        Inl e \<Rightarrow> (Inl e, img)
      | Inr l \<Rightarrow>
          (let reg = output_is_regular (se_handle env)
           in if resume \<and> (case l of IsoLen n \<Rightarrow> n > 0 | IsoMissing \<Rightarrow> False) then (Inr reg, img)
              else if reg then (bind_res (se_set_len env) (\<lambda>_. Inr reg), \<lambda>b. 0)
              else (Inr reg, img)))"

text \<open>The scope of the pass and the map after it: a staging over a whole map with progress leaves it whole.\<close>

definition sweep_scope :: "SweepEnv \<Rightarrow> bool \<Rightarrow> Mapfile \<Rightarrow> range list option \<times> Mapfile" where
  "sweep_scope env resume m =
     (let resumes_whole = (resume \<and> scope m = None \<and> bytes_pending (stats m) \<noteq> total_size m)
      in case se_scope env of
           Some s \<Rightarrow>
             (if resumes_whole then (Some (merge_byte_ranges s), m)
              else (let m' = set_scope (s @ (case scope m of None \<Rightarrow> [] | Some o_ \<Rightarrow> o_)) m
                    in (scope m', m')))
         | None \<Rightarrow> (None, clear_scope m))"

definition sweep_regions_of :: "Mapfile \<Rightarrow> range list option \<Rightarrow> range list \<Rightarrow> range list" where
  "sweep_regions_of m pass_scope skip =
     (let untried = ranges_with m [NonTried];
          scoped = (case pass_scope of Some sc \<Rightarrow> intersect untried sc | None \<Rightarrow> untried)
      in subtract scoped skip)"

definition sweep_domain :: "u64 \<Rightarrow> range list option \<Rightarrow> u64" where
  "sweep_domain tot pass_scope =
     (case pass_scope of
        Some sc \<Rightarrow> sum_list (map snd (intersect [(0, tot)] sc))
      | None \<Rightarrow> tot)"

definition sweep_todo :: "range list \<Rightarrow> u64" where
  "sweep_todo regions = sum_list (map (\<lambda>r. snd (snap_to_sectors (fst r) (snd r))) regions)"

end
