(* ===== verification/SweepLink.thy ===== *)
theory SweepLink
  imports CopyDispatch
begin

text \<open>
  A sweep from its set-up to its result, \<open>sweep_linked\<close> (\<open>src/src/recovery/mod.rs\<close>), and the progress
  it reports.
\<close>

subsection \<open>The run\<close>

datatype sweep_error = SetUp copy_error | PassFailed pass_fail

text \<open>
  What the teardown of the queue adds: the bounded join may fail (\<open>j_join\<close>), and \<open>j_failed\<close> is
  \<open>consumer_failed\<close> as the producer read it.
\<close>

record JoinEnv =
  j_join :: "pass_fail option"
  j_failed :: bool
  j_close :: SinkEnv

definition sweep_finish ::
  "JoinEnv \<Rightarrow> pass_fail + sink_flow \<Rightarrow> ImageSink \<Rightarrow> (pass_fail + MapStats) \<times> ImageSink" where
  "sweep_finish j r s =
     (case (case r of Inl e \<Rightarrow> (Inl e, s) | Inr _ \<Rightarrow> sink_close (j_close j) s) of
        (ended, s') \<Rightarrow>
          (case finish_disowning (case j_join j of Some e \<Rightarrow> Inl e | None \<Rightarrow> ended) (sk_map s') of
             (summary, m) \<Rightarrow> (summary, s'\<lparr>sk_map := m\<rparr>)))"

definition sweep_end ::
  "u64 \<Rightarrow> JoinEnv \<Rightarrow> exit_reason option \<Rightarrow> pass_fail + MapStats \<Rightarrow> pass_fail + CopyResult" where
  "sweep_end tot j ex summary =
     (case ex of
        Some (Failed e) \<Rightarrow> Inl (pass_failure e summary (j_failed j))
      | _ \<Rightarrow>
          (case summary of
             Inl e \<Rightarrow> Inl e
           | Inr st \<Rightarrow>
               Inr (copy_result tot (bytes_good st) (bytes_unreadable st) (bytes_pending st) 0
                 (ex = Some Stopped))))"

text \<open>\<open>None\<close>: the loop still runs when its observations end.\<close>

definition sweep_run ::
  "SweepCfg \<Rightarrow> u64 \<Rightarrow> range list \<Rightarrow> IterEnv list \<Rightarrow> (nat \<Rightarrow> SinkEnv) \<Rightarrow> JoinEnv \<Rightarrow> ImageSink \<Rightarrow>
   (pass_fail + CopyResult) option \<times> ImageSink" where
  "sweep_run cfg tot regions es ks j s0 =
     (case produce cfg regions es of
        (p, over) \<Rightarrow>
          (let its = rev (p_items p)
           in case apply_items (zip (map ks [0..<length its]) its) s0 of
                (r, s1) \<Rightarrow>
                  (case sweep_finish j r s1 of
                     (summary, s2) \<Rightarrow> (if over then Some (sweep_end tot j (p_exit p) summary) else None, s2))))"

text \<open>
  What a pass leaves: the image and the files when it has no map in hand, or its sink, whose map is still to be
  dropped.
\<close>

datatype Left = NoMap "nat \<Rightarrow> nat" fs | HasMap ImageSink

text \<open>What a pass works with once its files are open.\<close>

definition sweep_start ::
  "SweepEnv \<Rightarrow> u64 \<Rightarrow> bool \<Rightarrow> Mapfile \<Rightarrow> (nat \<Rightarrow> nat) \<Rightarrow> (nat \<Rightarrow> nat) \<Rightarrow> bool \<Rightarrow> fs \<Rightarrow>
   range list \<times> ImageSink" where
  "sweep_start env tot resume m img dur reg f =
     (case sweep_scope env resume m of
        (pass_scope, m') \<Rightarrow>
          (sweep_regions_of m' pass_scope (if resume then se_skip env else []),
           \<lparr>sk_img = img, sk_dur = dur, sk_map = m', sk_fs = f, is_regular = reg\<rparr>))"

text \<open>
  The set-up: the regions and the sink, or the error with what the set-up left. The map is opened and stamped
  before the image is touched, so a failure after that leaves both.
\<close>

definition sweep_opened ::
  "(nat \<Rightarrow> string \<Rightarrow> nat list option) \<Rightarrow> (string \<Rightarrow> nat list \<Rightarrow> nat list) \<Rightarrow> SweepEnv \<Rightarrow> u64 \<Rightarrow> string \<Rightarrow>
   (nat \<Rightarrow> nat) \<Rightarrow> (nat \<Rightarrow> nat) \<Rightarrow> fs \<Rightarrow> copy_error \<times> Left + range list \<times> ImageSink" where
  "sweep_opened ph sh env tot mf img dur f =
     (case sweep_resume ph sh env tot mf f of
        Inl e \<Rightarrow> Inl (CopyIo e, NoMap img f)
      | Inr resume \<Rightarrow>
          (case sweep_map ph sh env tot resume mf f of
             (Inl e, f') \<Rightarrow> Inl (CopyIo e, NoMap img f')
           | (Inr m, f') \<Rightarrow>
               (case sweep_image env resume img of
                  (opened, img') \<Rightarrow>
                    (let held = \<lparr>sk_img = img', sk_dur = dur, sk_map = m, sk_fs = f', is_regular = output_is_regular (se_handle env)\<rparr>
                     in case bind_res opened (\<lambda>reg. bind_res (se_writeback env) (\<lambda>_. Inr reg)) of
                          Inl e \<Rightarrow> Inl (CopyIo e, HasMap held)
                        | Inr reg \<Rightarrow>
                            (case sweep_start env tot resume m img' dur reg f' of
                               (regions, s0) \<Rightarrow>
                                 (case se_spawn env of
                                    Inl e \<Rightarrow> Inl (CopyIo e, HasMap s0)
                                  | Inr _ \<Rightarrow> Inr (regions, s0)))))))"

definition sweep_gates :: "SweepEnv \<Rightarrow> copy_error + nat" where
  "sweep_gates env =
     bind_res (gates (se_decryptable env # (if se_scope env = None then [se_debussable env] else [])))
       (\<lambda>_. case se_sectors env of
          Inl e \<Rightarrow> Inl (Gate e)
        | Inr n \<Rightarrow> bind_res (gates [se_reader env]) (\<lambda>_. Inr n))"

definition sweep_linked ::
  "(nat \<Rightarrow> string \<Rightarrow> nat list option) \<Rightarrow> (string \<Rightarrow> nat list \<Rightarrow> nat list) \<Rightarrow> SweepEnv \<Rightarrow> SweepCfg \<Rightarrow>
   IterEnv list \<Rightarrow> (nat \<Rightarrow> SinkEnv) \<Rightarrow> JoinEnv \<Rightarrow> string \<Rightarrow> (nat \<Rightarrow> nat) \<Rightarrow> (nat \<Rightarrow> nat) \<Rightarrow> fs \<Rightarrow>
   (sweep_error + CopyResult) option \<times> Left" where
  "sweep_linked ph sh env cfg es ks j mf img dur f =
     (case sweep_gates env of
        Inl e \<Rightarrow> (Some (Inl (SetUp e)), NoMap img f)
      | Inr sectors \<Rightarrow>
          (case sweep_opened ph sh env (sectors * SECTOR) mf img dur f of
             Inl (e, left) \<Rightarrow> (Some (Inl (SetUp e)), left)
           | Inr (regions, s0) \<Rightarrow>
               (case sweep_run cfg (sectors * SECTOR) regions es ks j s0 of
                  (r, s') \<Rightarrow>
                    (map_option (\<lambda>r. case r of Inl e \<Rightarrow> Inl (PassFailed e) | Inr x \<Rightarrow> Inr x) r, HasMap s'))))"

subsection \<open>Progress\<close>

record SweepBar =
  sb_base :: MapStats
  done_before :: u64
  sb_domain :: u64
  total_bytes :: u64

record PassProgress =
  work_done :: u64
  work_total :: u64
  bytes_good_total :: u64
  bytes_unreadable_total :: u64
  bytes_pending_total :: u64
  bytes_retryable_total :: u64
  bytes_total_disc :: u64

definition sweep_bar :: "Mapfile \<Rightarrow> range list option \<Rightarrow> range list \<Rightarrow> u64 \<Rightarrow> SweepBar" where
  "sweep_bar m pass_scope regions tot =
     (let dom = sweep_domain tot pass_scope
      in \<lparr>sb_base = stats m, done_before = dom - sweep_todo regions, sb_domain = dom, total_bytes = tot\<rparr>)"

text \<open>The figures of one report; the title's figures are the library's and are left out.\<close>

definition bar_tick :: "SweepBar \<Rightarrow> MapStats option \<Rightarrow> u64 \<Rightarrow> u64 \<Rightarrow> PassProgress" where
  "bar_tick bar snapshot dn gd =
     (let b = sb_base bar;
          figures = (case snapshot of
             Some s \<Rightarrow> (max (bytes_good s) (sat_add (bytes_good b) gd), bytes_unreadable s,
                       bytes_pending s, bytes_retryable s)
           | None \<Rightarrow> (sat_add (bytes_good b) gd, bytes_unreadable b, bytes_pending b - dn,
                     sat_add (bytes_retryable b) (dn - gd)))
      in case figures of
           (good, unreadable, pending, retryable) \<Rightarrow>
             \<lparr>work_done = min (sat_add (done_before bar) dn) (sb_domain bar),
              work_total = sb_domain bar, bytes_good_total = good, bytes_unreadable_total = unreadable,
              bytes_pending_total = pending, bytes_retryable_total = retryable,
              bytes_total_disc = total_bytes bar\<rparr>)"

text \<open>\<open>progress_snapshot_from_mapfile\<close>: a point in time, so without work figures.\<close>

definition progress_snapshot :: "io_error + Mapfile option \<Rightarrow> u64 \<Rightarrow> PassProgress option" where
  "progress_snapshot loaded tot =
     (case loaded of
        Inr (Some m) \<Rightarrow>
          (let st = stats m
           in Some \<lparr>work_done = 0, work_total = 0, bytes_good_total = bytes_good st,
                bytes_unreadable_total = bytes_unreadable st, bytes_pending_total = bytes_pending st,
                bytes_retryable_total = bytes_retryable st, bytes_total_disc = tot\<rparr>)
      | _ \<Rightarrow> None)"

end
