(* ===== verification/RangesAlign.thy ===== *)
theory RangesAlign
  imports Ranges
begin

text \<open>Ranges of whole sectors stay whole through merging, intersection and difference.\<close>

definition all_aligned :: "range list \<Rightarrow> bool" where
  "all_aligned rs = (\<forall>r \<in> set rs. aligned r)"

lemma aligned_dvd: "aligned (p, n) = (SECTOR dvd p \<and> SECTOR dvd n)"
  by (simp add: aligned_def dvd_eq_mod_eq_0)

lemma aligned_span: "aligned (p, n) \<Longrightarrow> SECTOR dvd p \<and> SECTOR dvd p + n"
  by (simp add: aligned_dvd)

lemma aligned_between: "SECTOR dvd a \<Longrightarrow> SECTOR dvd b \<Longrightarrow> aligned (a, b - a)"
  by (cases "a \<le> b") (auto simp: aligned_dvd dvd_diff_nat)

lemma all_aligned_simps [simp]:
  "all_aligned []"
  "all_aligned (r # rs) = (aligned r \<and> all_aligned rs)"
  "all_aligned (xs @ ys) = (all_aligned xs \<and> all_aligned ys)"
  "all_aligned (rev xs) = all_aligned xs"
  by (auto simp: all_aligned_def)

lemma dvd_min_max: "SECTOR dvd a \<Longrightarrow> SECTOR dvd b \<Longrightarrow> SECTOR dvd min a b \<and> SECTOR dvd max a b"
  by (auto simp: min_def max_def)

lemma intersect_aligned:
  "ranges_ok rs \<Longrightarrow> ranges_ok ss \<Longrightarrow> all_aligned rs \<Longrightarrow> all_aligned ss \<Longrightarrow> all_aligned (intersect rs ss)"
proof (induction rs ss rule: intersect.induct)
  case (1 p n rs sp sn ss)
  have e: "sat_add p n = p + n" "sat_add sp sn = sp + sn" using "1.prems" by (simp_all add: arith64)
  have d: "SECTOR dvd p" "SECTOR dvd p + n" "SECTOR dvd sp" "SECTOR dvd sp + sn"
    using "1.prems" aligned_span by auto
  have "aligned (max p sp, min (p + n) (sp + sn) - max p sp)"
    using dvd_min_max d by (intro aligned_between) blast+
  moreover define a b where "a = max p sp" and "b = min (p + n) (sp + sn)"
  ultimately have ab: "aligned (a, b - a)" by simp
  have eq: "intersect ((p, n) # rs) ((sp, sn) # ss) = (if a < b then [(a, b - a)] else []) @
      (if p + n \<le> sp + sn then intersect rs ((sp, sn) # ss) else intersect ((p, n) # rs) ss)"
    by (simp add: e Let_def a_def b_def)
  show ?case unfolding eq using 1 ab by (simp add: e)
qed simp_all

lemma cut_one_aligned:
  assumes "fst c + snd c \<le> u64_max" and "fst r + snd r \<le> u64_max" and "aligned c" and "aligned r"
  shows "all_aligned (cut_one c r)"
proof -
  have d: "SECTOR dvd fst c" "SECTOR dvd fst c + snd c" "SECTOR dvd fst r" "SECTOR dvd fst r + snd r"
    using assms(3,4) by (auto simp: aligned_def)
  have "aligned (fst r, min (fst c) (fst r + snd r) - fst r)"
    "aligned (max (fst c + snd c) (fst r), fst r + snd r - max (fst c + snd c) (fst r))"
    using dvd_min_max d by (intro aligned_between; blast)+
  moreover define lo hi where "lo = min (fst c) (fst r + snd r)" and "hi = max (fst c + snd c) (fst r)"
  ultimately have "aligned (fst r, lo - fst r)" "aligned (hi, fst r + snd r - hi)" by simp_all
  moreover have "cut_one c r = (if fst r < lo then [(fst r, lo - fst r)] else []) @
      (if hi < fst r + snd r then [(hi, fst r + snd r - hi)] else [])"
    unfolding cut_one_def Let_def lo_def hi_def using assms(1,2) by (simp add: arith64)
  ultimately show ?thesis by simp
qed

lemma subtract_aligned:
  "disj_from d rs \<Longrightarrow> ranges_ok cuts \<Longrightarrow> all_aligned rs \<Longrightarrow> all_aligned cuts \<Longrightarrow> all_aligned (subtract rs cuts)"
proof (induction cuts arbitrary: rs)
  case Nil
  then show ?case by (simp add: subtract_def)
next
  case (Cons c cuts)
  let ?rs = "concat (map (cut_one c) rs)"
  have ok: "\<forall>r \<in> set rs. fst r + snd r \<le> u64_max" using disj_from_ok [OF Cons.prems(1)] by (simp add: ranges_ok_def)
  have "all_aligned (cut_one c r)" if "r \<in> set rs" for r
    using that ok Cons.prems by (intro cut_one_aligned) (auto simp: all_aligned_def)
  then have "all_aligned ?rs" by (auto simp: all_aligned_def)
  moreover have "disj_from d ?rs" by (rule cut_all_disj [OF Cons.prems(1)])
  ultimately have "all_aligned (subtract ?rs cuts)" using Cons by simp
  then show ?case by (simp add: subtract_def)
qed

lemma merge_push_aligned:
  assumes "ranges_ok (r # acc)" and "all_aligned (r # acc)"
  shows "all_aligned (merge_push acc r) \<and> ranges_ok (merge_push acc r)"
proof (cases acc)
  case Nil
  then show ?thesis using assms by (simp add: merge_push_def split: prod.split)
next
  case (Cons l rest)
  obtain lp lsz p n where l: "l = (lp, lsz)" "r = (p, n)" by (metis prod.collapse)
  have fit: "lp + lsz \<le> u64_max" "p + n \<le> u64_max" using assms(1) by (simp_all add: Cons l)
  have "SECTOR dvd p + n - lp" using assms(2) by (auto simp: Cons l aligned_dvd dvd_diff_nat)
  then have "aligned (lp, max lsz (p + n - lp))"
    using assms(2) dvd_min_max by (auto simp: Cons l aligned_dvd)
  then show ?thesis using assms fit by (auto simp: Cons l merge_push_def arith64)
qed

lemma merge_byte_ranges_aligned:
  assumes "ranges_ok rs" and "all_aligned rs"
  shows "all_aligned (merge_byte_ranges rs)"
proof -
  have "ranges_ok acc \<Longrightarrow> all_aligned acc \<Longrightarrow> ranges_ok xs \<Longrightarrow> all_aligned xs \<Longrightarrow>
      all_aligned (foldl merge_push acc xs)" for acc xs
  proof (induction xs arbitrary: acc)
    case (Cons x xs)
    then show ?case using merge_push_aligned [of x acc] by (simp add: ranges_ok_def)
  qed simp
  moreover have "ranges_ok (filter (\<lambda>r. 0 < snd r) (sort rs))" "all_aligned (filter (\<lambda>r. 0 < snd r) (sort rs))"
    using assms by (simp_all add: ranges_ok_def all_aligned_def)
  ultimately have "all_aligned (foldl merge_push [] (filter (\<lambda>r. 0 < snd r) (sort rs)))" by simp
  then show ?thesis by (simp add: merge_byte_ranges_def)
qed

end
