(* ===== verification/SweepLinkInv.thy ===== *)
theory SweepLinkInv
  imports SweepLink RangesAlign
begin

text \<open>
  What a sweep promises from end to end: a fresh or resumed set-up starts the producer and the consumer
  in states their invariants hold in, and a result reported complete describes an image that holds the
  disc.
\<close>

subsection \<open>The map a sweep starts from\<close>

definition scope_aligned :: "Mapfile \<Rightarrow> bool" where
  "scope_aligned m = (\<forall>sc. scope m = Some sc \<longrightarrow> disj_from 0 sc \<and> all_aligned sc)"

text \<open>A saved map an earlier pass left beside its image.\<close>

definition resumable :: "(nat \<Rightarrow> nat) \<Rightarrow> (nat \<Rightarrow> nat) \<Rightarrow> Mapfile \<Rightarrow> bool" where
  "resumable disc img m \<longleftrightarrow> map_inv m \<and> scope_aligned m \<and>
     (\<forall>b. look (entries m) b = Some Finished \<longrightarrow> img b = disc b)"

definition sweep_env_ok :: "SweepEnv \<Rightarrow> bool" where
  "sweep_env_ok env \<longleftrightarrow>
     (\<forall>sc. se_scope env = Some sc \<longrightarrow> ranges_ok sc \<and> all_aligned sc) \<and>
     ranges_ok (se_skip env) \<and> all_aligned (se_skip env)"

text \<open>What the setters of a pass leave alone.\<close>

definition same_runs :: "Mapfile \<Rightarrow> Mapfile \<Rightarrow> bool" where
  "same_runs a b = (entries a = entries b \<and> stats_field a = stats_field b \<and> total_size a = total_size b)"

lemma same_runs_inv: "same_runs a b \<Longrightarrow> map_inv a = map_inv b"
  by (simp add: same_runs_def map_inv_def map_ok_def)

lemma setters_same:
  "same_runs (set_raw r m) m" "scope (set_raw r m) = scope m"
  "same_runs (stamp_identity ph sh d v k m) m" "scope (stamp_identity ph sh d v k m) = scope m"
  "same_runs (clear_scope m) m" "scope (clear_scope m) = None"
  "same_runs (set_scope rs m) m" "scope (set_scope rs m) = Some (merge_byte_ranges rs)"
  by (auto simp: same_runs_def set_raw_def stamp_identity_def set_disc_hash_def set_vid_fingerprint_def
      clear_scope_def set_scope_def Let_def split: option.split)

lemma load_again:
  assumes "load ph sh rd f p = Inr m" and "load ph sh rd' f p = Inr m'"
  shows "same_runs m' m" and "scope m' = scope m"
proof -
  obtain s where "load_text ph sh p (fst rd) s = Inr m" "load_text ph sh p (fst rd') s = Inr m'"
    using assms unfolding load_Inr by auto
  then show "same_runs m' m" "scope m' = scope m" by (auto simp: load_text_def bind_res_eq_Inr same_runs_def)
qed

lemma new_map_starts:
  assumes "n \<le> u32_max"
  shows "resumable disc img ((new_map p (n * SECTOR) ver now)\<lparr>disowned := d, last_flushed := t\<rparr>)"
    and "\<And>b. look (entries (new_map p (n * SECTOR) ver now)) b \<noteq> Some Finished"
proof -
  have "map_inv (new_map p (n * SECTOR) ver now)" using assms by (intro map_inv_new) simp_all
  then have "map_inv ((new_map p (n * SECTOR) ver now)\<lparr>disowned := d, last_flushed := t\<rparr>)"
    by (simp add: map_inv_def map_ok_def)
  moreover show look: "look (entries (new_map p (n * SECTOR) ver now)) b \<noteq> Some Finished" for b
    by (simp add: new_map_def)
  ultimately show "resumable disc img ((new_map p (n * SECTOR) ver now)\<lparr>disowned := d, last_flushed := t\<rparr>)"
    by (simp add: resumable_def scope_aligned_def new_map_def)
qed

text \<open>Fresh: nothing is Finished. Resumed: the saved map, over the same size.\<close>

lemma sweep_map_ok:
  assumes n: "n \<le> u32_max" and old: "\<forall>rd m. load ph sh rd f mf = Inr m \<longrightarrow> resumable disc img m"
    and dec: "sweep_resume ph sh env (n * SECTOR) mf f = Inr resume"
    and run: "sweep_map ph sh env (n * SECTOR) resume mf f = (Inr m, f')"
  shows "resumable disc img m \<and> total_size m = n * SECTOR \<and>
    (\<forall>b. look (entries m) b = Some Finished \<longrightarrow> resume \<and> f mf \<noteq> None \<and>
      (\<exists>m1. load ph sh (se_read env) f mf = Inr m1 \<and> entries m = entries m1))"
proof -
  obtain m0 f1 where raw0: "m = set_raw (\<not> se_decrypt env) (stamp_identity ph sh (se_disc_id env) (se_vid env) (se_keys_vidfp env) m0)"
    and f1: "open_or_create ph sh (se_create env) mf (n * SECTOR) (se_creator env) f1 = (Inr m0, f')"
    and gone: "resume \<Longrightarrow> f1 = f" "\<not> resume \<Longrightarrow> f1 mf = None"
    using run by (auto simp: sweep_map_def Let_def stale_mapfile_removed_def remove_file_def
        split: prod.splits sum.splits if_splits option.splits)
  have sr: "same_runs m m0" "scope m = scope m0"
    unfolding raw0 using setters_same by (simp_all add: same_runs_def)
  have fresh: "resumable disc img m0 \<and> total_size m0 = n * SECTOR \<and> (\<forall>b. look (entries m0) b \<noteq> Some Finished)"
    if none: "f1 mf = None"
  proof -
    have "create (se_create env) mf (n * SECTOR) (se_creator env) f1 = (Inr m0, f')"
      using f1 load_absent [of f1 mf, OF none] by (auto simp: open_or_create_def split: sum.splits if_splits)
    note c = create_cases [OF this]
    show ?thesis using c new_map_starts [OF n] by auto
  qed
  have "resumable disc img m0 \<and> total_size m0 = n * SECTOR \<and>
      (\<forall>b. look (entries m0) b = Some Finished \<longrightarrow> resume \<and> f mf \<noteq> None \<and>
        (\<exists>m1. load ph sh (se_read env) f mf = Inr m1 \<and> entries m0 = entries m1))"
  proof (cases "resume \<and> f mf \<noteq> None")
    case False
    then have "f1 mf = None" using gone by (cases resume) auto
    then show ?thesis using fresh by simp
  next
    case True
    then have ld: "\<exists>m1. load ph sh (se_read env) f mf = Inr m1 \<and> total_size m1 = n * SECTOR"
      using dec by (auto simp: sweep_resume_def resume_over_def bind_res_def split: sum.splits if_splits)
    then obtain m1 where m1: "load ph sh (se_read env) f mf = Inr m1" "total_size m1 = n * SECTOR" by blast
    have "load ph sh (w_now (se_create env), w_read (se_create env)) f mf \<noteq> Inl NotFound"
      using True load_missing [of ph sh "(w_now (se_create env), w_read (se_create env))" f mf] by auto
    then have m0: "load ph sh (w_now (se_create env), w_read (se_create env)) f mf = Inr m0"
      using f1 gone(1) True by (auto simp: open_or_create_def split: sum.splits if_splits)
    then have "resumable disc img m0" using old by blast
    then show ?thesis using load_again [OF m1(1) m0] m1 True by (simp add: same_runs_def)
  qed
  then show ?thesis
    using sr same_runs_inv [OF sr(1)] by (simp add: resumable_def scope_aligned_def same_runs_def)
qed

subsection \<open>The regions and the scope of a pass\<close>

lemma ranges_with_aligned: "map_inv m \<Longrightarrow> all_aligned (ranges_with m sts)"
  by (auto simp: map_inv_def entries_aligned_def all_aligned_def aligned_def ranges_with_def dvd_eq_mod_eq_0)

lemma runs_of_inv: "map_inv m \<Longrightarrow> runs_from 0 (entries m)"
  by (simp add: map_inv_def map_ok_def canon_def)

lemma sweep_regions_ok_of:
  assumes inv: "map_inv m" and "\<And>sc. ps = Some sc \<Longrightarrow> disj_from 0 sc \<and> all_aligned sc"
    and skip: "ranges_ok skip" "all_aligned skip"
  shows "regions_ok m (sweep_regions_of m ps skip)"
    and "bytes_of (sweep_regions_of m ps skip) =
      {b. look (entries m) b = Some NonTried \<and> (\<forall>sc. ps = Some sc \<longrightarrow> b \<in> bytes_of sc)} - bytes_of skip"
proof -
  let ?u = "ranges_with m [NonTried]"
  define sc where "sc = (case ps of Some s \<Rightarrow> intersect ?u s | None \<Rightarrow> ?u)"
  have u: "disj_from 0 ?u" "bytes_of ?u = {b. look (entries m) b = Some NonTried}" "all_aligned ?u"
    using ranges_with_correct [OF runs_of_inv [OF inv]] ranges_with_aligned [OF inv] by auto
  have sc: "disj_from 0 sc \<and> all_aligned sc \<and>
      bytes_of sc = {b. look (entries m) b = Some NonTried \<and> (\<forall>s. ps = Some s \<longrightarrow> b \<in> bytes_of s)}"
  proof (cases ps)
    case None
    then show ?thesis using u by (simp add: sc_def)
  next
    case (Some s)
    have s: "disj_from 0 s" "all_aligned s" using assms(2) [OF Some] by auto
    have "disj_from 0 (intersect ?u s)" using intersect_lower [OF u(1) s(1)] by simp
    moreover have "all_aligned (intersect ?u s)"
      using disj_from_ok u(1,3) s by (intro intersect_aligned) blast+
    moreover have "bytes_of (intersect ?u s) = bytes_of ?u \<inter> bytes_of s" by (rule intersect_bytes [OF u(1) s(1)])
    ultimately show ?thesis using u(2) Some by (auto simp: sc_def)
  qed
  have eq: "sweep_regions_of m ps skip = subtract sc skip"
    by (cases ps) (simp_all add: sweep_regions_of_def sc_def)
  have sc1: "disj_from 0 sc" "all_aligned sc" using sc by simp_all
  have sub: "disj_from 0 (subtract sc skip)" "bytes_of (subtract sc skip) = bytes_of sc - bytes_of skip"
    using subtract_correct [OF sc1(1) skip(1)] by simp_all
  have "all_aligned (subtract sc skip)" by (rule subtract_aligned [OF sc1(1) skip(1) sc1(2) skip(2)])
  then show "regions_ok m (sweep_regions_of m ps skip)"
    using sub sc unfolding eq regions_ok_def by (auto simp: all_aligned_def)
  show "bytes_of (sweep_regions_of m ps skip) =
      {b. look (entries m) b = Some NonTried \<and> (\<forall>sc. ps = Some sc \<longrightarrow> b \<in> bytes_of sc)} - bytes_of skip"
    using sub(2) sc unfolding eq by simp
qed

lemma sweep_scope_ok:
  assumes env: "sweep_env_ok env" and m: "scope_aligned m" and run: "sweep_scope env resume m = (ps, m')"
  shows "same_runs m' m" and "scope_aligned m'"
    and "\<And>sc. ps = Some sc \<Longrightarrow> disj_from 0 sc \<and> all_aligned sc"
    and "se_scope env = None \<Longrightarrow> ps = None \<and> scope m' = None"
proof -
  have merged: "disj_from 0 (merge_byte_ranges rs) \<and> all_aligned (merge_byte_ranges rs)"
    if "ranges_ok rs" "all_aligned rs" for rs
    using merge_byte_ranges_correct [OF that(1)] merge_byte_ranges_aligned [OF that] sep_imp_disj by blast
  have all: "same_runs m' m \<and> scope_aligned m' \<and> (\<forall>sc. ps = Some sc \<longrightarrow> disj_from 0 sc \<and> all_aligned sc) \<and>
      (se_scope env = None \<longrightarrow> ps = None \<and> scope m' = None)"
  proof (cases "se_scope env")
    case None
    then have "ps = None" "m' = clear_scope m" using run by (auto simp: sweep_scope_def Let_def)
    then show ?thesis using setters_same(5,6) by (simp add: scope_aligned_def)
  next
    case (Some s)
    have s: "ranges_ok s" "all_aligned s" using env Some by (auto simp: sweep_env_ok_def)
    let ?old = "case scope m of None \<Rightarrow> [] | Some o_ \<Rightarrow> o_"
    have old: "ranges_ok ?old" "all_aligned ?old"
      using m disj_from_ok by (cases "scope m"; auto simp: scope_aligned_def)+
    have "ranges_ok (s @ ?old)" "all_aligned (s @ ?old)"
      using s old unfolding ranges_ok_def all_aligned_simps set_append ball_Un by blast+
    note both = merged [OF this]
    consider "ps = Some (merge_byte_ranges s)" "m' = m"
      | "m' = set_scope (s @ ?old) m" "ps = scope m'"
      using run Some by (auto simp: sweep_scope_def Let_def split: if_splits)
    then show ?thesis
    proof cases
      case 1
      then show ?thesis using merged [OF s] m Some by (simp add: same_runs_def)
    next
      case two: 2
      then show ?thesis using both setters_same(7,8) [of "s @ ?old" m] Some by (simp add: scope_aligned_def)
    qed
  qed
  then show "same_runs m' m" "scope_aligned m'" "se_scope env = None \<Longrightarrow> ps = None \<and> scope m' = None"
    "\<And>sc. ps = Some sc \<Longrightarrow> disj_from 0 sc \<and> all_aligned sc" by blast+
qed

text \<open>The file system answers the questions about the image alike through the set-up of one pass.\<close>

definition stable_stat :: "SweepEnv \<Rightarrow> bool" where
  "stable_stat env \<longleftrightarrow> se_existing env = se_image env \<and>
     (\<forall>n. se_image env = Inr (False, n) \<longrightarrow> \<not> output_is_regular (se_handle env))"

lemma no_progress:
  assumes inv: "map_inv m" and sc: "scope_ok m" and all: "bytes_pending (stats m) = total_size m"
  shows "look (entries m) b \<noteq> Some Finished"
proof
  assume fin: "look (entries m) b = Some Finished"
  define A where "A = {b. \<exists>s. look (entries m) b = Some s \<and> s \<in> {NonTried, NonTrimmed, NonScraped}}"
  have "bytes_pending (stats m) \<le> bytes_pending (stats_field m)"
    by (cases "scope m") (simp_all add: stats_def Let_def)
  also have "\<dots> = card A" using field_stats(5) [OF inv] by (simp add: count_bytes_def A_def)
  also have "\<dots> \<le> card ({..< total_size m} - {b})"
    using map_inv_look [OF inv] fin by (intro card_mono) (auto simp: A_def)
  also have "\<dots> < total_size m" using map_inv_look [OF inv, of b] fin by simp
  finally show False using all by simp
qed

lemma sweep_image_ok:
  assumes st: "stable_stat env" and run: "sweep_image env True img = (opened, img')"
    and im: "image_state (se_image env) want = Inr im" and long: "\<not> is_short im" and "b < want"
  shows "img' = img"
proof -
  obtain is_file n where meta: "se_image env = Inr (is_file, n) \<or> se_image env = Inl NotFound"
    using im by (auto simp: image_state_def iso_len_from_metadata_def bind_res_def split: sum.splits if_splits)
  show ?thesis
  proof (cases "se_image env")
    case (Inl e)
    then show ?thesis using meta im long assms(5)
      by (auto simp: image_state_def iso_len_from_metadata_def is_short_def)
  next
    case (Inr x)
    obtain k n where x: "x = (k, n)" by (cases x)
    show ?thesis
    proof (cases k)
      case True
      then have "want \<le> n" using im long Inr x
        by (auto simp: image_state_def iso_len_from_metadata_def is_short_def)
      then show ?thesis using run st Inr x assms(5)
        by (auto simp: sweep_image_def stable_stat_def iso_len_from_metadata_def bind_res_def Let_def split: sum.splits)
    next
      case False
      then have "\<not> output_is_regular (se_handle env)" using st Inr x by (simp add: stable_stat_def)
      then show ?thesis using run by (auto simp: sweep_image_def Let_def split: if_splits sum.splits)
    qed
  qed
qed

text \<open>The image once the map is opened: a byte the map calls Finished is untouched, whether the set-up goes on or not.\<close>

lemma sweep_image_finished:
  assumes n: "n \<le> u32_max" and st: "stable_stat env"
    and old: "\<forall>rd m. load ph sh rd f mf = Inr m \<longrightarrow> resumable disc img m"
    and dec: "sweep_resume ph sh env (n * SECTOR) mf f = Inr resume"
    and sm: "sweep_map ph sh env (n * SECTOR) resume mf f = (Inr m, f')"
    and si: "sweep_image env resume img = (opened, img')"
    and fin: "look (entries m) b = Some Finished"
  shows "img' b = disc b"
proof -
  note m = sweep_map_ok [OF n old dec sm]
  have res: "resume" "f mf \<noteq> None" using m fin by blast+
  have old_b: "img b = disc b" "b < n * SECTOR"
    using m fin map_inv_look [of m b] by (auto simp: resumable_def)
  obtain m1 where m1: "load ph sh (se_read env) f mf = Inr m1" "entries m = entries m1" using m fin by blast
  then have over: "resume_over env (n * SECTOR) m1 = Inr True"
    using dec res by (auto simp: sweep_resume_def split: if_splits)
  then obtain im where im: "total_size m1 = n * SECTOR" "image_state (se_image env) (n * SECTOR) = Inr im"
    "\<not> (is_short im \<and> bytes_pending (stats m1) \<noteq> total_size m1)"
    by (auto simp: resume_over_def bind_res_def split: sum.splits if_splits)
  have "resumable disc img m1" using old m1(1) by blast
  then have r1: "map_inv m1" "scope_ok m1" by (auto simp: resumable_def scope_aligned_def scope_ok_def)
  have "look (entries m1) b = Some Finished" using fin m1(2) by simp
  then have "bytes_pending (stats m1) \<noteq> total_size m1" using no_progress [OF r1] by blast
  then have "\<not> is_short im" using im(3) by blast
  moreover have "sweep_image env True img = (opened, img')" using si res(1) by simp
  ultimately have "img' = img" using sweep_image_ok [OF st _ im(2) _ old_b(2)] by blast
  then show ?thesis using old_b(1) by simp
qed

lemma sweep_start_ok:
  assumes env: "sweep_env_ok env" and m: "resumable disc img m" "total_size m = n * SECTOR"
    and fin: "\<And>b. look (entries m) b = Some Finished \<Longrightarrow> img' b = disc b"
    and start: "sweep_start env (n * SECTOR) resume m img' dur reg f' = (regions, s0)"
  shows "image_ok disc s0" and "total_size (sk_map s0) = n * SECTOR" and "regions_ok (sk_map s0) regions"
    and "scope_aligned (sk_map s0)" and "se_scope env = None \<Longrightarrow> scope (sk_map s0) = None"
proof -
  obtain ps m' where sc: "sweep_scope env resume m = (ps, m')" by fastforce
  have regs: "regions = sweep_regions_of m' ps (if resume then se_skip env else [])"
    and s0: "s0 = \<lparr>sk_img = img', sk_dur = dur, sk_map = m', sk_fs = f', is_regular = reg\<rparr>"
    using start sc by (auto simp: sweep_start_def)
  note so = sweep_scope_ok [OF env _ sc]
  have inv: "map_inv m'" "scope_aligned m" using m so(1) same_runs_inv by (auto simp: resumable_def)
  show "image_ok disc s0" using inv so(1) m fin s0 by (simp add: image_ok_def same_runs_def)
  show "total_size (sk_map s0) = n * SECTOR" using so(1) m s0 inv by (simp add: same_runs_def)
  have "ranges_ok (if resume then se_skip env else [])" "all_aligned (if resume then se_skip env else [])"
    using env by (simp_all add: sweep_env_ok_def)
  from sweep_regions_ok_of(1) [OF inv(1) so(3) [OF inv(2)] this]
  show "regions_ok (sk_map s0) regions" by (simp add: s0 regs)
  show "scope_aligned (sk_map s0)" using so(2) inv s0 by simp
  show "se_scope env = None \<Longrightarrow> scope (sk_map s0) = None" using so(4) inv s0 by simp
qed

text \<open>The ways a set-up ends.\<close>

lemma sweep_opened_cases:
  assumes run: "sweep_opened ph sh env tot mf img dur f = x"
  obtains (refused) e where "sweep_resume ph sh env tot mf f = Inl e" and "x = Inl (CopyIo e, NoMap img f)"
  | (no_map) resume e f' where "sweep_resume ph sh env tot mf f = Inr resume"
      and "sweep_map ph sh env tot resume mf f = (Inl e, f')" and "x = Inl (CopyIo e, NoMap img f')"
  | (no_image) resume m f' opened img' e where "sweep_resume ph sh env tot mf f = Inr resume"
      and "sweep_map ph sh env tot resume mf f = (Inr m, f')" and "sweep_image env resume img = (opened, img')"
      and "x = Inl (CopyIo e, HasMap \<lparr>sk_img = img', sk_dur = dur, sk_map = m, sk_fs = f', is_regular = output_is_regular (se_handle env)\<rparr>)"
  | (started) resume m f' img' reg regions s0 where "sweep_resume ph sh env tot mf f = Inr resume"
      and "sweep_map ph sh env tot resume mf f = (Inr m, f')" and "sweep_image env resume img = (Inr reg, img')"
      and "sweep_start env tot resume m img' dur reg f' = (regions, s0)"
      and "(\<exists>e. x = Inl (CopyIo e, HasMap s0)) \<or> x = Inr (regions, s0)"
proof (cases "sweep_resume ph sh env tot mf f")
  case (Inl e)
  then show ?thesis using run refused by (simp add: sweep_opened_def)
next
  case resume: (Inr resume)
  obtain q f' where sm: "sweep_map ph sh env tot resume mf f = (q, f')" by fastforce
  show ?thesis
  proof (cases q)
    case (Inl e)
    then show ?thesis using run resume sm no_map by (simp add: sweep_opened_def)
  next
    case m: (Inr m)
    obtain opened img' where si: "sweep_image env resume img = (opened, img')" by fastforce
    show ?thesis
    proof (cases "bind_res opened (\<lambda>reg. bind_res (se_writeback env) (\<lambda>_. Inr reg))")
      case (Inl e)
      then have "x = Inl (CopyIo e, HasMap \<lparr>sk_img = img', sk_dur = dur, sk_map = m, sk_fs = f', is_regular = output_is_regular (se_handle env)\<rparr>)"
        using run resume sm m si by (simp add: sweep_opened_def Let_def)
      then show ?thesis using resume sm m si no_image by blast
    next
      case (Inr reg)
      obtain regions s0 where st: "sweep_start env tot resume m img' dur reg f' = (regions, s0)" by fastforce
      have "opened = Inr reg" using Inr by (auto simp: bind_res_eq_Inr)
      moreover have "(\<exists>e. x = Inl (CopyIo e, HasMap s0)) \<or> x = Inr (regions, s0)"
        using run resume sm m si Inr st by (auto simp: sweep_opened_def Let_def split: sum.splits)
      ultimately show ?thesis using resume sm m si st started by blast
    qed
  qed
qed

text \<open>The set-up as a whole.\<close>

lemma sweep_opened_ok:
  assumes n: "n \<le> u32_max" and env: "sweep_env_ok env" and st: "stable_stat env"
    and old: "\<forall>rd m. load ph sh rd f mf = Inr m \<longrightarrow> resumable disc img m"
    and run: "sweep_opened ph sh env (n * SECTOR) mf img dur f = Inr (regions, s0)"
  shows "image_ok disc s0" and "total_size (sk_map s0) = n * SECTOR" and "regions_ok (sk_map s0) regions"
    and "scope_aligned (sk_map s0)" and "se_scope env = None \<Longrightarrow> scope (sk_map s0) = None"
proof -
  obtain resume m f' img' reg where dec: "sweep_resume ph sh env (n * SECTOR) mf f = Inr resume"
    and sm: "sweep_map ph sh env (n * SECTOR) resume mf f = (Inr m, f')"
    and si: "sweep_image env resume img = (Inr reg, img')"
    and start: "sweep_start env (n * SECTOR) resume m img' dur reg f' = (regions, s0)"
    using run by (cases rule: sweep_opened_cases [OF run]) auto
  have m: "resumable disc img m" "total_size m = n * SECTOR" using sweep_map_ok [OF n old dec sm] by simp_all
  note o = sweep_start_ok [OF env m sweep_image_finished [OF n st old dec sm si] start]
  show "image_ok disc s0" "total_size (sk_map s0) = n * SECTOR" "regions_ok (sk_map s0) regions"
    "scope_aligned (sk_map s0)" "se_scope env = None \<Longrightarrow> scope (sk_map s0) = None" using o by blast+
qed

subsection \<open>The result of a sweep\<close>

lemma flush_keeps: "flush env m f = (r, m', f') \<Longrightarrow> same_runs m' m \<and> scope m' = scope m"
  by (drule flush_same) (simp add: same_map_def same_runs_def)

lemma sink_close_ok:
  assumes "image_ok disc s" and "sink_close env s = (r, s')"
  shows "image_ok disc s' \<and> scope (sk_map s') = scope (sk_map s) \<and> total_size (sk_map s') = total_size (sk_map s) \<and>
    sk_img s' = sk_img s \<and> is_regular s' = is_regular s \<and>
    (\<forall>st. r = Inr st \<longrightarrow> st = stats (sk_map s') \<and> (is_regular s \<longrightarrow> sk_dur s' = sk_img s))"
proof (cases "\<not> k_sync_ok env \<and> is_regular s")
  case True
  then have "r = Inl (FileError (OsError 5))" "s' = s\<lparr>sk_map := (sk_map s)\<lparr>disowned := True\<rparr>\<rparr>"
    using assms(2) by (auto simp: sink_close_def)
  then show ?thesis using assms(1) by (simp add: image_ok_def)
next
  case False
  define s1 where "s1 = (if k_sync_ok env then s\<lparr>sk_dur := sk_img s\<rparr> else s)"
  have s1: "sk_map s1 = sk_map s" "sk_img s1 = sk_img s" "is_regular s1 = is_regular s"
    "is_regular s \<Longrightarrow> sk_dur s1 = sk_img s" "sk_fs s1 = sk_fs s"
    using False by (auto simp: s1_def)
  obtain q m f where fl: "flush (k_rec env) (sk_map s) (sk_fs s) = (q, m, f)" by (rule prod_cases3)
  note keep = flush_keeps [OF fl]
  have s': "s' = s1\<lparr>sk_map := m, sk_fs := f\<rparr>" "\<forall>st. r = Inr st \<longrightarrow> st = stats m"
    using assms(2) False fl s1 by (auto simp: sink_close_def Let_def s1_def [symmetric] split: sum.splits)
  have "map_inv m" using assms(1) keep same_runs_inv by (auto simp: image_ok_def)
  then show ?thesis using assms(1) keep s1 s' by (simp add: image_ok_def same_runs_def)
qed

lemma sweep_finish_ok:
  assumes "image_ok disc s" and "sweep_finish j r s = (summary, s')"
  shows "image_ok disc s' \<and> scope (sk_map s') = scope (sk_map s) \<and> total_size (sk_map s') = total_size (sk_map s) \<and>
    sk_img s' = sk_img s \<and> is_regular s' = is_regular s \<and>
    (\<forall>st. summary = Inr st \<longrightarrow> st = stats (sk_map s') \<and> (is_regular s \<longrightarrow> sk_dur s' = sk_img s))"
proof -
  obtain ended s1 where e: "(case r of Inl e \<Rightarrow> (Inl e, s) | Inr _ \<Rightarrow> sink_close (j_close j) s) = (ended, s1)"
    by fastforce
  have one: "image_ok disc s1 \<and> scope (sk_map s1) = scope (sk_map s) \<and> total_size (sk_map s1) = total_size (sk_map s) \<and>
      sk_img s1 = sk_img s \<and> is_regular s1 = is_regular s \<and>
      (\<forall>st. ended = Inr st \<longrightarrow> st = stats (sk_map s1) \<and> (is_regular s \<longrightarrow> sk_dur s1 = sk_img s))"
    using e sink_close_ok [OF assms(1), of "j_close j" ended s1] assms(1) by (cases r) auto
  have "s' = s1\<lparr>sk_map := (sk_map s1)\<lparr>disowned := disowned (sk_map s1) \<or> (\<exists>x. summary = Inl x)\<rparr>\<rparr>"
    "\<forall>st. summary = Inr st \<longrightarrow> ended = Inr st"
    using assms(2) e by (auto simp: sweep_finish_def finish_disowning_def split: option.splits sum.splits)
  moreover have "stats (m\<lparr>disowned := d\<rparr>) = stats m" for m d
    by (simp add: stats_def nontried_outside_scope_def split: option.split)
  ultimately show ?thesis using one by (auto simp: image_ok_def)
qed

text \<open>No byte left to do: every byte in scope is Finished.\<close>

lemma complete_stats:
  assumes inv: "map_inv m" and sc: "scope_ok m" and "bytes_pending (stats m) = 0" and "bytes_unreadable (stats m) = 0"
    and "b < total_size m" and "in_scope m b"
  shows "look (entries m) b = Some Finished"
proof -
  have zero: "\<not> P b s" if "count_bytes m P = 0" "look (entries m) b = Some s" for P s
  proof -
    have "finite {b. \<exists>s. look (entries m) b = Some s \<and> P b s}"
      by (rule finite_subset [OF _ finite_look [of "entries m"]]) auto
    then show ?thesis using that by (auto simp: count_bytes_def)
  qed
  note st = stats_counts [OF inv sc]
  have "count_bytes m (\<lambda>b s. s = NonTried \<and> in_scope m b) = 0" "count_bytes m (\<lambda>b s. s = Unreadable) = 0"
    "count_bytes m (\<lambda>b s. s = NonTrimmed \<or> s = NonScraped) = 0"
    using st assms(3,4) by simp_all
  note z = zero [OF this(1)] zero [OF this(2)] zero [OF this(3)]
  obtain s where "look (entries m) b = Some s" using map_inv_look [OF inv] assms(5) by blast
  then show ?thesis using z [of s] assms(6) by (cases s) auto
qed

lemma map_fst_zip_items: "map snd (zip (map ks [0..<length its]) its) = its"
  by simp

lemma sweep_run_ok:
  assumes cfg: "cfg_ok cfg" and img: "image_ok disc s0" and regs: "regions_ok (sk_map s0) regions"
    and faith: "\<forall>env \<in> set es. faithful disc env"
    and run: "sweep_run cfg tot regions es ks j s0 = (r, s')"
  shows "image_ok disc s' \<and> scope (sk_map s') = scope (sk_map s0) \<and> total_size (sk_map s') = total_size (sk_map s0) \<and>
    (\<forall>x. r = Some (Inr x) \<longrightarrow>
       x = copy_result tot (bytes_good (stats (sk_map s'))) (bytes_unreadable (stats (sk_map s')))
         (bytes_pending (stats (sk_map s'))) 0 (cr_halted x) \<and>
       (is_regular s' \<longrightarrow> sk_dur s' = sk_img s'))"
proof -
  obtain p over where pr: "produce cfg regions es = (p, over)" by fastforce
  define its where "its = rev (p_items p)"
  obtain q s1 where ap: "apply_items (zip (map ks [0..<length its]) its) s0 = (q, s1)" by fastforce
  obtain summary s2 where fin: "sweep_finish j q s1 = (summary, s2)" by fastforce
  have res: "r = (if over then Some (sweep_end tot j (p_exit p) summary) else None)" "s' = s2"
    using run pr ap fin by (auto simp: sweep_run_def Let_def its_def)
  have inv: "map_inv (sk_map s0)" using img by (simp add: image_ok_def)
  note lg = produce_ok(1) [OF cfg regions_end [OF inv regs] faith pr]
  note fit = log_fits [OF inv regs lg]
  have "image_ok disc s1 \<and> scope (sk_map s1) = scope (sk_map s0) \<and> total_size (sk_map s1) = total_size (sk_map s0)"
    using apply_items_ok [OF img _ _ ap, unfolded map_fst_zip_items, of 0] fit by (simp add: its_def)
  moreover from this have "image_ok disc s1" by blast
  note sweep_finish_ok [OF this fin]
  moreover have "x = copy_result tot (bytes_good st) (bytes_unreadable st) (bytes_pending st) 0 (cr_halted x) \<and>
      summary = Inr st" if "r = Some (Inr x)" "summary = Inr st" for x st
    using that res(1) by (auto simp: sweep_end_def copy_result_def split: if_splits option.splits exit_reason.splits)
  moreover have "\<exists>st. summary = Inr st" if "r = Some (Inr x)" for x
    using that res(1) by (auto simp: sweep_end_def split: if_splits option.splits exit_reason.splits sum.splits)
  ultimately show ?thesis unfolding res(2) by metis
qed

lemma sweep_gates_sectors: "sweep_gates env = Inr k \<Longrightarrow> se_sectors env = Inr k"
  by (auto simp: sweep_gates_def bind_res_eq_Inr split: sum.splits)

lemma sweep_linked_Inr:
  assumes "sweep_linked ph sh env cfg es ks j mf img dur f = (Some (Inr r), left)" and "se_sectors env = Inr n"
  shows "\<exists>regions s0 s'. sweep_opened ph sh env (n * SECTOR) mf img dur f = Inr (regions, s0) \<and> left = HasMap s' \<and>
    sweep_run cfg (n * SECTOR) regions es ks j s0 = (Some (Inr r), s')"
proof (cases "sweep_gates env")
  case (Inl e)
  then show ?thesis using assms(1) by (auto simp: sweep_linked_def)
next
  case (Inr k)
  then have k: "k = n" using sweep_gates_sectors assms(2) by fastforce
  show ?thesis
  proof (cases "sweep_opened ph sh env (n * SECTOR) mf img dur f")
    case (Inl e)
    then show ?thesis using assms(1) Inr k by (auto simp: sweep_linked_def split: prod.splits)
  next
    case op: (Inr x)
    then show ?thesis using assms(1) Inr k
      by (cases x; cases "sweep_run cfg (n * SECTOR) (fst x) es ks j (snd x)")
        (auto simp: sweep_linked_def split: sum.splits, metis sum.exhaust)
  qed
qed

text \<open>
C2: A copy that reports itself complete is the disc: when a sweep, fresh or resumed, over any faults of
drive, queue and files, returns a result marked complete, then every byte of the disc in the map's scope
is Finished and holds the disc's byte in the image, on stable storage too when the output is a regular
file. A sweep without a scope leaves the map unscoped, so then it is the whole disc.
\<close>

theorem sweep_complete_exact:
  assumes "se_sectors env = Inr n" and "n \<le> u32_max" and "cfg_ok cfg" and "sweep_env_ok env" and "stable_stat env"
    and "\<forall>rd m. load ph sh rd f mf = Inr m \<longrightarrow> resumable disc img m"
    and "\<forall>e \<in> set es. faithful disc e"
    and "sweep_linked ph sh env cfg es ks j mf img dur f = (Some (Inr r), HasMap s')" and "complete r"
  shows "(\<forall>b < n * SECTOR. in_scope (sk_map s') b \<longrightarrow>
      sk_look s' b = Some Finished \<and> sk_img s' b = disc b \<and> (is_regular s' \<longrightarrow> sk_dur s' b = disc b)) \<and>
    (se_scope env = None \<longrightarrow> (\<forall>b. in_scope (sk_map s') b)) \<and> cr_total r = n * SECTOR"
proof -
  obtain regions s0 where op: "sweep_opened ph sh env (n * SECTOR) mf img dur f = Inr (regions, s0)"
    and run: "sweep_run cfg (n * SECTOR) regions es ks j s0 = (Some (Inr r), s')"
    using sweep_linked_Inr [OF assms(8,1)] by blast
  note o = sweep_opened_ok [OF assms(2,4,5,6) op]
  note fin = sweep_run_ok [OF assms(3) o(1,3) assms(7) run]
  have r: "bytes_pending (stats (sk_map s')) = 0" "bytes_unreadable (stats (sk_map s')) = 0" "cr_total r = n * SECTOR"
    "is_regular s' \<Longrightarrow> sk_dur s' = sk_img s'"
    using fin assms(9) by (auto simp: copy_result_def dest: arg_cong [of _ _ complete] arg_cong [of _ _ cr_total])
  have inv: "map_inv (sk_map s')" "scope_ok (sk_map s')" "total_size (sk_map s') = n * SECTOR"
    using fin o(2,4) by (auto simp: image_ok_def scope_ok_def scope_aligned_def)
  have "sk_look s' b = Some Finished" if "b < n * SECTOR" "in_scope (sk_map s') b" for b
    using complete_stats [OF inv(1,2) r(1,2)] inv(3) that by simp
  moreover have "in_scope (sk_map s') b" if "se_scope env = None" for b
    using fin o(5) that by (simp add: in_scope_def)
  ultimately show ?thesis using fin r(3,4) by (auto simp: image_ok_def)
qed

end
