(* ===== verification/SweepSample.thy ===== *)
theory SweepSample
  imports SweepLinkInv
begin

text \<open>
  A whole sweep of a small disc, evaluated: two sectors of sevens, no earlier map, a drive that reads.
\<close>

definition small_env :: SweepEnv where
  "small_env =
     \<lparr>se_decryptable = Inr (), se_debussable = Inr (), se_sectors = Inr 2, se_reader = Inr (),
      se_resume = False, se_decrypt = True, se_scope = None, se_read = (0, ReadFine), se_no_image = Inl NotFound,
      se_image = Inl NotFound, se_remove = None, se_skip = [], se_create = good_env,
      se_creator = ''freemkv'', se_disc_id = None, se_vid = None, se_keys_vidfp = None,
      se_id = \<lparr>d_disc_hash = None, d_vidfp = None, proven = []\<rparr>, se_existing = Inl NotFound,
      se_open = Inr (), se_handle = Inr (True, 0), se_set_len = Inr (), se_writeback = Inr (),
      se_spawn = Inr ()\<rparr>"

definition small_start :: Mapfile where
  "small_start = (new_map ''m'' 4096 ''freemkv'' (w_now good_env))
     \<lparr>disowned := False, last_flushed := w_after good_env, raw := Some False, dirty := True\<rparr>"

definition small_sink :: "fs \<Rightarrow> ImageSink" where
  "small_sink f = \<lparr>sk_img = (\<lambda>b. 0), sk_dur = (\<lambda>b. 0), sk_map = small_start, sk_fs = f, is_regular = True\<rparr>"

lemma small_opened:
  "\<exists>f'. sweep_opened ph sh small_env (2 * SECTOR) ''m'' img (\<lambda>b. 0) (\<lambda>_. None) = Inr ([(0, 4096)], small_sink f')"
proof -
  obtain f' where cr: "create good_env ''m'' 4096 ''freemkv'' (\<lambda>_. None) =
      (Inr ((new_map ''m'' 4096 ''freemkv'' (w_now good_env))\<lparr>disowned := False, last_flushed := w_after good_env\<rparr>), f')"
    by (simp add: create_def write_to_disk_def write_locked_def unlink_quiet_def good_env_def new_map_def Let_def)
  have sec: "2 * SECTOR = 4096" by (simp add: SECTOR_def)
  have none: "load ph sh (w_now good_env, w_read good_env) (\<lambda>_. None) ''m'' = Inl NotFound"
    by (simp add: load_def read_capped_def good_env_def)
  have sm: "sweep_map ph sh small_env 4096 False ''m'' (\<lambda>_. None) =
      (Inr (small_start), f')"
    using cr none by (simp add: sweep_map_def small_env_def remove_file_def stale_mapfile_removed_def open_or_create_def
        Let_def stamp_identity_def disc_vid_fingerprint_def set_raw_def new_map_def small_start_def)
  have "sweep_resume ph sh small_env 4096 ''m'' (\<lambda>_. None) = Inr False"
    by (simp add: sweep_resume_def small_env_def)
  moreover have "sweep_image small_env False img = (Inr True, \<lambda>b. 0)"
    by (simp add: sweep_image_def small_env_def iso_len_from_metadata_def output_is_regular_def Let_def)
  moreover have "sweep_start small_env 4096 False small_start (\<lambda>b. 0) (\<lambda>b. 0) True f' = ([(0, 4096)], small_sink f')"
    by (simp add: sweep_start_def sweep_scope_def small_env_def clear_scope_def small_start_def new_map_def
        sweep_regions_of_def ranges_with_def subtract_def small_sink_def Let_def)
  moreover have "se_writeback small_env = Inr ()" "se_spawn small_env = Inr ()" by (simp_all add: small_env_def)
  ultimately have "sweep_opened ph sh small_env (2 * SECTOR) ''m'' img (\<lambda>b. 0) (\<lambda>_. None) = Inr ([(0, 4096)], small_sink f')"
    unfolding sec by (simp add: sweep_opened_def sm Let_def)
  then show ?thesis by blast
qed

lemma small_iter:
  "sweep_iter sample_cfg 4096 sample_read (producer_init 2\<lparr>p_pos := 0\<rparr>) =
     \<lparr>p_pos = 4096, p_ctx = on_success 0 (for_sweep 2), p_items = [Good 0 sample_buf],
      p_speeds = [MAX_SPEED], bytes_done = 4096, bytes_good_done = 4096, p_exit = None\<rparr>"
proof -
  have bb: "block_bytes_at sample_cfg 0 4096 = 4096"
    by (simp add: block_bytes_at_def sample_cfg_def SECTOR_def)
  have buf: "map (\<lambda>i. 7) [0..<4096] = sample_buf"
    by (simp add: map_replicate_const sample_buf_def del: upt_rec_numeral)
  have "require_full_read (c_short_read sample_cfg) 4096 (Inr (2 * SECTOR)) = Inr 4096"
    by (simp add: require_full_read_def SECTOR_def)
  then show ?thesis
    using sample_sent
    by (simp add: sweep_iter_def bb producer_init_def sample_read_def buf SECTOR_def Let_def good_read_def
        p_send_def then_run_def for_sweep_def sat_add_def u64_max_def del: upt_rec_numeral)
qed

lemma small_produce:
  "produce sample_cfg [(0, 4096)] [sample_read] =
     (\<lparr>p_pos = 4096, p_ctx = on_success 0 (for_sweep 2), p_items = [Good 0 sample_buf],
       p_speeds = [MAX_SPEED], bytes_done = 4096, bytes_good_done = 4096, p_exit = None\<rparr>, True)"
proof -
  let ?s = "producer_init 2\<lparr>p_pos := 0\<rparr>"
  have init: "p_exit ?s = None" "p_pos ?s = 0" "c_batch sample_cfg = 2"
    by (simp_all add: producer_init_def sample_cfg_def)
  have snap: "snap_to_sectors 0 4096 = (0, 4096)"
    by (simp add: snap_to_sectors_def Let_def div_ceil_def SECTOR_def u64_max_def)
  have "sweep_region sample_cfg 4096 [sample_read] ?s = (sweep_iter sample_cfg 4096 sample_read ?s, [])"
    using init by simp
  then show ?thesis
    unfolding produce_def init(3) sweep_regions.simps Let_def fst_conv snd_conv snap
    using small_iter by (simp add: region_over_def)
qed

definition small_done :: Mapfile where
  "small_done = (splice 0 4096 Finished small_start)\<lparr>dirty := True\<rparr>"

lemma small_done_map:
  "entries small_done = [entry 0 4096 Finished]" "scope small_done = None" "\<not> disowned small_done"
  "total_size small_done = 4096" "path small_done = ''m''" "map_inv small_done"
  "stats small_done = compute_stats [entry 0 4096 Finished] 4096"
proof -
  have es: "entries small_start = [entry 0 4096 NonTried]" "scope small_start = None" "path small_start = ''m''"
    "\<not> disowned small_start" "total_size small_start = 4096"
    by (simp_all add: small_start_def new_map_def)
  have "map_inv small_start"
    using map_inv_new [of 4096 "''m''" "''freemkv''" "w_now good_env"]
    by (simp add: small_start_def map_inv_def map_ok_def u32_max_def SECTOR_def)
  then show inv: "map_inv small_done"
    using splice_map_inv [of small_start 0 4096 Finished] es(5)
    by (simp add: span_ok_def SECTOR_def small_done_def map_inv_def map_ok_def)
  show m: "entries small_done = [entry 0 4096 Finished]" "scope small_done = None" "\<not> disowned small_done"
    "total_size small_done = 4096" "path small_done = ''m''"
    using es by (simp_all add: small_done_def splice_def splice_entries_def splice_lo_def splice_hi_def splice_merged_def
        splice_window_def partition_point_def run_end_def sat_add_def u64_max_def
        coalesce_def push_coalesced_def Let_def)
  show "stats small_done = compute_stats [entry 0 4096 Finished] 4096"
    using inv m by (simp add: stats_def map_inv_def map_ok_def)
qed

lemma small_apply:
  "\<exists>s1. apply_items [(sample_sink_env, Good 0 sample_buf)] (small_sink f) = (Inr Continue, s1) \<and>
     sk_map s1 = small_done \<and> sk_fs s1 = f \<and> is_regular s1"
proof -
  define img where "img = write_at 0 sample_buf (\<lambda>b. 0)"
  have fl: "last_flushed (splice 0 4096 Finished small_start) = 5001"
    by (simp add: small_start_def splice_def good_env_def)
  have rec: "record_range good_env 0 4096 Finished small_start f = (Inr (), small_done, f)"
    using fl by (simp add: record_range_def checked_add_def u64_max_def changed_def Let_def small_done_def)
      (simp add: good_env_def FLUSH_INTERVAL_def)
  let ?s1 = "\<lparr>sk_img = img, sk_dur = img, sk_map = small_done, sk_fs = f, is_regular = True\<rparr>"
  have "\<not> disowned small_start" by (simp add: small_start_def)
  then have "sweep_apply sample_sink_env (Good 0 sample_buf) (small_sink f) = (Inr Continue, ?s1) \<or>
      sweep_apply sample_sink_env (Good 0 sample_buf) (small_sink f) = (Inr Continue, ?s1\<lparr>sk_dur := \<lambda>b. 0\<rparr>)"
    using rec by (auto simp: sweep_apply_def apply_good_def sample_sink_env_def small_sink_def Let_def
        record_item_def img_def)
  then show ?thesis by auto
qed

definition small_join :: JoinEnv where
  "small_join = \<lparr>j_join = None, j_failed = False, j_close = sample_sink_env\<rparr>"

lemma small_run:
  "\<exists>s'. sweep_run sample_cfg (2 * SECTOR) [(0, 4096)] [sample_read] (\<lambda>_. sample_sink_env) small_join (small_sink f) =
     (Some (Inr (copy_result 4096 4096 0 0 0 False)), s') \<and> sk_map s' = clean good_env small_done \<and>
     sk_fs s' ''m'' = Some (print_map small_done)"
proof -
  obtain s1 where ap: "apply_items [(sample_sink_env, Good 0 sample_buf)] (small_sink f) = (Inr Continue, s1)"
    and s1: "sk_map s1 = small_done" "is_regular s1"
    using small_apply by blast
  have st: "bytes_good (stats small_done) = 4096" "bytes_unreadable (stats small_done) = 0"
    "bytes_pending (stats small_done) = 0"
    unfolding small_done_map(7)
    by (simp_all add: compute_stats_def tally_def bump_def MapStats_default_def sat_add_def u64_max_def)
  have keep: "stats (clean good_env small_done) = stats small_done"
    by (simp add: stats_def clean_def nontried_outside_scope_def split: option.split)
  have dirty: "dirty small_done" by (simp add: small_done_def)
  obtain s2 where cl: "sink_close sample_sink_env s1 = (Inr (stats small_done), s2)"
    "sk_map s2 = clean good_env small_done" "sk_fs s2 ''m'' = Some (print_map small_done)"
    using s1 keep dirty small_done_map(3,5)
    by (simp add: sink_close_def sample_sink_env_def flush_def good_persist Let_def)
  have nd: "\<not> disowned (clean good_env small_done)" using small_done_map(3) by (simp add: clean_def)
  have fin: "sweep_finish small_join (Inr Continue) s1 = (Inr (stats small_done), s2)"
    using cl by (simp add: sweep_finish_def small_join_def finish_disowning_def)
  have "map (\<lambda>_. sample_sink_env) [0..<length [Good 0 sample_buf]] = [sample_sink_env]" by simp
  then show ?thesis
    using ap fin st cl by (simp add: sweep_run_def small_produce Let_def sweep_end_def SECTOR_def)
qed

lemma small_linked:
  "\<exists>s'. sweep_linked sample_ph (\<lambda>_ bs. bs) small_env sample_cfg [sample_read] (\<lambda>_. sample_sink_env) small_join
      ''m'' (\<lambda>b. 3) (\<lambda>b. 0) (\<lambda>_. None) = (Some (Inr (copy_result 4096 4096 0 0 0 False)), HasMap s') \<and>
    sk_map s' = clean good_env small_done \<and> sk_fs s' ''m'' = Some (print_map small_done)"
proof -
  obtain f' where op: "sweep_opened sample_ph (\<lambda>_ bs. bs) small_env (2 * SECTOR) ''m'' (\<lambda>b. 3) (\<lambda>b. 0) (\<lambda>_. None) =
      Inr ([(0, 4096)], small_sink f')" using small_opened by blast
  then show ?thesis using small_run [of f'] by (auto simp: sweep_linked_def sweep_gates_def small_env_def)
qed

theorem sweep_complete_exact_witness:
  "\<exists>s'. sweep_linked sample_ph (\<lambda>_ bs. bs) small_env sample_cfg [sample_read] (\<lambda>_. sample_sink_env) small_join
      ''m'' (\<lambda>b. 3) (\<lambda>b. 0) (\<lambda>_. None) = (Some (Inr (copy_result 4096 4096 0 0 0 False)), HasMap s') \<and>
    sk_img s' 100 = 7"
proof -
  obtain s' where lk: "sweep_linked sample_ph (\<lambda>_ bs. bs) small_env sample_cfg [sample_read] (\<lambda>_. sample_sink_env) small_join
      ''m'' (\<lambda>b. 3) (\<lambda>b. 0) (\<lambda>_. None) = (Some (Inr (copy_result 4096 4096 0 0 0 False)), HasMap s')"
    using small_linked by blast
  have env: "se_sectors small_env = Inr 2" "2 \<le> u32_max" "sweep_env_ok small_env" "stable_stat small_env"
    "se_scope small_env = None" "complete (copy_result 4096 4096 0 0 0 False)"
    by (simp_all add: small_env_def u32_max_def sweep_env_ok_def stable_stat_def ranges_ok_def copy_result_def)
  have old: "\<forall>rd m. load sample_ph (\<lambda>_ bs. bs) rd (\<lambda>_. None) ''m'' = Inr m \<longrightarrow> resumable (\<lambda>_. 7) (\<lambda>b. 3) m"
    by (simp add: load_Inr)
  have fa: "\<forall>e \<in> set [sample_read]. faithful (\<lambda>_. 7) e" using sample_faithful [of 1] by simp
  from sweep_complete_exact [OF env(1,2) sample_cfg_ok env(3,4) old fa lk env(6)]
  show ?thesis using lk env(5) by (simp add: SECTOR_def)
qed

end
