(* ===== verification/CopyProps.thy ===== *)
theory CopyProps
  imports SweepSample
begin

text \<open>
  What the copy dispatch may decide over a saved map, the check of a staged image, and the progress bar
  of a sweep.
\<close>

subsection \<open>The dispatch\<close>

definition all_finished :: "Mapfile \<Rightarrow> bool" where
  "all_finished m = (\<forall>b < total_size m. look (entries m) b = Some Finished)"

lemma all_finished_look: "map_inv m \<Longrightarrow> all_finished m \<Longrightarrow> look (entries m) b = Some s \<Longrightarrow> s = Finished"
  using map_inv_look [of m b] by (auto simp: all_finished_def)

lemma count_le_total: "map_inv m \<Longrightarrow> count_bytes m P \<le> total_size m"
proof -
  assume inv: "map_inv m"
  have "card {b. \<exists>s. look (entries m) b = Some s \<and> P b s} \<le> card {..< total_size m}"
    using map_inv_look [OF inv] by (intro card_mono) auto
  then show ?thesis by (simp add: count_bytes_def)
qed

lemma bad_bytes_exact:
  assumes inv: "map_inv m" and "scope m = None"
  shows "wadd (bytes_pending (stats m)) (bytes_unreadable (stats m)) = bytes_pending (stats m) + bytes_unreadable (stats m)"
proof -
  have st: "stats m = stats_field m" using assms(2) by (simp add: stats_def)
  have "bytes_pending (stats m) + bytes_unreadable (stats m) =
      count_bytes m (\<lambda>b s. s \<in> {NonTried, NonTrimmed, NonScraped} \<or> s \<in> {Unreadable})"
    unfolding st field_stats(2,5) [OF inv] by (rule count_split [symmetric]) auto
  also have "\<dots> \<le> total_size m" by (rule count_le_total [OF inv])
  also have "\<dots> \<le> u64_max" using inv by (intro total_fits) (simp add: map_inv_def)
  finally show ?thesis by (rule wadd_exact)
qed

lemma count_pos: "map_inv m \<Longrightarrow> 0 < count_bytes m P \<longleftrightarrow> (\<exists>b s. look (entries m) b = Some s \<and> P b s)"
proof -
  assume inv: "map_inv m"
  have "finite {b. \<exists>s. look (entries m) b = Some s \<and> P b s}"
    by (rule finite_subset [OF _ finite_look [of "entries m"]]) auto
  then show ?thesis by (auto simp: count_bytes_def card_gt_0_iff)
qed

lemma all_finished_iff:
  assumes inv: "map_inv m" and sc: "scope m = None"
  shows "bytes_pending (stats m) = 0 \<and> bytes_unreadable (stats m) = 0 \<longleftrightarrow> all_finished m"
proof
  have ok: "scope_ok m" using sc by (simp add: scope_ok_def)
  show "bytes_pending (stats m) = 0 \<and> bytes_unreadable (stats m) = 0 \<Longrightarrow> all_finished m"
    using complete_stats [OF inv ok] sc by (auto simp: all_finished_def in_scope_def)
  assume fin: "all_finished m"
  have none: "count_bytes m P = 0" if "\<And>b. \<not> P b Finished" for P
  proof -
    have "\<not> 0 < count_bytes m P" using all_finished_look [OF inv fin] that unfolding count_pos [OF inv] by blast
    then show ?thesis by simp
  qed
  have "stats m = stats_field m" using sc by (simp add: stats_def)
  then show "bytes_pending (stats m) = 0 \<and> bytes_unreadable (stats m) = 0"
    using field_stats(2,5) [OF inv] none by simp
qed

lemma dispatch_stats_ok:
  assumes inv: "map_inv m" and sc: "scope m = None"
  shows "case dispatch_stats env m im of
      Report r \<Rightarrow> total_size m = ce_capacity env \<and> (complete r \<longrightarrow> all_finished m \<and> is_intact im)
    | RunPatch \<Rightarrow> total_size m = ce_capacity env \<and> ce_multipass env \<and>
        (\<forall>b. look (entries m) b \<noteq> Some NonTried) \<and>
        (\<exists>b. look (entries m) b \<in> {Some NonTrimmed, Some NonScraped})
    | RunSweep True \<Rightarrow> total_size m = ce_capacity env \<and> (\<exists>b. look (entries m) b = Some NonTried)
    | RunSweep False \<Rightarrow> total_size m = ce_capacity env \<longrightarrow> all_finished m \<and> \<not> is_intact im"
proof -
  have st: "stats m = stats_field m" using sc by (simp add: stats_def)
  have bad: "wadd (bytes_pending (stats m)) (bytes_unreadable (stats m)) = 0 \<longleftrightarrow> all_finished m"
    using bad_bytes_exact [OF assms] all_finished_iff [OF assms] by simp
  have nt: "0 < bytes_nontried (stats m) \<longleftrightarrow> (\<exists>b. look (entries m) b = Some NonTried)"
    and rt: "0 < bytes_retryable (stats m) \<longleftrightarrow> (\<exists>b. look (entries m) b \<in> {Some NonTrimmed, Some NonScraped})"
    unfolding st field_stats(3,4) [OF inv] count_pos [OF inv] by auto
  have pend: "bytes_pending (stats m) = bytes_nontried (stats m) + bytes_retryable (stats m)"
    using stats_counts [OF inv] sc by (simp add: scope_ok_def)
  have cr: "complete (copy_result d g u p 0 False) = (p = 0 \<and> u = 0)" for d g u p by (simp add: copy_result_def)
  have fin: "\<not> 0 < bytes_nontried (stats m)" if "all_finished m"
    using all_finished_look [OF inv that] unfolding nt by blast
  have nobad: "all_finished m" if "bytes_nontried (stats m) = 0" "bytes_retryable (stats m) = 0" "bytes_unreadable (stats m) = 0"
    using that pend all_finished_iff [OF assms] by simp
  let ?report = "\<lambda>p. Report (copy_result (ce_capacity env) (bytes_good (stats m)) (bytes_unreadable (stats m)) p 0 False)"
  have eq: "dispatch_stats env m im =
      (if total_size m \<noteq> ce_capacity env then RunSweep False
       else if all_finished m then (if is_intact im then ?report 0 else RunSweep False)
       else if 0 < bytes_nontried (stats m) then RunSweep True
       else if \<not> ce_multipass env then ?report (bytes_pending (stats m))
       else if 0 < bytes_retryable (stats m) then RunPatch else ?report 0)"
    unfolding dispatch_stats_def Let_def bad using fin by simp
  show ?thesis
  proof (cases "total_size m = ce_capacity env \<and> \<not> all_finished m \<and> \<not> 0 < bytes_nontried (stats m)")
    case False
    then show ?thesis using nt unfolding eq by auto
  next
    case True
    have "\<not> (bytes_pending (stats m) = 0 \<and> bytes_unreadable (stats m) = 0)"
      using True nobad pend by auto
    moreover have "\<not> 0 < bytes_retryable (stats m) \<Longrightarrow> bytes_unreadable (stats m) \<noteq> 0" using True nobad by auto
    ultimately show ?thesis using True nt rt unfolding eq by (simp add: cr)
  qed
qed

lemma widen_ok:
  assumes "map_inv m" and "widen env m f = (Inr m', f')"
  shows "map_inv m' \<and> scope m' = None \<and> entries m' = entries m \<and> total_size m' = total_size m \<and> raw m' = raw m \<and>
    check_identity m' d = check_identity m d \<and> (scope m = None \<longrightarrow> f' = f)"
proof (cases "scope m")
  case None
  then show ?thesis using assms by (simp add: widen_def)
next
  case (Some sc)
  obtain q m1 f1 where fl: "flush (ce_flush env) (clear_scope m) f = (q, m1, f1)" by (rule prod_cases3)
  have m': "m' = m1" "f' = f1"
    using assms(2) Some fl by (auto simp: widen_def split: sum.splits)
  have sm: "same_map m1 (clear_scope m)" by (rule flush_same [OF fl])
  then have "map_inv m1 = map_inv (clear_scope m)" by (rule same_map_inv)
  moreover have "map_inv (clear_scope m)" using assms(1) same_runs_inv [OF setters_same(5)] by blast
  ultimately show ?thesis using sm m' Some
    by (simp add: same_map_def clear_scope_def check_identity_def)
qed

lemma copy_titled_map:
  assumes "copy_titled ph sh env mf f = (Inr a, f')" and "f mf \<noteq> None" and "load ph sh (ce_read env) f mf = Inr m"
    and "map_inv m"
  shows "(a = RunSweep False \<and> check_identity m (ce_id env) \<noteq> Inr () \<and> no_image (ce_no_image env) = Inr True \<or>
    check_identity m (ce_id env) = Inr () \<and>
    (a = RunSweep False \<and> raw m = Some (ce_decrypt env) \<or>
     raw m \<noteq> Some (ce_decrypt env) \<and>
     (\<exists>m' im. map_inv m' \<and> scope m' = None \<and> entries m' = entries m \<and> total_size m' = total_size m \<and>
        image_state (ce_image env) (ce_capacity env) = Inr im \<and> a = dispatch_stats env m' im))) \<and>
    (scope m = None \<longrightarrow> f' = f)"
proof -
  have run: "dispatch_loaded env m f = (Inr a, f')"
    using assms by (auto simp: copy_titled_def copy_io_def split: sum.splits prod.splits)
  show ?thesis
  proof (cases "other_disc_no_image env m")
    case (Inl e)
    then show ?thesis using run by (simp add: dispatch_loaded_def)
  next
    case (Inr gone)
    show ?thesis
    proof (cases gone)
      case True
      then show ?thesis using run Inr
        by (auto simp: dispatch_loaded_def other_disc_no_image_def split: sum.splits)
    next
      case False
      then obtain m' where w: "widen env m f = (Inr m', f')" "dispatch_map env m' = Inr a"
        using run Inr by (auto simp: dispatch_loaded_def split: sum.splits prod.splits)
      note wo = widen_ok [OF assms(4) w(1), of "ce_id env"]
      show ?thesis using w(2) wo
        by (auto simp: dispatch_map_def bind_res_eq_Inr split: if_splits)
    qed
  qed
qed



subsection \<open>Staged images\<close>

text \<open>
C30: A staged image passes the check of a mux only when every sector of every wanted title lies in its
scope and was read at least once; a title that does not exist is an error.
\<close>

theorem ensure_titles_staged_sound:
  assumes "ensure_titles_staged (Inr m) titles wanted = Inr ()" and "scope m = Some sc"
    and "canon (entries m)" and "disj_from 0 sc"
    and "\<forall>i \<in> set wanted. \<forall>e \<in> set (titles ! i). fst e \<le> u32_max \<and> snd e \<le> u32_max"
  shows "\<forall>i \<in> set wanted. i < length titles \<and> (\<forall>e \<in> set (titles ! i). \<forall>b.
    fst e * SECTOR \<le> b \<and> b < (fst e + snd e) * SECTOR \<longrightarrow> b \<in> bytes_of sc \<and> look (entries m) b \<noteq> Some NonTried)"
proof -
  define unread where "unread = ranges_with m [NonTried]"
  have u: "disj_from 0 unread" "bytes_of unread = {b. look (entries m) b = Some NonTried}"
    using ranges_with_correct [of m "[NonTried]"] assms(3) by (auto simp: unread_def canon_def)
  have no: "find (\<lambda>i. length titles \<le> i) wanted = None"
    and all: "list_all (extent_staged sc unread) (concat (map (\<lambda>i. titles ! i) wanted))"
    using assms(1,2) by (auto simp: ensure_titles_staged_def unread_def Let_def split: option.splits if_splits)
  have one: "b \<in> bytes_of sc \<and> look (entries m) b \<noteq> Some NonTried"
    if st: "extent_staged sc unread e" and e: "fst e \<le> u32_max" "snd e \<le> u32_max"
      and b: "fst e * SECTOR \<le> b" "b < (fst e + snd e) * SECTOR" for e b
  proof -
    let ?w = "(fst e * SECTOR, snd e * SECTOR)"
    have b2: "b < fst e * SECTOR + snd e * SECTOR" using b(2) by (simp add: distrib_right)
    then have pos: "0 < snd e * SECTOR" using b(1) by linarith
    have "fst e * SECTOR + snd e * SECTOR \<le> u32_max * SECTOR + u32_max * SECTOR"
      using e by (intro add_mono mult_le_mono1)
    then have "fst e * SECTOR + snd e * SECTOR \<le> u64_max" by (simp add: u32_max_def SECTOR_def u64_max_def)
    then have w: "disj_from 0 [?w]" using pos by simp
    have len: "total_len (intersect [?w] sc) = snd e * SECTOR" and "intersect [?w] unread = []"
      using st by (simp_all add: extent_staged_def Let_def total_len_def)
    then have un: "bytes_of [?w] \<inter> bytes_of unread = {}" using intersect_bytes [OF w u(1)] by simp
    have "card (bytes_of (intersect [?w] sc)) = snd e * SECTOR"
      using len total_len_card [OF intersect_lower [OF w assms(4)]] by simp
    then have "card (bytes_of [?w] \<inter> bytes_of sc) = card (bytes_of [?w])"
      using intersect_bytes [OF w assms(4)] by simp
    then have "bytes_of [?w] \<inter> bytes_of sc = bytes_of [?w]" by (intro card_subset_eq) simp_all
    moreover have "b \<in> bytes_of [?w]" using b(1) b2 by simp
    ultimately show ?thesis using un u(2) by blast
  qed
  show ?thesis
  proof
    fix i assume i: "i \<in> set wanted"
    have "i < length titles" using no i by (auto simp: find_None_iff)
    moreover have "extent_staged sc unread e" if "e \<in> set (titles ! i)" for e
      using all i that by (auto simp: list_all_iff)
    ultimately show "i < length titles \<and> (\<forall>e \<in> set (titles ! i). \<forall>b.
        fst e * SECTOR \<le> b \<and> b < (fst e + snd e) * SECTOR \<longrightarrow> b \<in> bytes_of sc \<and> look (entries m) b \<noteq> Some NonTried)"
      using one assms(5) i by blast
  qed
qed

theorem ensure_titles_staged_sound_witness:
  "9000 \<in> bytes_of [(0, 14336)] \<and> look (entries sample_map) 9000 \<noteq> Some NonTried"
proof -
  have "ensure_titles_staged (Inr sample_map) [[(1, 4)]] [0] = Inr ()"
    by (simp add: ensure_titles_staged_def sample_map_def extent_staged_def Let_def ranges_with_def SECTOR_def
        sat_add_def u64_max_def)
  from ensure_titles_staged_sound [OF this _ sample_canon, of "[(0, 14336)]"]
  show ?thesis by (simp add: sample_map_def u32_max_def u64_max_def SECTOR_def)
qed

subsection \<open>The progress bar\<close>

lemma todo_le_domain:
  assumes inv: "map_inv m" and ps: "\<forall>sc. ps = Some sc \<longrightarrow> disj_from 0 sc \<and> all_aligned sc"
    and skip: "ranges_ok skip" "all_aligned skip"
  shows "sweep_todo (sweep_regions_of m ps skip) \<le> sweep_domain (total_size m) ps"
    and "sweep_domain (total_size m) ps \<le> total_size m"
proof -
  let ?rs = "sweep_regions_of m ps skip"
  have "u32_max * SECTOR \<le> u64_max" by (simp add: u32_max_def SECTOR_def u64_max_def)
  then have fit: "total_size m \<le> u64_max" using inv by (simp add: map_inv_def)
  have "\<And>sc. ps = Some sc \<Longrightarrow> disj_from 0 sc \<and> all_aligned sc" using ps by blast
  note rs = sweep_regions_ok_of [of m ps skip, OF inv this skip]
  have snapped: "map snap ?rs = ?rs" by (rule regions_snap [OF inv rs(1)])
  have "sum_list (map snd (map snap ?rs)) = total_len ?rs"
    unfolding total_len_def by (simp only: snapped)
  then have "sweep_todo ?rs = total_len ?rs"
    unfolding sweep_todo_def snap_def by (simp add: comp_def)
  also have "\<dots> = card (bytes_of ?rs)" using rs(1) total_len_card by (auto simp: regions_ok_def)
  finally have todo: "sweep_todo ?rs = card (bytes_of ?rs)" .
  have inside: "bytes_of ?rs \<subseteq> {..< total_size m}" using rs(2) map_inv_look [OF inv] by auto
  have all: "sweep_todo ?rs \<le> sweep_domain (total_size m) ps \<and> sweep_domain (total_size m) ps \<le> total_size m"
  proof (cases "ps")
    case None
    then show ?thesis using todo card_mono [OF _ inside] by (simp add: sweep_domain_def)
  next
    case (Some sc)
    show ?thesis
    proof (cases "total_size m = 0")
      case True
      have "intersect [(0, 0)] sc = []" by (induction sc) (auto simp: Let_def sat_add_def)
      then show ?thesis using True todo inside Some by (simp add: sweep_domain_def)
    next
      case False
      then have w: "disj_from 0 [(0, total_size m)]" using fit by simp
      have sc: "disj_from 0 sc" using ps Some by blast
      have b: "bytes_of (intersect [(0, total_size m)] sc) = {..< total_size m} \<inter> bytes_of sc"
        using intersect_bytes [OF w sc] by auto
      have dom: "sweep_domain (total_size m) ps = card ({..< total_size m} \<inter> bytes_of sc)"
        using total_len_card [OF intersect_lower [OF w sc]] b Some by (simp add: sweep_domain_def total_len_def)
      have "bytes_of ?rs \<subseteq> {..< total_size m} \<inter> bytes_of sc" using inside rs(2) Some by auto
      then have "card (bytes_of ?rs) \<le> card ({..< total_size m} \<inter> bytes_of sc)" by (intro card_mono) simp_all
      moreover have "card ({..< total_size m} \<inter> bytes_of sc) \<le> card {..< total_size m}" by (intro card_mono) auto
      ultimately show ?thesis using todo dom by simp
    qed
  qed
  then show "sweep_todo ?rs \<le> sweep_domain (total_size m) ps" "sweep_domain (total_size m) ps \<le> total_size m" by simp_all
qed

text \<open>
The progress bar of a sweep: it starts at what the map already held of the pass's domain, moves by
exactly the bytes of the items sent, never passes its total, and reads full when every region is done.
\<close>

theorem sweep_bar_exact:
  assumes "map_inv m" and "\<forall>sc. ps = Some sc \<longrightarrow> disj_from 0 sc \<and> all_aligned sc"
    and "ranges_ok skip" and "all_aligned skip" and "rs = sweep_regions_of m ps skip" and "dn \<le> sweep_todo rs"
  shows "let p = bar_tick (sweep_bar m ps rs (total_size m)) snapshot dn gd
    in work_total p = sweep_domain (total_size m) ps \<and> work_total p \<le> total_size m \<and>
       work_done p = work_total p - (sweep_todo rs - dn) \<and> work_done p \<le> work_total p \<and>
       bytes_good (stats m) \<le> bytes_good_total p"
proof -
  note le = todo_le_domain [of m ps skip, OF assms(1-4)]
  have fit: "total_size m \<le> u64_max" using assms(1) by (intro total_fits) (simp add: map_inv_def)
  have good: "bytes_good (stats m) \<le> u64_max"
  proof -
    have "bytes_good (stats m) = bytes_good (stats_field m)"
      by (cases "scope m") (simp_all add: stats_def Let_def)
    also have "\<dots> \<le> total_size m" using field_stats(1) [OF assms(1)] count_le_total [OF assms(1)] by simp
    finally show ?thesis using fit by simp
  qed
  have "sat_add (sweep_domain (total_size m) ps - sweep_todo rs) dn =
      sweep_domain (total_size m) ps - (sweep_todo rs - dn)"
    using le fit assms(5,6) by (simp add: sat_add_def)
  then show ?thesis using le good
    by (cases snapshot) (auto simp: bar_tick_def sweep_bar_def Let_def sat_add_def)
qed

theorem sweep_bar_exact_witness:
  "work_done (bar_tick (sweep_bar sample_map None (sweep_regions_of sample_map None []) 16384) None 0 0) = 12288"
proof -
  have tot: "total_size sample_map = 16384" by (simp add: sample_map_def)
  have rs: "sweep_regions_of sample_map None [] = [(12288, 4096)]"
    by (simp add: sweep_regions_of_def ranges_with_def sample_map_def subtract_def)
  have todo: "sweep_todo [(12288, 4096)] = 4096" using sample_snap by (simp add: sweep_todo_def)
  have "ranges_ok []" "all_aligned []" by (simp_all add: ranges_ok_def)
  from sweep_bar_exact [OF sample_inv(1) _ this refl, of None 0 None 0]
  show ?thesis unfolding rs todo tot by (simp add: Let_def sweep_domain_def)
qed

end
