(* ===== verification/SubRanges.thy ===== *)
theory SubRanges
  imports RangesAlign
begin

text \<open>
  The still-bad part of a section, \<open>SubRanges\<close> (\<open>src/src/recovery/patch.rs\<close>): sorted ranges a patch pass
  takes recovered spans out of. The abstract value is the set of bytes; what is left after a removal
  never touches its neighbour, so a section's sub-ranges stay separated.
\<close>

definition from_section :: "u64 \<Rightarrow> u64 \<Rightarrow> range list" where
  "from_section pos n = (if n = 0 then [] else [(pos, n)])"

definition sub_total_len :: "range list \<Rightarrow> u64" where
  "sub_total_len rs = sum_list (map snd rs)"

definition sub_contains :: "range list \<Rightarrow> u64 \<Rightarrow> bool" where
  "sub_contains rs pos = list_ex (\<lambda>r. pos \<ge> fst r \<and> pos - fst r < snd r) rs"

text \<open>What a removal leaves of one sub-range.\<close>

definition remove_one :: "u64 \<Rightarrow> u64 \<Rightarrow> range \<Rightarrow> range list" where
  "remove_one pos n r =
     (let rend = wadd pos n; rp = fst r; re = wadd rp (snd r)
      in if rend \<le> rp \<or> pos \<ge> re then [r]
         else (if pos > rp then [(rp, pos - rp)] else []) @ (if rend < re then [(rend, re - rend)] else []))"

definition sub_remove :: "u64 \<Rightarrow> u64 \<Rightarrow> range list \<Rightarrow> range list" where
  "sub_remove pos n rs = (if n = 0 then rs else concat (map (remove_one pos n) rs))"

subsection \<open>Well-formed sets\<close>

definition sub_ok :: "range list \<Rightarrow> bool" where
  "sub_ok rs = (sep_from 0 rs \<and> all_aligned rs)"

lemma sep_from_fits: "sep_from c rs \<Longrightarrow> (p, n) \<in> set rs \<Longrightarrow> c \<le> p \<and> 0 < n \<and> p + n \<le> u64_max"
  by (induction c rs rule: sep_from.induct) auto

lemma sep_from_low: "sep_from c rs \<Longrightarrow> b \<in> bytes_of rs \<Longrightarrow> c \<le> b"
  by (auto simp: bytes_of_def dest: sep_from_fits)

lemma remove_one_bytes:
  assumes "pos + n \<le> u64_max" and "fst r + snd r \<le> u64_max" and "0 < n"
  shows "bytes_of (remove_one pos n r) = {fst r ..< fst r + snd r} - {pos ..< pos + n}"
  using assms by (auto simp: remove_one_def Let_def arith64)

lemma sub_remove_bytes:
  assumes "sub_ok rs" and "pos + n \<le> u64_max"
  shows "bytes_of (sub_remove pos n rs) = bytes_of rs - {pos ..< pos + n}"
proof -
  have "\<forall>r \<in> set rs. fst r + snd r \<le> u64_max" using assms(1) sep_from_fits by (force simp: sub_ok_def)
  then have "0 < n \<Longrightarrow> bytes_of (concat (map (remove_one pos n) rs)) = bytes_of rs - {pos ..< pos + n}"
    by (induction rs) (auto simp: remove_one_bytes [OF assms(2)])
  then show ?thesis by (simp add: sub_remove_def)
qed

lemma remove_one_sep:
  assumes "c \<le> p" and "0 < m" and "p + m \<le> u64_max" and "pos + n \<le> u64_max" and "0 < n"
  shows "sep_from c (remove_one pos n (p, m))"
    and "remove_one pos n (p, m) \<noteq> [] \<Longrightarrow>
      fst (last (remove_one pos n (p, m))) + snd (last (remove_one pos n (p, m))) \<le> p + m"
  using assms by (auto simp: remove_one_def Let_def arith64)

lemma sub_remove_sep:
  assumes "sep_from c rs" and "pos + n \<le> u64_max"
  shows "sep_from c (sub_remove pos n rs)"
proof (cases "n = 0")
  case True
  then show ?thesis using assms by (simp add: sub_remove_def)
next
  case False
  then have n: "0 < n" by simp
  have "sep_from c (concat (map (remove_one pos n) rs))"
    using assms(1)
  proof (induction c rs rule: sep_from.induct)
    case (2 c p m rs)
    let ?x = "remove_one pos n (p, m)"
    have pm: "c \<le> p" "0 < m" "p + m \<le> u64_max" and rest: "sep_from (Suc (p + m)) (concat (map (remove_one pos n) rs))"
      using 2 by auto
    note x = remove_one_sep [OF pm assms(2) n]
    have "sep_from (if ?x = [] then c else Suc (fst (last ?x) + snd (last ?x))) (concat (map (remove_one pos n) rs))"
      using x(2) pm by (intro sep_from_mono [OF rest]) auto
    then show ?case using x(1) by (simp add: sep_from_append)
  qed simp
  then show ?thesis using False by (simp add: sub_remove_def)
qed

lemma remove_one_aligned:
  assumes "SECTOR dvd pos" and "SECTOR dvd n" and "aligned r" and "pos + n \<le> u64_max" and "fst r + snd r \<le> u64_max"
  shows "all_aligned (remove_one pos n r)"
proof -
  have "aligned (fst r, pos - fst r)" "aligned (pos + n, fst r + snd r - (pos + n))"
    using aligned_span [of "fst r" "snd r"] assms by (intro aligned_between; simp)+
  then show ?thesis using assms by (auto simp: remove_one_def Let_def arith64)
qed

lemma sub_remove_ok:
  assumes "sub_ok rs" and "SECTOR dvd pos" and "SECTOR dvd n" and "pos + n \<le> u64_max"
  shows "sub_ok (sub_remove pos n rs)"
proof -
  have fits: "\<forall>r \<in> set rs. fst r + snd r \<le> u64_max" using assms(1) sep_from_fits by (force simp: sub_ok_def)
  have "all_aligned (remove_one pos n r)" if "r \<in> set rs" for r
    using that assms fits by (intro remove_one_aligned) (auto simp: sub_ok_def all_aligned_def)
  then have "all_aligned (sub_remove pos n rs)"
    using assms(1) by (auto simp: sub_remove_def all_aligned_def sub_ok_def)
  then show ?thesis using sub_remove_sep assms by (simp add: sub_ok_def)
qed

lemma sub_contains_bytes: "sub_contains rs b \<longleftrightarrow> b \<in> bytes_of rs"
  by (force simp: sub_contains_def list_ex_iff bytes_of_def)

lemma sub_empty: "sub_ok rs \<Longrightarrow> rs = [] \<longleftrightarrow> bytes_of rs = {}"
proof (cases rs)
  case (Cons r xs)
  assume "sub_ok rs"
  then have "0 < snd r" using sep_from_fits [of 0 rs "fst r" "snd r"] Cons by (simp add: sub_ok_def)
  then show ?thesis using Cons by simp
qed simp

lemma sub_len_card: "sub_ok rs \<Longrightarrow> sub_total_len rs = card (bytes_of rs)"
  using total_len_card [OF sep_imp_disj] by (auto simp: sub_ok_def sub_total_len_def total_len_def)

text \<open>An aligned sector lies in a well-formed set whole or not at all.\<close>

lemma sector_inside:
  assumes "sub_ok rs" and "SECTOR dvd pos" and "pos \<in> bytes_of rs"
  shows "{pos ..< pos + SECTOR} \<subseteq> bytes_of rs"
proof -
  obtain p n where r: "(p, n) \<in> set rs" "p \<le> pos" "pos < p + n" using assms(3) by (auto simp: bytes_of_def)
  have "SECTOR dvd p + n" using assms(1) r(1) by (auto simp: sub_ok_def all_aligned_def aligned_dvd)
  then have "SECTOR dvd p + n - pos" using assms(2) by (intro dvd_diff_nat)
  then have "SECTOR \<le> p + n - pos" using r(3) by (intro dvd_imp_le) auto
  then have "{pos ..< pos + SECTOR} \<subseteq> {p ..< p + n}" using r(2) by auto
  then show ?thesis using r(1) by (auto simp: bytes_of_def intro!: bexI [of _ "(p, n)"])
qed

text \<open>The byte before a sub-range is not in the set.\<close>

lemma before_not_inside:
  assumes "sub_ok rs" and "(p, n) \<in> set rs" and "b < p" and "SECTOR dvd b" and "b + SECTOR = p"
  shows "b \<notin> bytes_of rs"
proof
  assume "b \<in> bytes_of rs"
  then have "{b ..< b + SECTOR} \<subseteq> bytes_of rs" by (rule sector_inside [OF assms(1,4)])
  then have "p - 1 \<in> bytes_of rs" using assms(3,5) SECTOR_pos by (auto simp del: SECTOR_pos)
  then obtain q m where q: "(q, m) \<in> set rs" "q \<le> p - 1" "p - 1 < q + m" by (auto simp: bytes_of_def)
  have "sep_from c xs \<Longrightarrow> (q, m) \<in> set xs \<Longrightarrow> (p, n) \<in> set xs \<Longrightarrow> q < p \<Longrightarrow> q + m < p" for c xs
  proof (induction c xs rule: sep_from.induct)
    case (2 c a k xs)
    then show ?case using sep_from_fits by fastforce
  qed simp
  moreover have "q < p" using q(2) assms(3) by linarith
  ultimately have "q + m < p" using assms(1,2) q(1) by (auto simp: sub_ok_def)
  then show False using q(3) by linarith
qed

end
