(* ===== verification/Handlers.thy ===== *)
theory Handlers
  imports SubRanges Sweep
begin

text \<open>
  The recovery handlers of a patch pass (\<open>src/src/recovery/section_recover.rs\<close>): each takes a bounded
  shot at the still-bad part of one section.

  A handler is a function of a world: the stream of what its reads and stop checks observe (the drive's
  answer, the hand-off to the consumer, the clock, the Stop flag), one entry per read or check. The
  context counts the entries used in \<open>h_step\<close>; \<open>h_items\<close> logs the items handed to the consumer and
  \<open>h_speeds\<close> the speeds set, the newest first. \<open>h_dropped\<close> is a ghost: the spans read while a Stop was
  pending, which the sink drops and the handler still takes out of its set.
\<close>

subsection \<open>Knobs of a read\<close>

definition BATCH_SECTORS :: nat where "BATCH_SECTORS = 32"
definition JUMP_AFTER_FAILS :: nat where "JUMP_AFTER_FAILS = 2"
definition UNPRODUCTIVE_YIELD :: nat where "UNPRODUCTIVE_YIELD = 4"
definition WEDGE_ABORT_STREAK :: nat where "WEDGE_ABORT_STREAK = 16"
definition SPEED_MAX_KBS :: nat where "SPEED_MAX_KBS = 65535"
definition SPEED_MIN_KBS :: nat where "SPEED_MIN_KBS = 1385"

datatype SpeedPref = SpeedMax | SpeedMin
datatype TimeoutPref = TimeoutFast | TimeoutDeep

definition kbs :: "SpeedPref \<Rightarrow> nat" where
  "kbs s = (case s of SpeedMax \<Rightarrow> SPEED_MAX_KBS | SpeedMin \<Rightarrow> SPEED_MIN_KBS)"

definition recovery :: "TimeoutPref \<Rightarrow> bool" where
  "recovery t = (t = TimeoutDeep)"

record ReadParams =
  rp_speed :: SpeedPref
  rp_fua :: bool
  rp_timeout :: TimeoutPref

definition fast_params :: ReadParams where
  "fast_params = \<lparr>rp_speed = SpeedMax, rp_fua = False, rp_timeout = TimeoutFast\<rparr>"

definition deep_params :: ReadParams where
  "deep_params = \<lparr>rp_speed = SpeedMax, rp_fua = False, rp_timeout = TimeoutDeep\<rparr>"

definition params_tag :: "ReadParams \<Rightarrow> string" where
  "params_tag p =
     (let sp = (case rp_speed p of SpeedMax \<Rightarrow> ''max'' | SpeedMin \<Rightarrow> ''min'');
          t = (case rp_timeout p of TimeoutFast \<Rightarrow> ''fast'' | TimeoutDeep \<Rightarrow> ''deep'')
      in if rp_fua p then sp @ '':fua:'' @ t else sp @ '':'' @ t)"

subsection \<open>The context\<close>

datatype HandlerOutcome = Complete | Remaining | HandlerHalted | TransportFault | FatalEnd

datatype patch_item = Recovered u64 "nat list" | MarkNonTrimmed u64 u64

record ReadObs =
  o_read :: "nat \<Rightarrow> nat \<Rightarrow> bool \<Rightarrow> bool \<Rightarrow> (lib_error + nat) \<times> (nat \<Rightarrow> nat)"
  o_send :: PipeView
  o_fast :: bool
  o_halted :: bool
  o_now :: nat

record World =
  w_obs :: "nat \<Rightarrow> ReadObs"
  w_short :: lib_error
  w_capacity :: nat

record HandlerCtx =
  h_step :: nat
  h_items :: "patch_item list"
  h_dropped :: "range list"
  h_speeds :: "nat list"
  unproductive :: nat
  wedge_streak :: nat
  cur_speed :: nat
  fatal :: "pass_fail option"

definition stalled :: "HandlerCtx \<Rightarrow> bool" where
  "stalled c = (UNPRODUCTIVE_YIELD \<le> unproductive c)"

text \<open>
  The stop check between reads: \<open>halted()\<close>, then \<open>past(deadline)\<close>, or \<open>timed_out(deadline)\<close>, which
  ignores the dead streak.
\<close>

definition stop_check :: "World \<Rightarrow> bool \<Rightarrow> nat \<Rightarrow> HandlerCtx \<Rightarrow> HandlerOutcome option \<times> HandlerCtx" where
  "stop_check w yields deadline c =
     (let obs = w_obs w (h_step c); c' = c\<lparr>h_step := h_step c + 1\<rparr>
      in if o_halted obs then (Some HandlerHalted, c')
         else if yields \<and> stalled c \<or> deadline \<le> o_now obs then (Some Remaining, c')
         else (None, c'))"

subsection \<open>Reading a span\<close>

datatype ReadHit = HitGood | HitBad | HitTransport | HitFatal

text \<open>The sink of a patch pass, \<open>PatchRecoverySink\<close>.\<close>

definition recovered_span :: "PipeView \<Rightarrow> u64 \<Rightarrow> nat list \<Rightarrow> HandlerCtx \<Rightarrow> pass_fail option \<times> HandlerCtx" where
  "recovered_span v pos buf c =
     (case send_bounded_within v of
        Inr _ \<Rightarrow> (None, c\<lparr>h_items := Recovered pos buf # h_items c\<rparr>)
      | Inl StallHalted \<Rightarrow> (None, c\<lparr>h_dropped := (pos, length buf) # h_dropped c\<rparr>)
      | Inl stall \<Rightarrow> (Some (into_error stall), c))"

definition is_wedge_sense :: "lib_error \<Rightarrow> bool" where
  "is_wedge_sense e =
     (case scsi_sense e of
        Some s \<Rightarrow> s_key s = KeyHardware \<or> s_key s = KeyIllegalRequest
      | None \<Rightarrow> False)"

definition bump_u32 :: "nat \<Rightarrow> nat" where
  "bump_u32 n = min (n + 1) u32_max"

definition set_span_speed :: "nat \<Rightarrow> HandlerCtx \<Rightarrow> HandlerCtx" where
  "set_span_speed want c =
     (if want \<noteq> cur_speed c then c\<lparr>h_speeds := want # h_speeds c, cur_speed := want\<rparr> else c)"

definition read_failed :: "bool \<Rightarrow> lib_error \<Rightarrow> HandlerCtx \<Rightarrow> ReadHit \<times> HandlerCtx" where
  "read_failed fast_fail e c =
     (if is_scsi_transport_failure e then (HitTransport, c)
      else if \<not> is_damage_candidate e then (HitFatal, c\<lparr>fatal := Some (ReadAborted (LibError e))\<rparr>)
      else if is_wedge_sense e \<and> fast_fail
      then (let c' = c\<lparr>wedge_streak := bump_u32 (wedge_streak c)\<rparr>
            in if wedge_streak c' \<ge> WEDGE_ABORT_STREAK then (HitTransport, c') else (HitBad, c'))
      else (HitBad, c\<lparr>wedge_streak := 0\<rparr>))"

definition read_hit ::
  "World \<Rightarrow> ReadObs \<Rightarrow> u64 \<Rightarrow> nat \<Rightarrow> ReadParams \<Rightarrow> bool \<Rightarrow> HandlerCtx \<Rightarrow> ReadHit \<times> HandlerCtx" where
  "read_hit w obs pos count params commit c =
     (let lba = (pos div SECTOR) mod (u32_max + 1);
          bytes = count * SECTOR;
          rd = o_read obs lba count (recovery (rp_timeout params)) (rp_fua params)
      in case require_full_read (w_short w) bytes (fst rd) of
           Inr n \<Rightarrow>
             (if n = bytes \<and> \<not> commit then (HitGood, c)
              else if n = bytes
              then (case recovered_span (o_send obs) pos (map (snd rd) [0..<bytes]) c of
                      (None, c') \<Rightarrow> (HitGood, c')
                    | (Some e, c') \<Rightarrow> (HitFatal, c'\<lparr>fatal := Some e\<rparr>))
              else (HitBad, c\<lparr>wedge_streak := 0\<rparr>))
         | Inl e \<Rightarrow> read_failed (o_fast obs) e c)"

definition note_hit :: "bool \<Rightarrow> ReadHit \<Rightarrow> HandlerCtx \<Rightarrow> HandlerCtx" where
  "note_hit commit hit c =
     (case hit of
        HitGood \<Rightarrow> (if commit then c\<lparr>unproductive := 0\<rparr> else c)\<lparr>wedge_streak := 0\<rparr>
      | HitBad \<Rightarrow> c\<lparr>unproductive := bump_u32 (unproductive c)\<rparr>
      | _ \<Rightarrow> c)"

definition read_span_as ::
  "World \<Rightarrow> HandlerCtx \<Rightarrow> u64 \<Rightarrow> nat \<Rightarrow> ReadParams \<Rightarrow> bool \<Rightarrow> ReadHit \<times> HandlerCtx" where
  "read_span_as w c pos count params commit =
     (if count = 0 \<or> pos mod SECTOR \<noteq> 0 then (HitBad, c)
      else
        (let obs = w_obs w (h_step c);
             c1 = set_span_speed (kbs (rp_speed params)) (c\<lparr>h_step := h_step c + 1\<rparr>)
         in case read_hit w obs pos count params commit c1 of
              (hit, c2) \<Rightarrow> (hit, note_hit commit hit c2)))"

definition read_span :: "World \<Rightarrow> HandlerCtx \<Rightarrow> u64 \<Rightarrow> nat \<Rightarrow> ReadParams \<Rightarrow> ReadHit \<times> HandlerCtx" where
  "read_span w c pos count params = read_span_as w c pos count params True"

definition prime_read :: "World \<Rightarrow> HandlerCtx \<Rightarrow> u64 \<Rightarrow> ReadParams \<Rightarrow> range list \<Rightarrow> ReadHit \<times> HandlerCtx" where
  "prime_read w c pos params bad = read_span_as w c pos 1 params (sub_contains bad pos)"

text \<open>The count of a span, as the cast to \<open>u16\<close> leaves it.\<close>

definition span_count :: "u64 \<Rightarrow> nat" where
  "span_count sz = (sz div SECTOR) mod 65536"

lemma read_good_count: "read_span_as w c pos n ps commit = (HitGood, c') \<Longrightarrow> 0 < n \<and> SECTOR dvd pos"
  by (auto simp: read_span_as_def dvd_eq_mod_eq_0 split: if_splits)

lemma span_count_pos: "0 < span_count sz \<Longrightarrow> SECTOR \<le> sz"
proof -
  assume "0 < span_count sz"
  then have "sz div SECTOR \<noteq> 0" by (auto simp: span_count_def)
  then show ?thesis by (simp add: div_eq_0_iff not_less)
qed

lemma SECTOR_gt0 [termination_simp]: "0 < SECTOR" by simp

subsection \<open>Runs of a handler\<close>

text \<open>\<open>None\<close>: the handler goes on; \<open>Some\<close>: it has returned.\<close>

type_synonym hrun = "HandlerOutcome option \<times> HandlerCtx \<times> range list"

definition hbind :: "hrun \<Rightarrow> (HandlerCtx \<Rightarrow> range list \<Rightarrow> hrun) \<Rightarrow> hrun" where
  "hbind r f = (case r of (None, c, bad) \<Rightarrow> f c bad | r' \<Rightarrow> r')"

definition check_run :: "World \<Rightarrow> bool \<Rightarrow> nat \<Rightarrow> HandlerCtx \<Rightarrow> range list \<Rightarrow> hrun" where
  "check_run w yields dl c bad = (case stop_check w yields dl c of (r, c') \<Rightarrow> (r, c', bad))"

text \<open>The answer to a read that only a good hit makes a removal of.\<close>

definition claim :: "ReadHit \<times> HandlerCtx \<Rightarrow> u64 \<Rightarrow> u64 \<Rightarrow> range list \<Rightarrow> hrun" where
  "claim r pos n bad =
     (case r of
        (HitGood, c) \<Rightarrow> (None, c, sub_remove pos n bad)
      | (HitBad, c) \<Rightarrow> (None, c, bad)
      | (HitTransport, c) \<Rightarrow> (Some TransportFault, c, bad)
      | (HitFatal, c) \<Rightarrow> (Some FatalEnd, c, bad))"

fun each_range :: "(u64 \<Rightarrow> u64 \<Rightarrow> HandlerCtx \<Rightarrow> range list \<Rightarrow> hrun) \<Rightarrow> range list \<Rightarrow> HandlerCtx \<Rightarrow> range list \<Rightarrow> hrun" where
  "each_range f [] c bad = (None, c, bad)"
| "each_range f (r # rs) c bad = hbind (f (fst r) (snd r) c bad) (each_range f rs)"

definition handler_end :: "hrun \<Rightarrow> HandlerOutcome \<times> HandlerCtx \<times> range list" where
  "handler_end r =
     (case r of
        (Some out, c, bad) \<Rightarrow> (out, c, bad)
      | (None, c, bad) \<Rightarrow> (if bad = [] then Complete else Remaining, c, bad))"

end
