(* ===== verification/Techniques.thy ===== *)
theory Techniques
  imports Handlers
begin

text \<open>
  The recovery techniques of \<open>src/src/recovery/section_recover.rs\<close>, one group of definitions each, and
  the datatype \<open>handler\<close> of the boxed \<open>SectionHandler\<close>s a chain is made of.

  Every loop checks for a stop before it reads. The loops over a snapshot of the still-bad set are
  \<open>each_range\<close>; a loop body is a function of the position it has reached.
\<close>

definition batch_bytes :: u64 where "batch_bytes = BATCH_SECTORS * SECTOR"

lemma batch_bytes_pos: "0 < batch_bytes" by (simp add: batch_bytes_def BATCH_SECTORS_def)

lemma step_up: "a < (b :: nat) \<Longrightarrow> 0 < s \<Longrightarrow> b - (a + min s (b - a)) < b - a"
  by (auto simp: min_def)

lemma step_down: "a < (b :: nat) \<Longrightarrow> 0 < s \<Longrightarrow> b - min s (b - a) - a < b - a"
  by (auto simp: min_def)

lemma read_span_good: "(HitGood, c') = read_span w c pos (span_count (min stp k)) ps \<Longrightarrow> 0 < stp"
  by (auto simp: read_span_def dest!: sym [of "(HitGood, c')"] read_good_count span_count_pos
      intro: less_le_trans [OF SECTOR_gt0])

text \<open>What a read leaves of a run whose caller does something else after a good than after a bad hit.\<close>

definition on_hit ::
  "ReadHit \<times> HandlerCtx \<Rightarrow> range list \<Rightarrow> (HandlerCtx \<Rightarrow> hrun) \<Rightarrow> (HandlerCtx \<Rightarrow> hrun) \<Rightarrow> hrun" where
  "on_hit r bad good dead =
     (case r of
        (HitGood, c) \<Rightarrow> good c
      | (HitBad, c) \<Rightarrow> dead c
      | (HitTransport, c) \<Rightarrow> (Some TransportFault, c, bad)
      | (HitFatal, c) \<Rightarrow> (Some FatalEnd, c, bad))"

lemma on_hit_cong [fundef_cong]:
  assumes "r = r'" and "bad = bad'"
    and "\<And>c. r' = (HitGood, c) \<Longrightarrow> good c = good' c" and "\<And>c. r' = (HitBad, c) \<Longrightarrow> dead c = dead' c"
  shows "on_hit r bad good dead = on_hit r' bad' good' dead'"
  using assms by (auto simp: on_hit_def split: prod.splits ReadHit.splits)

lemma hbind_cong [fundef_cong]:
  assumes "r = r'" and "\<And>c bad. r' = (None, c, bad) \<Longrightarrow> f c bad = f' c bad"
  shows "hbind r f = hbind r' f'"
  using assms by (auto simp: hbind_def split: prod.splits option.splits)

subsection \<open>Linear\<close>

datatype Direction = Forward | Reverse

definition is_reverse :: "Direction \<Rightarrow> bool" where
  "is_reverse d = (d = Reverse)"

definition dir_tag :: "Direction \<Rightarrow> string" where
  "dir_tag d = (case d of Forward \<Rightarrow> ''fwd'' | Reverse \<Rightarrow> ''rev'')"

function linear_range ::
  "World \<Rightarrow> bool \<Rightarrow> ReadParams \<Rightarrow> nat \<Rightarrow> u64 \<Rightarrow> u64 \<Rightarrow> u64 \<Rightarrow> HandlerCtx \<Rightarrow> range list \<Rightarrow> hrun" where
  "linear_range w rvs ps dl rp rl dn c bad =
     (if dn < rl
      then hbind (check_run w True dl c bad) (\<lambda>c bad.
        let sz = min batch_bytes (rl - dn);
            pos = (if rvs then rp + (rl - dn - sz) else rp + dn)
        in hbind (claim (read_span w c pos (span_count sz) ps) pos sz bad) (\<lambda>c bad.
             linear_range w rvs ps dl rp rl (dn + sz) c bad))
      else (None, c, bad))"
  by pat_completeness auto
termination
  by (relation "measure (\<lambda>(w, rvs, ps, dl, rp, rl, dn, c, bad). rl - dn)") (auto simp: batch_bytes_pos step_up)

declare linear_range.simps [simp del]

definition linear :: "World \<Rightarrow> Direction \<Rightarrow> ReadParams \<Rightarrow> nat \<Rightarrow> HandlerCtx \<Rightarrow> range list \<Rightarrow> hrun" where
  "linear w dir ps dl c bad =
     each_range (\<lambda>rp rl. linear_range w (is_reverse dir) ps dl rp rl 0)
       (if is_reverse dir then rev bad else bad) c bad"

subsection \<open>Bisect\<close>

text \<open>The step after a failed read of \<open>sz > SECTOR\<close> bytes.\<close>

definition half_step :: "u64 \<Rightarrow> u64" where
  "half_step sz = max (sz div SECTOR div 2) 1 * SECTOR"

lemma half_step_less: "SECTOR < sz \<Longrightarrow> half_step sz < sz"
proof -
  assume sz: "SECTOR < sz"
  then have "0 < sz div SECTOR" by (simp add: div_greater_zero_iff)
  then have "sz div SECTOR div 2 * SECTOR < sz div SECTOR * SECTOR" by (intro mult_strict_right_mono) auto
  also have "\<dots> \<le> sz" by simp
  finally show ?thesis using sz by (simp add: half_step_def max_def)
qed

lemma half_step_min: "SECTOR < min stp k \<Longrightarrow> half_step (min stp k) < stp"
  using half_step_less [of "min stp k"] by simp

function bisect_fwd ::
  "World \<Rightarrow> ReadParams \<Rightarrow> nat \<Rightarrow> u64 \<Rightarrow> u64 \<Rightarrow> u64 \<Rightarrow> HandlerCtx \<Rightarrow> range list \<Rightarrow> u64 \<times> hrun" where
  "bisect_fwd w ps dl e fwd stp c bad =
     (if fwd < e
      then (case check_run w False dl c bad of
              (Some out, c, bad) \<Rightarrow> (fwd, (Some out, c, bad))
            | (None, c, bad) \<Rightarrow>
                (let sz = min stp (e - fwd)
                 in case read_span w c fwd (span_count sz) ps of
                      (HitGood, c) \<Rightarrow> bisect_fwd w ps dl e (fwd + sz) batch_bytes c (sub_remove fwd sz bad)
                    | (HitBad, c) \<Rightarrow>
                        (if sz > SECTOR then bisect_fwd w ps dl e fwd (half_step sz) c bad
                         else (fwd, (None, c, bad)))
                    | (HitTransport, c) \<Rightarrow> (fwd, (Some TransportFault, c, bad))
                    | (HitFatal, c) \<Rightarrow> (fwd, (Some FatalEnd, c, bad))))
      else (fwd, (None, c, bad)))"
  by pat_completeness auto
termination
proof (relation "measures [\<lambda>(w, ps, dl, e, fwd, stp, c, bad). e - fwd, \<lambda>(w, ps, dl, e, fwd, stp, c, bad). stp]", goal_cases)
  case 2
  then show ?case using step_up read_span_good by auto
next
  case 3
  then show ?case using half_step_min by auto
qed simp

declare bisect_fwd.simps [simp del]

function bisect_bwd ::
  "World \<Rightarrow> ReadParams \<Rightarrow> nat \<Rightarrow> u64 \<Rightarrow> u64 \<Rightarrow> u64 \<Rightarrow> HandlerCtx \<Rightarrow> range list \<Rightarrow> u64 \<times> hrun" where
  "bisect_bwd w ps dl rp bwd stp c bad =
     (if bwd > rp
      then (case check_run w False dl c bad of
              (Some out, c, bad) \<Rightarrow> (bwd, (Some out, c, bad))
            | (None, c, bad) \<Rightarrow>
                (let sz = min stp (bwd - rp); pos = bwd - sz
                 in case read_span w c pos (span_count sz) ps of
                      (HitGood, c) \<Rightarrow> bisect_bwd w ps dl rp pos batch_bytes c (sub_remove pos sz bad)
                    | (HitBad, c) \<Rightarrow>
                        (if sz > SECTOR then bisect_bwd w ps dl rp bwd (half_step sz) c bad
                         else (bwd, (None, c, bad)))
                    | (HitTransport, c) \<Rightarrow> (bwd, (Some TransportFault, c, bad))
                    | (HitFatal, c) \<Rightarrow> (bwd, (Some FatalEnd, c, bad))))
      else (bwd, (None, c, bad)))"
  by pat_completeness auto
termination
proof (relation "measures [\<lambda>(w, ps, dl, rp, bwd, stp, c, bad). bwd - rp, \<lambda>(w, ps, dl, rp, bwd, stp, c, bad). stp]", goal_cases)
  case 2
  then show ?case using step_down read_span_good by auto
next
  case 3
  then show ?case using half_step_min by auto
qed simp

declare bisect_bwd.simps [simp del]

text \<open>The inductions of the two loops over what their reads answer.\<close>

lemma bisect_fwd_induct [case_names step]:
  assumes "\<And>w ps dl e fwd stp c bad.
    (\<And>c1 bad1 c2. fwd < e \<Longrightarrow> check_run w False dl c bad = (None, c1, bad1) \<Longrightarrow>
       read_span w c1 fwd (span_count (min stp (e - fwd))) ps = (HitGood, c2) \<Longrightarrow>
       P w ps dl e (fwd + min stp (e - fwd)) batch_bytes c2 (sub_remove fwd (min stp (e - fwd)) bad1)) \<Longrightarrow>
    (\<And>c1 bad1 c2. fwd < e \<Longrightarrow> check_run w False dl c bad = (None, c1, bad1) \<Longrightarrow>
       read_span w c1 fwd (span_count (min stp (e - fwd))) ps = (HitBad, c2) \<Longrightarrow> SECTOR < min stp (e - fwd) \<Longrightarrow>
       P w ps dl e fwd (half_step (min stp (e - fwd))) c2 bad1) \<Longrightarrow>
    P w ps dl e fwd stp c bad"
  shows "P w ps dl e fwd stp c bad"
proof (induction w ps dl e fwd stp c bad rule: bisect_fwd.induct)
  case (1 w ps dl e fwd stp c bad)
  show ?case by (rule assms) (rule 1, assumption, erule sym, (rule refl)+, erule sym, (rule refl | assumption)+)+
qed

lemma bisect_bwd_induct [case_names step]:
  assumes "\<And>w ps dl rp bwd stp c bad.
    (\<And>c1 bad1 c2 k. k = min stp (bwd - rp) \<Longrightarrow> rp < bwd \<Longrightarrow> check_run w False dl c bad = (None, c1, bad1) \<Longrightarrow>
       read_span w c1 (bwd - k) (span_count k) ps = (HitGood, c2) \<Longrightarrow>
       P w ps dl rp (bwd - k) batch_bytes c2 (sub_remove (bwd - k) k bad1)) \<Longrightarrow>
    (\<And>c1 bad1 c2 k. k = min stp (bwd - rp) \<Longrightarrow> rp < bwd \<Longrightarrow> check_run w False dl c bad = (None, c1, bad1) \<Longrightarrow>
       read_span w c1 (bwd - k) (span_count k) ps = (HitBad, c2) \<Longrightarrow> SECTOR < k \<Longrightarrow>
       P w ps dl rp bwd (half_step k) c2 bad1) \<Longrightarrow>
    P w ps dl rp bwd stp c bad"
  shows "P w ps dl rp bwd stp c bad"
proof (induction w ps dl rp bwd stp c bad rule: bisect_bwd.induct)
  case (1 w ps dl rp bwd stp c bad)
  show ?case by (rule assms) (rule 1, assumption, erule sym, rule refl, rule refl, assumption, rule refl, erule sym, (rule refl | assumption)+)+
qed

lemma bisect_fwd_ge: "fst (bisect_fwd w ps dl e fwd stp c bad) \<ge> fwd"
proof (induction w ps dl e fwd stp c bad rule: bisect_fwd_induct)
  case (step w ps dl e fwd stp c bad)
  show ?case
    using step(1) [THEN add_leD1] step(2)
    by (subst bisect_fwd.simps) (auto simp: Let_def split: prod.splits option.splits ReadHit.splits)
qed

lemma bisect_bwd_le: "fst (bisect_bwd w ps dl rp bwd stp c bad) \<le> bwd"
proof (induction w ps dl rp bwd stp c bad rule: bisect_bwd_induct)
  case (step w ps dl rp bwd stp c bad)
  show ?case
    using step(1) [OF refl, THEN le_trans, OF _ _ _ diff_le_self] step(2) [OF refl]
    by (subst bisect_bwd.simps) (auto simp: Let_def split: prod.splits option.splits ReadHit.splits)
qed

lemma bisect_fwd_run:
  "snd (bisect_fwd w ps dl e fwd stp c bad) =
     (if fwd < e
      then hbind (check_run w False dl c bad) (\<lambda>c bad.
        let sz = min stp (e - fwd)
        in on_hit (read_span w c fwd (span_count sz) ps) bad
             (\<lambda>c. snd (bisect_fwd w ps dl e (fwd + sz) batch_bytes c (sub_remove fwd sz bad)))
             (\<lambda>c. if sz > SECTOR then snd (bisect_fwd w ps dl e fwd (half_step sz) c bad) else (None, c, bad)))
      else (None, c, bad))"
  by (subst bisect_fwd.simps)
    (auto simp: hbind_def on_hit_def Let_def split: prod.split option.split ReadHit.split)

lemma bisect_bwd_run:
  "snd (bisect_bwd w ps dl rp bwd stp c bad) =
     (if bwd > rp
      then hbind (check_run w False dl c bad) (\<lambda>c bad.
        let sz = min stp (bwd - rp); pos = bwd - sz
        in on_hit (read_span w c pos (span_count sz) ps) bad
             (\<lambda>c. snd (bisect_bwd w ps dl rp pos batch_bytes c (sub_remove pos sz bad)))
             (\<lambda>c. if sz > SECTOR then snd (bisect_bwd w ps dl rp bwd (half_step sz) c bad) else (None, c, bad)))
      else (None, c, bad))"
  by (subst bisect_bwd.simps)
    (auto simp: hbind_def on_hit_def Let_def split: prod.split option.split ReadHit.split)

definition push_span :: "u64 \<Rightarrow> u64 \<Rightarrow> range list \<Rightarrow> range list" where
  "push_span lo hi st = (if lo < hi then (lo, hi - lo) # st else st)"

definition mid_of :: "u64 \<Rightarrow> u64 \<Rightarrow> u64" where
  "mid_of rp rl = rp + rl div SECTOR div 2 * SECTOR"

definition stack_size :: "range list \<Rightarrow> nat" where
  "stack_size st = sum_list (map (\<lambda>r. 2 * snd r + 1) st)"

lemma mid_of_ge: "rp \<le> mid_of rp rl" by (simp add: mid_of_def)

lemma mid_of_le: "mid_of rp rl \<le> rp + rl div 2"
  unfolding mid_of_def by (metis add_left_mono div_mult2_eq div_times_less_eq_dividend less_eq_div_iff_mult_less_eq mult.assoc mult.commute zero_less_numeral)

lemma stack_split_less:
  assumes "rl \<noteq> 0" and "b \<le> mid_of rp rl" and "mid_of rp rl + SECTOR \<le> f"
  shows "stack_size (push_span f (rp + rl) (push_span rp b st)) < stack_size ((rp, rl) # st)"
proof -
  have "mid_of rp rl < f" using assms(3) SECTOR_gt0 by linarith
  then show ?thesis using assms(1,2) mid_of_le [of rp rl] mid_of_ge [of rp rl] by (auto simp: stack_size_def push_span_def)
qed

text \<open>The work stack, its top first. A good probe grows the readable island both ways.\<close>

function bisect_loop ::
  "World \<Rightarrow> ReadParams \<Rightarrow> nat \<Rightarrow> range list \<Rightarrow> HandlerCtx \<Rightarrow> range list \<Rightarrow> hrun" where
  "bisect_loop w ps dl [] c bad = (None, c, bad)"
| "bisect_loop w ps dl ((rp, rl) # st) c bad =
     (if rl = 0 then bisect_loop w ps dl st c bad
      else hbind (check_run w True dl c bad) (\<lambda>c bad.
        let e = rp + rl; mid = mid_of rp rl
        in on_hit (read_span w c mid 1 ps) bad
             (\<lambda>c. case bisect_fwd w ps dl e (mid + SECTOR) batch_bytes c (sub_remove mid SECTOR bad) of
                (fwd, r) \<Rightarrow> hbind r (\<lambda>c bad.
                  case bisect_bwd w ps dl rp mid batch_bytes c bad of
                    (bwd, r) \<Rightarrow> hbind r (\<lambda>c bad.
                      bisect_loop w ps dl (push_span fwd e (push_span rp bwd st)) (c\<lparr>unproductive := 0\<rparr>) bad)))
             (\<lambda>c. bisect_loop w ps dl (push_span (mid + SECTOR) e (push_span rp mid st)) c bad)))"
  by pat_completeness auto
termination
proof (relation "measure (\<lambda>(w, ps, dl, st, c, bad). stack_size st)", goal_cases)
  case (2 w ps dl rp rl st c bad)
  then show ?case by (simp add: stack_size_def)
next
  case (3 w ps dl rp rl st c bad)
  then show ?case
    using bisect_fwd_ge bisect_bwd_le by (auto intro!: stack_split_less) (metis fst_conv)+
next
  case (4 w ps dl rp rl st c bad)
  then show ?case by (auto intro!: stack_split_less)
qed simp

declare bisect_loop.simps(2) [simp del]

definition bisect :: "World \<Rightarrow> ReadParams \<Rightarrow> nat \<Rightarrow> HandlerCtx \<Rightarrow> range list \<Rightarrow> hrun" where
  "bisect w ps dl c bad = bisect_loop w ps dl (rev bad) c bad"

subsection \<open>Jump\<close>

definition jump_step :: "u64 \<Rightarrow> u64" where
  "jump_step remaining = max (remaining div 2 div SECTOR) 1 * SECTOR"

lemma jump_step_pos: "0 < jump_step n" using SECTOR_gt0 by (simp add: jump_step_def max_def)

function jump_range ::
  "World \<Rightarrow> ReadParams \<Rightarrow> nat \<Rightarrow> u64 \<Rightarrow> u64 \<Rightarrow> u64 \<Rightarrow> nat \<Rightarrow> HandlerCtx \<Rightarrow> range list \<Rightarrow> hrun" where
  "jump_range w ps dl rp rl off consec_fail c bad =
     (if off < rl
      then hbind (check_run w True dl c bad) (\<lambda>c bad.
        let sz = min batch_bytes (rl - off); pos = rp + off
        in on_hit (read_span w c pos (span_count sz) ps) bad
             (\<lambda>c. jump_range w ps dl rp rl (off + sz) 0 c (sub_remove pos sz bad))
             (\<lambda>c. if consec_fail + 1 \<ge> JUMP_AFTER_FAILS
                  then jump_range w ps dl rp rl (off + jump_step (rl - off)) 0 c bad
                  else jump_range w ps dl rp rl (off + sz) (consec_fail + 1) c bad))
      else (None, c, bad))"
  by pat_completeness auto
termination
  by (relation "measure (\<lambda>(w, ps, dl, rp, rl, off, consec_fail, c, bad). rl - off)")
    (auto simp: batch_bytes_pos step_up jump_step_pos intro!: diff_less_mono2)

declare jump_range.simps [simp del]

definition jump :: "World \<Rightarrow> ReadParams \<Rightarrow> nat \<Rightarrow> HandlerCtx \<Rightarrow> range list \<Rightarrow> hrun" where
  "jump w ps dl c bad = each_range (\<lambda>rp rl. jump_range w ps dl rp rl 0 0) bad c bad"

subsection \<open>Speed sweep\<close>

fun speed_try ::
  "World \<Rightarrow> ReadParams \<Rightarrow> nat \<Rightarrow> u64 \<Rightarrow> SpeedPref list \<Rightarrow> HandlerCtx \<Rightarrow> range list \<Rightarrow> hrun" where
  "speed_try w ps dl pos [] c bad = (None, c, bad)"
| "speed_try w ps dl pos (s # ss) c bad =
     on_hit (read_span w c pos 1 (ps\<lparr>rp_speed := s\<rparr>)) bad
       (\<lambda>c. (None, c, sub_remove pos SECTOR bad))
       (\<lambda>c. hbind (check_run w False dl c bad) (speed_try w ps dl pos ss))"

text \<open>The loops that go sector by sector over a range.\<close>

function each_sector ::
  "World \<Rightarrow> nat \<Rightarrow> (u64 \<Rightarrow> HandlerCtx \<Rightarrow> range list \<Rightarrow> hrun) \<Rightarrow> u64 \<Rightarrow> u64 \<Rightarrow> u64 \<Rightarrow> HandlerCtx \<Rightarrow> range list \<Rightarrow> hrun"
where
  "each_sector w dl f rp rl off c bad =
     (if off < rl
      then hbind (check_run w True dl c bad) (\<lambda>c bad.
             hbind (f (rp + off) c bad) (\<lambda>c bad. each_sector w dl f rp rl (off + SECTOR) c bad))
      else (None, c, bad))"
  by pat_completeness auto
termination
  by (relation "measure (\<lambda>(w, dl, f, rp, rl, off, c, bad). rl - off)") (auto intro!: diff_less_mono2)

declare each_sector.simps [simp del]

definition speed_sweep :: "World \<Rightarrow> ReadParams \<Rightarrow> nat \<Rightarrow> HandlerCtx \<Rightarrow> range list \<Rightarrow> hrun" where
  "speed_sweep w ps dl c bad =
     each_range (\<lambda>rp rl. each_sector w dl (\<lambda>pos. speed_try w ps dl pos [SpeedMax, SpeedMin]) rp rl 0) bad c bad"

subsection \<open>Cache prime\<close>

definition prime_range ::
  "World \<Rightarrow> ReadParams \<Rightarrow> nat \<Rightarrow> u64 \<Rightarrow> u64 \<Rightarrow> HandlerCtx \<Rightarrow> range list \<Rightarrow> hrun" where
  "prime_range w ps dl rp rl c bad =
     hbind (check_run w True dl c bad) (\<lambda>c bad.
     hbind (if rp \<ge> SECTOR
            then on_hit (prime_read w c (rp - SECTOR) ps bad) bad (\<lambda>c. (None, c, bad)) (\<lambda>c. (None, c, bad))
            else (None, c, bad)) (\<lambda>c bad.
     linear_range w False ps dl rp rl 0 c bad))"

definition cache_prime :: "World \<Rightarrow> ReadParams \<Rightarrow> nat \<Rightarrow> HandlerCtx \<Rightarrow> range list \<Rightarrow> hrun" where
  "cache_prime w ps dl c bad = each_range (prime_range w ps dl) bad c bad"

subsection \<open>Oscillate\<close>

definition prime_above_is_in_range :: "u64 \<Rightarrow> nat \<Rightarrow> bool" where
  "prime_above_is_in_range pos capacity_sectors =
     (if capacity_sectors = 0 then True else pos div SECTOR + 1 < capacity_sectors)"

text \<open>The reverse approach: prime from the sector above, then read the target again.\<close>

definition osc_above :: "World \<Rightarrow> ReadParams \<Rightarrow> nat \<Rightarrow> u64 \<Rightarrow> HandlerCtx \<Rightarrow> range list \<Rightarrow> hrun" where
  "osc_above w ps dl pos c bad =
     hbind (check_run w True dl c bad) (\<lambda>c bad.
     hbind (claim (prime_read w c (pos + SECTOR) ps bad) (pos + SECTOR) SECTOR bad) (\<lambda>c bad.
     hbind (check_run w True dl c bad) (\<lambda>c bad.
     claim (read_span w c pos 1 ps) pos SECTOR bad)))"

definition osc_sector :: "World \<Rightarrow> ReadParams \<Rightarrow> nat \<Rightarrow> u64 \<Rightarrow> HandlerCtx \<Rightarrow> range list \<Rightarrow> hrun" where
  "osc_sector w ps dl pos c bad =
     hbind (if pos \<ge> SECTOR
            then claim (prime_read w c (pos - SECTOR) ps bad) (pos - SECTOR) SECTOR bad
            else (None, c, bad)) (\<lambda>c bad.
     hbind (check_run w True dl c bad) (\<lambda>c bad.
     on_hit (read_span w c pos 1 ps) bad
       (\<lambda>c. (None, c, sub_remove pos SECTOR bad))
       (\<lambda>c. if prime_above_is_in_range pos (w_capacity w) then osc_above w ps dl pos c bad else (None, c, bad))))"

definition oscillate :: "World \<Rightarrow> ReadParams \<Rightarrow> nat \<Rightarrow> HandlerCtx \<Rightarrow> range list \<Rightarrow> hrun" where
  "oscillate w ps dl c bad = each_range (\<lambda>rp rl. each_sector w dl (osc_sector w ps dl) rp rl 0) bad c bad"

subsection \<open>A boxed handler\<close>

datatype handler =
  HLinear Direction ReadParams
  | HBisect ReadParams
  | HJump ReadParams
  | HSpeedSweep ReadParams
  | HCachePrime ReadParams
  | HOscillate ReadParams

definition handler_name :: "handler \<Rightarrow> string" where
  "handler_name h =
     (case h of
        HLinear d ps \<Rightarrow> ''linear:'' @ dir_tag d @ '':'' @ params_tag ps
      | HBisect ps \<Rightarrow> ''bisect:'' @ params_tag ps
      | HJump ps \<Rightarrow> ''jump:'' @ params_tag ps
      | HSpeedSweep ps \<Rightarrow> ''speedsweep:'' @ params_tag ps
      | HCachePrime ps \<Rightarrow> ''cacheprime:'' @ params_tag ps
      | HOscillate ps \<Rightarrow> ''oscillate:'' @ params_tag ps)"

definition technique :: "World \<Rightarrow> handler \<Rightarrow> nat \<Rightarrow> HandlerCtx \<Rightarrow> range list \<Rightarrow> hrun" where
  "technique w h =
     (case h of
        HLinear d ps \<Rightarrow> linear w d ps
      | HBisect ps \<Rightarrow> bisect w ps
      | HJump ps \<Rightarrow> jump w ps
      | HSpeedSweep ps \<Rightarrow> speed_sweep w ps
      | HCachePrime ps \<Rightarrow> cache_prime w ps
      | HOscillate ps \<Rightarrow> oscillate w ps)"

definition recover :: "World \<Rightarrow> handler \<Rightarrow> nat \<Rightarrow> HandlerCtx \<Rightarrow> range list \<Rightarrow> HandlerOutcome \<times> HandlerCtx \<times> range list" where
  "recover w h dl c bad = handler_end (technique w h dl c bad)"

end
