(* ===== verification/Protocol.thy ===== *)
theory Protocol
  imports Techniques
begin

text \<open>
  The contract between the coordinator and a recovery technique, as a locale. A technique may stop check
  at any time and may read once after each check that let it go on; a good read of a span of the section
  is taken out of the still-bad set. A property of runs that these moves keep holds of every technique:
  \<open>ok\<close> is the property of a run that must check before it reads, \<open>arm\<close> that of a run which has just
  checked. Each induction over a technique's loop is done once, here.
\<close>

subsection \<open>Removing a sector that is not in the set\<close>

lemma remove_one_id:
  assumes "SECTOR dvd pos" and "aligned r" and "fst r + snd r \<le> u64_max" and "pos + SECTOR \<le> u64_max"
    and "pos < fst r \<or> fst r + snd r \<le> pos"
  shows "remove_one pos SECTOR r = [r]"
proof -
  have "pos + SECTOR \<le> fst r" if "pos < fst r"
  proof -
    have "SECTOR dvd fst r" using assms(2) by (cases r) (simp add: aligned_dvd)
    then have "SECTOR dvd fst r - pos" using assms(1) by (intro dvd_diff_nat)
    then have "SECTOR \<le> fst r - pos" using that by (intro dvd_imp_le) auto
    then show ?thesis using that by linarith
  qed
  then show ?thesis using assms by (auto simp: remove_one_def Let_def arith64)
qed

lemma sub_remove_id:
  assumes "sub_ok bad" and "SECTOR dvd pos" and "pos + SECTOR \<le> u64_max" and "pos \<notin> bytes_of bad"
  shows "sub_remove pos SECTOR bad = bad"
proof -
  have "remove_one pos SECTOR r = [r]" if r: "r \<in> set bad" for r
  proof (rule remove_one_id [OF assms(2) _ _ assms(3)])
    show "aligned r" using assms(1) r by (auto simp: sub_ok_def all_aligned_def)
    show "fst r + snd r \<le> u64_max" using assms(1) r sep_from_fits [of 0 bad "fst r" "snd r"] by (simp add: sub_ok_def)
    show "pos < fst r \<or> fst r + snd r \<le> pos" using assms(4) r by (force simp: bytes_of_def)
  qed
  then have "concat (map (remove_one pos SECTOR) bad) = bad" by (induction bad) auto
  then show ?thesis by (simp add: sub_remove_def)
qed

subsection \<open>The contract\<close>

text \<open>The sectors a read command can address.\<close>

definition addressable :: "nat set \<Rightarrow> bool" where
  "addressable B = (\<forall>b\<in>B. b < SECTOR * (u32_max + 1))"

lemma addressable_fits: "addressable B \<Longrightarrow> {p ..< p + n} \<subseteq> B \<Longrightarrow> 0 < n \<Longrightarrow> p + n \<le> SECTOR * (u32_max + 1)"
proof -
  assume "addressable B" and "{p ..< p + n} \<subseteq> B" and "0 < n"
  then have "p + n - 1 \<in> B" by auto
  with \<open>addressable B\<close> have "p + n - 1 < SECTOR * (u32_max + 1)" unfolding addressable_def by blast
  then show ?thesis by linarith
qed

lemma max_address: "SECTOR * (u32_max + 1) \<le> u64_max"
  by (simp add: SECTOR_def u32_max_def u64_max_def)

text \<open>A property of runs, with the invariant of the still-bad set: a well-formed part of \<open>S\<close>.\<close>

definition keeps ::
  "nat set \<Rightarrow> (HandlerCtx \<Rightarrow> range list \<Rightarrow> hrun \<Rightarrow> bool) \<Rightarrow> HandlerCtx \<Rightarrow> range list \<Rightarrow> hrun \<Rightarrow> bool" where
  "keeps S ok c bad r \<longleftrightarrow>
     (sub_ok bad \<and> bytes_of bad \<subseteq> S \<longrightarrow> ok c bad r \<and> sub_ok (snd (snd r)) \<and> bytes_of (snd (snd r)) \<subseteq> S)"

locale protocol =
  fixes w :: World and dl :: nat and B :: "nat set"
    and ok :: "HandlerCtx \<Rightarrow> range list \<Rightarrow> hrun \<Rightarrow> bool"
    and arm :: "HandlerCtx \<Rightarrow> range list \<Rightarrow> hrun \<Rightarrow> bool"
  assumes fits: "addressable B"
    and ok_stay: "ok c bad (None, c, bad)"
    and ok_seq: "ok c bad (None, c1, bad1) \<Longrightarrow> ok c1 bad1 r \<Longrightarrow> ok c bad r"
    and arm_seq: "arm c bad (None, c1, bad1) \<Longrightarrow> ok c1 bad1 r \<Longrightarrow> arm c bad r"
    and arm_ok: "ok c bad r \<Longrightarrow> arm c bad r"
    and ok_check: "stop_check w y dl c = (None, c1) \<Longrightarrow> arm c1 bad r \<Longrightarrow> ok c bad r"
    and ok_stop: "stop_check w y dl c = (Some out, c1) \<Longrightarrow> ok c bad (Some out, c1, bad)"
    and arm_good: "read_span_as w c pos n ps True = (HitGood, c1) \<Longrightarrow> sub_ok bad \<Longrightarrow> bytes_of bad \<subseteq> B \<Longrightarrow>
      {pos ..< pos + n * SECTOR} \<subseteq> B \<Longrightarrow> ok c1 (sub_remove pos (n * SECTOR) bad) r \<Longrightarrow> arm c bad r"
    and arm_warm: "read_span_as w c pos n ps False = (HitGood, c1) \<Longrightarrow> ok c1 bad r \<Longrightarrow> arm c bad r"
    and arm_bad: "read_span_as w c pos n ps commit = (HitBad, c1) \<Longrightarrow> ok c1 bad r \<Longrightarrow> arm c bad r"
    and arm_transport: "read_span_as w c pos n ps commit = (HitTransport, c1) \<Longrightarrow> arm c bad (Some TransportFault, c1, bad)"
    and arm_fatal: "read_span_as w c pos n ps commit = (HitFatal, c1) \<Longrightarrow> arm c bad (Some FatalEnd, c1, bad)"
    and ok_reset: "ok (c\<lparr>unproductive := 0\<rparr>) bad r \<Longrightarrow> ok c bad r"
begin

lemma keeps_stay: "keeps S ok c bad (None, c, bad)"
  by (simp add: keeps_def ok_stay)

lemma keeps_arm: "keeps S ok c bad r \<Longrightarrow> keeps S arm c bad r"
  by (simp add: keeps_def arm_ok)

lemma keeps_hbind:
  assumes "keeps S ok c bad r" and "\<forall>c1 bad1. r = (None, c1, bad1) \<longrightarrow> keeps S ok c1 bad1 (f c1 bad1)"
  shows "keeps S ok c bad (hbind r f)"
proof (cases r rule: prod_cases3)
  case (fields out c1 bad1)
  then show ?thesis using assms ok_seq [of c bad c1 bad1 "f c1 bad1"] by (cases out) (auto simp: hbind_def keeps_def)
qed

lemma keeps_arm_hbind:
  assumes "keeps S arm c bad r" and "\<forall>c1 bad1. r = (None, c1, bad1) \<longrightarrow> keeps S ok c1 bad1 (f c1 bad1)"
  shows "keeps S arm c bad (hbind r f)"
proof (cases r rule: prod_cases3)
  case (fields out c1 bad1)
  then show ?thesis using assms arm_seq [of c bad c1 bad1 "f c1 bad1"] by (cases out) (auto simp: hbind_def keeps_def)
qed

lemma keeps_check:
  assumes "\<forall>c1. keeps S arm c1 bad (f c1 bad)"
  shows "keeps S ok c bad (hbind (check_run w y dl c bad) f)"
proof (cases "stop_check w y dl c")
  case (Pair out c1)
  then show ?thesis using assms ok_check ok_stop by (cases out) (auto simp: hbind_def check_run_def keeps_def)
qed

lemma keeps_each_range:
  assumes "\<forall>p n. (p, n) \<in> set rs \<longrightarrow> (\<forall>c bad. keeps S ok c bad (f p n c bad))"
  shows "keeps S ok c bad (each_range f rs c bad)"
  using assms
proof (induction rs arbitrary: c bad)
  case (Cons r rs)
  have "keeps S ok c bad (f (fst r) (snd r) c bad)" using Cons.prems by (metis list.set_intros(1) prod.collapse)
  then show ?case using Cons by (auto intro: keeps_hbind)
qed (simp add: keeps_stay)

lemma removed_ok:
  assumes "sub_ok bad" and "bytes_of bad \<subseteq> S" and "{pos ..< pos + n * SECTOR} \<subseteq> B" and "SECTOR dvd pos" and "0 < n"
  shows "sub_ok (sub_remove pos (n * SECTOR) bad) \<and> bytes_of (sub_remove pos (n * SECTOR) bad) \<subseteq> S"
proof -
  have "pos + n * SECTOR \<le> u64_max" using addressable_fits [OF fits assms(3)] assms(5) max_address by auto
  then show ?thesis using assms sub_remove_ok sub_remove_bytes by auto
qed

text \<open>A committing read and what follows it.\<close>

lemma keeps_read:
  assumes "S \<subseteq> B" and "{pos ..< pos + n * SECTOR} \<subseteq> B"
    and "\<forall>c1. keeps S ok c1 (sub_remove pos (n * SECTOR) bad) (good c1)"
    and "\<forall>c1. keeps S ok c1 bad (dead c1)"
  shows "keeps S arm c bad (on_hit (read_span w c pos n ps) bad good dead)"
proof (cases "read_span_as w c pos n ps True")
  case (Pair hit c1)
  show ?thesis
  proof (cases hit)
    case HitGood
    then have "0 < n" "SECTOR dvd pos" using Pair read_good_count by auto
    then show ?thesis
      using Pair HitGood assms removed_ok [of bad S pos n] arm_good [of c pos n ps c1 bad "good c1"]
      by (auto simp: keeps_def on_hit_def read_span_def)
  qed (use Pair assms(4) arm_bad arm_transport arm_fatal in \<open>auto simp: keeps_def on_hit_def read_span_def\<close>)
qed

lemma claim_on_hit: "claim r pos n bad = on_hit r bad (\<lambda>c. (None, c, sub_remove pos n bad)) (\<lambda>c. (None, c, bad))"
  by (auto simp: claim_def on_hit_def split: prod.splits ReadHit.splits)

lemma keeps_claim:
  assumes "S \<subseteq> B" and "{pos ..< pos + n * SECTOR} \<subseteq> B"
  shows "keeps S arm c bad (claim (read_span w c pos n ps) pos (n * SECTOR) bad)"
  unfolding claim_on_hit by (rule keeps_read [OF assms]) (simp_all add: keeps_stay)

end

end
