(* ===== verification/ProtocolRuns.thy ===== *)
theory ProtocolRuns
  imports Protocol
begin

text \<open>
  Every technique keeps the contract: the inductions over the loops of the techniques, in the locale
  \<open>protocol\<close>.
\<close>

lemma batch_dvd: "SECTOR dvd batch_bytes" by (simp add: batch_bytes_def)

lemma dvd_min: "SECTOR dvd a \<Longrightarrow> SECTOR dvd b \<Longrightarrow> SECTOR dvd min a b"
  by (simp add: min_def)

lemma sector_le: "SECTOR dvd d \<Longrightarrow> a < b \<Longrightarrow> d = b - a \<Longrightarrow> a + SECTOR \<le> b"
  using dvd_imp_le [of SECTOR d] by auto

lemma span_count_exact:
  assumes "SECTOR dvd sz" and "sz \<le> batch_bytes"
  shows "span_count sz * SECTOR = sz"
proof -
  have "sz div SECTOR \<le> BATCH_SECTORS" using div_le_mono [OF assms(2), of SECTOR] SECTOR_gt0 by (simp add: batch_bytes_def)
  then have "sz div SECTOR < 65536" by (simp add: BATCH_SECTORS_def)
  then show ?thesis using assms(1) by (simp add: span_count_def)
qed

lemma half_step_dvd: "SECTOR dvd half_step n" by (simp add: half_step_def)

lemma half_step_pos: "0 < half_step n" using SECTOR_gt0 by (simp add: half_step_def max_def)

lemma range_part: "sub_ok bad \<Longrightarrow> (p, n) \<in> set bad \<Longrightarrow> SECTOR dvd p \<and> SECTOR dvd n \<and> {p ..< p + n} \<subseteq> bytes_of bad"
  by (auto simp: sub_ok_def all_aligned_def aligned_dvd bytes_of_def intro!: bexI [of _ "(p, n)"])

lemma bisect_fwd_aligned:
  "SECTOR dvd fwd \<Longrightarrow> SECTOR dvd e \<Longrightarrow> SECTOR dvd stp \<Longrightarrow> SECTOR dvd fst (bisect_fwd w ps dl e fwd stp c bad)"
proof (induction w ps dl e fwd stp c bad rule: bisect_fwd_induct)
  case (step w ps dl e fwd stp c bad)
  have "SECTOR dvd min stp (e - fwd)" using step.prems by (intro dvd_min) (auto simp: dvd_diff_nat)
  then show ?case
    using step batch_dvd half_step_dvd
    by (subst bisect_fwd.simps) (auto simp: Let_def split: prod.splits option.splits ReadHit.splits)
qed

lemma bisect_bwd_aligned:
  "SECTOR dvd bwd \<Longrightarrow> SECTOR dvd rp \<Longrightarrow> SECTOR dvd stp \<Longrightarrow> SECTOR dvd fst (bisect_bwd w ps dl rp bwd stp c bad)"
proof (induction w ps dl rp bwd stp c bad rule: bisect_bwd_induct)
  case (step w ps dl rp bwd stp c bad)
  have "SECTOR dvd min stp (bwd - rp)" using step.prems by (intro dvd_min) (auto simp: dvd_diff_nat)
  then show ?case
    using step batch_dvd half_step_dvd
    by (subst bisect_bwd.simps) (auto simp: Let_def dvd_diff_nat split: prod.splits option.splits ReadHit.splits)
qed

context protocol
begin

lemma keeps_reset: "keeps S ok (c\<lparr>unproductive := 0\<rparr>) bad r \<Longrightarrow> keeps S ok c bad r"
  by (simp add: keeps_def ok_reset)

lemma keeps_linear_range:
  assumes S: "S \<subseteq> B" and inB: "{rp ..< rp + rl} \<subseteq> B" and rl: "SECTOR dvd rl"
  shows "SECTOR dvd dn \<Longrightarrow> keeps S ok c bad (linear_range w rvs ps dl rp rl dn c bad)"
proof (induction "rl - dn" arbitrary: dn c bad rule: less_induct)
  case less
  define sz where "sz = min batch_bytes (rl - dn)"
  define pos where "pos = (if rvs then rp + (rl - dn - sz) else rp + dn)"
  have sz: "SECTOR dvd sz" "sz \<le> batch_bytes" "sz \<le> rl - dn"
    using less.prems rl batch_dvd by (auto simp: sz_def dvd_diff_nat intro: dvd_min)
  show ?case
  proof (cases "dn < rl")
    case True
    have "rl - (dn + sz) < rl - dn" using step_up [OF True batch_bytes_pos] by (simp add: sz_def)
    then have next_run: "keeps S ok c1 bad1 (linear_range w rvs ps dl rp rl (dn + sz) c1 bad1)" for c1 bad1
      using less sz by simp
    have "{pos ..< pos + sz} \<subseteq> B" using sz True by (intro order_trans [OF _ inB]) (auto simp: pos_def)
    then have "keeps S arm c1 bad1 (claim (read_span w c1 pos (span_count sz) ps) pos sz bad1)" for c1 bad1
      using keeps_claim [OF S, of pos "span_count sz"] span_count_exact [OF sz(1,2)] by simp
    then have "keeps S arm c1 bad1 (hbind (claim (read_span w c1 pos (span_count sz) ps) pos sz bad1)
        (\<lambda>c bad. linear_range w rvs ps dl rp rl (dn + sz) c bad))" for c1 bad1
      using next_run by (intro keeps_arm_hbind) auto
    then show ?thesis
      using True by (subst linear_range.simps) (simp add: Let_def sz_def [symmetric] pos_def [symmetric] keeps_check)
  qed (subst linear_range.simps, simp add: keeps_stay)
qed

lemma keeps_linear:
  assumes "bytes_of bad \<subseteq> B" and "sub_ok bad"
  shows "keeps (bytes_of bad) ok c bad (linear w d ps dl c bad)"
  unfolding linear_def using assms range_part [OF assms(2)]
  by (intro keeps_each_range allI impI keeps_linear_range) (auto split: if_splits)

lemma keeps_jump_range:
  assumes S: "S \<subseteq> B" and inB: "{rp ..< rp + rl} \<subseteq> B" and rl: "SECTOR dvd rl"
  shows "SECTOR dvd off \<Longrightarrow> keeps S ok c bad (jump_range w ps dl rp rl off k c bad)"
proof (induction "rl - off" arbitrary: off k c bad rule: less_induct)
  case less
  define sz where "sz = min batch_bytes (rl - off)"
  have sz: "SECTOR dvd sz" "sz \<le> batch_bytes" "sz \<le> rl - off"
    using less.prems rl batch_dvd by (auto simp: sz_def dvd_diff_nat intro: dvd_min)
  show ?case
  proof (cases "off < rl")
    case True
    have "rl - (off + sz) < rl - off" using step_up [OF True batch_bytes_pos] by (simp add: sz_def)
    then have near: "keeps S ok c1 bad1 (jump_range w ps dl rp rl (off + sz) j c1 bad1)" for j c1 bad1
      using less sz by simp
    have "SECTOR dvd jump_step (rl - off)" by (simp add: jump_step_def)
    then have far: "keeps S ok c1 bad1 (jump_range w ps dl rp rl (off + jump_step (rl - off)) j c1 bad1)" for j c1 bad1
      using less True jump_step_pos by (simp add: diff_less_mono2)
    have "{rp + off ..< rp + off + sz} \<subseteq> B" using sz True by (intro order_trans [OF _ inB]) auto
    then have "keeps S arm c1 bad1 (on_hit (read_span w c1 (rp + off) (span_count sz) ps) bad1
        (\<lambda>c. jump_range w ps dl rp rl (off + sz) 0 c (sub_remove (rp + off) sz bad1))
        (\<lambda>c. if k + 1 \<ge> JUMP_AFTER_FAILS
             then jump_range w ps dl rp rl (off + jump_step (rl - off)) 0 c bad1
             else jump_range w ps dl rp rl (off + sz) (k + 1) c bad1))" for c1 bad1
      using near far keeps_read [OF S, of "rp + off" "span_count sz"] span_count_exact [OF sz(1,2)] by simp
    then show ?thesis using True by (subst jump_range.simps) (simp add: Let_def sz_def [symmetric] keeps_check)
  qed (subst jump_range.simps, simp add: keeps_stay)
qed

lemma keeps_jump:
  assumes "bytes_of bad \<subseteq> B" and "sub_ok bad"
  shows "keeps (bytes_of bad) ok c bad (jump w ps dl c bad)"
  unfolding jump_def using assms range_part [OF assms(2)]
  by (intro keeps_each_range allI impI keeps_jump_range) auto

subsection \<open>Sector by sector\<close>

lemma keeps_each_sector:
  assumes f: "\<forall>pos c bad. SECTOR dvd pos \<and> {pos ..< pos + SECTOR} \<subseteq> B \<longrightarrow> keeps S arm c bad (f pos c bad)"
    and inB: "{rp ..< rp + rl} \<subseteq> B" and rp: "SECTOR dvd rp" and rl: "SECTOR dvd rl"
  shows "SECTOR dvd off \<Longrightarrow> keeps S ok c bad (each_sector w dl f rp rl off c bad)"
proof (induction "rl - off" arbitrary: off c bad rule: less_induct)
  case less
  show ?case
  proof (cases "off < rl")
    case True
    have "off + SECTOR \<le> rl" using True rl less.prems by (intro sector_le [OF _ True refl]) (simp add: dvd_diff_nat)
    then have "{rp + off ..< rp + off + SECTOR} \<subseteq> B" using inB by auto
    then have "keeps S arm c1 bad1 (f (rp + off) c1 bad1)" for c1 bad1 using f rp less.prems by simp
    then have "keeps S arm c1 bad1 (hbind (f (rp + off) c1 bad1) (\<lambda>c bad. each_sector w dl f rp rl (off + SECTOR) c bad))"
      for c1 bad1
      using less True by (intro keeps_arm_hbind) (auto simp: diff_less_mono2)
    then show ?thesis using True by (subst each_sector.simps) (simp add: keeps_check)
  qed (subst each_sector.simps, simp add: keeps_stay)
qed

lemma keeps_speed_try:
  assumes "S \<subseteq> B" and "{pos ..< pos + SECTOR} \<subseteq> B"
  shows "keeps S arm c bad (speed_try w ps dl pos ss c bad)"
proof (induction ss arbitrary: c bad)
  case (Cons s ss)
  then show ?case using keeps_read [OF assms(1), of pos 1] assms(2) by (simp add: keeps_stay keeps_check)
qed (simp add: keeps_arm keeps_stay)

lemma keeps_speed_sweep:
  assumes "bytes_of bad \<subseteq> B" and "sub_ok bad"
  shows "keeps (bytes_of bad) ok c bad (speed_sweep w ps dl c bad)"
  unfolding speed_sweep_def using assms range_part [OF assms(2)] keeps_speed_try [OF assms(1)]
  by (intro keeps_each_range allI impI keeps_each_sector) (auto simp del: speed_try.simps)

subsection \<open>Primed reads\<close>

lemma keeps_probe:
  assumes "\<forall>c1. keeps S ok c1 bad (good c1)" and "\<forall>c1. keeps S ok c1 bad (dead c1)"
  shows "keeps S arm c bad (on_hit (read_span_as w c pos n ps False) bad good dead)"
proof -
  obtain hit c1 where "read_span_as w c pos n ps False = (hit, c1)" by force
  then show ?thesis
    using assms arm_warm [of c pos n ps c1 bad "good c1"] arm_bad [of c pos n ps False c1 bad "dead c1"] arm_transport arm_fatal
    by (cases hit) (auto simp: keeps_def on_hit_def)
qed

lemma prime_probe: "pos \<notin> bytes_of bad \<Longrightarrow> prime_read w c pos ps bad = read_span_as w c pos 1 ps False"
  by (simp add: prime_read_def sub_contains_bytes)

lemma prime_commit: "pos \<in> bytes_of bad \<Longrightarrow> prime_read w c pos ps bad = read_span w c pos 1 ps"
  by (simp add: prime_read_def sub_contains_bytes read_span_def)

lemma keeps_if: "(sub_ok bad \<Longrightarrow> bytes_of bad \<subseteq> S \<Longrightarrow> keeps S p c bad r) \<Longrightarrow> keeps S p c bad r"
  by (auto simp: keeps_def)

lemma keeps_prime:
  assumes S: "S \<subseteq> B" and pos: "SECTOR dvd pos" "pos + SECTOR \<le> u64_max"
  shows "keeps S arm c bad (claim (prime_read w c pos ps bad) pos SECTOR bad)"
proof (rule keeps_if)
  assume inv: "sub_ok bad" "bytes_of bad \<subseteq> S"
  show ?thesis
  proof (cases "pos \<in> bytes_of bad")
    case True
    then show ?thesis
      using keeps_claim [OF S, of pos 1 c bad ps] sector_inside [OF inv(1) pos(1) True] inv(2) S by (simp add: prime_commit)
  next
    case False
    then show ?thesis
      using keeps_probe [of S bad "\<lambda>c. (None, c, bad)"] keeps_stay
      by (simp add: prime_probe claim_on_hit sub_remove_id [OF inv(1) pos False])
  qed
qed

text \<open>A prime whose sector is not in the set only warms the drive.\<close>

lemma keeps_warm:
  assumes "pos \<notin> S"
  shows "keeps S arm c bad (on_hit (prime_read w c pos ps bad) bad (\<lambda>c. (None, c, bad)) (\<lambda>c. (None, c, bad)))"
proof (rule keeps_if)
  assume "bytes_of bad \<subseteq> S"
  then have "pos \<notin> bytes_of bad" using assms by auto
  then show ?thesis using keeps_probe keeps_stay by (simp add: prime_probe)
qed

lemma keeps_prime_range:
  assumes ok: "sub_ok set0" and S: "S = bytes_of set0" "S \<subseteq> B" and r: "(rp, rl) \<in> set set0"
  shows "keeps S ok c bad (prime_range w ps dl rp rl c bad)"
proof -
  have al: "SECTOR dvd rp" "SECTOR dvd rl" "{rp ..< rp + rl} \<subseteq> B" using range_part [OF ok r] S by auto
  have lin: "keeps S ok c bad (linear_range w False ps dl rp rl 0 c bad)" for c bad
    using al by (intro keeps_linear_range S(2)) auto
  have "rp - SECTOR \<notin> S" if "SECTOR \<le> rp"
    using before_not_inside [OF ok r, of "rp - SECTOR"] al(1) that SECTOR_gt0 by (auto simp: S(1) dvd_diff_nat)
  then have "keeps S arm c1 bad1 (if rp \<ge> SECTOR
      then on_hit (prime_read w c1 (rp - SECTOR) ps bad1) bad1 (\<lambda>c. (None, c, bad1)) (\<lambda>c. (None, c, bad1))
      else (None, c1, bad1))" for c1 bad1
    using keeps_warm by (simp add: keeps_arm keeps_stay)
  then show ?thesis unfolding prime_range_def using lin by (intro keeps_check allI keeps_arm_hbind) auto
qed

lemma keeps_cache_prime:
  assumes "bytes_of bad \<subseteq> B" and "sub_ok bad"
  shows "keeps (bytes_of bad) ok c bad (cache_prime w ps dl c bad)"
  unfolding cache_prime_def using assms by (intro keeps_each_range allI impI keeps_prime_range) auto

lemma sector_fits: "{pos ..< pos + SECTOR} \<subseteq> B \<Longrightarrow> pos + 2 * SECTOR \<le> u64_max"
  using addressable_fits [OF fits, of pos SECTOR] by (simp add: SECTOR_def u32_max_def u64_max_def)

lemma keeps_osc_above:
  assumes S: "S \<subseteq> B" and pos: "SECTOR dvd pos" "{pos ..< pos + SECTOR} \<subseteq> B"
  shows "keeps S ok c bad (osc_above w ps dl pos c bad)"
proof -
  have target: "keeps S arm c bad (claim (read_span w c pos 1 ps) pos SECTOR bad)" for c bad
    using keeps_claim [OF S, of pos 1] pos by simp
  have "keeps S arm c bad (claim (prime_read w c (pos + SECTOR) ps bad) (pos + SECTOR) SECTOR bad)" for c bad
    using sector_fits [OF pos(2)] pos by (intro keeps_prime S) auto
  then show ?thesis unfolding osc_above_def by (intro keeps_check keeps_arm_hbind allI impI target)
qed

lemma keeps_osc_sector:
  assumes S: "S \<subseteq> B" and pos: "SECTOR dvd pos" "{pos ..< pos + SECTOR} \<subseteq> B"
  shows "keeps S arm c bad (osc_sector w ps dl pos c bad)"
proof -
  have "keeps S arm c bad (claim (prime_read w c (pos - SECTOR) ps bad) (pos - SECTOR) SECTOR bad)" for c bad
    using sector_fits [OF pos(2)] pos by (intro keeps_prime S) (auto simp: dvd_diff_nat)
  then have below: "keeps S arm c bad (if pos \<ge> SECTOR
      then claim (prime_read w c (pos - SECTOR) ps bad) (pos - SECTOR) SECTOR bad else (None, c, bad))" for c bad
    by (simp add: keeps_arm keeps_stay)
  have "keeps S arm c bad (on_hit (read_span w c pos 1 ps) bad
      (\<lambda>c. (None, c, sub_remove pos SECTOR bad))
      (\<lambda>c. if prime_above_is_in_range pos (w_capacity w) then osc_above w ps dl pos c bad else (None, c, bad)))" for c bad
    using keeps_read [OF S, of pos 1] pos keeps_osc_above [OF S pos] by (simp add: keeps_stay)
  then show ?thesis unfolding osc_sector_def by (intro keeps_arm_hbind keeps_check allI impI below)
qed

lemma keeps_oscillate:
  assumes "bytes_of bad \<subseteq> B" and "sub_ok bad"
  shows "keeps (bytes_of bad) ok c bad (oscillate w ps dl c bad)"
  unfolding oscillate_def using assms range_part [OF assms(2)] keeps_osc_sector [OF assms(1)]
  by (intro keeps_each_range allI impI keeps_each_sector) auto

subsection \<open>Bisect\<close>

lemma keeps_bisect_fwd:
  assumes S: "S \<subseteq> B" and e: "SECTOR dvd e"
  shows "SECTOR dvd fwd \<Longrightarrow> {fwd ..< e} \<subseteq> B \<Longrightarrow> SECTOR dvd stp \<Longrightarrow> 0 < stp \<Longrightarrow> stp \<le> batch_bytes \<Longrightarrow>
    keeps S ok c bad (snd (bisect_fwd w ps dl e fwd stp c bad))"
proof (induction "e - fwd" arbitrary: fwd stp c bad rule: less_induct)
  case outer: less
  note fwd = outer.prems(1,2)
  show ?case using outer.prems(3,4,5)
  proof (induction stp arbitrary: c bad rule: less_induct)
    case inner: (less stp)
    define sz where "sz = min stp (e - fwd)"
    have sz: "SECTOR dvd sz" "sz \<le> batch_bytes" "sz \<le> e - fwd"
      using inner.prems fwd e by (auto simp: sz_def dvd_diff_nat intro: dvd_min)
    show ?case
    proof (cases "fwd < e")
      case True
      have "e - (fwd + sz) < e - fwd" using step_up [OF True inner.prems(2)] by (simp add: sz_def)
      moreover have "{fwd + sz ..< e} \<subseteq> B" using sz True by (intro order_trans [OF _ fwd(2)]) auto
      ultimately have good: "keeps S ok c1 bad1 (snd (bisect_fwd w ps dl e (fwd + sz) batch_bytes c1 bad1))" for c1 bad1
        using fwd sz batch_dvd batch_bytes_pos by (intro outer(1)) auto
      have "keeps S ok c1 bad1 (snd (bisect_fwd w ps dl e fwd (half_step sz) c1 bad1))" if "SECTOR < sz" for c1 bad1
      proof (rule inner(1))
        show "half_step sz < stp" using half_step_min that by (simp add: sz_def)
        show "half_step sz \<le> batch_bytes" using half_step_less [OF that] sz(2) by linarith
      qed (rule half_step_dvd half_step_pos)+
      then have dead: "keeps S ok c1 bad1
          (if sz > SECTOR then snd (bisect_fwd w ps dl e fwd (half_step sz) c1 bad1) else (None, c1, bad1))" for c1 bad1
        by (simp add: keeps_stay)
      have "{fwd ..< fwd + sz} \<subseteq> B" using sz True by (intro order_trans [OF _ fwd(2)]) auto
      then have "keeps S arm c1 bad1 (on_hit (read_span w c1 fwd (span_count sz) ps) bad1
          (\<lambda>c. snd (bisect_fwd w ps dl e (fwd + sz) batch_bytes c (sub_remove fwd sz bad1)))
          (\<lambda>c. if sz > SECTOR then snd (bisect_fwd w ps dl e fwd (half_step sz) c bad1) else (None, c, bad1)))" for c1 bad1
        using keeps_read [OF S, of fwd "span_count sz"] span_count_exact [OF sz(1,2)] good dead by simp
      then show ?thesis
        using True by (subst bisect_fwd_run) (simp only: Let_def sz_def [symmetric] if_True keeps_check simp_thms)
    qed (subst bisect_fwd_run, simp add: keeps_stay)
  qed
qed

lemma keeps_bisect_bwd:
  assumes S: "S \<subseteq> B" and rp: "SECTOR dvd rp"
  shows "SECTOR dvd bwd \<Longrightarrow> {rp ..< bwd} \<subseteq> B \<Longrightarrow> SECTOR dvd stp \<Longrightarrow> 0 < stp \<Longrightarrow> stp \<le> batch_bytes \<Longrightarrow>
    keeps S ok c bad (snd (bisect_bwd w ps dl rp bwd stp c bad))"
proof (induction "bwd - rp" arbitrary: bwd stp c bad rule: less_induct)
  case outer: less
  note bwd = outer.prems(1,2)
  show ?case using outer.prems(3,4,5)
  proof (induction stp arbitrary: c bad rule: less_induct)
    case inner: (less stp)
    define sz where "sz = min stp (bwd - rp)"
    have sz: "SECTOR dvd sz" "sz \<le> batch_bytes" "sz \<le> bwd - rp"
      using inner.prems bwd rp by (auto simp: sz_def dvd_diff_nat intro: dvd_min)
    show ?case
    proof (cases "rp < bwd")
      case True
      have "bwd - sz - rp < bwd - rp" using step_down [OF True inner.prems(2)] by (simp add: sz_def)
      moreover have "{rp ..< bwd - sz} \<subseteq> B" using sz True by (intro order_trans [OF _ bwd(2)]) auto
      ultimately have good: "keeps S ok c1 bad1 (snd (bisect_bwd w ps dl rp (bwd - sz) batch_bytes c1 bad1))" for c1 bad1
        using bwd sz batch_dvd batch_bytes_pos by (intro outer(1)) (auto simp: dvd_diff_nat)
      have "keeps S ok c1 bad1 (snd (bisect_bwd w ps dl rp bwd (half_step sz) c1 bad1))" if "SECTOR < sz" for c1 bad1
      proof (rule inner(1))
        show "half_step sz < stp" using half_step_min that by (simp add: sz_def)
        show "half_step sz \<le> batch_bytes" using half_step_less [OF that] sz(2) by linarith
      qed (rule half_step_dvd half_step_pos)+
      then have dead: "keeps S ok c1 bad1
          (if sz > SECTOR then snd (bisect_bwd w ps dl rp bwd (half_step sz) c1 bad1) else (None, c1, bad1))" for c1 bad1
        by (simp add: keeps_stay)
      have "{bwd - sz ..< bwd - sz + sz} \<subseteq> B" using sz True by (intro order_trans [OF _ bwd(2)]) auto
      then have "keeps S arm c1 bad1 (on_hit (read_span w c1 (bwd - sz) (span_count sz) ps) bad1
          (\<lambda>c. snd (bisect_bwd w ps dl rp (bwd - sz) batch_bytes c (sub_remove (bwd - sz) sz bad1)))
          (\<lambda>c. if sz > SECTOR then snd (bisect_bwd w ps dl rp bwd (half_step sz) c bad1) else (None, c, bad1)))" for c1 bad1
        using keeps_read [OF S, of "bwd - sz" "span_count sz"] span_count_exact [OF sz(1,2)] good dead by simp
      then show ?thesis
        using True by (subst bisect_bwd_run) (simp only: Let_def sz_def [symmetric] if_True keeps_check simp_thms)
    qed (subst bisect_bwd_run, simp add: keeps_stay)
  qed
qed

text \<open>What is on the work stack: aligned spans of the section.\<close>

lemma keeps_bisect_loop:
  assumes S: "S \<subseteq> B"
  shows "\<forall>(p, n) \<in> set st. SECTOR dvd p \<and> SECTOR dvd n \<and> {p ..< p + n} \<subseteq> B \<Longrightarrow>
    keeps S ok c bad (bisect_loop w ps dl st c bad)"
proof (induction "stack_size st" arbitrary: st c bad rule: less_induct)
  case less
  show ?case
  proof (cases st)
    case Nil
    then show ?thesis by (simp add: keeps_stay)
  next
    case (Cons r st')
    obtain rp rl where r: "r = (rp, rl)" by force
    have al: "SECTOR dvd rp" "SECTOR dvd rl" "{rp ..< rp + rl} \<subseteq> B" using less.prems by (auto simp: Cons r)
    show ?thesis
    proof (cases "rl = 0")
      case True
      then show ?thesis using less by (simp add: Cons r bisect_loop.simps(2) stack_size_def)
    next
      case rl: False
      define mid where "mid = mid_of rp rl"
      define e where "e = rp + rl"
      have mid: "SECTOR dvd mid" "rp \<le> mid" using al(1) by (auto simp: mid_def mid_of_def)
      have "mid < e" using mid_of_le [of rp rl] rl by (auto simp: mid_def e_def)
      moreover have e: "SECTOR dvd e" using al by (simp add: e_def)
      ultimately have in_e: "mid + SECTOR \<le> e" using mid by (intro sector_le [OF _ _ refl]) (auto simp: dvd_diff_nat)
      have split: "keeps S ok c1 bad1 (bisect_loop w ps dl (push_span f e (push_span rp b st')) c1 bad1)"
        if "b \<le> mid" "mid + SECTOR \<le> f" "SECTOR dvd b" "SECTOR dvd f" for f b c1 bad1
      proof (rule less(1))
        show "stack_size (push_span f e (push_span rp b st')) < stack_size st"
          using stack_split_less [OF rl] that by (simp add: Cons r e_def mid_def)
        have "{f ..< e} \<subseteq> B" "{rp ..< b} \<subseteq> B"
          using that in_e mid by (auto intro!: order_trans [OF _ al(3)] simp: e_def)
        then show "\<forall>(p, n) \<in> set (push_span f e (push_span rp b st')). SECTOR dvd p \<and> SECTOR dvd n \<and> {p ..< p + n} \<subseteq> B"
          using that less.prems al e by (auto simp: push_span_def Cons dvd_diff_nat)
      qed
      have grown: "keeps S ok c1 bad1 (case bisect_fwd w ps dl e (mid + SECTOR) batch_bytes c1 bad1 of
          (fwd, r) \<Rightarrow> hbind r (\<lambda>c bad. case bisect_bwd w ps dl rp mid batch_bytes c bad of
            (bwd, r) \<Rightarrow> hbind r (\<lambda>c bad.
              bisect_loop w ps dl (push_span fwd e (push_span rp bwd st')) (c\<lparr>unproductive := 0\<rparr>) bad)))" for c1 bad1
      proof -
        obtain f r1 where f: "bisect_fwd w ps dl e (mid + SECTOR) batch_bytes c1 bad1 = (f, r1)" by (rule prod.exhaust)
        have ups: "mid + SECTOR \<le> f" "SECTOR dvd f"
          using bisect_fwd_ge [of "mid + SECTOR" w ps dl e] bisect_fwd_aligned [of "mid + SECTOR" e] f mid e batch_dvd
          by (metis fst_conv dvd_add dvd_refl)+
        have "{mid + SECTOR ..< e} \<subseteq> B" using mid by (intro order_trans [OF _ al(3)]) (auto simp: e_def)
        then have run1: "keeps S ok c1 bad1 r1"
          using keeps_bisect_fwd [OF S e, of "mid + SECTOR" batch_bytes c1 bad1 ps] f mid batch_dvd batch_bytes_pos by simp
        have downs: "keeps S ok c2 bad2 (case bisect_bwd w ps dl rp mid batch_bytes c2 bad2 of
            (bwd, r) \<Rightarrow> hbind r (\<lambda>c bad.
              bisect_loop w ps dl (push_span f e (push_span rp bwd st')) (c\<lparr>unproductive := 0\<rparr>) bad))" for c2 bad2
        proof -
          obtain b r2 where b: "bisect_bwd w ps dl rp mid batch_bytes c2 bad2 = (b, r2)" by (rule prod.exhaust)
          have b_le: "b \<le> mid" "SECTOR dvd b"
            using bisect_bwd_le [of w ps dl rp mid] bisect_bwd_aligned [of mid rp] b mid al(1) batch_dvd by (metis fst_conv)+
          have "{rp ..< mid} \<subseteq> B" using \<open>mid < e\<close> by (intro order_trans [OF _ al(3)]) (auto simp: e_def)
          then have "keeps S ok c2 bad2 r2"
            using keeps_bisect_bwd [OF S al(1), of mid batch_bytes c2 bad2 ps] b mid batch_dvd batch_bytes_pos by simp
          moreover have "keeps S ok c3 bad3
              (bisect_loop w ps dl (push_span f e (push_span rp b st')) (c3\<lparr>unproductive := 0\<rparr>) bad3)" for c3 bad3
            using split [OF b_le(1) ups(1) b_le(2) ups(2)] by (rule keeps_reset)
          ultimately show ?thesis unfolding b prod.case by (intro keeps_hbind allI impI)
        qed
        show ?thesis unfolding f prod.case by (intro keeps_hbind run1 downs allI impI)
      qed
      have "{mid ..< mid + SECTOR} \<subseteq> B" using in_e mid by (intro order_trans [OF _ al(3)]) (auto simp: e_def)
      then have "keeps S arm c1 bad (on_hit (read_span w c1 mid 1 ps) bad
          (\<lambda>c. case bisect_fwd w ps dl e (mid + SECTOR) batch_bytes c (sub_remove mid SECTOR bad) of
             (fwd, r) \<Rightarrow> hbind r (\<lambda>c bad. case bisect_bwd w ps dl rp mid batch_bytes c bad of
               (bwd, r) \<Rightarrow> hbind r (\<lambda>c bad.
                 bisect_loop w ps dl (push_span fwd e (push_span rp bwd st')) (c\<lparr>unproductive := 0\<rparr>) bad)))
          (\<lambda>c. bisect_loop w ps dl (push_span (mid + SECTOR) e (push_span rp mid st')) c bad))" for c1 bad
        using keeps_read [OF S, of mid 1] grown split mid by simp
      then show ?thesis
        using rl by (simp add: Cons r bisect_loop.simps(2) Let_def mid_def [symmetric] e_def [symmetric] keeps_check)
    qed
  qed
qed

lemma keeps_bisect:
  assumes "bytes_of bad \<subseteq> B" and "sub_ok bad"
  shows "keeps (bytes_of bad) ok c bad (bisect w ps dl c bad)"
proof -
  have "\<forall>(p, n) \<in> set (rev bad). SECTOR dvd p \<and> SECTOR dvd n \<and> {p ..< p + n} \<subseteq> B"
    using range_part [OF assms(2)] assms(1) by auto
  then show ?thesis unfolding bisect_def by (rule keeps_bisect_loop [OF assms(1)])
qed

text \<open>Every technique keeps the contract.\<close>

theorem keeps_technique:
  assumes "bytes_of bad \<subseteq> B" and "sub_ok bad"
  shows "keeps (bytes_of bad) ok c bad (technique w h dl c bad)"
  using keeps_linear [OF assms] keeps_bisect [OF assms] keeps_jump [OF assms] keeps_speed_sweep [OF assms]
    keeps_cache_prime [OF assms] keeps_oscillate [OF assms]
  by (simp add: technique_def split: handler.split)

end

end
