(* ===== verification/HandlerInv.thy ===== *)
theory HandlerInv
  imports ProtocolRuns
begin

text \<open>
  What every recovery technique keeps, as interpretations of the contract \<open>protocol\<close>: the account of the
  section's bytes, a prompt end once a stop check stops, and the bookkeeping of the error, the wedge streak
  and the spindle speed.
\<close>

subsection \<open>One read\<close>

fun patch_bytes :: "patch_item \<Rightarrow> nat set" where
  "patch_bytes (Recovered p buf) = {p ..< p + length buf}"
| "patch_bytes (MarkNonTrimmed p n) = {p ..< p + n}"

text \<open>A drive that fills the buffer with the disc's bytes when it reports a full transfer.\<close>

definition honest :: "(nat \<Rightarrow> nat) \<Rightarrow> World \<Rightarrow> bool" where
  "honest disc w = (\<forall>k lba n rec fua d. o_read (w_obs w k) lba n rec fua = (Inr (n * SECTOR), d) \<longrightarrow>
     (\<forall>i < n * SECTOR. d i = disc (lba * SECTOR + i)))"

text \<open>A recovered item of whole sectors inside \<open>B\<close>, with the disc's bytes.\<close>

definition item_sound :: "(nat \<Rightarrow> nat) \<Rightarrow> nat set \<Rightarrow> patch_item \<Rightarrow> bool" where
  "item_sound disc B it =
     (case it of
        Recovered p buf \<Rightarrow> SECTOR dvd p \<and> SECTOR dvd length buf \<and> buf \<noteq> [] \<and> {p ..< p + length buf} \<subseteq> B \<and>
          buf = map disc [p ..< p + length buf]
      | MarkNonTrimmed p n \<Rightarrow> False)"

lemma fast_frame [simp]:
  "h_items (set_span_speed v c) = h_items c" "h_dropped (set_span_speed v c) = h_dropped c"
  "h_step (set_span_speed v c) = h_step c" "fatal (set_span_speed v c) = fatal c"
  "wedge_streak (set_span_speed v c) = wedge_streak c" "unproductive (set_span_speed v c) = unproductive c"
  by (simp_all add: set_span_speed_def)

lemma note_frame [simp]:
  "h_items (note_hit k h c) = h_items c" "h_dropped (note_hit k h c) = h_dropped c"
  "h_step (note_hit k h c) = h_step c" "fatal (note_hit k h c) = fatal c"
  "h_speeds (note_hit k h c) = h_speeds c" "cur_speed (note_hit k h c) = cur_speed c"
  by (simp_all add: note_hit_def split: ReadHit.split)

lemma read_failed_frame:
  assumes "read_failed ff e c = (hit, c')"
  shows "h_items c' = h_items c" "h_dropped c' = h_dropped c" "h_step c' = h_step c" "hit \<noteq> HitGood"
    "h_speeds c' = h_speeds c" "cur_speed c' = cur_speed c" "hit = HitFatal \<longleftrightarrow> fatal c' \<noteq> fatal c \<or> hit = HitFatal"
    "hit \<noteq> HitFatal \<Longrightarrow> fatal c' = fatal c" "hit = HitFatal \<Longrightarrow> fatal c' \<noteq> None"
    "hit = HitBad \<Longrightarrow> wedge_streak c' < WEDGE_ABORT_STREAK"
    "hit = HitFatal \<Longrightarrow> wedge_streak c' = wedge_streak c"
  using assms by (auto simp: read_failed_def Let_def WEDGE_ABORT_STREAK_def split: if_splits)

lemma recovered_frame:
  assumes "recovered_span v pos buf c = (r, c')"
  shows "h_step c' = h_step c" "h_speeds c' = h_speeds c" "cur_speed c' = cur_speed c" "fatal c' = fatal c"
    "wedge_streak c' = wedge_streak c"
    "r = None \<Longrightarrow> h_items c' = Recovered pos buf # h_items c \<and> h_dropped c' = h_dropped c \<or>
       h_items c' = h_items c \<and> h_dropped c' = (pos, length buf) # h_dropped c"
    "r \<noteq> None \<Longrightarrow> h_items c' = h_items c \<and> h_dropped c' = h_dropped c"
  using assms by (auto simp: recovered_span_def split: sum.splits SendStall.splits)

lemma read_hit_frame:
  assumes "read_hit w obs pos n ps commit c = (hit, c')"
  shows "h_step c' = h_step c" "h_speeds c' = h_speeds c" "cur_speed c' = cur_speed c"
    "\<not> (hit = HitGood \<and> commit) \<Longrightarrow> h_items c' = h_items c \<and> h_dropped c' = h_dropped c"
    "hit \<noteq> HitFatal \<Longrightarrow> fatal c' = fatal c" "hit = HitFatal \<Longrightarrow> fatal c' \<noteq> None"
    "hit = HitBad \<Longrightarrow> wedge_streak c' < WEDGE_ABORT_STREAK"
    "hit = HitFatal \<Longrightarrow> wedge_streak c' = wedge_streak c"
  using assms read_failed_frame recovered_frame
  by (auto simp: read_hit_def Let_def WEDGE_ABORT_STREAK_def split: sum.splits if_splits prod.splits option.splits)

lemma full_read: "require_full_read sh k r = Inr m \<Longrightarrow> m = k \<and> r = Inr k"
  by (auto simp: require_full_read_def split: sum.splits if_splits)

lemma read_hit_good:
  assumes "read_hit w obs pos n ps True c = (HitGood, c')"
  obtains d where "o_read obs ((pos div SECTOR) mod (u32_max + 1)) n (recovery (rp_timeout ps)) (rp_fua ps) = (Inr (n * SECTOR), d)"
    and "h_items c' = Recovered pos (map d [0..<n * SECTOR]) # h_items c \<and> h_dropped c' = h_dropped c \<or>
       h_items c' = h_items c \<and> h_dropped c' = (pos, n * SECTOR) # h_dropped c"
proof -
  obtain r d where rd: "o_read obs ((pos div SECTOR) mod (u32_max + 1)) n (recovery (rp_timeout ps)) (rp_fua ps) = (r, d)"
    by (rule prod.exhaust)
  show thesis
  proof (cases "require_full_read (w_short w) (n * SECTOR) r")
    case (Inl e)
    then show ?thesis using assms rd read_failed_frame(4) [of "o_fast obs" e c HitGood] by (auto simp: read_hit_def Let_def)
  next
    case (Inr m)
    obtain q c2 where sent: "recovered_span (o_send obs) pos (map d [0..<n * SECTOR]) c = (q, c2)" by (rule prod.exhaust)
    have "q = None \<and> c' = c2" using assms rd Inr full_read [OF Inr] sent
      by (simp add: read_hit_def Let_def split: option.splits)
    then show ?thesis using that [of d] rd full_read [OF Inr] recovered_frame(6) [OF sent] by simp
  qed
qed

lemma read_cases:
  assumes "read_span_as w c pos n ps commit = (hit, c')"
  obtains (Refused) "hit = HitBad" "c' = c"
  | (Read) c2 where "read_hit w (w_obs w (h_step c)) pos n ps commit
      (set_span_speed (kbs (rp_speed ps)) (c\<lparr>h_step := h_step c + 1\<rparr>)) = (hit, c2)" "c' = note_hit commit hit c2"
      "0 < n" "SECTOR dvd pos"
  using assms
  by (cases "n = 0 \<or> pos mod SECTOR \<noteq> 0")
    (auto simp: read_span_as_def Let_def dvd_eq_mod_eq_0 split: prod.splits)

lemma read_frame:
  assumes "read_span_as w c pos n ps commit = (hit, c')"
  shows "h_step c' \<le> h_step c + 1"
    and "\<not> (hit = HitGood \<and> commit) \<Longrightarrow> h_items c' = h_items c \<and> h_dropped c' = h_dropped c"
    and "hit \<noteq> HitFatal \<Longrightarrow> fatal c' = fatal c" and "hit = HitFatal \<Longrightarrow> fatal c' \<noteq> None"
    and "hit \<noteq> HitTransport \<Longrightarrow> wedge_streak c < WEDGE_ABORT_STREAK \<Longrightarrow> wedge_streak c' < WEDGE_ABORT_STREAK"
proof -
  show "h_step c' \<le> h_step c + 1" using assms by (cases rule: read_cases) (auto dest: read_hit_frame(1))
  show "h_items c' = h_items c \<and> h_dropped c' = h_dropped c" if "\<not> (hit = HitGood \<and> commit)"
    using assms that by (cases rule: read_cases) (auto dest: read_hit_frame(4))
  show "fatal c' = fatal c" if "hit \<noteq> HitFatal"
    using assms that by (cases rule: read_cases) (auto dest: read_hit_frame(5))
  show "fatal c' \<noteq> None" if "hit = HitFatal"
    using assms that by (cases rule: read_cases) (auto dest: read_hit_frame(6))
  show "wedge_streak c' < WEDGE_ABORT_STREAK" if "hit \<noteq> HitTransport" "wedge_streak c < WEDGE_ABORT_STREAK"
    using assms
  proof (cases rule: read_cases)
    case (Read c2)
    then show ?thesis using that read_hit_frame(7,8) [OF Read(1)]
      by (cases hit) (auto simp: note_hit_def WEDGE_ABORT_STREAK_def)
  qed (use that in simp)
qed

text \<open>A committed good read hands over the disc's sectors, or a pending Stop drops them.\<close>

lemma read_good_frame:
  assumes rd: "read_span_as w c pos n ps True = (HitGood, c')" and honest: "honest disc w"
    and B: "addressable B" "{pos ..< pos + n * SECTOR} \<subseteq> B"
  shows "(\<exists>it. h_items c' = it # h_items c \<and> h_dropped c' = h_dropped c \<and> item_sound disc B it \<and>
            patch_bytes it = {pos ..< pos + n * SECTOR}) \<or>
         h_items c' = h_items c \<and> h_dropped c' = (pos, n * SECTOR) # h_dropped c"
  using rd
proof (cases rule: read_cases)
  case (Read c2)
  obtain d where d: "o_read (w_obs w (h_step c)) ((pos div SECTOR) mod (u32_max + 1)) n (recovery (rp_timeout ps)) (rp_fua ps) =
      (Inr (n * SECTOR), d)"
    and log: "h_items c2 = Recovered pos (map d [0..<n * SECTOR]) # h_items c \<and> h_dropped c2 = h_dropped c \<or>
      h_items c2 = h_items c \<and> h_dropped c2 = (pos, n * SECTOR) # h_dropped c"
    using read_hit_good [OF Read(1)] by auto
  have n: "0 < n * SECTOR" using Read(3) SECTOR_gt0 by simp
  have "pos + n * SECTOR \<le> SECTOR * (u32_max + 1)" by (rule addressable_fits [OF B n])
  then have "pos < (u32_max + 1) * SECTOR" using n by (simp only: mult.commute [of "u32_max + 1"])
  then have "pos div SECTOR < u32_max + 1" by (rule less_mult_imp_div_less)
  then have lba: "(pos div SECTOR) mod (u32_max + 1) * SECTOR = pos" using Read(4) by simp
  then have "d i = disc (pos + i)" if "i < n * SECTOR" for i using honest d that unfolding honest_def by metis
  then have buf: "map d [0..<n * SECTOR] = map disc [pos ..< pos + n * SECTOR]"
    by (intro nth_equalityI) auto
  have "item_sound disc B (Recovered pos (map d [0..<n * SECTOR]))"
    using Read(4) n B(2) unfolding buf item_sound_def by simp
  then show ?thesis using log Read(2) by auto
qed simp

subsection \<open>The account of a section\<close>

text \<open>
  Whatever a run takes out of the still-bad set it has handed over (or a Stop dropped it), what it hands
  over is sound, and a byte it has handed over is not in the set any more.
\<close>

definition accounted :: "(nat \<Rightarrow> nat) \<Rightarrow> nat set \<Rightarrow> HandlerCtx \<Rightarrow> range list \<Rightarrow> hrun \<Rightarrow> bool" where
  "accounted disc B c bad r \<longleftrightarrow>
     (case r of (out, c', bad') \<Rightarrow>
        \<exists>its drs. h_items c' = its @ h_items c \<and> h_dropped c' = drs @ h_dropped c \<and>
          (\<forall>it \<in> set its. item_sound disc B it \<and> patch_bytes it \<inter> bytes_of bad' = {}) \<and>
          bytes_of bad' \<subseteq> bytes_of bad \<and>
          bytes_of bad \<subseteq> bytes_of bad' \<union> \<Union> (patch_bytes ` set its) \<union> bytes_of drs)"

lemma accountedI:
  assumes "h_items c' = its @ h_items c" and "h_dropped c' = drs @ h_dropped c"
    and "\<forall>it \<in> set its. item_sound disc B it \<and> patch_bytes it \<inter> bytes_of bad' = {}"
    and "bytes_of bad' \<subseteq> bytes_of bad" and "bytes_of bad \<subseteq> bytes_of bad' \<union> \<Union> (patch_bytes ` set its) \<union> bytes_of drs"
  shows "accounted disc B c bad (out, c', bad')"
  unfolding accounted_def prod.case using assms by (intro exI conjI)

lemma accounted_same:
  "h_items c1 = h_items c \<Longrightarrow> h_dropped c1 = h_dropped c \<Longrightarrow> accounted disc B c bad r = accounted disc B c1 bad r"
  by (simp add: accounted_def)

lemma accounted_seq:
  assumes "accounted disc B c bad (out, c1, bad1)" and "accounted disc B c1 bad1 r"
  shows "accounted disc B c bad r"
proof -
  obtain out2 c2 bad2 where r: "r = (out2, c2, bad2)" by (rule prod_cases3)
  obtain i1 d1 where 1: "h_items c1 = i1 @ h_items c" "h_dropped c1 = d1 @ h_dropped c"
    "\<forall>it \<in> set i1. item_sound disc B it \<and> patch_bytes it \<inter> bytes_of bad1 = {}" "bytes_of bad1 \<subseteq> bytes_of bad"
    "bytes_of bad \<subseteq> bytes_of bad1 \<union> \<Union> (patch_bytes ` set i1) \<union> bytes_of d1"
    using assms(1) unfolding accounted_def prod.case by (elim exE conjE) simp
  obtain i2 d2 where 2: "h_items c2 = i2 @ h_items c1" "h_dropped c2 = d2 @ h_dropped c1"
    "\<forall>it \<in> set i2. item_sound disc B it \<and> patch_bytes it \<inter> bytes_of bad2 = {}" "bytes_of bad2 \<subseteq> bytes_of bad1"
    "bytes_of bad1 \<subseteq> bytes_of bad2 \<union> \<Union> (patch_bytes ` set i2) \<union> bytes_of d2"
    using assms(2) unfolding accounted_def r prod.case by (elim exE conjE) simp
  show ?thesis unfolding r
  proof (rule accountedI)
    show "h_items c2 = (i2 @ i1) @ h_items c" "h_dropped c2 = (d2 @ d1) @ h_dropped c" using 1 2 by simp_all
    show "\<forall>it \<in> set (i2 @ i1). item_sound disc B it \<and> patch_bytes it \<inter> bytes_of bad2 = {}" using 1(3) 2(3,4) by auto
    show "bytes_of bad2 \<subseteq> bytes_of bad" using 1(4) 2(4) by blast
    show "bytes_of bad \<subseteq> bytes_of bad2 \<union> \<Union> (patch_bytes ` set (i2 @ i1)) \<union> bytes_of (d2 @ d1)"
      using 1(5) 2(5) by (auto simp: bytes_of_def)
  qed
qed

lemma accounted_stay: "h_items c1 = h_items c \<Longrightarrow> h_dropped c1 = h_dropped c \<Longrightarrow> accounted disc B c bad (out, c1, bad)"
  by (rule accountedI [where its = "[]" and drs = "[]"]) auto

lemma stop_check_frame:
  assumes "stop_check w y dl c = (r, c1)"
  shows "c1 = c\<lparr>h_step := h_step c + 1\<rparr>"
    and "r = None \<longleftrightarrow> \<not> (o_halted (w_obs w (h_step c)) \<or> y \<and> stalled c \<or> dl \<le> o_now (w_obs w (h_step c)))"
    and "r \<noteq> None \<Longrightarrow> r = Some HandlerHalted \<or> r = Some Remaining"
    and "r = Some HandlerHalted \<longleftrightarrow> o_halted (w_obs w (h_step c))"
  using assms by (auto simp: stop_check_def Let_def split: if_splits)

text \<open>The part of \<open>B\<close> that read commands can address.\<close>

definition clip :: "nat set \<Rightarrow> nat set" where
  "clip B = B \<inter> {b. b < SECTOR * (u32_max + 1)}"

lemma clip_addressable: "addressable (clip B)" by (simp add: addressable_def clip_def)

lemma clip_id: "addressable B \<Longrightarrow> clip B = B" by (auto simp: addressable_def clip_def)

lemma accounted_good:
  assumes rd: "read_span_as w c pos n ps True = (HitGood, c1)" and bad: "sub_ok bad" "bytes_of bad \<subseteq> B"
    and sp: "{pos ..< pos + n * SECTOR} \<subseteq> B" and rest: "accounted disc B c1 (sub_remove pos (n * SECTOR) bad) r"
    and w: "honest disc w" "addressable B"
  shows "accounted disc B c bad r"
proof -
  have "0 < n" using rd by (auto dest: read_good_count)
  then have "pos + n * SECTOR \<le> u64_max" using addressable_fits [OF w(2) sp] max_address by auto
  then have gone: "bytes_of (sub_remove pos (n * SECTOR) bad) = bytes_of bad - {pos ..< pos + n * SECTOR}"
    by (rule sub_remove_bytes [OF bad(1)])
  have "accounted disc B c bad (None, c1, sub_remove pos (n * SECTOR) bad)"
    using read_good_frame [OF rd w sp]
  proof (elim disjE exE conjE)
    fix it
    assume "h_items c1 = it # h_items c" "h_dropped c1 = h_dropped c" "item_sound disc B it"
      "patch_bytes it = {pos ..< pos + n * SECTOR}"
    then show ?thesis using gone by (intro accountedI [where its = "[it]" and drs = "[]"]) auto
  next
    assume "h_items c1 = h_items c" "h_dropped c1 = (pos, n * SECTOR) # h_dropped c"
    then show ?thesis using gone
      by (intro accountedI [where its = "[]" and drs = "[(pos, n * SECTOR)]"]) (auto simp: bytes_of_def)
  qed
  then show ?thesis using rest by (rule accounted_seq)
qed

lemma accounted_step: "accounted disc B (c\<lparr>h_step := k\<rparr>) bad r = accounted disc B c bad r"
  "accounted disc B (c\<lparr>unproductive := j\<rparr>) bad r = accounted disc B c bad r"
  by (simp_all add: accounted_def)

lemma accounted_check: "stop_check w y dl c = (q, c1) \<Longrightarrow> accounted disc B c bad r = accounted disc B c1 bad r"
  by (drule stop_check_frame(1)) (simp only: accounted_step)

lemma accounted_quiet:
  "read_span_as w c pos n ps commit = (hit, c1) \<Longrightarrow> \<not> (hit = HitGood \<and> commit) \<Longrightarrow>
    accounted disc B c bad r = accounted disc B c1 bad r"
  using accounted_same [of c1 c] read_frame(2) by blast

interpretation acc: protocol w dl "clip B" "\<lambda>c bad r. honest disc w \<longrightarrow> accounted disc (clip B) c bad r"
    "\<lambda>c bad r. honest disc w \<longrightarrow> accounted disc (clip B) c bad r"
  for w dl B disc
proof (unfold_locales, goal_cases)
  case 1
  show ?case by (rule clip_addressable)
next
  case 2
  show ?case by (simp add: accounted_stay)
next
  case 7
  then show ?case using accounted_good clip_addressable by blast
next
  case 12
  then show ?case by (simp only: accounted_step)
qed (use accounted_seq accounted_check accounted_quiet accounted_stay in \<open>blast | force\<close>)+

subsection \<open>A prompt end\<close>

text \<open>From observation \<open>k\<close> on every stop check stops: a Stop is set, or the deadline has passed.\<close>

definition stops_from :: "World \<Rightarrow> nat \<Rightarrow> nat \<Rightarrow> bool" where
  "stops_from w dl k = (\<forall>j \<ge> k. o_halted (w_obs w j) \<or> dl \<le> o_now (w_obs w j))"

text \<open>A run has made at most one read since, and it ends at its next check.\<close>

definition prompt :: "nat \<Rightarrow> HandlerCtx \<Rightarrow> range list \<Rightarrow> hrun \<Rightarrow> bool" where
  "prompt k c bad r =
     (h_step (fst (snd r)) \<le> max (h_step c) (k + 1) + (if fst r = None then 0 else 1))"

definition prompt_armed :: "nat \<Rightarrow> HandlerCtx \<Rightarrow> range list \<Rightarrow> hrun \<Rightarrow> bool" where
  "prompt_armed k c bad r = (h_step c \<le> k \<longrightarrow> prompt k c bad r)"

lemma check_before:
  assumes "stops_from w dl k" and "stop_check w y dl c = (None, c1)"
  shows "h_step c < k \<and> h_step c1 = h_step c + 1"
proof
  have "\<not> o_halted (w_obs w (h_step c)) \<and> \<not> dl \<le> o_now (w_obs w (h_step c))"
    using stop_check_frame(2) [OF assms(2)] by simp
  then show "h_step c < k" using assms(1) unfolding stops_from_def by (meson not_le)
  show "h_step c1 = h_step c + 1" unfolding stop_check_frame(1) [OF assms(2)] by simp
qed

lemma prompt_check:
  assumes "stops_from w dl k" and "stop_check w y dl c = (None, c1)" and "prompt_armed k c1 bad r"
  shows "prompt k c bad r"
  using check_before [OF assms(1,2)] assms(3) by (simp add: prompt_def prompt_armed_def)

lemma prompt_read:
  assumes "read_span_as w c pos n ps commit = (hit, c1)" and "prompt k c1 bad1 r"
  shows "prompt_armed k c bad r"
  using read_frame(1) [OF assms(1)] assms(2) by (auto simp: prompt_def prompt_armed_def)

interpretation pr: protocol w dl "clip B" "\<lambda>c bad r. stops_from w dl k \<longrightarrow> prompt k c bad r"
    "\<lambda>c bad r. stops_from w dl k \<longrightarrow> prompt_armed k c bad r"
  for w dl B k
proof (unfold_locales, goal_cases)
  case 1
  show ?case by (rule clip_addressable)
next
  case 6
  then show ?case using prompt_check by blast
next
  case (7 y c out c1 bad)
  then show ?case using stop_check_frame(1) [OF 7] by (simp add: prompt_def)
next
  case (11 c pos n ps commit c1 bad)
  then show ?case using read_frame(1) [OF 11] by (auto simp: prompt_def prompt_armed_def)
next
  case (12 c pos n ps commit c1 bad)
  then show ?case using read_frame(1) [OF 12] by (auto simp: prompt_def prompt_armed_def)
qed (use prompt_read in \<open>auto simp: prompt_def prompt_armed_def\<close>)

subsection \<open>Bookkeeping\<close>

definition drive_speed_of :: "HandlerCtx \<Rightarrow> nat" where
  "drive_speed_of c = (case h_speeds c of [] \<Rightarrow> SPEED_MAX_KBS | s # _ \<Rightarrow> s)"

text \<open>
  A run ends fatally exactly when it leaves an error in the context, the wedge streak is below its limit
  unless the run ended as a transport fault, and the context knows the spindle speed.
\<close>

definition booked :: "HandlerCtx \<Rightarrow> range list \<Rightarrow> hrun \<Rightarrow> bool" where
  "booked c bad r =
     (fatal c = None \<and> wedge_streak c < WEDGE_ABORT_STREAK \<and> drive_speed_of c = cur_speed c \<longrightarrow>
        (fst r = Some FatalEnd \<longleftrightarrow> fatal (fst (snd r)) \<noteq> None) \<and>
        (fst r \<noteq> Some TransportFault \<longrightarrow> wedge_streak (fst (snd r)) < WEDGE_ABORT_STREAK) \<and>
        drive_speed_of (fst (snd r)) = cur_speed (fst (snd r)) \<and> fst r \<noteq> Some Complete)"

lemma read_speed:
  assumes "read_span_as w c pos n ps commit = (hit, c1)" and "drive_speed_of c = cur_speed c"
  shows "drive_speed_of c1 = cur_speed c1"
  using assms(1)
proof (cases rule: read_cases)
  case (Read c2)
  then show ?thesis
    using assms(2) read_hit_frame(2,3) [OF Read(1)] by (simp add: drive_speed_of_def set_span_speed_def split: if_splits)
qed (use assms in simp)

lemma booked_read:
  assumes "read_span_as w c pos n ps commit = (hit, c1)" and "booked c1 bad1 r" and "hit = HitGood \<or> hit = HitBad"
  shows "booked c bad r"
  using assms read_frame(3,5) [OF assms(1)] read_speed [OF assms(1)] by (auto simp: booked_def)

lemma booked_check: "stop_check w y dl c = (q, c1) \<Longrightarrow> booked c1 bad r \<Longrightarrow> booked c bad r"
  by (drule stop_check_frame(1)) (simp add: booked_def drive_speed_of_def)

lemma booked_seq: "booked c bad (None, c1, bad1) \<Longrightarrow> booked c1 bad1 r \<Longrightarrow> booked c bad r"
  by (simp add: booked_def)

lemma booked_stay: "booked c bad (None, c, bad)"
  by (simp add: booked_def)

lemma booked_reset: "booked (c\<lparr>unproductive := 0\<rparr>) bad r \<Longrightarrow> booked c bad r"
  by (simp add: booked_def drive_speed_of_def)

interpretation bk: protocol w dl "clip B" booked booked for w dl B
proof (unfold_locales, goal_cases)
  case 1
  show ?case by (rule clip_addressable)
next
  case (6 y c out c1 bad)
  then show ?case using stop_check_frame(1,3) [OF 6] by (auto simp: booked_def drive_speed_of_def)
next
  case (10 c pos n ps commit c1 bad)
  then show ?case using read_frame(3) [OF 10] read_speed [OF 10] by (auto simp: booked_def)
next
  case (11 c pos n ps commit c1 bad)
  then show ?case using read_frame(4,5) [OF 11] read_speed [OF 11] by (auto simp: booked_def)
qed (blast intro: booked_read booked_check booked_seq booked_stay booked_reset)+

end
