(* ===== verification/Float64.thy ===== *)
theory Float64
  imports Prelude
begin

text \<open>
  The \<open>f64\<close> arithmetic the engine computes rates and losses with: each operation is the exact rational
  result rounded to nearest, ties to even, with gradual underflow and overflow to infinity. A zero has no
  sign here; the engine divides by nothing that can be zero.
\<close>

fun bit_size :: "nat \<Rightarrow> nat" where
  "bit_size n = (if n = 0 then 0 else Suc (bit_size (n div 2)))"

declare bit_size.simps [simp del]

definition pow2 :: "int \<Rightarrow> rat" where
  "pow2 e = (if 0 \<le> e then 2 ^ nat e else 1 / 2 ^ nat (- e))"

text \<open>The exponent of a positive rational.\<close>

definition ilog2 :: "rat \<Rightarrow> int" where
  "ilog2 q =
     (case quotient_of q of (a, b) \<Rightarrow>
        let e = int (bit_size (nat a)) - int (bit_size (nat b)) in if pow2 e \<le> q then e else e - 1)"

definition round_half_even :: "rat \<Rightarrow> int" where
  "round_half_even q =
     (let f = \<lfloor>q\<rfloor>; r = q - of_int f
      in if r < 1 / 2 then f else if r > 1 / 2 then f + 1 else if even f then f else f + 1)"

definition round64 :: "rat \<Rightarrow> f64" where
  "round64 q =
     (if q = 0 then Fin 0
      else
        (let e = max (ilog2 \<bar>q\<bar> - 52) (- 1074); v = of_int (round_half_even (q / pow2 e)) * pow2 e
         in if \<bar>v\<bar> \<ge> pow2 1024 then if v < 0 then NegInf else PosInf else Fin v))"

definition f64_of_nat :: "nat \<Rightarrow> f64" where
  "f64_of_nat n = round64 (of_nat n)"

definition f64_neg :: "f64 \<Rightarrow> f64" where
  "f64_neg x = (case x of NaN \<Rightarrow> NaN | NegInf \<Rightarrow> PosInf | PosInf \<Rightarrow> NegInf | Fin a \<Rightarrow> Fin (- a))"

definition f64_add :: "f64 \<Rightarrow> f64 \<Rightarrow> f64" where
  "f64_add x y =
     (case (x, y) of
        (Fin a, Fin b) \<Rightarrow> round64 (a + b)
      | (NaN, _) \<Rightarrow> NaN
      | (_, NaN) \<Rightarrow> NaN
      | (Fin _, _) \<Rightarrow> y
      | (_, Fin _) \<Rightarrow> x
      | _ \<Rightarrow> (if x = y then x else NaN))"

definition f64_sub :: "f64 \<Rightarrow> f64 \<Rightarrow> f64" where
  "f64_sub x y = f64_add x (f64_neg y)"

text \<open>The infinity with the sign of \<open>a\<close>, or NaN at zero.\<close>

definition inf_sign :: "rat \<Rightarrow> f64" where
  "inf_sign a = (if a > 0 then PosInf else if a < 0 then NegInf else NaN)"

definition sign_of :: "f64 \<Rightarrow> rat" where
  "sign_of x = (case x of NaN \<Rightarrow> 0 | NegInf \<Rightarrow> -1 | PosInf \<Rightarrow> 1 | Fin a \<Rightarrow> a)"

definition f64_mul :: "f64 \<Rightarrow> f64 \<Rightarrow> f64" where
  "f64_mul x y =
     (case (x, y) of
        (Fin a, Fin b) \<Rightarrow> round64 (a * b)
      | _ \<Rightarrow> (if x = NaN \<or> y = NaN then NaN else inf_sign (sign_of x * sign_of y)))"

definition f64_div :: "f64 \<Rightarrow> f64 \<Rightarrow> f64" where
  "f64_div x y =
     (case (x, y) of
        (Fin a, Fin b) \<Rightarrow> (if b = 0 then inf_sign a else round64 (a / b))
      | (NaN, _) \<Rightarrow> NaN
      | (Fin _, NaN) \<Rightarrow> NaN
      | (Fin _, _) \<Rightarrow> Fin 0
      | (_, Fin b) \<Rightarrow> (if b < 0 then f64_neg x else x)
      | _ \<Rightarrow> NaN)"

text \<open>The cast \<open>as u64\<close> saturates; a NaN is 0.\<close>

definition f64_to_u64 :: "f64 \<Rightarrow> nat" where
  "f64_to_u64 x = (case x of Fin a \<Rightarrow> min (nat \<lfloor>a\<rfloor>) u64_max | PosInf \<Rightarrow> u64_max | _ \<Rightarrow> 0)"

lemma f64_to_u64_le: "f64_to_u64 x \<le> u64_max"
  by (simp add: f64_to_u64_def split: f64.split)

end
