(* ===== verification/Chain.thy ===== *)
theory Chain
  imports HandlerInv Float64
begin

text \<open>
  The chain of handlers of one section, \<open>run_handlers\<close> (\<open>src/src/recovery/section_recover.rs\<close>): best first
  by the scorecard of the pass, each under its own deadline. Times are nanoseconds.
\<close>

subsection \<open>The scorecard\<close>

record ScoreStat =
  ewma_rate :: "f64 option"
  ss_recovered :: u64
  ss_nanos :: nat
  ss_attempts :: u64

type_synonym HandlerScoreboard = "string \<Rightarrow> ScoreStat option"

definition SCORE_EWMA_ALPHA :: f64 where "SCORE_EWMA_ALPHA = Fin (1 / 2)"
definition NANOS_PER_SEC :: nat where "NANOS_PER_SEC = 1000000000"
definition u128_max :: nat where "u128_max = 340282366920938463463374607431768211455"

definition as_secs_f64 :: "nat \<Rightarrow> f64" where
  "as_secs_f64 ns =
     f64_add (f64_of_nat (ns div NANOS_PER_SEC)) (f64_div (f64_of_nat (ns mod NANOS_PER_SEC)) (f64_of_nat NANOS_PER_SEC))"

definition decay :: "f64 option \<Rightarrow> f64 \<Rightarrow> f64" where
  "decay prev sample =
     (case prev of
        None \<Rightarrow> sample
      | Some p \<Rightarrow> f64_add (f64_mul SCORE_EWMA_ALPHA sample) (f64_mul (f64_sub (Fin 1) SCORE_EWMA_ALPHA) p))"

definition no_score :: ScoreStat where
  "no_score = \<lparr>ewma_rate = None, ss_recovered = 0, ss_nanos = 0, ss_attempts = 0\<rparr>"

definition record_attempt :: "HandlerScoreboard \<Rightarrow> string \<Rightarrow> u64 \<Rightarrow> nat \<Rightarrow> HandlerScoreboard" where
  "record_attempt b name recovered elapsed =
     (let s = (case b name of None \<Rightarrow> no_score | Some s \<Rightarrow> s);
          s = s\<lparr>ss_recovered := sat_add (ss_recovered s) recovered, ss_nanos := min (ss_nanos s + elapsed) u128_max,
                ss_attempts := wadd (ss_attempts s) 1\<rparr>;
          secs = as_secs_f64 elapsed
      in b(name \<mapsto>
           (if f64_less (Fin 0) secs
            then s\<lparr>ewma_rate := Some (decay (ewma_rate s) (f64_div (f64_of_nat recovered) secs))\<rparr>
            else s)))"

definition rank :: "HandlerScoreboard \<Rightarrow> string \<Rightarrow> u64" where
  "rank b name =
     (case b name of
        None \<Rightarrow> u64_max
      | Some s \<Rightarrow> (case ewma_rate s of None \<Rightarrow> 0 | Some r \<Rightarrow> f64_to_u64 r))"

subsection \<open>Deadlines\<close>

text \<open>The seconds an \<open>Instant\<close> can hold.\<close>

definition INSTANT_MAX_SECS :: nat where "INSTANT_MAX_SECS = 9223372036854775807"

definition instant_add :: "nat \<Rightarrow> nat \<Rightarrow> nat option" where
  "instant_add now secs =
     (if secs = 0 \<or> now div NANOS_PER_SEC + secs \<le> INSTANT_MAX_SECS then Some (now + secs * NANOS_PER_SEC) else None)"

function handler_deadline :: "nat \<Rightarrow> nat \<Rightarrow> nat" where
  "handler_deadline now budget_secs =
     (case instant_add now budget_secs of
        Some t \<Rightarrow> t
      | None \<Rightarrow> handler_deadline now (budget_secs div 2))"
  by pat_completeness auto
termination
  by (relation "measure snd") (auto simp: instant_add_def split: if_splits)

declare handler_deadline.simps [simp del]

subsection \<open>The chain\<close>

definition clock :: "World \<Rightarrow> HandlerCtx \<Rightarrow> nat \<times> HandlerCtx" where
  "clock w c = (o_now (w_obs w (h_step c)), c\<lparr>h_step := h_step c + 1\<rparr>)"

type_synonym chain_result = "HandlerOutcome \<times> HandlerCtx \<times> range list \<times> HandlerScoreboard"

text \<open>One handler of the chain: its deadline, its run, the speed restored, its score.\<close>

definition run_one ::
  "World \<Rightarrow> nat \<Rightarrow> handler \<Rightarrow> HandlerCtx \<Rightarrow> range list \<Rightarrow> HandlerScoreboard \<Rightarrow> chain_result" where
  "run_one w budget h c bad b =
     (case clock w c of (t0, c1) \<Rightarrow>
      case clock w c1 of (started, c2) \<Rightarrow>
      case recover w h (handler_deadline t0 budget) (c2\<lparr>unproductive := 0\<rparr>) bad of (out, c3, bad') \<Rightarrow>
      case clock w (set_span_speed SPEED_MAX_KBS c3) of (t1, c4) \<Rightarrow>
        (out, c4, bad', record_attempt b (handler_name h) (sub_total_len bad - sub_total_len bad') (t1 - started)))"

fun run_sorted ::
  "World \<Rightarrow> nat \<Rightarrow> handler list \<Rightarrow> HandlerCtx \<Rightarrow> range list \<Rightarrow> HandlerScoreboard \<Rightarrow> chain_result" where
  "run_sorted w budget [] c bad b = (if bad = [] then Complete else Remaining, c, bad, b)"
| "run_sorted w budget (h # hs) c bad b =
     (if bad = [] then (Complete, c, bad, b)
      else case run_one w budget h c bad b of
             (out, c', bad', b') \<Rightarrow>
               (if out = Remaining then run_sorted w budget hs c' bad' b' else (out, c', bad', b')))"

definition best_first :: "HandlerScoreboard \<Rightarrow> handler list \<Rightarrow> handler list" where
  "best_first b hs = sort_key (\<lambda>h. u64_max - rank b (handler_name h)) hs"

definition run_handlers ::
  "World \<Rightarrow> nat \<Rightarrow> handler list \<Rightarrow> HandlerCtx \<Rightarrow> range list \<Rightarrow> HandlerScoreboard \<Rightarrow> chain_result" where
  "run_handlers w budget hs c bad b = run_sorted w budget (best_first b hs) c bad b"

end
