(* ===== verification/ChainInv.thy ===== *)
theory ChainInv
  imports Chain "HOL-Library.Multiset"
begin

text \<open>
  What the chain of handlers of a section keeps, from the interpretations of the contract: the account of
  the section's bytes, the bookkeeping and the end; what it does in which order, and its deadlines.
\<close>

subsection \<open>One handler\<close>

lemma accounted_out: "accounted disc B c bad (out, c', bad') = accounted disc B c bad (out', c', bad')"
  by (simp add: accounted_def)

lemma technique_ok:
  assumes "addressable B" and "bytes_of bad \<subseteq> B" and "sub_ok bad" and "technique w h dl c bad = (r, c', bad')"
  shows "honest disc w \<Longrightarrow> accounted disc B c bad (r, c', bad')" and "sub_ok bad'" and "bytes_of bad' \<subseteq> bytes_of bad"
    and "booked c bad (r, c', bad')" and "stops_from w dl k \<Longrightarrow> prompt k c bad (r, c', bad')"
proof -
  have B: "clip B = B" by (rule clip_id [OF assms(1)])
  note acc = acc.keeps_technique [where bad = bad and B = B and w = w and disc = disc and c = c and h = h and dl = dl, unfolded B, OF assms(2,3)]
  note bk = bk.keeps_technique [where bad = bad and B = B and w = w and c = c and h = h and dl = dl, unfolded B, OF assms(2,3)]
  note pr = pr.keeps_technique [where bad = bad and B = B and w = w and k = k and c = c and h = h and dl = dl, unfolded B, OF assms(2,3)]
  show "honest disc w \<Longrightarrow> accounted disc B c bad (r, c', bad')" "sub_ok bad'" "bytes_of bad' \<subseteq> bytes_of bad"
    using acc assms(3,4) by (auto simp: keeps_def)
  show "booked c bad (r, c', bad')" using bk assms(3,4) by (simp add: keeps_def)
  show "stops_from w dl k \<Longrightarrow> prompt k c bad (r, c', bad')" using pr assms(3,4) by (simp add: keeps_def)
qed

text \<open>The state a handler is entered in.\<close>

definition ctx_ok :: "HandlerCtx \<Rightarrow> bool" where
  "ctx_ok c = (fatal c = None \<and> wedge_streak c < WEDGE_ABORT_STREAK \<and> drive_speed_of c = cur_speed c)"

definition end_ok :: "HandlerOutcome \<Rightarrow> HandlerCtx \<Rightarrow> range list \<Rightarrow> bool" where
  "end_ok out c bad =
     ((out = FatalEnd \<longleftrightarrow> fatal c \<noteq> None) \<and> (out \<noteq> TransportFault \<longrightarrow> wedge_streak c < WEDGE_ABORT_STREAK) \<and>
      drive_speed_of c = cur_speed c \<and> (out = Complete \<longrightarrow> bad = []))"

lemma recover_ok:
  assumes "addressable B" and "bytes_of bad \<subseteq> B" and "sub_ok bad" and "recover w h dl c bad = (out, c', bad')"
  shows "honest disc w \<Longrightarrow> accounted disc B c bad (None, c', bad')" and "sub_ok bad'" and "bytes_of bad' \<subseteq> bytes_of bad"
    and "ctx_ok c \<Longrightarrow> end_ok out c' bad'"
    and "stops_from w dl k \<Longrightarrow> h_step c' \<le> max (h_step c) (k + 1) + 1"
proof -
  obtain r c1 bad1 where t: "technique w h dl c bad = (r, c1, bad1)" by (rule prod_cases3)
  note ok = technique_ok [OF assms(1-3) t]
  have fin: "c' = c1 \<and> bad' = bad1 \<and> out = (case r of Some x \<Rightarrow> x | None \<Rightarrow> if bad1 = [] then Complete else Remaining)"
    using assms(4) t by (auto simp: recover_def handler_end_def split: option.splits)
  then show "honest disc w \<Longrightarrow> accounted disc B c bad (None, c', bad')" "sub_ok bad'" "bytes_of bad' \<subseteq> bytes_of bad"
    using ok(1-3) accounted_out [of disc B c bad r c1 bad1 None] by auto
  show "ctx_ok c \<Longrightarrow> end_ok out c' bad'"
    using fin ok(4) by (auto simp: ctx_ok_def end_ok_def booked_def split: option.splits)
  show "stops_from w dl k \<Longrightarrow> h_step c' \<le> max (h_step c) (k + 1) + 1"
    using fin ok(5) [of k] by (auto simp: prompt_def split: if_splits)
qed

lemma speed_frame [simp]:
  "cur_speed (set_span_speed v c) = v" "drive_speed_of (set_span_speed v c) = (if v \<noteq> cur_speed c then v else drive_speed_of c)"
  by (simp_all add: set_span_speed_def drive_speed_of_def)

lemma run_one_ok:
  assumes B: "addressable B" "bytes_of bad \<subseteq> B" "sub_ok bad" and run: "run_one w budget h c bad b = (out, c', bad', b')"
  shows "honest disc w \<Longrightarrow> accounted disc B c bad (None, c', bad')" and "sub_ok bad'" and "bytes_of bad' \<subseteq> bytes_of bad"
    and "ctx_ok c \<Longrightarrow> end_ok out c' bad' \<and> cur_speed c' = SPEED_MAX_KBS"
proof -
  define c1 where "c1 = c\<lparr>h_step := h_step c + 2, unproductive := 0\<rparr>"
  obtain dl where dl: "dl = handler_deadline (o_now (w_obs w (h_step c))) budget" by simp
  obtain r c2 bad2 where rec: "recover w h dl c1 bad = (r, c2, bad2)" by (rule prod_cases3)
  note ok = recover_ok [OF B rec]
  have parts: "out = r" "bad' = bad2" "c' = (set_span_speed SPEED_MAX_KBS c2)\<lparr>h_step := h_step c2 + 1\<rparr>"
    using run rec by (auto simp: run_one_def clock_def c1_def dl split: prod.splits)
  have c1: "accounted disc B c1 bad q = accounted disc B c bad q" for q by (simp add: c1_def accounted_def)
  have c': "accounted disc B c bad (None, c', q) = accounted disc B c bad (None, c2, q)" for q
    by (simp add: accounted_def parts(3))
  show "honest disc w \<Longrightarrow> accounted disc B c bad (None, c', bad')" "sub_ok bad'" "bytes_of bad' \<subseteq> bytes_of bad"
    using ok(1) [of disc] ok(2,3) parts(2) unfolding c1 c' by simp_all
  have "ctx_ok c1" if "ctx_ok c" using that by (simp add: c1_def ctx_ok_def drive_speed_of_def)
  then show "ctx_ok c \<Longrightarrow> end_ok out c' bad' \<and> cur_speed c' = SPEED_MAX_KBS"
    using ok(4) unfolding parts by (simp add: end_ok_def drive_speed_of_def) (simp add: set_span_speed_def)
qed

subsection \<open>The chain\<close>

lemma run_sorted_ok:
  "addressable B \<Longrightarrow> bytes_of bad \<subseteq> B \<Longrightarrow> sub_ok bad \<Longrightarrow> run_sorted w budget hs c bad b = (out, c', bad', b') \<Longrightarrow>
   (honest disc w \<longrightarrow> accounted disc B c bad (None, c', bad')) \<and> sub_ok bad' \<and> bytes_of bad' \<subseteq> bytes_of bad \<and>
   (ctx_ok c \<and> cur_speed c = SPEED_MAX_KBS \<longrightarrow> end_ok out c' bad' \<and> cur_speed c' = SPEED_MAX_KBS)"
proof (induction hs arbitrary: c bad b)
  case Nil
  then show ?case by (auto simp: accounted_stay end_ok_def ctx_ok_def split: if_splits)
next
  case (Cons h hs)
  show ?case
  proof (cases "bad = []")
    case True
    then show ?thesis using Cons.prems by (auto simp: accounted_stay end_ok_def ctx_ok_def)
  next
    case False
    obtain r c1 bad1 b1 where one: "run_one w budget h c bad b = (r, c1, bad1, b1)" by (rule prod_cases4)
    note ok = run_one_ok [OF Cons.prems(1-3) one]
    show ?thesis
    proof (cases "r = Remaining")
      case False
      then show ?thesis using ok(1) [of disc] ok(2-4) Cons.prems(4) \<open>bad \<noteq> []\<close> one by auto
    next
      case True
      then have rest: "run_sorted w budget hs c1 bad1 b1 = (out, c', bad', b')"
        using Cons.prems(4) \<open>bad \<noteq> []\<close> one by simp
      note IH = Cons.IH [OF Cons.prems(1) _ ok(2) rest]
      have "bytes_of bad1 \<subseteq> B" using ok(3) Cons.prems(2) by blast
      moreover have "ctx_ok c \<Longrightarrow> ctx_ok c1 \<and> cur_speed c1 = SPEED_MAX_KBS"
        using ok(4) True by (auto simp: end_ok_def ctx_ok_def)
      ultimately show ?thesis using IH ok(1) [of disc] ok(3) accounted_seq [of disc B c bad None c1 bad1] by blast
    qed
  qed
qed

subsection \<open>The order\<close>

lemma best_first_perm: "mset (best_first b hs) = mset hs"
  by (simp add: best_first_def)

lemma rank_le: "rank b n \<le> u64_max"
  by (simp add: rank_def f64_to_u64_le split: option.split)

lemma best_first_sorted: "sorted (map (\<lambda>h. u64_max - rank b (handler_name h)) (best_first b hs))"
  by (simp add: best_first_def)

subsection \<open>Deadlines\<close>

lemma handler_deadline_ok:
  "now \<le> handler_deadline now s \<and> handler_deadline now s \<le> now + s * NANOS_PER_SEC"
proof (induction now s rule: handler_deadline.induct)
  case (1 now s)
  note unf = handler_deadline.simps [of now s]
  show ?case
  proof (cases "instant_add now s")
    case None
    have "s div 2 * NANOS_PER_SEC \<le> s * NANOS_PER_SEC" by (intro mult_le_mono) auto
    then have "handler_deadline now s = handler_deadline now (s div 2)" using unf None by simp
    then show ?thesis using 1 [OF None] \<open>s div 2 * NANOS_PER_SEC \<le> s * NANOS_PER_SEC\<close> by linarith
  next
    case (Some t)
    then show ?thesis using unf by (auto simp: instant_add_def split: if_splits)
  qed
qed

lemma handler_deadline_fits:
  "now div NANOS_PER_SEC + s \<le> INSTANT_MAX_SECS \<Longrightarrow> handler_deadline now s = now + s * NANOS_PER_SEC"
  by (subst handler_deadline.simps) (simp add: instant_add_def)

subsection \<open>The properties\<close>

text \<open>A world for the witnesses: every read is good, a Stop is set from the third observation on.\<close>

definition sample_disc :: "nat \<Rightarrow> nat" where
  "sample_disc b = b mod 251"

definition sample_pipe :: PipeView where
  "sample_pipe = \<lparr>v_failed = False, v_try = TryOk, v_sent = True, v_cancelled = False, v_failed_after = False, v_retry = TryOk\<rparr>"

definition sample_world :: World where
  "sample_world =
     \<lparr>w_obs = (\<lambda>k. \<lparr>o_read = (\<lambda>lba n rec fua. (Inr (n * SECTOR), \<lambda>i. sample_disc (lba * SECTOR + i))),
                   o_send = sample_pipe, o_fast = False, o_halted = (2 < k), o_now = k\<rparr>),
      w_short = medium_error, w_capacity = 100\<rparr>"

definition sample_ctx :: HandlerCtx where
  "sample_ctx =
     \<lparr>h_step = 0, h_items = [], h_dropped = [], h_speeds = [], unproductive = 0, wedge_streak = 0,
      cur_speed = SPEED_MAX_KBS, fatal = None\<rparr>"

definition sample_bad :: "range list" where
  "sample_bad = [(SECTOR, 8 * SECTOR)]"

lemma sample_honest: "honest sample_disc sample_world"
  by (auto simp: honest_def sample_world_def)

lemma sample_bad_ok: "sub_ok sample_bad" "addressable (bytes_of sample_bad)"
  by (auto simp: sample_bad_def sub_ok_def aligned_dvd addressable_def bytes_of_def SECTOR_def u64_max_def u32_max_def)

lemma sample_stops: "stops_from sample_world dl 3"
  by (auto simp: stops_from_def sample_world_def)

lemma sample_ctx_ok: "ctx_ok sample_ctx" "cur_speed sample_ctx = SPEED_MAX_KBS"
  by (simp_all add: ctx_ok_def sample_ctx_def WEDGE_ABORT_STREAK_def drive_speed_of_def)



text \<open>
C31: Once every stop check stops (a Stop is set, or the deadline has passed), whatever technique is running ends
after at most one read more: it is never longer than two observations behind the Stop.
\<close>

theorem handler_prompt_end:
  assumes "sub_ok bad" and "addressable (bytes_of bad)" and "stops_from w dl k"
    and "recover w h dl c bad = (out, c', bad')"
  shows "h_step c' \<le> max (h_step c) (k + 1) + 1"
  by (rule recover_ok(5) [OF assms(2) order_refl assms(1,4,3)])

theorem handler_prompt_end_witness:
  "h_step (fst (snd (recover sample_world (HOscillate fast_params) 1000 sample_ctx sample_bad))) \<le> 5"
  using handler_prompt_end [OF sample_bad_ok sample_stops, of "HOscillate fast_params" 1000 sample_ctx]
  by (cases "recover sample_world (HOscillate fast_params) 1000 sample_ctx sample_bad") (simp add: sample_ctx_def)

text \<open>
C32: The bookkeeping of a chain: it ends fatally exactly when it leaves its error in the context, it leaves the
wedge streak below its abort limit unless it ends as a transport fault, the spindle is back at full speed whatever
the last handler asked for, and the context's speed is the one last sent to the drive.
\<close>

theorem chain_bookkeeping:
  assumes "sub_ok bad" and "addressable (bytes_of bad)" and "ctx_ok c" and "cur_speed c = SPEED_MAX_KBS"
    and "run_handlers w budget hs c bad b = (out, c', bad', b')"
  shows "(out = FatalEnd \<longleftrightarrow> fatal c' \<noteq> None) \<and> (out \<noteq> TransportFault \<longrightarrow> wedge_streak c' < WEDGE_ABORT_STREAK) \<and>
         cur_speed c' = SPEED_MAX_KBS \<and> drive_speed_of c' = SPEED_MAX_KBS"
  using run_sorted_ok [OF assms(2) order_refl assms(1) assms(5) [unfolded run_handlers_def]] assms(3,4)
  by (auto simp: end_ok_def)

theorem chain_bookkeeping_witness:
  "case run_handlers sample_world 60 [HSpeedSweep deep_params] sample_ctx sample_bad Map.empty of
     (out, c', bad', b') \<Rightarrow> cur_speed c' = SPEED_MAX_KBS"
  using chain_bookkeeping [OF sample_bad_ok sample_ctx_ok] by (auto split: prod.split)

text \<open>
The order of a chain: the same handlers, by falling decayed recovery rate; of equal rates the pool's order is
kept, and a handler not tried yet ranks with the highest possible rate, so no tried one that is slower precedes it.
\<close>

theorem chain_order:
  "mset (best_first b hs) = mset hs \<and>
   sorted_wrt (\<lambda>g h. rank b (handler_name h) \<le> rank b (handler_name g)) (best_first b hs) \<and>
   filter (\<lambda>h. rank b (handler_name h) = r) (best_first b hs) = filter (\<lambda>h. rank b (handler_name h) = r) hs \<and>
   (b (handler_name h) = None) \<le> (rank b (handler_name g) \<le> rank b (handler_name h))"
proof -
  let ?k = "\<lambda>h. u64_max - rank b (handler_name h)"
  have key: "?k h = u64_max - r \<longleftrightarrow> rank b (handler_name h) = r" if "r \<le> u64_max" for h r
    using rank_le [of b "handler_name h"] that by auto
  have "sorted_wrt (\<lambda>g h. ?k g \<le> ?k h) (best_first b hs)"
    using best_first_sorted by (simp add: sorted_map)
  then have "sorted_wrt (\<lambda>g h. rank b (handler_name h) \<le> rank b (handler_name g)) (best_first b hs)"
    by (rule sorted_wrt_mono_rel [rotated]) (use rank_le in \<open>fastforce simp: le_diff_iff'\<close>)
  moreover have "filter (\<lambda>h. rank b (handler_name h) = r) (best_first b hs) = filter (\<lambda>h. rank b (handler_name h) = r) hs"
  proof (cases "r \<le> u64_max")
    case True
    then show ?thesis using sort_key_stable [of ?k "u64_max - r" hs] key by (simp add: best_first_def)
  next
    case False
    then have "rank b (handler_name h) \<noteq> r" for h using rank_le [of b "handler_name h"] by auto
    then show ?thesis by simp
  qed
  ultimately show ?thesis using best_first_perm rank_le by (auto simp: rank_def)
qed

end
