(* ===== verification/Patch.thy ===== *)
theory Patch
  imports Chain SweepLink
begin

text \<open>
  Pass 2..N of a rip (\<open>src/src/recovery/patch.rs\<close>): re-reading the damaged ranges of a saved map. The
  producer walks the ranges, largest first, through the tiers of recovery handlers; the consumer
  \<open>PatchSink\<close> writes recovered spans into the image and records them in the map. The consumer works on
  the same state as that of Pass 1, and its write of a recovered span is the same code (\<open>apply_good\<close>).
\<close>

subsection \<open>The consumer\<close>

definition patch_apply ::
  "SinkEnv \<Rightarrow> patch_item \<Rightarrow> ImageSink \<Rightarrow> (pass_fail + sink_flow) \<times> ImageSink" where
  "patch_apply env it s0 =
     (let s = (if k_disown env then s0\<lparr>sk_map := (sk_map s0)\<lparr>disowned := True\<rparr>\<rparr> else s0)
      in if disowned (sk_map s) then (Inr Stop, s)
         else case it of
                Recovered p buf \<Rightarrow> apply_good env p buf s
              | MarkNonTrimmed p n \<Rightarrow> record_item (k_rec env) p n NonTrimmed s)"

fun apply_patches ::
  "(SinkEnv \<times> patch_item) list \<Rightarrow> ImageSink \<Rightarrow> (pass_fail + sink_flow) \<times> ImageSink" where
  "apply_patches [] s = (Inr Continue, s)"
| "apply_patches (x # xs) s =
     (case patch_apply (fst x) (snd x) s of
        (Inr Continue, s') \<Rightarrow> apply_patches xs s'
      | r \<Rightarrow> r)"

text \<open>
  The snapshot the producer reads, \<open>SharedPatchState::from_map\<close>; its figures of the main title are the
  library's and are left out.
\<close>

record SharedPatchState =
  sp_stats :: MapStats
  damage_in_scope :: u64

definition shared_from_map :: "Mapfile \<Rightarrow> SharedPatchState" where
  "shared_from_map m =
     (let bad_ranges = ranges_with m damage_sector_statuses
      in \<lparr>sp_stats = stats m,
          damage_in_scope = sum_list (map snd
            (case scope m of Some sc \<Rightarrow> intersect bad_ranges sc | None \<Rightarrow> bad_ranges))\<rparr>)"

definition REPUBLISH_CADENCE :: nat where "REPUBLISH_CADENCE = 250"

text \<open>The snapshot after an item: left as it is within the cadence of the last one. Times in milliseconds.\<close>

definition republish ::
  "bool \<Rightarrow> nat \<Rightarrow> Mapfile \<Rightarrow> nat option \<times> SharedPatchState \<Rightarrow> nat option \<times> SharedPatchState" where
  "republish force now m st =
     (case fst st of
        Some prev \<Rightarrow> (if \<not> force \<and> now - prev < REPUBLISH_CADENCE then st else (Some now, shared_from_map m))
      | None \<Rightarrow> (Some now, shared_from_map m))"

subsection \<open>What a pass starts from\<close>

record InitialState =
  is_map :: Mapfile
  is_stats :: MapStats
  is_total :: u64
  is_bad :: "range list"
  is_work :: u64
  is_reg :: bool

definition compute_initial_state :: "io_error + Mapfile \<Rightarrow> metadata \<Rightarrow> io_error + InitialState" where
  "compute_initial_state loaded meta =
     bind_res loaded (\<lambda>m.
       let bad = ranges_with m damage_sector_statuses;
           bad = (case scope m of Some sc \<Rightarrow> intersect bad sc | None \<Rightarrow> bad)
       in Inr \<lparr>is_map = m, is_stats = stats m, is_total = total_size m, is_bad = bad,
               is_work = sum_list (map snd bad), is_reg = output_is_regular meta\<rparr>)"

text \<open>The ranges of an unsettled rename are not read: what is left, its size and the size left out.\<close>

definition without_skip :: "range list \<Rightarrow> range list \<Rightarrow> u64 \<Rightarrow> range list \<times> u64 \<times> u64" where
  "without_skip skip bad work =
     (if skip = [] then (bad, work, 0)
      else (let left = subtract bad skip; tot = sum_list (map snd left) in (left, tot, work - tot)))"

subsection \<open>Rosters and knobs\<close>

definition PATCH_TIERS :: nat where "PATCH_TIERS = 3"
definition PER_HANDLER_BUDGET_SECS :: nat where "PER_HANDLER_BUDGET_SECS = 60"

definition build_tier_handlers :: "nat \<Rightarrow> handler list" where
  "build_tier_handlers tier =
     (if tier = 0
      then [HBisect fast_params, HJump fast_params, HLinear Reverse fast_params, HLinear Forward fast_params]
      else if tier = 1
      then [HLinear Reverse deep_params, HLinear Forward deep_params]
      else
        (let min_deep = \<lparr>rp_speed = SpeedMin, rp_fua = False, rp_timeout = TimeoutDeep\<rparr>;
             fua_deep = \<lparr>rp_speed = SpeedMax, rp_fua = True, rp_timeout = TimeoutDeep\<rparr>;
             slow_fua = \<lparr>rp_speed = SpeedMin, rp_fua = True, rp_timeout = TimeoutDeep\<rparr>
         in [HLinear Reverse min_deep, HLinear Forward min_deep, HLinear Forward fua_deep,
             HLinear Reverse fua_deep, HBisect fua_deep, HLinear Forward slow_fua, HCachePrime deep_params,
             HOscillate deep_params, HOscillate min_deep, HSpeedSweep deep_params]))"

definition build_flat_pool :: "handler list" where
  "build_flat_pool = concat (map build_tier_handlers [0..<PATCH_TIERS])"

definition flat_mode_from_value :: "string option \<Rightarrow> bool" where
  "flat_mode_from_value v = (case v of Some s \<Rightarrow> s \<noteq> [] \<and> s \<noteq> ''0'' | None \<Rightarrow> False)"

text \<open>\<open>parse::<u64>\<close> after \<open>trim\<close> of the value, here one of ASCII characters.\<close>

definition flat_budget_from_value :: "string option \<Rightarrow> nat" where
  "flat_budget_from_value v =
     max (case v of Some s \<Rightarrow> (case from_str_radix 10 u64_max (trim s) of Some n \<Rightarrow> n | None \<Rightarrow> 12) | None \<Rightarrow> 12) 1"

definition initial_batch_of :: "nat option \<Rightarrow> nat" where
  "initial_batch_of block_sectors = max (case block_sectors of Some b \<Rightarrow> b | None \<Rightarrow> 1) 1"

datatype PassKind = Scrape bool | Trim bool

definition pass_kind :: "nat \<Rightarrow> bool \<Rightarrow> PassKind" where
  "pass_kind initial_batch reverse = (if initial_batch = 1 then Scrape reverse else Trim reverse)"

subsection \<open>The producer\<close>

datatype RegionOutcome = RegionCompleted | RegionHalted | RegionTransportFault

text \<open>
  The state a pass carries across ranges. The handler context of each range is new but for the wedge
  streak; its logs run on over the pass.
\<close>

record PatchPass =
  pp_ctx :: HandlerCtx
  pp_board :: HandlerScoreboard
  drive_speed :: "nat option"
  pp_halted :: bool
  wedged_exit :: bool

text \<open>One look at the operation's stop token.\<close>

definition token :: "World \<Rightarrow> HandlerCtx \<Rightarrow> bool \<times> HandlerCtx" where
  "token w c = (o_halted (w_obs w (h_step c)), c\<lparr>h_step := h_step c + 1\<rparr>)"

definition enter_range :: "nat option \<Rightarrow> HandlerCtx \<Rightarrow> HandlerCtx" where
  "enter_range spd c =
     c\<lparr>unproductive := 0, fatal := None, cur_speed := SPEED_MAX_KBS,
       h_speeds := (if spd \<noteq> Some SPEED_MAX_KBS then SPEED_MAX_KBS # h_speeds c else h_speeds c)\<rparr>"

text \<open>The residue of a range after its last tier: \<open>Inl None\<close> when a Stop ended it.\<close>

fun send_residue :: "World \<Rightarrow> range list \<Rightarrow> HandlerCtx \<Rightarrow> (pass_fail option + unit) \<times> HandlerCtx" where
  "send_residue w [] c = (Inr (), c)"
| "send_residue w (r # rs) c =
     (let c1 = c\<lparr>h_step := h_step c + 1\<rparr>
      in case send_item (o_send (w_obs w (h_step c))) of
           Inr _ \<Rightarrow> send_residue w rs (c1\<lparr>h_items := MarkNonTrimmed (fst r) (snd r) # h_items c1\<rparr>)
         | Inl e \<Rightarrow> (Inl e, c1))"

definition region_end :: "bool \<Rightarrow> World \<Rightarrow> HandlerOutcome \<Rightarrow> PatchPass \<Rightarrow> (pass_fail + RegionOutcome) \<times> PatchPass" where
  "region_end reporting w out p =
     (case token w (pp_ctx p) of
        (stop, c) \<Rightarrow>
          (let p = (if reporting then p\<lparr>pp_ctx := c\<rparr> else p)
           in if reporting \<and> stop then (Inr RegionHalted, p\<lparr>pp_halted := True\<rparr>)
              else case out of
                     Complete \<Rightarrow> (Inr RegionCompleted, p)
                   | Remaining \<Rightarrow> (Inr RegionCompleted, p)
                   | HandlerHalted \<Rightarrow> (Inr RegionHalted, p\<lparr>pp_halted := True\<rparr>)
                   | _ \<Rightarrow> (Inr RegionTransportFault, p\<lparr>wedged_exit := True\<rparr>)))"

definition recover_section ::
  "World \<Rightarrow> bool \<Rightarrow> handler list \<Rightarrow> nat \<Rightarrow> bool \<Rightarrow> PatchPass \<Rightarrow> range list \<Rightarrow>
   (pass_fail + RegionOutcome) \<times> PatchPass \<times> range list" where
  "recover_section w reporting hs budget final_tier p bad =
     (case token w (pp_ctx p) of
        (stop, c0) \<Rightarrow>
          if stop then (Inr RegionHalted, p\<lparr>pp_ctx := c0, pp_halted := True\<rparr>, bad)
          else
            (case run_handlers w budget hs (enter_range (drive_speed p) c0) bad (pp_board p) of
               (out, c, bad', b) \<Rightarrow>
                 (let p = p\<lparr>pp_ctx := c\<lparr>fatal := None\<rparr>, pp_board := b, drive_speed := Some (cur_speed c)\<rparr>
                  in case fatal c of
                       Some e \<Rightarrow> (Inl e, p, bad')
                     | None \<Rightarrow>
                         (case (if final_tier then send_residue w bad' (pp_ctx p) else (Inr (), pp_ctx p)) of
                            (Inl None, c) \<Rightarrow> (Inr RegionHalted, p\<lparr>pp_ctx := c, pp_halted := True\<rparr>, bad')
                          | (Inl (Some e), c) \<Rightarrow> (Inl e, p\<lparr>pp_ctx := c\<rparr>, bad')
                          | (Inr _, c) \<Rightarrow>
                              (case region_end reporting w out (p\<lparr>pp_ctx := c\<rparr>) of
                                 (r, p) \<Rightarrow> (r, p, bad'))))))"

text \<open>One tier over all ranges. \<open>Inr False\<close> ends the pass.\<close>

fun tier_walk ::
  "(PatchPass \<Rightarrow> range list \<Rightarrow> (pass_fail + RegionOutcome) \<times> PatchPass \<times> range list) \<Rightarrow> range list list \<Rightarrow>
   PatchPass \<Rightarrow> (pass_fail + bool) \<times> PatchPass \<times> range list list" where
  "tier_walk f [] p = (Inr True, p, [])"
| "tier_walk f (s # ss) p =
     (if s = [] then (case tier_walk f ss p of (r, p, ss') \<Rightarrow> (r, p, s # ss'))
      else case f p s of
             (Inl e, p, s') \<Rightarrow> (Inl e, p, s' # ss)
           | (Inr o', p, s') \<Rightarrow>
               (if o' = RegionCompleted then (case tier_walk f ss p of (r, p, ss') \<Rightarrow> (r, p, s' # ss'))
                else (Inr False, p, s' # ss)))"

fun tiers_walk ::
  "(nat \<Rightarrow> PatchPass \<Rightarrow> range list \<Rightarrow> (pass_fail + RegionOutcome) \<times> PatchPass \<times> range list) \<Rightarrow> nat list \<Rightarrow>
   range list list \<Rightarrow> PatchPass \<Rightarrow> (pass_fail + bool) \<times> PatchPass \<times> range list list" where
  "tiers_walk f [] ss p = (Inr True, p, ss)"
| "tiers_walk f (t # ts) ss p =
     (case tier_walk (f t) ss p of
        (Inr True, p, ss') \<Rightarrow> tiers_walk f ts ss' p
      | r \<Rightarrow> r)"

text \<open>Largest first, of equal sizes the lowest first.\<close>

definition largest_first :: "range list \<Rightarrow> range list" where
  "largest_first rs = sort_key (\<lambda>r. (u64_max - snd r, fst r)) rs"

definition sections_of :: "range list \<Rightarrow> range list list" where
  "sections_of rs =
     map (\<lambda>r. case snap_to_sectors (fst r) (snd r) of (p, n) \<Rightarrow> from_section p n) (largest_first rs)"

record PatchKnobs =
  flat_mode :: bool
  flat_budget :: nat
  reporting :: bool

definition patch_run ::
  "World \<Rightarrow> PatchKnobs \<Rightarrow> range list \<Rightarrow> PatchPass \<Rightarrow> (pass_fail + bool) \<times> PatchPass \<times> range list list" where
  "patch_run w kn bad_ranges p =
     (if flat_mode kn
      then tier_walk (recover_section w (reporting kn) build_flat_pool (flat_budget kn) True) (sections_of bad_ranges) p
      else tiers_walk (\<lambda>tier. recover_section w (reporting kn) (build_tier_handlers tier) PER_HANDLER_BUDGET_SECS
                         (tier + 1 = PATCH_TIERS)) [0..<PATCH_TIERS] (sections_of bad_ranges) p)"

definition patch_init :: PatchPass where
  "patch_init =
     \<lparr>pp_ctx = \<lparr>h_step = 0, h_items = [], h_dropped = [], h_speeds = [], unproductive = 0, wedge_streak = 0,
               cur_speed = SPEED_MAX_KBS, fatal = None\<rparr>,
      pp_board = Map.empty, drive_speed = None, pp_halted = False, wedged_exit = False\<rparr>"

subsection \<open>Progress and outcome\<close>

record PatchProgress =
  pg_kind :: PassKind
  pg_done :: u64
  pg_total :: u64

definition report_patch_progress ::
  "nat \<Rightarrow> bool \<Rightarrow> u64 \<Rightarrow> u64 \<Rightarrow> SharedPatchState \<Rightarrow> PatchProgress" where
  "report_patch_progress initial_batch reverse work skipped sh =
     \<lparr>pg_kind = pass_kind initial_batch reverse, pg_done = work - (damage_in_scope sh - skipped), pg_total = work\<rparr>"

record PatchOutcome =
  po_total :: u64
  po_good :: u64
  po_unreadable :: u64
  po_pending :: u64
  po_recovered :: u64
  po_halted :: bool
  po_wedged :: bool
  wedged_threshold :: u64

definition build_outcome :: "u64 \<Rightarrow> PatchPass \<Rightarrow> MapStats \<Rightarrow> u64 \<Rightarrow> u64 \<Rightarrow> PatchOutcome" where
  "build_outcome good_before p st tot threshold =
     \<lparr>po_total = tot, po_good = bytes_good st, po_unreadable = bytes_unreadable st, po_pending = bytes_pending st,
      po_recovered = bytes_good st - good_before, po_halted = pp_halted p, po_wedged = wedged_exit p,
      wedged_threshold = threshold\<rparr>"

definition settle :: "pass_fail + 'a \<Rightarrow> pass_fail + MapStats \<Rightarrow> bool \<Rightarrow> pass_fail + MapStats" where
  "settle run_result finish_result consumer_failed =
     (case run_result of
        Inr _ \<Rightarrow> finish_result
      | Inl e \<Rightarrow> Inl (pass_failure e finish_result consumer_failed))"

text \<open>\<open>bytes_bad_in_title_from_mapfile\<close>, over the library's \<open>bytes_bad_in_title\<close> of the title.\<close>

definition bad_in_title_from_mapfile :: "(range list \<Rightarrow> u64) \<Rightarrow> io_error + Mapfile \<Rightarrow> u64" where
  "bad_in_title_from_mapfile bad_in_title loaded =
     (case loaded of
        Inl e \<Rightarrow> (if e = NotFound then 0 else bad_in_title [(0, u64_max)])
      | Inr m \<Rightarrow> bad_in_title (ranges_with m bad_sector_statuses))"

subsection \<open>The pass\<close>

record PatchEnv =
  pe_decryptable :: "lib_error + unit"
  pe_skip :: "range list"
  pe_now :: nat
  pe_meta :: metadata
  pe_debussable :: "lib_error + unit"
  pe_id :: DiscIdentity
  pe_capacity :: u64
  pe_image :: metadata
  pe_cancelled :: bool
  pe_reader :: "lib_error + unit"
  pe_open :: "io_error + unit"
  pe_threshold :: u64
  pe_knobs :: PatchKnobs

datatype patch_error =
  PatchGate lib_error | PatchIo io_error | PatchCoverage | ImageTruncated u64 u64 | PatchCancelled | PatchFailed pass_fail

definition patch_io :: "io_error + 'a \<Rightarrow> patch_error + 'a" where
  "patch_io r = (case r of Inl e \<Rightarrow> Inl (PatchIo e) | Inr x \<Rightarrow> Inr x)"

definition patch_gate :: "lib_error + 'a \<Rightarrow> patch_error + 'a" where
  "patch_gate r = (case r of Inl e \<Rightarrow> Inl (PatchGate e) | Inr x \<Rightarrow> Inr x)"

text \<open>Everything a pass refuses before its first read: the state it starts from, its ranges, the work left out.\<close>

definition patch_opened :: "PatchEnv \<Rightarrow> io_error + Mapfile \<Rightarrow> patch_error + InitialState \<times> range list \<times> u64" where
  "patch_opened env loaded =
     bind_res (patch_gate (pe_decryptable env)) (\<lambda>_.
     bind_res (patch_io (compute_initial_state loaded (pe_meta env))) (\<lambda>st.
     bind_res (if scope (is_map st) = None then patch_gate (pe_debussable env) else Inr ()) (\<lambda>_.
     bind_res (patch_io (check_identity (is_map st) (pe_id env))) (\<lambda>_.
     bind_res (if is_total st \<noteq> pe_capacity env then Inl PatchCoverage else Inr ()) (\<lambda>_.
     bind_res (patch_io (image_state (pe_image env) (is_total st))) (\<lambda>im.
     bind_res (if is_reg st \<and> is_short im then Inl (ImageTruncated (img_len im) (img_want im)) else Inr ()) (\<lambda>_.
     bind_res (if pe_cancelled env then Inl PatchCancelled else Inr ()) (\<lambda>_.
     bind_res (patch_gate (pe_reader env)) (\<lambda>_.
     bind_res (patch_io (pe_open env)) (\<lambda>_.
       case without_skip (pe_skip env) (is_bad st) (is_work st) of
         (bad, work, skipped) \<Rightarrow> Inr (st, bad, skipped)))))))))))"

text \<open>The pass over an opened map: producer, consumer, teardown and result.\<close>

definition patch_pass ::
  "PatchEnv \<Rightarrow> World \<Rightarrow> (nat \<Rightarrow> SinkEnv) \<Rightarrow> JoinEnv \<Rightarrow> InitialState \<Rightarrow> range list \<Rightarrow> ImageSink \<Rightarrow>
   (patch_error + PatchOutcome) \<times> ImageSink" where
  "patch_pass env w ks j st bad s0 =
     (case patch_run w (pe_knobs env) bad patch_init of
        (run_result, p, _) \<Rightarrow>
          (let its = rev (h_items (pp_ctx p))
           in case apply_patches (zip (map ks [0..<length its]) its) s0 of
                (r, s1) \<Rightarrow>
                  (case sweep_finish j r s1 of
                     (finish_result, s2) \<Rightarrow>
                       (case settle run_result finish_result (j_failed j) of
                          Inl e \<Rightarrow> (Inl (PatchFailed e), s2)
                        | Inr summary \<Rightarrow>
                            (Inr (build_outcome (bytes_good (is_stats st)) p summary (is_total st) (pe_threshold env)), s2)))))"

text \<open>\<open>loaded\<close> is the result of loading the map beside the image.\<close>

definition patch_linked ::
  "PatchEnv \<Rightarrow> World \<Rightarrow> (nat \<Rightarrow> SinkEnv) \<Rightarrow> JoinEnv \<Rightarrow> io_error + Mapfile \<Rightarrow> (nat \<Rightarrow> nat) \<Rightarrow> (nat \<Rightarrow> nat) \<Rightarrow> fs \<Rightarrow>
   (patch_error + PatchOutcome) \<times> ImageSink option" where
  "patch_linked env w ks j loaded img dur f =
     (case patch_opened env loaded of
        Inl e \<Rightarrow> (Inl e, None)
      | Inr (st, bad, skipped) \<Rightarrow>
          (case patch_pass env w ks j st bad
                  \<lparr>sk_img = img, sk_dur = dur, sk_map = is_map st, sk_fs = f, is_regular = is_reg st\<rparr> of
             (r, s) \<Rightarrow> (r, Some s)))"

end
