(* ===== verification/PatchInv.thy ===== *)
theory PatchInv
  imports ChainInv Patch SweepLinkInv
begin

text \<open>
  What a patch pass keeps: the log of what its producer hands over (every recovered span is damage, holds
  the disc's bytes and is never marked bad again), and the image and map behind it, whatever read, hand-off
  or write fails.
\<close>

subsection \<open>The log of a pass\<close>

definition is_recovered :: "patch_item \<Rightarrow> bool" where
  "is_recovered it = (case it of Recovered _ _ \<Rightarrow> True | MarkNonTrimmed _ _ \<Rightarrow> False)"

definition mark_ok :: "nat set \<Rightarrow> patch_item \<Rightarrow> bool" where
  "mark_ok D it =
     (case it of
        Recovered _ _ \<Rightarrow> False
      | MarkNonTrimmed p n \<Rightarrow> SECTOR dvd p \<and> SECTOR dvd n \<and> 0 < n \<and> {p ..< p + n} \<subseteq> D)"

definition item_valid :: "(nat \<Rightarrow> nat) \<Rightarrow> nat set \<Rightarrow> patch_item \<Rightarrow> bool" where
  "item_valid disc D it = (item_sound disc D it \<or> mark_ok D it)"

text \<open>A residue item covers nothing recovered before it. The log has the newest item first.\<close>

definition fresh_mark :: "patch_item \<Rightarrow> patch_item \<Rightarrow> bool" where
  "fresh_mark new old = (\<not> is_recovered new \<and> is_recovered old \<longrightarrow> patch_bytes new \<inter> patch_bytes old = {})"

definition log_sound :: "(nat \<Rightarrow> nat) \<Rightarrow> nat set \<Rightarrow> patch_item list \<Rightarrow> bool" where
  "log_sound disc D its = ((\<forall>it \<in> set its. item_valid disc D it) \<and> sorted_wrt fresh_mark its)"

text \<open>The sections: disjoint well-formed parts of the damage, with nothing recovered in them.\<close>

definition secs_ok :: "nat set \<Rightarrow> range list list \<Rightarrow> bool" where
  "secs_ok D ss = ((\<forall>s \<in> set ss. sub_ok s \<and> bytes_of s \<subseteq> D) \<and>
     sorted_wrt (\<lambda>a b. bytes_of a \<inter> bytes_of b = {}) ss)"

definition pass_inv :: "(nat \<Rightarrow> nat) \<Rightarrow> nat set \<Rightarrow> range list list \<Rightarrow> patch_item list \<Rightarrow> bool" where
  "pass_inv disc D ss its \<longleftrightarrow> log_sound disc D its \<and> secs_ok D ss \<and>
     (\<forall>s \<in> set ss. \<forall>it \<in> set its. is_recovered it \<longrightarrow> patch_bytes it \<inter> bytes_of s = {})"

text \<open>What one visit of a section does: it recovers, then marks what is left.\<close>

definition visit_ok :: "(nat \<Rightarrow> nat) \<Rightarrow> range list \<Rightarrow> patch_item list \<Rightarrow> range list \<Rightarrow> patch_item list \<Rightarrow> bool" where
  "visit_ok disc s its s' its' \<longleftrightarrow> sub_ok s' \<and> bytes_of s' \<subseteq> bytes_of s \<and>
     (\<exists>marks recs. its' = marks @ recs @ its \<and> (\<forall>it \<in> set marks. mark_ok (bytes_of s') it) \<and>
        (\<forall>it \<in> set recs. item_sound disc (bytes_of s) it \<and> patch_bytes it \<inter> bytes_of s' = {}))"

lemma sound_recovered: "item_sound disc D it \<Longrightarrow> is_recovered it \<and> patch_bytes it \<subseteq> D"
  by (auto simp: item_sound_def is_recovered_def split: patch_item.splits)

lemma mark_not_recovered: "mark_ok D it \<Longrightarrow> \<not> is_recovered it \<and> patch_bytes it \<subseteq> D"
  by (auto simp: mark_ok_def is_recovered_def split: patch_item.splits)

lemma item_mono: "D \<subseteq> E \<Longrightarrow> item_sound disc D it \<Longrightarrow> item_sound disc E it"
  "D \<subseteq> E \<Longrightarrow> mark_ok D it \<Longrightarrow> mark_ok E it"
  by (auto simp: item_sound_def mark_ok_def split: patch_item.splits)

lemma visit_keeps:
  assumes inv: "pass_inv disc D (pre @ s # post) its" and visit: "visit_ok disc s its s' its'"
  shows "pass_inv disc D (pre @ s' # post) its'"
proof -
  obtain marks recs where its': "its' = marks @ recs @ its" and s': "sub_ok s'" "bytes_of s' \<subseteq> bytes_of s"
    and marks: "\<forall>it \<in> set marks. mark_ok (bytes_of s') it"
    and recs: "\<forall>it \<in> set recs. item_sound disc (bytes_of s) it \<and> patch_bytes it \<inter> bytes_of s' = {}"
    using visit by (auto simp: visit_ok_def)
  have log: "\<forall>it \<in> set its. item_valid disc D it" "sorted_wrt fresh_mark its"
    and secs: "\<forall>x \<in> set (pre @ s # post). sub_ok x \<and> bytes_of x \<subseteq> D"
      "sorted_wrt (\<lambda>a b. bytes_of a \<inter> bytes_of b = {}) (pre @ s # post)"
    and clear: "\<forall>x \<in> set (pre @ s # post). \<forall>it \<in> set its. is_recovered it \<longrightarrow> patch_bytes it \<inter> bytes_of x = {}"
    using inv by (auto simp: pass_inv_def log_sound_def secs_ok_def)
  have sD: "bytes_of s \<subseteq> D" using secs(1) by simp
  have valid: "\<forall>it \<in> set its'. item_valid disc D it"
    using log(1) marks recs item_mono(1) [OF sD] item_mono(2) [OF order_trans [OF s'(2) sD]]
    by (auto simp: its' item_valid_def)
  have fresh_m: "fresh_mark m x" if "m \<in> set marks" "x \<in> set (marks @ recs @ its)" for m x
  proof -
    have m: "patch_bytes m \<subseteq> bytes_of s'" using mark_not_recovered marks that(1) by blast
    have "\<not> is_recovered x \<or> patch_bytes x \<inter> bytes_of s' = {}"
      using that(2) marks mark_not_recovered recs clear s'(2) by (auto; blast)
    then show ?thesis using m by (auto simp: fresh_mark_def)
  qed
  have fresh_r: "fresh_mark x y" if "x \<in> set recs" for x y
    using that recs sound_recovered by (auto simp: fresh_mark_def)
  have "sorted_wrt fresh_mark marks" "sorted_wrt fresh_mark recs"
    using fresh_m fresh_r by (auto simp: sorted_wrt_iff_nth_less)
  then have sorted: "sorted_wrt fresh_mark its'"
    using log(2) fresh_m fresh_r by (auto simp: its' sorted_wrt_append)
  have others: "bytes_of x \<inter> bytes_of s = {}" if "x \<in> set pre \<union> set post" for x
    using secs(2) that by (auto simp: sorted_wrt_append)
  then have "bytes_of x \<inter> bytes_of s' = {}" if "x \<in> set pre \<union> set post" for x
    using that s'(2) by blast
  then have "secs_ok D (pre @ s' # post)"
    using secs s'(1) order_trans [OF s'(2) sD] by (simp add: secs_ok_def sorted_wrt_append Int_commute)
  moreover have "patch_bytes it \<inter> bytes_of x = {}"
    if "x \<in> set (pre @ s' # post)" "it \<in> set its'" "is_recovered it" for x it
  proof (cases "it \<in> set its")
    case True
    then show ?thesis using clear that(1,3) s'(2) by (auto; blast)
  next
    case False
    then have r: "it \<in> set recs" using that marks mark_not_recovered by (auto simp: its')
    then have "patch_bytes it \<subseteq> bytes_of s" using recs sound_recovered by blast
    then show ?thesis using that(1) r recs others by (auto; blast)
  qed
  ultimately show ?thesis using valid sorted by (simp add: pass_inv_def log_sound_def)
qed

lemma visit_stay: "sub_ok s \<Longrightarrow> visit_ok disc s its s its"
  unfolding visit_ok_def by (intro conjI exI [of _ "[]"]) auto

subsection \<open>One visit\<close>

abbreviation items_of :: "PatchPass \<Rightarrow> patch_item list" where
  "items_of p \<equiv> h_items (pp_ctx p)"

lemma send_residue_marks:
  assumes "\<forall>r \<in> set rs. SECTOR dvd fst r \<and> SECTOR dvd snd r \<and> 0 < snd r \<and> {fst r ..< fst r + snd r} \<subseteq> D"
    and "send_residue w rs c = (r, c')"
  shows "\<exists>marks. h_items c' = marks @ h_items c \<and> (\<forall>it \<in> set marks. mark_ok D it)"
  using assms
proof (induction w rs c rule: send_residue.induct)
  case (2 w x rs c)
  show ?case
  proof (cases "send_item (o_send (w_obs w (h_step c)))")
    case (Inl e)
    then show ?thesis using 2(3) by (auto simp: Let_def)
  next
    case (Inr u)
    let ?c = "c\<lparr>h_step := h_step c + 1, h_items := MarkNonTrimmed (fst x) (snd x) # h_items c\<rparr>"
    have "send_residue w rs ?c = (r, c')" using 2(3) Inr by (simp add: Let_def)
    then have "\<exists>marks. h_items c' = marks @ MarkNonTrimmed (fst x) (snd x) # h_items c \<and> (\<forall>it \<in> set marks. mark_ok D it)"
      using 2(1) [OF refl Inr] 2(2) by simp
    then obtain marks where "h_items c' = (marks @ [MarkNonTrimmed (fst x) (snd x)]) @ h_items c"
      "\<forall>it \<in> set marks. mark_ok D it" by auto
    then show ?thesis using 2(2) by (intro exI [of _ "marks @ [MarkNonTrimmed (fst x) (snd x)]"]) (auto simp: mark_ok_def)
  qed
qed auto

lemma section_parts: "sub_ok s \<Longrightarrow> \<forall>r \<in> set s. SECTOR dvd fst r \<and> SECTOR dvd snd r \<and> 0 < snd r \<and>
    {fst r ..< fst r + snd r} \<subseteq> bytes_of s"
  using range_part sep_from_fits [of 0 s] by (fastforce simp: sub_ok_def)

lemma region_end_items: "region_end rep w out p = (r, p') \<Longrightarrow> items_of p' = items_of p"
  by (auto simp: region_end_def token_def Let_def split: if_splits HandlerOutcome.splits)

lemma recover_section_visit:
  assumes "honest disc w" and bad: "sub_ok bad" "addressable (bytes_of bad)"
    and run: "recover_section w rep hs budget final p bad = (r, p', bad')"
  shows "visit_ok disc bad (items_of p) bad' (items_of p')"
proof (cases "o_halted (w_obs w (h_step (pp_ctx p)))")
  case True
  then show ?thesis using run visit_stay [OF bad(1)] by (auto simp: recover_section_def token_def)
next
  case False
  define c0 where "c0 = enter_range (drive_speed p) ((pp_ctx p)\<lparr>h_step := h_step (pp_ctx p) + 1\<rparr>)"
  have c0: "h_items c0 = items_of p" by (simp add: c0_def enter_range_def)
  obtain out c bad1 b where ch: "run_handlers w budget hs c0 bad (pp_board p) = (out, c, bad1, b)"
    by (rule prod_cases4)
  obtain its where acc: "h_items c = its @ items_of p" "sub_ok bad1" "bytes_of bad1 \<subseteq> bytes_of bad"
    "\<forall>it \<in> set its. item_sound disc (bytes_of bad) it \<and> patch_bytes it \<inter> bytes_of bad1 = {}"
    using run_sorted_ok [OF bad(2) order_refl bad(1) ch [unfolded run_handlers_def], of disc] assms(1) c0
    by (auto simp: accounted_def)
  have plain: "visit_ok disc bad (items_of p) bad1 (marks @ its @ items_of p)"
    if "\<forall>it \<in> set marks. mark_ok (bytes_of bad1) it" for marks
    using acc that by (auto simp: visit_ok_def)
  define q where "q = p\<lparr>pp_ctx := c\<lparr>fatal := None\<rparr>, pp_board := b, drive_speed := Some (cur_speed c)\<rparr>"
  have q: "items_of q = its @ items_of p" using acc(1) by (simp add: q_def)
  obtain sr c2 where res: "(if final then send_residue w bad1 (pp_ctx q) else (Inr (), pp_ctx q)) = (sr, c2)"
    by (rule prod.exhaust)
  obtain marks where marks: "h_items c2 = marks @ items_of q" "\<forall>it \<in> set marks. mark_ok (bytes_of bad1) it"
  proof (cases final)
    case True
    then show ?thesis using that res send_residue_marks [OF section_parts [OF acc(2)], of w "pp_ctx q" sr c2] by auto
  next
    case False
    then show ?thesis using that [of "[]"] res by auto
  qed
  have eq: "(r, p', bad') =
      (case fatal c of
         Some e \<Rightarrow> (Inl e, q, bad1)
       | None \<Rightarrow>
           (case (sr, c2) of
              (Inl None, c) \<Rightarrow> (Inr RegionHalted, q\<lparr>pp_ctx := c, pp_halted := True\<rparr>, bad1)
            | (Inl (Some e), c) \<Rightarrow> (Inl e, q\<lparr>pp_ctx := c\<rparr>, bad1)
            | (Inr _, c) \<Rightarrow> (case region_end rep w out (q\<lparr>pp_ctx := c\<rparr>) of (r, p) \<Rightarrow> (r, p, bad1))))"
    using run ch [unfolded c0_def] False
    unfolding recover_section_def token_def res [symmetric] q_def by (simp add: Let_def)
  have out: "bad' = bad1 \<and> (items_of p' = items_of q \<or> items_of p' = h_items c2)"
  proof (cases "region_end rep w out (q\<lparr>pp_ctx := c2\<rparr>)")
    case (Pair r3 p3)
    then show ?thesis using eq region_end_items [OF Pair] by (auto split: option.splits sum.splits)
  qed
  then show ?thesis
    using plain [of "[]"] plain [OF marks(2)] marks(1) q by auto
qed

subsection \<open>The walks\<close>

lemma tier_walk_keeps:
  assumes step: "\<And>p s r p' s'. f p s = (r, p', s') \<Longrightarrow> sub_ok s \<Longrightarrow> bytes_of s \<subseteq> D \<Longrightarrow>
      visit_ok disc s (items_of p) s' (items_of p')"
  shows "pass_inv disc D (pre @ ss) (items_of p) \<Longrightarrow> tier_walk f ss p = (r, p', ss') \<Longrightarrow>
    pass_inv disc D (pre @ ss') (items_of p')"
proof (induction ss arbitrary: pre p r p' ss')
  case (Cons s ss)
  have s: "sub_ok s" "bytes_of s \<subseteq> D" using Cons.prems(1) by (auto simp: pass_inv_def secs_ok_def)
  show ?case
  proof (cases "s = []")
    case True
    obtain r1 p1 ss1 where rest: "tier_walk f ss p = (r1, p1, ss1)" by (rule prod_cases3)
    then have "p' = p1 \<and> ss' = s # ss1" using Cons.prems(2) True by simp
    then show ?thesis using Cons.IH [of "pre @ [s]" p r1 p1 ss1] Cons.prems(1) rest by simp
  next
    case False
    obtain o1 p1 s1 where one: "f p s = (o1, p1, s1)" by (rule prod_cases3)
    have kept: "pass_inv disc D (pre @ s1 # ss) (items_of p1)"
      by (rule visit_keeps [OF Cons.prems(1) step [OF one s]])
    show ?thesis
    proof (cases "o1 = Inr RegionCompleted")
      case True
      obtain r2 p2 ss2 where rest: "tier_walk f ss p1 = (r2, p2, ss2)" by (rule prod_cases3)
      then have "p' = p2 \<and> ss' = s1 # ss2" using Cons.prems(2) False one True by simp
      then show ?thesis using Cons.IH [of "pre @ [s1]" p1 r2 p2 ss2] kept rest by simp
    next
      case other: False
      then have "p' = p1 \<and> ss' = s1 # ss" using Cons.prems(2) False one by (auto split: sum.splits if_splits)
      then show ?thesis using kept by simp
    qed
  qed
qed simp

lemma tiers_walk_keeps:
  assumes step: "\<And>t p s r p' s'. f t p s = (r, p', s') \<Longrightarrow> sub_ok s \<Longrightarrow> bytes_of s \<subseteq> D \<Longrightarrow>
      visit_ok disc s (items_of p) s' (items_of p')"
  shows "pass_inv disc D ss (items_of p) \<Longrightarrow> tiers_walk f ts ss p = (r, p', ss') \<Longrightarrow>
    pass_inv disc D ss' (items_of p')"
proof (induction ts arbitrary: ss p)
  case (Cons t ts)
  obtain r1 p1 ss1 where one: "tier_walk (f t) ss p = (r1, p1, ss1)" by (rule prod_cases3)
  have kept: "pass_inv disc D ss1 (items_of p1)"
    using tier_walk_keeps [where pre = "[]" and f = "f t" and D = D, OF step] Cons.prems(1) one by simp
  show ?case
  proof (cases "r1 = Inr True")
    case True
    then show ?thesis using Cons.IH [OF kept] Cons.prems(2) one by simp
  next
    case False
    then have "p' = p1 \<and> ss' = ss1" using Cons.prems(2) one by (auto split: sum.splits bool.splits)
    then show ?thesis using kept by simp
  qed
qed simp

subsection \<open>The consumer\<close>

fun pi_pos :: "patch_item \<Rightarrow> nat" where
  "pi_pos (Recovered p buf) = p" | "pi_pos (MarkNonTrimmed p n) = p"

fun pi_len :: "patch_item \<Rightarrow> nat" where
  "pi_len (Recovered p buf) = length buf" | "pi_len (MarkNonTrimmed p n) = n"

definition pi_status :: "patch_item \<Rightarrow> SectorStatus" where
  "pi_status it = (if is_recovered it then Finished else NonTrimmed)"

lemma patch_bytes_eq: "patch_bytes it = {pi_pos it ..< pi_pos it + pi_len it}"
  by (cases it) auto

lemma item_valid_span:
  assumes "item_valid disc D it" and "\<forall>b \<in> D. b < total_size m"
  shows "span_ok m (pi_pos it) (pi_len it)"
proof -
  have "patch_bytes it \<subseteq> D" "0 < pi_len it" "SECTOR dvd pi_pos it" "SECTOR dvd pi_len it"
    using assms(1) by (cases it; auto simp: item_valid_def item_sound_def mark_ok_def)+
  moreover from this have "pi_pos it + pi_len it - 1 \<in> D" by (auto simp: patch_bytes_eq)
  ultimately show ?thesis using assms(2) by (auto simp: span_ok_def)
qed

lemma patch_apply_effect:
  assumes inv: "map_inv (sk_map s)" and it: "item_valid disc D it" and sp: "span_ok (sk_map s) (pi_pos it) (pi_len it)"
    and run: "patch_apply env it s = (r, s')"
  shows "item_effect (pi_pos it) (pi_len it) (if is_recovered it then disc else sk_img s) (pi_status it) s r s'"
proof -
  define s1 where "s1 = (if k_disown env then s\<lparr>sk_map := (sk_map s)\<lparr>disowned := True\<rparr>\<rparr> else s)"
  have inv1: "map_inv (sk_map s1)" using inv by (simp add: s1_def)
  have sp1: "span_ok (sk_map s1) p n = span_ok (sk_map s) p n" for p n by (simp add: s1_def span_ok_def)
  have same: "item_effect p n v st s r s' = item_effect p n v st s1 r s'" "sk_img s1 = sk_img s" for p n v st
    by (simp_all add: item_effect_def s1_def)
  show ?thesis
  proof (cases "disowned (sk_map s1)")
    case True
    then have "r = Inr Stop" "s' = s1" using run by (auto simp: patch_apply_def Let_def s1_def)
    then show ?thesis using inv1 unfolding same by (intro not_recorded) simp_all
  next
    case go: False
    show ?thesis
    proof (cases it)
      case (Recovered p buf)
      then have "apply_good env p buf s1 = (r, s')" using run go unfolding patch_apply_def Let_def s1_def by simp
      moreover have "buf = map disc [p ..< p + length buf]"
        using it Recovered by (simp add: item_valid_def item_sound_def mark_ok_def)
      ultimately show ?thesis
        using sp Recovered unfolding same by (auto intro!: apply_good_effect [OF inv1] simp: sp1 is_recovered_def pi_status_def)
    next
      case (MarkNonTrimmed p n)
      then have "record_item (k_rec env) p n NonTrimmed s1 = (r, s')"
        using run go unfolding patch_apply_def Let_def s1_def by simp
      then have "item_effect p n (sk_img s1) NonTrimmed s1 r s'"
        using sp MarkNonTrimmed by (intro record_item_effect [OF inv1]) (auto simp: sp1)
      then show ?thesis using MarkNonTrimmed unfolding same by (simp add: is_recovered_def pi_status_def)
    qed
  qed
qed

text \<open>What one item, applied or not, does to an image that is right where the map says so.\<close>

lemma patch_apply_ok:
  assumes ok: "image_ok disc s" and it: "item_valid disc D it" and fits: "\<forall>b \<in> D. b < total_size (sk_map s)"
    and mark: "\<not> is_recovered it \<longrightarrow> (\<forall>b \<in> patch_bytes it. sk_look s b \<noteq> Some Finished)"
    and run: "patch_apply env it s = (r, s')"
  shows "image_ok disc s'" and "total_size (sk_map s') = total_size (sk_map s)" and "scope (sk_map s') = scope (sk_map s)"
    and "b \<notin> patch_bytes it \<Longrightarrow> sk_look s' b = sk_look s b \<and> sk_img s' b = sk_img s b"
    and "sk_look s' b = sk_look s b \<or> sk_look s' b = Some (pi_status it)"
    and "sk_look s b = Some Finished \<Longrightarrow> sk_look s' b = Some Finished"
    and "r = Inr Continue \<Longrightarrow> b \<in> patch_bytes it \<Longrightarrow> sk_look s' b = Some (pi_status it)"
proof -
  have inv: "map_inv (sk_map s)" using ok by (simp add: image_ok_def)
  note eff = patch_apply_effect [OF inv it item_valid_span [OF it fits] run]
  show "image_ok disc s'"
    by (rule image_ok_effect [OF ok eff]) (use mark in \<open>auto simp: pi_status_def patch_bytes_eq split: if_splits\<close>)
  show tot: "total_size (sk_map s') = total_size (sk_map s)" "scope (sk_map s') = scope (sk_map s)"
    using eff by (simp_all add: item_effect_def)
  show out: "b \<notin> patch_bytes it \<Longrightarrow> sk_look s' b = sk_look s b \<and> sk_img s' b = sk_img s b"
    using eff by (auto simp: item_effect_def patch_bytes_eq not_le not_less)
  have ins: "sk_look s' b = Some (pi_status it) \<or> r \<noteq> Inr Continue \<and> sk_look s' b = sk_look s b"
    if "b \<in> patch_bytes it"
  proof -
    have b: "pi_pos it \<le> b \<and> b < pi_pos it + pi_len it" using that by (simp add: patch_bytes_eq)
    from eff consider "\<forall>b. pi_pos it \<le> b \<and> b < pi_pos it + pi_len it \<longrightarrow> sk_look s' b = Some (pi_status it)"
      | "r \<noteq> Inr Continue" "\<forall>b. pi_pos it \<le> b \<and> b < pi_pos it + pi_len it \<longrightarrow> sk_look s' b = sk_look s b"
      unfolding item_effect_def by blast
    then show ?thesis using b by cases blast+
  qed
  show "sk_look s' b = sk_look s b \<or> sk_look s' b = Some (pi_status it)" using ins out by blast
  show "sk_look s b = Some Finished \<Longrightarrow> sk_look s' b = Some Finished"
    using ins out mark by (cases "b \<in> patch_bytes it"; cases "is_recovered it") (auto simp: pi_status_def)
  show "r = Inr Continue \<Longrightarrow> b \<in> patch_bytes it \<Longrightarrow> sk_look s' b = Some (pi_status it)" using ins by blast
qed

text \<open>All items, oldest first.\<close>

lemma apply_patches_ok:
  assumes "image_ok disc s" and "\<forall>it \<in> set (map snd xs). item_valid disc D it" and "\<forall>b \<in> D. b < total_size (sk_map s)"
    and "\<forall>it \<in> set (map snd xs). \<not> is_recovered it \<longrightarrow> (\<forall>b \<in> patch_bytes it. sk_look s b \<noteq> Some Finished)"
    and "sorted_wrt (\<lambda>old new. fresh_mark new old) (map snd xs)" and "apply_patches xs s = (r, s')"
  shows "image_ok disc s' \<and> total_size (sk_map s') = total_size (sk_map s) \<and> scope (sk_map s') = scope (sk_map s) \<and>
    (\<forall>b. b \<notin> \<Union> (patch_bytes ` set (map snd xs)) \<longrightarrow> sk_look s' b = sk_look s b \<and> sk_img s' b = sk_img s b) \<and>
    (\<forall>b. sk_look s' b = sk_look s b \<or> sk_look s' b = Some Finished \<or> sk_look s' b = Some NonTrimmed) \<and>
    (\<forall>b. sk_look s b = Some Finished \<longrightarrow> sk_look s' b = Some Finished) \<and>
    (r = Inr Continue \<longrightarrow> (\<forall>it \<in> set (map snd xs). \<forall>b \<in> patch_bytes it.
       sk_look s' b = Some Finished \<or> \<not> is_recovered it \<and> sk_look s' b = Some NonTrimmed))"
  using assms
proof (induction xs arbitrary: s)
  case Nil
  then show ?case by auto
next
  case (Cons x xs)
  let ?it = "snd x"
  obtain r1 s1 where step: "patch_apply (fst x) ?it s = (r1, s1)" by fastforce
  have it: "item_valid disc D ?it" "\<not> is_recovered ?it \<longrightarrow> (\<forall>b \<in> patch_bytes ?it. sk_look s b \<noteq> Some Finished)"
    using Cons.prems(2,4) by auto
  note one = patch_apply_ok [OF Cons.prems(1) it(1) Cons.prems(3) it(2) step]
  have st: "pi_status ?it = Finished \<or> pi_status ?it = NonTrimmed" by (simp add: pi_status_def)
  show ?case
  proof (cases "r1 = Inr Continue")
    case False
    then have "r = r1" "s' = s1" using Cons.prems(6) step by (auto split: sum.splits sink_flow.splits)
    then show ?thesis using one False st by simp metis
  next
    case True
    then have rest: "apply_patches xs s1 = (r, s')" using Cons.prems(6) step by simp
    have marks: "\<forall>it \<in> set (map snd xs). \<not> is_recovered it \<longrightarrow> (\<forall>b \<in> patch_bytes it. sk_look s1 b \<noteq> Some Finished)"
    proof (intro ballI impI)
      fix it b assume m: "it \<in> set (map snd xs)" "\<not> is_recovered it" "b \<in> patch_bytes it"
      then have before: "sk_look s b \<noteq> Some Finished" using Cons.prems(4) by auto
      have "fresh_mark it ?it" using Cons.prems(5) m(1) by auto
      then have "b \<notin> patch_bytes ?it \<or> pi_status ?it = NonTrimmed" using m by (auto simp: fresh_mark_def pi_status_def)
      then show "sk_look s1 b \<noteq> Some Finished" using before one(4,5) by (metis SectorStatus.distinct option.inject)
    qed
    have IH: "image_ok disc s' \<and> total_size (sk_map s') = total_size (sk_map s1) \<and> scope (sk_map s') = scope (sk_map s1) \<and>
      (\<forall>b. b \<notin> \<Union> (patch_bytes ` set (map snd xs)) \<longrightarrow> sk_look s' b = sk_look s1 b \<and> sk_img s' b = sk_img s1 b) \<and>
      (\<forall>b. sk_look s' b = sk_look s1 b \<or> sk_look s' b = Some Finished \<or> sk_look s' b = Some NonTrimmed) \<and>
      (\<forall>b. sk_look s1 b = Some Finished \<longrightarrow> sk_look s' b = Some Finished) \<and>
      (r = Inr Continue \<longrightarrow> (\<forall>it \<in> set (map snd xs). \<forall>b \<in> patch_bytes it.
         sk_look s' b = Some Finished \<or> \<not> is_recovered it \<and> sk_look s' b = Some NonTrimmed))"
      using Cons.prems one(1,2) marks rest by (intro Cons.IH) auto
    have own: "sk_look s' b = Some Finished \<or> \<not> is_recovered ?it \<and> sk_look s' b = Some NonTrimmed"
      if "b \<in> patch_bytes ?it" for b
      using one(7) [OF True that] IH by (metis pi_status_def)
    have out: "sk_look s' b = sk_look s b \<and> sk_img s' b = sk_img s b"
      if "b \<notin> \<Union> (patch_bytes ` set (map snd (x # xs)))" for b
      using that one(4) [of b] IH by auto
    have change: "sk_look s' b = sk_look s b \<or> sk_look s' b = Some Finished \<or> sk_look s' b = Some NonTrimmed" for b
      using IH one(5) [of b] st by metis
    have fin: "sk_look s b = Some Finished \<Longrightarrow> sk_look s' b = Some Finished" for b using IH one(6) [of b] by blast
    have all: "r = Inr Continue \<longrightarrow> (\<forall>it \<in> set (map snd (x # xs)). \<forall>b \<in> patch_bytes it.
         sk_look s' b = Some Finished \<or> \<not> is_recovered it \<and> sk_look s' b = Some NonTrimmed)"
      using IH own by auto
    have "image_ok disc s'" "total_size (sk_map s') = total_size (sk_map s)" "scope (sk_map s') = scope (sk_map s)"
      using IH one(2,3) by simp_all
    then show ?thesis using out change fin all by (intro conjI allI impI; blast)
  qed
qed

end
