(* ===== verification/PatchProps.thy ===== *)
theory PatchProps
  imports PatchInv SweepSample
begin

text \<open>
  A patch pass from its gates to its result: what it works on, what it may change in image and map, and
  what the figures it reports mean.
\<close>

subsection \<open>The work list\<close>

text \<open>The damage in scope, less what an unsettled rename keeps.\<close>

definition work_bytes :: "Mapfile \<Rightarrow> range list \<Rightarrow> nat set" where
  "work_bytes m skip =
     {b. (\<exists>s \<in> set damage_sector_statuses. look (entries m) b = Some s) \<and> in_scope m b} - bytes_of skip"

lemma damage_list_ok:
  assumes inv: "map_inv m" and sc: "scope_aligned m"
  defines "bad \<equiv> (case scope m of Some sc \<Rightarrow> intersect (ranges_with m damage_sector_statuses) sc
                    | None \<Rightarrow> ranges_with m damage_sector_statuses)"
  shows "disj_from 0 bad" and "all_aligned bad"
    and "bytes_of bad = {b. (\<exists>s \<in> set damage_sector_statuses. look (entries m) b = Some s) \<and> in_scope m b}"
proof -
  let ?u = "ranges_with m damage_sector_statuses"
  have u: "disj_from 0 ?u" "all_aligned ?u"
    "bytes_of ?u = {b. \<exists>s \<in> set damage_sector_statuses. look (entries m) b = Some s}"
    using ranges_with_correct [OF runs_of_inv [OF inv]] ranges_with_aligned [OF inv] by auto
  have "disj_from 0 bad \<and> all_aligned bad \<and> bytes_of bad = bytes_of ?u \<inter> {b. in_scope m b}"
  proof (cases "scope m")
    case None
    then show ?thesis using u by (auto simp: bad_def in_scope_def)
  next
    case (Some s)
    have s: "disj_from 0 s" "all_aligned s" using sc Some by (auto simp: scope_aligned_def)
    have "disj_from 0 (intersect ?u s)" using intersect_lower [OF u(1) s(1)] by simp
    moreover have "all_aligned (intersect ?u s)"
      using disj_from_ok u(1,2) s by (intro intersect_aligned) blast+
    moreover have "bytes_of (intersect ?u s) = bytes_of ?u \<inter> bytes_of s" by (rule intersect_bytes [OF u(1) s(1)])
    ultimately show ?thesis using Some by (auto simp: bad_def in_scope_def)
  qed
  then show "disj_from 0 bad" "all_aligned bad"
    "bytes_of bad = {b. (\<exists>s \<in> set damage_sector_statuses. look (entries m) b = Some s) \<and> in_scope m b}"
    using u(3) by auto
qed

lemma sum_total: "sum_list (map snd rs) = total_len rs"
  by (simp add: total_len_def)

lemma work_list_ok:
  assumes inv: "map_inv m" and sc: "scope_aligned m" and skip: "ranges_ok skip" "all_aligned skip"
    and st: "compute_initial_state (Inr m) meta = Inr st"
    and w: "without_skip skip (is_bad st) (is_work st) = (bad, work, skipped)"
  shows "disj_from 0 bad" and "all_aligned bad" and "bytes_of bad = work_bytes m skip"
    and "work = card (work_bytes m skip)" and "work + skipped = card (work_bytes m [])" and "is_map st = m"
    and "is_stats st = stats m" and "is_total st = total_size m"
proof -
  have st': "is_map st = m" "is_stats st = stats m" "is_total st = total_size m" "is_work st = sum_list (map snd (is_bad st))"
    "is_bad st = (case scope m of Some sc \<Rightarrow> intersect (ranges_with m damage_sector_statuses) sc
                    | None \<Rightarrow> ranges_with m damage_sector_statuses)"
    using st by (auto simp: compute_initial_state_def Let_def)
  then show "is_map st = m" "is_stats st = stats m" "is_total st = total_size m" by simp_all
  note all = damage_list_ok [OF inv sc, folded st'(5)]
  have all_bytes: "bytes_of (is_bad st) = work_bytes m []" using all(3) by (simp add: work_bytes_def)
  have total: "is_work st = card (work_bytes m [])"
    using total_len_card [OF all(1)] st'(4) all_bytes by (simp add: sum_total)
  have sub: "disj_from 0 (subtract (is_bad st) skip)" "all_aligned (subtract (is_bad st) skip)"
    "bytes_of (subtract (is_bad st) skip) = work_bytes m skip"
    using subtract_correct [OF all(1) skip(1)] subtract_aligned [OF all(1) skip(1) all(2) skip(2)] all_bytes
    by (auto simp: work_bytes_def)
  have fin: "finite (work_bytes m [])" using all_bytes finite_bytes_of by metis
  have "disj_from 0 bad \<and> all_aligned bad \<and> bytes_of bad = work_bytes m skip \<and> work = card (work_bytes m skip) \<and>
      work + skipped = card (work_bytes m [])"
  proof (cases "skip = []")
    case True
    then show ?thesis using w all all_bytes total by (auto simp: without_skip_def)
  next
    case False
    then have b: "bad = subtract (is_bad st) skip" "work = sum_list (map snd bad)" "skipped = is_work st - work"
      using w by (auto simp: without_skip_def Let_def)
    have "work = card (work_bytes m skip)" using total_len_card [OF sub(1)] sub(3) b(1,2) by (simp add: sum_total)
    moreover have "card (work_bytes m skip) \<le> card (work_bytes m [])"
      using fin by (intro card_mono) (auto simp: work_bytes_def)
    ultimately show ?thesis using b sub total by simp
  qed
  then show "disj_from 0 bad" "all_aligned bad" "bytes_of bad = work_bytes m skip" "work = card (work_bytes m skip)"
    "work + skipped = card (work_bytes m [])" by simp_all
qed

subsection \<open>The sections\<close>

lemma snap_aligned_id:
  assumes "aligned (p, n)" and "p + n \<le> u32_max * SECTOR" and "0 < n"
  shows "snap_to_sectors p n = (p, n)"
proof -
  obtain a b where ab: "p = SECTOR * a" "n = SECTOR * b" using assms(1) by (auto simp: aligned_dvd elim!: dvdE)
  have "div_ceil (p + n) SECTOR = a + b"
  proof -
    have "p + n + SECTOR - 1 = (SECTOR - 1) + SECTOR * (a + b)"
      using SECTOR_gt0 unfolding ab distrib_left by linarith
    then show ?thesis by (simp only: div_ceil_def) (simp add: SECTOR_def)
  qed
  then have e: "div_ceil (p + n) SECTOR * SECTOR = p + n" by (simp add: ab distrib_left mult.commute)
  have m: "p mod SECTOR = 0" by (simp add: ab)
  have "p + n \<le> u64_max div SECTOR * SECTOR"
    using assms(2) by (simp add: SECTOR_def u32_max_def u64_max_def)
  then have "min (p + n) (u64_max div SECTOR * SECTOR) = p + n" by simp
  then show ?thesis using assms(3) by (simp add: snap_to_sectors_def Let_def e m)
qed

lemma sorted_wrt_disjoint:
  assumes "distinct xs" and "\<forall>a \<in> set xs. \<forall>b \<in> set xs. a \<noteq> b \<longrightarrow> P a b"
  shows "sorted_wrt P xs"
  using assms by (induction xs) auto

lemma disj_from_distinct:
  "disj_from c rs \<Longrightarrow> distinct rs \<and> (\<forall>a \<in> set rs. \<forall>b \<in> set rs. a \<noteq> b \<longrightarrow>
     {fst a ..< fst a + snd a} \<inter> {fst b ..< fst b + snd b} = {})"
proof (induction c rs rule: disj_from.induct)
  case (2 c p n rs)
  have after: "p + n \<le> fst a" if "a \<in> set rs" for a using disj_from_mem [of "p + n" rs a] 2(2) that by auto
  have "(p, n) \<notin> set rs" using after 2(2) by force
  moreover have "{p ..< p + n} \<inter> {fst a ..< fst a + snd a} = {}" if "a \<in> set rs" for a using after [OF that] by auto
  ultimately show ?case using 2 by (auto simp: Int_commute)
qed simp

lemma sections_ok:
  assumes d: "disj_from 0 bad" "all_aligned bad" and fit: "\<forall>b \<in> bytes_of bad. b < u32_max * SECTOR"
  shows "secs_ok (bytes_of bad) (sections_of bad)"
proof -
  have one: "snap_to_sectors (fst r) (snd r) = r \<and> 0 < snd r" if "r \<in> set bad" for r
  proof -
    have r: "0 < snd r" "aligned (fst r, snd r)" using d that disj_from_mem [OF d(1)] by (auto simp: all_aligned_def)
    then have "fst r + snd r - 1 \<in> bytes_of bad" using that by (auto simp: bytes_of_def intro!: bexI [of _ r])
    then have "fst r + snd r \<le> u32_max * SECTOR" using fit r(1) by fastforce
    then show ?thesis using snap_aligned_id [OF r(2)] r(1) by simp
  qed
  have set: "set (largest_first bad) = set bad" by (simp add: largest_first_def)
  have secs: "sections_of bad = map (\<lambda>r. [r]) (largest_first bad)"
    unfolding sections_of_def
  proof (rule map_cong [OF refl])
    fix r assume "r \<in> set (largest_first bad)"
    then show "(case snap_to_sectors (fst r) (snd r) of (p, n) \<Rightarrow> from_section p n) = [r]"
      using one [of r] unfolding set by (simp add: from_section_def case_prod_beta)
  qed
  have "sub_ok [r] \<and> bytes_of [r] \<subseteq> bytes_of bad" if "r \<in> set bad" for r
  proof -
    have "sep_from 0 [(fst r, snd r)]" using disj_from_mem [OF d(1) that] by (cases r) auto
    moreover have "aligned r" using d(2) that by (simp add: all_aligned_def)
    ultimately show ?thesis using that by (auto simp: sub_ok_def bytes_of_def)
  qed
  moreover have "sorted_wrt (\<lambda>a b. bytes_of [a] \<inter> bytes_of [b] = {}) (largest_first bad)"
    using disj_from_distinct [OF d(1)] set
    by (intro sorted_wrt_disjoint) (auto simp: largest_first_def)
  ultimately show ?thesis using set by (simp add: secs_ok_def secs sorted_wrt_map)
qed

lemma patch_run_log:
  assumes "honest disc w" and d: "disj_from 0 bad" "all_aligned bad" and fit: "\<forall>b \<in> bytes_of bad. b < u32_max * SECTOR"
    and run: "patch_run w kn bad patch_init = (r, p, ss)"
  shows "pass_inv disc (bytes_of bad) ss (items_of p)"
proof -
  have addr: "addressable s" if "s \<subseteq> bytes_of bad" for s
    using that fit unfolding addressable_def by (fastforce simp: mult.commute distrib_left)
  have step: "visit_ok disc s (items_of p) s' (items_of p')"
    if "recover_section w rep hs budget fin p s = (r, p', s')" "sub_ok s" "bytes_of s \<subseteq> bytes_of bad"
    for rep hs budget fin p s r p' s'
    by (rule recover_section_visit [OF assms(1) that(2) addr [OF that(3)] that(1)])
  have start: "pass_inv disc (bytes_of bad) (sections_of bad) (items_of patch_init)"
    using sections_ok [OF d fit] by (simp add: pass_inv_def log_sound_def patch_init_def)
  show ?thesis
  proof (cases "flat_mode kn")
    case True
    then show ?thesis
      using run start tier_walk_keeps [where pre = "[]" and D = "bytes_of bad" and
          f = "recover_section w (reporting kn) build_flat_pool (flat_budget kn) True", OF step]
      by (simp add: patch_run_def)
  next
    case False
    then show ?thesis
      using run start tiers_walk_keeps [where D = "bytes_of bad" and
          f = "\<lambda>tier. recover_section w (reporting kn) (build_tier_handlers tier) PER_HANDLER_BUDGET_SECS (tier + 1 = PATCH_TIERS)",
          OF step]
      by (simp add: patch_run_def)
  qed
qed

subsection \<open>The pass\<close>

lemma sink_close_look: "sink_close env s = (r, s') \<Longrightarrow> sk_look s' = sk_look s"
  by (auto simp: sink_close_def Let_def same_runs_def dest!: flush_keeps split: if_splits prod.splits sum.splits)

lemma sweep_finish_look:
  assumes "sweep_finish j r s = (q, s')"
  shows "sk_look s' = sk_look s"
proof -
  obtain e s1 where e: "(case r of Inl e \<Rightarrow> (Inl e, s) | Inr _ \<Rightarrow> sink_close (j_close j) s) = (e, s1)" by fastforce
  have "sk_look s1 = sk_look s" using e sink_close_look [of "j_close j" s e s1] by (cases r) auto
  moreover have "entries (sk_map s') = entries (sk_map s1)"
    using assms e by (auto simp: sweep_finish_def finish_disowning_def split: option.splits sum.splits prod.splits)
  ultimately show ?thesis by simp
qed

lemma finish_flow: "sweep_finish j r s = (Inr st, s') \<Longrightarrow> \<exists>x. r = Inr x"
  by (cases r) (auto simp: sweep_finish_def finish_disowning_def split: option.splits prod.splits)

text \<open>Everything about a pass over an opened map.\<close>

lemma patch_pass_ok:
  assumes honest: "honest disc w" and img: "image_ok disc s0" and work: "disj_from 0 bad" "all_aligned bad"
    and bad: "\<forall>b \<in> bytes_of bad. b < total_size (sk_map s0) \<and> sk_look s0 b \<noteq> Some Finished"
    and run: "patch_pass env w ks j st bad s0 = (r, s')"
  shows "image_ok disc s' \<and> total_size (sk_map s') = total_size (sk_map s0) \<and> scope (sk_map s') = scope (sk_map s0) \<and>
    (\<forall>b. sk_look s0 b = Some Finished \<longrightarrow> sk_look s' b = Some Finished) \<and>
    (\<forall>b. b \<notin> bytes_of bad \<longrightarrow> sk_look s' b = sk_look s0 b \<and> sk_img s' b = sk_img s0 b) \<and>
    (\<forall>b. sk_look s' b = sk_look s0 b \<or> sk_look s' b = Some Finished \<or> sk_look s' b = Some NonTrimmed) \<and>
    (\<forall>x. r = Inr x \<longrightarrow> (is_regular s' \<longrightarrow> sk_dur s' = sk_img s') \<and>
       (\<exists>p. x = build_outcome (bytes_good (is_stats st)) p (stats (sk_map s')) (is_total st) (pe_threshold env)))"
proof -
  obtain rr p ss where pr: "patch_run w (pe_knobs env) bad patch_init = (rr, p, ss)" by (rule prod_cases3)
  define its where "its = rev (items_of p)"
  obtain q s1 where ap: "apply_patches (zip (map ks [0..<length its]) its) s0 = (q, s1)" by fastforce
  obtain summary s2 where fin: "sweep_finish j q s1 = (summary, s2)" by fastforce
  have res: "s' = s2" "r = (case settle rr summary (j_failed j) of Inl e \<Rightarrow> Inl (PatchFailed e)
      | Inr summary \<Rightarrow> Inr (build_outcome (bytes_good (is_stats st)) p summary (is_total st) (pe_threshold env)))"
    using run pr ap fin by (auto simp: patch_pass_def its_def Let_def split: sum.splits)
  have inv: "map_inv (sk_map s0)" using img by (simp add: image_ok_def)
  then have small: "\<forall>b \<in> bytes_of bad. b < u32_max * SECTOR" using bad by (fastforce simp: map_inv_def)
  have log: "log_sound disc (bytes_of bad) (items_of p)"
    using patch_run_log [OF honest work small pr] by (simp add: pass_inv_def)
  have its: "\<forall>it \<in> set its. item_valid disc (bytes_of bad) it" "sorted_wrt (\<lambda>old new. fresh_mark new old) its"
    using log by (auto simp: its_def log_sound_def sorted_wrt_rev)
  have within: "patch_bytes it \<subseteq> bytes_of bad" if "it \<in> set its" for it
    using its(1) that sound_recovered mark_not_recovered by (fastforce simp: item_valid_def)
  have "\<forall>it \<in> set its. \<not> is_recovered it \<longrightarrow> (\<forall>b \<in> patch_bytes it. sk_look s0 b \<noteq> Some Finished)"
    using within bad by blast
  note a = apply_patches_ok [OF img, unfolded map_fst_zip_items, OF _ _ _ _ ap]
  have a: "image_ok disc s1 \<and> total_size (sk_map s1) = total_size (sk_map s0) \<and> scope (sk_map s1) = scope (sk_map s0) \<and>
    (\<forall>b. b \<notin> \<Union> (patch_bytes ` set its) \<longrightarrow> sk_look s1 b = sk_look s0 b \<and> sk_img s1 b = sk_img s0 b) \<and>
    (\<forall>b. sk_look s1 b = sk_look s0 b \<or> sk_look s1 b = Some Finished \<or> sk_look s1 b = Some NonTrimmed) \<and>
    (\<forall>b. sk_look s0 b = Some Finished \<longrightarrow> sk_look s1 b = Some Finished)"
    using apply_patches_ok [OF img _ _ _ _ ap, of "bytes_of bad", unfolded map_fst_zip_items] its bad
      \<open>\<forall>it \<in> set its. \<not> is_recovered it \<longrightarrow> (\<forall>b \<in> patch_bytes it. sk_look s0 b \<noteq> Some Finished)\<close> by blast
  note f = sweep_finish_ok [OF conjunct1 [OF a] fin] sweep_finish_look [OF fin]
  have look: "sk_look s' = sk_look s1" "sk_img s' = sk_img s1" using f res(1) by simp_all
  have one: "image_ok disc s'" "total_size (sk_map s') = total_size (sk_map s0)" "scope (sk_map s') = scope (sk_map s0)"
    using a f(1) res(1) by simp_all
  have two: "sk_look s0 b = Some Finished \<longrightarrow> sk_look s' b = Some Finished"
    "b \<notin> bytes_of bad \<longrightarrow> sk_look s' b = sk_look s0 b \<and> sk_img s' b = sk_img s0 b"
    "sk_look s' b = sk_look s0 b \<or> sk_look s' b = Some Finished \<or> sk_look s' b = Some NonTrimmed" for b
    using a within unfolding look by blast+
  have three: "(is_regular s' \<longrightarrow> sk_dur s' = sk_img s') \<and>
       (\<exists>p. x = build_outcome (bytes_good (is_stats st)) p (stats (sk_map s')) (is_total st) (pe_threshold env))"
    if rx: "r = Inr x" for x
  proof -
    obtain su where su: "summary = Inr su" "x = build_outcome (bytes_good (is_stats st)) p su (is_total st) (pe_threshold env)"
      using res(2) unfolding rx by (auto simp: settle_def split: sum.splits)
    then have "su = stats (sk_map s2)" "is_regular s1 \<longrightarrow> sk_dur s2 = sk_img s1" "is_regular s2 = is_regular s1"
      "sk_img s2 = sk_img s1" using f(1) by simp_all
    then show ?thesis using su res(1) by auto
  qed
  show ?thesis using one two three by (intro conjI allI; blast)
qed

subsection \<open>The gates\<close>

lemma patch_opened_ok:
  "patch_opened env loaded = Inr (st, bad, skipped) \<Longrightarrow>
     \<exists>m work. loaded = Inr m \<and> compute_initial_state loaded (pe_meta env) = Inr st \<and>
       without_skip (pe_skip env) (is_bad st) (is_work st) = (bad, work, skipped) \<and>
       check_identity m (pe_id env) = Inr () \<and> total_size m = pe_capacity env"
  by (cases loaded)
    (auto simp: patch_opened_def patch_io_def patch_gate_def bind_res_eq_Inr compute_initial_state_def Let_def
      split: sum.splits if_splits prod.splits)

text \<open>Damage is what a patch pass may be asked to read.\<close>

lemma work_not_finished:
  assumes "map_inv m" and "b \<in> work_bytes m skip"
  shows "b < total_size m \<and> look (entries m) b \<noteq> Some Finished"
proof -
  obtain s where "look (entries m) b = Some s" "s \<in> set damage_sector_statuses" using assms(2) by (auto simp: work_bytes_def)
  then show ?thesis using map_inv_look [OF assms(1), of b] by (auto simp: damage_sector_statuses_def)
qed

lemma patch_linked_parts:
  assumes "patch_linked env w ks j (Inr m) img dur f = (r, Some s')" and "resumable disc img m"
    and "ranges_ok (pe_skip env)" and "all_aligned (pe_skip env)"
  obtains st bad work skipped where "patch_opened env (Inr m) = Inr (st, bad, skipped)"
    and "patch_pass env w ks j st bad
      \<lparr>sk_img = img, sk_dur = dur, sk_map = m, sk_fs = f, is_regular = is_reg st\<rparr> = (r, s')"
    and "disj_from 0 bad" "all_aligned bad" "bytes_of bad = work_bytes m (pe_skip env)"
    and "is_stats st = stats m" "is_total st = total_size m" "work = card (work_bytes m (pe_skip env))"
    and "work + skipped = card (work_bytes m [])"
proof -
  obtain st bad skipped where op: "patch_opened env (Inr m) = Inr (st, bad, skipped)"
    using assms(1) by (cases "patch_opened env (Inr m)") (auto simp: patch_linked_def)
  obtain work where w: "compute_initial_state (Inr m) (pe_meta env) = Inr st"
    "without_skip (pe_skip env) (is_bad st) (is_work st) = (bad, work, skipped)"
    using patch_opened_ok [OF op] by auto
  note l = work_list_ok [OF _ _ assms(3,4) w]
  have "map_inv m" "scope_aligned m" using assms(2) by (auto simp: resumable_def)
  note l = l [OF this]
  have "patch_pass env w ks j st bad \<lparr>sk_img = img, sk_dur = dur, sk_map = m, sk_fs = f, is_regular = is_reg st\<rparr> = (r, s')"
    using assms(1) op l(6) by (auto simp: patch_linked_def split: prod.splits)
  then show thesis using that op l by blast
qed

subsection \<open>A small disc\<close>

definition patch_world :: World where
  "patch_world =
     \<lparr>w_obs = (\<lambda>k. \<lparr>o_read = (\<lambda>lba n rec fua. (Inr (n * SECTOR), \<lambda>i. 7)), o_send = sample_pipe, o_fast = False,
                   o_halted = (5 < k), o_now = k\<rparr>),
      w_short = medium_error, w_capacity = 8\<rparr>"

definition patch_env :: PatchEnv where
  "patch_env =
     \<lparr>pe_decryptable = Inr (), pe_skip = [], pe_now = 0, pe_meta = Inr (True, 16384), pe_debussable = Inr (),
      pe_id = \<lparr>d_disc_hash = None, d_vidfp = None, proven = []\<rparr>, pe_capacity = 16384, pe_image = Inr (True, 16384),
      pe_cancelled = False, pe_reader = Inr (), pe_open = Inr (), pe_threshold = 3,
      pe_knobs = \<lparr>flat_mode = False, flat_budget = 12, reporting = True\<rparr>\<rparr>"

definition patch_img :: "nat \<Rightarrow> nat" where
  "patch_img b = (if b < 8192 then 7 else 0)"

lemma patch_honest: "honest (\<lambda>_. 7) patch_world"
  by (auto simp: honest_def patch_world_def)

lemma patch_resumable: "resumable (\<lambda>_. 7) patch_img sample_map"
  using sample_inv(1)
  by (auto simp: resumable_def scope_aligned_def sample_map_def patch_img_def aligned_dvd SECTOR_def u64_max_def)

lemma patch_skip: "ranges_ok (pe_skip patch_env)" "all_aligned (pe_skip patch_env)"
  by (simp_all add: patch_env_def)

lemma sample_opened: "\<exists>x. patch_opened (patch_env\<lparr>pe_skip := sk\<rparr>) (Inr sample_map) = Inr x"
  by (simp add: patch_opened_def patch_env_def patch_gate_def patch_io_def compute_initial_state_def Let_def sample_map_def
      check_identity_def differ_def image_state_def iso_len_from_metadata_def is_short_def output_is_regular_def
      split: option.splits prod.splits)

lemma patch_small_opened: "\<exists>x. patch_opened patch_env (Inr sample_map) = Inr x"
  using sample_opened [of "[]"] by (simp add: patch_env_def)

lemma patch_small_runs:
  obtains r s where "patch_linked patch_env patch_world ks j (Inr sample_map) patch_img dur f = (r, Some s)"
  using patch_small_opened by (fastforce simp: patch_linked_def split: prod.splits)

text \<open>The same pass with all its damage held by an unsettled rename: nothing to read.\<close>

definition idle_env :: PatchEnv where
  "idle_env = patch_env\<lparr>pe_skip := [(8192, 4096)]\<rparr>"

lemma idle_skip: "ranges_ok (pe_skip idle_env)" "all_aligned (pe_skip idle_env)"
  by (simp_all add: idle_env_def ranges_ok_def aligned_dvd SECTOR_def u64_max_def)

lemma idle_start:
  obtains st where "compute_initial_state (Inr sample_map) (pe_meta idle_env) = Inr st"
    and "without_skip (pe_skip idle_env) (is_bad st) (is_work st) = ([], 0, 4096)" and "is_map st = sample_map"
    and "is_reg st"
proof -
  have "ranges_with sample_map damage_sector_statuses = [(8192, 4096)]"
    by (simp add: ranges_with_def sample_map_def damage_sector_statuses_def)
  moreover have "intersect [(8192, 4096)] [(0, 14336)] = [(8192, 4096)]"
    by (simp add: intersect.simps Let_def sat_add_def u64_max_def)
  moreover have "subtract [(8192, 4096)] [(8192, 4096)] = []"
    by (simp add: subtract_def cut_one_def Let_def sat_add_def u64_max_def)
  moreover have "scope sample_map = Some [(0, 14336)]" by (simp add: sample_map_def)
  ultimately show thesis
    using that by (simp add: compute_initial_state_def without_skip_def Let_def idle_env_def patch_env_def output_is_regular_def)
qed

lemma idle_runs:
  obtains out s where "patch_linked idle_env patch_world (\<lambda>_. sample_sink_env) small_join (Inr sample_map) patch_img (\<lambda>_. 0)
    sample_fs = (Inr out, Some s)"
proof -
  obtain st where st: "compute_initial_state (Inr sample_map) (pe_meta idle_env) = Inr st"
    "without_skip (pe_skip idle_env) (is_bad st) (is_work st) = ([], 0, 4096)" "is_map st = sample_map" "is_reg st"
    by (rule idle_start)
  obtain x where "patch_opened idle_env (Inr sample_map) = Inr x"
    using sample_opened unfolding idle_env_def by blast
  then have op: "patch_opened idle_env (Inr sample_map) = Inr (st, [], 4096)"
    using st(1,2) by (auto simp: patch_opened_def patch_io_def patch_gate_def bind_res_def split: sum.splits if_splits)
  have run: "patch_run patch_world (pe_knobs idle_env) [] patch_init = (Inr True, patch_init, [])"
    by (simp add: patch_run_def idle_env_def patch_env_def sections_of_def largest_first_def PATCH_TIERS_def upt_conv_Cons)
  show thesis
    using that op run st(3,4)
    by (simp add: patch_linked_def patch_pass_def patch_init_def sweep_finish_def small_join_def sample_sink_env_def
        sink_close_def flush_def clean_def finish_disowning_def settle_def Let_def sample_map_def)
qed

subsection \<open>The properties\<close>

text \<open>
C20: What a patch pass does to a rip, whatever read, hand-off, sync or write fails and wherever a Stop or a wedged
drive ends it: everything the map calls Finished is the disc's byte in the image, no byte that was Finished is marked
otherwise or rewritten, only damage in scope (less what an unsettled rename holds) changes at all, and a byte that
changes is Finished or NonTrimmed after it. The map still covers the same disc with the same scope.
\<close>

theorem patch_integrity:
  assumes "honest disc w" and "resumable disc img m" and "ranges_ok (pe_skip env)" and "all_aligned (pe_skip env)"
    and "patch_linked env w ks j (Inr m) img dur f = (r, Some s')"
  shows "image_ok disc s' \<and> total_size (sk_map s') = total_size m \<and> scope (sk_map s') = scope m \<and>
    (\<forall>b. look (entries m) b = Some Finished \<longrightarrow> sk_look s' b = Some Finished \<and> sk_img s' b = img b) \<and>
    (\<forall>b. b \<notin> work_bytes m (pe_skip env) \<longrightarrow> sk_look s' b = look (entries m) b \<and> sk_img s' b = img b) \<and>
    (\<forall>b. sk_look s' b \<noteq> look (entries m) b \<longrightarrow> sk_look s' b = Some Finished \<or> sk_look s' b = Some NonTrimmed)"
proof -
  obtain st bad where op: "patch_pass env w ks j st bad
      \<lparr>sk_img = img, sk_dur = dur, sk_map = m, sk_fs = f, is_regular = is_reg st\<rparr> = (r, s')"
    and bad: "disj_from 0 bad" "all_aligned bad" "bytes_of bad = work_bytes m (pe_skip env)"
    using patch_linked_parts [OF assms(5,2,3,4)] by metis
  have inv: "map_inv m" "\<forall>b. look (entries m) b = Some Finished \<longrightarrow> img b = disc b"
    using assms(2) by (auto simp: resumable_def)
  have "image_ok disc \<lparr>sk_img = img, sk_dur = dur, sk_map = m, sk_fs = f, is_regular = is_reg st\<rparr>"
    using inv by (simp add: image_ok_def)
  note ok = patch_pass_ok [OF assms(1) this bad(1,2) _ op, simplified, unfolded bad(3)]
  have "\<forall>b \<in> work_bytes m (pe_skip env). b < total_size m \<and> look (entries m) b \<noteq> Some Finished"
    using work_not_finished [OF inv(1)] by blast
  then show ?thesis using ok by blast
qed

theorem patch_integrity_witness:
  "\<exists>r s. patch_linked patch_env patch_world (\<lambda>_. sample_sink_env) small_join (Inr sample_map) patch_img (\<lambda>_. 0) sample_fs = (r, Some s) \<and>
     sk_look s 100 = Some Finished \<and> sk_img s 100 = 7 \<and> sk_look s 13000 = Some NonTried"
proof -
  obtain r s where run: "patch_linked patch_env patch_world (\<lambda>_. sample_sink_env) small_join (Inr sample_map) patch_img
      (\<lambda>_. 0) sample_fs = (r, Some s)" by (rule patch_small_runs)
  have "look (entries sample_map) 100 = Some Finished" "look (entries sample_map) 13000 = Some NonTried" "patch_img 100 = 7"
    by (simp_all add: sample_map_def patch_img_def)
  moreover from this(2) have "13000 \<notin> work_bytes sample_map (pe_skip patch_env)"
    by (simp add: work_bytes_def damage_sector_statuses_def)
  ultimately show ?thesis
    using patch_integrity [OF patch_honest patch_resumable patch_skip run] run by (intro exI conjI) auto
qed

text \<open>
The figures of a patch pass's outcome are those of the map it leaves: the totals of its statuses, and
\<open>bytes_recovered_this_pass\<close> counts exactly the bytes that are Finished now and were not before. When the output is a
regular file, an outcome is only given after the image behind them is on stable storage.
\<close>

theorem patch_figures_exact:
  assumes "honest disc w" and "resumable disc img m" and "ranges_ok (pe_skip env)" and "all_aligned (pe_skip env)"
    and "patch_linked env w ks j (Inr m) img dur f = (Inr out, Some s')"
  shows "po_recovered out = card {b. sk_look s' b = Some Finished \<and> look (entries m) b \<noteq> Some Finished} \<and>
    po_good out = card {b. sk_look s' b = Some Finished} \<and>
    po_unreadable out = card {b. sk_look s' b = Some Unreadable} \<and> po_total out = total_size m \<and>
    (is_regular s' \<longrightarrow> sk_dur s' = sk_img s')"
proof -
  obtain st bad where op: "patch_pass env w ks j st bad
      \<lparr>sk_img = img, sk_dur = dur, sk_map = m, sk_fs = f, is_regular = is_reg st\<rparr> = (Inr out, s')"
    and bad: "disj_from 0 bad" "all_aligned bad" "bytes_of bad = work_bytes m (pe_skip env)"
    and st: "is_stats st = stats m" "is_total st = total_size m"
    using patch_linked_parts [OF assms(5,2,3,4)] by metis
  have inv: "map_inv m" "scope_ok m" "\<forall>b. look (entries m) b = Some Finished \<longrightarrow> img b = disc b"
    using assms(2) by (auto simp: resumable_def scope_aligned_def scope_ok_def)
  have "image_ok disc \<lparr>sk_img = img, sk_dur = dur, sk_map = m, sk_fs = f, is_regular = is_reg st\<rparr>"
    using inv by (simp add: image_ok_def)
  note ok = patch_pass_ok [OF assms(1) this bad(1,2) _ op, simplified, unfolded bad(3)]
  have ok: "map_inv (sk_map s')" "scope (sk_map s') = scope m"
    "\<forall>b. look (entries m) b = Some Finished \<longrightarrow> sk_look s' b = Some Finished" "is_regular s' \<longrightarrow> sk_dur s' = sk_img s'"
    "\<exists>p. out = build_outcome (bytes_good (stats m)) p (stats (sk_map s')) (total_size m) (pe_threshold env)"
    using ok work_not_finished [OF inv(1)] st by (auto simp: image_ok_def)
  have "scope_ok (sk_map s')" using ok(2) inv(2) by (simp add: scope_ok_def)
  note new = stats_counts [OF ok(1) this]
  note old = stats_counts [OF inv(1,2)]
  let ?F = "{b. sk_look s' b = Some Finished}" and ?G = "{b. look (entries m) b = Some Finished}"
  have fin: "finite ?F" by (rule finite_subset [OF _ finite_look [of "entries (sk_map s')"]]) auto
  have sub: "?G \<subseteq> ?F" using ok(3) by auto
  have "{b. sk_look s' b = Some Finished \<and> look (entries m) b \<noteq> Some Finished} = ?F - ?G" by auto
  then have "card {b. sk_look s' b = Some Finished \<and> look (entries m) b \<noteq> Some Finished} = card ?F - card ?G"
    using card_Diff_subset [OF finite_subset [OF sub fin] sub] by simp
  then show ?thesis using ok(4,5) new old by (auto simp: build_outcome_def count_bytes_def)
qed

theorem patch_figures_exact_witness:
  "\<exists>out s. patch_linked idle_env patch_world (\<lambda>_. sample_sink_env) small_join (Inr sample_map) patch_img (\<lambda>_. 0) sample_fs =
     (Inr out, Some s) \<and> po_good out = card {b. sk_look s b = Some Finished} \<and> po_total out = 16384"
proof -
  obtain out s where run: "patch_linked idle_env patch_world (\<lambda>_. sample_sink_env) small_join (Inr sample_map) patch_img
      (\<lambda>_. 0) sample_fs = (Inr out, Some s)" by (rule idle_runs)
  have "total_size sample_map = 16384" by (simp add: sample_map_def)
  then show ?thesis
    using patch_figures_exact [OF patch_honest patch_resumable idle_skip run] run by auto
qed

text \<open>
A patch pass starts exactly when every one of its gates lets it: the key can decrypt, the map loads and names this
disc and mode and covers the disc in the drive, an unscoped image can be read without its bus encryption, the image is
not shorter than the map says when it is a regular file, no Stop is set, and reader and image open.
\<close>

theorem patch_gates_exact:
  "(\<exists>x. patch_opened env loaded = Inr x) \<longleftrightarrow>
   (\<exists>m im. loaded = Inr m \<and> pe_decryptable env = Inr () \<and> (pe_debussable env = Inr () \<or> scope m \<noteq> None) \<and>
      check_identity m (pe_id env) = Inr () \<and> total_size m = pe_capacity env \<and>
      image_state (pe_image env) (total_size m) = Inr im \<and>
      \<not> (output_is_regular (pe_meta env) \<and> img_len im < img_want im) \<and> \<not> pe_cancelled env \<and>
      pe_reader env = Inr () \<and> pe_open env = Inr ())"
proof (cases loaded)
  case (Inl e)
  then show ?thesis
    by (cases "pe_decryptable env") (simp_all add: patch_opened_def compute_initial_state_def patch_io_def patch_gate_def)
next
  case (Inr m)
  have unit: "(x = Inr ()) = (\<exists>u. x = Inr u)" for x :: "'a + unit" by auto
  show ?thesis
    unfolding Inr unit
    by (cases "pe_decryptable env"; cases "pe_debussable env"; cases "check_identity m (pe_id env)";
        cases "image_state (pe_image env) (total_size m)"; cases "pe_reader env"; cases "pe_open env")
      (simp_all add: patch_opened_def patch_io_def patch_gate_def compute_initial_state_def is_short_def Let_def
        split: prod.splits)
qed

theorem patch_gates_exact_witness:
  "check_identity sample_map (pe_id patch_env) = Inr () \<and> total_size sample_map = pe_capacity patch_env"
  using patch_gates_exact [of patch_env "Inr sample_map"] patch_small_opened by simp

text \<open>
The bar of a patch pass counts what the pass has won back: over the map it leaves, the work done it reports is the
number of bytes of its work list that are Finished, out of the size of the work list.
\<close>

theorem patch_progress_exact:
  assumes "honest disc w" and "resumable disc img m" and "ranges_ok (pe_skip env)" and "all_aligned (pe_skip env)"
    and "patch_linked env w ks j (Inr m) img dur f = (r, Some s')"
    and "without_skip (pe_skip env) (is_bad st) (is_work st) = (bad, work, skipped)"
    and "compute_initial_state (Inr m) (pe_meta env) = Inr st"
  shows "pg_done (report_patch_progress ib rv work skipped (shared_from_map (sk_map s'))) =
      card {b \<in> work_bytes m (pe_skip env). sk_look s' b = Some Finished} \<and>
    pg_total (report_patch_progress ib rv work skipped (shared_from_map (sk_map s'))) = card (work_bytes m (pe_skip env))"
proof -
  have inv: "map_inv m" "scope_aligned m" using assms(2) by (auto simp: resumable_def)
  note l = work_list_ok [OF inv assms(3,4,7,6)]
  obtain st' bad' where op: "patch_pass env w ks j st' bad'
      \<lparr>sk_img = img, sk_dur = dur, sk_map = m, sk_fs = f, is_regular = is_reg st'\<rparr> = (r, s')"
    and bad: "disj_from 0 bad'" "all_aligned bad'" "bytes_of bad' = work_bytes m (pe_skip env)"
    using patch_linked_parts [OF assms(5,2,3,4)] by metis
  have "image_ok disc \<lparr>sk_img = img, sk_dur = dur, sk_map = m, sk_fs = f, is_regular = is_reg st'\<rparr>"
    using assms(2) by (auto simp: resumable_def image_ok_def)
  note ok = patch_pass_ok [OF assms(1) this bad(1,2) _ op, simplified, unfolded bad(3)]
  have ok: "map_inv (sk_map s')" "scope (sk_map s') = scope m"
    "\<forall>b. b \<notin> work_bytes m (pe_skip env) \<longrightarrow> sk_look s' b = look (entries m) b"
    "\<forall>b. sk_look s' b = look (entries m) b \<or> sk_look s' b = Some Finished \<or> sk_look s' b = Some NonTrimmed"
    using ok work_not_finished [OF inv(1)] by (auto simp: image_ok_def)
  let ?W = "work_bytes m (pe_skip env)" and ?A = "work_bytes m []" and ?D = "work_bytes (sk_map s') []"
  have scoped: "scope_aligned (sk_map s')" "in_scope (sk_map s') b = in_scope m b" for b
    using inv(2) ok(2) by (auto simp: scope_aligned_def in_scope_def)
  have "damage_in_scope (shared_from_map (sk_map s')) = card ?D"
    using total_len_card [OF damage_list_ok(1) [OF ok(1) scoped(1)]] damage_list_ok(3) [OF ok(1) scoped(1)]
    by (simp add: shared_from_map_def Let_def sum_total work_bytes_def)
  moreover have fin: "finite ?A" "finite ?W" "?W \<subseteq> ?A"
    using finite_bytes_of [of bad'] bad(3) damage_list_ok(3) [OF inv] by (auto simp: work_bytes_def)
  moreover have "?D = (?W - {b \<in> ?W. sk_look s' b = Some Finished}) \<union> (?A - ?W)"
  proof -
    have "b \<in> ?D \<longleftrightarrow> sk_look s' b \<noteq> Some Finished" if "b \<in> ?W" for b
      using that spec [OF ok(4), of b] scoped(2) by (auto simp: work_bytes_def damage_sector_statuses_def)
    moreover have "b \<in> ?D \<longleftrightarrow> b \<in> ?A" if "b \<notin> ?W" for b
      using that ok(3) scoped(2) by (simp add: work_bytes_def)
    ultimately show ?thesis using fin(3) by blast
  qed
  then have "card ?D = card (?W - {b \<in> ?W. sk_look s' b = Some Finished}) + card (?A - ?W)"
    using fin by (simp add: card_Un_disjoint Int_Diff disjoint_iff)
  moreover have "card (?A - ?W) = card ?A - card ?W" using fin by (simp add: card_Diff_subset)
  moreover have "card (?W - {b \<in> ?W. sk_look s' b = Some Finished}) = card ?W - card {b \<in> ?W. sk_look s' b = Some Finished}"
    using fin by (intro card_Diff_subset) auto
  moreover have "card {b \<in> ?W. sk_look s' b = Some Finished} \<le> card ?W" using fin by (intro card_mono) auto
  ultimately show ?thesis using l(4,5) by (simp add: report_patch_progress_def)
qed

theorem patch_progress_exact_witness:
  "\<exists>r s. patch_linked idle_env patch_world (\<lambda>_. sample_sink_env) small_join (Inr sample_map) patch_img (\<lambda>_. 0) sample_fs =
     (r, Some s) \<and> pg_total (report_patch_progress 1 False 0 4096 (shared_from_map (sk_map s))) = card (work_bytes sample_map [(8192, 4096)])"
proof -
  obtain out s where run: "patch_linked idle_env patch_world (\<lambda>_. sample_sink_env) small_join (Inr sample_map) patch_img
      (\<lambda>_. 0) sample_fs = (Inr out, Some s)" by (rule idle_runs)
  obtain st where st: "compute_initial_state (Inr sample_map) (pe_meta idle_env) = Inr st"
    "without_skip (pe_skip idle_env) (is_bad st) (is_work st) = ([], 0, 4096)" by (rule idle_start)
  have "pe_skip idle_env = [(8192, 4096)]" by (simp add: idle_env_def)
  then show ?thesis
    using patch_progress_exact [OF patch_honest patch_resumable idle_skip run st(2,1), of 1 False] run by auto
qed

end
