(* ===== verification/Loss.thy ===== *)
theory Loss
  imports Float64 MapfileCore
begin

text \<open>
  What a recovery decides with (\<open>src/src/multipass.rs\<close>, \<open>src/src/outcome.rs\<close>): the playback time a
  title lost, the abort-on-loss gate, the damage tier, the pass plan and the rules that end the patch
  passes. The functions are pure; the loop that composes them is in theory \<open>Multipass\<close>.
\<close>

subsection \<open>Titles\<close>

text \<open>
  A title as the scan reports it, with what these rules read of it. \<open>t_bad_in\<close> is the library's
  \<open>bytes_bad_in_title\<close> of the title.
\<close>

datatype Resolution =
  R480i | R480p | R576i | R576p | R720p | R1080i | R1080p | R2160p | R4320p | ResUnknown

datatype ContentFormat = MpegPs | DvdPs | BdTs

datatype TitleStream = VideoStream bool Resolution | OtherStream

record Title =
  t_size :: u64
  t_extents :: "(nat \<times> nat) list"
  t_duration :: f64
  t_clips :: "f64 list"
  t_streams :: "TitleStream list"
  t_format :: ContentFormat
  t_bad_in :: "range list \<Rightarrow> u64"

text \<open>The sums of the source: \<open>u64\<close> sums wrap, \<open>f64\<close> sums add up from the left.\<close>

definition wsum :: "nat list \<Rightarrow> nat" where
  "wsum xs = foldl wadd 0 xs"

definition f64_sum :: "f64 list \<Rightarrow> f64" where
  "f64_sum xs = foldl f64_add (Fin 0) xs"

definition MILLIS_PER_SEC :: f64 where "MILLIS_PER_SEC = Fin 1000"
definition SD_BYTES_PER_SEC :: f64 where "SD_BYTES_PER_SEC = Fin 750000"
definition HD_BYTES_PER_SEC :: f64 where "HD_BYTES_PER_SEC = Fin 3750000"
definition UHD_BYTES_PER_SEC :: f64 where "UHD_BYTES_PER_SEC = Fin 7500000"

definition usable :: "f64 \<Rightarrow> bool" where
  "usable d = (is_finite d \<and> f64_less (Fin 0) d)"

definition main_video :: "TitleStream list \<Rightarrow> Resolution option" where
  "main_video ss =
     (case filter (\<lambda>s. case s of VideoStream secondary _ \<Rightarrow> \<not> secondary | OtherStream \<Rightarrow> False) ss of
        VideoStream _ r # _ \<Rightarrow> Some r | _ \<Rightarrow> None)"

definition format_bytes_per_sec :: "Title \<Rightarrow> f64" where
  "format_bytes_per_sec t =
     (let by_format = (if t_format t = BdTs then HD_BYTES_PER_SEC else SD_BYTES_PER_SEC)
      in case main_video (t_streams t) of
           None \<Rightarrow> by_format
         | Some r \<Rightarrow>
             (if r = R2160p \<or> r = R4320p then UHD_BYTES_PER_SEC
              else if r = R720p \<or> r = R1080i \<or> r = R1080p then HD_BYTES_PER_SEC
              else if r = ResUnknown then by_format
              else SD_BYTES_PER_SEC))"

definition title_bytes_per_sec :: "Title \<Rightarrow> f64" where
  "title_bytes_per_sec t =
     (let size = (if t_size t > 0 then t_size t else wsum (map (\<lambda>e. snd e * SECTOR) (t_extents t)));
          duration = (if usable (t_duration t) then t_duration t else f64_sum (filter usable (t_clips t)));
          bps = f64_div (f64_of_nat size) duration
      in if size > 0 \<and> usable duration \<and> usable bps then bps else format_bytes_per_sec t)"

definition lost_ms_in_title :: "Title \<Rightarrow> u64 \<Rightarrow> f64" where
  "lost_ms_in_title t bad =
     (if bad = 0 then Fin 0
      else f64_mul (f64_div (f64_of_nat bad) (title_bytes_per_sec t)) MILLIS_PER_SEC)"

subsection \<open>The loss gate\<close>

definition should_abort_for_loss :: "f64 \<Rightarrow> f64 \<Rightarrow> bool" where
  "should_abort_for_loss lost_ms threshold = (is_finite lost_ms \<and> f64_less threshold lost_ms)"

definition loss_aborts :: "u64 \<Rightarrow> f64 \<Rightarrow> u64 \<Rightarrow> bool" where
  "loss_aborts lost_bytes lost_ms secs =
     (if secs = 0 then lost_bytes > 0 \<or> is_nan lost_ms
      else should_abort_for_loss lost_ms (f64_mul (f64_of_nat secs) MILLIS_PER_SEC))"

definition effective_abort_secs :: "bool \<Rightarrow> u64 \<Rightarrow> u64" where
  "effective_abort_secs is_iso configured = (if is_iso then 0 else configured)"

definition abort_lost_bytes :: "bool \<Rightarrow> Title \<Rightarrow> range list \<Rightarrow> u64" where
  "abort_lost_bytes is_iso t bad = (if is_iso then wsum (map snd bad) else t_bad_in t bad)"

definition loss_is_unscopable :: "bool \<Rightarrow> Title \<Rightarrow> range list \<Rightarrow> bool" where
  "loss_is_unscopable is_iso t bad = (\<not> is_iso \<and> t_extents t = [] \<and> bad \<noteq> [])"

definition abort_lost_ms :: "bool \<Rightarrow> Title \<Rightarrow> range list \<Rightarrow> f64 \<Rightarrow> f64" where
  "abort_lost_ms is_iso t bad bps =
     (if loss_is_unscopable is_iso t bad then NaN
      else let lost = abort_lost_bytes is_iso t bad
           in if lost = 0 then Fin 0
              else if \<not> (is_finite bps \<and> f64_less (Fin 0) bps) then NaN
              else f64_mul (f64_div (f64_of_nat lost) bps) MILLIS_PER_SEC)"

text \<open>The loss of the ripped titles; the second component says why it cannot be timed.\<close>

datatype unquantified = RecordIncomplete | NoExtents

definition end_of_recovery_lost_ms :: "bool \<Rightarrow> Title \<Rightarrow> range list \<Rightarrow> f64 \<times> unquantified option" where
  "end_of_recovery_lost_ms intact t bad =
     (if \<not> intact then (NaN, Some RecordIncomplete)
      else if loss_is_unscopable False t bad then (NaN, Some NoExtents)
      else (lost_ms_in_title t (t_bad_in t bad), None))"

fun add_lost_ms :: "bool \<Rightarrow> f64 \<Rightarrow> Title list \<Rightarrow> range list \<Rightarrow> f64 \<times> unquantified option" where
  "add_lost_ms intact acc [] bad = (acc, None)"
| "add_lost_ms intact acc (t # ts) bad =
     (case end_of_recovery_lost_ms intact t bad of
        (ms, Some why) \<Rightarrow> (ms, Some why)
      | (ms, None) \<Rightarrow> add_lost_ms intact (f64_add acc ms) ts bad)"

definition titles_lost_ms :: "bool \<Rightarrow> Title list \<Rightarrow> range list \<Rightarrow> f64 \<times> unquantified option" where
  "titles_lost_ms intact ts bad = add_lost_ms intact (Fin 0) ts bad"

text \<open>Over the titles of an ISO the whole-disc count is taken once, not summed.\<close>

definition titles_abort_lost_bytes :: "bool \<Rightarrow> Title list \<Rightarrow> range list \<Rightarrow> u64" where
  "titles_abort_lost_bytes is_iso ts bad =
     foldl (\<lambda>acc t. let b = abort_lost_bytes is_iso t bad in if is_iso then b else sat_add acc b) 0 ts"

record LossVerdict =
  lost_bytes :: u64
  lost_ms :: f64
  aborts :: bool

definition loss_verdict :: "bool \<Rightarrow> Title list \<Rightarrow> range list \<Rightarrow> u64 \<Rightarrow> LossVerdict" where
  "loss_verdict is_iso ts bad secs =
     (let unscopable = list_ex (\<lambda>t. loss_is_unscopable is_iso t bad) ts;
          lost = (if is_iso \<or> unscopable then wsum (map snd bad) else titles_abort_lost_bytes is_iso ts bad);
          ms = fst (titles_lost_ms True ts bad)
      in \<lparr>lost_bytes = lost, lost_ms = ms, aborts = loss_aborts lost ms secs\<rparr>)"

subsection \<open>The damage tier\<close>

datatype DamageSeverity = Clean | Cosmetic | Moderate | Serious

definition SERIOUS_SECTORS :: nat where "SERIOUS_SECTORS = 500"
definition SERIOUS_LOST_MS :: f64 where "SERIOUS_LOST_MS = Fin 30000"
definition MODERATE_SECTORS :: nat where "MODERATE_SECTORS = 51"
definition MODERATE_LOST_MS :: f64 where "MODERATE_LOST_MS = Fin 1000"

definition classify_damage :: "u64 \<Rightarrow> f64 \<Rightarrow> DamageSeverity" where
  "classify_damage bad_sectors ms =
     (if bad_sectors = 0 then Clean
      else if is_nan ms then Serious
      else if bad_sectors \<ge> SERIOUS_SECTORS \<or> f64_le SERIOUS_LOST_MS ms then Serious
      else if bad_sectors \<ge> MODERATE_SECTORS \<or> f64_le MODERATE_LOST_MS ms then Moderate
      else Cosmetic)"

definition bad_sector_count :: "u64 \<Rightarrow> u64 \<Rightarrow> u64" where
  "bad_sector_count unreadable retryable = sat_add unreadable retryable div SECTOR"

definition end_of_recovery_bad_sectors :: "MapStats \<Rightarrow> u64" where
  "end_of_recovery_bad_sectors st = bad_sector_count (bytes_unreadable st) (bytes_retryable st)"

definition UNMEASURED_ON_AN_INTERRUPTED_PASS :: nat where "UNMEASURED_ON_AN_INTERRUPTED_PASS = 0"

definition interrupted_severity :: "u64 \<Rightarrow> u64 \<Rightarrow> DamageSeverity" where
  "interrupted_severity unreadable pending =
     (let measured = classify_damage (bad_sector_count unreadable UNMEASURED_ON_AN_INTERRUPTED_PASS) (Fin 0)
      in if measured = Clean \<and> pending > 0 then Cosmetic else measured)"

definition interrupted_lost_ms :: "u64 \<Rightarrow> u64 \<Rightarrow> f64" where
  "interrupted_lost_ms unreadable pending = (if unreadable = 0 \<and> pending = 0 then Fin 0 else NaN)"

definition recovery_is_complete :: "bool \<Rightarrow> u64 \<Rightarrow> u64 \<Rightarrow> bool" where
  "recovery_is_complete aborted unreadable pending = (\<not> aborted \<and> unreadable = 0 \<and> pending = 0)"

subsection \<open>The pass plan and the rules that end the passes\<close>

record PassPlan =
  multipass :: bool
  sweep_passes :: nat
  patch_passes :: nat
  total_passes :: nat

definition plan_passes :: "nat \<Rightarrow> PassPlan" where
  "plan_passes max_retries =
     (let n = min max_retries (255 - 2)
      in if n > 0 then \<lparr>multipass = True, sweep_passes = 1, patch_passes = n, total_passes = min (n + 2) 255\<rparr>
         else \<lparr>multipass = False, sweep_passes = 0, patch_passes = 0, total_passes = 0\<rparr>)"

definition scope_bad_bytes :: "bool \<Rightarrow> range list \<Rightarrow> Title \<Rightarrow> u64" where
  "scope_bad_bytes is_iso bad t = abort_lost_bytes is_iso t bad"

definition measured_scope_bad :: "bool \<Rightarrow> range list \<Rightarrow> Title \<Rightarrow> u64 option" where
  "measured_scope_bad is_iso bad t =
     (if loss_is_unscopable is_iso t bad then None else Some (scope_bad_bytes is_iso bad t))"

fun add_scope_bad :: "bool \<Rightarrow> u64 \<Rightarrow> range list \<Rightarrow> Title list \<Rightarrow> u64 option" where
  "add_scope_bad is_iso acc bad [] = Some acc"
| "add_scope_bad is_iso acc bad (t # ts) =
     (case measured_scope_bad is_iso bad t of
        None \<Rightarrow> None
      | Some b \<Rightarrow> add_scope_bad is_iso (if is_iso then b else sat_add acc b) bad ts)"

definition titles_scope_bad :: "bool \<Rightarrow> range list \<Rightarrow> Title list \<Rightarrow> u64 option" where
  "titles_scope_bad is_iso bad ts = add_scope_bad is_iso 0 bad ts"

definition scope_converged :: "u64 \<Rightarrow> bool" where
  "scope_converged scope_bad = (scope_bad = 0)"

definition patch_made_progress :: "u64 \<Rightarrow> bool" where
  "patch_made_progress recovered = (recovered \<noteq> 0)"

datatype PatchDecision = Converged | NoProgress | GoOn

definition no_progress_made :: "u64 option \<Rightarrow> bool" where
  "no_progress_made recovered = (case recovered of Some r \<Rightarrow> \<not> patch_made_progress r | None \<Rightarrow> False)"

definition patch_pass_decision :: "u64 \<Rightarrow> u64 option \<Rightarrow> PatchDecision" where
  "patch_pass_decision scope_bad recovered =
     (if scope_converged scope_bad then Converged
      else if no_progress_made recovered then NoProgress else GoOn)"

definition patch_pass_decision_measured :: "u64 option \<Rightarrow> u64 option \<Rightarrow> PatchDecision" where
  "patch_pass_decision_measured scope_bad recovered =
     (case scope_bad of
        Some b \<Rightarrow> patch_pass_decision b recovered
      | None \<Rightarrow> (if no_progress_made recovered then NoProgress else GoOn))"

definition pre_pass_converged :: "u64 option \<Rightarrow> u64 \<Rightarrow> bool" where
  "pre_pass_converged scope_bad good = (good > 0 \<and> patch_pass_decision_measured scope_bad None = Converged)"

definition end_of_recovery_promotion :: "SectorStatus list \<times> SectorStatus" where
  "end_of_recovery_promotion = ([NonTrimmed, NonScraped], Unreadable)"

datatype PassExit = ExitContinue | Cancelled | Wedged

definition pass_exit :: "bool \<Rightarrow> bool \<Rightarrow> PassExit" where
  "pass_exit halted wedged = (if halted then Cancelled else if wedged then Wedged else ExitContinue)"

text \<open>The titles a selection resolves to; \<open>picked\<close> is that resolution, or its candidates.\<close>

definition measured_titles :: "Title list \<Rightarrow> nat list \<Rightarrow> Title \<Rightarrow> Title list" where
  "measured_titles titles picked no_title =
     (let ts = map (\<lambda>i. titles ! i) (filter (\<lambda>i. i < length titles) picked)
      in if ts = [] then [no_title] else ts)"

definition progress_main_title :: "Title list \<Rightarrow> nat list \<Rightarrow> nat option" where
  "progress_main_title titles picked =
     (case find (\<lambda>i. i < length titles) picked of Some i \<Rightarrow> Some i | None \<Rightarrow> Some u64_max)"

end
