(* ===== verification/Multipass.thy ===== *)
theory Multipass
  imports Loss Patch
begin

text \<open>
  The recovery behind every image (\<open>src/src/multipass.rs\<close>): a single pass, or a sweep, patch passes until
  the deliverable's scope is clean or a pass brings nothing back, the promotion of what stayed bad and the
  abort-on-loss gate. The passes are those of \<open>SweepLink\<close> and \<open>Patch\<close>, each run on what the one before
  left in the image and in the map file. Log lines and milestones are left out.
\<close>

subsection \<open>What a rip leaves behind\<close>

record Rip =
  rip_img :: "nat \<Rightarrow> nat"
  rip_dur :: "nat \<Rightarrow> nat"
  rip_fs :: fs

definition after_pass :: "WriteEnv \<Rightarrow> ImageSink \<Rightarrow> Rip" where
  "after_pass env s = \<lparr>rip_img = sk_img s, rip_dur = sk_dur s, rip_fs = drop_map env (sk_map s) (sk_fs s)\<rparr>"

subsection \<open>One pass\<close>

record SweepObs =
  so_env :: SweepEnv
  so_cfg :: SweepCfg
  so_reads :: "IterEnv list"
  so_sink :: "nat \<Rightarrow> SinkEnv"
  so_join :: JoinEnv
  so_drop :: WriteEnv

record PatchObs =
  pb_env :: PatchEnv
  pb_world :: World
  pb_sink :: "nat \<Rightarrow> SinkEnv"
  pb_join :: JoinEnv
  pb_read :: map_read
  pb_drop :: WriteEnv

record SweepOptions =
  sw_decrypt :: bool
  sw_resume :: bool
  sw_scope :: "range list option"
  sw_skip_on_error :: bool

text \<open>
  What a pass leaves on disk: a map in hand is dropped. There is no result while the observations end before the
  loop does.
\<close>

definition left_behind :: "WriteEnv \<Rightarrow> Rip \<Rightarrow> Left \<Rightarrow> Rip" where
  "left_behind env R left = (case left of NoMap img f \<Rightarrow> R\<lparr>rip_img := img, rip_fs := f\<rparr> | HasMap s \<Rightarrow> after_pass env s)"

definition sweep_step ::
  "(nat \<Rightarrow> string \<Rightarrow> nat list option) \<Rightarrow> (string \<Rightarrow> nat list \<Rightarrow> nat list) \<Rightarrow> string \<Rightarrow> SweepOptions \<Rightarrow>
   SweepObs \<Rightarrow> Rip \<Rightarrow> (sweep_error + CopyResult) option \<times> Rip" where
  "sweep_step ph sh mf opts so R =
     (case sweep_linked ph sh
             ((so_env so)\<lparr>se_resume := sw_resume opts, se_decrypt := sw_decrypt opts, se_scope := sw_scope opts\<rparr>)
             ((so_cfg so)\<lparr>c_skip_on_error := sw_skip_on_error opts\<rparr>)
             (so_reads so) (so_sink so) (so_join so) mf (rip_img R) (rip_dur R) (rip_fs R) of
        (r, left) \<Rightarrow> (r, left_behind (so_drop so) R left))"

definition WEDGED_THRESHOLD :: nat where "WEDGED_THRESHOLD = 50"

definition patch_step ::
  "(nat \<Rightarrow> string \<Rightarrow> nat list option) \<Rightarrow> (string \<Rightarrow> nat list \<Rightarrow> nat list) \<Rightarrow> string \<Rightarrow> PatchObs \<Rightarrow> Rip \<Rightarrow>
   (patch_error + PatchOutcome) \<times> Rip" where
  "patch_step ph sh mf pb R =
     (case patch_linked ((pb_env pb)\<lparr>pe_threshold := WEDGED_THRESHOLD\<rparr>) (pb_world pb) (pb_sink pb) (pb_join pb)
             (load ph sh (pb_read pb) (rip_fs R) mf) (rip_img R) (rip_dur R) (rip_fs R) of
        (r, s) \<Rightarrow> (r, case s of Some s \<Rightarrow> after_pass (pb_drop pb) s | None \<Rightarrow> R))"

subsection \<open>The run\<close>

datatype OnPatchFailure = FailRun | FinishRun
datatype AfterWedge = StopThere | CarryOn

record MultipassOpts =
  max_passes :: nat
  abort_on_lost_secs :: nat
  is_iso_output :: bool
  max_sweep_attempts :: nat
  resume_sweep :: "bool option"
  on_patch_failure :: OnPatchFailure
  after_wedge :: AfterWedge

record RipJob =
  j_raw :: bool
  j_titles :: "Title list"
  j_picked :: "nat list"
  j_no_title :: Title

text \<open>
  What the run observes: its loads of the map, the observations of each pass, the host's answer to a lost
  transport, each look at the cancellation, the writes of the promotion.
\<close>

record RipEnv =
  r_prior :: map_read
  r_sweep :: "nat \<Rightarrow> SweepObs"
  r_recover :: "nat \<Rightarrow> bool"
  r_transport :: "pass_error \<Rightarrow> bool"
  r_stop_sweep :: "nat \<Rightarrow> bool"
  r_copy :: CopyEnv
  r_patch :: "nat \<Rightarrow> PatchObs"
  r_stop_top :: "nat \<Rightarrow> bool"
  r_measure :: "nat \<Rightarrow> map_read"
  r_stop_after :: "nat \<Rightarrow> bool"
  r_stop_end :: bool
  r_final :: map_read
  r_promote :: WriteEnv
  r_flush :: WriteEnv
  r_drop :: WriteEnv

datatype rip_error =
  RipIo io_error | SweepFailed sweep_error | SourceTerminated | CopyFailed copy_error | PatchPassFailed patch_error

record MultipassResult =
  mr_unreadable :: u64
  mr_pending :: u64
  mr_good :: u64
  main_lost_ms :: f64
  mr_lost_bytes :: u64
  severity :: DamageSeverity
  passes :: nat
  aborted_for_loss :: bool
  mr_halted :: bool
  wedged :: bool
  mr_complete :: bool

text \<open>\<open>is_scsi_transport_failure\<close> of the error a sweep ends with.\<close>

definition transport_lost :: "(pass_error \<Rightarrow> bool) \<Rightarrow> sweep_error \<Rightarrow> bool" where
  "transport_lost lost e =
     (case e of
        SetUp (Gate g) \<Rightarrow> is_scsi_transport_failure g
      | PassFailed (ReadAborted a) \<Rightarrow> lost a
      | _ \<Rightarrow> False)"

text \<open>The attempts of Pass 1; \<open>k\<close> counts those left.\<close>

fun sweep_attempts ::
  "(nat \<Rightarrow> Rip \<Rightarrow> (sweep_error + CopyResult) option \<times> Rip) \<Rightarrow> RipEnv \<Rightarrow> nat \<Rightarrow> nat \<Rightarrow>
   sweep_error option \<Rightarrow> Rip \<Rightarrow> ((rip_error + CopyResult) \<times> Rip) option" where
  "sweep_attempts step env 0 attempt last_err R =
     Some (Inl (case last_err of Some e \<Rightarrow> SweepFailed e | None \<Rightarrow> SourceTerminated), R)"
| "sweep_attempts step env (Suc k) attempt last_err R =
     (case step attempt R of
        (None, _) \<Rightarrow> None
      | (Some (Inr sr), R') \<Rightarrow> Some (Inr sr, R')
      | (Some (Inl e), R') \<Rightarrow>
          (if transport_lost (r_transport env) e \<and> \<not> r_stop_sweep env attempt \<and> r_recover env attempt
           then sweep_attempts step env k (attempt + 1) (Some e) R'
           else Some (Inl (SweepFailed e), R')))"

record Loop =
  last_good :: u64
  last_unreadable :: u64
  last_pending :: u64
  lp_passes :: nat
  lp_halted :: bool

datatype loop_end = LoopOver | LoopWedged | LoopFailed patch_error

definition measure_scope ::
  "(nat \<Rightarrow> string \<Rightarrow> nat list option) \<Rightarrow> (string \<Rightarrow> nat list \<Rightarrow> nat list) \<Rightarrow> string \<Rightarrow> bool \<Rightarrow> Title list \<Rightarrow>
   map_read \<Rightarrow> fs \<Rightarrow> u64 option" where
  "measure_scope ph sh mf is_iso titles rd f =
     (case load ph sh rd f mf of
        Inr m \<Rightarrow> titles_scope_bad is_iso (ranges_with m bad_sector_statuses) titles
      | Inl _ \<Rightarrow> None)"

definition note_pass :: "PatchOutcome \<Rightarrow> Loop \<Rightarrow> Loop" where
  "note_pass pr l =
     l\<lparr>last_good := po_good pr, last_unreadable := po_unreadable pr, last_pending := po_pending pr,
       lp_passes := lp_passes l + 1\<rparr>"

fun patch_loop ::
  "(nat \<Rightarrow> Rip \<Rightarrow> (patch_error + PatchOutcome) \<times> Rip) \<Rightarrow> (nat \<Rightarrow> fs \<Rightarrow> u64 option) \<Rightarrow> RipEnv \<Rightarrow> MultipassOpts \<Rightarrow>
   nat list \<Rightarrow> Loop \<Rightarrow> Rip \<Rightarrow> loop_end \<times> Loop \<times> Rip" where
  "patch_loop step scope_bad env opts [] l R = (LoopOver, l, R)"
| "patch_loop step scope_bad env opts (n # ns) l R =
     (if r_stop_top env n then (LoopOver, l\<lparr>lp_halted := True\<rparr>, R)
      else let bad = scope_bad n (rip_fs R)
           in if pre_pass_converged bad (last_good l) then (LoopOver, l, R)
              else case step n R of
                     (Inl e, R') \<Rightarrow>
                       (if on_patch_failure opts = FinishRun then (LoopOver, l, R') else (LoopFailed e, l, R'))
                   | (Inr pr, R') \<Rightarrow>
                       (let l' = note_pass pr l; ex = pass_exit (po_halted pr) (po_wedged pr)
                        in if ex = Cancelled \<or> r_stop_after env n then (LoopOver, l'\<lparr>lp_halted := True\<rparr>, R')
                           else if ex = Wedged \<and> after_wedge opts = StopThere then (LoopWedged, l', R')
                           else if patch_pass_decision_measured bad (Some (po_recovered pr)) = NoProgress
                           then (LoopOver, l', R')
                           else patch_loop step scope_bad env opts ns l' R'))"

text \<open>A run that stopped before the verdict.\<close>

definition interrupted :: "bool \<Rightarrow> Loop \<Rightarrow> MultipassResult" where
  "interrupted is_wedged l =
     \<lparr>mr_unreadable = last_unreadable l, mr_pending = last_pending l, mr_good = last_good l,
      main_lost_ms = interrupted_lost_ms (last_unreadable l) (last_pending l), mr_lost_bytes = last_unreadable l,
      severity = interrupted_severity (last_unreadable l) (last_pending l), passes = lp_passes l,
      aborted_for_loss = False, mr_halted = \<not> is_wedged, wedged = is_wedged, mr_complete = False\<rparr>"

text \<open>The promotion: whether the record is intact, the map after it, the files.\<close>

definition promote_all :: "RipEnv \<Rightarrow> Mapfile \<Rightarrow> fs \<Rightarrow> bool \<times> Mapfile \<times> fs" where
  "promote_all env m f =
     (case end_of_recovery_promotion of
        (frm, to) \<Rightarrow>
          (case promote (r_promote env) frm to m f of
             (q1, m1, f1) \<Rightarrow>
               (case flush (r_flush env) m1 f1 of
                  (q2, m2, f2) \<Rightarrow> (q1 = Inr () \<and> q2 = Inr (), m2, drop_map (r_drop env) m2 f2))))"

definition final_verdict :: "bool \<Rightarrow> bool \<Rightarrow> Title list \<Rightarrow> range list \<Rightarrow> u64 \<Rightarrow> LossVerdict" where
  "final_verdict intact is_iso titles bad secs =
     (let v = loss_verdict is_iso titles bad secs
      in if intact then v else v\<lparr>lost_ms := fst (titles_lost_ms False titles bad), aborts := True\<rparr>)"

definition verdict_severity :: "LossVerdict \<Rightarrow> u64 \<Rightarrow> DamageSeverity" where
  "verdict_severity v bad_sectors =
     (if is_nan (lost_ms v) \<and> \<not> aborts v then classify_damage bad_sectors (Fin 0)
      else classify_damage bad_sectors (lost_ms v))"

definition rip_result :: "Loop \<Rightarrow> LossVerdict \<Rightarrow> u64 \<Rightarrow> u64 \<Rightarrow> u64 \<Rightarrow> u64 \<Rightarrow> MultipassResult" where
  "rip_result l v good unreadable pending bad_sectors =
     \<lparr>mr_unreadable = unreadable, mr_pending = pending, mr_good = good, main_lost_ms = lost_ms v,
      mr_lost_bytes = lost_bytes v, severity = verdict_severity v bad_sectors, passes = lp_passes l,
      aborted_for_loss = aborts v, mr_halted = False, wedged = False,
      mr_complete = recovery_is_complete (aborts v) unreadable pending\<rparr>"

definition rip_end ::
  "(nat \<Rightarrow> string \<Rightarrow> nat list option) \<Rightarrow> (string \<Rightarrow> nat list \<Rightarrow> nat list) \<Rightarrow> string \<Rightarrow> RipEnv \<Rightarrow>
   MultipassOpts \<Rightarrow> Title list \<Rightarrow> Loop \<Rightarrow> Rip \<Rightarrow> MultipassResult \<times> Rip" where
  "rip_end ph sh mf env opts titles l R =
     (let secs = effective_abort_secs (is_iso_output opts) (abort_on_lost_secs opts)
      in case load ph sh (r_final env) (rip_fs R) mf of
           Inr m \<Rightarrow>
             (case promote_all env m (rip_fs R) of
                (intact, m', f') \<Rightarrow>
                  (let st = stats m';
                       v = final_verdict intact (is_iso_output opts) titles (ranges_with m' [Unreadable]) secs
                   in (rip_result l v (bytes_good st) (bytes_unreadable st) (bytes_pending st)
                         (end_of_recovery_bad_sectors st), R\<lparr>rip_fs := f'\<rparr>)))
         | Inl _ \<Rightarrow>
             (rip_result l \<lparr>lost_bytes = last_unreadable l, lost_ms = NaN, aborts = True\<rparr> (last_good l)
                (last_unreadable l) (last_pending l) (bad_sector_count (last_unreadable l) (last_pending l)), R))"

subsection \<open>The single pass\<close>

text \<open>One step of the copy dispatch run to its end, \<open>copy_titled\<close> with \<open>sweep_internal\<close> and \<open>patch_internal\<close>.\<close>

definition copy_run ::
  "(nat \<Rightarrow> string \<Rightarrow> nat list option) \<Rightarrow> (string \<Rightarrow> nat list \<Rightarrow> nat list) \<Rightarrow> string \<Rightarrow> bool \<Rightarrow> bool \<Rightarrow> RipEnv \<Rightarrow>
   Rip \<Rightarrow> ((rip_error + CopyResult) \<times> Rip) option" where
  "copy_run ph sh mf decrypt multi env R =
     (case copy_titled ph sh ((r_copy env)\<lparr>ce_decrypt := decrypt, ce_multipass := multi\<rparr>) mf (rip_fs R) of
        (Inl e, f') \<Rightarrow> Some (Inl (CopyFailed e), R\<lparr>rip_fs := f'\<rparr>)
      | (Inr act, f') \<Rightarrow>
          (case act of
             Report r \<Rightarrow> Some (Inr r, R\<lparr>rip_fs := f'\<rparr>)
           | RunSweep resume \<Rightarrow>
               (case sweep_step ph sh mf
                       \<lparr>sw_decrypt = decrypt, sw_resume = resume, sw_scope = None, sw_skip_on_error = multi\<rparr>
                       (r_sweep env 1) (R\<lparr>rip_fs := f'\<rparr>) of
                  (None, _) \<Rightarrow> None
                | (Some (Inl e), R') \<Rightarrow> Some (Inl (SweepFailed e), R')
                | (Some (Inr r), R') \<Rightarrow> Some (Inr r, R'))
           | RunPatch \<Rightarrow>
               (case patch_step ph sh mf (r_patch env 1) (R\<lparr>rip_fs := f'\<rparr>) of
                  (Inl e, R') \<Rightarrow> Some (Inl (PatchPassFailed e), R')
                | (Inr pr, R') \<Rightarrow>
                    Some (Inr (copy_result (po_total pr) (po_good pr) (po_unreadable pr) (po_pending pr)
                                 (po_recovered pr) (po_halted pr)), R'))))"

definition single_result :: "CopyResult \<Rightarrow> MultipassResult" where
  "single_result c =
     (let bad = bad_sector_count (cr_unreadable c) (cr_pending c)
      in \<lparr>mr_unreadable = cr_unreadable c, mr_pending = cr_pending c, mr_good = cr_good c,
          main_lost_ms = (if bad = 0 then Fin 0 else NaN), mr_lost_bytes = cr_unreadable c,
          severity = (if cr_halted c then interrupted_severity (cr_unreadable c) (cr_pending c)
                      else classify_damage bad (Fin 0)),
          passes = 1, aborted_for_loss = False, mr_halted = cr_halted c, wedged = False,
          mr_complete = complete c\<rparr>)"

definition single_pass ::
  "(nat \<Rightarrow> string \<Rightarrow> nat list option) \<Rightarrow> (string \<Rightarrow> nat list \<Rightarrow> nat list) \<Rightarrow> string \<Rightarrow> RipEnv \<Rightarrow> RipJob \<Rightarrow>
   (nat \<times> nat) list option \<Rightarrow> Rip \<Rightarrow> ((rip_error + MultipassResult) \<times> Rip) option" where
  "single_pass ph sh mf env job sc R =
     map_option (\<lambda>(r, R'). (map_sum id single_result r, R'))
       (case sc of
          Some s \<Rightarrow>
            (case sweep_step ph sh mf
                    \<lparr>sw_decrypt = \<not> j_raw job, sw_resume = (rip_fs R mf \<noteq> None),
                     sw_scope = Some (sector_scope_to_bytes s), sw_skip_on_error = False\<rparr> (r_sweep env 1) R of
               (None, _) \<Rightarrow> None
             | (Some (Inl e), R') \<Rightarrow> Some (Inl (SweepFailed e), R')
             | (Some (Inr r), R') \<Rightarrow> Some (Inr r, R'))
        | None \<Rightarrow> copy_run ph sh mf (\<not> j_raw job) False env R)"

subsection \<open>The recovery\<close>

text \<open>The map an earlier run left: a missing or corrupt one counts as none.\<close>

definition prior_map ::
  "(nat \<Rightarrow> string \<Rightarrow> nat list option) \<Rightarrow> (string \<Rightarrow> nat list \<Rightarrow> nat list) \<Rightarrow> string \<Rightarrow> map_read \<Rightarrow> fs \<Rightarrow>
   io_error + Mapfile option" where
  "prior_map ph sh mf rd f =
     (case load ph sh rd f mf of
        Inr m \<Rightarrow> Inr (Some m)
      | Inl e \<Rightarrow> (if e = NotFound \<or> is_invalid_data e then Inr None else Inl e))"

definition pass1_options :: "RipJob \<Rightarrow> (nat \<times> nat) list option \<Rightarrow> bool \<Rightarrow> nat \<Rightarrow> SweepOptions" where
  "pass1_options job sc resume attempt =
     \<lparr>sw_decrypt = \<not> j_raw job, sw_resume = (resume \<or> 1 < attempt),
      sw_scope = map_option sector_scope_to_bytes sc, sw_skip_on_error = True\<rparr>"

definition pass1_noted :: "CopyResult \<Rightarrow> Loop" where
  "pass1_noted sr =
     \<lparr>last_good = cr_good sr, last_unreadable = cr_unreadable sr, last_pending = cr_pending sr, lp_passes = 1,
      lp_halted = cr_halted sr\<rparr>"

definition patch_passes_run ::
  "(nat \<Rightarrow> string \<Rightarrow> nat list option) \<Rightarrow> (string \<Rightarrow> nat list \<Rightarrow> nat list) \<Rightarrow> string \<Rightarrow> RipEnv \<Rightarrow> MultipassOpts \<Rightarrow>
   Title list \<Rightarrow> nat \<Rightarrow> Loop \<Rightarrow> Rip \<Rightarrow> loop_end \<times> Loop \<times> Rip" where
  "patch_passes_run ph sh mf env opts titles n l R =
     (if lp_halted l then (LoopOver, l, R)
      else patch_loop (\<lambda>n. patch_step ph sh mf (r_patch env n))
             (\<lambda>n. measure_scope ph sh mf (is_iso_output opts) titles (r_measure env n)) env opts [1..<n + 1] l R)"

definition recover_end ::
  "(nat \<Rightarrow> string \<Rightarrow> nat list option) \<Rightarrow> (string \<Rightarrow> nat list \<Rightarrow> nat list) \<Rightarrow> string \<Rightarrow> RipEnv \<Rightarrow> MultipassOpts \<Rightarrow>
   Title list \<Rightarrow> loop_end \<times> Loop \<times> Rip \<Rightarrow> (rip_error + MultipassResult) \<times> Rip" where
  "recover_end ph sh mf env opts titles x =
     (case x of
        (LoopFailed e, l, R) \<Rightarrow> (Inl (PatchPassFailed e), R)
      | (LoopWedged, l, R) \<Rightarrow> (Inr (interrupted True l), R)
      | (LoopOver, l, R) \<Rightarrow>
          (if lp_halted l \<or> r_stop_end env then (Inr (interrupted False l), R)
           else case rip_end ph sh mf env opts titles l R of (r, R') \<Rightarrow> (Inr r, R')))"

definition rip_recover ::
  "(nat \<Rightarrow> string \<Rightarrow> nat list option) \<Rightarrow> (string \<Rightarrow> nat list \<Rightarrow> nat list) \<Rightarrow> string \<Rightarrow> RipEnv \<Rightarrow> MultipassOpts \<Rightarrow>
   RipJob \<Rightarrow> (nat \<times> nat) list option \<Rightarrow> Rip \<Rightarrow> ((rip_error + MultipassResult) \<times> Rip) option" where
  "rip_recover ph sh mf env opts job sc R =
     (let plan = plan_passes (min (max_passes opts) 255)
      in case prior_map ph sh mf (r_prior env) (rip_fs R) of
           Inl e \<Rightarrow> Some (Inl (RipIo e), R)
         | Inr prior \<Rightarrow>
             (let map_mode = Option.bind prior raw;
                  titles = measured_titles (j_titles job) (j_picked job) (j_no_title job)
              in if \<not> multipass plan then single_pass ph sh mf env job sc R
                 else let resume = (case resume_sweep opts of Some b \<Rightarrow> b | None \<Rightarrow> map_mode \<noteq> None)
                      in case sweep_attempts
                                (\<lambda>a. sweep_step ph sh mf (pass1_options job sc resume a) (r_sweep env a))
                                env (max (max_sweep_attempts opts) 1) 1 None R of
                           None \<Rightarrow> None
                         | Some (Inl e, R') \<Rightarrow> Some (Inl e, R')
                         | Some (Inr sr, R') \<Rightarrow>
                             Some (recover_end ph sh mf env opts titles
                               (patch_passes_run ph sh mf env opts titles (patch_passes plan) (pass1_noted sr) R'))))"

text \<open>One pass per invocation: the next step of a resumable recovery, without promotion or gate.\<close>

definition one_pass ::
  "(nat \<Rightarrow> string \<Rightarrow> nat list option) \<Rightarrow> (string \<Rightarrow> nat list \<Rightarrow> nat list) \<Rightarrow> string \<Rightarrow> RipEnv \<Rightarrow> RipJob \<Rightarrow> bool \<Rightarrow>
   Rip \<Rightarrow> ((rip_error + CopyResult) \<times> Rip) option" where
  "one_pass ph sh mf env job multi R = copy_run ph sh mf (\<not> j_raw job) multi env R"

end
