(* ===== verification/Saved.thy ===== *)
theory Saved
  imports Multipass PatchProps
begin

text \<open>
  The map file next to the image, at any moment of a pass: whatever was last written of the map, each byte
  the file calls Finished is Finished in the map in use and holds the disc's byte in the image. So a pass
  that fails, is stopped or is abandoned leaves a pair of files the next pass can start from.
\<close>

subsection \<open>What one operation leaves on disk\<close>

definition same_head :: "Mapfile \<Rightarrow> Mapfile \<Rightarrow> bool" where
  "same_head a b = (path a = path b \<and> version a = version b \<and> disc_hash a = disc_hash b \<and> vidfp a = vidfp b \<and>
     legacy_keyfps a = legacy_keyfps b \<and> scope a = scope b \<and> total_size a = total_size b)"

lemma same_head_refl [simp]: "same_head m m" "same_head (m\<lparr>disowned := d\<rparr>) m" "same_head (m\<lparr>dirty := d\<rparr>) m"
  by (simp_all add: same_head_def)

lemma same_head_trans: "same_head a b \<Longrightarrow> same_head b c \<Longrightarrow> same_head a c"
  by (simp add: same_head_def)

lemma same_head_ok: "same_head a b \<Longrightarrow> header_ok a = header_ok b" "same_head a b \<Longrightarrow> scope_aligned a = scope_aligned b"
  by (simp_all add: same_head_def header_ok_def scope_aligned_def)

lemma same_map_head: "same_map a b \<Longrightarrow> same_head a b"
  by (simp add: same_map_def same_head_def)

text \<open>The file holds what it held or the text of the map as it is now.\<close>

definition kept :: "string \<Rightarrow> Mapfile \<Rightarrow> fs \<Rightarrow> fs \<Rightarrow> bool" where
  "kept p m f f' \<longleftrightarrow> f' p = f p \<or> f' p = Some (print_map m)"

lemma kept_refl [simp]: "kept p m f f"
  by (simp add: kept_def)

lemma persist_kept: "persist env m f = (r, m', f') \<Longrightarrow> kept (path m) m' f f'"
proof -
  assume run: "persist env m f = (r, m', f')"
  obtain q states where w: "write_locked env m f = (q, states)" by (cases "write_locked env m f")
  then have f': "f' = last states" using run by (auto simp: persist_def write_to_disk_def split: sum.splits)
  have "last states \<in> set (snd (write_locked env m f))" using w write_locked_ne [of env m f] by simp
  then have "f' (path m) = f (path m) \<or> f' (path m) = Some (print_map m)" unfolding f' by (rule write_locked_atomic(1))
  moreover have "print_map m' = print_map m" using persist_cases [OF run] by (auto simp: clean_def)
  ultimately show ?thesis by (simp add: kept_def)
qed

lemma changed_kept: "changed env m f = (r, m', f') \<Longrightarrow> kept (path m) m' f f'"
  using persist_kept [of env "m\<lparr>dirty := True\<rparr>" f] by (auto simp: changed_def Let_def split: if_splits)

lemma flush_kept: "flush env m f = (r, m', f') \<Longrightarrow> kept (path m) m' f f' \<and> same_head m' m"
  using persist_kept same_map_head [OF flush_same] by (auto simp: flush_def split: if_splits)

lemma record_kept:
  assumes "record_range env p n st m f = (r, m', f')"
  shows "kept (path m) m' f f' \<and> same_head m' m"
proof (cases "n = 0 \<or> checked_add p n = None")
  case True
  then have "m' = m" "f' = f" using assms by (auto simp: record_range_def split: option.splits if_splits)
  then show ?thesis by simp
next
  case False
  then obtain q where run: "changed env (splice p q st m) f = (r, m', f')"
    using assms by (auto simp: record_range_def split: option.splits)
  have head: "same_head (splice p q st m) m" by (simp add: splice_def same_head_def)
  then have "path (splice p q st m) = path m" by (simp add: same_head_def)
  then show ?thesis using changed_kept [OF run] same_head_trans [OF same_map_head [OF changed_same [OF run]] head] by simp
qed

definition saves :: "ImageSink \<Rightarrow> ImageSink \<Rightarrow> bool" where
  "saves s s' \<longleftrightarrow> same_head (sk_map s') (sk_map s) \<and> kept (path (sk_map s)) (sk_map s') (sk_fs s) (sk_fs s')"

lemma saves_path: "saves s s' \<Longrightarrow> path (sk_map s') = path (sk_map s)"
  by (simp add: saves_def same_head_def)

lemma saves_same: "sk_fs s' = sk_fs s \<Longrightarrow> same_head (sk_map s') (sk_map s) \<Longrightarrow> saves s s'"
  by (simp add: saves_def)

lemma write_failed_saves: "image_write_failed s1 = (r, s') \<Longrightarrow> sk_fs s1 = sk_fs s \<Longrightarrow> sk_map s1 = sk_map s \<Longrightarrow> saves s s'"
  by (auto simp: image_write_failed_def intro: saves_same)

lemma record_item_saves:
  "record_item env p n st s1 = (r, s') \<Longrightarrow> sk_fs s1 = sk_fs s \<Longrightarrow> sk_map s1 = sk_map s \<Longrightarrow> saves s s'"
  by (auto simp: record_item_def saves_def dest!: record_kept split: prod.splits)

lemma apply_good_saves: "apply_good env p buf s = (r, s') \<Longrightarrow> saves s s'"
  by (auto simp: apply_good_def Let_def split: if_splits
      dest: write_failed_saves [where s = s] record_item_saves [where s = s])

lemma apply_fill_saves: "apply_fill env p n s = (r, s') \<Longrightarrow> saves s s'"
  by (auto simp: apply_fill_def intro: saves_same split: if_splits prod.splits fill_end.splits
      dest: write_failed_saves [where s = s] record_item_saves [where s = s])

lemma saves_disowned: "saves (s\<lparr>sk_map := (sk_map s)\<lparr>disowned := d\<rparr>\<rparr>) s' \<longleftrightarrow> saves s s'"
  by (simp add: saves_def same_head_def)

lemma sweep_apply_saves: "sweep_apply env it s = (r, s') \<Longrightarrow> saves s s'"
  by (cases it; auto simp: sweep_apply_def Let_def saves_disowned intro: saves_same split: if_splits
      dest!: apply_good_saves apply_fill_saves)

lemma patch_apply_saves: "patch_apply env it s = (r, s') \<Longrightarrow> saves s s'"
  by (cases it; auto simp: patch_apply_def Let_def saves_disowned intro: saves_same split: if_splits
      dest!: apply_good_saves record_item_saves [OF _ refl refl])

lemma sink_close_saves: "sink_close env s = (r, s') \<Longrightarrow> saves s s'"
  by (auto simp: sink_close_def Let_def saves_def split: if_splits prod.splits sum.splits
      dest!: flush_kept)

lemma finish_saves: "sweep_finish j q s = (r, s') \<Longrightarrow> saves s s'"
proof -
  assume fin: "sweep_finish j q s = (r, s')"
  obtain e s1 where e: "(case q of Inl e \<Rightarrow> (Inl e, s) | Inr _ \<Rightarrow> sink_close (j_close j) s) = (e, s1)" by fastforce
  have "saves s s1" using e sink_close_saves by (auto intro: saves_same split: sum.splits)
  moreover have "sk_fs s' = sk_fs s1 \<and> (sk_map s' = sk_map s1 \<or> sk_map s' = (sk_map s1)\<lparr>disowned := True\<rparr>)"
    using fin e by (auto simp: sweep_finish_def finish_disowning_def split: option.splits sum.splits)
  ultimately show ?thesis by (auto simp: saves_def same_head_def kept_def)
qed

subsection \<open>The file never claims more than the map in use\<close>

text \<open>\<open>P\<close> is what else is known of the size and the scope of both.\<close>

definition disk_ok ::
  "(nat \<Rightarrow> string \<Rightarrow> nat list option) \<Rightarrow> (string \<Rightarrow> nat list \<Rightarrow> nat list) \<Rightarrow>
   (nat \<Rightarrow> range list option \<Rightarrow> bool) \<Rightarrow> ImageSink \<Rightarrow> bool" where
  "disk_ok ph sh P s \<longleftrightarrow> header_ok (sk_map s) \<and> scope_aligned (sk_map s) \<and> P (total_size (sk_map s)) (scope (sk_map s)) \<and>
     (\<forall>rd m. load ph sh rd (sk_fs s) (path (sk_map s)) = Inr m \<longrightarrow>
        map_inv m \<and> scope_aligned m \<and> header_ok m \<and> P (total_size m) (scope m) \<and>
        (\<forall>b. look (entries m) b = Some Finished \<longrightarrow> sk_look s b = Some Finished))"

lemma disk_ok_load:
  "disk_ok ph sh P s \<Longrightarrow> load ph sh rd (sk_fs s) (path (sk_map s)) = Inr m \<Longrightarrow>
     map_inv m \<and> scope_aligned m \<and> header_ok m \<and> P (total_size m) (scope m) \<and>
     (\<forall>b. look (entries m) b = Some Finished \<longrightarrow> sk_look s b = Some Finished)"
  unfolding disk_ok_def by blast

lemma disk_okI:
  assumes "header_ok (sk_map s)" and "scope_aligned (sk_map s)" and "P (total_size (sk_map s)) (scope (sk_map s))"
    and "\<And>rd m. load ph sh rd (sk_fs s) (path (sk_map s)) = Inr m \<Longrightarrow>
      map_inv m \<and> scope_aligned m \<and> header_ok m \<and> P (total_size m) (scope m) \<and>
      (\<forall>b. look (entries m) b = Some Finished \<longrightarrow> sk_look s b = Some Finished)"
  shows "disk_ok ph sh P s"
  unfolding disk_ok_def using assms by blast

text \<open>A map read back from its own text.\<close>

lemma load_own_text:
  assumes "hex_parser_ok ph" and "header_ok m'" and "map_inv m'" and "f p = Some (print_map m')"
    and "load ph sh rd f p = Inr m"
  shows "entries m = entries m' \<and> map_inv m \<and> header_ok m \<and> scope_aligned m = scope_aligned m' \<and>
    total_size m = total_size m' \<and> scope m = scope m'"
proof -
  have "map_ok m'" using assms(3) by (simp add: map_inv_def)
  from map_ok_load_print_map [OF assms(1,2) this, of sh p "fst rd"]
  have "m = m'\<lparr>path := p, dirty := False, last_flushed := fst rd, disowned := False\<rparr>"
    using assms(4,5) by (simp add: load_Inr)
  then show ?thesis using assms(2,3) by (simp add: map_inv_def map_ok_def header_ok_def scope_aligned_def)
qed

lemma load_path_only: "f' p = f p \<Longrightarrow> load ph sh rd f' p = load ph sh rd f p"
  by (cases "snd rd") (simp_all add: load_def read_capped_def)

lemma disk_ok_step:
  assumes hex: "hex_parser_ok ph" and ok: "disk_ok ph sh P s" and sv: "saves s s'" and inv: "map_inv (sk_map s')"
    and mono: "\<And>b. sk_look s b = Some Finished \<Longrightarrow> sk_look s' b = Some Finished"
  shows "disk_ok ph sh P s'"
proof -
  have same: "same_head (sk_map s') (sk_map s)" using sv by (simp add: saves_def)
  have p: "path (sk_map s') = path (sk_map s)" using same by (simp add: same_head_def)
  have head: "header_ok (sk_map s')" "scope_aligned (sk_map s')"
    using same_head_ok [OF same] ok by (simp_all add: disk_ok_def)
  have size: "P (total_size (sk_map s')) (scope (sk_map s'))" using same ok by (simp add: disk_ok_def same_head_def)
  have "map_inv m \<and> scope_aligned m \<and> header_ok m \<and> P (total_size m) (scope m) \<and> (\<forall>b. look (entries m) b = Some Finished \<longrightarrow> sk_look s' b = Some Finished)"
    if ld: "load ph sh rd (sk_fs s') (path (sk_map s)) = Inr m" for rd m
  proof (cases "sk_fs s' (path (sk_map s)) = sk_fs s (path (sk_map s))")
    case True
    then have "load ph sh rd (sk_fs s) (path (sk_map s)) = Inr m" using ld load_path_only by metis
    from disk_ok_load [OF ok this] show ?thesis using mono by blast
  next
    case False
    then have "sk_fs s' (path (sk_map s)) = Some (print_map (sk_map s'))" using sv by (simp add: saves_def kept_def)
    from load_own_text [OF hex head(1) inv this ld] show ?thesis using head size by simp
  qed
  then show ?thesis using head size unfolding p [symmetric] by (intro disk_okI) simp_all
qed

subsection \<open>The two consumers\<close>

text \<open>
  A consumer of a queue over the image and its map. \<open>fits its s\<close> says that the items still to come may be
  applied in state \<open>s\<close>; each step keeps that, the map's invariant and what is Finished.
\<close>

locale map_consumer =
  fixes app :: "SinkEnv \<Rightarrow> 'it \<Rightarrow> ImageSink \<Rightarrow> (pass_fail + sink_flow) \<times> ImageSink"
    and run :: "(SinkEnv \<times> 'it) list \<Rightarrow> ImageSink \<Rightarrow> (pass_fail + sink_flow) \<times> ImageSink"
    and fits :: "'it list \<Rightarrow> ImageSink \<Rightarrow> bool"
  assumes run_Nil: "run [] s = (Inr Continue, s)"
    and run_Cons: "run (x # xs) s = (case app (fst x) (snd x) s of (Inr Continue, s') \<Rightarrow> run xs s' | r \<Rightarrow> r)"
    and app_saves: "app env it s = (r, s') \<Longrightarrow> saves s s'"
    and app_inv: "fits (it # its) s \<Longrightarrow> app env it s = (r, s') \<Longrightarrow> map_inv (sk_map s')"
    and app_mono: "fits (it # its) s \<Longrightarrow> app env it s = (r, s') \<Longrightarrow> sk_look s b = Some Finished \<Longrightarrow>
      sk_look s' b = Some Finished"
    and app_fits: "fits (it # its) s \<Longrightarrow> app env it s = (r, s') \<Longrightarrow> fits its s'"
begin

lemma run_disk:
  assumes "hex_parser_ok ph" and "disk_ok ph sh P s" and "fits (map snd xs) s" and "run xs s = (r, s')"
  shows "disk_ok ph sh P s'"
  using assms(2-4)
proof (induction xs arbitrary: s)
  case Nil
  then show ?case by (simp add: run_Nil)
next
  case (Cons x xs)
  obtain r1 s1 where step: "app (fst x) (snd x) s = (r1, s1)" by fastforce
  have fit: "fits (snd x # map snd xs) s" using Cons.prems(2) by simp
  have ok1: "disk_ok ph sh P s1"
    by (rule disk_ok_step [OF assms(1) Cons.prems(1) app_saves [OF step] app_inv [OF fit step] app_mono [OF fit step]])
  show ?case
  proof (cases "r1 = Inr Continue")
    case False
    then have "s' = s1" using Cons.prems(3) step by (auto simp: run_Cons split: sum.splits sink_flow.splits)
    then show ?thesis using ok1 by simp
  next
    case True
    then have "run xs s1 = (r, s')" using Cons.prems(3) step by (simp add: run_Cons)
    then show ?thesis using Cons.IH [OF ok1 app_fits [OF fit step]] by blast
  qed
qed

lemma run_path: "run xs s = (r, s') \<Longrightarrow> path (sk_map s') = path (sk_map s)"
proof (induction xs arbitrary: s)
  case Nil
  then show ?case by (simp add: run_Nil)
next
  case (Cons x xs)
  obtain r1 s1 where step: "app (fst x) (snd x) s = (r1, s1)" by fastforce
  have "path (sk_map s1) = path (sk_map s)" using saves_path [OF app_saves [OF step]] .
  then show ?case using Cons step by (auto simp: run_Cons split: sum.splits sink_flow.splits)
qed

end

lemma effect_mono:
  assumes "item_effect p n v st s r s'" and "\<And>b. st \<noteq> Finished \<Longrightarrow> p \<le> b \<Longrightarrow> b < p + n \<Longrightarrow> sk_look s b \<noteq> Some Finished"
    and "sk_look s b = Some Finished"
  shows "sk_look s' b = Some Finished"
proof (cases "p \<le> b \<and> b < p + n")
  case False
  then show ?thesis using assms(1,3) by (auto simp: item_effect_def)
next
  case True
  then have "st = Finished" using assms(2,3) by blast
  then show ?thesis using True assms(1,3) unfolding item_effect_def by metis
qed

definition sweep_fits :: "(nat \<Rightarrow> nat) \<Rightarrow> work_item list \<Rightarrow> ImageSink \<Rightarrow> bool" where
  "sweep_fits disc its s \<longleftrightarrow> map_inv (sk_map s) \<and> items_fit disc (sk_map s) its \<and> (\<exists>c. disj_from c (map span its))"

lemma sweep_fits_step:
  assumes "sweep_fits disc (it # its) s" and "sweep_apply env it s = (r, s')"
  shows "item_effect (it_pos it) (it_len it) (it_byte disc it) (it_status it) s r s'" and "sweep_fits disc its s'"
proof -
  obtain c where d: "disj_from c (map span (it # its))" using assms(1) by (auto simp: sweep_fits_def)
  have fit: "items_fit disc (sk_map s) (it # its)" and inv: "map_inv (sk_map s)" using assms(1) by (auto simp: sweep_fits_def)
  have "item_ok disc it" "span_ok (sk_map s) (it_pos it) (it_len it)"
    using fit by (auto simp: items_fit_def intro: item_ok_span)
  then show eff: "item_effect (it_pos it) (it_len it) (it_byte disc it) (it_status it) s r s'"
    using sweep_apply_effect [OF inv] assms(2) by blast
  have "disj_from (it_pos it + it_len it) (map span its)" using d by simp
  then show "sweep_fits disc its s'"
    using items_fit_Cons [OF fit d eff] eff by (auto simp: sweep_fits_def item_effect_def)
qed

interpretation sweep_cons: map_consumer sweep_apply apply_items "sweep_fits disc" for disc
proof unfold_locales
  show "apply_items (x # xs) s = (case sweep_apply (fst x) (snd x) s of (Inr Continue, s') \<Rightarrow> apply_items xs s' | r \<Rightarrow> r)" for x xs s
    by simp
  show "sweep_fits disc (it # its) s \<Longrightarrow> sweep_apply env it s = (r, s') \<Longrightarrow> map_inv (sk_map s')" for it its s env r s'
    using sweep_fits_step(2) [of disc it its s env r s'] by (simp add: sweep_fits_def)
  show "sweep_fits disc (it # its) s \<Longrightarrow> sweep_apply env it s = (r, s') \<Longrightarrow> sk_look s b = Some Finished \<Longrightarrow>
      sk_look s' b = Some Finished" for it its s env r s' b
    by (rule effect_mono [OF sweep_fits_step(1)]) (auto simp: sweep_fits_def items_fit_def)
  show "sweep_apply env it s = (r, s') \<Longrightarrow> saves s s'" for env it s r s' by (rule sweep_apply_saves)
  show "sweep_fits disc (it # its) s \<Longrightarrow> sweep_apply env it s = (r, s') \<Longrightarrow> sweep_fits disc its s'" for it its s env r s'
    by (rule sweep_fits_step(2))
qed simp

definition patch_fits :: "(nat \<Rightarrow> nat) \<Rightarrow> nat set \<Rightarrow> patch_item list \<Rightarrow> ImageSink \<Rightarrow> bool" where
  "patch_fits disc D its s \<longleftrightarrow> image_ok disc s \<and> (\<forall>it \<in> set its. item_valid disc D it) \<and> (\<forall>b \<in> D. b < total_size (sk_map s)) \<and>
     (\<forall>it \<in> set its. \<not> is_recovered it \<longrightarrow> (\<forall>b \<in> patch_bytes it. sk_look s b \<noteq> Some Finished)) \<and>
     sorted_wrt (\<lambda>old new. fresh_mark new old) its"

lemma patch_fits_step:
  assumes "patch_fits disc D (it # its) s" and "patch_apply env it s = (r, s')"
  shows "patch_fits disc D its s'" and "sk_look s b = Some Finished \<Longrightarrow> sk_look s' b = Some Finished"
proof -
  have "image_ok disc s" "item_valid disc D it" "\<forall>b \<in> D. b < total_size (sk_map s)"
    "\<not> is_recovered it \<longrightarrow> (\<forall>b \<in> patch_bytes it. sk_look s b \<noteq> Some Finished)"
    using assms(1) by (auto simp: patch_fits_def)
  note one = patch_apply_ok [OF this assms(2)]
  show "sk_look s b = Some Finished \<Longrightarrow> sk_look s' b = Some Finished" by (rule one(6))
  have "sk_look s' b \<noteq> Some Finished" if m: "x \<in> set its" "\<not> is_recovered x" "b \<in> patch_bytes x" for x b
  proof -
    have before: "sk_look s b \<noteq> Some Finished" using assms(1) m by (auto simp: patch_fits_def)
    have "fresh_mark x it" using assms(1) m(1) by (auto simp: patch_fits_def)
    then have "b \<notin> patch_bytes it \<or> pi_status it = NonTrimmed" using m by (auto simp: fresh_mark_def pi_status_def)
    then show ?thesis using before one(4,5) by (metis SectorStatus.distinct option.inject)
  qed
  then show "patch_fits disc D its s'" using assms(1) one(1,2) by (auto simp: patch_fits_def)
qed

interpretation patch_cons: map_consumer patch_apply apply_patches "patch_fits disc D" for disc D
proof unfold_locales
  show "apply_patches (x # xs) s = (case patch_apply (fst x) (snd x) s of (Inr Continue, s') \<Rightarrow> apply_patches xs s' | r \<Rightarrow> r)" for x xs s
    by simp
  show "patch_fits disc D (it # its) s \<Longrightarrow> patch_apply env it s = (r, s') \<Longrightarrow> map_inv (sk_map s')" for it its s env r s'
    using patch_fits_step(1) [of disc D it its s env r s'] by (simp add: patch_fits_def image_ok_def)
  show "patch_apply env it s = (r, s') \<Longrightarrow> saves s s'" for env it s r s' by (rule patch_apply_saves)
  show "patch_fits disc D (it # its) s \<Longrightarrow> patch_apply env it s = (r, s') \<Longrightarrow> patch_fits disc D its s'" for it its s env r s'
    by (rule patch_fits_step(1))
  show "patch_fits disc D (it # its) s \<Longrightarrow> patch_apply env it s = (r, s') \<Longrightarrow> sk_look s b = Some Finished \<Longrightarrow>
      sk_look s' b = Some Finished" for it its s env r s' b by (rule patch_fits_step(2))
qed simp

end
