(* ===== verification/RipInv.thy ===== *)
theory RipInv
  imports Saved
begin

text \<open>
  What every pass keeps of a rip: the map file beside the image can be resumed from. Then a run of any
  passes keeps it, however each of them ends.
\<close>

definition rip_ok ::
  "(nat \<Rightarrow> string \<Rightarrow> nat list option) \<Rightarrow> (string \<Rightarrow> nat list \<Rightarrow> nat list) \<Rightarrow> string \<Rightarrow> (nat \<Rightarrow> nat) \<Rightarrow>
   (nat \<Rightarrow> range list option \<Rightarrow> bool) \<Rightarrow> Rip \<Rightarrow> bool" where
  "rip_ok ph sh mf disc P R \<longleftrightarrow>
     (\<forall>rd m. load ph sh rd (rip_fs R) mf = Inr m \<longrightarrow>
        resumable disc (rip_img R) m \<and> header_ok m \<and> P (total_size m) (scope m))"

lemma rip_okD:
  "rip_ok ph sh mf disc P R \<Longrightarrow> load ph sh rd (rip_fs R) mf = Inr m \<Longrightarrow>
     resumable disc (rip_img R) m \<and> header_ok m \<and> P (total_size m) (scope m)"
  unfolding rip_ok_def by blast

lemma rip_okI:
  "(\<And>rd m. load ph sh rd (rip_fs R) mf = Inr m \<Longrightarrow> resumable disc (rip_img R) m \<and> header_ok m \<and> P (total_size m) (scope m)) \<Longrightarrow>
     rip_ok ph sh mf disc P R"
  unfolding rip_ok_def by blast

lemma rip_ok_resumable:
  "rip_ok ph sh mf disc P R \<Longrightarrow> \<forall>rd m. load ph sh rd (rip_fs R) mf = Inr m \<longrightarrow> resumable disc (rip_img R) m"
  unfolding rip_ok_def by blast

text \<open>The map file kept or gone, over the same image.\<close>

lemma rip_ok_same_file:
  assumes "rip_ok ph sh mf disc P R" and "f' mf = rip_fs R mf \<or> f' mf = None"
  shows "rip_ok ph sh mf disc P (R\<lparr>rip_fs := f'\<rparr>)"
proof (rule rip_okI)
  fix rd m assume ld: "load ph sh rd (rip_fs (R\<lparr>rip_fs := f'\<rparr>)) mf = Inr m"
  then have "f' mf = rip_fs R mf" using assms(2) load_absent [of f' mf ph sh rd m] by auto
  then have "load ph sh rd (rip_fs R) mf = Inr m" using ld load_path_only [of f' mf "rip_fs R"] by simp
  from rip_okD [OF assms(1) this] show "resumable disc (rip_img (R\<lparr>rip_fs := f'\<rparr>)) m \<and> header_ok m \<and> P (total_size m) (scope m)" by simp
qed

text \<open>A map of a whole disc, when \<open>wh\<close> asks for one; the same of a known size.\<close>

definition unscoped :: "bool \<Rightarrow> nat \<Rightarrow> range list option \<Rightarrow> bool" where
  "unscoped wh k sc = (wh \<longrightarrow> sc = None)"

definition sized :: "bool \<Rightarrow> nat \<Rightarrow> nat \<Rightarrow> range list option \<Rightarrow> bool" where
  "sized wh N k sc = (k = N \<and> (wh \<longrightarrow> sc = None))"

lemma sized_unscoped: "rip_ok ph sh mf disc (sized wh N) R \<Longrightarrow> rip_ok ph sh mf disc (unscoped wh) R"
  by (rule rip_okI, drule (1) rip_okD) (simp add: sized_def unscoped_def)

subsection \<open>From a sink to the files it leaves\<close>

lemma after_pass_ok:
  assumes hex: "hex_parser_ok ph" and disk: "disk_ok ph sh P s" and img: "image_ok disc s" and p: "path (sk_map s) = mf"
  shows "rip_ok ph sh mf disc P (after_pass env s)"
proof -
  obtain q m f where fl: "flush env (sk_map s) (sk_fs s) = (q, m, f)" by (rule prod_cases3)
  let ?s = "s\<lparr>sk_map := m, sk_fs := f\<rparr>"
  have same: "same_map m (sk_map s)" by (rule flush_same [OF fl])
  have "saves s ?s" using flush_kept [OF fl] by (simp add: saves_def)
  moreover have "map_inv m" using same_map_inv(1) [OF same] img by (simp add: image_ok_def)
  ultimately have "disk_ok ph sh P ?s"
    using same by (intro disk_ok_step [OF hex disk]) (simp_all add: same_map_def)
  moreover have "path m = mf" "entries m = entries (sk_map s)" using same p by (simp_all add: same_map_def)
  moreover have "rip_fs (after_pass env s) = f" "rip_img (after_pass env s) = sk_img s"
    by (simp_all add: after_pass_def drop_map_def fl)
  ultimately show ?thesis using img disk_ok_load [of ph sh P ?s]
    by (intro rip_okI) (simp add: resumable_def image_ok_def)
qed

lemma finish_disk:
  assumes hex: "hex_parser_ok ph" and disk: "disk_ok ph sh P s" and img: "image_ok disc s" and fin: "sweep_finish j q s = (r, s')"
  shows "disk_ok ph sh P s'"
proof (rule disk_ok_step [OF hex disk finish_saves [OF fin]])
  show "map_inv (sk_map s')" using sweep_finish_ok [OF img fin] by (simp add: image_ok_def)
  show "sk_look s b = Some Finished \<Longrightarrow> sk_look s' b = Some Finished" for b using sweep_finish_look [OF fin] by simp
qed

subsection \<open>A sweep\<close>

text \<open>The labels a sweep stamps on its map have the shapes the text format keeps.\<close>

definition labels_ok ::
  "(nat \<Rightarrow> string \<Rightarrow> nat list option) \<Rightarrow> (string \<Rightarrow> nat list \<Rightarrow> nat list) \<Rightarrow> SweepEnv \<Rightarrow> bool" where
  "labels_ok ph sh env \<longleftrightarrow>
     (\<forall>s bs. ph 20 s = Some bs \<longrightarrow> byte_list 20 bs) \<and>
     (\<forall>fp. disc_vid_fingerprint sh (se_vid env) (se_keys_vidfp env) = Some fp \<longrightarrow> byte_list 32 fp) \<and>
     se_creator env \<noteq> [] \<and> \<not> is_ws (last (se_creator env)) \<and> nl \<notin> set (se_creator env)"

lemma stamp_header:
  assumes "labels_ok ph sh env" and "header_ok m"
  shows "header_ok (set_raw r (stamp_identity ph sh (se_disc_id env) (se_vid env) (se_keys_vidfp env) m))"
proof -
  have "header_ok (case se_disc_id env of Some h \<Rightarrow> set_disc_hash ph h m | None \<Rightarrow> m)"
    using assms by (auto simp: set_disc_hash_def parse_disc_hash_def Let_def header_ok_def labels_ok_def split: option.split)
  then show ?thesis
    using assms by (auto simp: stamp_identity_def Let_def set_raw_def set_vid_fingerprint_def header_ok_def labels_ok_def
        split: option.split)
qed

lemma new_header: "labels_ok ph sh env \<Longrightarrow> header_ok (new_map p tot (se_creator env) now)"
  by (simp add: labels_ok_def header_ok_def new_map_def)

lemma scope_header:
  assumes env: "sweep_env_ok env" and al: "scope_aligned m" and ok: "header_ok m" and run: "sweep_scope env resume m = (ps, m')"
  shows "header_ok m'"
proof (cases "se_scope env")
  case None
  then show ?thesis using run ok by (auto simp: sweep_scope_def Let_def clear_scope_def header_ok_def split: option.splits)
next
  case (Some s)
  let ?old = "case scope m of None \<Rightarrow> [] | Some o_ \<Rightarrow> o_"
  have "ranges_ok ?old" using al disj_from_ok by (cases "scope m") (auto simp: scope_aligned_def)
  then have "ranges_ok (s @ ?old)" using env Some by (simp add: sweep_env_ok_def ranges_ok_def ball_Un)
  then have "sep_from 0 (merge_byte_ranges (s @ ?old))" using merge_byte_ranges_correct by blast
  then show ?thesis
    using run ok Some by (auto simp: sweep_scope_def Let_def set_scope_def header_ok_def split: if_splits)
qed

lemma create_kept:
  assumes "create env p tot ver f = (Inr m, f')"
  shows "f' p = f p \<or> f' p = Some (print_map m)"
proof -
  let ?n = "new_map p tot ver (w_now env)"
  obtain q states where w: "write_locked env ?n f = (q, states)" by (cases "write_locked env ?n f")
  have f': "f' = last states" "m = ?n\<lparr>disowned := disowned ?n \<or> w_disowned env, last_flushed := w_after env\<rparr>"
    using assms w by (auto simp: create_def write_to_disk_def split: sum.splits)
  have "last states \<in> set (snd (write_locked env ?n f))" using w write_locked_ne [of env ?n f] by simp
  then have "f' p = f p \<or> f' p = Some (print_map ?n)" unfolding f'(1) using write_locked_atomic(1) [of _ env ?n f] by simp
  then show ?thesis by (simp add: f'(2))
qed

text \<open>The map a sweep starts from and the file beside it.\<close>

lemma sweep_map_disk:
  assumes hex: "hex_parser_ok ph" and n: "n \<le> u32_max" and lab: "labels_ok ph sh env"
    and old: "rip_ok ph sh mf disc (unscoped wh) \<lparr>rip_img = img, rip_dur = dur, rip_fs = f\<rparr>"
    and dec: "sweep_resume ph sh env (n * SECTOR) mf f = Inr resume"
    and run: "sweep_map ph sh env (n * SECTOR) resume mf f = (Inr m, f')"
  shows "header_ok m \<and> path m = mf \<and> sized wh (n * SECTOR) (total_size m) (scope m) \<and>
    (\<forall>rd m1. load ph sh rd f' mf = Inr m1 \<longrightarrow> map_inv m1 \<and> scope_aligned m1 \<and> header_ok m1 \<and>
       sized wh (n * SECTOR) (total_size m1) (scope m1) \<and> entries m1 = entries m)"
proof -
  have old': "\<forall>rd m. load ph sh rd f mf = Inr m \<longrightarrow> resumable disc img m" using rip_ok_resumable [OF old] by simp
  have tot: "total_size m = n * SECTOR" using sweep_map_ok [OF n old' dec run] by simp
  obtain m0 f1 where raw0: "m = set_raw (\<not> se_decrypt env) (stamp_identity ph sh (se_disc_id env) (se_vid env) (se_keys_vidfp env) m0)"
    and f1: "open_or_create ph sh (se_create env) mf (n * SECTOR) (se_creator env) f1 = (Inr m0, f')"
    and gone: "resume \<Longrightarrow> f1 = f" "\<not> resume \<Longrightarrow> f1 mf = None"
    using run by (auto simp: sweep_map_def Let_def stale_mapfile_removed_def remove_file_def
        split: prod.splits sum.splits if_splits option.splits)
  have path: "path (stamp_identity ph sh d v k x) = path x" "path (set_raw r x) = path x" for d v k x r
    by (auto simp: set_raw_def stamp_identity_def set_disc_hash_def set_vid_fingerprint_def Let_def split: option.split)
  have keep: "entries m = entries m0" "scope m = scope m0" "path m = path m0" "total_size m = total_size m0"
    unfolding raw0 using setters_same path by (simp_all add: same_runs_def)
  have "header_ok m0 \<and> path m0 = mf \<and> (wh \<longrightarrow> scope m0 = None) \<and>
    (\<forall>rd m1. load ph sh rd f' mf = Inr m1 \<longrightarrow> map_inv m1 \<and> scope_aligned m1 \<and> header_ok m1 \<and>
       (wh \<longrightarrow> scope m1 = None) \<and> total_size m1 = total_size m0 \<and> entries m1 = entries m0)"
  proof (cases "load ph sh (w_now (se_create env), w_read (se_create env)) f1 mf")
    case (Inr m2)
    then have m0: "m0 = m2" "f' = f1" using f1 by (simp_all add: open_or_create_def)
    have "f1 = f" using gone Inr load_absent [of f1 mf] by (cases resume) auto
    then have ld: "load ph sh (w_now (se_create env), w_read (se_create env)) f' mf = Inr m0" and fs: "f' = f" using Inr m0 by simp_all
    have ok: "resumable disc img m1 \<and> header_ok m1 \<and> (wh \<longrightarrow> scope m1 = None)" if "load ph sh rd f' mf = Inr m1" for rd m1
      using rip_okD [OF old, of rd m1] that fs by (simp add: unscoped_def)
    have "total_size m1 = total_size m0 \<and> entries m1 = entries m0" if "load ph sh rd f' mf = Inr m1" for rd m1
      using load_again(1) [OF ld that] by (simp add: same_runs_def)
    then show ?thesis using ok ok [OF ld] load_path [OF ld] unfolding resumable_def by blast
  next
    case (Inl e)
    then have none: "f1 mf = None" and cr: "create (se_create env) mf (n * SECTOR) (se_creator env) f1 = (Inr m0, f')"
      using f1 load_missing [of ph sh "(w_now (se_create env), w_read (se_create env))" f1 mf] by (auto simp: open_or_create_def split: if_splits)
    note c = create_cases [OF cr]
    have h: "header_ok m0" using new_header [OF lab] c by (simp add: header_ok_def)
    have inv: "map_inv m0" using new_map_starts(1) [OF n] c by (auto simp: resumable_def)
    have sc: "scope m0 = None" "path m0 = mf" using c by (simp_all add: new_map_def)
    have "map_inv m1 \<and> scope_aligned m1 \<and> header_ok m1 \<and> (wh \<longrightarrow> scope m1 = None) \<and>
        total_size m1 = total_size m0 \<and> entries m1 = entries m0"
      if ld: "load ph sh rd f' mf = Inr m1" for rd m1
    proof -
      have "f' mf = Some (print_map m0)"
        using create_kept [OF cr] none load_absent [of f' mf ph sh rd m1] ld by auto
      from load_own_text [OF hex h inv this ld] show ?thesis using sc by (simp add: scope_aligned_def)
    qed
    then show ?thesis using h sc by simp
  qed
  then show ?thesis using stamp_header [OF lab, of m0] keep tot unfolding sized_def raw0 by simp
qed

text \<open>A set-up that gets no map leaves the file as it was, or gone.\<close>

lemma sweep_map_failed:
  assumes run: "sweep_map ph sh env tot resume mf f = (Inl e, f')"
  shows "f' mf = f mf \<or> f' mf = None"
proof (cases "stale_mapfile_removed (fst (if resume then (Inr (), f) else remove_file (se_remove env) mf f))")
  case (Inl x)
  then show ?thesis using run by (auto simp: sweep_map_def remove_file_def split: if_splits option.splits)
next
  case (Inr u)
  define f1 where "f1 = snd (if resume then (Inr (), f) else remove_file (se_remove env) mf f)"
  have f1: "f1 mf = f mf \<or> f1 mf = None" by (auto simp: f1_def remove_file_def split: option.split)
  have "open_or_create ph sh (se_create env) mf tot (se_creator env) f1 = (Inl e, f')"
    using run Inr by (auto simp: sweep_map_def f1_def Let_def split: sum.splits prod.splits)
  then consider "f' = f1" | "create (se_create env) mf tot (se_creator env) f1 = (Inl e, f')"
    by (auto simp: open_or_create_def split: sum.splits if_splits)
  then have "f' mf = f1 mf"
  proof cases
    case 2
    let ?n = "new_map mf tot (se_creator env) (w_now (se_create env))"
    have "fst (write_locked (se_create env) ?n f1) = Inl e" "f' = last (snd (write_locked (se_create env) ?n f1))"
      using 2 by (auto simp: create_def write_to_disk_def split: prod.splits sum.splits)
    then show ?thesis using write_locked_failed [of "se_create env" ?n f1 e] by simp
  qed simp
  then show ?thesis using f1 by auto
qed

text \<open>The sink a pass starts with, or would have started with.\<close>

lemma sweep_started_disk:
  assumes hex: "hex_parser_ok ph" and n: "n \<le> u32_max" and env: "sweep_env_ok env" and st: "stable_stat env"
    and lab: "labels_ok ph sh env" and wh: "wh \<Longrightarrow> se_scope env = None"
    and old: "rip_ok ph sh mf disc (unscoped wh) \<lparr>rip_img = img, rip_dur = dur, rip_fs = f\<rparr>"
    and dec: "sweep_resume ph sh env (n * SECTOR) mf f = Inr resume"
    and sm: "sweep_map ph sh env (n * SECTOR) resume mf f = (Inr m, f')"
    and si: "sweep_image env resume img = (opened, img')"
    and start: "sweep_start env (n * SECTOR) resume m img' dur reg f' = (regions, s0)"
  shows "disk_ok ph sh (sized wh (n * SECTOR)) s0" and "path (sk_map s0) = mf" and "image_ok disc s0" and "regions_ok (sk_map s0) regions"
    and "total_size (sk_map s0) = n * SECTOR"
proof -
  have old': "\<forall>rd m. load ph sh rd f mf = Inr m \<longrightarrow> resumable disc img m" using rip_ok_resumable [OF old] by simp
  have m: "resumable disc img m" "total_size m = n * SECTOR" using sweep_map_ok [OF n old' dec sm] by simp_all
  note op = sweep_start_ok [OF env m sweep_image_finished [OF n st old' dec sm si] start]
  note d = sweep_map_disk [OF hex n lab old dec sm]
  have al: "scope_aligned m" using m(1) by (simp add: resumable_def)
  obtain ps m' where sc: "sweep_scope env resume m = (ps, m')" by fastforce
  have s0: "sk_map s0 = m'" "sk_fs s0 = f'" using start sc by (auto simp: sweep_start_def)
  note so = sweep_scope_ok [OF env al sc]
  have p: "path m' = path m"
    using sc by (auto simp: sweep_scope_def Let_def set_scope_def clear_scope_def split: option.splits if_splits)
  show pm: "path (sk_map s0) = mf" using p d s0 by simp
  have ld: "map_inv m1 \<and> scope_aligned m1 \<and> header_ok m1 \<and> sized wh (n * SECTOR) (total_size m1) (scope m1) \<and> entries m1 = entries m"
    if "load ph sh rd (sk_fs s0) (path (sk_map s0)) = Inr m1" for rd m1
  proof -
    have "load ph sh rd f' mf = Inr m1" using that s0 pm by simp
    then show ?thesis using d by blast
  qed
  show "disk_ok ph sh (sized wh (n * SECTOR)) s0"
  proof (rule disk_okI)
    show "header_ok (sk_map s0)" using scope_header [OF env al _ sc] d s0 by simp
    show "scope_aligned (sk_map s0)" using so s0 by simp
    show "sized wh (n * SECTOR) (total_size (sk_map s0)) (scope (sk_map s0))"
      using so d s0 wh by (auto simp: same_runs_def sized_def)
    show "map_inv m1 \<and> scope_aligned m1 \<and> header_ok m1 \<and> sized wh (n * SECTOR) (total_size m1) (scope m1) \<and>
        (\<forall>b. look (entries m1) b = Some Finished \<longrightarrow> sk_look s0 b = Some Finished)"
      if "load ph sh rd (sk_fs s0) (path (sk_map s0)) = Inr m1" for rd m1
      using ld [OF that] so(1) s0 by (simp add: same_runs_def)
  qed
  show "image_ok disc s0" "regions_ok (sk_map s0) regions" "total_size (sk_map s0) = n * SECTOR" using op by simp_all
qed

text \<open>What a set-up that failed leaves, at whichever step: files the next pass can start from.\<close>

lemma sweep_setup_left:
  assumes hex: "hex_parser_ok ph" and n: "n \<le> u32_max" and env: "sweep_env_ok env" and st: "stable_stat env"
    and lab: "labels_ok ph sh env" and wh: "wh \<Longrightarrow> se_scope env = None"
    and old: "rip_ok ph sh mf disc (unscoped wh) R"
    and run: "sweep_opened ph sh env (n * SECTOR) mf (rip_img R) (rip_dur R) (rip_fs R) = Inl (e, left)"
  shows "rip_ok ph sh mf disc (unscoped wh) (left_behind denv R left)"
  using run
proof (cases rule: sweep_opened_cases)
  case (refused x)
  then show ?thesis using old by (simp add: left_behind_def)
next
  case (no_map resume x f')
  then show ?thesis using rip_ok_same_file [of ph sh mf disc _ R f', OF old sweep_map_failed [OF no_map(2)]] by (simp add: left_behind_def)
next
  case (no_image resume m f' opened img' x)
  have old1: "rip_ok ph sh mf disc (unscoped wh) \<lparr>rip_img = rip_img R, rip_dur = rip_dur R, rip_fs = rip_fs R\<rparr>"
    using old by (simp add: rip_ok_def)
  note old' = rip_ok_resumable [OF old]
  let ?s = "\<lparr>sk_img = img', sk_dur = rip_dur R, sk_map = m, sk_fs = f', is_regular = output_is_regular (se_handle env)\<rparr>"
  note d = sweep_map_disk [OF hex n lab old1 no_image(1,2)]
  have m: "resumable disc (rip_img R) m" using sweep_map_ok [OF n old' no_image(1,2)] by simp
  have "disk_ok ph sh (sized wh (n * SECTOR)) ?s"
  proof (rule disk_okI)
    show "map_inv m1 \<and> scope_aligned m1 \<and> header_ok m1 \<and> sized wh (n * SECTOR) (total_size m1) (scope m1) \<and>
        (\<forall>b. look (entries m1) b = Some Finished \<longrightarrow> sk_look ?s b = Some Finished)"
      if "load ph sh rd (sk_fs ?s) (path (sk_map ?s)) = Inr m1" for rd m1
    proof -
      have "load ph sh rd f' mf = Inr m1" using that d by simp
      then have "map_inv m1 \<and> scope_aligned m1 \<and> header_ok m1 \<and> sized wh (n * SECTOR) (total_size m1) (scope m1) \<and> entries m1 = entries m"
        using d by blast
      then show ?thesis by simp
    qed
  qed (use d m in \<open>simp_all add: resumable_def\<close>)
  moreover have "image_ok disc ?s"
    using m sweep_image_finished [OF n st old' no_image(1-3)] by (simp add: image_ok_def resumable_def)
  ultimately have "rip_ok ph sh mf disc (sized wh (n * SECTOR)) (after_pass denv ?s)"
    using d by (intro after_pass_ok [OF hex]) simp_all
  then show ?thesis using no_image(4) sized_unscoped by (simp add: left_behind_def)
next
  case (started resume m f' img' reg regions s0)
  have old1: "rip_ok ph sh mf disc (unscoped wh) \<lparr>rip_img = rip_img R, rip_dur = rip_dur R, rip_fs = rip_fs R\<rparr>"
    using old by (simp add: rip_ok_def)
  note o = sweep_started_disk [OF hex n env st lab wh old1 started(1-4)]
  have "rip_ok ph sh mf disc (sized wh (n * SECTOR)) (after_pass denv s0)"
    using o by (intro after_pass_ok [OF hex]) simp_all
  then show ?thesis using started(5) sized_unscoped by (auto simp: left_behind_def)
qed

text \<open>The observations of one sweep attempt, as the drive and the file system may give them.\<close>

definition sweep_obs_ok ::
  "(nat \<Rightarrow> string \<Rightarrow> nat list option) \<Rightarrow> (string \<Rightarrow> nat list \<Rightarrow> nat list) \<Rightarrow> (nat \<Rightarrow> nat) \<Rightarrow> SweepObs \<Rightarrow> bool" where
  "sweep_obs_ok ph sh disc so \<longleftrightarrow>
     (\<forall>n. se_sectors (so_env so) = Inr n \<longrightarrow> n \<le> u32_max) \<and> cfg_ok (so_cfg so) \<and> stable_stat (so_env so) \<and>
     labels_ok ph sh (so_env so) \<and> ranges_ok (se_skip (so_env so)) \<and> all_aligned (se_skip (so_env so)) \<and>
     (\<forall>e \<in> set (so_reads so). faithful disc e)"

definition scope_opt_ok :: "range list option \<Rightarrow> bool" where
  "scope_opt_ok sc = (\<forall>s. sc = Some s \<longrightarrow> ranges_ok s \<and> all_aligned s)"

lemma sweep_run_disk:
  assumes hex: "hex_parser_ok ph" and cfg: "cfg_ok cfg" and img: "image_ok disc s0" and regs: "regions_ok (sk_map s0) regions"
    and faith: "\<forall>env \<in> set es. faithful disc env" and disk: "disk_ok ph sh P s0"
    and run: "sweep_run cfg tot regions es ks j s0 = (r, s')"
  shows "disk_ok ph sh P s'" and "path (sk_map s') = path (sk_map s0)" and "image_ok disc s'"
proof -
  obtain p over where pr: "produce cfg regions es = (p, over)" by fastforce
  define its where "its = rev (p_items p)"
  obtain q s1 where ap: "apply_items (zip (map ks [0..<length its]) its) s0 = (q, s1)" by fastforce
  obtain summary s2 where fin: "sweep_finish j q s1 = (summary, s2)" by fastforce
  have res: "s' = s2" using run pr ap fin by (auto simp: sweep_run_def Let_def its_def)
  have inv: "map_inv (sk_map s0)" using img by (simp add: image_ok_def)
  note lg = produce_ok(1) [OF cfg regions_end [OF inv regs] faith pr]
  note fit = log_fits [OF inv regs lg]
  have fits: "sweep_fits disc (map snd (zip (map ks [0..<length its]) its)) s0"
    unfolding map_fst_zip_items using fit inv by (auto simp: sweep_fits_def its_def)
  have d1: "disk_ok ph sh P s1" by (rule sweep_cons.run_disk [OF hex disk fits ap])
  have i1: "image_ok disc s1"
    using apply_items_ok [OF img _ _ ap, unfolded map_fst_zip_items, of 0] fit by (simp add: its_def)
  show "disk_ok ph sh P s'" unfolding res by (rule finish_disk [OF hex d1 i1 fin])
  show "image_ok disc s'" unfolding res using sweep_finish_ok [OF i1 fin] by blast
  show "path (sk_map s') = path (sk_map s0)"
    unfolding res using saves_path [OF finish_saves [OF fin]] sweep_cons.run_path [OF ap] by simp
qed

text \<open>One sweep attempt, whatever it ends with.\<close>

lemma sweep_step_ok:
  assumes hex: "hex_parser_ok ph" and obs: "sweep_obs_ok ph sh disc so" and sc: "scope_opt_ok (sw_scope opts)"
    and wh: "wh \<Longrightarrow> sw_scope opts = None" and old: "rip_ok ph sh mf disc (unscoped wh) R"
    and tot: "\<And>k. se_sectors (so_env so) = Inr k \<Longrightarrow> k = n"
    and run: "sweep_step ph sh mf opts so R = (r, R')"
  shows "rip_ok ph sh mf disc (unscoped wh) R'" and "r = Some (Inr sr) \<Longrightarrow> rip_ok ph sh mf disc (sized wh (n * SECTOR)) R'"
proof -
  let ?env = "(so_env so)\<lparr>se_resume := sw_resume opts, se_decrypt := sw_decrypt opts, se_scope := sw_scope opts\<rparr>"
  let ?cfg = "(so_cfg so)\<lparr>c_skip_on_error := sw_skip_on_error opts\<rparr>"
  obtain left where lk: "sweep_linked ph sh ?env ?cfg (so_reads so) (so_sink so) (so_join so) mf (rip_img R) (rip_dur R)
      (rip_fs R) = (r, left)" and R': "R' = left_behind (so_drop so) R left"
    using run by (auto simp: sweep_step_def split: prod.splits)
  have env: "sweep_env_ok ?env" "stable_stat ?env" "labels_ok ph sh ?env" "cfg_ok ?cfg"
    using obs sc by (simp_all add: sweep_obs_ok_def sweep_env_ok_def scope_opt_ok_def stable_stat_def labels_ok_def cfg_ok_def)
  have wh': "wh \<Longrightarrow> se_scope ?env = None" using wh by simp
  have "rip_ok ph sh mf disc (unscoped wh) R' \<and> (\<forall>sr. r = Some (Inr sr) \<longrightarrow> rip_ok ph sh mf disc (sized wh (n * SECTOR)) R')"
  proof (cases "sweep_gates ?env")
    case (Inl e)
    then have "r = Some (Inl (SetUp e))" "left = NoMap (rip_img R) (rip_fs R)" using lk by (simp_all add: sweep_linked_def)
    then show ?thesis using R' old by (simp add: left_behind_def)
  next
    case (Inr k)
    then have g: "sweep_gates ?env = Inr n" using sweep_gates_sectors [OF Inr] tot [of k] by simp
    have n: "n \<le> u32_max" using sweep_gates_sectors [OF g] obs by (simp add: sweep_obs_ok_def)
    show ?thesis
    proof (cases "sweep_opened ph sh ?env (n * SECTOR) mf (rip_img R) (rip_dur R) (rip_fs R)")
      case (Inl x)
      then obtain e l where x: "sweep_opened ph sh ?env (n * SECTOR) mf (rip_img R) (rip_dur R) (rip_fs R) = Inl (e, l)"
        by (cases x) simp
      then have "r = Some (Inl (SetUp e))" "left = l" using lk g by (simp_all add: sweep_linked_def)
      then show ?thesis using sweep_setup_left [OF hex n env(1-3) wh' old x] R' by simp
    next
      case (Inr x)
      then obtain regions s0 where op: "sweep_opened ph sh ?env (n * SECTOR) mf (rip_img R) (rip_dur R) (rip_fs R) = Inr (regions, s0)"
        by (cases x) simp
      obtain q s where sr: "sweep_run ?cfg (n * SECTOR) regions (so_reads so) (so_sink so) (so_join so) s0 = (q, s)" by fastforce
      have left: "left = HasMap s" using lk g op sr by (simp add: sweep_linked_def)
      have old1: "rip_ok ph sh mf disc (unscoped wh) \<lparr>rip_img = rip_img R, rip_dur = rip_dur R, rip_fs = rip_fs R\<rparr>"
        using old by (simp add: rip_ok_def)
      obtain resume m f' img' reg where parts: "sweep_resume ph sh ?env (n * SECTOR) mf (rip_fs R) = Inr resume"
        "sweep_map ph sh ?env (n * SECTOR) resume mf (rip_fs R) = (Inr m, f')"
        "sweep_image ?env resume (rip_img R) = (Inr reg, img')"
        "sweep_start ?env (n * SECTOR) resume m img' (rip_dur R) reg f' = (regions, s0)"
        by (cases rule: sweep_opened_cases [OF op]) auto
      note o1 = sweep_started_disk [OF hex n env(1-3) wh' old1 parts]
      have "\<forall>e \<in> set (so_reads so). faithful disc e" using obs by (simp add: sweep_obs_ok_def)
      note o2 = sweep_run_disk [OF hex env(4) o1(3,4) this o1(1) sr]
      have "rip_ok ph sh mf disc (sized wh (n * SECTOR)) R'"
        unfolding R' left left_behind_def Left.case using o1(2) o2 by (intro after_pass_ok [OF hex]) simp_all
      then show ?thesis using sized_unscoped by blast
    qed
  qed
  then show "rip_ok ph sh mf disc (unscoped wh) R'" "r = Some (Inr sr) \<Longrightarrow> rip_ok ph sh mf disc (sized wh (n * SECTOR)) R'" by blast+
qed

subsection \<open>A patch pass\<close>

lemma patch_pass_disk:
  assumes hex: "hex_parser_ok ph" and honest: "honest disc w" and img: "image_ok disc s0" and work: "disj_from 0 bad" "all_aligned bad"
    and bad: "\<forall>b \<in> bytes_of bad. b < total_size (sk_map s0) \<and> sk_look s0 b \<noteq> Some Finished"
    and disk: "disk_ok ph sh P s0" and run: "patch_pass env w ks j st bad s0 = (r, s')"
  shows "disk_ok ph sh P s' \<and> image_ok disc s' \<and> path (sk_map s') = path (sk_map s0)"
proof -
  obtain rr p ss where pr: "patch_run w (pe_knobs env) bad patch_init = (rr, p, ss)" by (rule prod_cases3)
  define its where "its = rev (items_of p)"
  obtain q s1 where ap: "apply_patches (zip (map ks [0..<length its]) its) s0 = (q, s1)" by fastforce
  obtain summary s2 where fin: "sweep_finish j q s1 = (summary, s2)" by fastforce
  have res: "s' = s2" using run pr ap fin by (auto simp: patch_pass_def its_def Let_def split: sum.splits)
  have inv: "map_inv (sk_map s0)" using img by (simp add: image_ok_def)
  then have small: "\<forall>b \<in> bytes_of bad. b < u32_max * SECTOR" using bad by (fastforce simp: map_inv_def)
  have "log_sound disc (bytes_of bad) (items_of p)"
    using patch_run_log [OF honest work small pr] by (simp add: pass_inv_def)
  then have its: "\<forall>it \<in> set its. item_valid disc (bytes_of bad) it" "sorted_wrt (\<lambda>old new. fresh_mark new old) its"
    by (auto simp: its_def log_sound_def sorted_wrt_rev)
  have "patch_bytes it \<subseteq> bytes_of bad" if "it \<in> set its" for it
    using its(1) that sound_recovered mark_not_recovered by (fastforce simp: item_valid_def)
  then have fits: "patch_fits disc (bytes_of bad) (map snd (zip (map ks [0..<length its]) its)) s0"
    unfolding map_fst_zip_items using img its bad by (auto simp: patch_fits_def)
  have d1: "disk_ok ph sh P s1" by (rule patch_cons.run_disk [OF hex disk fits ap])
  have i1: "image_ok disc s1"
    using apply_patches_ok [OF img _ _ _ _ ap, of "bytes_of bad", unfolded map_fst_zip_items] fits
    unfolding patch_fits_def map_fst_zip_items by blast
  show ?thesis
    unfolding res using finish_disk [OF hex d1 i1 fin] sweep_finish_ok [OF i1 fin] saves_path [OF finish_saves [OF fin]]
      patch_cons.run_path [OF ap] by simp
qed

definition patch_obs_ok :: "(nat \<Rightarrow> nat) \<Rightarrow> PatchObs \<Rightarrow> bool" where
  "patch_obs_ok disc pb \<longleftrightarrow>
     honest disc (pb_world pb) \<and> ranges_ok (pe_skip (pb_env pb)) \<and> all_aligned (pe_skip (pb_env pb))"

lemma patch_step_ok:
  assumes hex: "hex_parser_ok ph" and obs: "patch_obs_ok disc pb" and old: "rip_ok ph sh mf disc P R"
    and run: "patch_step ph sh mf pb R = (r, R')"
  shows "rip_ok ph sh mf disc P R'"
proof -
  let ?env = "(pb_env pb)\<lparr>pe_threshold := WEDGED_THRESHOLD\<rparr>"
  let ?ld = "load ph sh (pb_read pb) (rip_fs R) mf"
  obtain q s where lk: "patch_linked ?env (pb_world pb) (pb_sink pb) (pb_join pb) ?ld (rip_img R) (rip_dur R) (rip_fs R) = (q, s)"
    by fastforce
  show ?thesis
  proof (cases s)
    case None
    then show ?thesis using run lk old by (simp add: patch_step_def)
  next
    case (Some s1)
    have R': "R' = after_pass (pb_drop pb) s1" using run lk Some by (simp add: patch_step_def)
    obtain x where "patch_opened ?env ?ld = Inr x"
      using lk Some by (cases "patch_opened ?env ?ld") (auto simp: patch_linked_def)
    then obtain m where m: "?ld = Inr m" using patch_opened_ok by (cases x) blast
    note ld = m
    have res: "resumable disc (rip_img R) m" "header_ok m" "P (total_size m) (scope m)" using rip_okD [OF old ld] by simp_all
    have skip: "ranges_ok (pe_skip ?env)" "all_aligned (pe_skip ?env)" and honest: "honest disc (pb_world pb)"
      using obs by (simp_all add: patch_obs_ok_def)
    obtain st bad where op: "patch_pass ?env (pb_world pb) (pb_sink pb) (pb_join pb) st bad
        \<lparr>sk_img = rip_img R, sk_dur = rip_dur R, sk_map = m, sk_fs = rip_fs R, is_regular = is_reg st\<rparr> = (q, s1)"
      and bad: "disj_from 0 bad" "all_aligned bad" "bytes_of bad = work_bytes m (pe_skip ?env)"
      using patch_linked_parts [OF lk [unfolded m Some] res(1) skip] by metis
    let ?s0 = "\<lparr>sk_img = rip_img R, sk_dur = rip_dur R, sk_map = m, sk_fs = rip_fs R, is_regular = is_reg st\<rparr>"
    have inv: "map_inv m" using res(1) by (simp add: resumable_def)
    have "disk_ok ph sh P ?s0"
    proof (rule disk_okI)
      show "map_inv m1 \<and> scope_aligned m1 \<and> header_ok m1 \<and> P (total_size m1) (scope m1) \<and>
          (\<forall>b. look (entries m1) b = Some Finished \<longrightarrow> sk_look ?s0 b = Some Finished)"
        if "load ph sh rd (sk_fs ?s0) (path (sk_map ?s0)) = Inr m1" for rd m1
      proof -
        have l1: "load ph sh rd (rip_fs R) mf = Inr m1" using that load_path [OF ld] by simp
        show ?thesis using rip_okD [OF old l1] load_again(1) [OF ld l1] by (simp add: resumable_def same_runs_def)
      qed
    qed (use res in \<open>simp_all add: resumable_def\<close>)
    moreover have "image_ok disc ?s0" using res(1) by (simp add: resumable_def image_ok_def)
    moreover have "\<forall>b \<in> bytes_of bad. b < total_size m \<and> look (entries m) b \<noteq> Some Finished"
      using work_not_finished [OF inv] bad(3) by blast
    ultimately have "disk_ok ph sh P s1 \<and> image_ok disc s1 \<and> path (sk_map s1) = path m"
      using patch_pass_disk [OF hex honest _ bad(1,2) _ _ op] by simp
    then show ?thesis unfolding R' using load_path [OF ld] by (intro after_pass_ok [OF hex]) simp_all
  qed
qed

end
