(* ===== verification/Float64Inv.thy ===== *)
theory Float64Inv
  imports Float64
begin

text \<open>
  Rounding never crosses a power of two: a positive result of \<open>f64\<close> arithmetic that is at least a
  representable power of two stays at least that after rounding, so it is not lost to underflow.
\<close>

subsection \<open>Powers of two\<close>

lemma pow2_pos [simp]: "0 < pow2 e"
  by (simp add: pow2_def)

lemma pow2_simps [simp]: "pow2 0 = 1" "pow2 (int n) = 2 ^ n"
  by (simp_all add: pow2_def)

lemma pow2_add: "pow2 (a + b) = pow2 a * pow2 b"
proof -
  have p: "pow2 e = 2 powi e" for e
    by (simp add: pow2_def power_int_def inverse_eq_divide power_one_over)
  show ?thesis by (simp add: p power_int_add)
qed

lemma pow2_diff: "pow2 (a - b) = pow2 a / pow2 b"
  using pow2_add [of "a - b" b] pow2_pos [of b] by (simp add: field_simps del: pow2_pos)

lemma pow2_ge1: "0 \<le> e \<Longrightarrow> 1 \<le> pow2 e"
  by (simp add: pow2_def)

lemma pow2_mono: "a \<le> b \<Longrightarrow> pow2 a \<le> pow2 b"
  using pow2_add [of a "b - a"] pow2_ge1 [of "b - a"] mult_left_mono [of 1 "pow2 (b - a)" "pow2 a"] pow2_pos [of a]
  by (simp add: less_imp_le del: pow2_pos)

lemma bit_size_bounds: "0 < n \<Longrightarrow> 2 ^ (bit_size n - 1) \<le> n \<and> n < 2 ^ bit_size n \<and> 0 < bit_size n"
proof (induction n rule: bit_size.induct)
  case (1 n)
  have step: "bit_size n = Suc (bit_size (n div 2))" using 1 by (subst bit_size.simps) simp
  show ?case
  proof (cases "n div 2 = 0")
    case True
    then have "n = 1" using 1 by linarith
    moreover have "bit_size (n div 2) = 0" using True by (subst bit_size.simps) simp
    ultimately show ?thesis using step by simp
  next
    case False
    then have ih: "2 ^ (bit_size (n div 2) - 1) \<le> n div 2" "n div 2 < 2 ^ bit_size (n div 2)" "0 < bit_size (n div 2)"
      using 1 by auto
    define p where "p = (2 :: nat) ^ (bit_size (n div 2) - 1)"
    have p: "2 ^ bit_size (n div 2) = 2 * p" using ih(3) by (simp add: p_def flip: power_Suc)
    have "p \<le> n div 2" "n div 2 < 2 * p" using ih(1,2) p by (simp_all add: p_def)
    then have "2 * p \<le> n" "n < 2 * (2 * p)" by linarith+
    then show ?thesis using step p by simp
  qed
qed

lemma ilog2_le:
  assumes "0 < q"
  shows "pow2 (ilog2 q) \<le> q"
proof -
  obtain a b where ab: "quotient_of q = (a, b)" by fastforce
  have b: "0 < b" "q = of_int a / of_int b" using quotient_of_denom_pos [OF ab] quotient_of_div [OF ab] by auto
  then have a: "0 < a" using assms by (simp add: zero_less_divide_iff)
  define e where "e = int (bit_size (nat a)) - int (bit_size (nat b))"
  have na: "2 ^ (bit_size (nat a) - 1) \<le> nat a" "0 < bit_size (nat a)" and nb: "nat b < 2 ^ bit_size (nat b)"
    using bit_size_bounds [of "nat a"] bit_size_bounds [of "nat b"] a b by auto
  have "(of_nat (2 ^ (bit_size (nat a) - 1)) :: rat) \<le> of_nat (nat a)"
    using na(1) by (simp only: of_nat_le_iff)
  then have up: "pow2 (int (bit_size (nat a)) - 1) \<le> of_int a" using a na(2) by (simp add: pow2_def nat_diff_distrib)
  have "(of_nat (nat b) :: rat) < of_nat (2 ^ bit_size (nat b))" using nb by (simp only: of_nat_less_iff)
  then have low: "of_int b \<le> pow2 (int (bit_size (nat b)))" using b by simp
  have "pow2 (e - 1) = pow2 (int (bit_size (nat a)) - 1) / pow2 (int (bit_size (nat b)))"
    by (simp add: e_def algebra_simps del: pow2_simps flip: pow2_diff)
  also have "\<dots> \<le> of_int a / of_int b"
    using up low a b(1) by (intro frac_le) (auto intro: less_imp_le)
  finally show ?thesis using ab b(2) by (simp add: ilog2_def Let_def e_def)
qed

subsection \<open>Rounding\<close>

lemma round_half_even_ge: "of_int n \<le> q \<Longrightarrow> n \<le> round_half_even q"
proof -
  assume "of_int n \<le> q"
  then have "n \<le> \<lfloor>q\<rfloor>" by (simp add: le_floor_iff)
  then show ?thesis by (simp add: round_half_even_def Let_def)
qed

text \<open>At least \<open>q\<close>, infinity included; false of a NaN.\<close>

definition at_least :: "rat \<Rightarrow> f64 \<Rightarrow> bool" where
  "at_least q x = (case x of PosInf \<Rightarrow> True | Fin v \<Rightarrow> q \<le> v | _ \<Rightarrow> False)"

lemma at_least_simps [simp]:
  "at_least q PosInf" "at_least q (Fin v) = (q \<le> v)" "\<not> at_least q NaN" "\<not> at_least q NegInf"
  by (simp_all add: at_least_def)

lemma round64_ge:
  assumes "pow2 k \<le> q" and "- 1074 \<le> k"
  shows "at_least (pow2 k) (round64 q)"
proof -
  have q: "0 < q" using assms(1) pow2_pos [of k] by linarith
  define e where "e = max (ilog2 \<bar>q\<bar> - 52) (- 1074)"
  define j where "j = max k e"
  have "pow2 j \<le> q \<or> e = ilog2 q - 52 \<and> k < e" using assms q by (auto simp: j_def e_def max_def)
  moreover have "pow2 j \<le> q" if "e = ilog2 q - 52" "k < e"
  proof -
    have "pow2 j \<le> pow2 (ilog2 q)" using that by (intro pow2_mono) (simp add: j_def)
    then show ?thesis using ilog2_le [OF q] by linarith
  qed
  ultimately have "pow2 j \<le> q" by blast
  then have "pow2 (j - e) \<le> q / pow2 e" unfolding pow2_diff by (intro divide_right_mono) (auto intro: less_imp_le)
  moreover have "pow2 (j - e) = of_int (2 ^ nat (j - e))" by (simp add: pow2_def j_def)
  ultimately have "2 ^ nat (j - e) \<le> round_half_even (q / pow2 e)" by (intro round_half_even_ge) simp
  then have "of_int (2 ^ nat (j - e)) \<le> (of_int (round_half_even (q / pow2 e)) :: rat)" by (simp only: of_int_le_iff)
  then have "pow2 (j - e) \<le> of_int (round_half_even (q / pow2 e))" by (simp add: pow2_def j_def)
  then have "pow2 (j - e) * pow2 e \<le> of_int (round_half_even (q / pow2 e)) * pow2 e" by simp
  moreover have "pow2 (j - e) * pow2 e = pow2 j" by (simp flip: pow2_add)
  moreover have "pow2 k \<le> pow2 j" by (intro pow2_mono) (simp add: j_def)
  ultimately have v: "pow2 k \<le> of_int (round_half_even (q / pow2 e)) * pow2 e" by linarith
  have eq: "round64 q = (let v = of_int (round_half_even (q / pow2 e)) * pow2 e
      in if \<bar>v\<bar> \<ge> pow2 1024 then if v < 0 then NegInf else PosInf else Fin v)"
    using q by (simp add: round64_def e_def Let_def)
  show ?thesis using v pow2_pos [of k] unfolding eq Let_def by (auto simp del: pow2_pos)
qed

lemma round64_zero [simp]: "round64 0 = Fin 0"
  by (simp add: round64_def)

lemma round64_small: "round64 q = Fin v \<Longrightarrow> v < pow2 1024"
  by (auto simp: round64_def Let_def split: if_splits)

lemma of_nat_at_least: "0 < n \<Longrightarrow> at_least 1 (f64_of_nat n)"
  using round64_ge [of 0 "of_nat n"] by (simp add: f64_of_nat_def)

lemma f64_of_nat_zero [simp]: "f64_of_nat 0 = Fin 0"
  by (simp add: f64_of_nat_def)

end
