(* ===== verification/LossProps.thy ===== *)
theory LossProps
  imports Loss Float64Inv Ranges
begin

text \<open>
  What the loss gate decides: a loss is timed exactly when it can be, never as nothing while a title is
  damaged, and the gate and the convergence rule read the damage of the titles the rip delivers.
\<close>

subsection \<open>Rates and times\<close>

declare pow2_pos [simp del]

lemma usable_iff: "usable x \<longleftrightarrow> (\<exists>v. x = Fin v \<and> 0 < v)"
  by (cases x) (auto simp: usable_def is_finite_def)

text \<open>The rate of a title is finite, positive and a double.\<close>

lemma title_rate: "\<exists>b. title_bytes_per_sec t = Fin b \<and> 0 < b \<and> b < pow2 1024"
proof -
  have big: "7500000 < pow2 1024" using pow2_mono [of 23 1024] by (simp add: pow2_def)
  have "\<exists>b. format_bytes_per_sec t = Fin b \<and> 0 < b \<and> b < pow2 1024"
    using big by (auto simp: format_bytes_per_sec_def SD_BYTES_PER_SEC_def HD_BYTES_PER_SEC_def UHD_BYTES_PER_SEC_def
        Let_def split: option.split)
  moreover have "b < pow2 1024" if d: "usable d" and fd: "f64_div (f64_of_nat n) d = Fin b" for b d n
  proof -
    obtain v where v: "d = Fin v" "0 < v" using d usable_iff by blast
    show ?thesis using fd v by (cases "f64_of_nat n") (auto simp: f64_div_def f64_neg_def dest: round64_small split: if_splits)
  qed
  moreover obtain n d where "title_bytes_per_sec t =
      (if n > 0 \<and> usable d \<and> usable (f64_div (f64_of_nat n) d) then f64_div (f64_of_nat n) d else format_bytes_per_sec t)"
    by (simp add: title_bytes_per_sec_def Let_def)
  ultimately show ?thesis using usable_iff by (metis (no_types, lifting))
qed

lemma pow_small: "pow2 (- 1024) * 1000 \<ge> pow2 (- 1024)" "0 < pow2 (- 1024)"
  using pow2_pos [of "- 1024"] by simp_all

lemma mul_at_least: "at_least q x \<Longrightarrow> 0 < q \<Longrightarrow> pow2 (- 1024) \<le> q \<Longrightarrow> at_least (pow2 (- 1024)) (f64_mul x MILLIS_PER_SEC)"
proof -
  assume x: "at_least q x" "0 < q" "pow2 (- 1024) \<le> q"
  show ?thesis
  proof (cases x)
    case (Fin v)
    then have "pow2 (- 1024) \<le> v * 1000" using x by simp
    then show ?thesis using Fin round64_ge [of "- 1024" "v * 1000"] by (simp add: f64_mul_def MILLIS_PER_SEC_def)
  qed (use x in \<open>auto simp: f64_mul_def MILLIS_PER_SEC_def inf_sign_def sign_of_def\<close>)
qed

text \<open>A lost byte takes time.\<close>

lemma lost_time: "0 < bad \<Longrightarrow> at_least (pow2 (- 1024)) (lost_ms_in_title t bad)"
proof -
  assume "0 < bad"
  obtain b where b: "title_bytes_per_sec t = Fin b" "0 < b" "b < pow2 1024" using title_rate by blast
  have "at_least 1 (f64_of_nat bad)" using \<open>0 < bad\<close> by (rule of_nat_at_least)
  then have "at_least (pow2 (- 1024)) (f64_div (f64_of_nat bad) (Fin b))"
  proof (cases "f64_of_nat bad")
    case (Fin v)
    then have "1 \<le> v" using \<open>at_least 1 (f64_of_nat bad)\<close> by simp
    have "pow2 (- 1024) = 1 / pow2 1024" using pow2_diff [of 0 1024] by simp
    also have "\<dots> \<le> v / b" using b \<open>1 \<le> v\<close> by (intro frac_le) (auto intro: less_imp_le)
    finally show ?thesis using Fin b round64_ge [of "- 1024" "v / b"] by (simp add: f64_div_def)
  qed (use b in \<open>auto simp: f64_div_def\<close>)
  then have "at_least (pow2 (- 1024)) (f64_mul (f64_div (f64_of_nat bad) (Fin b)) MILLIS_PER_SEC)"
    by (rule mul_at_least) (simp_all add: pow_small)
  then show ?thesis using \<open>0 < bad\<close> b by (simp add: lost_ms_in_title_def)
qed

lemma add_time:
  assumes "x = Fin 0 \<or> at_least (pow2 (- 1024)) x" and "y = Fin 0 \<or> at_least (pow2 (- 1024)) y"
  shows "f64_add x y = Fin 0 \<and> x = Fin 0 \<and> y = Fin 0 \<or>
    at_least (pow2 (- 1024)) (f64_add x y) \<and> (x \<noteq> Fin 0 \<or> y \<noteq> Fin 0)"
proof (cases "\<exists>a b. x = Fin a \<and> y = Fin b")
  case False
  then show ?thesis using assms by (cases x; cases y) (auto simp: f64_add_def)
next
  case True
  then obtain a b where ab: "x = Fin a" "y = Fin b" by blast
  have nn: "a = 0 \<or> pow2 (- 1024) \<le> a" "b = 0 \<or> pow2 (- 1024) \<le> b" using assms ab by auto
  show ?thesis
  proof (cases "a = 0 \<and> b = 0")
    case True
    then show ?thesis using ab by (simp add: f64_add_def)
  next
    case False
    then have "pow2 (- 1024) \<le> a + b" using nn pow_small(2) by linarith
    then show ?thesis using ab False round64_ge [of "- 1024" "a + b"] by (simp add: f64_add_def)
  qed
qed

definition untimed :: "range list \<Rightarrow> Title \<Rightarrow> bool" where
  "untimed bad t = (t_extents t = [] \<and> bad \<noteq> [])"

lemma add_lost_ms_ok:
  assumes "x = Fin 0 \<or> at_least (pow2 (- 1024)) x" and "add_lost_ms True x ts bad = (ms, why)"
  shows "if \<exists>t \<in> set ts. untimed bad t then ms = NaN \<and> why = Some NoExtents
    else why = None \<and> (ms = Fin 0 \<and> x = Fin 0 \<and> (\<forall>t \<in> set ts. t_bad_in t bad = 0) \<or>
      at_least (pow2 (- 1024)) ms \<and> (x \<noteq> Fin 0 \<or> (\<exists>t \<in> set ts. 0 < t_bad_in t bad)))"
  using assms
proof (induction ts arbitrary: x)
  case (Cons t ts)
  show ?case
  proof (cases "untimed bad t")
    case True
    then show ?thesis using Cons.prems(2)
      by (auto simp: end_of_recovery_lost_ms_def loss_is_unscopable_def untimed_def)
  next
    case False
    define y where "y = lost_ms_in_title t (t_bad_in t bad)"
    have y: "y = Fin 0 \<and> t_bad_in t bad = 0 \<or> at_least (pow2 (- 1024)) y \<and> 0 < t_bad_in t bad"
      using lost_time [of "t_bad_in t bad" t] by (cases "t_bad_in t bad = 0") (auto simp: y_def lost_ms_in_title_def)
    then have "y = Fin 0 \<or> at_least (pow2 (- 1024)) y" by blast
    note s = add_time [OF Cons.prems(1) this]
    have rest: "add_lost_ms True (f64_add x y) ts bad = (ms, why)"
      using Cons.prems(2) False by (auto simp: end_of_recovery_lost_ms_def loss_is_unscopable_def untimed_def y_def)
    have "y = Fin 0 \<longleftrightarrow> t_bad_in t bad = 0" using y pow_small(2) by auto
    moreover have "f64_add x y = Fin 0 \<or> at_least (pow2 (- 1024)) (f64_add x y)" using s by blast
    moreover have "f64_add x y = Fin 0 \<longleftrightarrow> x = Fin 0 \<and> y = Fin 0" using s pow_small(2) by auto
    ultimately show ?thesis using Cons.IH [OF _ rest] False by (auto split: if_splits)
  qed
qed auto

lemmas titles_lost_ms_ok = add_lost_ms_ok [of "Fin 0", simplified, folded titles_lost_ms_def]

subsection \<open>Byte counts\<close>

lemma wsum_exact: "sum_list xs \<le> u64_max \<Longrightarrow> wsum xs = sum_list xs"
proof -
  have "a + sum_list xs \<le> u64_max \<Longrightarrow> foldl wadd a xs = a + sum_list xs" for a
    by (induction xs arbitrary: a) (auto simp: wadd_exact)
  from this [of 0] show "sum_list xs \<le> u64_max \<Longrightarrow> wsum xs = sum_list xs" by (simp add: wsum_def)
qed

lemma damage_sum:
  assumes "disj_from 0 bad"
  shows "wsum (map snd bad) = 0 \<longleftrightarrow> bad = []"
proof -
  have eq: "sum_list (map snd bad) = total_len bad" by (induction bad) auto
  then have "wsum (map snd bad) = sum_list (map snd bad)" using disj_from_total_le [OF assms] by (simp add: wsum_exact)
  moreover have "bad \<noteq> [] \<Longrightarrow> 0 < sum_list (map snd bad)" using assms by (cases bad) auto
  ultimately show ?thesis by (metis less_irrefl list.simps(8) sum_list.Nil)
qed

lemma foldl_sat_pos: "0 < foldl (\<lambda>a t. sat_add a (f t)) a ts \<longleftrightarrow> 0 < a \<or> (\<exists>t \<in> set ts. 0 < f t)"
proof (induction ts arbitrary: a)
  case (Cons t ts)
  have "0 < sat_add a (f t) \<longleftrightarrow> 0 < a \<or> 0 < f t" by (auto simp: sat_add_def u64_max_def)
  then show ?case using Cons.IH by auto
qed simp

subsection \<open>The properties\<close>

text \<open>
The time a verdict reports is a NaN exactly when a ripped title has no extents to measure damage by and there is
damage, nothing exactly when no ripped title holds a damaged byte, and otherwise more than nothing: no rounding, no
estimated rate and no scan that misses a size or a duration turns a loss into a clean figure.
\<close>

theorem loss_timed:
  "let ms = lost_ms (loss_verdict is_iso ts bad secs);
       measured = (\<exists>t \<in> set ts. t_extents t = []) \<longrightarrow> bad = []
   in (is_nan ms \<longleftrightarrow> \<not> measured) \<and>
      (ms = Fin 0 \<longleftrightarrow> measured \<and> (\<forall>t \<in> set ts. t_bad_in t bad = 0)) \<and>
      (measured \<and> (\<exists>t \<in> set ts. t_bad_in t bad \<noteq> 0) \<longleftrightarrow> f64_less (Fin 0) ms)"
proof -
  obtain ms why where l: "titles_lost_ms True ts bad = (ms, why)" by fastforce
  have ms: "lost_ms (loss_verdict is_iso ts bad secs) = ms" by (simp add: loss_verdict_def Let_def l)
  have pos: "f64_less (Fin 0) ms" if "at_least (pow2 (- 1024)) ms"
    using that pow_small(2) by (cases ms) auto
  show ?thesis
    using titles_lost_ms_ok [OF l] pos pow_small(2) unfolding ms Let_def
    by (auto simp: untimed_def is_nan_def split: if_splits)
qed

theorem loss_timed_witness:
  "let t = \<lparr>t_size = 4096, t_extents = [(0, 2)], t_duration = Fin 2, t_clips = [], t_streams = [], t_format = BdTs,
            t_bad_in = (\<lambda>_. 2048)\<rparr>
   in f64_less (Fin 0) (lost_ms (loss_verdict False [t] [(0, 2048)] 5))"
  using loss_timed [of False "[\<lparr>t_size = 4096, t_extents = [(0, 2)], t_duration = Fin 2, t_clips = [], t_streams = [],
      t_format = BdTs, t_bad_in = (\<lambda>_. 2048)\<rparr>]" "[(0, 2048)]" 5]
  by (simp add: Let_def)

text \<open>
C35: When the rip is given up for its losses. An ISO, whatever tolerance is configured, is given up exactly when a byte
of the disc is unreadable; other deliverables with tolerance 0 exactly when a ripped title holds a damaged byte or its
damage cannot be measured; with a positive tolerance exactly when the loss is timed, finite and over it, and then a
ripped title is damaged: a rip is never given up for missing metadata or damage outside its titles.
\<close>

theorem loss_gate_exact:
  assumes "disj_from 0 bad"
  shows "aborts (loss_verdict is_iso ts bad (effective_abort_secs is_iso secs)) \<longleftrightarrow>
    (if is_iso then bad \<noteq> []
     else if secs = 0 then \<exists>t \<in> set ts. t_bad_in t bad \<noteq> 0 \<or> t_extents t = [] \<and> bad \<noteq> []
     else \<exists>v. lost_ms (loss_verdict is_iso ts bad secs) = Fin v \<and>
       f64_less (f64_mul (f64_of_nat secs) MILLIS_PER_SEC) (Fin v) \<and>
       (\<exists>t \<in> set ts. t_bad_in t bad \<noteq> 0) \<and> \<not> (\<exists>t \<in> set ts. t_extents t = [] \<and> bad \<noteq> []))"
proof -
  obtain ms why where l: "titles_lost_ms True ts bad = (ms, why)" by fastforce
  note t = titles_lost_ms_ok [OF l]
  have ms: "lost_ms (loss_verdict is_iso ts bad s) = ms" for s by (simp add: loss_verdict_def Let_def l)
  have nan: "is_nan ms \<longleftrightarrow> (\<exists>t \<in> set ts. untimed bad t)"
    using t pow_small(2) by (auto simp: is_nan_def split: if_splits)
  have lost: "0 < titles_abort_lost_bytes False ts bad \<longleftrightarrow> (\<exists>t \<in> set ts. 0 < t_bad_in t bad)"
    using foldl_sat_pos [of "\<lambda>t. t_bad_in t bad" 0 ts] by (simp add: titles_abort_lost_bytes_def abort_lost_bytes_def Let_def)
  have un: "list_ex (\<lambda>t. loss_is_unscopable is_iso t bad) ts \<longleftrightarrow> \<not> is_iso \<and> (\<exists>t \<in> set ts. untimed bad t)"
    by (auto simp: list_ex_iff loss_is_unscopable_def untimed_def)
  have ab: "aborts (loss_verdict is_iso ts bad s) = loss_aborts
      (if is_iso \<or> (\<exists>t \<in> set ts. untimed bad t) then wsum (map snd bad) else titles_abort_lost_bytes is_iso ts bad) ms s" for s
    using un by (auto simp: loss_verdict_def Let_def l)
  have thr: "\<not> f64_less (f64_mul (f64_of_nat secs) MILLIS_PER_SEC) (Fin 0)" if "secs \<noteq> 0"
  proof -
    have "at_least (pow2 (- 1024)) (f64_mul (f64_of_nat secs) MILLIS_PER_SEC)"
      using that of_nat_at_least [of secs] pow2_mono [of "- 1024" 0] by (intro mul_at_least [of 1]) simp_all
    then show ?thesis using pow_small(2) by (cases "f64_mul (f64_of_nat secs) MILLIS_PER_SEC") auto
  qed
  consider (iso) "is_iso" | (perfect) "\<not> is_iso" "secs = 0" | (tolerant) "\<not> is_iso" "secs \<noteq> 0" by blast
  then show ?thesis
  proof cases
    case iso
    then show ?thesis using nan damage_sum [OF assms] unfolding ab effective_abort_secs_def
      by (auto simp: loss_aborts_def untimed_def)
  next
    case perfect
    then show ?thesis using nan lost unfolding ab effective_abort_secs_def by (auto simp: loss_aborts_def untimed_def)
  next
    case tolerant
    have fin: "is_finite ms \<longleftrightarrow> (\<exists>v. ms = Fin v)" by (cases ms) (auto simp: is_finite_def)
    have eq: "aborts (loss_verdict is_iso ts bad (effective_abort_secs is_iso secs)) \<longleftrightarrow>
        (\<exists>v. ms = Fin v \<and> f64_less (f64_mul (f64_of_nat secs) MILLIS_PER_SEC) (Fin v))"
      using tolerant fin unfolding ab effective_abort_secs_def by (auto simp: loss_aborts_def should_abort_for_loss_def)
    have "(\<exists>t \<in> set ts. t_bad_in t bad \<noteq> 0) \<and> \<not> (\<exists>t \<in> set ts. t_extents t = [] \<and> bad \<noteq> [])"
      if "ms = Fin v" "f64_less (f64_mul (f64_of_nat secs) MILLIS_PER_SEC) (Fin v)" for v
      using t that thr [OF tolerant(2)] by (auto simp: untimed_def split: if_splits)
    then show ?thesis using tolerant unfolding eq ms by auto
  qed
qed

theorem loss_gate_exact_witness:
  "aborts (loss_verdict True [] [(2048, 2048)] (effective_abort_secs True 600))"
  using loss_gate_exact [of "[(2048, 2048)]" True "[]" 600] by (simp add: u64_max_def)

text \<open>
The patch passes are skipped early only on evidence: the deliverable's scope converges exactly when Pass 1 read
something, its damage can be measured in every title, and there is none left in the scope (the disc's for an ISO, the
titles' otherwise); an unmeasured scope never converges.
\<close>

theorem convergence_exact:
  assumes "disj_from 0 bad" and "ts \<noteq> []"
  shows "pre_pass_converged (titles_scope_bad is_iso bad ts) good \<longleftrightarrow>
    0 < good \<and> (if is_iso then bad = [] else \<forall>t \<in> set ts. t_bad_in t bad = 0 \<and> (t_extents t = [] \<longrightarrow> bad = []))"
proof -
  have conv: "pre_pass_converged sb good \<longleftrightarrow> 0 < good \<and> sb = Some 0" for sb
    by (cases sb) (auto simp: pre_pass_converged_def patch_pass_decision_measured_def patch_pass_decision_def
        scope_converged_def no_progress_made_def)
  have iso: "add_scope_bad True a bad ts = Some (if ts = [] then a else wsum (map snd bad))" for a
    by (induction ts arbitrary: a)
      (auto simp: measured_scope_bad_def loss_is_unscopable_def scope_bad_bytes_def abort_lost_bytes_def)
  have mux: "add_scope_bad False a bad ts = Some 0 \<longleftrightarrow>
      a = 0 \<and> (\<forall>t \<in> set ts. t_bad_in t bad = 0 \<and> (t_extents t = [] \<longrightarrow> bad = []))" for a
  proof (induction ts arbitrary: a)
    case (Cons t ts)
    have "sat_add a n = 0 \<longleftrightarrow> a = 0 \<and> n = 0" for n by (auto simp: sat_add_def u64_max_def)
    then show ?case using Cons.IH
      by (auto simp: measured_scope_bad_def loss_is_unscopable_def scope_bad_bytes_def abort_lost_bytes_def)
  qed simp
  show ?thesis
    using iso assms(2) mux damage_sum [OF assms(1)] unfolding conv titles_scope_bad_def by (cases is_iso) auto
qed

definition bare_title :: Title where
  "bare_title = \<lparr>t_size = 0, t_extents = [], t_duration = Fin 0, t_clips = [], t_streams = [], t_format = BdTs,
     t_bad_in = (\<lambda>_. 0)\<rparr>"

theorem convergence_exact_witness:
  "pre_pass_converged (titles_scope_bad True [] [bare_title]) 2048"
  using convergence_exact [of "[]" "[bare_title]" True 2048] by simp

end
