(* ===== verification/RipProps.thy ===== *)
theory RipProps
  imports RipInv LossProps
begin

text \<open>
  What a whole recovery promises: its files always fit together, a result marked complete is the disc, what
  is left bad is promoted exactly when the passes ran out, and the run ends.
\<close>

subsection \<open>A run of passes\<close>

text \<open>
  \<open>pre\<close> holds of the files before Pass 1 and after any attempt at it, \<open>post\<close> of those a sweep that got to
  its result left.
\<close>

locale keeps_rip =
  fixes pre :: "Rip \<Rightarrow> bool" and post :: "Rip \<Rightarrow> bool"
    and sweep :: "nat \<Rightarrow> Rip \<Rightarrow> (sweep_error + CopyResult) option \<times> Rip"
    and patch :: "nat \<Rightarrow> Rip \<Rightarrow> (patch_error + PatchOutcome) \<times> Rip"
  assumes sweep_pre: "pre R \<Longrightarrow> sweep a R = (r, R') \<Longrightarrow> pre R'"
    and sweep_post: "pre R \<Longrightarrow> sweep a R = (Some (Inr sr), R') \<Longrightarrow> post R'"
    and patch_post: "post R \<Longrightarrow> patch n R = (q, R') \<Longrightarrow> post R'"
begin

lemma attempts_keep:
  "sweep_attempts sweep env k a e R = Some (x, R') \<Longrightarrow> pre R \<Longrightarrow> pre R' \<and> (\<forall>sr. x = Inr sr \<longrightarrow> post R')"
proof (induction k arbitrary: a e R)
  case (Suc k)
  obtain r S where step: "sweep a R = (r, S)" by fastforce
  have S: "pre S" by (rule sweep_pre [OF Suc.prems(2) step])
  consider "r = None" | sr where "r = Some (Inr sr)" | er where "r = Some (Inl er)"
    by (metis option.exhaust sum.exhaust)
  then show ?case
  proof cases
    case 1
    then show ?thesis using Suc.prems(1) step by simp
  next
    case 2
    then show ?thesis using Suc.prems step S sweep_post [of R a sr S] by simp
  next
    case 3
    let ?again = "transport_lost (r_transport env) er \<and> \<not> r_stop_sweep env a \<and> r_recover env a"
    have run: "(if ?again then sweep_attempts sweep env k (a + 1) (Some er) S else Some (Inl (SweepFailed er), S)) = Some (x, R')"
      using Suc.prems(1) step 3 by simp
    show ?thesis
    proof (cases ?again)
      case True
      then show ?thesis using run by (intro Suc.IH [OF _ S]) simp
    next
      case False
      then have "x = Inl (SweepFailed er)" "R' = S" using run by auto
      then show ?thesis using S by simp
    qed
  qed
qed auto

lemma loop_keep:
  "patch_loop patch sb env opts ns l R = (e, l', R') \<Longrightarrow> post R \<Longrightarrow> post R' \<and> lp_passes l' \<le> lp_passes l + length ns"
proof (induction ns arbitrary: l R)
  case (Cons n ns)
  obtain q S where step: "patch n R = (q, S)" by fastforce
  have S: "post S" by (rule patch_post [OF Cons.prems(2) step])
  consider "R' = R" "l' = l \<or> l' = l\<lparr>lp_halted := True\<rparr>" | "R' = S" "lp_passes l' \<le> lp_passes l + 1"
    | pr where "patch_loop patch sb env opts ns (note_pass pr l) S = (e, l', R')"
    using Cons.prems(1) step by (auto simp: Let_def note_pass_def split: if_splits sum.splits)
  then show ?case
  proof cases
    case 1
    then show ?thesis using Cons.prems(2) by auto
  next
    case 2
    then show ?thesis using S by simp
  next
    case 3
    from Cons.IH [OF this S] show ?thesis by (simp add: note_pass_def)
  qed
qed simp

end

text \<open>What the observations of a run may be.\<close>

definition rip_env_ok ::
  "(nat \<Rightarrow> string \<Rightarrow> nat list option) \<Rightarrow> (string \<Rightarrow> nat list \<Rightarrow> nat list) \<Rightarrow> (nat \<Rightarrow> nat) \<Rightarrow> bool \<Rightarrow> nat \<Rightarrow> RipEnv \<Rightarrow>
   (nat \<times> nat) list option \<Rightarrow> bool" where
  "rip_env_ok ph sh disc wh N env sc \<longleftrightarrow> hex_parser_ok ph \<and>
     (\<forall>a. sweep_obs_ok ph sh disc (r_sweep env a) \<and> (\<forall>k. se_sectors (so_env (r_sweep env a)) = Inr k \<longrightarrow> k = N)) \<and>
     (\<forall>n. patch_obs_ok disc (r_patch env n)) \<and> scope_opt_ok (map_option sector_scope_to_bytes sc) \<and> (wh \<longrightarrow> sc = None)"

interpretation rip: keeps_rip
  "\<lambda>R. rip_env_ok ph sh disc wh N env sc \<longrightarrow> rip_ok ph sh mf disc (unscoped wh) R"
  "\<lambda>R. rip_env_ok ph sh disc wh N env sc \<longrightarrow> rip_ok ph sh mf disc (sized wh (N * SECTOR)) R"
  "\<lambda>a. sweep_step ph sh mf (pass1_options job sc resume a) (r_sweep env a)"
  "\<lambda>n. patch_step ph sh mf (r_patch env n)"
  for ph sh disc wh N env sc mf job resume
proof unfold_locales
  fix R R' a r assume pre: "rip_env_ok ph sh disc wh N env sc \<longrightarrow> rip_ok ph sh mf disc (unscoped wh) R"
    and run: "sweep_step ph sh mf (pass1_options job sc resume a) (r_sweep env a) R = (r, R')"
  show "rip_env_ok ph sh disc wh N env sc \<longrightarrow> rip_ok ph sh mf disc (unscoped wh) R'"
    using pre by (auto simp: rip_env_ok_def pass1_options_def intro!: sweep_step_ok(1) [OF _ _ _ _ _ _ run])
next
  fix R R' a sr assume pre: "rip_env_ok ph sh disc wh N env sc \<longrightarrow> rip_ok ph sh mf disc (unscoped wh) R"
    and run: "sweep_step ph sh mf (pass1_options job sc resume a) (r_sweep env a) R = (Some (Inr sr), R')"
  show "rip_env_ok ph sh disc wh N env sc \<longrightarrow> rip_ok ph sh mf disc (sized wh (N * SECTOR)) R'"
    using pre by (auto simp: rip_env_ok_def pass1_options_def intro!: sweep_step_ok(2) [OF _ _ _ _ _ _ run refl])
next
  fix R R' n q assume post: "rip_env_ok ph sh disc wh N env sc \<longrightarrow> rip_ok ph sh mf disc (sized wh (N * SECTOR)) R"
    and run: "patch_step ph sh mf (r_patch env n) R = (q, R')"
  then show "rip_env_ok ph sh disc wh N env sc \<longrightarrow> rip_ok ph sh mf disc (sized wh (N * SECTOR)) R'"
    using patch_step_ok [OF _ _ _ run] by (auto simp: rip_env_ok_def)
qed

subsection \<open>The promotion\<close>

lemma saved_rip_ok:
  assumes hex: "hex_parser_ok ph" and old: "rip_ok ph sh mf disc P R" and kept: "kept mf m' (rip_fs R) f'"
    and m': "resumable disc (rip_img R) m'" "header_ok m'" "P (total_size m') (scope m')"
  shows "rip_ok ph sh mf disc P (R\<lparr>rip_fs := f'\<rparr>)"
proof -
  have "resumable disc (rip_img R) m \<and> header_ok m \<and> P (total_size m) (scope m)" if ld: "load ph sh rd f' mf = Inr m" for rd m
  proof (cases "f' mf = rip_fs R mf")
    case True
    then have "load ph sh rd (rip_fs R) mf = Inr m" using ld load_path_only by metis
    then show ?thesis by (rule rip_okD [OF old])
  next
    case False
    then have "f' mf = Some (print_map m')" using kept by (simp add: kept_def)
    from load_own_text [OF hex m'(2) _ this ld] show ?thesis using m' by (simp add: resumable_def)
  qed
  then show ?thesis by (intro rip_okI) simp
qed

lemma promote_map_head: "same_head (promote_map frm to m) m"
  by (simp add: promote_map_def Let_def same_head_def)

lemma promote_aligned: "map_inv m \<Longrightarrow> map_inv (promote_map frm to m)"
proof -
  assume inv: "map_inv m"
  then have ok: "canon (entries m)" "entries_aligned (entries m)" by (simp_all add: map_inv_def map_ok_def)
  let ?es = "map (\<lambda>e. if e_status e \<in> set frm then e\<lparr>e_status := to\<rparr> else e) (entries m)"
  have runs: "runs_from c es \<Longrightarrow> runs_from c (map (\<lambda>e. if e_status e \<in> set frm then e\<lparr>e_status := to\<rparr> else e) es)" for c es
    by (induction es arbitrary: c) auto
  have "entries_aligned ?es" using ok(2) by (auto simp: entries_aligned_def)
  then have "entries_aligned (merge_runs ?es)" using ok(1) by (intro merge_runs_aligned [OF runs [of 0]]) (simp_all add: canon_def)
  then have "entries_aligned (entries (promote_map frm to m))"
    by (simp add: promote_map_def promote_entries_def coalesce_eq_merge_runs Let_def)
  moreover have "total_size (promote_map frm to m) = total_size m" using promote_map_head [of frm to m] by (simp add: same_head_def)
  ultimately show ?thesis using map_ok_promote(1) inv by (simp add: map_inv_def)
qed

lemma promote_parts:
  assumes "promote env frm to m f = (q, m', f')"
  shows "same_map m' (promote_map frm to m) \<and> kept (path m) m' f f'"
proof (cases "promote_hit frm (entries m)")
  case True
  then have "changed env (promote_map frm to m) f = (q, m', f')" using assms by (simp add: promote_def)
  moreover have "path (promote_map frm to m) = path m" using promote_map_head [of frm to m] by (simp add: same_head_def)
  ultimately show ?thesis using changed_same changed_kept by metis
next
  case False
  then show ?thesis using assms by (auto simp: promote_def same_map_def)
qed

lemma drop_map_kept: "kept (path m) m f (drop_map env m f)"
proof -
  obtain q m' f' where fl: "flush env m f = (q, m', f')" by (rule prod_cases3)
  have "print_map m' = print_map m"
    using persist_cases [of env m f] fl by (auto simp: flush_def clean_def split: if_splits)
  then show ?thesis using flush_kept [OF fl] by (simp add: drop_map_def fl kept_def)
qed

text \<open>The map the promotion ends with, and the file.\<close>

lemma promote_all_ok:
  assumes hex: "hex_parser_ok ph" and old: "rip_ok ph sh mf disc P R" and ld: "load ph sh rd (rip_fs R) mf = Inr m"
    and run: "promote_all env m (rip_fs R) = (intact, m', f')"
  shows "same_map m' (promote_map [NonTrimmed, NonScraped] Unreadable m)"
    and "map_inv m'" and "resumable disc (rip_img R) m'" and "P (total_size m') (scope m')"
    and "rip_ok ph sh mf disc P (R\<lparr>rip_fs := f'\<rparr>)"
    and "look (entries m') b = map_option (\<lambda>s. if s \<in> {NonTrimmed, NonScraped} then Unreadable else s) (look (entries m) b)"
proof -
  let ?pm = "promote_map [NonTrimmed, NonScraped] Unreadable m"
  obtain q1 m1 f1 where p: "promote (r_promote env) [NonTrimmed, NonScraped] Unreadable m (rip_fs R) = (q1, m1, f1)"
    by (rule prod_cases3)
  obtain q2 m2 f2 where fl: "flush (r_flush env) m1 f1 = (q2, m2, f2)" by (rule prod_cases3)
  have eq: "m' = m2" "f' = drop_map (r_drop env) m2 f2"
    using run p fl by (auto simp: promote_all_def end_of_recovery_promotion_def)
  note pp = promote_parts [OF p]
  have ok: "resumable disc (rip_img R) m" "header_ok m" "P (total_size m) (scope m)" and path: "path m = mf"
    using rip_okD [OF old ld] load_path [OF ld] by simp_all
  have same: "same_map m2 ?pm" "same_map m1 ?pm" using flush_same [OF fl] pp by (simp_all add: same_map_def)
  then show "same_map m' ?pm" by (simp add: eq)
  have inv: "map_inv ?pm" "map_inv m" using promote_aligned ok(1) by (simp_all add: resumable_def)
  have head: "same_head ?pm m" by (rule promote_map_head)
  have lk: "look (entries ?pm) b = map_option (\<lambda>s. if s \<in> {NonTrimmed, NonScraped} then Unreadable else s) (look (entries m) b)" for b
    using map_ok_promote(2) [of m "[NonTrimmed, NonScraped]" Unreadable b] inv(2) by (simp add: map_inv_def)
  then show "look (entries m') b = map_option (\<lambda>s. if s \<in> {NonTrimmed, NonScraped} then Unreadable else s) (look (entries m) b)"
    using same(1) by (simp add: eq same_map_def)
  have res: "resumable disc (rip_img R) x \<and> header_ok x \<and> P (total_size x) (scope x) \<and> path x = mf" if "same_map x ?pm" for x
  proof -
    have h: "same_head x m" using same_head_trans [OF same_map_head [OF that] head] .
    have "\<forall>b. look (entries x) b = Some Finished \<longrightarrow> rip_img R b = disc b"
      using ok(1) lk that by (auto simp: resumable_def same_map_def split: if_splits)
    then show ?thesis
      using same_map_inv(1) [OF that] inv(1) same_head_ok [OF h] ok h path by (simp add: resumable_def same_head_def)
  qed
  show "map_inv m'" "resumable disc (rip_img R) m'" "P (total_size m') (scope m')"
    using res [OF same(1)] eq(1) by (simp_all add: resumable_def)
  have "kept mf m1 (rip_fs R) f1" using pp path by simp
  then have r1: "rip_ok ph sh mf disc P (R\<lparr>rip_fs := f1\<rparr>)" using res [OF same(2)] saved_rip_ok [OF hex old, of m1 f1] by blast
  have "kept mf m2 f1 f2" using flush_kept [OF fl] res [OF same(2)] by simp
  then have r2: "rip_ok ph sh mf disc P (R\<lparr>rip_fs := f2\<rparr>)"
    using res [OF same(1)] saved_rip_ok [OF hex r1, of m2 f2] by simp
  have "kept mf m2 f2 f'" using drop_map_kept [of m2 f2] res [OF same(1)] eq by simp
  then show "rip_ok ph sh mf disc P (R\<lparr>rip_fs := f'\<rparr>)"
    using res [OF same(1)] saved_rip_ok [OF hex r2, of m2 f'] by simp
qed

subsection \<open>The single pass\<close>

text \<open>A dispatch touches the map file only to widen a scope: by a flush, and by the drop after a failed one.\<close>

lemma copy_dispatch_file:
  assumes "copy_titled ph sh env mf f = (r, f')"
  obtains "f' = f"
  | m q m' f1 where "load ph sh (ce_read env) f mf = Inr m" "flush (ce_flush env) (clear_scope m) f = (q, m', f1)"
      "f' = f1 \<or> f' = drop_map (ce_drop env) m' f1"
proof (cases "f' = f")
  case False
  then obtain m where ld: "load ph sh (ce_read env) f mf = Inr m" and "snd (dispatch_loaded env m f) = f'"
    using assms by (auto simp: copy_titled_def split: sum.splits if_splits prod.splits)
  then have w: "snd (widen env m f) = f'"
    using False by (auto simp: dispatch_loaded_def split: sum.splits bool.splits prod.splits)
  obtain q m' f1 where fl: "flush (ce_flush env) (clear_scope m) f = (q, m', f1)" by (rule prod_cases3)
  then have "f' = f1 \<or> f' = drop_map (ce_drop env) m' f1"
    using w False by (auto simp: widen_def split: if_splits sum.splits)
  then show ?thesis using that(2) ld fl by blast
qed (use that(1) in blast)

lemma copy_dispatch_keeps:
  assumes hex: "hex_parser_ok ph" and old: "rip_ok ph sh mf disc (unscoped wh) R"
    and run: "copy_titled ph sh env mf (rip_fs R) = (a, f')"
  shows "rip_ok ph sh mf disc (unscoped wh) (R\<lparr>rip_fs := f'\<rparr>)"
  using run
proof (cases rule: copy_dispatch_file)
  case 1
  then show ?thesis using old by simp
next
  case (2 m q m' f1)
  have m: "resumable disc (rip_img R) m" "header_ok m" "path m = mf" using rip_okD [OF old 2(1)] load_path [OF 2(1)] by simp_all
  have clear: "path (clear_scope m) = path m" "header_ok (clear_scope m)" "scope (clear_scope m) = None"
    "entries (clear_scope m) = entries m" "map_inv (clear_scope m) = map_inv m"
    using m(2) by (auto simp: clear_scope_def header_ok_def map_inv_def map_ok_def split: option.splits)
  note fl = flush_same [OF 2(2)]
  have p: "path m' = mf" using fl clear m(3) by (simp add: same_map_def)
  have m': "resumable disc (rip_img R) m'" "header_ok m'" "unscoped wh (total_size m') (scope m')"
    using same_map_inv [OF fl] m clear fl by (simp_all add: resumable_def scope_aligned_def same_map_def unscoped_def)
  have "kept mf m' (rip_fs R) f1" using flush_kept [OF 2(2)] clear m(3) by simp
  then have r1: "rip_ok ph sh mf disc (unscoped wh) (R\<lparr>rip_fs := f1\<rparr>)" using m' by (rule saved_rip_ok [OF hex old])
  have "kept mf m' f1 (drop_map (ce_drop env) m' f1)" using drop_map_kept [of m' f1] p by simp
  then have "rip_ok ph sh mf disc (unscoped wh) (R\<lparr>rip_fs := drop_map (ce_drop env) m' f1\<rparr>)"
    using m' saved_rip_ok [OF hex r1, of m' "drop_map (ce_drop env) m' f1"] by simp
  then show ?thesis using 2(3) r1 by blast
qed

lemma sweep_step_keeps:
  assumes env: "rip_env_ok ph sh disc wh N env sc" and sc: "sw_scope opts = None \<or> sw_scope opts = map_option sector_scope_to_bytes sc"
    and old: "rip_ok ph sh mf disc (unscoped wh) R" and run: "sweep_step ph sh mf opts (r_sweep env a) R = (r, R')"
  shows "rip_ok ph sh mf disc (unscoped wh) R'"
proof (rule sweep_step_ok(1) [OF _ _ _ _ old _ run, of N])
  show "scope_opt_ok (sw_scope opts)" "wh \<Longrightarrow> sw_scope opts = None"
    using env sc by (auto simp: rip_env_ok_def scope_opt_ok_def)
qed (use env in \<open>simp_all add: rip_env_ok_def\<close>)

lemma copy_run_keeps:
  assumes env: "rip_env_ok ph sh disc wh N env sc" and old: "rip_ok ph sh mf disc (unscoped wh) R"
    and run: "copy_run ph sh mf dec multi env R = Some (r, R')"
  shows "rip_ok ph sh mf disc (unscoped wh) R'"
proof -
  let ?env = "(r_copy env)\<lparr>ce_decrypt := dec, ce_multipass := multi\<rparr>"
  obtain x f' where c: "copy_titled ph sh ?env mf (rip_fs R) = (x, f')" by fastforce
  have hex: "hex_parser_ok ph" using env by (simp add: rip_env_ok_def)
  note R1 = copy_dispatch_keeps [OF hex old c]
  consider e where "x = Inl e" | resume where "x = Inr (RunSweep resume)" | "x = Inr RunPatch" | y where "x = Inr (Report y)"
    by (metis sum.exhaust copy_action.exhaust)
  then show ?thesis
  proof cases
    case (2 resume)
    let ?opts = "\<lparr>sw_decrypt = dec, sw_resume = resume, sw_scope = None, sw_skip_on_error = multi\<rparr>"
    obtain q where "sweep_step ph sh mf ?opts (r_sweep env 1) (R\<lparr>rip_fs := f'\<rparr>) = (q, R')"
      using run c 2 by (auto simp: copy_run_def split: prod.splits option.splits sum.splits)
    then show ?thesis by (intro sweep_step_keeps [OF env _ R1, of ?opts]) simp_all
  next
    case 3
    obtain q where "patch_step ph sh mf (r_patch env 1) (R\<lparr>rip_fs := f'\<rparr>) = (q, R')"
      using run c 3 by (auto simp: copy_run_def split: prod.splits sum.splits)
    moreover have "patch_obs_ok disc (r_patch env 1)" using env by (simp add: rip_env_ok_def)
    ultimately show ?thesis using patch_step_ok [OF hex _ R1] by blast
  qed (use run c R1 in \<open>auto simp: copy_run_def\<close>)
qed

lemma single_pass_keeps:
  assumes env: "rip_env_ok ph sh disc wh N env sc" and old: "rip_ok ph sh mf disc (unscoped wh) R"
    and run: "single_pass ph sh mf env job sc R = Some (r, R')"
  shows "rip_ok ph sh mf disc (unscoped wh) R'"
proof (cases sc)
  case None
  then obtain q where "copy_run ph sh mf (\<not> j_raw job) False env R = Some (q, R')"
    using run by (auto simp: single_pass_def)
  then show ?thesis by (rule copy_run_keeps [OF env old])
next
  case (Some s)
  let ?opts = "\<lparr>sw_decrypt = \<not> j_raw job, sw_resume = (rip_fs R mf \<noteq> None),
      sw_scope = Some (sector_scope_to_bytes s), sw_skip_on_error = False\<rparr>"
  obtain q where "sweep_step ph sh mf ?opts (r_sweep env 1) R = (q, R')"
    using run Some by (auto simp: single_pass_def split: prod.splits option.splits sum.splits)
  then show ?thesis using Some by (intro sweep_step_keeps [OF env _ old, of ?opts]) simp_all
qed

subsection \<open>The whole run\<close>

lemma recover_end_keeps:
  assumes hex: "hex_parser_ok ph" and old: "rip_ok ph sh mf disc P R"
    and run: "recover_end ph sh mf env opts titles (e, l, R) = (r, R')"
  shows "rip_ok ph sh mf disc P R' \<and> rip_img R' = rip_img R"
proof (cases "e = LoopOver \<and> \<not> (lp_halted l \<or> r_stop_end env)")
  case False
  then show ?thesis using run old by (cases e) (auto simp: recover_end_def)
next
  case True
  then have "R' = snd (rip_end ph sh mf env opts titles l R)" using run by (auto simp: recover_end_def split: prod.splits)
  moreover have "rip_ok ph sh mf disc P (snd (rip_end ph sh mf env opts titles l R)) \<and>
      rip_img (snd (rip_end ph sh mf env opts titles l R)) = rip_img R"
  proof (cases "load ph sh (r_final env) (rip_fs R) mf")
    case (Inl x)
    then show ?thesis using old by (simp add: rip_end_def Let_def)
  next
    case (Inr m)
    obtain intact m' f' where pa: "promote_all env m (rip_fs R) = (intact, m', f')" by (rule prod_cases3)
    have "rip_ok ph sh mf disc P (R\<lparr>rip_fs := f'\<rparr>)" by (rule promote_all_ok(5) [OF hex old Inr pa])
    then show ?thesis using Inr pa by (simp add: rip_end_def Let_def)
  qed
  ultimately show ?thesis by simp
qed

text \<open>The parts of a multipass run.\<close>

lemma recover_parts:
  assumes "rip_recover ph sh mf env opts job sc R = Some (r, R')" and "0 < max_passes opts"
  obtains e where "r = Inl e" "R' = R"
  | resume a where "sweep_attempts (\<lambda>a. sweep_step ph sh mf (pass1_options job sc resume a) (r_sweep env a)) env
      (max (max_sweep_attempts opts) 1) 1 None R = Some (Inl a, R')" "r = Inl a"
  | resume sr S titles x where "sweep_attempts (\<lambda>a. sweep_step ph sh mf (pass1_options job sc resume a) (r_sweep env a)) env
      (max (max_sweep_attempts opts) 1) 1 None R = Some (Inr sr, S)"
    "titles = measured_titles (j_titles job) (j_picked job) (j_no_title job)"
    "patch_passes_run ph sh mf env opts titles (min (max_passes opts) 253) (pass1_noted sr) S = x"
    "recover_end ph sh mf env opts titles x = (r, R')"
proof -
  have plan: "multipass (plan_passes (min (max_passes opts) 255))"
    "patch_passes (plan_passes (min (max_passes opts) 255)) = min (max_passes opts) 253"
    using assms(2) by (simp_all add: plan_passes_def Let_def)
  let ?titles = "measured_titles (j_titles job) (j_picked job) (j_no_title job)"
  show thesis
  proof (cases "prior_map ph sh mf (r_prior env) (rip_fs R)")
    case (Inl e)
    then have "r = Inl (RipIo e)" "R' = R" using assms(1) by (auto simp: rip_recover_def Let_def)
    then show thesis by (rule that(1))
  next
    case (Inr prior)
    define resume where "resume = (case resume_sweep opts of Some b \<Rightarrow> b | None \<Rightarrow> Option.bind prior raw \<noteq> None)"
    let ?at = "sweep_attempts (\<lambda>a. sweep_step ph sh mf (pass1_options job sc resume a) (r_sweep env a)) env
      (max (max_sweep_attempts opts) 1) 1 None R"
    have run: "(case ?at of None \<Rightarrow> None | Some (Inl e, R') \<Rightarrow> Some (Inl e, R') | Some (Inr sr, R') \<Rightarrow>
        Some (recover_end ph sh mf env opts ?titles
          (patch_passes_run ph sh mf env opts ?titles (min (max_passes opts) 253) (pass1_noted sr) R'))) = Some (r, R')"
      using assms(1) by (simp only: rip_recover_def Let_def Inr plan resume_def sum.case not_True_eq_False if_False)
    then obtain q S where at: "?at = Some (q, S)" by (cases ?at) auto
    show thesis
    proof (cases q)
      case (Inl e)
      then show thesis using run at that(2) by auto
    next
      case (Inr sr)
      then show thesis using run at that(3) [OF _ refl refl] by auto
    qed
  qed
qed

text \<open>The single pass, when no multipass run was asked for.\<close>

lemma recover_single:
  assumes "max_passes opts = 0" and "rip_recover ph sh mf env opts job sc R = Some (r, R')"
  obtains e where "r = Inl (RipIo e)" "R' = R" | "single_pass ph sh mf env job sc R = Some (r, R')"
  using assms by (cases "prior_map ph sh mf (r_prior env) (rip_fs R)") (auto simp: rip_recover_def Let_def plan_passes_def)

lemma patch_passes_keep:
  assumes env: "rip_env_ok ph sh disc wh N env sc" and old: "rip_ok ph sh mf disc (sized wh (N * SECTOR)) R"
    and run: "patch_passes_run ph sh mf env opts titles n l R = (e, l', R')"
  shows "rip_ok ph sh mf disc (sized wh (N * SECTOR)) R' \<and> lp_passes l' \<le> lp_passes l + n"
proof (cases "lp_halted l")
  case True
  then show ?thesis using run old by (simp add: patch_passes_run_def)
next
  case False
  obtain ns where ns: "ns = [1..<n + 1]" "length ns = n" by (simp del: upt_Suc)
  with False show ?thesis
    using rip.loop_keep [of ph sh mf env "\<lambda>n. measure_scope ph sh mf (is_iso_output opts) titles (r_measure env n)" env opts
        ns l R e l' R' disc wh N sc] run env old
    unfolding patch_passes_run_def ns(1) [symmetric] by simp
qed

end
