(* ===== verification/Recovery.thy ===== *)
theory Recovery
  imports RipProps CopyProps
begin

text \<open>
  The properties of a whole recovery (\<open>rip_recover\<close>, \<open>one_pass\<close>): its files always fit together, a
  result marked complete is the disc, what is left bad is promoted exactly when the passes ran out, and the
  run ends. The sample is the small disc of \<open>SweepSample\<close>, ripped clean in its first pass.
\<close>

subsection \<open>What a run keeps\<close>

lemma recover_keeps:
  assumes env: "rip_env_ok ph sh disc wh N env sc" and old: "rip_ok ph sh mf disc (unscoped wh) R"
    and run: "rip_recover ph sh mf env opts job sc R = Some (r, R')"
  shows "rip_ok ph sh mf disc (unscoped wh) R'"
proof (cases "max_passes opts = 0")
  case True
  then show ?thesis
    by (cases rule: recover_single [OF True run]) (use old single_pass_keeps [OF env old] in auto)
next
  case False
  have hex: "hex_parser_ok ph" using env by (simp add: rip_env_ok_def)
  note at = rip.attempts_keep [of ph sh mf job sc _ env env _ _ _ R _ _ disc wh N, OF _ impI [OF old]]
  from False have "0 < max_passes opts" by simp
  from recover_parts [OF run this] show ?thesis
  proof cases
    case (1 e)
    then show ?thesis using old by simp
  next
    case (2 resume a)
    then show ?thesis using at [OF 2(1)] env by simp
  next
    case (3 resume sr S titles x)
    have S: "rip_ok ph sh mf disc (sized wh (N * SECTOR)) S" using at [OF 3(1)] env by simp
    obtain e l R3 where x: "x = (e, l, R3)" by (cases x) auto
    have "rip_ok ph sh mf disc (sized wh (N * SECTOR)) R3" using patch_passes_keep [OF env S] 3(3) x by simp
    from recover_end_keeps [OF hex this 3(4) [unfolded x]] show ?thesis by (auto intro: sized_unscoped)
  qed
qed

text \<open>The state a multipass run that got through Pass 1 ends its passes with.\<close>

lemma recover_ends:
  assumes env: "rip_env_ok ph sh disc wh N env sc" and old: "rip_ok ph sh mf disc (unscoped wh) R"
    and some: "0 < max_passes opts" and run: "rip_recover ph sh mf env opts job sc R = Some (Inr x, R')"
  obtains titles e l R1 where "recover_end ph sh mf env opts titles (e, l, R1) = (Inr x, R')"
    and "rip_ok ph sh mf disc (sized wh (N * SECTOR)) R1" and "lp_passes l \<le> 1 + min (max_passes opts) 253"
  using recover_parts [OF run some]
proof cases
  case (3 resume sr S titles y)
  note at = rip.attempts_keep [of ph sh mf job sc _ env env _ _ _ R _ _ disc wh N, OF _ impI [OF old]]
  have S: "rip_ok ph sh mf disc (sized wh (N * SECTOR)) S" using at [OF 3(1)] env by simp
  obtain e l R1 where y: "y = (e, l, R1)" by (cases y) auto
  have keep: "rip_ok ph sh mf disc (sized wh (N * SECTOR)) R1 \<and> lp_passes l \<le> lp_passes (pass1_noted sr) + min (max_passes opts) 253"
    using patch_passes_keep [OF env S] 3(3) y by simp
  show thesis using that [OF 3(4) [unfolded y]] keep by (simp add: pass1_noted_def)
qed simp_all

subsection \<open>A complete pass\<close>

text \<open>A map of a whole disc with nothing left to do is all of the disc.\<close>

lemma whole_map:
  assumes inv: "map_inv m" and sc: "scope m = None" and "bytes_pending (stats m) = 0" "bytes_unreadable (stats m) = 0"
  shows "b < total_size m \<Longrightarrow> look (entries m) b = Some Finished" and "bytes_good (stats m) = total_size m"
proof -
  have sc': "scope_ok m" "\<And>b. in_scope m b" using sc by (simp_all add: scope_ok_def in_scope_def)
  show all: "look (entries m) b = Some Finished" if "b < total_size m" for b
    using complete_stats [OF inv sc'(1) assms(3,4) that sc'(2)] .
  have "{b. look (entries m) b = Some Finished} = {..<total_size m}" using all map_inv_look [OF inv] by auto
  then show "bytes_good (stats m) = total_size m" using stats_counts [OF inv sc'(1)] by (simp add: count_bytes_def)
qed

lemma sweep_step_complete:
  assumes obs: "sweep_obs_ok ph sh disc so" and sc: "sw_scope opts = None" and old: "rip_ok ph sh mf disc P R"
    and tot: "\<And>k. se_sectors (so_env so) = Inr k \<Longrightarrow> k = n"
    and run: "sweep_step ph sh mf opts so R = (Some (Inr c), R')" and full: "complete c"
  shows "cr_good c = n * SECTOR \<and> (\<forall>b < n * SECTOR. rip_img R' b = disc b)"
proof -
  let ?env = "(so_env so)\<lparr>se_resume := sw_resume opts, se_decrypt := sw_decrypt opts, se_scope := sw_scope opts\<rparr>"
  let ?cfg = "(so_cfg so)\<lparr>c_skip_on_error := sw_skip_on_error opts\<rparr>"
  have env: "sweep_env_ok ?env" "stable_stat ?env" "cfg_ok ?cfg" "\<forall>e \<in> set (so_reads so). faithful disc e"
    using obs sc by (simp_all add: sweep_obs_ok_def sweep_env_ok_def stable_stat_def cfg_ok_def)
  obtain left where lk: "sweep_linked ph sh ?env ?cfg (so_reads so) (so_sink so) (so_join so) mf (rip_img R) (rip_dur R)
      (rip_fs R) = (Some (Inr c), left)" and R': "R' = left_behind (so_drop so) R left"
    using run by (auto simp: sweep_step_def split: prod.splits)
  have sec: "se_sectors ?env = Inr n" "n \<le> u32_max"
  proof -
    obtain k where "sweep_gates ?env = Inr k" using lk by (cases "sweep_gates ?env") (auto simp: sweep_linked_def)
    from sweep_gates_sectors [OF this] have "se_sectors (so_env so) = Inr k" by simp
    moreover from this have "k = n" by (rule tot)
    ultimately show "se_sectors ?env = Inr n" "n \<le> u32_max" using obs by (simp_all add: sweep_obs_ok_def)
  qed
  obtain regions s0 s' where op: "sweep_opened ph sh ?env (n * SECTOR) mf (rip_img R) (rip_dur R) (rip_fs R) = Inr (regions, s0)"
    and left: "left = HasMap s'"
    and sr: "sweep_run ?cfg (n * SECTOR) regions (so_reads so) (so_sink so) (so_join so) s0 = (Some (Inr c), s')"
    using sweep_linked_Inr [OF lk sec(1)] by blast
  note o = sweep_opened_ok [OF sec(2) env(1,2) rip_ok_resumable [OF old] op]
  have "scope (sk_map s0) = None" using o(5) sc by simp
  note r = sweep_run_ok [OF env(3) o(1,3) env(4) sr] this
  then have m: "map_inv (sk_map s')" "scope (sk_map s') = None" "total_size (sk_map s') = n * SECTOR"
    and img: "\<forall>b. look (entries (sk_map s')) b = Some Finished \<longrightarrow> sk_img s' b = disc b"
    using o(2) by (auto simp: image_ok_def)
  have c: "c = copy_result (n * SECTOR) (bytes_good (stats (sk_map s'))) (bytes_unreadable (stats (sk_map s')))
      (bytes_pending (stats (sk_map s'))) 0 (cr_halted c)" using r by blast
  have "complete c \<Longrightarrow> bytes_pending (stats (sk_map s')) = 0 \<and> bytes_unreadable (stats (sk_map s')) = 0"
    by (subst (asm) c) (simp add: copy_result_def)
  then have "bytes_pending (stats (sk_map s')) = 0" "bytes_unreadable (stats (sk_map s')) = 0" using full by simp_all
  note w = whole_map [OF m(1,2) this]
  moreover have "cr_good c = bytes_good (stats (sk_map s'))" by (subst c) (simp add: copy_result_def)
  moreover have "rip_img R' = sk_img s'" by (simp add: R' left left_behind_def after_pass_def)
  ultimately show ?thesis using img m(3) by simp
qed

lemma single_pass_result:
  assumes "single_pass ph sh mf env job sc R = Some (Inr x, R')"
  obtains c where "x = single_result c" and "sc = None \<Longrightarrow> copy_run ph sh mf (\<not> j_raw job) False env R = Some (Inr c, R')"
proof -
  obtain z where z: "(case sc of None \<Rightarrow> copy_run ph sh mf (\<not> j_raw job) False env R
      | Some s \<Rightarrow> (case sweep_step ph sh mf \<lparr>sw_decrypt = \<not> j_raw job, sw_resume = (rip_fs R mf \<noteq> None),
            sw_scope = Some (sector_scope_to_bytes s), sw_skip_on_error = False\<rparr> (r_sweep env 1) R of
          (None, _) \<Rightarrow> None | (Some (Inl e), R') \<Rightarrow> Some (Inl (SweepFailed e), R') | (Some (Inr r), R') \<Rightarrow> Some (Inr r, R'))) =
      Some z" "(map_sum id single_result (fst z), snd z) = (Inr x, R')"
    using assms unfolding single_pass_def by (auto simp del: map_sum.simps)
  obtain c where c: "z = (Inr c, R')" "x = single_result c" using z(2) by (cases z; cases "fst z") auto
  have "copy_run ph sh mf (\<not> j_raw job) False env R = Some (Inr c, R')" if "sc = None" using z(1) c(1) that by simp
  with c(2) show thesis by (rule that)
qed

lemma dispatch_report: "dispatch_stats env m im = Report r \<Longrightarrow> cr_good r = bytes_good (stats m)"
  by (auto simp: dispatch_stats_def Let_def copy_result_def split: if_splits)

lemma copy_run_complete:
  assumes env: "rip_env_ok ph sh disc True N env None" and old: "rip_ok ph sh mf disc (unscoped True) R"
    and cap: "ce_capacity (r_copy env) = N * SECTOR"
    and run: "copy_run ph sh mf dec False env R = Some (Inr c, R')" and full: "complete c"
  shows "cr_good c = N * SECTOR \<and> (\<forall>b < N * SECTOR. rip_img R' b = disc b)"
proof -
  let ?env = "(r_copy env)\<lparr>ce_decrypt := dec, ce_multipass := False\<rparr>"
  have hex: "hex_parser_ok ph" using env by (simp add: rip_env_ok_def)
  obtain a f' where ct: "copy_titled ph sh ?env mf (rip_fs R) = (Inr a, f')"
    using run by (cases "copy_titled ph sh ?env mf (rip_fs R)"; cases "fst (copy_titled ph sh ?env mf (rip_fs R))")
      (auto simp: copy_run_def)
  show ?thesis
  proof (cases "\<exists>resume. a = RunSweep resume")
    case True
    then obtain resume where a: "a = RunSweep resume" by blast
    let ?opts = "\<lparr>sw_decrypt = dec, sw_resume = resume, sw_scope = None, sw_skip_on_error = False\<rparr>"
    have step: "sweep_step ph sh mf ?opts (r_sweep env 1) (R\<lparr>rip_fs := f'\<rparr>) = (Some (Inr c), R')"
      using run ct a by (auto simp: copy_run_def split: prod.splits option.splits sum.splits)
    show ?thesis
      by (rule sweep_step_complete [OF _ _ copy_dispatch_keeps [OF hex old ct] _ step full]) (use env in \<open>simp_all add: rip_env_ok_def\<close>)
  next
    case False
    then obtain m where ld: "load ph sh (ce_read ?env) (rip_fs R) mf = Inr m" and some: "rip_fs R mf \<noteq> None"
      using ct by (auto simp: copy_titled_def split: sum.splits if_splits)
    note ok = rip_okD [OF old ld]
    then have inv: "map_inv m" by (simp add: resumable_def)
    obtain m' im where m': "map_inv m'" "scope m' = None" "entries m' = entries m" "total_size m' = total_size m"
      "a = dispatch_stats ?env m' im"
      using copy_titled_map [OF ct some ld inv] False by blast
    note d = dispatch_stats_ok [OF m'(1,2), of ?env im]
    have "a \<noteq> RunPatch"
    proof
      assume "a = RunPatch"
      then have "ce_multipass ?env" using d m'(5) by simp
      then show False by simp
    qed
    then obtain r where a: "a = Report r" using False by (cases a) auto
    then have c: "c = r" "R' = R\<lparr>rip_fs := f'\<rparr>" using run ct by (simp_all add: copy_run_def)
    have tot: "total_size m' = N * SECTOR" and all: "all_finished m'" using d a c full cap m'(5) by simp_all
    have "bytes_pending (stats m') = 0" "bytes_unreadable (stats m') = 0" using all_finished_iff [OF m'(1,2)] all by simp_all
    from whole_map(2) [OF m'(1,2) this] have "cr_good c = N * SECTOR" using dispatch_report [of ?env m' im r] m'(5) a c tot by simp
    moreover have "rip_img R b = disc b" if "b < N * SECTOR" for b
      using ok all that tot m'(3) by (simp add: all_finished_def resumable_def)
    ultimately show ?thesis using c by simp
  qed
qed

subsection \<open>The end of a run\<close>

text \<open>The budget of reads a sweep of \<open>N\<close> sectors cannot exhaust.\<close>

lemma region_sum:
  "disj_from c rs \<Longrightarrow> all_aligned rs \<Longrightarrow> sum_list (map (\<lambda>r. 9 * (snd r div SECTOR) + 9) rs) \<le> 18 * (total_len rs div SECTOR)"
proof (induction rs arbitrary: c)
  case (Cons r rs)
  obtain i where i: "snd r = SECTOR * i" using Cons.prems(2) by (auto simp: aligned_def elim!: dvdE)
  have "0 < snd r" using disj_from_ends [OF Cons.prems(1)] by simp
  then have "1 \<le> i" using i by simp
  moreover have "disj_from (fst r + snd r) rs" using Cons.prems(1) by (cases r) auto
  then have "sum_list (map (\<lambda>r. 9 * (snd r div SECTOR) + 9) rs) \<le> 18 * (total_len rs div SECTOR)"
    using Cons.IH Cons.prems(2) by auto
  moreover have "total_len (r # rs) div SECTOR = i + total_len rs div SECTOR"
    using i SECTOR_pos by (cases r) simp
  ultimately show ?case using i SECTOR_pos by simp
qed simp

lemma sweep_step_ends:
  assumes obs: "sweep_obs_ok ph sh disc so" and sc: "scope_opt_ok (sw_scope opts)" and old: "rip_ok ph sh mf disc (unscoped wh) R"
    and tot: "\<And>k. se_sectors (so_env so) = Inr k \<Longrightarrow> k = n" and len: "18 * n \<le> length (so_reads so)"
    and run: "sweep_step ph sh mf opts so R = (r, R')"
  shows "r \<noteq> None"
proof -
  let ?env = "(so_env so)\<lparr>se_resume := sw_resume opts, se_decrypt := sw_decrypt opts, se_scope := sw_scope opts\<rparr>"
  let ?cfg = "(so_cfg so)\<lparr>c_skip_on_error := sw_skip_on_error opts\<rparr>"
  have env: "sweep_env_ok ?env" "stable_stat ?env" "cfg_ok ?cfg"
    using obs sc by (simp_all add: sweep_obs_ok_def sweep_env_ok_def scope_opt_ok_def stable_stat_def cfg_ok_def)
  have ends: "over" if op: "sweep_opened ph sh ?env (n * SECTOR) mf (rip_img R) (rip_dur R) (rip_fs R) = Inr (regions, s0)"
    and n: "n \<le> u32_max" and pr: "produce ?cfg regions (so_reads so) = (p, over)" for regions s0 p over
  proof -
    note o = sweep_opened_ok [OF n env(1,2) rip_ok_resumable [OF old] op]
    have inv: "map_inv (sk_map s0)" using o by (simp add: image_ok_def)
    have reg: "disj_from 0 regions" "all_aligned regions" using o(3) by (auto simp: regions_ok_def all_aligned_def)
    have fit: "\<forall>r \<in> set regions. fst r + snd r \<le> n * SECTOR" using regions_fit(1) [OF inv o(3)] o by simp
    have "bytes_of regions \<subseteq> {..<n * SECTOR}" using fit by (fastforce simp: bytes_of_def)
    then have "total_len regions \<le> n * SECTOR"
      unfolding total_len_card [OF reg(1)] using card_mono [of "{..<n * SECTOR}" "bytes_of regions"] by simp
    then have "total_len regions div SECTOR \<le> n" using div_le_mono [of _ "n * SECTOR" SECTOR] SECTOR_pos by fastforce
    moreover have "region_budget regions = sum_list (map (\<lambda>r. 9 * (snd r div SECTOR) + 9) regions)"
      using regions_fit(2) [OF inv o(3)] unfolding region_budget_def by (intro arg_cong [where f = sum_list] map_cong) auto
    ultimately have "region_budget regions \<le> length (so_reads so)" using region_sum [OF reg] len by simp
    moreover have "\<forall>e \<in> set (so_reads so). faithful disc e" using obs by (simp add: sweep_obs_ok_def)
    ultimately show over using produce_ok(3) [OF env(3) regions_end [OF inv o(3)] _ pr] by blast
  qed
  have gate: "k = n \<and> n \<le> u32_max" if "sweep_gates ?env = Inr k" for k
    using sweep_gates_sectors [OF that] tot [of k] obs by (auto simp: sweep_obs_ok_def)
  show ?thesis
    using run gate ends
    by (auto simp: sweep_step_def sweep_linked_def sweep_run_def Let_def split: sum.splits prod.splits if_splits)
qed

lemma attempts_end:
  "(\<And>a R r S. pre R \<Longrightarrow> step a R = (r, S) \<Longrightarrow> r \<noteq> None \<and> pre S) \<Longrightarrow> pre R \<Longrightarrow>
     \<exists>x. sweep_attempts step env k a e R = Some x"
proof (induction k arbitrary: a e R)
  case (Suc k)
  obtain r S where step: "step a R = (r, S)" by fastforce
  have *: "r \<noteq> None \<and> pre S" by (rule Suc.prems(1) [OF Suc.prems(2) step])
  then obtain y where r: "r = Some y" by blast
  have "\<exists>x. sweep_attempts step env k (a + 1) le S = Some x" for le
    by (rule Suc.IH, rule Suc.prems(1), assumption+, simp add: *)
  then show ?case using step r by (cases y) auto
qed simp

lemma copy_run_ends:
  assumes env: "rip_env_ok ph sh disc wh N env sc" and old: "rip_ok ph sh mf disc (unscoped wh) R"
    and len: "18 * N \<le> length (so_reads (r_sweep env 1))"
  shows "copy_run ph sh mf dec multi env R \<noteq> None"
proof -
  obtain x f' where c: "copy_titled ph sh ((r_copy env)\<lparr>ce_decrypt := dec, ce_multipass := multi\<rparr>) mf (rip_fs R) = (x, f')"
    by fastforce
  have hex: "hex_parser_ok ph" using env by (simp add: rip_env_ok_def)
  note R1 = copy_dispatch_keeps [OF hex old c]
  have "q \<noteq> None" if run: "sweep_step ph sh mf opts (r_sweep env 1) (R\<lparr>rip_fs := f'\<rparr>) = (q, S)" and "sw_scope opts = None" for opts q S
    by (rule sweep_step_ends [OF _ _ R1 _ len run]) (use env that(2) in \<open>simp_all add: rip_env_ok_def scope_opt_ok_def\<close>)
  then have sweep: "sweep_step ph sh mf opts (r_sweep env 1) (R\<lparr>rip_fs := f'\<rparr>) \<noteq> (None, S)" if "sw_scope opts = None" for opts S
    using that by blast
  show ?thesis
    by (auto simp: copy_run_def c sweep simp del: One_nat_def split: sum.split copy_action.split prod.split option.split)
qed

lemma single_pass_ends:
  assumes env: "rip_env_ok ph sh disc wh N env sc" and old: "rip_ok ph sh mf disc (unscoped wh) R"
    and len: "18 * N \<le> length (so_reads (r_sweep env 1))"
  obtains r R' where "single_pass ph sh mf env job sc R = Some (r, R')" and "\<And>x. r = Inr x \<Longrightarrow> passes x = 1"
proof -
  have "single_pass ph sh mf env job sc R \<noteq> None"
  proof (cases sc)
    case None
    then show ?thesis using copy_run_ends [OF env old len, of "\<not> j_raw job" False] by (simp add: single_pass_def)
  next
    case (Some s)
    let ?opts = "\<lparr>sw_decrypt = \<not> j_raw job, sw_resume = (rip_fs R mf \<noteq> None),
      sw_scope = Some (sector_scope_to_bytes s), sw_skip_on_error = False\<rparr>"
    obtain q S where run: "sweep_step ph sh mf ?opts (r_sweep env 1) R = (q, S)" by fastforce
    have "q \<noteq> None"
      by (rule sweep_step_ends [OF _ _ old _ len run]) (use env Some in \<open>simp_all add: rip_env_ok_def\<close>)
    then show ?thesis using run Some by (auto simp: single_pass_def split: sum.split)
  qed
  then obtain r R' where run: "single_pass ph sh mf env job sc R = Some (r, R')" by fastforce
  have "passes x = 1" if "r = Inr x" for x
    by (rule single_pass_result [OF run [unfolded that]]) (simp add: single_result_def Let_def)
  with run show thesis by (rule that)
qed

subsection \<open>A sample recovery\<close>

definition sample_sweep :: SweepObs where
  "sample_sweep = \<lparr>so_env = small_env, so_cfg = sample_cfg, so_reads = [sample_read],
     so_sink = (\<lambda>_. sample_sink_env), so_join = small_join, so_drop = good_env\<rparr>"

definition sample_patch :: PatchObs where
  "sample_patch = \<lparr>pb_env = patch_env, pb_world = patch_world, pb_sink = (\<lambda>_. sample_sink_env),
     pb_join = small_join, pb_read = (0, ReadFine), pb_drop = good_env\<rparr>"

definition sample_rip :: RipEnv where
  "sample_rip =
     \<lparr>r_prior = (0, ReadFine), r_sweep = (\<lambda>_. sample_sweep), r_recover = (\<lambda>_. False), r_transport = (\<lambda>_. False),
      r_stop_sweep = (\<lambda>_. False), r_copy = \<lparr>ce_gates = [], ce_read = (0, ReadFine), ce_no_image = Inl NotFound,
        ce_flush = good_env, ce_drop = good_env, ce_image = Inl NotFound, ce_id = se_id small_env, ce_decrypt = True,
        ce_multipass = True, ce_capacity = 4096\<rparr>,
      r_patch = (\<lambda>_. sample_patch), r_stop_top = (\<lambda>_. False), r_measure = (\<lambda>_. (0, ReadFine)),
      r_stop_after = (\<lambda>_. False), r_stop_end = False, r_final = (0, ReadFine), r_promote = good_env,
      r_flush = good_env, r_drop = good_env\<rparr>"

definition sample_opts :: MultipassOpts where
  "sample_opts = \<lparr>max_passes = 1, abort_on_lost_secs = 0, is_iso_output = True, max_sweep_attempts = 1,
     resume_sweep = None, on_patch_failure = FailRun, after_wedge = StopThere\<rparr>"

definition blank :: Rip where
  "blank = \<lparr>rip_img = (\<lambda>b. 3), rip_dur = (\<lambda>b. 0), rip_fs = (\<lambda>_. None)\<rparr>"

lemma blank_ok: "rip_ok sample_ph (\<lambda>_ bs. bs) ''m'' (\<lambda>_. 7) P blank"
  by (rule rip_okI) (simp add: blank_def load_Inr)

lemma unhex_bytes: "unhex s = Some bs \<Longrightarrow> \<forall>b \<in> set bs. b < 256"
proof (induction s arbitrary: bs rule: unhex.induct)
  case (3 c d cs)
  then obtain x y ys where "to_digit 16 c = Some x" "to_digit 16 d = Some y" "unhex cs = Some ys" "bs = (x * 16 + y) # ys"
    by (auto split: option.splits)
  moreover have digit: "z < 16" if "to_digit 16 e = Some z" for e z
    using that unfolding to_digit_def Let_def by (simp split: if_split_asm option.split_asm)
  ultimately have "x < 16" "y < 16" "\<forall>b \<in> set ys. b < 256" using "3.IH" by blast+
  then show ?case using \<open>bs = _\<close> by simp
qed simp_all

lemma small_labels: "labels_ok sample_ph (\<lambda>_ bs. bs) small_env"
  by (auto simp: labels_ok_def small_env_def sample_ph_def byte_list_def disc_vid_fingerprint_def is_ws_def nl_def
      dest: unhex_bytes split: option.splits if_splits)

lemma sample_rip_ok: "rip_env_ok sample_ph (\<lambda>_ bs. bs) (\<lambda>_. 7) wh 2 sample_rip None"
proof -
  have "sweep_obs_ok sample_ph (\<lambda>_ bs. bs) (\<lambda>_. 7) sample_sweep"
    using sample_faithful [of 1] sample_cfg_ok small_labels
    by (simp add: sweep_obs_ok_def sample_sweep_def) (simp add: small_env_def u32_max_def stable_stat_def ranges_ok_def)
  moreover have "patch_obs_ok (\<lambda>_. 7) sample_patch"
    using patch_honest by (simp add: patch_obs_ok_def sample_patch_def patch_env_def)
  ultimately show ?thesis
    using sample_ph_ok by (simp add: rip_env_ok_def sample_rip_def scope_opt_ok_def sample_sweep_def small_env_def)
qed

definition sample_job :: RipJob where
  "sample_job = \<lparr>j_raw = False, j_titles = [], j_picked = [],
     j_no_title = bare_title\<rparr>"

lemma sample_header: "header_ok small_done"
proof -
  have "header_ok (new_map ''m'' 4096 ''freemkv'' (w_now good_env))" using new_header [OF small_labels] by (simp add: small_env_def)
  then show ?thesis by (simp add: header_ok_def small_done_def small_start_def splice_def)
qed

text \<open>The map a load of the finished sweep's file gives.\<close>

definition small_loaded :: Mapfile where
  "small_loaded = small_done\<lparr>path := ''m'', dirty := False, last_flushed := 0, disowned := False\<rparr>"

lemma small_load: "f ''m'' = Some (print_map small_done) \<Longrightarrow> load sample_ph (\<lambda>_ bs. bs) (0, ReadFine) f ''m'' = Inr small_loaded"
proof -
  assume f: "f ''m'' = Some (print_map small_done)"
  have ok: "map_ok small_done" using small_done_map(6) by (simp add: map_inv_def)
  have "length (print_map small_done) < 1000"
    using length_hex [of 0 1] length_print_entry [of "entry 0 4096 Finished"]
    by (simp add: print_map_def map_lines_def header_lines_def text_of_def print_range_def small_done_map(1))
      (simp add: small_done_def small_start_def new_map_def splice_def)
  then have "utf8_len (print_map small_done) \<le> MAX_MAPFILE_BYTES"
    using utf8_len_le [of "print_map small_done"] by (simp add: MAX_MAPFILE_BYTES_def)
  then show ?thesis
    using map_ok_load_print_map [OF sample_ph_ok sample_header ok, of "\<lambda>_ bs. bs" "''m''" 0] f
    by (simp add: load_def read_capped_def small_loaded_def)
qed

lemma sample_pass1:
  obtains s' where "sweep_step sample_ph (\<lambda>_ bs. bs) ''m'' (pass1_options sample_job None False 1) sample_sweep blank =
      (Some (Inr (copy_result 4096 4096 0 0 0 False)), after_pass good_env s')"
    and "rip_fs (after_pass good_env s') ''m'' = Some (print_map small_done)"
proof -
  obtain s' where lk: "sweep_linked sample_ph (\<lambda>_ bs. bs) small_env sample_cfg [sample_read] (\<lambda>_. sample_sink_env) small_join
      ''m'' (\<lambda>b. 3) (\<lambda>b. 0) (\<lambda>_. None) = (Some (Inr (copy_result 4096 4096 0 0 0 False)), HasMap s')"
    and s': "sk_map s' = clean good_env small_done" "sk_fs s' ''m'' = Some (print_map small_done)"
    using small_linked by blast
  have same: "small_env\<lparr>se_resume := False, se_decrypt := True, se_scope := None\<rparr> = small_env"
    "sample_cfg\<lparr>c_skip_on_error := True\<rparr> = sample_cfg"
    by (simp_all add: small_env_def sample_cfg_def)
  have "rip_fs (after_pass good_env s') ''m'' = Some (print_map small_done)"
    using s' by (simp add: after_pass_def drop_map_def flush_def clean_def)
  moreover have "sweep_step sample_ph (\<lambda>_ bs. bs) ''m'' (pass1_options sample_job None False 1) sample_sweep blank =
      (Some (Inr (copy_result 4096 4096 0 0 0 False)), after_pass good_env s')"
    using lk by (simp add: sweep_step_def left_behind_def sample_sweep_def pass1_options_def sample_job_def blank_def same)
  ultimately show thesis by (rule that [rotated])
qed

lemma small_loaded_map:
  "entries small_loaded = [entry 0 4096 Finished]" "scope small_loaded = None" "\<not> dirty small_loaded"
  "bytes_good (stats small_loaded) = 4096" "bytes_unreadable (stats small_loaded) = 0"
  "bytes_pending (stats small_loaded) = 0" "bytes_retryable (stats small_loaded) = 0" "bytes_nontried (stats small_loaded) = 0"
  "promote_map [NonTrimmed, NonScraped] Unreadable small_loaded = small_loaded"
proof -
  show m: "entries small_loaded = [entry 0 4096 Finished]" "scope small_loaded = None" "\<not> dirty small_loaded"
    using small_done_map by (simp_all add: small_loaded_def)
  have "stats_field small_loaded = compute_stats [entry 0 4096 Finished] 4096" "total_size small_loaded = 4096"
    using small_done_map by (simp_all add: small_loaded_def map_inv_def map_ok_def)
  then show "promote_map [NonTrimmed, NonScraped] Unreadable small_loaded = small_loaded"
    using m by (cases small_loaded) (simp add: promote_map_def promote_entries_def coalesce_def push_coalesced_def Let_def)
  have "stats small_loaded = stats small_done" using small_done_map(2) by (simp add: stats_def small_loaded_def)
  then show "bytes_good (stats small_loaded) = 4096" "bytes_unreadable (stats small_loaded) = 0"
    "bytes_pending (stats small_loaded) = 0" "bytes_retryable (stats small_loaded) = 0" "bytes_nontried (stats small_loaded) = 0"
    unfolding small_done_map(7)
    by (simp_all add: compute_stats_def tally_def bump_def MapStats_default_def sat_add_def u64_max_def)
qed

lemma sample_recovers:
  obtains x R' where "rip_recover sample_ph (\<lambda>_ bs. bs) ''m'' sample_rip sample_opts sample_job None blank = Some (Inr x, R')"
    and "mr_complete x" and "mr_good x = 4096" and "passes x = 1"
proof -
  let ?sh = "\<lambda>_ bs. bs" and ?titles = "[j_no_title sample_job]"
  obtain s' where p1: "sweep_step sample_ph ?sh ''m'' (pass1_options sample_job None False 1) sample_sweep blank =
      (Some (Inr (copy_result 4096 4096 0 0 0 False)), after_pass good_env s')"
    and disk: "rip_fs (after_pass good_env s') ''m'' = Some (print_map small_done)" by (rule sample_pass1)
  define R1 where "R1 = after_pass good_env s'"
  define l where "l = pass1_noted (copy_result 4096 4096 0 0 0 False)"
  have l: "lp_passes l = 1" "last_good l = 4096" "\<not> lp_halted l" by (simp_all add: l_def pass1_noted_def copy_result_def)
  have ld: "load sample_ph ?sh (0, ReadFine) (rip_fs R1) ''m'' = Inr small_loaded" using small_load disk by (simp add: R1_def)
  have at: "sweep_attempts (\<lambda>a. sweep_step sample_ph ?sh ''m'' (pass1_options sample_job None False a) (r_sweep sample_rip a))
      sample_rip 1 1 None blank = Some (Inr (copy_result 4096 4096 0 0 0 False), R1)"
    using p1 by (simp add: sample_rip_def R1_def)
  have "measure_scope sample_ph ?sh ''m'' True ?titles (r_measure sample_rip 1) (rip_fs R1) = Some 0"
    using ld by (simp add: measure_scope_def sample_rip_def ranges_with_def small_loaded_map bad_sector_statuses_def
        titles_scope_bad_def measured_scope_bad_def loss_is_unscopable_def scope_bad_bytes_def abort_lost_bytes_def wsum_def)
  then have "patch_passes_run sample_ph ?sh ''m'' sample_rip sample_opts ?titles 1 l R1 = (LoopOver, l, R1)"
    using l by (simp add: patch_passes_run_def sample_opts_def pre_pass_converged_def sample_rip_def
        patch_pass_decision_measured_def patch_pass_decision_def scope_converged_def no_progress_made_def)
  moreover obtain x R' where re: "rip_end sample_ph ?sh ''m'' sample_rip sample_opts ?titles l R1 = (x, R')" by fastforce
  moreover have "prior_map sample_ph ?sh ''m'' (r_prior sample_rip) (rip_fs blank) = Inr None"
    by (simp add: prior_map_def load_def read_capped_def blank_def sample_rip_def)
  moreover have "max_passes sample_opts = 1" "max_sweep_attempts sample_opts = 1" "resume_sweep sample_opts = None"
    "measured_titles (j_titles sample_job) (j_picked sample_job) (j_no_title sample_job) = ?titles"
    by (simp_all add: sample_opts_def measured_titles_def sample_job_def)
  moreover have "recover_end sample_ph ?sh ''m'' sample_rip sample_opts ?titles (LoopOver, l, R1) = (Inr x, R')"
    using re l by (simp add: recover_end_def sample_rip_def)
  ultimately have run: "rip_recover sample_ph ?sh ''m'' sample_rip sample_opts sample_job None blank = Some (Inr x, R')"
    using at by (simp add: rip_recover_def plan_passes_def Let_def l_def)
  have "promote_all sample_rip small_loaded (rip_fs R1) = (True, small_loaded, rip_fs R1)"
    using small_loaded_map by (simp add: promote_all_def end_of_recovery_promotion_def promote_def promote_hit_def flush_def drop_map_def)
  moreover have "end_of_recovery_lost_ms True (j_no_title sample_job) [] = (Fin 0, None)"
    by (simp add: end_of_recovery_lost_ms_def loss_is_unscopable_def sample_job_def bare_title_def lost_ms_in_title_def)
  ultimately have "mr_complete x" "mr_good x = 4096" "passes x = 1"
    using re ld l by (auto simp: rip_end_def Let_def sample_rip_def sample_opts_def small_loaded_map ranges_with_def
        rip_result_def final_verdict_def loss_verdict_def loss_aborts_def effective_abort_secs_def wsum_def
        recovery_is_complete_def titles_lost_ms_def f64_add_def is_nan_def)
  with run show thesis by (rule that)
qed

text \<open>The same disc once ripped: its image and its finished map, and a single pass over them.\<close>

definition ripped :: Rip where
  "ripped = \<lparr>rip_img = (\<lambda>b. 7), rip_dur = (\<lambda>b. 7), rip_fs = (\<lambda>p. if p = ''m'' then Some (print_map small_done) else None)\<rparr>"

definition again_rip :: RipEnv where
  "again_rip = sample_rip\<lparr>r_copy := (r_copy sample_rip)\<lparr>ce_image := Inr (True, 4096)\<rparr>\<rparr>"

lemma again_rip_ok: "rip_env_ok sample_ph (\<lambda>_ bs. bs) (\<lambda>_. 7) wh 2 again_rip None"
  using sample_rip_ok [of wh] by (simp add: rip_env_ok_def again_rip_def)

lemma ripped_ok: "rip_ok sample_ph (\<lambda>_ bs. bs) ''m'' (\<lambda>_. 7) (unscoped wh) ripped"
proof (rule rip_okI)
  fix rd m assume ld: "load sample_ph (\<lambda>_ bs. bs) rd (rip_fs ripped) ''m'' = Inr m"
  have "rip_fs ripped ''m'' = Some (print_map small_done)" by (simp add: ripped_def)
  from load_own_text [OF sample_ph_ok sample_header small_done_map(6) this ld]
  show "resumable (\<lambda>_. 7) (rip_img ripped) m \<and> header_ok m \<and> unscoped wh (total_size m) (scope m)"
    using small_done_map(2) by (simp add: resumable_def ripped_def unscoped_def scope_aligned_def)
qed

lemma sample_again:
  obtains x R' where "rip_recover sample_ph (\<lambda>_ bs. bs) ''m'' again_rip (sample_opts\<lparr>max_passes := 0\<rparr>) sample_job None ripped =
      Some (Inr x, R')" and "mr_complete x"
proof -
  let ?env = "(r_copy again_rip)\<lparr>ce_decrypt := True, ce_multipass := False\<rparr>" and ?sh = "\<lambda>_ bs. bs"
  have ld: "load sample_ph ?sh (0, ReadFine) (rip_fs ripped) ''m'' = Inr small_loaded"
    by (rule small_load) (simp add: ripped_def)
  have m: "total_size small_loaded = 4096" "raw small_loaded = Some False" "disc_hash small_loaded = None"
    "vidfp small_loaded = None" "legacy_keyfps small_loaded = []"
    by (simp_all add: small_loaded_def small_done_def small_start_def splice_def new_map_def)
  have "copy_titled sample_ph ?sh ?env ''m'' (rip_fs ripped) =
      (Inr (Report (copy_result 4096 4096 0 0 0 False)), rip_fs ripped)"
    using ld m small_loaded_map
    by (simp add: copy_titled_def dispatch_loaded_def other_disc_no_image_def check_identity_def differ_def widen_def dispatch_map_def
        dispatch_stats_def image_state_def iso_len_from_metadata_def is_intact_def copy_io_def again_rip_def sample_rip_def
        small_env_def ripped_def wadd_def Let_def)
  then have "rip_recover sample_ph ?sh ''m'' again_rip (sample_opts\<lparr>max_passes := 0\<rparr>) sample_job None ripped =
      Some (Inr (single_result (copy_result 4096 4096 0 0 0 False)), ripped)"
    using ld by (simp add: rip_recover_def plan_passes_def prior_map_def single_pass_def copy_run_def sample_job_def again_rip_def sample_rip_def Let_def)
  then show thesis by (rule that) (simp add: single_result_def copy_result_def Let_def)
qed

subsection \<open>Properties\<close>

text \<open>
C4: However a recovery or a single pass ends (complete, stopped, wedged, failed in any pass, in the set-up of a sweep at
any of its steps or in the copy dispatch), it leaves an image and a map file that the next one can start from: any map
that loads is a resumable one, and every byte it calls Finished is the disc's byte in the image, whatever the drive,
the queue, the image file and the map file did.
\<close>

theorem multipass_integrity:
  assumes "rip_env_ok ph sh disc wh N env sc" and "rip_ok ph sh mf disc (unscoped wh) R"
    and "rip_recover ph sh mf env opts job sc R = Some (r, R') \<or> one_pass ph sh mf env job multi R = Some (q, R')"
  shows "rip_ok ph sh mf disc (unscoped wh) R' \<and>
    (load ph sh rd (rip_fs R') mf = Inr m \<longrightarrow> look (entries m) b = Some Finished \<longrightarrow> rip_img R' b = disc b)"
proof -
  have ok: "rip_ok ph sh mf disc (unscoped wh) R'"
    using assms(3) recover_keeps [OF assms(1,2)] copy_run_keeps [OF assms(1,2)] by (auto simp: one_pass_def)
  then show ?thesis using rip_okD [OF ok, of rd m] by (auto simp: resumable_def)
qed

theorem multipass_integrity_witness:
  "\<exists>x R'. rip_recover sample_ph (\<lambda>_ bs. bs) ''m'' sample_rip sample_opts sample_job None blank = Some (Inr x, R') \<and>
     rip_ok sample_ph (\<lambda>_ bs. bs) ''m'' (\<lambda>_. 7) (unscoped True) R'"
proof -
  obtain x R' where "rip_recover sample_ph (\<lambda>_ bs. bs) ''m'' sample_rip sample_opts sample_job None blank = Some (Inr x, R')"
    by (rule sample_recovers)
  then show ?thesis using multipass_integrity [OF sample_rip_ok blank_ok disjI1] by blast
qed

text \<open>
C18: A recovery of a whole disc that is reported complete has the whole disc, multipass or in a single pass: when no earlier
map named a scope, it counts every byte of the disc as good and every byte of the image is the disc's. The disc's
capacity, by which the copy dispatch decides, is that of its sectors.
\<close>

theorem multipass_complete:
  assumes "rip_env_ok ph sh disc True N env None" and "rip_ok ph sh mf disc (unscoped True) R"
    and "ce_capacity (r_copy env) = N * SECTOR"
    and "rip_recover ph sh mf env opts job None R = Some (Inr x, R')" and "mr_complete x"
  shows "mr_good x = N * SECTOR \<and> (\<forall>b < N * SECTOR. rip_img R' b = disc b)"
proof (cases "max_passes opts = 0")
  case True
  from recover_single [OF True assms(4)] have "single_pass ph sh mf env job None R = Some (Inr x, R')" by auto
  then obtain c where x: "x = single_result c" and run: "copy_run ph sh mf (\<not> j_raw job) False env R = Some (Inr c, R')"
    by (rule single_pass_result) simp
  then have "complete c" "mr_good x = cr_good c" using assms(5) by (simp_all add: single_result_def Let_def)
  then show ?thesis using copy_run_complete [OF assms(1-3) run] by simp
next
  case False
  then have some: "0 < max_passes opts" by simp
  obtain titles e l R1 where end1: "recover_end ph sh mf env opts titles (e, l, R1) = (Inr x, R')"
    and R1: "rip_ok ph sh mf disc (sized True (N * SECTOR)) R1"
    by (rule recover_ends [OF assms(1,2) some assms(4)])
  have hex: "hex_parser_ok ph" using assms(1) by (simp add: rip_env_ok_def)
  have "e = LoopOver \<and> \<not> (lp_halted l \<or> r_stop_end env)"
    using end1 assms(5) by (cases e) (auto simp: recover_end_def interrupted_def split: if_splits)
  then have re: "rip_end ph sh mf env opts titles l R1 = (x, R')" using end1 by (auto simp: recover_end_def split: prod.splits)
  show ?thesis
  proof (cases "load ph sh (r_final env) (rip_fs R1) mf")
    case (Inl err)
    then show ?thesis using re assms(5) by (auto simp: rip_end_def Let_def rip_result_def recovery_is_complete_def)
  next
    case (Inr m)
    obtain intact m' f' where pa: "promote_all env m (rip_fs R1) = (intact, m', f')" by (rule prod_cases3)
    note ok = promote_all_ok [OF hex R1 Inr pa]
    have x: "mr_good x = bytes_good (stats m')" "bytes_unreadable (stats m') = 0" "bytes_pending (stats m') = 0"
      and img: "rip_img R' = rip_img R1"
      using re Inr pa assms(5) by (auto simp: rip_end_def Let_def rip_result_def recovery_is_complete_def)
    have tot: "total_size m' = N * SECTOR" "scope m' = None" using ok(4) by (simp_all add: sized_def)
    have "\<forall>b. look (entries m') b = Some Finished \<longrightarrow> rip_img R1 b = disc b" using ok(3) by (simp add: resumable_def)
    then show ?thesis using whole_map [OF ok(2) tot(2) x(3,2)] x(1) img tot(1) by simp
  qed
qed

text \<open>The disc read clean in a first pass, and a single pass over its finished map and image.\<close>

theorem multipass_complete_witness:
  "(\<exists>x R'. rip_recover sample_ph (\<lambda>_ bs. bs) ''m'' sample_rip sample_opts sample_job None blank = Some (Inr x, R') \<and>
     mr_good x = 2 * SECTOR \<and> rip_img R' 100 = 7) \<and>
   (\<exists>x R'. rip_recover sample_ph (\<lambda>_ bs. bs) ''m'' again_rip (sample_opts\<lparr>max_passes := 0\<rparr>) sample_job None ripped =
     Some (Inr x, R') \<and> mr_good x = 2 * SECTOR \<and> rip_img R' 100 = 7)"
proof
  have cap: "ce_capacity (r_copy sample_rip) = 2 * SECTOR" "ce_capacity (r_copy again_rip) = 2 * SECTOR"
    by (simp_all add: again_rip_def sample_rip_def SECTOR_def)
  obtain x R' where run: "rip_recover sample_ph (\<lambda>_ bs. bs) ''m'' sample_rip sample_opts sample_job None blank = Some (Inr x, R')"
    and "mr_complete x" by (rule sample_recovers)
  then show "\<exists>x R'. rip_recover sample_ph (\<lambda>_ bs. bs) ''m'' sample_rip sample_opts sample_job None blank = Some (Inr x, R') \<and>
      mr_good x = 2 * SECTOR \<and> rip_img R' 100 = 7"
    using multipass_complete [OF sample_rip_ok blank_ok cap(1) run] by (auto simp: SECTOR_def)
  obtain y S where again: "rip_recover sample_ph (\<lambda>_ bs. bs) ''m'' again_rip (sample_opts\<lparr>max_passes := 0\<rparr>) sample_job None ripped =
      Some (Inr y, S)" and "mr_complete y" by (rule sample_again)
  then show "\<exists>x R'. rip_recover sample_ph (\<lambda>_ bs. bs) ''m'' again_rip (sample_opts\<lparr>max_passes := 0\<rparr>) sample_job None ripped =
      Some (Inr x, R') \<and> mr_good x = 2 * SECTOR \<and> rip_img R' 100 = 7"
    using multipass_complete [OF again_rip_ok ripped_ok cap(2) again] by (auto simp: SECTOR_def)
qed



lemma rip_end_passes: "rip_end ph sh mf env opts titles l R = (x, R') \<Longrightarrow> passes x = lp_passes l"
  by (cases "load ph sh (r_final env) (rip_fs R) mf"; cases "promote_all env (projr (load ph sh (r_final env) (rip_fs R) mf)) (rip_fs R)")
    (auto simp: rip_end_def Let_def rip_result_def)

text \<open>
C34: A recovery ends, multipass or in a single pass: when every sweep attempt gets its budget of observations (at most
eighteen turns of the read loop for each sector of the disc), the run has a result, after at most one sweep and as many
patch passes as were asked for; a single pass is one pass.
\<close>

theorem multipass_terminates:
  assumes "rip_env_ok ph sh disc wh N env sc" and "rip_ok ph sh mf disc (unscoped wh) R"
    and "\<forall>a. 18 * N \<le> length (so_reads (r_sweep env a))"
  shows "\<exists>r R'. rip_recover ph sh mf env opts job sc R = Some (r, R') \<and>
    (\<forall>x. r = Inr x \<longrightarrow> passes x \<le> 1 + min (max_passes opts) 253)"
proof (cases "max_passes opts = 0")
  case True
  have "18 * N \<le> length (so_reads (r_sweep env 1))" using assms(3) by blast
  from single_pass_ends [OF assms(1,2) this]
  obtain r R' where "single_pass ph sh mf env job sc R = Some (r, R')" "\<And>x. r = Inr x \<Longrightarrow> passes x = 1" by blast
  then show ?thesis
    using True by (cases "prior_map ph sh mf (r_prior env) (rip_fs R)") (auto simp: rip_recover_def plan_passes_def Let_def)
next
  case False
  then have some: "0 < max_passes opts" by simp
  have plan: "multipass (plan_passes (min (max_passes opts) 255))" using some by (simp add: plan_passes_def Let_def)
  have step: "r \<noteq> None \<and> rip_ok ph sh mf disc (unscoped wh) S"
    if "rip_ok ph sh mf disc (unscoped wh) R1"
      and run: "sweep_step ph sh mf (pass1_options job sc resume a) (r_sweep env a) R1 = (r, S)" for resume a R1 r S
  proof
    have env: "sweep_obs_ok ph sh disc (r_sweep env a)" "scope_opt_ok (sw_scope (pass1_options job sc resume a))"
      "\<And>k. se_sectors (so_env (r_sweep env a)) = Inr k \<Longrightarrow> k = N"
      using assms(1) by (simp_all add: rip_env_ok_def pass1_options_def)
    show "r \<noteq> None" using sweep_step_ends [OF env(1,2) that(1) env(3) _ run] assms(3) by blast
    show "rip_ok ph sh mf disc (unscoped wh) S"
      using rip.sweep_pre [of ph sh disc wh N env sc mf R1 job resume a r S] that assms(1) by auto
  qed
  have at: "\<exists>y. sweep_attempts (\<lambda>a. sweep_step ph sh mf (pass1_options job sc resume a) (r_sweep env a)) env k 1 None R = Some y"
    for resume k
    by (rule attempts_end [of "rip_ok ph sh mf disc (unscoped wh)"]) (use step assms(2) in blast)+
  have "\<exists>y. rip_recover ph sh mf env opts job sc R = Some y"
  proof (cases "prior_map ph sh mf (r_prior env) (rip_fs R)")
    case (Inr prior)
    obtain q S where "sweep_attempts (\<lambda>a. sweep_step ph sh mf (pass1_options job sc (case resume_sweep opts of Some b \<Rightarrow> b
        | None \<Rightarrow> Option.bind prior raw \<noteq> None) a) (r_sweep env a)) env (max (max_sweep_attempts opts) 1) 1 None R = Some (q, S)"
      using at by fastforce
    then show ?thesis unfolding rip_recover_def Let_def Inr by (cases q) (simp_all add: plan)
  qed (simp add: rip_recover_def Let_def)
  then obtain r R' where run: "rip_recover ph sh mf env opts job sc R = Some (r, R')" by fastforce
  have "passes x \<le> 1 + min (max_passes opts) 253" if "r = Inr x" for x
  proof -
    have "rip_recover ph sh mf env opts job sc R = Some (Inr x, R')" using run that by simp
    from recover_ends [OF assms(1,2) some this]
    obtain titles e l R1 where "recover_end ph sh mf env opts titles (e, l, R1) = (Inr x, R')"
      "lp_passes l \<le> 1 + min (max_passes opts) 253" .
    moreover obtain y R3 where re: "rip_end ph sh mf env opts titles l R1 = (y, R3)" by fastforce
    ultimately show ?thesis
      using rip_end_passes [OF re] by (cases e) (auto simp: recover_end_def interrupted_def re split: if_splits)
  qed
  then show ?thesis using run by blast
qed

definition long_rip :: RipEnv where
  "long_rip = sample_rip\<lparr>r_sweep := (\<lambda>_. sample_sweep\<lparr>so_reads := replicate 36 sample_read\<rparr>)\<rparr>"

text \<open>A multipass run and a single pass.\<close>

theorem multipass_terminates_witness:
  "(\<exists>r R'. rip_recover sample_ph (\<lambda>_ bs. bs) ''m'' long_rip sample_opts sample_job None blank = Some (r, R') \<and>
     (case r of Inl e \<Rightarrow> True | Inr x \<Rightarrow> passes x \<le> 2)) \<and>
   (\<exists>r R'. rip_recover sample_ph (\<lambda>_ bs. bs) ''m'' long_rip (sample_opts\<lparr>max_passes := 0\<rparr>) sample_job None blank = Some (r, R') \<and>
     (case r of Inl e \<Rightarrow> True | Inr x \<Rightarrow> passes x \<le> 1))"
proof -
  have env: "rip_env_ok sample_ph (\<lambda>_ bs. bs) (\<lambda>_. 7) True 2 long_rip None"
    using sample_rip_ok [of True] sample_faithful [of 36]
    by (simp add: rip_env_ok_def long_rip_def sweep_obs_ok_def sample_rip_def sample_sweep_def)
  have max: "max_passes sample_opts = 1" "max_passes (sample_opts\<lparr>max_passes := 0\<rparr>) = 0" by (simp_all add: sample_opts_def)
  have "\<forall>a. 18 * 2 \<le> length (so_reads (r_sweep long_rip a))" by (simp add: long_rip_def)
  note ends = multipass_terminates [OF env blank_ok this]
  show ?thesis using ends [of sample_opts sample_job] ends [of "sample_opts\<lparr>max_passes := 0\<rparr>" sample_job]
    unfolding max by (auto split: sum.split)
qed

end
