(* ===== verification/Durability.thy ===== *)
theory Durability
  imports SweepSample
begin

text \<open>
  What the saved map promises of the image on stable storage. A good item syncs the image before a record
  that saves the map; a fill does not, so a map saved by a fill can name sectors Finished whose data is
  still in the cache. The run below shows it on the disc of \<open>SweepSample\<close>.
\<close>

definition half_buf :: "nat list" where
  "half_buf = replicate 2048 7"

definition late_env :: SinkEnv where
  "late_env = sample_sink_env\<lparr>k_rec := good_env\<lparr>w_now := 7000\<rparr>\<rparr>"

lemma fill_never_syncs: "apply_fill env p n s = (r, s') \<Longrightarrow> sk_dur s' = sk_dur s"
  by (auto simp: apply_fill_def image_write_failed_def record_item_def split: if_splits prod.splits fill_end.splits)

definition half_map :: Mapfile where
  "half_map = (splice 0 2048 Finished small_start)\<lparr>dirty := True\<rparr>"

definition both_map :: Mapfile where
  "both_map = (splice 2048 4096 NonTrimmed half_map)\<lparr>dirty := True\<rparr>"

lemma both_map_fields:
  "entries both_map = [entry 0 2048 Finished, entry 2048 2048 NonTrimmed]" "\<not> disowned both_map" "path both_map = ''m''"
  "\<not> disowned half_map" "last_flushed half_map = 5001"
  by (simp_all add: both_map_def half_map_def small_start_def new_map_def good_env_def splice_def splice_entries_def
      splice_lo_def splice_hi_def splice_merged_def splice_window_def partition_point_def run_end_def sat_add_def u64_max_def
      coalesce_def push_coalesced_def mergeable_def Let_def)

lemma late_persist:
  "\<not> disowned m \<Longrightarrow> \<exists>t. persist (good_env\<lparr>w_now := 7000\<rparr>) m f =
     (Inr (), m\<lparr>dirty := False, last_flushed := t\<rparr>, f(tmp_path (path m) := None, path m \<mapsto> print_map m))"
  by (cases m) (auto simp: persist_def write_to_disk_def write_locked_def unlink_quiet_def good_env_def clean_def Let_def)

text \<open>
  A good item, then a gap more than the flush interval later: the file now says that the first sector is
  Finished, and stable storage does not have it.
\<close>

lemma fill_saves_unsynced:
  "\<exists>s2. apply_items [(sample_sink_env, Good 0 half_buf), (late_env, GapFill 2048 2048)] (small_sink f) = (Inr Continue, s2) \<and>
     sk_fs s2 ''m'' = Some (print_map (sk_map s2)) \<and> sk_look s2 100 = Some Finished \<and> is_regular s2 \<and>
     sk_img s2 100 = 7 \<and> sk_dur s2 100 = 0"
proof -
  let ?s1 = "(small_sink f)\<lparr>sk_img := write_at 0 half_buf (\<lambda>b. 0), sk_map := half_map\<rparr>"
  have start: "last_flushed small_start = 5001" "\<not> disowned small_start"
    by (simp_all add: small_start_def new_map_def good_env_def)
  have "record_range good_env 0 2048 Finished small_start f = (Inr (), half_map, f)"
    using both_map_fields(5) by (simp add: record_range_def checked_add_def u64_max_def changed_def Let_def half_map_def)
      (simp add: good_env_def FLUSH_INTERVAL_def)
  moreover have "length half_buf = 2048" by (simp add: half_buf_def)
  ultimately have g: "sweep_apply sample_sink_env (Good 0 half_buf) (small_sink f) = (Inr Continue, ?s1)"
    using start by (simp add: sweep_apply_def apply_good_def sample_sink_env_def small_sink_def Let_def record_item_def
        persist_due_def FLUSH_INTERVAL_def good_env_def)
  obtain t where p: "persist (good_env\<lparr>w_now := 7000\<rparr>) both_map f =
      (Inr (), both_map\<lparr>dirty := False, last_flushed := t\<rparr>, f(tmp_path ''m'' := None, ''m'' \<mapsto> print_map both_map))"
    using late_persist [OF both_map_fields(2), of f] both_map_fields(3) by auto
  have rec: "record_range (good_env\<lparr>w_now := 7000\<rparr>) 2048 2048 NonTrimmed half_map f =
      (Inr (), both_map\<lparr>dirty := False, last_flushed := t\<rparr>, f(tmp_path ''m'' := None, ''m'' \<mapsto> print_map both_map))"
    using p both_map_fields(5) by (simp add: record_range_def checked_add_def u64_max_def changed_def Let_def both_map_def splice_def FLUSH_INTERVAL_def)
  define img where "img = write_at 2048 (replicate 2048 0) (write_at 0 half_buf (\<lambda>b. 0))"
  have img: "img 100 = 7" by (simp add: img_def write_at_def half_buf_def)
  have env: "k_fill_disown late_env = (\<lambda>_. False)" "k_written late_env = 4096"
    by (simp_all add: late_env_def sample_sink_env_def)
  have fill: "fill_loop late_env 2048 0 2048 (write_at 0 half_buf (\<lambda>b. 0)) = (FillDone, img)"
    by (simp add: fill_loop.simps [of late_env 2048 0] fill_loop.simps [of late_env 2048 2048] env ZERO_CHUNK_def img_def Let_def)
  have "sweep_apply late_env (GapFill 2048 2048) ?s1 = (Inr Continue, ?s1\<lparr>sk_img := img,
      sk_map := both_map\<lparr>dirty := False, last_flushed := t\<rparr>, sk_fs := f(tmp_path ''m'' := None, ''m'' \<mapsto> print_map both_map)\<rparr>)"
    using rec fill both_map_fields(4)
    by (simp add: sweep_apply_def apply_fill_def record_item_def small_sink_def Let_def) (simp add: late_env_def sample_sink_env_def)
  moreover have "look (entries both_map) 100 = Some Finished" by (simp add: both_map_fields(1))
  moreover have "print_map (both_map\<lparr>dirty := False, last_flushed := t\<rparr>) = print_map both_map"
    by (simp add: print_map_def map_lines_def header_lines_def)
  ultimately show ?thesis using g img by (simp add: small_sink_def)
qed

end
