(* ===== verification/Names.thy ===== *)
theory Names
  imports SweepSink "HOL-Library.Word"
begin

unbundle bit_operations_syntax

text \<open>
  The rename of a finished image's decrypted names behind an undo log
  (\<open>src/src/recovery/names.rs\<close>): the log's bytes, its settling by the next run, the rename itself. The
  plan of the rename and the check of the result are the library's; they come in as a plan and a function.
  Every file operation can fail, every write can stop part-way, and the process can die at any of them.
\<close>

subsection \<open>The undo log\<close>

definition MAGIC :: "nat list" where "MAGIC = [70, 77, 75, 86, 85, 78, 68, 52]"
definition STATE_AT :: nat where "STATE_AT = 8"
definition HEADER :: nat where "HEADER = 29"
definition RECORD :: nat where "RECORD = 6 + 2 * SECTOR"
definition PENDING :: nat where "PENDING = 0"
definition COMMITTED :: nat where "COMMITTED = 1"

record Record =
  lba :: nat
  is_fill :: bool
  r_status :: SectorStatus
  planned :: "nat list"
  orig :: "nat list"

text \<open>\<open>to_le_bytes\<close> and \<open>from_le_bytes\<close>.\<close>

fun to_le :: "nat \<Rightarrow> nat \<Rightarrow> nat list" where
  "to_le 0 n = []"
| "to_le (Suc k) n = n mod 256 # to_le k (n div 256)"

fun from_le :: "nat list \<Rightarrow> nat" where
  "from_le [] = 0"
| "from_le (b # bs) = b + 256 * from_le bs"

definition fnv :: "nat list \<Rightarrow> 64 word" where
  "fnv bs = foldl (\<lambda>h b. (h XOR of_nat b) * 0x100000001b3) 0xcbf29ce484222325 bs"

definition checksum :: "nat list \<Rightarrow> nat" where
  "checksum bs = unat (fnv (bs[STATE_AT := 0]))"

definition record_bytes :: "Record \<Rightarrow> nat list" where
  "record_bytes r = to_le 4 (lba r) @ [if is_fill r then 1 else 0, of_char (to_char (r_status r))] @ planned r @ orig r"

text \<open>The log with a checksum field.\<close>

definition undo_with :: "nat \<Rightarrow> nat \<Rightarrow> u64 \<Rightarrow> Record list \<Rightarrow> nat list" where
  "undo_with fsum state len rs =
     MAGIC @ [state] @ to_le 8 len @ to_le 4 (length rs) @ to_le 8 fsum @ concat (map record_bytes rs)"

definition undo_bytes :: "u64 \<Rightarrow> Record list \<Rightarrow> nat list" where
  "undo_bytes len rs = undo_with (checksum (undo_with 0 PENDING len rs)) PENDING len rs"

definition commit_bytes :: "nat list \<Rightarrow> nat list" where
  "commit_bytes bs = bs[STATE_AT := COMMITTED]"

definition parse_record :: "nat list \<Rightarrow> Record option" where
  "parse_record r =
     map_option (\<lambda>st. \<lparr>lba = from_le (take 4 r), is_fill = (r ! 4 \<noteq> 0), r_status = st,
                       planned = take SECTOR (drop 6 r), orig = take SECTOR (drop (6 + SECTOR) r)\<rparr>)
       (from_char (char_of (r ! 5)))"

fun parse_records :: "nat \<Rightarrow> nat list \<Rightarrow> Record list option" where
  "parse_records 0 bs = Some []"
| "parse_records (Suc k) bs =
     (case parse_record (take RECORD bs) of
        None \<Rightarrow> None
      | Some r \<Rightarrow> map_option (\<lambda>rs. r # rs) (parse_records k (drop RECORD bs)))"

definition parse_undo :: "nat list \<Rightarrow> (nat \<times> u64 \<times> Record list) option" where
  "parse_undo bs =
     (if length bs < HEADER \<or> take 8 bs \<noteq> MAGIC then None
      else let state = bs ! STATE_AT; len = from_le (take 8 (drop 9 bs)); k = from_le (take 4 (drop 17 bs));
               fsum = from_le (take 8 (drop 21 bs));
               zeroed = take (HEADER - 8) bs @ replicate 8 0 @ drop HEADER bs
           in if state > COMMITTED \<or> length bs \<noteq> HEADER + k * RECORD \<or> checksum zeroed \<noteq> fsum then None
              else map_option (\<lambda>rs. (state, len, rs)) (parse_records k (drop HEADER bs)))"

subsection \<open>The files\<close>

text \<open>
  The image, its synced content, the undo log, the synced undo log, the map files. \<open>Go\<close> is success,
  \<open>Fail\<close> an error the code sees, \<open>Dead\<close> the end of the process.
\<close>

record NState =
  img :: "nat \<Rightarrow> nat"
  img_dur :: "nat \<Rightarrow> nat"
  img_len :: nat
  undo :: "nat list option"
  undo_dur :: "nat list option"
  nfs :: fs

datatype flow = Go | Fail | Dead

definition and_then :: "flow \<times> NState \<Rightarrow> (NState \<Rightarrow> flow \<times> NState) \<Rightarrow> flow \<times> NState" where
  "and_then x f = (case x of (Go, s) \<Rightarrow> f s | r \<Rightarrow> r)"

text \<open>An operation that either does all of its effect or none; \<open>dead_done\<close> is a death right after it.\<close>

datatype op_out = OpOk | OpFail | OpDead | OpDeadDone

definition atomic_op :: "op_out \<Rightarrow> (NState \<Rightarrow> NState) \<Rightarrow> NState \<Rightarrow> flow \<times> NState" where
  "atomic_op oc eff s =
     (case oc of OpOk \<Rightarrow> (Go, eff s) | OpFail \<Rightarrow> (Fail, s) | OpDead \<Rightarrow> (Dead, s) | OpDeadDone \<Rightarrow> (Dead, eff s))"

text \<open>One \<open>write_all\<close> of a sector: it may be lost silently, or stop after some bytes.\<close>

datatype write_out = Wrote | Lost | Torn nat | DeadAfter nat

definition write_sector :: "write_out \<Rightarrow> nat \<Rightarrow> nat list \<Rightarrow> NState \<Rightarrow> flow \<times> NState" where
  "write_sector oc l bs s =
     (case oc of
        Wrote \<Rightarrow> (Go, s\<lparr>img := write_at (l * SECTOR) bs (img s)\<rparr>)
      | Lost \<Rightarrow> (Go, s)
      | Torn k \<Rightarrow> (Fail, s\<lparr>img := write_at (l * SECTOR) (take k bs) (img s)\<rparr>)
      | DeadAfter k \<Rightarrow> (Dead, s\<lparr>img := write_at (l * SECTOR) (take k bs) (img s)\<rparr>))"

fun write_sectors :: "(nat \<Rightarrow> write_out) \<Rightarrow> (nat \<times> nat list) list \<Rightarrow> NState \<Rightarrow> flow \<times> NState" where
  "write_sectors wo [] s = (Go, s)"
| "write_sectors wo (x # xs) s = and_then (write_sector (wo (fst x)) (fst x) (snd x) s) (write_sectors wo xs)"

definition read_sector :: "nat \<Rightarrow> NState \<Rightarrow> nat list option" where
  "read_sector l s = (if (l + 1) * SECTOR \<le> img_len s then Some (map (img s) [l * SECTOR..<(l + 1) * SECTOR]) else None)"

subsection \<open>The map beside the image\<close>

text \<open>Loads and writes of the map while sectors are marked; \<open>m_dead\<close> dies before the record it names.\<close>

record MarkEnv =
  m_read :: map_read
  m_rec :: "nat \<Rightarrow> WriteEnv"
  m_flush :: WriteEnv
  m_drop :: WriteEnv
  m_dead :: "nat option"

text \<open>Record after record, then a flush; on an error the map is dropped.\<close>

fun mark_sectors :: "MarkEnv \<Rightarrow> nat \<Rightarrow> (nat \<times> SectorStatus) list \<Rightarrow> Mapfile \<Rightarrow> fs \<Rightarrow> flow \<times> fs" where
  "mark_sectors e i [] m f =
     (if m_dead e = Some i then (Dead, f)
      else case flush (m_flush e) m f of
             (Inr _, m', f') \<Rightarrow> (Go, drop_map (m_drop e) m' f') | (Inl _, m', f') \<Rightarrow> (Fail, drop_map (m_drop e) m' f'))"
| "mark_sectors e i (x # xs) m f =
     (if m_dead e = Some i then (Dead, f)
      else case record_range (m_rec e i) (fst x * SECTOR) SECTOR (snd x) m f of
             (Inr _, m', f') \<Rightarrow> mark_sectors e (i + 1) xs m' f'
           | (Inl _, m', f') \<Rightarrow> (Fail, drop_map (m_drop e) m' f'))"

definition mark_fills ::
  "(nat \<Rightarrow> string \<Rightarrow> nat list option) \<Rightarrow> (string \<Rightarrow> nat list \<Rightarrow> nat list) \<Rightarrow> string \<Rightarrow> MarkEnv \<Rightarrow> Record list \<Rightarrow> NState \<Rightarrow>
   flow \<times> NState" where
  "mark_fills ph sh mf e rs s =
     (if \<not> list_ex is_fill rs then (Go, s)
      else case load ph sh (m_read e) (nfs s) mf of
             Inl _ \<Rightarrow> (Fail, s)
           | Inr m \<Rightarrow>
               (case mark_sectors e 0 (map (\<lambda>r. (lba r, Finished)) (filter is_fill rs)) m (nfs s) of
                  (r, f) \<Rightarrow> (r, s\<lparr>nfs := f\<rparr>)))"

definition reset_fills ::
  "(nat \<Rightarrow> string \<Rightarrow> nat list option) \<Rightarrow> (string \<Rightarrow> nat list \<Rightarrow> nat list) \<Rightarrow> string \<Rightarrow> MarkEnv \<Rightarrow> Record list \<Rightarrow> NState \<Rightarrow>
   flow \<times> NState" where
  "reset_fills ph sh mf e rs s =
     (let reset = filter (\<lambda>r. is_fill r \<and> r_status r \<noteq> Finished) rs
      in if reset = [] then (Go, s)
         else case load ph sh (m_read e) (nfs s) mf of
                Inl x \<Rightarrow> (if x = NotFound then (Go, s) else (Fail, s))
              | Inr m \<Rightarrow>
                  (case mark_sectors e 0 (map (\<lambda>r. (lba r, r_status r)) reset) m (nfs s) of
                     (r, f) \<Rightarrow> (r, s\<lparr>nfs := f\<rparr>)))"

subsection \<open>Roll back and settle\<close>

record RestoreEnv =
  re_open :: bool
  re_write :: "nat \<Rightarrow> write_out"
  re_sync :: op_out
  re_map :: MarkEnv

definition sync_image :: "NState \<Rightarrow> NState" where
  "sync_image s = s\<lparr>img_dur := img s\<rparr>"

definition restore :: "RestoreEnv \<Rightarrow> Record list \<Rightarrow> NState \<Rightarrow> flow \<times> NState" where
  "restore e rs s =
     (if \<not> re_open e then (Fail, s)
      else and_then (write_sectors (re_write e) (map (\<lambda>r. (lba r, orig r)) rs) s) (atomic_op (re_sync e) sync_image))"

definition rollback ::
  "(nat \<Rightarrow> string \<Rightarrow> nat list option) \<Rightarrow> (string \<Rightarrow> nat list \<Rightarrow> nat list) \<Rightarrow> string \<Rightarrow> RestoreEnv \<Rightarrow> Record list \<Rightarrow> NState \<Rightarrow>
   flow \<times> NState" where
  "rollback ph sh mf e rs s = and_then (restore e rs s) (reset_fills ph sh mf (re_map e) rs)"

text \<open>The sync of the directory after a removal is best effort: \<open>durable\<close> says whether it took.\<close>

definition remove_undo :: "op_out \<Rightarrow> bool \<Rightarrow> NState \<Rightarrow> flow \<times> NState" where
  "remove_undo oc durable s =
     (if undo s = None then (Go, s)
      else atomic_op oc (\<lambda>s. s\<lparr>undo := None, undo_dur := (if durable then None else undo_dur s)\<rparr>) s)"

datatype settled = Done | StatusOwed | Unrestored "nat list" | Unknown

text \<open>Which records to roll back; \<open>None\<close> is another image. The outer option is a read that failed.\<close>

fun ours :: "(nat \<Rightarrow> bool) \<Rightarrow> Record list \<Rightarrow> NState \<Rightarrow> bool list option option" where
  "ours rd [] s = Some (Some [])"
| "ours rd (r # rs) s =
     (case (if rd (lba r) then read_sector (lba r) s else None) of
        None \<Rightarrow> None
      | Some got \<Rightarrow>
          (let mixed = list_all (\<lambda>i. got ! i = orig r ! i \<or> got ! i = planned r ! i) [0..<SECTOR]
           in if \<not> mixed \<and> \<not> is_fill r then Some None
              else map_option (map_option (\<lambda>xs. mixed # xs)) (ours rd rs s)))"

record SettleEnv =
  st_undo_ok :: bool
  st_len :: "io_error + nat"
  st_open :: bool
  st_read :: "nat \<Rightarrow> bool"
  st_restore :: RestoreEnv
  st_remove :: op_out
  st_durable :: bool

definition settle_end :: "SettleEnv \<Rightarrow> nat \<Rightarrow> NState \<Rightarrow> settled option \<times> NState" where
  "settle_end e state s =
     (case remove_undo (st_remove e) (st_durable e) s of
        (Go, s') \<Rightarrow> (Some Done, s')
      | (Fail, s') \<Rightarrow> (Some (if state = PENDING then StatusOwed else Done), s')
      | (Dead, s') \<Rightarrow> (None, s'))"

text \<open>\<open>None\<close> when the process dies.\<close>

definition settle_names_undo ::
  "(nat \<Rightarrow> string \<Rightarrow> nat list option) \<Rightarrow> (string \<Rightarrow> nat list \<Rightarrow> nat list) \<Rightarrow> string \<Rightarrow> SettleEnv \<Rightarrow> NState \<Rightarrow>
   settled option \<times> NState" where
  "settle_names_undo ph sh mf e s =
     (case undo s of
        None \<Rightarrow> (Some Done, s)
      | Some bytes \<Rightarrow>
          if \<not> st_undo_ok e then (Some Unknown, s)
          else case parse_undo bytes of
            None \<Rightarrow> (Some Unknown, s)
          | Some (state, len, rs) \<Rightarrow>
              (let lbas = Some (Unrestored (map lba rs))
               in case (case st_len e of Inr n \<Rightarrow> Inr (Some n) | Inl x \<Rightarrow> if x = NotFound then Inr None else Inl x) of
                 Inl _ \<Rightarrow> (lbas, s)
               | Inr l \<Rightarrow>
                   if l \<noteq> Some len \<or> state \<noteq> PENDING then settle_end e state s
                   else case (if st_open e then ours (st_read e) rs s else None) of
                     None \<Rightarrow> (lbas, s)
                   | Some None \<Rightarrow> settle_end e state s
                   | Some (Some flags) \<Rightarrow>
                       (let back = map fst (filter snd (zip rs flags))
                        in case restore (st_restore e) back s of
                             (Dead, s') \<Rightarrow> (None, s')
                           | (Fail, s') \<Rightarrow> (lbas, s')
                           | (Go, s') \<Rightarrow>
                               (case reset_fills ph sh mf (re_map (st_restore e)) back s' of
                                  (Dead, s'') \<Rightarrow> (None, s'')
                                | (Fail, s'') \<Rightarrow> (Some StatusOwed, s'')
                                | (Go, s'') \<Rightarrow> settle_end e state s''))))"

definition settle_before_pass :: "settled \<Rightarrow> range list" where
  "settle_before_pass r = (case r of Unrestored ls \<Rightarrow> map (\<lambda>l. (l * SECTOR, SECTOR)) ls | _ \<Rightarrow> [])"

subsection \<open>Sectors of the map\<close>

definition status_at :: "Mapfile \<Rightarrow> nat \<Rightarrow> SectorStatus" where
  "status_at m l =
     (case find (\<lambda>e. e_pos e \<le> l * SECTOR \<and> l * SECTOR < e_pos e + e_size e) (entries m) of
        None \<Rightarrow> NonTried | Some e \<Rightarrow> e_status e)"

text \<open>One range less single sectors, in order.\<close>

fun cut_range :: "nat \<Rightarrow> nat \<Rightarrow> nat list \<Rightarrow> (nat \<times> nat) list" where
  "cut_range a e [] = (if a < e then [(a, e - a)] else [])"
| "cut_range a e (c # cs) = (if a < c then [(a, c - a)] else []) @ cut_range (c + 1) e cs"

definition without :: "(nat \<times> nat) list \<Rightarrow> nat list \<Rightarrow> (nat \<times> nat) list" where
  "without rs ls =
     concat (map (\<lambda>(st, n). cut_range st (st + n) (sort (filter (\<lambda>l. st \<le> l \<and> l < st + n) ls))) rs)"

definition unfinished :: "Mapfile \<Rightarrow> (nat \<times> nat) list" where
  "unfinished m =
     map (\<lambda>(p, n). let st = min (p div SECTOR) u32_max; e = div_ceil (p + n) SECTOR in (st, min e u32_max - st))
       (ranges_with m bad_sector_statuses)"

subsection \<open>The rename\<close>

record NamePlan =
  np_sectors :: "(nat \<times> nat list) list"
  np_restored :: "nat list"

datatype DecryptedNames = Renamed nat | Kept string

definition Unexpected :: string where "Unexpected = ''Unexpected''"

type_synonym check_fn = "(nat \<Rightarrow> nat) \<Rightarrow> nat \<Rightarrow> (nat \<times> nat) list \<Rightarrow> bool \<Rightarrow> DecryptedNames option"
type_synonym plan_fn = "(nat \<Rightarrow> nat) \<Rightarrow> nat \<Rightarrow> (nat \<times> nat) list \<Rightarrow> string + NamePlan option"

record ApplyEnv =
  a_open_read :: bool
  a_read :: "nat \<Rightarrow> bool"
  a_len_ok :: bool
  a_undo :: op_out
  a_undo_dir :: op_out
  a_open :: bool
  a_write :: "nat \<Rightarrow> write_out"
  a_sync :: op_out
  a_back_open :: bool
  a_back :: "nat \<Rightarrow> bool"
  a_mark :: MarkEnv
  a_rollback :: RestoreEnv
  a_commit :: op_out
  a_commit_sync :: op_out
  a_remove :: op_out
  a_removal_durable :: bool

text \<open>The log is written to a temporary file, synced and renamed; then its directory is synced.\<close>

definition write_undo :: "ApplyEnv \<Rightarrow> nat list \<Rightarrow> NState \<Rightarrow> flow \<times> NState" where
  "write_undo e bs s =
     and_then (atomic_op (a_undo e) (\<lambda>s. s\<lparr>undo := Some bs\<rparr>) s) (atomic_op (a_undo_dir e) (\<lambda>s. s\<lparr>undo_dur := undo s\<rparr>))"

definition commit_undo :: "ApplyEnv \<Rightarrow> NState \<Rightarrow> flow \<times> NState" where
  "commit_undo e s =
     and_then (atomic_op (a_commit e) (\<lambda>s. s\<lparr>undo := map_option commit_bytes (undo s)\<rparr>) s)
       (atomic_op (a_commit_sync e) (\<lambda>s. s\<lparr>undo_dur := undo s\<rparr>))"

text \<open>The originals behind the plan, read from the image.\<close>

fun read_records ::
  "ApplyEnv \<Rightarrow> nat list \<Rightarrow> ((nat \<times> nat list) \<times> SectorStatus) list \<Rightarrow> NState \<Rightarrow> Record list option" where
  "read_records e restored [] s = Some []"
| "read_records e restored (x # xs) s =
     (case (if a_read e (fst (fst x)) then read_sector (fst (fst x)) s else None) of
        None \<Rightarrow> None
      | Some bs \<Rightarrow>
          map_option (\<lambda>rs. \<lparr>lba = fst (fst x), is_fill = (fst (fst x) \<in> set restored), r_status = snd x,
                            planned = snd (fst x), orig = bs\<rparr> # rs) (read_records e restored xs s))"

definition write_and_verify ::
  "check_fn \<Rightarrow> ApplyEnv \<Rightarrow> NamePlan \<Rightarrow> (nat \<times> nat) list \<Rightarrow> bool \<Rightarrow> NState \<Rightarrow> flow \<times> NState" where
  "write_and_verify chk e plan unreadable aacs s =
     and_then (and_then (write_sectors (a_write e) (np_sectors plan) s) (atomic_op (a_sync e) sync_image))
       (\<lambda>s. if a_back_open e \<and>
               list_all (\<lambda>(l, bs). a_back e l \<and> read_sector l s = Some bs) (np_sectors plan) \<and>
               (case chk (img s) (img_len s) (without unreadable (np_restored plan)) aacs of
                  Some (Renamed _) \<Rightarrow> True | _ \<Rightarrow> False)
            then (Go, s) else (Fail, s))"

definition apply_names ::
  "(nat \<Rightarrow> string \<Rightarrow> nat list option) \<Rightarrow> (string \<Rightarrow> nat list \<Rightarrow> nat list) \<Rightarrow> check_fn \<Rightarrow> string \<Rightarrow> ApplyEnv \<Rightarrow>
   NamePlan \<Rightarrow> SectorStatus list \<Rightarrow> (nat \<times> nat) list \<Rightarrow> bool \<Rightarrow> NState \<Rightarrow> flow \<times> NState" where
  "apply_names ph sh chk mf e plan sts unreadable aacs s0 =
     (case (if a_open_read e then read_records e (np_restored plan) (zip (np_sectors plan) sts) s0 else None) of
        None \<Rightarrow> (Fail, s0)
      | Some rs \<Rightarrow>
          if \<not> a_len_ok e then (Fail, s0)
          else and_then (write_undo e (undo_bytes (img_len s0) rs) s0)
            (\<lambda>s. case (if a_open e
                        then and_then (write_and_verify chk e plan unreadable aacs s) (mark_fills ph sh mf (a_mark e) rs)
                        else (Fail, s)) of
                (Dead, s') \<Rightarrow> (Dead, s')
              | (Fail, s') \<Rightarrow>
                  (case and_then (rollback ph sh mf (a_rollback e) rs s') (remove_undo (a_remove e) (a_removal_durable e)) of
                     (Dead, s'') \<Rightarrow> (Dead, s'') | (_, s'') \<Rightarrow> (Fail, s''))
              | (Go, s') \<Rightarrow>
                  (case and_then (commit_undo e s') (remove_undo (a_remove e) (a_removal_durable e)) of
                     (Dead, s'') \<Rightarrow> (Dead, s'') | (_, s'') \<Rightarrow> (Go, s''))))"

text \<open>The whole of it; \<open>None\<close> when the process dies, \<open>Some None\<close> when there is nothing to rename.\<close>

definition finish_with ::
  "(nat \<Rightarrow> string \<Rightarrow> nat list option) \<Rightarrow> (string \<Rightarrow> nat list \<Rightarrow> nat list) \<Rightarrow> plan_fn \<Rightarrow> check_fn \<Rightarrow> string \<Rightarrow> bool \<Rightarrow>
   map_read \<Rightarrow> SettleEnv \<Rightarrow> ApplyEnv \<Rightarrow> bool \<Rightarrow> NState \<Rightarrow> DecryptedNames option option \<times> NState" where
  "finish_with ph sh plan_names chk mf regular rd se e aacs s =
     (let kept = (\<lambda>c. if aacs then Some (Kept c) else None)
      in if \<not> regular then (Some None, s)
         else case settle_names_undo ph sh mf se s of
           (None, s) \<Rightarrow> (None, s)
         | (Some r, s) \<Rightarrow>
             if r \<noteq> Done \<or> undo s \<noteq> None then (Some (kept Unexpected), s)
             else case load ph sh rd (nfs s) mf of
               Inl _ \<Rightarrow> (Some None, s)
             | Inr m \<Rightarrow>
                 if raw m = None \<and> scope m = None then (Some (kept Unexpected), s)
                 else if raw m \<noteq> Some False \<or> scope m \<noteq> None then (Some None, s)
                 else (let bad = unfinished m
                       in case plan_names (img s) (img_len s) bad of
                            Inl c \<Rightarrow> (Some (kept c), s)
                          | Inr None \<Rightarrow> (Some (chk (img s) (img_len s) bad aacs), s)
                          | Inr (Some plan) \<Rightarrow>
                              (case apply_names ph sh chk mf e plan (map (status_at m \<circ> fst) (np_sectors plan)) bad aacs s of
                                 (Dead, s') \<Rightarrow> (None, s')
                               | (Go, s') \<Rightarrow> (Some (Some (Renamed (length (np_restored plan)))), s')
                               | (Fail, s') \<Rightarrow> (Some (Some (Kept Unexpected)), s'))))"

end
