(* ===== verification/NamesInv.thy ===== *)
theory NamesInv
  imports Names
begin

text \<open>
  What the rename keeps: its log reads back as it was written, a log that cannot be read back is never acted
  on, and whatever interrupts a rename, the image can be made whole again.
\<close>

subsection \<open>The log reads back\<close>

lemma length_to_le [simp]: "length (to_le k n) = k"
  by (induction k arbitrary: n) simp_all

lemma from_to_le [simp]: "n < 256 ^ k \<Longrightarrow> from_le (to_le k n) = n"
proof (induction k arbitrary: n)
  case (Suc k)
  then have "n div 256 < 256 ^ k" by (simp add: less_mult_imp_div_less mult.commute)
  then show ?case using Suc.IH [of "n div 256"] by simp
qed simp

definition record_ok :: "Record \<Rightarrow> bool" where
  "record_ok r \<longleftrightarrow> lba r < u32_max + 1 \<and> length (planned r) = SECTOR \<and> length (orig r) = SECTOR"

lemma record_length: "record_ok r \<Longrightarrow> length (record_bytes r) = RECORD"
  by (simp add: record_ok_def record_bytes_def RECORD_def)

lemma parse_record_bytes: "record_ok r \<Longrightarrow> parse_record (record_bytes r) = Some r"
proof -
  assume ok: "record_ok r"
  let ?h = "to_le 4 (lba r)" and ?m = "[if is_fill r then 1 else 0, of_char (to_char (r_status r))] :: nat list"
  have len: "length (planned r) = SECTOR" "length (orig r) = SECTOR" "lba r < 256 ^ 4" "length (?h @ ?m) = 6"
    using ok by (simp_all add: record_ok_def u32_max_def)
  have eq: "record_bytes r = (?h @ ?m) @ planned r @ orig r" by (simp add: record_bytes_def)
  have "take 4 (record_bytes r) = ?h" "record_bytes r ! 4 = (if is_fill r then 1 else 0)"
    "record_bytes r ! 5 = of_char (to_char (r_status r))"
    by (simp_all add: record_bytes_def nth_append)
  moreover have "drop 6 (record_bytes r) = planned r @ orig r" unfolding eq using len(4) by simp
  moreover from this have "drop (6 + SECTOR) (record_bytes r) = orig r" using len(1) by (simp flip: drop_drop add: add.commute [of 6])
  ultimately show ?thesis using len from_to_le [OF len(3)] by (cases r) (simp add: parse_record_def)
qed

lemma parse_records_bytes: "list_all record_ok rs \<Longrightarrow> parse_records (length rs) (concat (map record_bytes rs)) = Some rs"
  by (induction rs) (simp_all add: record_length parse_record_bytes)

lemma undo_with_length: "list_all record_ok rs \<Longrightarrow> length (undo_with c st len rs) = HEADER + length rs * RECORD"
  by (induction rs) (simp_all add: undo_with_def MAGIC_def HEADER_def record_length)

lemma undo_with_fields:
  assumes "len < u64_max + 1" and "length rs < u32_max + 1" and "c < u64_max + 1"
  shows "take 8 (undo_with c st len rs) = MAGIC" and "undo_with c st len rs ! STATE_AT = st"
    and "from_le (take 8 (drop 9 (undo_with c st len rs))) = len"
    and "from_le (take 4 (drop 17 (undo_with c st len rs))) = length rs"
    and "from_le (take 8 (drop 21 (undo_with c st len rs))) = c"
    and "drop HEADER (undo_with c st len rs) = concat (map record_bytes rs)"
    and "take (HEADER - 8) (undo_with c st len rs) @ replicate 8 0 @ drop HEADER (undo_with c st len rs) = undo_with 0 st len rs"
    and "(undo_with c st len rs)[STATE_AT := st'] = undo_with c st' len rs"
proof -
  let ?b = "concat (map record_bytes rs)"
  have m: "length MAGIC = 8" by (simp add: MAGIC_def)
  have eq: "undo_with c st len rs = MAGIC @ [st] @ to_le 8 len @ to_le 4 (length rs) @ to_le 8 c @ ?b" for c st
    by (simp add: undo_with_def)
  have small: "len < 256 ^ 8" "length rs < 256 ^ 4" "c < 256 ^ 8" using assms by (simp_all add: u64_max_def u32_max_def)
  show "take 8 (undo_with c st len rs) = MAGIC" unfolding eq using m by simp
  show "undo_with c st len rs ! STATE_AT = st" unfolding eq STATE_AT_def using m by (simp add: nth_append)
  have d9: "drop 9 (undo_with c st len rs) = to_le 8 len @ to_le 4 (length rs) @ to_le 8 c @ ?b" unfolding eq using m by simp
  have d17: "drop 17 (undo_with c st len rs) = to_le 4 (length rs) @ to_le 8 c @ ?b" unfolding eq using m by simp
  have d21: "drop 21 (undo_with c st len rs) = to_le 8 c @ ?b" unfolding eq using m by simp
  show "from_le (take 8 (drop 9 (undo_with c st len rs))) = len" unfolding d9 using from_to_le [OF small(1)] by simp
  show "from_le (take 4 (drop 17 (undo_with c st len rs))) = length rs" unfolding d17 using from_to_le [OF small(2)] by simp
  show "from_le (take 8 (drop 21 (undo_with c st len rs))) = c" unfolding d21 using from_to_le [OF small(3)] by simp
  show d: "drop HEADER (undo_with c st len rs) = ?b" unfolding eq HEADER_def using m by simp
  have "to_le k 0 = replicate k 0" for k by (induction k) simp_all
  moreover have "take 21 (undo_with c st len rs) = MAGIC @ [st] @ to_le 8 len @ to_le 4 (length rs)" unfolding eq using m by simp
  ultimately show "take (HEADER - 8) (undo_with c st len rs) @ replicate 8 0 @ drop HEADER (undo_with c st len rs) = undo_with 0 st len rs"
    using d m by (simp add: undo_with_def HEADER_def)
  show "(undo_with c st len rs)[STATE_AT := st'] = undo_with c st' len rs" unfolding eq STATE_AT_def using m
    by (simp add: list_update_append)
qed

lemma checksum_small: "checksum bs < u64_max + 1"
  using unsigned_less [of "fnv (bs[STATE_AT := 0])", where ?'a = nat] by (simp add: checksum_def u64_max_def)

lemma parse_undo_with:
  assumes "list_all record_ok rs" and "len < u64_max + 1" and "length rs < u32_max + 1" and "st \<le> COMMITTED"
  shows "parse_undo (undo_with (checksum (undo_with 0 PENDING len rs)) st len rs) = Some (st, len, rs)"
proof -
  let ?c = "checksum (undo_with 0 PENDING len rs)"
  note f = undo_with_fields [OF assms(2,3) checksum_small, of "undo_with 0 PENDING len rs" st]
  have "checksum (undo_with 0 st len rs) = ?c"
    using undo_with_fields(8) [OF assms(2,3), of 0 _ 0] by (simp add: checksum_def)
  then show ?thesis
    using undo_with_length [OF assms(1)] assms(4) parse_records_bytes [OF assms(1)]
    unfolding parse_undo_def Let_def unfolding f(7) unfolding f(1-6) by simp
qed

lemma undo_log_reads_back:
  assumes "list_all record_ok rs" and "len < u64_max + 1" and "length rs < u32_max + 1"
  shows "parse_undo (undo_bytes len rs) = Some (PENDING, len, rs)"
    and "parse_undo (commit_bytes (undo_bytes len rs)) = Some (COMMITTED, len, rs)"
  using parse_undo_with [OF assms, of PENDING] parse_undo_with [OF assms, of COMMITTED]
    undo_with_fields(8) [OF assms(2,3) checksum_small, of "undo_with 0 PENDING len rs" PENDING COMMITTED]
  by (simp_all add: undo_bytes_def commit_bytes_def PENDING_def COMMITTED_def)

subsection \<open>The image under a log\<close>

text \<open>The image with the whole plan written; an image that is, byte for byte, one or the other.\<close>

definition renamed :: "Record list \<Rightarrow> (nat \<Rightarrow> nat) \<Rightarrow> nat \<Rightarrow> nat" where
  "renamed rs f b = (case find (\<lambda>r. lba r = b div SECTOR) rs of None \<Rightarrow> f b | Some r \<Rightarrow> planned r ! (b mod SECTOR))"

definition mixed :: "Record list \<Rightarrow> (nat \<Rightarrow> nat) \<Rightarrow> (nat \<Rightarrow> nat) \<Rightarrow> bool" where
  "mixed rs f g = (\<forall>b. g b = f b \<or> g b = renamed rs f b)"

text \<open>The records of a log taken from the image \<open>f\<close>.\<close>

definition records_of :: "(nat \<Rightarrow> nat) \<Rightarrow> nat \<Rightarrow> Record list \<Rightarrow> bool" where
  "records_of f len rs \<longleftrightarrow> distinct (map lba rs) \<and> list_all record_ok rs \<and> len < u64_max + 1 \<and> length rs < u32_max + 1 \<and>
     (\<forall>r \<in> set rs. orig r = map f [lba r * SECTOR..<(lba r + 1) * SECTOR] \<and> (lba r + 1) * SECTOR \<le> len)"

lemma find_lba: "distinct (map lba rs) \<Longrightarrow> r \<in> set rs \<Longrightarrow> find (\<lambda>x. lba x = lba r) rs = Some r"
  by (induction rs) (auto simp: rev_image_eqI)

lemma in_sector: "l * SECTOR \<le> b \<and> b < (l + 1) * SECTOR \<longleftrightarrow> b div SECTOR = l"
proof -
  have "b div SECTOR = l \<longleftrightarrow> l * SECTOR \<le> b \<and> b < Suc l * SECTOR"
    using div_nat_eqI [of SECTOR l b] dividend_less_div_times [OF SECTOR_pos, of b] div_times_less_eq_dividend [of b SECTOR]
    by (auto simp: mult.commute)
  then show ?thesis by simp
qed

lemma renamed_in:
  assumes "records_of f len rs" and "r \<in> set rs" and "i < SECTOR"
  shows "renamed rs f (lba r * SECTOR + i) = planned r ! i" and "f (lba r * SECTOR + i) = orig r ! i"
proof -
  have "(lba r * SECTOR + i) div SECTOR = lba r" "(lba r * SECTOR + i) mod SECTOR = i" using assms(3) by simp_all
  then show "renamed rs f (lba r * SECTOR + i) = planned r ! i"
    using find_lba [of rs r] assms(1,2) by (simp add: renamed_def records_of_def)
  show "f (lba r * SECTOR + i) = orig r ! i" using assms by (simp add: records_of_def)
qed

lemma renamed_out: "\<forall>r \<in> set rs. b div SECTOR \<noteq> lba r \<Longrightarrow> renamed rs f b = f b"
proof -
  assume "\<forall>r \<in> set rs. b div SECTOR \<noteq> lba r"
  then have "find (\<lambda>r. lba r = b div SECTOR) rs = None" by (auto simp: find_None_iff)
  then show ?thesis by (simp add: renamed_def)
qed

text \<open>What writes of whole sectors leave: every byte as it was, or as some write wanted it.\<close>

lemma write_sector_keeps:
  "write_sector oc l bs s = (r, s') \<Longrightarrow> s' = s\<lparr>img := img s'\<rparr> \<and>
     (img s' b = img s b \<or> (l * SECTOR \<le> b \<and> b < l * SECTOR + length bs \<and> img s' b = bs ! (b - l * SECTOR)))"
  by (auto simp: write_sector_def write_at_def split: write_out.splits if_splits)

lemma write_sectors_keeps:
  "write_sectors wo xs s = (r, s') \<Longrightarrow> s' = s\<lparr>img := img s'\<rparr> \<and> (img s' b = img s b \<or>
     (\<exists>(l, bs) \<in> set xs. l * SECTOR \<le> b \<and> b < l * SECTOR + length bs \<and> img s' b = bs ! (b - l * SECTOR)))"
proof (induction xs arbitrary: s)
  case (Cons x xs)
  obtain q s1 where w: "write_sector (wo (fst x)) (fst x) (snd x) s = (q, s1)" by fastforce
  have one: "s1 = s\<lparr>img := img s1\<rparr>" "img s1 b = img s b \<or>
      (fst x * SECTOR \<le> b \<and> b < fst x * SECTOR + length (snd x) \<and> img s1 b = snd x ! (b - fst x * SECTOR))"
    using write_sector_keeps [OF w] by auto
  have step: "(if q = Go then write_sectors wo xs s1 else (q, s1)) = (r, s')"
    using Cons.prems w by (cases q) (auto simp: and_then_def)
  show ?case
  proof (cases "q = Go")
    case True
    then have "s' = s1\<lparr>img := img s'\<rparr> \<and> (img s' b = img s1 b \<or>
        (\<exists>(l, bs) \<in> set xs. l * SECTOR \<le> b \<and> b < l * SECTOR + length bs \<and> img s' b = bs ! (b - l * SECTOR)))"
      using Cons.IH step by simp
    moreover from this one(1) have "s' = s\<lparr>img := img s'\<rparr>" by (metis NState.update_convs(1) NState.surjective)
    ultimately show ?thesis using one(2) by (cases x) auto
  next
    case False
    then show ?thesis using step one by (cases x) auto
  qed
qed simp

text \<open>Writes that all took leave the last word everywhere.\<close>

lemma write_sectors_done:
  assumes "write_sectors wo xs s = (Go, s')" and "\<forall>x \<in> set xs. wo (fst x) \<noteq> Lost"
    and "\<forall>(l, bs) \<in> set xs. \<forall>i < length bs. bs ! i = g (l * SECTOR + i)"
  shows "img s' b = (if \<exists>(l, bs) \<in> set xs. l * SECTOR \<le> b \<and> b < l * SECTOR + length bs then g b else img s b)"
  using assms
proof (induction xs arbitrary: s)
  case (Cons x xs)
  obtain l bs where x: "x = (l, bs)" by (cases x)
  let ?s1 = "s\<lparr>img := write_at (l * SECTOR) bs (img s)\<rparr>"
  have "wo l = Wrote" and run: "write_sectors wo xs ?s1 = (Go, s')"
    using Cons.prems(1,2) x by (auto simp: and_then_def write_sector_def split: write_out.splits prod.splits flow.splits)
  have "img ?s1 b = (if l * SECTOR \<le> b \<and> b < l * SECTOR + length bs then g b else img s b)"
    using Cons.prems(3) x by (auto simp: write_at_def dest!: spec [of _ "b - l * SECTOR"])
  then show ?case using Cons.IH [OF run] Cons.prems(2,3) x by auto
qed simp

subsection \<open>The states a rename goes through\<close>

text \<open>
  Original image; image being written or rolled back, behind a pending log on stable storage; renamed image.
\<close>

definition original_state :: "Record list \<Rightarrow> (nat \<Rightarrow> nat) \<Rightarrow> nat \<Rightarrow> NState \<Rightarrow> bool" where
  "original_state rs f len s \<longleftrightarrow> img_len s = len \<and> img s = f \<and> img_dur s = f \<and>
     undo s \<in> {None, Some (undo_bytes len rs)} \<and> undo_dur s \<in> {None, Some (undo_bytes len rs)}"

definition pending_state :: "Record list \<Rightarrow> (nat \<Rightarrow> nat) \<Rightarrow> nat \<Rightarrow> NState \<Rightarrow> bool" where
  "pending_state rs f len s \<longleftrightarrow> img_len s = len \<and> mixed rs f (img s) \<and> mixed rs f (img_dur s) \<and>
     undo s = Some (undo_bytes len rs) \<and> undo_dur s = Some (undo_bytes len rs)"

definition renamed_state :: "Record list \<Rightarrow> (nat \<Rightarrow> nat) \<Rightarrow> nat \<Rightarrow> NState \<Rightarrow> bool" where
  "renamed_state rs f len s \<longleftrightarrow> img_len s = len \<and> img s = renamed rs f \<and> img_dur s = renamed rs f \<and>
     undo s \<in> {None, Some (undo_bytes len rs), Some (commit_bytes (undo_bytes len rs))} \<and>
     undo_dur s \<in> {None, Some (undo_bytes len rs), Some (commit_bytes (undo_bytes len rs))} \<and>
     (undo s = Some (undo_bytes len rs) \<longrightarrow> undo_dur s = Some (undo_bytes len rs))"

definition names_state :: "Record list \<Rightarrow> (nat \<Rightarrow> nat) \<Rightarrow> nat \<Rightarrow> NState \<Rightarrow> bool" where
  "names_state rs f len s \<longleftrightarrow> original_state rs f len s \<or> pending_state rs f len s \<or> renamed_state rs f len s"

lemma mixed_ends [simp]: "mixed rs f f" "mixed rs f (renamed rs f)"
  by (simp_all add: mixed_def)

text \<open>The power goes: each byte, and the log, is what the process saw or what was synced.\<close>

definition power_loss :: "(nat \<Rightarrow> bool) \<Rightarrow> bool \<Rightarrow> NState \<Rightarrow> NState" where
  "power_loss kept log_kept s =
     (let g = (\<lambda>b. if kept b then img s b else img_dur s b); u = (if log_kept then undo s else undo_dur s)
      in s\<lparr>img := g, img_dur := g, undo := u, undo_dur := u\<rparr>)"

lemma power_loss_state: "names_state rs f len s \<Longrightarrow> names_state rs f len (power_loss k d s)"
  by (auto simp: names_state_def original_state_def pending_state_def renamed_state_def power_loss_def mixed_def Let_def)

lemma nfs_state: "names_state rs f len (s\<lparr>nfs := g\<rparr>) = names_state rs f len s"
  by (simp add: names_state_def original_state_def pending_state_def renamed_state_def)

lemma mark_fills_only: "mark_fills ph sh mf e rs s = (r, s') \<Longrightarrow> s' = s\<lparr>nfs := nfs s'\<rparr>"
  by (auto simp: mark_fills_def split: if_splits sum.splits prod.splits)

lemma reset_fills_only: "reset_fills ph sh mf e rs s = (r, s') \<Longrightarrow> s' = s\<lparr>nfs := nfs s'\<rparr>"
  by (auto simp: reset_fills_def Let_def split: if_splits sum.splits prod.splits)

definition no_loss :: "RestoreEnv \<Rightarrow> bool" where
  "no_loss e = (\<forall>l. re_write e l \<noteq> Lost)"

lemma restore_state:
  assumes rs: "records_of f len rs" and pend: "pending_state rs f len s \<or> original_state rs f len s" and loss: "no_loss e"
    and run: "restore e rs s = (r, s')"
  shows "(pending_state rs f len s' \<or> original_state rs f len s') \<and> (r = Go \<longrightarrow> original_state rs f len s') \<and>
    undo s' = undo s \<and> undo_dur s' = undo_dur s \<and> nfs s' = nfs s"
proof (cases "re_open e")
  case False
  then show ?thesis using run pend by (auto simp: restore_def)
next
  case True
  let ?xs = "map (\<lambda>r. (lba r, orig r)) rs"
  obtain q s1 where w: "write_sectors (re_write e) ?xs s = (q, s1)" by fastforce
  have orig: "\<forall>(l, bs) \<in> set ?xs. length bs = SECTOR \<and> (\<forall>i < length bs. bs ! i = f (l * SECTOR + i))"
    using renamed_in(2) [OF rs] rs by (auto simp: records_of_def record_ok_def list_all_iff)
  have mix: "mixed rs f (img s)" "mixed rs f (img_dur s)" using pend by (auto simp: pending_state_def original_state_def)
  have keep: "s1 = s\<lparr>img := img s1\<rparr>" using write_sectors_keeps [OF w] by blast
  have byte: "img s1 b = img s b \<or> img s1 b = f b" for b
  proof -
    consider "img s1 b = img s b"
      | l bs where "(l, bs) \<in> set ?xs" "l * SECTOR \<le> b" "b < l * SECTOR + length bs" "img s1 b = bs ! (b - l * SECTOR)"
      using write_sectors_keeps [OF w, of b] by auto
    then show ?thesis
    proof cases
      case 2
      then show ?thesis using orig by (auto dest!: bspec [of _ _ "(l, bs)"] spec [of _ "b - l * SECTOR"])
    qed simp
  qed
  then have m1: "mixed rs f (img s1)" using mix(1) unfolding mixed_def by metis
  have same: "img s = f \<Longrightarrow> img s1 = f" using byte by auto
  have full: "img s1 = f" if "q = Go"
  proof
    fix b
    have "img s1 b = (if \<exists>(l, bs) \<in> set ?xs. l * SECTOR \<le> b \<and> b < l * SECTOR + length bs then f b else img s b)"
      using w orig loss unfolding that by (intro write_sectors_done) (auto simp: no_loss_def)
    moreover have "img s b = f b" if "\<not> (\<exists>(l, bs) \<in> set ?xs. l * SECTOR \<le> b \<and> b < l * SECTOR + length bs)"
    proof -
      have "b div SECTOR \<noteq> lba r" if "r \<in> set rs" for r
      proof
        assume "b div SECTOR = lba r"
        then have "lba r * SECTOR \<le> b \<and> b < (lba r + 1) * SECTOR" using in_sector by blast
        moreover have "length (orig r) = SECTOR" using rs that by (auto simp: records_of_def record_ok_def list_all_iff)
        ultimately show False using \<open>\<not> _\<close> that by (auto simp: add.commute)
      qed
      then have "renamed rs f b = f b" using renamed_out by blast
      then show ?thesis using mix(1) by (auto simp: mixed_def)
    qed
    ultimately show "img s1 b = f b" by (simp split: if_splits)
  qed
  have end1: "(if q = Go then atomic_op (re_sync e) sync_image s1 else (q, s1)) = (r, s')"
    using run True w by (cases q) (auto simp: restore_def and_then_def)
  have u: "undo s1 = undo s" "undo_dur s1 = undo_dur s" "img_len s1 = img_len s" "nfs s1 = nfs s" "img_dur s1 = img_dur s"
    using keep by (metis NState.update_convs(1) NState.surjective NState.select_convs)+
  have s1: "pending_state rs f len s1 \<or> original_state rs f len s1"
    using pend u m1 same by (auto simp: pending_state_def original_state_def)
  have synced: "original_state rs f len (sync_image s1)" if "q = Go"
    using full [OF that] pend u by (auto simp: sync_image_def pending_state_def original_state_def)
  show ?thesis
  proof (cases "q = Go")
    case True
    then show ?thesis using end1 s1 synced u by (cases "re_sync e") (auto simp: atomic_op_def sync_image_def)
  next
    case False
    then show ?thesis using end1 s1 u by auto
  qed
qed

subsection \<open>Settling\<close>

lemma ours_mixed:
  assumes rs: "records_of f len rs" and mix: "mixed rs f (img s)" and sub: "set xs \<subseteq> set rs"
  shows "ours rd xs s \<in> {None, Some (Some (replicate (length xs) True))}"
  using sub
proof (induction xs)
  case (Cons r xs)
  then have r: "r \<in> set rs" by simp
  have all: "list_all (\<lambda>i. got ! i = orig r ! i \<or> got ! i = planned r ! i) [0..<SECTOR]" if "read_sector (lba r) s = Some got" for got
  proof -
    have "got ! i = orig r ! i \<or> got ! i = planned r ! i" if "i < SECTOR" for i
    proof -
      have "got ! i = img s (lba r * SECTOR + i)"
        using \<open>read_sector (lba r) s = Some got\<close> that by (auto simp: read_sector_def split: if_splits)
      moreover have "img s (lba r * SECTOR + i) = f (lba r * SECTOR + i) \<or>
          img s (lba r * SECTOR + i) = renamed rs f (lba r * SECTOR + i)" using mix by (simp add: mixed_def)
      ultimately show ?thesis using renamed_in [OF rs r that] by simp
    qed
    then show ?thesis by (simp add: list_all_iff)
  qed
  show ?case
  proof (cases "if rd (lba r) then read_sector (lba r) s else None")
    case (Some got)
    then have "read_sector (lba r) s = Some got" by (simp split: if_splits)
    note got = all [OF this]
    have "ours rd xs s = None \<or> ours rd xs s = Some (Some (replicate (length xs) True))" using Cons by simp
    moreover have "ours rd (r # xs) s = map_option (map_option (\<lambda>ys. True # ys)) (ours rd xs s)"
      unfolding ours.simps Some option.case Let_def by (simp only: got not_True_eq_False simp_thms if_False)
    ultimately show ?thesis by auto
  qed simp
qed simp

text \<open>What is asked of the environment of a settle: the image has its length, no write is lost silently.\<close>

definition settle_ok :: "nat \<Rightarrow> SettleEnv \<Rightarrow> bool" where
  "settle_ok len e \<longleftrightarrow> (\<forall>n. st_len e = Inr n \<longrightarrow> n = len) \<and> st_len e \<noteq> Inl NotFound \<and> no_loss (st_restore e)"

text \<open>One that nothing goes wrong in, the map file apart.\<close>

definition settle_calm :: "nat \<Rightarrow> SettleEnv \<Rightarrow> bool" where
  "settle_calm len e \<longleftrightarrow> st_undo_ok e \<and> st_len e = Inr len \<and> st_open e \<and> st_read e = (\<lambda>_. True) \<and> st_remove e = OpOk \<and>
     re_open (st_restore e) \<and> re_write (st_restore e) = (\<lambda>_. Wrote) \<and> re_sync (st_restore e) = OpOk \<and>
     m_dead (re_map (st_restore e)) = None"

lemma remove_undo_state:
  assumes "remove_undo oc d s = (q, s')"
  shows "original_state rs f len s \<Longrightarrow> original_state rs f len s'" and "renamed_state rs f len s \<Longrightarrow> renamed_state rs f len s'"
    and "q = Go \<Longrightarrow> undo s' = None" and "img s' = img s" and "img_dur s' = img_dur s" and "nfs s' = nfs s"
proof -
  have s': "s' = s \<and> (q = Go \<longrightarrow> undo s = None) \<or>
      s' = s\<lparr>undo := None, undo_dur := undo_dur s'\<rparr> \<and> (undo_dur s' = None \<or> undo_dur s' = undo_dur s)"
    using assms by (cases oc) (auto simp: remove_undo_def atomic_op_def split: if_splits)
  show "original_state rs f len s \<Longrightarrow> original_state rs f len s'"
    using s' unfolding original_state_def by (elim disjE; cases s; cases s') auto
  show "renamed_state rs f len s \<Longrightarrow> renamed_state rs f len s'"
    using s' unfolding renamed_state_def by (elim disjE; cases s; cases s') auto
  show "q = Go \<Longrightarrow> undo s' = None" "img s' = img s" "img_dur s' = img_dur s" "nfs s' = nfs s"
    using s' by (elim disjE; cases s; cases s'; simp)+
qed

lemma settle_end_state:
  assumes "original_state rs f len s \<or> renamed_state rs f len s" and "settle_end e st s = (r, s')"
  shows "original_state rs f len s' \<or> renamed_state rs f len s'"
proof -
  obtain q where run: "remove_undo (st_remove e) (st_durable e) s = (q, s')"
    using assms(2) by (auto simp: settle_end_def split: prod.splits flow.splits)
  show ?thesis using assms(1) remove_undo_state [OF run] by blast
qed

lemma names_state_len: "names_state rs f len s \<Longrightarrow> img_len s = len"
  by (auto simp: names_state_def original_state_def pending_state_def renamed_state_def)

lemma ours_calm: "records_of f len rs \<Longrightarrow> img_len s = len \<Longrightarrow> ours (\<lambda>_. True) rs s \<noteq> None"
proof -
  assume rs: "records_of f len rs" and len: "img_len s = len"
  have "ours (\<lambda>_. True) xs s \<noteq> None" if "set xs \<subseteq> set rs" for xs
    using that
  proof (induction xs)
    case (Cons r xs)
    have "(lba r + 1) * SECTOR \<le> img_len s" using rs len Cons.prems by (auto simp: records_of_def)
    then obtain got where got: "read_sector (lba r) s = Some got" by (simp add: read_sector_def)
    have "ours (\<lambda>_. True) xs s \<noteq> None" using Cons by simp
    then show ?case unfolding ours.simps got by (simp add: Let_def del: upt_Suc)
  qed simp
  then show ?thesis by blast
qed

lemma settle_cases:
  assumes rs: "records_of f len rs" and st: "names_state rs f len s" and ok: "settle_ok len e"
    and run: "settle_names_undo ph sh mf e s = (r, s')"
  obtains "s' = s" "settle_calm len e \<Longrightarrow> undo s = None \<and> r = Some Done" | "original_state rs f len s \<or> renamed_state rs f len s" "settle_end e (if undo s = Some (undo_bytes len rs) then PENDING else COMMITTED) s = (r, s')"
      "undo s \<noteq> Some (undo_bytes len rs)"
  | q s1 where "undo s = Some (undo_bytes len rs)" "restore (st_restore e) rs s = (q, s1)" "q \<noteq> Go" "s' = s1"
  | s1 q s2 where "undo s = Some (undo_bytes len rs)" "restore (st_restore e) rs s = (Go, s1)"
      "reset_fills ph sh mf (re_map (st_restore e)) rs s1 = (q, s2)" "if q = Go then settle_end e PENDING s2 = (r, s') else s' = s2"
      "q = Fail \<Longrightarrow> r = Some StatusOwed"
proof (cases "undo s")
  case None
  then show thesis using that(1) run by (simp add: settle_names_undo_def)
next
  case (Some bytes)
  let ?u = "undo_bytes len rs"
  have parse: "parse_undo ?u = Some (PENDING, len, rs)" "parse_undo (commit_bytes ?u) = Some (COMMITTED, len, rs)"
    using undo_log_reads_back [of rs len] rs by (simp_all add: records_of_def)
  have neq: "PENDING \<noteq> COMMITTED" by (simp add: PENDING_def COMMITTED_def)
  then have diff: "commit_bytes ?u \<noteq> ?u" using parse by auto
  show thesis
  proof (cases "\<not> st_undo_ok e \<or> (\<exists>x. st_len e = Inl x)")
    case True
    have "st_len e \<noteq> Inl NotFound" using ok by (simp add: settle_ok_def)
    moreover have "bytes = ?u \<or> bytes = commit_bytes ?u"
      using st Some by (auto simp: names_state_def original_state_def pending_state_def renamed_state_def)
    ultimately have "s' = s" using True run Some parse
      by (cases "st_undo_ok e"; cases "st_len e") (auto simp: settle_names_undo_def Let_def)
    moreover have "\<not> settle_calm len e" using True by (auto simp: settle_calm_def)
    ultimately show thesis using that(1) by blast
  next
    case False
    then have e: "st_undo_ok e" "st_len e = Inr len" using ok by (cases "st_len e"; auto simp: settle_ok_def)+
    consider "bytes = ?u" | "bytes = commit_bytes ?u" "renamed_state rs f len s"
      using st Some by (auto simp: names_state_def original_state_def pending_state_def renamed_state_def)
    then show thesis
    proof cases
      case 2
      then have "settle_end e COMMITTED s = (r, s')" using run Some e parse neq by (simp add: settle_names_undo_def Let_def)
      then show thesis using that(2) 2 Some diff by simp
    next
      case 1
      have mix: "mixed rs f (img s)" using st by (auto simp: names_state_def original_state_def pending_state_def renamed_state_def)
      have zip: "map fst (filter snd (zip xs (replicate (length xs) True))) = xs" for xs :: "Record list"
        by (induction xs) auto
      consider "(if st_open e then ours (st_read e) rs s else None) = None" | "(if st_open e then ours (st_read e) rs s else None) = Some (Some (replicate (length rs) True))"
        using ours_mixed [OF rs mix subset_refl, of "st_read e"] by (cases "st_open e") auto
      then show thesis
      proof cases
        case 1
        then have "s' = s" using run Some e parse neq \<open>bytes = ?u\<close> by (simp add: settle_names_undo_def Let_def)
        moreover have "\<not> settle_calm len e" using ours_calm [OF rs names_state_len [OF st]] 1 by (auto simp: settle_calm_def)
        ultimately show thesis using that(1) by blast
      next
        case 2
        obtain q s1 where re: "restore (st_restore e) rs s = (q, s1)" by fastforce
        obtain q2 s2 where rf: "reset_fills ph sh mf (re_map (st_restore e)) rs s1 = (q2, s2)" by fastforce
        have "(case q of Dead \<Rightarrow> (None, s1) | Fail \<Rightarrow> (Some (Unrestored (map lba rs)), s1) | Go \<Rightarrow>
            (case q2 of Dead \<Rightarrow> (None, s2) | Fail \<Rightarrow> (Some StatusOwed, s2) | Go \<Rightarrow> settle_end e PENDING s2)) = (r, s')"
          using run Some e parse neq 2 \<open>bytes = ?u\<close> re rf zip [of rs] by (cases q) (simp_all add: settle_names_undo_def Let_def)
        then show thesis using that(3) [OF _ re] that(4) [OF _ _ rf] re Some \<open>bytes = ?u\<close>
          by (cases q; cases q2) auto
      qed
    qed
  qed
qed

lemma settle_state:
  assumes rs: "records_of f len rs" and st: "names_state rs f len s" and ok: "settle_ok len e"
    and run: "settle_names_undo ph sh mf e s = (r, s')"
  shows "names_state rs f len s'"
proof -
  have pend: "pending_state rs f len s \<or> original_state rs f len s" if "undo s = Some (undo_bytes len rs)"
    using st that by (auto simp: names_state_def original_state_def pending_state_def renamed_state_def)
  have loss: "no_loss (st_restore e)" using ok by (simp add: settle_ok_def)
  show ?thesis
  proof (cases rule: settle_cases [OF rs st ok run])
    case 1
    then show ?thesis using st by simp
  next
    case 2
    then show ?thesis using settle_end_state [OF 2(1,2)] by (auto simp: names_state_def)
  next
    case (3 q s1)
    then show ?thesis using restore_state [OF rs pend [OF 3(1)] loss 3(2)] by (auto simp: names_state_def)
  next
    case (4 s1 q s2)
    have "original_state rs f len s1" using restore_state [OF rs pend [OF 4(1)] loss 4(2)] by simp
    moreover have "s2 = s1\<lparr>nfs := nfs s2\<rparr>" by (rule reset_fills_only [OF 4(3)])
    ultimately have "original_state rs f len s2" by (metis original_state_def NState.select_convs NState.surjective NState.update_convs(6))
    then show ?thesis using 4(4) settle_end_state [of rs f len s2] by (auto simp: names_state_def split: if_splits)
  qed
qed

end
