(* ===== verification/NamesProps.thy ===== *)
theory NamesProps
  imports NamesInv
begin

text \<open>
  The rename from start to end: which states it can leave, what a settle makes of them, and the properties of
  the rename as a whole.
\<close>

subsection \<open>The log of a plan\<close>

definition log_of :: "NamePlan \<Rightarrow> SectorStatus list \<Rightarrow> (nat \<Rightarrow> nat) \<Rightarrow> Record list" where
  "log_of plan sts f =
     map (\<lambda>x. \<lparr>lba = fst (fst x), is_fill = (fst (fst x) \<in> set (np_restored plan)), r_status = snd x, planned = snd (fst x),
               orig = map f [fst (fst x) * SECTOR..<(fst (fst x) + 1) * SECTOR]\<rparr>) (zip (np_sectors plan) sts)"

text \<open>What is known of a plan: whole sectors of the image, none twice, a status for each.\<close>

definition plan_ok :: "nat \<Rightarrow> NamePlan \<Rightarrow> SectorStatus list \<Rightarrow> bool" where
  "plan_ok len plan sts \<longleftrightarrow> distinct (map fst (np_sectors plan)) \<and> length sts = length (np_sectors plan) \<and>
     length (np_sectors plan) \<le> u32_max \<and> len \<le> u64_max \<and>
     (\<forall>(l, bs) \<in> set (np_sectors plan). l \<le> u32_max \<and> length bs = SECTOR \<and> (l + 1) * SECTOR \<le> len)"

text \<open>The image with the whole plan written.\<close>

definition renamed_image :: "NamePlan \<Rightarrow> (nat \<Rightarrow> nat) \<Rightarrow> nat \<Rightarrow> nat" where
  "renamed_image plan f b =
     (case map_of (np_sectors plan) (b div SECTOR) of None \<Rightarrow> f b | Some bs \<Rightarrow> bs ! (b mod SECTOR))"

lemma log_of_zip:
  "length sts = length (np_sectors plan) \<Longrightarrow> map (\<lambda>r. (lba r, planned r)) (log_of plan sts f) = np_sectors plan"
  by (simp add: log_of_def comp_def)

lemma log_of_ok:
  assumes "plan_ok len plan sts"
  shows "records_of f len (log_of plan sts f)" and "renamed (log_of plan sts f) f = renamed_image plan f"
proof -
  have len: "length sts = length (np_sectors plan)" using assms by (simp add: plan_ok_def)
  have zip: "map (\<lambda>r. (lba r, planned r)) (log_of plan sts f) = np_sectors plan" by (rule log_of_zip [OF len])
  have l: "map lba (log_of plan sts f) = map fst (np_sectors plan)" unfolding zip [symmetric] by (simp add: comp_def)
  have mem: "(lba r, planned r) \<in> set (np_sectors plan)" if "r \<in> set (log_of plan sts f)" for r
    using that arg_cong [OF zip, of set] by auto
  have o: "orig r = map f [lba r * SECTOR..<(lba r + 1) * SECTOR]" if "r \<in> set (log_of plan sts f)" for r
    using that by (auto simp: log_of_def simp del: upt_Suc)
  have fit: "lba r \<le> u32_max \<and> length (planned r) = SECTOR \<and> (lba r + 1) * SECTOR \<le> len" if "r \<in> set (log_of plan sts f)" for r
    using mem [OF that] assms by (auto simp: plan_ok_def)
  have "list_all record_ok (log_of plan sts f)"
    unfolding list_all_iff record_ok_def using fit o by (auto simp: less_Suc_eq_le)
  moreover have "length (log_of plan sts f) \<le> u32_max" using assms len by (simp add: log_of_def plan_ok_def)
  ultimately show "records_of f len (log_of plan sts f)"
    unfolding records_of_def l using assms o fit by (simp add: plan_ok_def less_Suc_eq_le)
  have find: "find (\<lambda>r. lba r = k) rs = None \<and> map_of (map (\<lambda>r. (lba r, planned r)) rs) k = None \<or>
      (\<exists>r. find (\<lambda>r. lba r = k) rs = Some r \<and> map_of (map (\<lambda>r. (lba r, planned r)) rs) k = Some (planned r))" for k rs
    by (induction rs) auto
  show "renamed (log_of plan sts f) f = renamed_image plan f"
  proof
    fix b
    show "renamed (log_of plan sts f) f b = renamed_image plan f b"
      using find [of "b div SECTOR" "log_of plan sts f"] unfolding renamed_def renamed_image_def zip by auto
  qed
qed

lemma read_records_log:
  "read_records e (np_restored plan) (zip (np_sectors plan) sts) s = Some rs \<Longrightarrow> rs = log_of plan sts (img s)"
proof -
  have "read_records e res xs s = Some rs \<Longrightarrow>
      rs = map (\<lambda>x. \<lparr>lba = fst (fst x), is_fill = (fst (fst x) \<in> set res), r_status = snd x, planned = snd (fst x),
               orig = map (img s) [fst (fst x) * SECTOR..<(fst (fst x) + 1) * SECTOR]\<rparr>) xs" for res xs
    by (induction xs arbitrary: rs) (auto simp: read_sector_def simp del: upt_Suc split: option.splits if_splits)
  then show "read_records e (np_restored plan) (zip (np_sectors plan) sts) s = Some rs \<Longrightarrow> rs = log_of plan sts (img s)"
    by (simp add: log_of_def)
qed

subsection \<open>The rename\<close>

lemma and_then_cases:
  assumes "and_then x f = (r, s')"
  obtains s1 where "x = (Go, s1)" "f s1 = (r, s')" | "x = (r, s')" "r \<noteq> Go"
  using assms by (cases x; cases "fst x") (auto simp: and_then_def)

lemma atomic_op_cases: "atomic_op oc eff s = (r, s') \<Longrightarrow> s' = eff s \<or> s' = s \<and> r \<noteq> Go"
  by (cases oc) (auto simp: atomic_op_def)

lemma write_undo_state:
  assumes w: "write_undo e (undo_bytes len rs) s = (r, s')" and s: "img_len s = len" "img s = f" "img_dur s = f" "undo s = None" "undo_dur s = None"
  shows "original_state rs f len s'" and "r = Go \<Longrightarrow> pending_state rs f len s'"
proof -
  let ?u = "Some (undo_bytes len rs)"
  from w [unfolded write_undo_def]
  have s': "s' = s \<and> r \<noteq> Go \<or> s' = s\<lparr>undo := ?u\<rparr> \<and> r \<noteq> Go \<or> s' = s\<lparr>undo := ?u, undo_dur := ?u\<rparr>"
  proof (cases rule: and_then_cases)
    case (1 s1)
    then show ?thesis using atomic_op_cases [OF 1(1)] atomic_op_cases [OF 1(2)] by auto
  next
    case 2
    then show ?thesis using atomic_op_cases [OF 2(1)] by auto
  qed
  then show "original_state rs f len s'" using s by (auto simp: original_state_def)
  show "r = Go \<Longrightarrow> pending_state rs f len s'" using s s' by (auto simp: pending_state_def)
qed

lemma commit_undo_state:
  assumes "commit_undo e s = (r, s')" and "renamed_state rs f len s" and "undo s = Some (undo_bytes len rs)"
  shows "renamed_state rs f len s'"
proof -
  let ?c = "Some (commit_bytes (undo_bytes len rs))"
  from assms(1) [unfolded commit_undo_def]
  have "s' = s \<or> s' = s\<lparr>undo := ?c\<rparr> \<or> s' = s\<lparr>undo := ?c, undo_dur := ?c\<rparr>"
  proof (cases rule: and_then_cases)
    case (1 s1)
    then show ?thesis using atomic_op_cases [OF 1(1)] atomic_op_cases [OF 1(2)] assms(3) by auto
  next
    case 2
    then show ?thesis using atomic_op_cases [OF 2(1)] assms(3) by auto
  qed
  then show ?thesis using assms(2,3) unfolding renamed_state_def by (elim disjE) simp_all
qed

lemma write_and_verify_state:
  assumes rs: "records_of f len rs" and plan: "map (\<lambda>r. (lba r, planned r)) rs = np_sectors plan"
    and pend: "pending_state rs f len s" and run: "write_and_verify chk e plan bad aacs s = (r, s')"
  shows "pending_state rs f len s'" and "r = Go \<Longrightarrow> img s' = renamed rs f \<and> img_dur s' = renamed rs f" and "nfs s' = nfs s"
proof -
  obtain q s1 where w: "write_sectors (a_write e) (np_sectors plan) s = (q, s1)" by fastforce
  have set: "set (np_sectors plan) = (\<lambda>r. (lba r, planned r)) ` set rs" unfolding plan [symmetric] by simp
  have byte: "img s1 b = img s b \<or> img s1 b = renamed rs f b" for b
  proof -
    consider "img s1 b = img s b" | r where "r \<in> set rs" "lba r * SECTOR \<le> b" "b < lba r * SECTOR + length (planned r)"
        "img s1 b = planned r ! (b - lba r * SECTOR)"
      using write_sectors_keeps [OF w, of b] unfolding set by auto
    then show ?thesis
    proof cases
      case (2 r)
      then have "length (planned r) = SECTOR" using rs by (auto simp: records_of_def record_ok_def list_all_iff)
      then show ?thesis using renamed_in(1) [OF rs 2(1), of "b - lba r * SECTOR"] 2 by simp
    qed simp
  qed
  have keep: "undo s1 = undo s" "undo_dur s1 = undo_dur s" "img_len s1 = img_len s" "nfs s1 = nfs s" "img_dur s1 = img_dur s"
    using write_sectors_keeps [OF w] by (metis NState.update_convs(1) NState.surjective NState.select_convs)+
  have p1: "pending_state rs f len s1"
    using pend keep byte unfolding pending_state_def mixed_def by metis
  then have p2: "pending_state rs f len (sync_image s1)" by (simp add: pending_state_def sync_image_def)
  from run [unfolded write_and_verify_def]
  have s': "(s' = s1 \<or> s' = sync_image s1) \<and>
      (r = Go \<longrightarrow> s' = sync_image s1 \<and> (\<forall>(l, bs) \<in> set (np_sectors plan). read_sector l s' = Some bs))"
  proof (cases rule: and_then_cases)
    case (1 s2)
    from 1(1) have "s2 = sync_image s1" using w by (auto simp: and_then_def atomic_op_def split: flow.splits op_out.splits)
    then show ?thesis using 1(2) by (auto simp: list_all_iff split: if_splits)
  next
    case 2
    then show ?thesis using w by (auto simp: and_then_def atomic_op_def split: flow.splits op_out.splits)
  qed
  show "pending_state rs f len s'" "nfs s' = nfs s" using s' p1 p2 keep by (auto simp: sync_image_def)
  assume "r = Go"
  then have end1: "s' = sync_image s1" "\<forall>(l, bs) \<in> set (np_sectors plan). read_sector l s' = Some bs" using s' by blast+
  have "img s' b = renamed rs f b" for b
  proof (cases "\<exists>r \<in> set rs. b div SECTOR = lba r")
    case True
    then obtain r where r: "r \<in> set rs" "b div SECTOR = lba r" by blast
    have b: "b = lba r * SECTOR + b mod SECTOR" using r(2) div_mult_mod_eq [of b SECTOR] by simp
    have m: "b mod SECTOR < SECTOR" using SECTOR_pos by simp
    have "read_sector (lba r) s' = Some (planned r)" using end1(2) r(1) unfolding set by auto
    then have eq: "planned r = map (img s') [lba r * SECTOR..<(lba r + 1) * SECTOR]"
      by (auto simp: read_sector_def simp del: upt_Suc split: if_splits)
    have "planned r ! (b mod SECTOR) = img s' (lba r * SECTOR + b mod SECTOR)" unfolding eq using m by simp
    then show ?thesis using renamed_in(1) [OF rs r(1) m] b by simp
  next
    case False
    then show ?thesis using renamed_out [of rs b f] p2 unfolding end1(1) by (auto simp: pending_state_def mixed_def)
  qed
  then show "img s' = renamed rs f \<and> img_dur s' = renamed rs f" using end1(1) by (auto simp: sync_image_def)
qed

lemma rollback_state:
  assumes rs: "records_of f len rs" and st: "pending_state rs f len s" and loss: "no_loss e"
    and run: "rollback ph sh mf e rs s = (r, s')"
  shows "(pending_state rs f len s' \<or> original_state rs f len s') \<and> (r = Go \<longrightarrow> original_state rs f len s')"
  using run [unfolded rollback_def]
proof (cases rule: and_then_cases)
  case (1 s1)
  have "original_state rs f len s1" using restore_state [OF rs _ loss 1(1)] st by blast
  moreover have "s' = s1\<lparr>nfs := nfs s'\<rparr>" by (rule reset_fills_only [OF 1(2)])
  then obtain g where "s' = s1\<lparr>nfs := g\<rparr>" by blast
  ultimately show ?thesis by (simp add: original_state_def)
next
  case 2
  then show ?thesis using restore_state [OF rs _ loss 2(1)] st by blast
qed

lemma apply_names_state:
  assumes plan: "plan_ok (img_len s) plan sts" and s: "img_dur s = img s" "undo s = None" "undo_dur s = None"
    and loss: "no_loss (a_rollback e)" and run: "apply_names ph sh chk mf e plan sts bad aacs s = (r, s')"
  shows "names_state (log_of plan sts (img s)) (img s) (img_len s) s'"
proof -
  let ?f = "img s" and ?len = "img_len s"
  let ?rs = "log_of plan sts ?f"
  note rs = log_of_ok(1) [OF plan, of ?f]
  have len: "length sts = length (np_sectors plan)" using plan by (simp add: plan_ok_def)
  have start: "original_state ?rs ?f ?len s" using s by (simp add: original_state_def)
  show ?thesis
  proof (cases "\<exists>rs. (if a_open_read e then read_records e (np_restored plan) (zip (np_sectors plan) sts) s else None) = Some rs \<and> a_len_ok e")
    case False
    then show ?thesis using run start by (auto simp: apply_names_def names_state_def split: option.splits)
  next
    case True
    then have rd: "(if a_open_read e then read_records e (np_restored plan) (zip (np_sectors plan) sts) s else None) = Some ?rs"
      "a_len_ok e" using read_records_log by (auto split: if_splits)
    let ?attempt = "\<lambda>s. if a_open e then and_then (write_and_verify chk e plan bad aacs s) (mark_fills ph sh mf (a_mark e) ?rs) else (Fail, s)"
    let ?K = "\<lambda>s. case ?attempt s of
        (Dead, s') \<Rightarrow> (Dead, s')
      | (Fail, s') \<Rightarrow>
          (case and_then (rollback ph sh mf (a_rollback e) ?rs s') (remove_undo (a_remove e) (a_removal_durable e)) of
             (Dead, s'') \<Rightarrow> (Dead, s'') | (_, s'') \<Rightarrow> (Fail, s''))
      | (Go, s') \<Rightarrow>
          (case and_then (commit_undo e s') (remove_undo (a_remove e) (a_removal_durable e)) of
             (Dead, s'') \<Rightarrow> (Dead, s'') | (_, s'') \<Rightarrow> (Go, s''))"
    have "and_then (write_undo e (undo_bytes ?len ?rs) s) ?K = (r, s')"
      using run rd by (simp only: apply_names_def option.case not_True_eq_False if_False)
    then show ?thesis
    proof (cases rule: and_then_cases)
      case 2
      then show ?thesis using write_undo_state(1) [OF 2(1) refl refl s] by (simp add: names_state_def)
    next
      case (1 s1)
      note p1 = write_undo_state(2) [OF 1(1) refl refl s refl]
      obtain q s2 where t: "?attempt s1 = (q, s2)" by fastforce
      have t2: "pending_state ?rs ?f ?len s2 \<and> (q = Go \<longrightarrow> renamed_state ?rs ?f ?len s2)"
      proof (cases "a_open e")
        case True
        from t have "and_then (write_and_verify chk e plan bad aacs s1) (mark_fills ph sh mf (a_mark e) ?rs) = (q, s2)" using True by simp
        then show ?thesis
        proof (cases rule: and_then_cases)
          case 2
          then show ?thesis using write_and_verify_state(1) [OF rs log_of_zip [OF len] p1 2(1)] by simp
        next
          case (1 s3)
          note v = write_and_verify_state [OF rs log_of_zip [OF len] p1 1(1)]
          have "s2 = s3\<lparr>nfs := nfs s2\<rparr>" by (rule mark_fills_only [OF 1(2)])
          then obtain g where "s2 = s3\<lparr>nfs := g\<rparr>" by blast
          then show ?thesis using v by (simp add: pending_state_def renamed_state_def)
        qed
      qed (use t p1 in auto)
      show ?thesis
      proof (cases q)
        case Dead
        then show ?thesis using 1(2) t t2 by (simp add: names_state_def)
      next
        case Fail
        obtain q3 s3 where "and_then (rollback ph sh mf (a_rollback e) ?rs s2) (remove_undo (a_remove e) (a_removal_durable e)) = (q3, s3)"
          by fastforce
        moreover from this have "s' = s3" using 1(2) t Fail by (cases q3) auto
        ultimately show ?thesis
        proof (cases rule: and_then_cases)
          case (1 s4)
          then show ?thesis using rollback_state [OF rs _ loss 1(1)] remove_undo_state(1) [OF 1(2)] t2 \<open>s' = s3\<close>
            by (simp add: names_state_def)
        next
          case 2
          then show ?thesis using rollback_state [OF rs _ loss 2(1)] t2 \<open>s' = s3\<close> by (auto simp: names_state_def)
        qed
      next
        case Go
        obtain q3 s3 where "and_then (commit_undo e s2) (remove_undo (a_remove e) (a_removal_durable e)) = (q3, s3)" by fastforce
        moreover from this have "s' = s3" using 1(2) t Go by (cases q3) auto
        moreover have u: "renamed_state ?rs ?f ?len s2" "undo s2 = Some (undo_bytes ?len ?rs)" using t2 Go by (simp_all add: pending_state_def)
        ultimately show ?thesis
        proof (cases rule: and_then_cases)
          case (1 s4)
          then show ?thesis using commit_undo_state [OF 1(1) u] remove_undo_state(2) [OF 1(2)] \<open>s' = s3\<close>
            by (simp add: names_state_def)
        next
          case 2
          then show ?thesis using commit_undo_state [OF 2(1) u] \<open>s' = s3\<close> by (simp add: names_state_def)
        qed
      qed
    qed
  qed
qed

subsection \<open>Runs\<close>

text \<open>
  A rename of the image in \<open>s0\<close>, then any number of power losses and settles, in any order and with any fault.
\<close>

inductive names_run ::
  "(nat \<Rightarrow> string \<Rightarrow> nat list option) \<Rightarrow> (string \<Rightarrow> nat list \<Rightarrow> nat list) \<Rightarrow> check_fn \<Rightarrow> string \<Rightarrow> NamePlan \<Rightarrow>
   SectorStatus list \<Rightarrow> NState \<Rightarrow> NState \<Rightarrow> bool" for ph sh chk mf plan sts s0 where
  rename: "apply_names ph sh chk mf e plan sts bad aacs s0 = (r, s) \<Longrightarrow> no_loss (a_rollback e) \<Longrightarrow>
    names_run ph sh chk mf plan sts s0 s"
| lost: "names_run ph sh chk mf plan sts s0 s \<Longrightarrow> names_run ph sh chk mf plan sts s0 (power_loss k d s)"
| settled: "names_run ph sh chk mf plan sts s0 s \<Longrightarrow> settle_ok (img_len s0) e \<Longrightarrow>
    settle_names_undo ph sh mf e s = (r, s') \<Longrightarrow> names_run ph sh chk mf plan sts s0 s'"

lemma names_run_state:
  assumes "names_run ph sh chk mf plan sts s0 s" and "plan_ok (img_len s0) plan sts"
    and "img_dur s0 = img s0" and "undo s0 = None" and "undo_dur s0 = None"
  shows "names_state (log_of plan sts (img s0)) (img s0) (img_len s0) s"
  using assms
proof (induction rule: names_run.induct)
  case (rename e bad aacs r s)
  then show ?case using apply_names_state by blast
next
  case (lost s k d)
  then show ?case using power_loss_state by blast
next
  case (settled s e r s')
  then show ?case using settle_state [OF log_of_ok(1)] by blast
qed

lemma calm_restore: "settle_calm len e \<Longrightarrow> restore (st_restore e) rs s = (q, s') \<Longrightarrow> q = Go"
proof -
  have "write_sectors (\<lambda>_. Wrote) xs s = (q1, s1) \<Longrightarrow> q1 = Go" for xs s q1 s1
    by (induction xs arbitrary: s) (auto simp: and_then_def write_sector_def)
  then show "settle_calm len e \<Longrightarrow> restore (st_restore e) rs s = (q, s') \<Longrightarrow> q = Go"
    by (auto simp: settle_calm_def restore_def atomic_op_def elim!: and_then_cases)
qed

lemma calm_mark: "m_dead e = None \<Longrightarrow> mark_sectors e i xs m f = (q, f') \<Longrightarrow> q \<noteq> Dead"
  by (induction xs arbitrary: i m f) (auto split: prod.splits sum.splits)

lemma calm_settle_end:
  assumes "settle_calm len e" and "settle_end e st s = (r, s')"
  shows "r = Some Done \<and> undo s' = None \<and> img s' = img s \<and> img_dur s' = img_dur s"
proof -
  obtain q s1 where rm: "remove_undo (st_remove e) (st_durable e) s = (q, s1)" by fastforce
  moreover have "q = Go" using rm assms(1) by (auto simp: settle_calm_def remove_undo_def atomic_op_def split: if_splits)
  ultimately show ?thesis using assms(2) remove_undo_state [OF rm] by (auto simp: settle_end_def)
qed

text \<open>
C5: The rename can be interrupted anywhere: after a rename that succeeded, failed or died at any write, followed by any
power losses (each byte and the log surviving or not) and settles that failed or died, one settle in which nothing goes
wrong leaves the whole original image or the whole renamed one on stable storage, and no log unless a mark in the map is
still owed.
\<close>

theorem names_crash_safe:
  assumes "plan_ok (img_len s0) plan sts" and "img_dur s0 = img s0" and "undo s0 = None" and "undo_dur s0 = None"
    and "names_run ph sh chk mf plan sts s0 s" and "settle_calm (img_len s0) e" and "settle_names_undo ph sh mf e s = (r, s')"
  shows "(img s' = img s0 \<or> img s' = renamed_image plan (img s0)) \<and> img_dur s' = img s' \<and>
    (r = Some Done \<and> undo s' = None \<or> r = Some StatusOwed)"
proof -
  let ?rs = "log_of plan sts (img s0)"
  note rs = log_of_ok [OF assms(1), of "img s0"]
  have st: "names_state ?rs (img s0) (img_len s0) s" using names_run_state assms by blast
  have ok: "settle_ok (img_len s0) e" using assms(6) by (auto simp: settle_calm_def settle_ok_def no_loss_def)
  have whole: "(img x = img s0 \<or> img x = renamed_image plan (img s0)) \<and> img_dur x = img x"
    if "original_state ?rs (img s0) (img_len s0) x \<or> renamed_state ?rs (img s0) (img_len s0) x" for x
    using that rs(2) by (auto simp: original_state_def renamed_state_def)
  show ?thesis
  proof (cases rule: settle_cases [OF rs(1) st ok assms(7)])
    case 1
    then have none: "undo s = None \<and> r = Some Done" using assms(6) by blast
    then have "original_state ?rs (img s0) (img_len s0) s \<or> renamed_state ?rs (img s0) (img_len s0) s"
      using st by (auto simp: names_state_def pending_state_def)
    then show ?thesis using whole [of s] 1 none by simp
  next
    case 2
    then show ?thesis using whole [of s] calm_settle_end [OF assms(6) 2(2)] by simp
  next
    case (3 q s1)
    then show ?thesis using calm_restore [OF assms(6) 3(2)] by simp
  next
    case (4 s1 q s2)
    have pend: "pending_state ?rs (img s0) (img_len s0) s \<or> original_state ?rs (img s0) (img_len s0) s"
      using st 4(1) by (auto simp: names_state_def original_state_def pending_state_def renamed_state_def)
    have "original_state ?rs (img s0) (img_len s0) s1"
      using restore_state [OF rs(1) pend _ 4(2)] ok by (simp add: settle_ok_def)
    moreover have "s2 = s1\<lparr>nfs := nfs s2\<rparr>" by (rule reset_fills_only [OF 4(3)])
    then obtain g where "s2 = s1\<lparr>nfs := g\<rparr>" by blast
    ultimately have w: "(img s2 = img s0 \<or> img s2 = renamed_image plan (img s0)) \<and> img_dur s2 = img s2" using whole [of s1] by simp
    have "q \<noteq> Dead" using 4(3) calm_mark assms(6)
      by (auto simp: reset_fills_def Let_def settle_calm_def split: if_splits sum.splits prod.splits)
    then consider "q = Go" | "q = Fail" by (cases q) auto
    then show ?thesis
    proof cases
      case 1
      then have "settle_end e PENDING s2 = (r, s')" using 4(4) by simp
      then show ?thesis using w calm_settle_end [OF assms(6)] by metis
    next
      case 2
      then show ?thesis using 4(4,5) w by simp
    qed
  qed
qed

text \<open>A disc of sevens, a plan that makes its first sector nines, a process that dies in its first write.\<close>

definition sample_plan :: NamePlan where
  "sample_plan = \<lparr>np_sectors = [(0, replicate SECTOR 9)], np_restored = []\<rparr>"

definition sample_names :: NState where
  "sample_names = \<lparr>img = (\<lambda>_. 7), img_dur = (\<lambda>_. 7), img_len = 4096, undo = None, undo_dur = None, nfs = (\<lambda>_. None)\<rparr>"

definition sample_mark :: MarkEnv where
  "sample_mark = \<lparr>m_read = (0, ReadFine), m_rec = (\<lambda>_. good_env), m_flush = good_env, m_drop = good_env, m_dead = None\<rparr>"

definition sample_restore :: RestoreEnv where
  "sample_restore = \<lparr>re_open = True, re_write = (\<lambda>_. Wrote), re_sync = OpOk, re_map = sample_mark\<rparr>"

definition torn_env :: ApplyEnv where
  "torn_env =
     \<lparr>a_open_read = True, a_read = (\<lambda>_. True), a_len_ok = True, a_undo = OpOk, a_undo_dir = OpOk, a_open = True,
      a_write = (\<lambda>_. DeadAfter 100), a_sync = OpOk, a_back_open = True, a_back = (\<lambda>_. True), a_mark = sample_mark,
      a_rollback = sample_restore, a_commit = OpOk, a_commit_sync = OpOk, a_remove = OpOk, a_removal_durable = True\<rparr>"

definition calm_env :: SettleEnv where
  "calm_env = \<lparr>st_undo_ok = True, st_len = Inr 4096, st_open = True, st_read = (\<lambda>_. True), st_restore = sample_restore,
     st_remove = OpOk, st_durable = True\<rparr>"

lemma sample_plan_ok: "plan_ok (img_len sample_names) sample_plan [Finished]"
  by (simp add: plan_ok_def sample_plan_def sample_names_def u32_max_def u64_max_def SECTOR_def)

lemma sample_torn:
  "\<exists>s. apply_names ph sh chk mf torn_env sample_plan [Finished] bad aacs sample_names = (Dead, s) \<and> img s 50 = 9 \<and> img s 1000 = 7"
proof -
  have "\<exists>bs. read_sector 0 sample_names = Some bs" by (simp add: read_sector_def sample_names_def SECTOR_def del: upt_Suc upt_rec_numeral)
  moreover have "50 < SECTOR" "100 \<le> SECTOR" by (simp_all add: SECTOR_def)
  ultimately show ?thesis
    by (auto simp: apply_names_def sample_plan_def torn_env_def write_undo_def and_then_def atomic_op_def write_and_verify_def
        write_sector_def write_at_def sample_names_def min_def)
qed

theorem names_crash_safe_witness:
  "\<exists>s r s'. apply_names sample_ph (\<lambda>_ bs. bs) (\<lambda>_ _ _ _. None) ''m'' torn_env sample_plan [Finished] [] True sample_names = (Dead, s) \<and>
     img s 50 = 9 \<and> img s 1000 = 7 \<and> settle_names_undo sample_ph (\<lambda>_ bs. bs) ''m'' calm_env s = (r, s') \<and>
     (img s' = (\<lambda>_. 7) \<or> img s' = renamed_image sample_plan (\<lambda>_. 7))"
proof -
  let ?sh = "\<lambda>_ bs. bs" and ?chk = "\<lambda>_ _ _ _. None"
  obtain s where torn: "apply_names sample_ph ?sh ?chk ''m'' torn_env sample_plan [Finished] [] True sample_names = (Dead, s)"
    "img s 50 = 9" "img s 1000 = 7" using sample_torn by blast
  obtain r s' where settle: "settle_names_undo sample_ph ?sh ''m'' calm_env s = (r, s')" by fastforce
  have "no_loss (a_rollback torn_env)" by (simp add: no_loss_def torn_env_def sample_restore_def)
  note run = names_run.rename [OF torn(1) this]
  have calm: "settle_calm (img_len sample_names) calm_env"
    by (simp add: settle_calm_def calm_env_def sample_restore_def sample_mark_def sample_names_def)
  have "img sample_names = (\<lambda>_. 7)" "img_dur sample_names = img sample_names" "undo sample_names = None" "undo_dur sample_names = None"
    by (simp_all add: sample_names_def)
  then show ?thesis using names_crash_safe [OF sample_plan_ok _ _ _ run calm settle] torn settle by auto
qed

text \<open>
C36: The undo log reads back: a log of well-formed records parses to the records, the image's length and the pending state
it was written with, and after its one-byte commit to the same with the committed state.
\<close>

theorem undo_log_round_trip:
  assumes "list_all record_ok rs" and "len \<le> u64_max" and "length rs \<le> u32_max"
  shows "parse_undo (undo_bytes len rs) = Some (PENDING, len, rs) \<and>
    parse_undo (commit_bytes (undo_bytes len rs)) = Some (COMMITTED, len, rs)"
  using undo_log_reads_back [OF assms(1)] assms by simp

theorem undo_log_round_trip_witness:
  "parse_undo (undo_bytes 4096 [\<lparr>lba = 1, is_fill = True, r_status = NonTrimmed, planned = replicate SECTOR 9, orig = replicate SECTOR 7\<rparr>]) =
     Some (PENDING, 4096, [\<lparr>lba = 1, is_fill = True, r_status = NonTrimmed, planned = replicate SECTOR 9, orig = replicate SECTOR 7\<rparr>])"
  using undo_log_round_trip [of "[\<lparr>lba = 1, is_fill = True, r_status = NonTrimmed, planned = replicate SECTOR 9, orig = replicate SECTOR 7\<rparr>]" 4096]
  by (simp add: record_ok_def u32_max_def u64_max_def)

subsection \<open>Sectors\<close>

definition in_ranges :: "nat \<Rightarrow> (nat \<times> nat) list \<Rightarrow> bool" where
  "in_ranges l rs = (\<exists>(st, n) \<in> set rs. st \<le> l \<and> l < st + n)"

lemma in_ranges_simps [simp]:
  "\<not> in_ranges l []" "in_ranges l (r # rs) = (fst r \<le> l \<and> l < fst r + snd r \<or> in_ranges l rs)"
  "in_ranges l (rs @ qs) = (in_ranges l rs \<or> in_ranges l qs)"
  by (auto simp: in_ranges_def)

lemma cut_range_ok:
  "sorted cs \<Longrightarrow> \<forall>c \<in> set cs. c < e \<and> a \<le> c + 1 \<Longrightarrow> in_ranges l (cut_range a e cs) \<longleftrightarrow> a \<le> l \<and> l < e \<and> l \<notin> set cs"
proof (induction cs arbitrary: a)
  case (Cons c cs)
  have IH: "in_ranges l (cut_range (c + 1) e cs) \<longleftrightarrow> c + 1 \<le> l \<and> l < e \<and> l \<notin> set cs" using Cons by simp
  have "a \<le> c + 1" "\<forall>x \<in> set cs. c \<le> x" "c < e" using Cons.prems by simp_all
  then show ?case unfolding cut_range.simps in_ranges_simps IH by (cases "a < c"; cases "l = c"; cases "l < c") auto
qed simp

lemma without_ok: "in_ranges l (without rs ls) \<longleftrightarrow> l \<notin> set ls \<and> in_ranges l rs"
proof (induction rs)
  case (Cons r rs)
  have "in_ranges l (cut_range (fst r) (fst r + snd r) (sort (filter (\<lambda>l. fst r \<le> l \<and> l < fst r + snd r) ls))) \<longleftrightarrow>
      fst r \<le> l \<and> l < fst r + snd r \<and> l \<notin> set ls"
    by (subst cut_range_ok) auto
  then show ?case using Cons by (cases r) (auto simp: without_def)
qed (simp add: without_def)

text \<open>The mask of a plan covers every sector with an unfinished byte.\<close>

lemma unfinished_covers:
  assumes inv: "map_inv m" and b: "look (entries m) b = Some st" "st \<noteq> Finished"
  shows "\<exists>(s, n) \<in> set (unfinished m). s \<le> b div SECTOR \<and> b div SECTOR < s + n"
proof -
  have "b < total_size m" using map_inv_look [OF inv] b(1) by (metis option.distinct(1))
  moreover have "total_size m \<le> u32_max * SECTOR" using inv by (simp add: map_inv_def)
  ultimately have small: "b div SECTOR < u32_max" using SECTOR_pos by (simp add: less_mult_imp_div_less)
  have "st \<in> set bad_sector_statuses" using b(2) by (cases st) (simp_all add: bad_sector_statuses_def)
  then have "b \<in> bytes_of (ranges_with m bad_sector_statuses)" using b(1) ranges_with_correct(2) [of m bad_sector_statuses] inv
    by (auto simp: map_inv_def map_ok_def canon_def)
  then obtain p n where pn: "(p, n) \<in> set (ranges_with m bad_sector_statuses)" "p \<le> b" "b < p + n" by (auto simp: bytes_of_def)
  have "p div SECTOR \<le> b div SECTOR" using pn(2) by (rule div_le_mono)
  moreover have "b div SECTOR < div_ceil (p + n) SECTOR"
    using pn(3) div_ceil_mult_ge [of "p + n"] by (intro less_mult_imp_div_less) simp
  ultimately show ?thesis using pn(1) small by (auto simp: unfinished_def Let_def intro!: bexI [of _ "(p, n)"])
qed

end
