(* ===== verification/Streams.thy ===== *)
theory Streams
  imports MapfileText "HOL-Library.Char_ord" "HOL-Library.List_Lexorder"
begin

text \<open>
  Which audio and subtitle streams of a title are kept (\<open>src/src/streams.rs\<close>, \<open>src/src/job.rs\<close>): language
  tags, the policy of a job, its translation to PIDs, the report of requests that match nothing. A title
  of the disc library is what the engine reads of it. The language tables of \<open>isolang\<close> are parameters;
  a tag is text with code points below 256.
\<close>

subsection \<open>Titles and policies\<close>

record AudioStream =
  a_pid :: nat
  a_language :: string

record SubtitleStream =
  s_pid :: nat
  s_language :: string
  s_forced :: bool

record TitleTracks =
  audio_streams :: "AudioStream list"
  subtitle_streams :: "SubtitleStream list"

datatype StreamFilter = All | NoStreams | Langs "string list"

record SubtitleFilter =
  normal :: StreamFilter
  forced :: StreamFilter

record StreamChoice =
  audio :: StreamFilter
  subtitles :: SubtitleFilter

definition is_all :: "StreamChoice \<Rightarrow> bool" where
  "is_all c = (audio c = All \<and> normal (subtitles c) = All \<and> forced (subtitles c) = All)"

text \<open>\<open>to_string\<close> of an index.\<close>

fun decimal :: "nat \<Rightarrow> string" where
  "decimal n = (if n < 10 then [char_of (48 + n)] else decimal (n div 10) @ [char_of (48 + n mod 10)])"

declare decimal.simps [simp del]

subsection \<open>Languages\<close>

record 'l Isolang =
  from_639_1 :: "string \<Rightarrow> 'l option"
  from_639_3 :: "string \<Rightarrow> 'l option"
  from_name_lowercase :: "string \<Rightarrow> 'l option"
  und :: 'l

definition ascii_lower :: "char \<Rightarrow> char" where
  "ascii_lower c = (let n = of_char c :: nat in if 65 \<le> n \<and> n \<le> 90 then char_of (n + 32) else c)"

definition bib_to_terminologic :: "string \<Rightarrow> string option" where
  "bib_to_terminologic code =
     map_of [(''alb'', ''sqi''), (''arm'', ''hye''), (''baq'', ''eus''), (''bur'', ''mya''), (''cze'', ''ces''),
             (''chi'', ''zho''), (''dut'', ''nld''), (''fre'', ''fra''), (''geo'', ''kat''), (''ger'', ''deu''),
             (''gre'', ''ell''), (''ice'', ''isl''), (''mac'', ''mkd''), (''mao'', ''mri''), (''may'', ''msa''),
             (''per'', ''fas''), (''rum'', ''ron''), (''slo'', ''slk''), (''tib'', ''bod''), (''wel'', ''cym'')] code"

definition or_else :: "'a option \<Rightarrow> 'a option \<Rightarrow> 'a option" where
  "or_else x y = (case x of None \<Rightarrow> y | Some a \<Rightarrow> Some a)"

definition normalize_lang :: "'l Isolang \<Rightarrow> string \<Rightarrow> 'l option" where
  "normalize_lang L tag =
     (let t = trim tag; lower = map ascii_lower t
      in if t = [] then None
         else or_else (from_639_1 L lower)
               (or_else (from_639_3 L lower)
                 (or_else (Option.bind (bib_to_terminologic lower) (from_639_3 L)) (from_name_lowercase L lower))))"

text \<open>An untagged stream is undetermined.\<close>

definition stream_lang :: "'l Isolang \<Rightarrow> string \<Rightarrow> 'l option" where
  "stream_lang L tag = (if trim tag = [] then Some (und L) else normalize_lang L tag)"

definition is_language_tag :: "'l Isolang \<Rightarrow> string \<Rightarrow> bool" where
  "is_language_tag L tag = (normalize_lang L tag \<noteq> None)"

subsection \<open>The PIDs to keep\<close>

datatype StreamSelError = UnknownLanguage string

datatype 'l Wanted = WantAll | WantNone | WantLangs "'l list"

fun compile_tags :: "'l Isolang \<Rightarrow> string list \<Rightarrow> StreamSelError + 'l list" where
  "compile_tags L [] = Inr []"
| "compile_tags L (t # ts) =
     (case normalize_lang L t of
        None \<Rightarrow> Inl (UnknownLanguage t)
      | Some l \<Rightarrow> bind_res (compile_tags L ts) (\<lambda>ls. Inr (l # ls)))"

definition compile :: "'l Isolang \<Rightarrow> StreamFilter \<Rightarrow> StreamSelError + 'l Wanted" where
  "compile L sel =
     (case sel of
        All \<Rightarrow> Inr WantAll
      | NoStreams \<Rightarrow> Inr WantNone
      | Langs tags \<Rightarrow> bind_res (compile_tags L tags) (\<lambda>ls. Inr (WantLangs ls)))"

definition keeps :: "'l Isolang \<Rightarrow> 'l Wanted \<Rightarrow> string \<Rightarrow> bool" where
  "keeps L w lang =
     (case w of
        WantAll \<Rightarrow> True
      | WantNone \<Rightarrow> False
      | WantLangs ls \<Rightarrow> (case stream_lang L lang of None \<Rightarrow> False | Some l \<Rightarrow> l \<in> set ls))"

datatype PidFilter = AllPids | Only "nat list"

record StreamSelection =
  sel_audio :: PidFilter
  sel_subtitle :: PidFilter

definition resolve_audio :: "'l Isolang \<Rightarrow> TitleTracks \<Rightarrow> StreamFilter \<Rightarrow> StreamSelError + PidFilter" where
  "resolve_audio L t sel =
     (if sel = All then Inr AllPids
      else bind_res (compile L sel)
        (\<lambda>w. Inr (Only (map a_pid (filter (\<lambda>a. keeps L w (a_language a)) (audio_streams t))))))"

definition resolve_subtitles :: "'l Isolang \<Rightarrow> TitleTracks \<Rightarrow> SubtitleFilter \<Rightarrow> StreamSelError + PidFilter" where
  "resolve_subtitles L t sel =
     (if normal sel = All \<and> forced sel = All then Inr AllPids
      else bind_res (compile L (normal sel)) (\<lambda>n. bind_res (compile L (forced sel)) (\<lambda>f.
        Inr (Only (map s_pid (filter (\<lambda>s. keeps L (if s_forced s then f else n) (s_language s)) (subtitle_streams t)))))))"

definition resolve_stream_selection_forced ::
  "'l Isolang \<Rightarrow> TitleTracks \<Rightarrow> StreamFilter \<Rightarrow> SubtitleFilter \<Rightarrow> StreamSelError + StreamSelection" where
  "resolve_stream_selection_forced L t a s =
     bind_res (resolve_audio L t a) (\<lambda>x. bind_res (resolve_subtitles L t s) (\<lambda>y.
       Inr \<lparr>sel_audio = x, sel_subtitle = y\<rparr>))"

definition split_same :: "StreamFilter \<Rightarrow> SubtitleFilter" where
  "split_same f = \<lparr>normal = f, forced = f\<rparr>"

definition resolve_stream_selection ::
  "'l Isolang \<Rightarrow> TitleTracks \<Rightarrow> StreamFilter \<Rightarrow> StreamFilter \<Rightarrow> StreamSelError + StreamSelection" where
  "resolve_stream_selection L t a s = resolve_stream_selection_forced L t a (split_same s)"

definition choice_resolve :: "'l Isolang \<Rightarrow> StreamChoice \<Rightarrow> TitleTracks \<Rightarrow> StreamSelError + StreamSelection" where
  "choice_resolve L c t = resolve_stream_selection_forced L t (audio c) (subtitles c)"

text \<open>The tags no language resolves from, in request order, each once.\<close>

fun add_unknown :: "'l Isolang \<Rightarrow> string list \<Rightarrow> string list \<Rightarrow> string list" where
  "add_unknown L [] out = out"
| "add_unknown L (t # ts) out =
     add_unknown L ts (if normalize_lang L t = None \<and> t \<notin> set out then out @ [t] else out)"

definition add_filter :: "'l Isolang \<Rightarrow> StreamFilter \<Rightarrow> string list \<Rightarrow> string list" where
  "add_filter L sel out = (case sel of Langs tags \<Rightarrow> add_unknown L tags out | _ \<Rightarrow> out)"

definition unknown_language_tags :: "'l Isolang \<Rightarrow> StreamChoice \<Rightarrow> string list" where
  "unknown_language_tags L c =
     add_filter L (forced (subtitles c)) (add_filter L (normal (subtitles c)) (add_filter L (audio c) []))"

subsection \<open>Requests that match nothing\<close>

datatype StreamClass = Audio | Subtitle | SubtitleForced | SubtitleAny

definition class_key :: "StreamClass \<Rightarrow> string" where
  "class_key c =
     (case c of Audio \<Rightarrow> ''audio'' | Subtitle \<Rightarrow> ''subtitle'' | SubtitleAny \<Rightarrow> ''subtitle'' | SubtitleForced \<Rightarrow> ''subtitle_forced'')"

definition class_languages :: "TitleTracks \<Rightarrow> StreamClass \<Rightarrow> string list" where
  "class_languages t c =
     (case c of
        Audio \<Rightarrow> map a_language (audio_streams t)
      | Subtitle \<Rightarrow> map s_language (filter (\<lambda>s. \<not> s_forced s) (subtitle_streams t))
      | SubtitleForced \<Rightarrow> map s_language (filter s_forced (subtitle_streams t))
      | SubtitleAny \<Rightarrow> map s_language (subtitle_streams t))"

datatype ClassVerdict = Unfiltered | Absent | Matched | Missed

record UnmatchedClass =
  u_class :: string
  requested :: "string list"
  available :: "string list"

definition check_class ::
  "'l Isolang \<Rightarrow> TitleTracks \<Rightarrow> StreamFilter \<Rightarrow> StreamClass \<Rightarrow> ClassVerdict \<times> UnmatchedClass list" where
  "check_class L t sel c =
     (case sel of
        Langs tags \<Rightarrow>
          (let present = class_languages t c; wanted = List.map_filter (normalize_lang L) tags
           in if present = [] then (Absent, [])
              else if list_ex (\<lambda>l. case stream_lang L l of None \<Rightarrow> False | Some pl \<Rightarrow> pl \<in> set wanted) present
              then (Matched, [])
              else (Missed, [\<lparr>u_class = class_key c, requested = tags,
                              available = remdups_adj (sort (map (\<lambda>l. if l = [] then ''und'' else l) present))\<rparr>]))
      | _ \<Rightarrow> (Unfiltered, []))"

definition classes :: "StreamChoice \<Rightarrow> (StreamClass \<times> StreamFilter) list" where
  "classes c =
     (let s = subtitles c
      in if normal s = forced s then [(Audio, audio c), (SubtitleAny, normal s)]
         else [(Audio, audio c), (Subtitle, normal s), (SubtitleForced, forced s)])"

definition unmatched :: "'l Isolang \<Rightarrow> StreamChoice \<Rightarrow> TitleTracks \<Rightarrow> UnmatchedClass list" where
  "unmatched L c t = concat (map (\<lambda>(k, sel). snd (check_class L t sel k)) (classes c))"

definition unmatched_everywhere :: "'l Isolang \<Rightarrow> StreamChoice \<Rightarrow> TitleTracks list \<Rightarrow> string list" where
  "unmatched_everywhere L c ts =
     map (class_key \<circ> fst)
       (filter (\<lambda>(k, sel). list_ex (\<lambda>t. fst (check_class L t sel k) = Missed) ts \<and>
                           \<not> list_ex (\<lambda>t. fst (check_class L t sel k) = Matched) ts) (classes c))"

subsection \<open>The preference of an audio language\<close>

definition audio_preference :: "'l Isolang \<Rightarrow> StreamFilter \<Rightarrow> 'l list" where
  "audio_preference L sel = (case compile L sel of Inr (WantLangs ls) \<Rightarrow> rev (remdups (rev ls)) | _ \<Rightarrow> [])"

definition score_languages :: "'l list \<Rightarrow> 'l option list \<Rightarrow> nat" where
  "score_languages pref languages = length (filter (\<lambda>l. Some l \<in> set languages) pref)"

end
