(* ===== verification/SelectionModel.thy ===== *)
theory SelectionModel
  imports Streams "HOL-Library.AList"
begin

text \<open>
  Which titles a rip takes (\<open>src/src/selection.rs\<close>, \<open>src/src/presentation.rs\<close>, \<open>src/src/job.rs\<close>): the proof
  of an episode roster, the choice among equivalent cuts, the main title. A hash map of the source is an
  association list with distinct keys; of a content segment the engine reads its bounds and compares the
  rest, which is a type parameter.
\<close>

subsection \<open>What a title says of itself\<close>

record 'c ContentSegment =
  seg_content :: 'c
  seg_start :: u64
  seg_end :: u64

type_synonym 'c identity = "'c ContentSegment list"

text \<open>\<open>Authored\<close> with its roster, title count and ordinal; \<open>NoEvidence\<close> is any other evidence.\<close>

datatype EpisodeEvidence = Authored string nat "nat option" | NoEvidence

record 'c DiscTitle = TitleTracks +
  d_playlist_id :: nat
  d_duration_secs :: f64
  d_segments :: "'c ContentSegment list"
  d_episodes :: EpisodeEvidence

record 'c SelectionTitle =
  index :: nat
  playlist_id :: nat
  duration_secs :: f64
  presentation :: "'c identity option"
  audio_tags :: "string list"
  episodes :: EpisodeEvidence

definition identity :: "'c DiscTitle \<Rightarrow> 'c identity option" where
  "identity t = (if d_segments t = [] then None else Some (d_segments t))"

definition from_titles :: "'c DiscTitle list \<Rightarrow> 'c SelectionTitle list" where
  "from_titles ts =
     map (\<lambda>(i, t). \<lparr>index = i, playlist_id = d_playlist_id t, duration_secs = d_duration_secs t, presentation = identity t,
                    audio_tags = map a_language (audio_streams t), episodes = d_episodes t\<rparr>) (enumerate 0 ts)"

subsection \<open>Cuts of one programme\<close>

definition shared :: "'c identity \<Rightarrow> 'c identity \<Rightarrow> 'c ContentSegment list" where
  "shared a b = filter (\<lambda>s. s \<in> set b) a"

definition weight :: "'c ContentSegment list \<Rightarrow> u64" where
  "weight ss = foldl (\<lambda>sum s. sat_add sum (seg_end s - seg_start s)) 0 ss"

definition branch_variant :: "'c identity \<Rightarrow> 'c identity \<Rightarrow> bool" where
  "branch_variant a b =
     (let common = weight (shared a b)
      in shared a b = shared b a \<and> weight a < sat_mul common 2 \<and> weight b < sat_mul common 2)"

subsection \<open>Scores and representatives\<close>

definition scores :: "'l Isolang \<Rightarrow> StreamFilter \<Rightarrow> string option \<Rightarrow> 'c SelectionTitle list \<Rightarrow> nat list" where
  "scores L aud pres ts =
     (let pref = audio_preference L (case pres of Some l \<Rightarrow> Langs [l] | None \<Rightarrow> aud)
      in if pref = [] then replicate (length ts) 0
         else map (\<lambda>t. score_languages pref (map (stream_lang L) (audio_tags t))) ts)"

text \<open>The loop of \<open>representatives\<close>: \<open>groups\<close> gives the slot of an identity in \<open>chosen\<close>.\<close>

fun represent ::
  "'c SelectionTitle list \<Rightarrow> nat list \<Rightarrow> nat list \<Rightarrow> ('c identity \<times> nat) list \<Rightarrow> nat list \<Rightarrow> nat list" where
  "represent ts sc [] groups chosen = chosen"
| "represent ts sc (i # is) groups chosen =
     (case presentation (ts ! i) of
        None \<Rightarrow> represent ts sc is groups (chosen @ [i])
      | Some p \<Rightarrow>
          (case map_of groups p of
             Some slot \<Rightarrow> represent ts sc is groups (if sc ! (chosen ! slot) < sc ! i then chosen[slot := i] else chosen)
           | None \<Rightarrow> represent ts sc is ((p, length chosen) # groups) (chosen @ [i])))"

definition representatives :: "'c SelectionTitle list \<Rightarrow> nat list \<Rightarrow> nat list \<Rightarrow> nat list" where
  "representatives ts is sc = represent ts sc is [] []"

text \<open>The main title: the best scoring cut of title 0, the first of equals.\<close>

fun best_variant :: "'c identity \<Rightarrow> nat list \<Rightarrow> 'c SelectionTitle list \<Rightarrow> nat \<Rightarrow> nat \<Rightarrow> nat" where
  "best_variant p sc [] i best = best"
| "best_variant p sc (t # ts) i best =
     best_variant p sc ts (i + 1)
       (if sc ! best < sc ! i \<and> (case presentation t of None \<Rightarrow> False | Some q \<Rightarrow> branch_variant q p) then i else best)"

definition main_title :: "'l Isolang \<Rightarrow> StreamFilter \<Rightarrow> string option \<Rightarrow> 'c SelectionTitle list \<Rightarrow> nat option" where
  "main_title L aud pres ts =
     (case ts of
        [] \<Rightarrow> None
      | t # rest \<Rightarrow>
          Some (case presentation t of
                  None \<Rightarrow> 0
                | Some p \<Rightarrow> if rest = [] then 0 else best_variant p (scores L aud pres ts) rest 1 0))"

subsection \<open>The episode roster\<close>

datatype SelectionReviewReason =
  MissingEpisodeRoster | IncompleteEpisodeRoster | ConflictingEpisodeRoster | InvalidEpisodeRoster

definition review_key :: "SelectionReviewReason \<Rightarrow> string" where
  "review_key r =
     (case r of
        MissingEpisodeRoster \<Rightarrow> ''missing-episode-roster''
      | IncompleteEpisodeRoster \<Rightarrow> ''incomplete-episode-roster''
      | ConflictingEpisodeRoster \<Rightarrow> ''conflicting-episode-roster''
      | InvalidEpisodeRoster \<Rightarrow> ''invalid-episode-roster'')"

record 'c Roster =
  r_source :: "string option"
  r_members :: "(nat \<times> nat) list"
  r_observed :: nat
  r_ids :: "nat list"
  r_by_order :: "(nat \<times> nat) list"
  r_by_identity :: "('c identity \<times> nat) list"

definition roster_init :: "'c Roster" where
  "roster_init = \<lparr>r_source = None, r_members = [], r_observed = 0, r_ids = [], r_by_order = [], r_by_identity = []\<rparr>"

text \<open>The ordinal of a title, checked against the titles before it.\<close>

definition roster_ordinal ::
  "'c SelectionTitle list \<Rightarrow> 'c SelectionTitle \<Rightarrow> nat \<Rightarrow> 'c Roster \<Rightarrow> SelectionReviewReason + 'c Roster" where
  "roster_ordinal ts t n r =
     (if (case map_of (r_by_order r) n of
            None \<Rightarrow> False
          | Some prev \<Rightarrow> presentation t = None \<or> presentation t \<noteq> presentation (ts ! prev))
      then Inl InvalidEpisodeRoster
      else if (case presentation t of
                 None \<Rightarrow> False
               | Some p \<Rightarrow> (case map_of (r_by_identity r) p of None \<Rightarrow> False | Some old \<Rightarrow> old \<noteq> n))
      then Inl InvalidEpisodeRoster
      else Inr (r\<lparr>r_by_order := AList.update n (index t) (r_by_order r),
                  r_by_identity := (case presentation t of
                                      None \<Rightarrow> r_by_identity r
                                    | Some p \<Rightarrow> AList.update p n (r_by_identity r)),
                  r_members := r_members r @ [(n, index t)]\<rparr>))"

definition roster_step ::
  "'c SelectionTitle list \<Rightarrow> 'c SelectionTitle \<Rightarrow> 'c Roster \<Rightarrow> SelectionReviewReason + 'c Roster" where
  "roster_step ts t r =
     (case episodes t of
        NoEvidence \<Rightarrow> Inr r
      | Authored roster count ordinal \<Rightarrow>
          if trim roster = [] \<or> playlist_id t \<in> set (r_ids r) then Inl InvalidEpisodeRoster
          else if count \<noteq> length ts then Inl IncompleteEpisodeRoster
          else if (case r_source r of None \<Rightarrow> False | Some prev \<Rightarrow> prev \<noteq> roster) then Inl ConflictingEpisodeRoster
          else (let r = r\<lparr>r_ids := playlist_id t # r_ids r, r_source := Some roster, r_observed := r_observed r + 1\<rparr>
                in case ordinal of None \<Rightarrow> Inr r | Some n \<Rightarrow> roster_ordinal ts t n r))"

fun roster_walk ::
  "'c SelectionTitle list \<Rightarrow> 'c SelectionTitle list \<Rightarrow> 'c Roster \<Rightarrow> SelectionReviewReason + 'c Roster" where
  "roster_walk ts [] r = Inr r"
| "roster_walk ts (x # xs) r = bind_res (roster_step ts x r) (roster_walk ts xs)"

definition episode_roster :: "'c SelectionTitle list \<Rightarrow> SelectionReviewReason + nat list" where
  "episode_roster ts =
     bind_res (roster_walk ts ts roster_init)
       (\<lambda>r. if r_source r = None then Inl MissingEpisodeRoster
            else if r_observed r \<noteq> length ts then Inl IncompleteEpisodeRoster
            else if r_members r = [] then Inl IncompleteEpisodeRoster
            else if \<not> list_all (\<lambda>n. map_of (r_by_order r) n \<noteq> None) [0..<length (r_by_order r)] then Inl InvalidEpisodeRoster
            else Inr (map snd (sort_key fst (r_members r))))"

subsection \<open>Selections\<close>

datatype Selection = MainMovie | AllTitles | Longest | Titles "nat list" | Episodes

record SelectionReview =
  reason :: SelectionReviewReason
  candidates :: "nat list"

text \<open>The first longest title of finite duration.\<close>

fun longest :: "'c SelectionTitle list \<Rightarrow> 'c SelectionTitle option \<Rightarrow> 'c SelectionTitle option" where
  "longest [] best = best"
| "longest (t # ts) best =
     longest ts
       (if \<not> is_finite (duration_secs t) then best
        else case best of
               Some b \<Rightarrow> if f64_le (duration_secs t) (duration_secs b) then best else Some t
             | None \<Rightarrow> Some t)"

fun in_range_once :: "nat \<Rightarrow> nat list \<Rightarrow> nat list \<Rightarrow> nat list" where
  "in_range_once n seen [] = []"
| "in_range_once n seen (i # is) =
     (if i < n \<and> i \<notin> set seen then i # in_range_once n (i # seen) is else in_range_once n seen is)"

definition select ::
  "'l Isolang \<Rightarrow> Selection \<Rightarrow> StreamFilter \<Rightarrow> string option \<Rightarrow> 'c SelectionTitle list \<Rightarrow> SelectionReview + nat list" where
  "select L sel aud pres ts =
     (case sel of
        Episodes \<Rightarrow>
          (case episode_roster ts of
             Inr members \<Rightarrow> Inr (representatives ts members (scores L aud pres ts))
           | Inl why \<Rightarrow>
               Inl \<lparr>reason = why, candidates = representatives ts [0..<length ts] (scores L aud pres ts)\<rparr>)
      | MainMovie \<Rightarrow> Inr (case main_title L aud pres ts of None \<Rightarrow> [] | Some i \<Rightarrow> [i])
      | AllTitles \<Rightarrow> Inr [0..<length ts]
      | Titles is \<Rightarrow> Inr (in_range_once (length ts) [] is)
      | Longest \<Rightarrow> Inr (case longest ts None of None \<Rightarrow> [] | Some t \<Rightarrow> [index t]))"

definition main_or_episodes ::
  "'l Isolang \<Rightarrow> StreamFilter \<Rightarrow> string option \<Rightarrow> 'c SelectionTitle list \<Rightarrow> SelectionReview + nat list" where
  "main_or_episodes L aud pres ts =
     (case select L Episodes aud pres ts of
        Inl review \<Rightarrow> if reason review = MissingEpisodeRoster then select L MainMovie aud pres ts else Inl review
      | answer \<Rightarrow> answer)"

definition resolve_selection ::
  "'l Isolang \<Rightarrow> 'c DiscTitle list \<Rightarrow> Selection \<Rightarrow> StreamFilter \<Rightarrow> string option \<Rightarrow> SelectionReview + nat list" where
  "resolve_selection L titles sel aud pres = select L sel aud pres (from_titles titles)"

end
