(* ===== verification/SelectionInv.thy ===== *)
theory SelectionInv
  imports SelectionModel
begin

text \<open>
  The title selection is exact: the roster walk accepts precisely the discs whose episode evidence is
  complete and free of contradiction, the representatives are one best scoring cut of each programme, and
  what is selected is always a list of distinct titles of the disc.
\<close>

subsection \<open>Evidence\<close>

definition ordinal_of :: "EpisodeEvidence \<Rightarrow> nat option" where
  "ordinal_of e = (case e of Authored _ _ n \<Rightarrow> n | NoEvidence \<Rightarrow> None)"

definition roster_of :: "EpisodeEvidence \<Rightarrow> string option" where
  "roster_of e = (case e of Authored r _ _ \<Rightarrow> Some r | NoEvidence \<Rightarrow> None)"

lemma evidence_simps [simp]:
  "ordinal_of (Authored r c n) = n" "ordinal_of NoEvidence = None"
  "roster_of (Authored r c n) = Some r" "roster_of NoEvidence = None"
  by (simp_all add: ordinal_of_def roster_of_def)

abbreviation ord :: "'c SelectionTitle \<Rightarrow> nat option" where
  "ord t \<equiv> ordinal_of (episodes t)"

abbreviation authored :: "'c SelectionTitle \<Rightarrow> bool" where
  "authored t \<equiv> roster_of (episodes t) \<noteq> None"

text \<open>Two titles with ordinals: they are the same episode exactly when they are one programme.\<close>

definition agree :: "'c SelectionTitle \<Rightarrow> 'c SelectionTitle \<Rightarrow> bool" where
  "agree t u \<longleftrightarrow> (\<forall>n m. ord t = Some n \<longrightarrow> ord u = Some m \<longrightarrow>
      (n = m \<longleftrightarrow> presentation t = presentation u \<and> presentation u \<noteq> None))"

text \<open>What the walk demands of the titles it has seen, \<open>N\<close> titles in all.\<close>

definition title_ok :: "nat \<Rightarrow> 'c SelectionTitle \<Rightarrow> bool" where
  "title_ok N t \<longleftrightarrow> (case episodes t of NoEvidence \<Rightarrow> True | Authored r c n \<Rightarrow> trim r \<noteq> [] \<and> c = N)"

definition compat :: "'c SelectionTitle \<Rightarrow> 'c SelectionTitle \<Rightarrow> bool" where
  "compat t u \<longleftrightarrow> (authored t \<and> authored u \<longrightarrow> roster_of (episodes t) = roster_of (episodes u) \<and> playlist_id t \<noteq> playlist_id u)"

definition titles_ok :: "nat \<Rightarrow> 'c SelectionTitle list \<Rightarrow> bool" where
  "titles_ok N ts \<longleftrightarrow> list_all (title_ok N) ts \<and> sorted_wrt compat ts \<and> sorted_wrt agree ts"

lemma titles_ok_Nil [simp]: "titles_ok N []"
  by (simp add: titles_ok_def)

lemma titles_ok_append: "titles_ok N (xs @ ys) \<Longrightarrow> titles_ok N xs"
  by (simp add: titles_ok_def sorted_wrt_append)

lemma titles_ok_snoc:
  "titles_ok N (xs @ [t]) \<longleftrightarrow> titles_ok N xs \<and> title_ok N t \<and> (\<forall>u \<in> set xs. compat u t) \<and> (\<forall>u \<in> set xs. agree u t)"
  by (auto simp: titles_ok_def sorted_wrt_append)

subsection \<open>The walk\<close>

definition members_of :: "'c SelectionTitle list \<Rightarrow> (nat \<times> nat) list" where
  "members_of ts = List.map_filter (\<lambda>t. map_option (\<lambda>n. (n, index t)) (ord t)) ts"

lemma members_of_simps [simp]:
  "members_of [] = []" "members_of (xs @ ys) = members_of xs @ members_of ys"
  "members_of [t] = (case ord t of None \<Rightarrow> [] | Some n \<Rightarrow> [(n, index t)])"
  by (simp_all add: members_of_def map_filter_def split: option.split)

lemma members_of_set: "(n, i) \<in> set (members_of ts) \<longleftrightarrow> (\<exists>t \<in> set ts. ord t = Some n \<and> index t = i)"
  by (auto simp: members_of_def map_filter_def image_iff)

definition roster_inv :: "'c SelectionTitle list \<Rightarrow> 'c SelectionTitle list \<Rightarrow> 'c Roster \<Rightarrow> bool" where
  "roster_inv ts xs r \<longleftrightarrow>
     set (r_ids r) = playlist_id ` {t \<in> set xs. authored t} \<and>
     r_observed r = length (filter authored xs) \<and>
     r_members r = members_of xs \<and>
     (\<forall>s. r_source r = Some s \<longleftrightarrow> (\<exists>t \<in> set xs. roster_of (episodes t) = Some s)) \<and>
     distinct (map fst (r_by_order r)) \<and>
     (\<forall>n. map_of (r_by_order r) n = None \<longleftrightarrow> (\<forall>t \<in> set xs. ord t \<noteq> Some n)) \<and>
     (\<forall>n i. map_of (r_by_order r) n = Some i \<longrightarrow> ts ! i \<in> set xs \<and> ord (ts ! i) = Some n) \<and>
     (\<forall>p. map_of (r_by_identity r) p = None \<longleftrightarrow> (\<forall>t \<in> set xs. ord t = None \<or> presentation t \<noteq> Some p)) \<and>
     (\<forall>p n. map_of (r_by_identity r) p = Some n \<longrightarrow> (\<exists>t \<in> set xs. ord t = Some n \<and> presentation t = Some p))"

lemma roster_inv_init: "roster_inv ts [] roster_init"
  by (simp add: roster_inv_def roster_init_def)

lemma roster_ordinal_step:
  assumes inv: "roster_inv ts xs r" and t: "ord t = Some n" "authored t" "index t < length ts" "ts ! index t = t"
    and src: "\<forall>s. (r_source r' = Some s) = (\<exists>u \<in> set (xs @ [t]). roster_of (episodes u) = Some s)"
    and r': "r_ids r' = playlist_id t # r_ids r" "r_observed r' = r_observed r + 1" "r_members r' = r_members r"
      "r_by_order r' = r_by_order r" "r_by_identity r' = r_by_identity r"
    and ok: "sorted_wrt agree xs"
  shows "case roster_ordinal ts t n r' of
      Inr r'' \<Rightarrow> (\<forall>u \<in> set xs. agree u t) \<and> roster_inv ts (xs @ [t]) r''
    | Inl e \<Rightarrow> \<not> (\<forall>u \<in> set xs. agree u t)"
proof -
  let ?c1 = "case map_of (r_by_order r) n of None \<Rightarrow> False
      | Some prev \<Rightarrow> presentation t = None \<or> presentation t \<noteq> presentation (ts ! prev)"
  let ?c2 = "case presentation t of None \<Rightarrow> False
      | Some p \<Rightarrow> (case map_of (r_by_identity r) p of None \<Rightarrow> False | Some old \<Rightarrow> old \<noteq> n)"
  have sym: "agree u v \<longleftrightarrow> agree v u" for u v :: "'c SelectionTitle" by (auto simp: agree_def)
  have order: "map_of (r_by_order r) n = None \<longleftrightarrow> (\<forall>u \<in> set xs. ord u \<noteq> Some n)"
    "map_of (r_by_order r) n = Some i \<Longrightarrow> ts ! i \<in> set xs \<and> ord (ts ! i) = Some n" for i
    using inv by (auto simp: roster_inv_def)
  have ident: "map_of (r_by_identity r) p = None \<longleftrightarrow> (\<forall>u \<in> set xs. ord u = None \<or> presentation u \<noteq> Some p)"
    "map_of (r_by_identity r) p = Some m \<Longrightarrow> \<exists>u \<in> set xs. ord u = Some m \<and> presentation u = Some p" for p m
    using inv by (auto simp: roster_inv_def)
  have pair: "agree u v" if uv: "u \<in> set xs" "v \<in> set xs" "u \<noteq> v" for u v
  proof -
    obtain i j where ij: "i < length xs" "u = xs ! i" "j < length xs" "v = xs ! j" using uv(1,2) by (metis in_set_conv_nth)
    then have "i < j \<or> j < i" using uv(3) by (metis linorder_neqE_nat)
    then show ?thesis using ok ij sym [of u v] by (auto simp: sorted_wrt_iff_nth_less)
  qed
  have iff: "(\<forall>u \<in> set xs. agree u t) \<longleftrightarrow> \<not> ?c1 \<and> \<not> ?c2"
  proof
    assume a: "\<forall>u \<in> set xs. agree u t"
    have "\<not> ?c1" using a order(2) t(1) by (auto simp: agree_def split: option.splits) metis+
    moreover have "\<not> ?c2" using a ident(2) t(1) by (auto simp: agree_def split: option.splits) metis
    ultimately show "\<not> ?c1 \<and> \<not> ?c2" ..
  next
    assume a: "\<not> ?c1 \<and> \<not> ?c2"
    show "\<forall>u \<in> set xs. agree u t"
    proof
      fix u assume u: "u \<in> set xs"
      show "agree u t" unfolding agree_def
      proof (intro allI impI)
        fix k m assume k: "ord u = Some k" "ord t = Some m"
        have m: "m = n" using k t by simp
        show "(k = m) = (presentation u = presentation t \<and> presentation t \<noteq> None)"
        proof
          assume "k = m"
          then obtain prev where prev: "map_of (r_by_order r) n = Some prev"
            using order(1) u k m by (cases "map_of (r_by_order r) n") auto
          then have p: "ts ! prev \<in> set xs" "ord (ts ! prev) = Some n" "presentation t \<noteq> None" "presentation t = presentation (ts ! prev)"
            using order(2) a by auto
          then show "presentation u = presentation t \<and> presentation t \<noteq> None"
            using pair [OF u p(1)] k \<open>k = m\<close> m by (cases "u = ts ! prev") (auto simp: agree_def)
        next
          assume p: "presentation u = presentation t \<and> presentation t \<noteq> None"
          then obtain q where q: "presentation t = Some q" by blast
          then obtain old where old: "map_of (r_by_identity r) q = Some old"
            using ident(1) u k p by (cases "map_of (r_by_identity r) q") auto
          then have "old = n" using a q by simp
          moreover obtain v where v: "v \<in> set xs" "ord v = Some old" "presentation v = Some q" using ident(2) [OF old] by blast
          ultimately show "k = m" using pair [OF u v(1)] k p q m by (cases "u = v") (auto simp: agree_def)
        qed
      qed
    qed
  qed
  show ?thesis
  proof (cases "?c1 \<or> ?c2")
    case True
    then have "\<exists>e. roster_ordinal ts t n r' = Inl e" unfolding roster_ordinal_def r' by (auto simp only: if_True if_False split: if_split)
    then show ?thesis using True iff by auto
  next
    case False
    then have run: "roster_ordinal ts t n r' = Inr (r'\<lparr>r_by_order := AList.update n (index t) (r_by_order r),
        r_by_identity := (case presentation t of None \<Rightarrow> r_by_identity r | Some p \<Rightarrow> AList.update p n (r_by_identity r)),
        r_members := r_members r @ [(n, index t)]\<rparr>)" (is "_ = Inr ?r")
      unfolding roster_ordinal_def r' by simp
    have "roster_inv ts (xs @ [t]) ?r"
      using inv t src r' unfolding roster_inv_def
      by (auto simp: update_conv' distinct_update image_iff split: option.splits if_splits)
    then show ?thesis using run False iff by simp
  qed
qed

lemma roster_inv_no_ordinal:
  assumes inv: "roster_inv ts xs r" and t: "ord t = None" "authored t"
    and src: "\<forall>s. (r_source r' = Some s) = (\<exists>u \<in> set (xs @ [t]). roster_of (episodes u) = Some s)"
    and r': "r_ids r' = playlist_id t # r_ids r" "r_observed r' = r_observed r + 1" "r_members r' = r_members r"
      "r_by_order r' = r_by_order r" "r_by_identity r' = r_by_identity r"
  shows "roster_inv ts (xs @ [t]) r'"
proof -
  note I = inv [unfolded roster_inv_def]
  have "set (r_ids r') = playlist_id ` {u \<in> set (xs @ [t]). authored u}" using I t r'(1) by auto
  moreover have "r_observed r' = length (filter authored (xs @ [t]))" using I t r'(2) by simp
  moreover have "r_members r' = members_of (xs @ [t])" using I t r'(3) by simp
  moreover have "set (xs @ [t]) = insert t (set xs)" by simp
  ultimately show ?thesis unfolding roster_inv_def using src I t(1) r'(4,5) by (simp del: set_append)
qed

definition indexed :: "'c SelectionTitle list \<Rightarrow> bool" where
  "indexed ts \<longleftrightarrow> (\<forall>i < length ts. index (ts ! i) = i)"

lemma roster_step_ok:
  assumes inv: "roster_inv ts xs r" and ok: "titles_ok (length ts) xs" and t: "index t < length ts" "ts ! index t = t"
  shows "case roster_step ts t r of
      Inr r' \<Rightarrow> titles_ok (length ts) (xs @ [t]) \<and> roster_inv ts (xs @ [t]) r'
    | Inl e \<Rightarrow> \<not> titles_ok (length ts) (xs @ [t])"
proof (cases "episodes t")
  case NoEvidence
  then have "agree u t" "compat u t" for u by (simp_all add: agree_def compat_def)
  moreover have "roster_inv ts (xs @ [t]) r" using inv NoEvidence by (auto simp: roster_inv_def)
  ultimately show ?thesis using NoEvidence ok by (simp add: roster_step_def titles_ok_snoc title_ok_def)
next
  case (Authored roster c n)
  have ids: "playlist_id t \<in> set (r_ids r) \<longleftrightarrow> (\<exists>u \<in> set xs. authored u \<and> playlist_id u = playlist_id t)"
  proof -
    have "set (r_ids r) = playlist_id ` {t \<in> set xs. authored t}" using inv by (simp add: roster_inv_def)
    then show ?thesis by (simp add: image_iff) (metis (no_types))
  qed
  have src: "r_source r = Some s \<longleftrightarrow> (\<exists>u \<in> set xs. roster_of (episodes u) = Some s)" for s using inv by (simp add: roster_inv_def)
  have compat: "(\<forall>u \<in> set xs. compat u t) \<longleftrightarrow> playlist_id t \<notin> set (r_ids r) \<and>
      (case r_source r of None \<Rightarrow> True | Some prev \<Rightarrow> prev = roster)"
  proof
    assume a: "\<forall>u \<in> set xs. compat u t"
    have "playlist_id t \<notin> set (r_ids r)" using a ids Authored by (auto simp: compat_def)
    moreover have "prev = roster" if p: "r_source r = Some prev" for prev
    proof -
      obtain u where u: "u \<in> set xs" "roster_of (episodes u) = Some prev" using src p by blast
      then show ?thesis using a Authored by (auto simp: compat_def)
    qed
    ultimately show "playlist_id t \<notin> set (r_ids r) \<and> (case r_source r of None \<Rightarrow> True | Some prev \<Rightarrow> prev = roster)"
      by (simp split: option.split)
  next
    assume a: "playlist_id t \<notin> set (r_ids r) \<and> (case r_source r of None \<Rightarrow> True | Some prev \<Rightarrow> prev = roster)"
    show "\<forall>u \<in> set xs. compat u t"
    proof
      fix u assume u: "u \<in> set xs"
      show "compat u t"
      proof (cases "roster_of (episodes u)")
        case (Some s)
        then have "r_source r = Some s" using src u by blast
        then show ?thesis using a Some ids u Authored by (auto simp: compat_def)
      qed (simp add: compat_def)
    qed
  qed
  let ?r = "r\<lparr>r_ids := playlist_id t # r_ids r, r_source := Some roster, r_observed := r_observed r + 1\<rparr>"
  let ?bad = "trim roster = [] \<or> playlist_id t \<in> set (r_ids r) \<or> c \<noteq> length ts \<or>
      (case r_source r of None \<Rightarrow> False | Some prev \<Rightarrow> prev \<noteq> roster)"
  have good: "\<not> ?bad \<longleftrightarrow> title_ok (length ts) t \<and> (\<forall>u \<in> set xs. compat u t)"
    using compat Authored by (auto simp: title_ok_def split: option.splits)
  show ?thesis
  proof (cases ?bad)
    case True
    then have "\<exists>e. roster_step ts t r = Inl e" using Authored by (auto simp: roster_step_def split: option.splits)
    then show ?thesis using True good by (auto simp: titles_ok_snoc)
  next
    case False
    then have run: "roster_step ts t r = (case n of None \<Rightarrow> Inr ?r | Some n \<Rightarrow> roster_ordinal ts t n ?r)"
      using Authored by (auto simp: roster_step_def Let_def split: option.splits)
    have only: "(\<exists>u \<in> set (xs @ [t]). roster_of (episodes u) = Some s) \<longleftrightarrow> s = roster" for s
    proof -
      have "(\<exists>u \<in> set (xs @ [t]). roster_of (episodes u) = Some s) \<longleftrightarrow> r_source r = Some s \<or> s = roster"
        unfolding src using Authored by auto
      then show ?thesis using False by (cases "r_source r") auto
    qed
    have s: "\<forall>s. (r_source ?r = Some s) = (\<exists>u \<in> set (xs @ [t]). roster_of (episodes u) = Some s)"
      unfolding only by auto
    show ?thesis
    proof (cases n)
      case None
      then have "agree u t" for u using Authored by (simp add: agree_def)
      moreover have "roster_inv ts (xs @ [t]) ?r"
        by (rule roster_inv_no_ordinal [OF inv _ _ s]) (simp_all add: None Authored)
      ultimately show ?thesis using run None False good ok by (simp add: titles_ok_snoc)
    next
      case (Some k)
      have ord: "ord t = Some k" "authored t" using Authored Some by simp_all
      have a: "sorted_wrt agree xs" using ok by (simp add: titles_ok_def)
      show ?thesis
        using roster_ordinal_step [OF inv ord t s _ _ _ _ _ a] run Some False good ok
        by (auto simp: titles_ok_snoc split: sum.splits)
    qed
  qed
qed

lemma roster_walk_ok:
  assumes "ts = xs @ ys" and "roster_inv ts xs r" and "titles_ok (length ts) xs" and "indexed ts"
  shows "case roster_walk ts ys r of
      Inr r' \<Rightarrow> titles_ok (length ts) ts \<and> roster_inv ts ts r'
    | Inl e \<Rightarrow> \<not> titles_ok (length ts) ts"
  using assms
proof (induction ys arbitrary: xs r)
  case (Cons t ys)
  have "ts ! length xs = t" "length xs < length ts" using Cons.prems(1) by simp_all
  then have "index t < length ts" "ts ! index t = t" using Cons.prems(4) by (auto simp: indexed_def)
  note step = roster_step_ok [OF Cons.prems(2,3) this]
  show ?case
  proof (cases "roster_step ts t r")
    case (Inl e)
    then show ?thesis using step Cons.prems(1) titles_ok_append [of "length ts" "xs @ [t]" ys] by auto
  next
    case (Inr r')
    then show ?thesis using step Cons.IH [of "xs @ [t]" r'] Cons.prems by simp
  qed
qed simp

text \<open>The evidence of a whole roster.\<close>

definition roster_good :: "'c SelectionTitle list \<Rightarrow> nat \<Rightarrow> bool" where
  "roster_good ts k \<longleftrightarrow> titles_ok (length ts) ts \<and> list_all authored ts \<and> 0 < k \<and>
     {n. \<exists>t \<in> set ts. ord t = Some n} = {..<k}"

lemma ordinals_complete:
  assumes "roster_inv ts ts r"
  shows "list_all (\<lambda>n. map_of (r_by_order r) n \<noteq> None) [0..<length (r_by_order r)] \<longleftrightarrow>
      {n. \<exists>t \<in> set ts. ord t = Some n} = {..<length (r_by_order r)}" (is "?l \<longleftrightarrow> ?O = _")
    and "{n. \<exists>t \<in> set ts. ord t = Some n} = {..<k} \<Longrightarrow> length (r_by_order r) = k"
proof -
  have n: "map_of (r_by_order r) n = None \<longleftrightarrow> (\<forall>t \<in> set ts. ord t \<noteq> Some n)" for n
    using assms by (simp add: roster_inv_def)
  have d: "distinct (map fst (r_by_order r))" using assms by (simp add: roster_inv_def)
  have "x \<in> ?O \<longleftrightarrow> x \<in> fst ` set (r_by_order r)" for x using n [of x] unfolding map_of_eq_None_iff by blast
  then have keys: "?O = set (map fst (r_by_order r))" by auto
  have card: "card ?O = length (r_by_order r)" using d distinct_card [OF d] unfolding keys by simp
  have fin: "finite ?O" unfolding keys by simp
  have "?l \<longleftrightarrow> {..<length (r_by_order r)} \<subseteq> ?O"
    unfolding keys by (auto simp: list_all_iff subset_iff map_of_eq_None_iff)
  also have "\<dots> \<longleftrightarrow> ?O = {..<length (r_by_order r)}"
    using card_subset_eq [OF fin, of "{..<length (r_by_order r)}"] card by auto
  finally show "?l \<longleftrightarrow> ?O = {..<length (r_by_order r)}" .
  show "?O = {..<k} \<Longrightarrow> length (r_by_order r) = k" using card by simp
qed

lemma all_filtered: "length (filter P xs) = length xs \<longleftrightarrow> list_all P xs"
  by (induction xs) (auto dest: arg_cong [of _ _ "\<lambda>n. n \<le> length (filter P _)"] simp: not_less_eq_eq [symmetric] le_imp_less_Suc less_imp_neq)

lemma episode_roster_ok:
  assumes "indexed ts"
  shows "case episode_roster ts of
      Inr ms \<Rightarrow> (\<exists>k. roster_good ts k) \<and> ms = map snd (sort_key fst (members_of ts))
    | Inl e \<Rightarrow> \<not> (\<exists>k. roster_good ts k)"
proof (cases "roster_walk ts ts roster_init")
  case (Inl e)
  then show ?thesis using roster_walk_ok [of ts "[]" ts, OF _ roster_inv_init _ assms]
    by (auto simp: episode_roster_def roster_good_def)
next
  case (Inr r)
  then have ok: "titles_ok (length ts) ts" and inv: "roster_inv ts ts r"
    using roster_walk_ok [of ts "[]" ts, OF _ roster_inv_init _ assms] by simp_all
  have src: "r_source r = None \<longleftrightarrow> (\<forall>t \<in> set ts. \<not> authored t)"
  proof -
    have "\<And>s. r_source r = Some s \<longleftrightarrow> (\<exists>t \<in> set ts. roster_of (episodes t) = Some s)" using inv by (simp add: roster_inv_def)
    then show ?thesis by (metis not_None_eq)
  qed
  have obs: "r_observed r = length ts \<longleftrightarrow> list_all authored ts"
    using inv by (simp add: roster_inv_def all_filtered)
  have mem: "r_members r = members_of ts" using inv by (simp add: roster_inv_def)
  have none: "members_of ts = [] \<longleftrightarrow> (\<forall>n. \<forall>t \<in> set ts. ord t \<noteq> Some n)"
    using members_of_set [of _ _ ts] by (metis emptyE list.set(1) list.set_intros(1) list.exhaust surj_pair)
  let ?all = "list_all (\<lambda>n. map_of (r_by_order r) n \<noteq> None) [0..<length (r_by_order r)]"
  have good: "(\<exists>k. roster_good ts k) \<longleftrightarrow> list_all authored ts \<and> members_of ts \<noteq> [] \<and> ?all"
  proof
    assume "\<exists>k. roster_good ts k"
    then obtain k where k: "roster_good ts k" ..
    then have O: "{n. \<exists>t \<in> set ts. ord t = Some n} = {..<k}" "0 < k" by (simp_all add: roster_good_def)
    then have "\<exists>t \<in> set ts. ord t = Some 0" by blast
    then show "list_all authored ts \<and> members_of ts \<noteq> [] \<and> ?all"
      using k none ordinals_complete [OF inv] O by (auto simp: roster_good_def)
  next
    assume a: "list_all authored ts \<and> members_of ts \<noteq> [] \<and> ?all"
    then have O: "{n. \<exists>t \<in> set ts. ord t = Some n} = {..<length (r_by_order r)}" using ordinals_complete(1) [OF inv] by blast
    moreover have "0 < length (r_by_order r)" using a none O by auto
    ultimately show "\<exists>k. roster_good ts k" using ok a unfolding roster_good_def by blast
  qed
  have "members_of ts \<noteq> [] \<Longrightarrow> list_all authored ts \<Longrightarrow> r_source r \<noteq> None"
    using src by (cases ts) auto
  then show ?thesis using Inr obs mem good src by (auto simp: episode_roster_def)
qed

subsection \<open>Representatives\<close>

abbreviation pres_at :: "'c SelectionTitle list \<Rightarrow> nat \<Rightarrow> 'c identity option" where
  "pres_at ts i \<equiv> presentation (ts ! i)"

text \<open>Of the titles seen, \<open>chosen\<close> has every one without a presentation, and the best of each other.\<close>

definition rep_inv ::
  "'c SelectionTitle list \<Rightarrow> nat list \<Rightarrow> nat set \<Rightarrow> ('c identity \<times> nat) list \<Rightarrow> nat list \<Rightarrow> bool" where
  "rep_inv ts sc pre groups chosen \<longleftrightarrow>
     set chosen \<subseteq> pre \<and> distinct chosen \<and>
     (\<forall>p. map_of groups p = None \<longleftrightarrow> (\<forall>j \<in> pre. pres_at ts j \<noteq> Some p)) \<and>
     (\<forall>p k. map_of groups p = Some k \<longrightarrow> k < length chosen \<and> pres_at ts (chosen ! k) = Some p \<and>
        (\<forall>j \<in> pre. pres_at ts j = Some p \<longrightarrow> sc ! j \<le> sc ! (chosen ! k))) \<and>
     (\<forall>k < length chosen. \<forall>p. pres_at ts (chosen ! k) = Some p \<longrightarrow> map_of groups p = Some k) \<and>
     (\<forall>j \<in> pre. pres_at ts j = None \<longrightarrow> j \<in> set chosen)"

lemma rep_invD:
  assumes "rep_inv ts sc pre groups chosen"
  shows "set chosen \<subseteq> pre" "distinct chosen"
    and "map_of groups p = None \<longleftrightarrow> (\<forall>j \<in> pre. pres_at ts j \<noteq> Some p)"
    and "map_of groups p = Some k \<Longrightarrow> k < length chosen"
    and "map_of groups p = Some k \<Longrightarrow> pres_at ts (chosen ! k) = Some p"
    and "map_of groups p = Some k \<Longrightarrow> j \<in> pre \<Longrightarrow> pres_at ts j = Some p \<Longrightarrow> sc ! j \<le> sc ! (chosen ! k)"
    and "k < length chosen \<Longrightarrow> pres_at ts (chosen ! k) = Some p \<Longrightarrow> map_of groups p = Some k"
    and "j \<in> pre \<Longrightarrow> pres_at ts j = None \<Longrightarrow> j \<in> set chosen"
proof -
  note I1 = assms [unfolded rep_inv_def]
  note I2 = conjunct2 [OF I1] note I3 = conjunct2 [OF I2] note I4 = conjunct2 [OF I3] note I5 = conjunct2 [OF I4]
  note I6 = conjunct2 [OF I5]
  show "set chosen \<subseteq> pre" "distinct chosen" by (rule conjunct1 [OF I1], rule conjunct1 [OF I2])
  show "map_of groups p = None \<longleftrightarrow> (\<forall>j \<in> pre. pres_at ts j \<noteq> Some p)" by (rule conjunct1 [OF I3, rule_format])
  show "map_of groups p = Some k \<Longrightarrow> k < length chosen" "map_of groups p = Some k \<Longrightarrow> pres_at ts (chosen ! k) = Some p"
    "map_of groups p = Some k \<Longrightarrow> j \<in> pre \<Longrightarrow> pres_at ts j = Some p \<Longrightarrow> sc ! j \<le> sc ! (chosen ! k)"
    using conjunct1 [OF I4] by blast+
  show "k < length chosen \<Longrightarrow> pres_at ts (chosen ! k) = Some p \<Longrightarrow> map_of groups p = Some k"
    using conjunct1 [OF I5] by blast
  show "j \<in> pre \<Longrightarrow> pres_at ts j = None \<Longrightarrow> j \<in> set chosen" using I6 by blast
qed

lemma rep_inv_new:
  assumes "rep_inv ts sc pre groups chosen" and "i \<notin> pre" and "pres_at ts i = None"
  shows "rep_inv ts sc (insert i pre) groups (chosen @ [i])"
proof -
  note I = rep_invD [OF assms(1)]
  show ?thesis unfolding rep_inv_def
  proof (intro conjI allI ballI impI)
    show "set (chosen @ [i]) \<subseteq> insert i pre" "distinct (chosen @ [i])" using I(1,2) assms(2) by auto
    show "map_of groups q = None \<longleftrightarrow> (\<forall>j \<in> insert i pre. pres_at ts j \<noteq> Some q)" for q using I(3) [of q] assms(3) by simp
  next
    fix q k assume q: "map_of groups q = Some k"
    show "k < length (chosen @ [i])" "pres_at ts ((chosen @ [i]) ! k) = Some q" using I(4,5) [OF q] by (simp_all add: nth_append)
    fix j assume j: "j \<in> insert i pre" "pres_at ts j = Some q"
    then show "sc ! j \<le> sc ! ((chosen @ [i]) ! k)" using I(4,6) [OF q] assms(3) by (auto simp: nth_append)
  next
    fix k q assume k: "k < length (chosen @ [i])" "pres_at ts ((chosen @ [i]) ! k) = Some q"
    then have "k < length chosen" using assms(3) by (cases "k = length chosen") auto
    then show "map_of groups q = Some k" using I(7) k(2) by (simp add: nth_append)
  next
    fix j assume "j \<in> insert i pre" "pres_at ts j = None"
    then show "j \<in> set (chosen @ [i])" using I(8) by auto
  qed
qed

lemma rep_inv_group:
  assumes inv: "rep_inv ts sc pre groups chosen" and i: "i \<notin> pre" and p: "pres_at ts i = Some p" and none: "map_of groups p = None"
  shows "rep_inv ts sc (insert i pre) ((p, length chosen) # groups) (chosen @ [i])"
proof -
  note I = rep_invD [OF inv]
  have no: "pres_at ts j \<noteq> Some p" if "j \<in> pre" for j using I(3) [of p] none that by blast
  have old: "k < length chosen \<and> q \<noteq> p" if "map_of groups q = Some k" for q k using that none I(4) by auto
  show ?thesis unfolding rep_inv_def
  proof (intro conjI allI ballI impI)
    show "set (chosen @ [i]) \<subseteq> insert i pre" "distinct (chosen @ [i])" using I(1,2) i by auto
    show "map_of ((p, length chosen) # groups) q = None \<longleftrightarrow> (\<forall>j \<in> insert i pre. pres_at ts j \<noteq> Some q)" for q
      using I(3) [of q] p by auto
  next
    fix q k assume q: "map_of ((p, length chosen) # groups) q = Some k"
    consider "q = p" "k = length chosen" | "q \<noteq> p" "map_of groups q = Some k" using q by (auto split: if_splits)
    note c = this
    from c show "k < length (chosen @ [i])" by cases (simp, use old [of q k] in simp)
    from c show "pres_at ts ((chosen @ [i]) ! k) = Some q" by cases (use p in simp, use old [of q k] I(5) [of q k] in \<open>simp add: nth_append\<close>)
    fix j assume j: "j \<in> insert i pre" "pres_at ts j = Some q"
    from c show "sc ! j \<le> sc ! ((chosen @ [i]) ! k)"
    proof cases
      case 1
      then show ?thesis using j no by auto
    next
      case 2
      then have "j \<in> pre" "k < length chosen" using j p old [of q k] by auto
      then show ?thesis using I(6) [OF 2(2)] j(2) by (simp add: nth_append)
    qed
  next
    fix k q assume k: "k < length (chosen @ [i])" "pres_at ts ((chosen @ [i]) ! k) = Some q"
    show "map_of ((p, length chosen) # groups) q = Some k"
    proof (cases "k < length chosen")
      case True
      then have "map_of groups q = Some k" using I(7) k by (simp add: nth_append)
      then show ?thesis using none by auto
    next
      case False
      then show ?thesis using k p by (simp add: less_Suc_eq)
    qed
  next
    fix j assume "j \<in> insert i pre" "pres_at ts j = None"
    then show "j \<in> set (chosen @ [i])" using I(8) p by auto
  qed
qed

lemma rep_inv_better:
  assumes inv: "rep_inv ts sc pre groups chosen" and i: "i \<notin> pre" and p: "pres_at ts i = Some p" and slot: "map_of groups p = Some s"
  shows "rep_inv ts sc (insert i pre) groups (if sc ! (chosen ! s) < sc ! i then chosen[s := i] else chosen)" (is "rep_inv _ _ _ _ ?c")
proof -
  note I = rep_invD [OF inv]
  have s: "s < length chosen" "pres_at ts (chosen ! s) = Some p" "\<forall>j \<in> pre. pres_at ts j = Some p \<longrightarrow> sc ! j \<le> sc ! (chosen ! s)"
    using I(4-6) [OF slot] by blast+
  have len: "length ?c = length chosen" by simp
  have pres: "pres_at ts (?c ! k) = pres_at ts (chosen ! k)" if "k < length chosen" for k
    using s p that by (cases "k = s") auto
  have inner: "sc ! (chosen ! k) \<le> sc ! (?c ! k)" if "k < length chosen" for k using s that by (cases "k = s") auto
  show ?thesis unfolding rep_inv_def
  proof (intro conjI allI ballI impI)
    have "set chosen \<subseteq> pre" "distinct chosen" using I(1,2) by blast+
    then show "set ?c \<subseteq> insert i pre" "distinct ?c" using i s(1) set_update_subset_insert [of chosen s i]
      by (auto intro!: distinct_list_update)
    show "map_of groups q = None \<longleftrightarrow> (\<forall>j \<in> insert i pre. pres_at ts j \<noteq> Some q)" for q
      using I(3) [of q] p slot by (cases "q = p") auto
  next
    fix q k assume q: "map_of groups q = Some k"
    then have old: "k < length chosen" "pres_at ts (chosen ! k) = Some q"
        "\<forall>j \<in> pre. pres_at ts j = Some q \<longrightarrow> sc ! j \<le> sc ! (chosen ! k)" using I(4-6) by blast+
    show "k < length ?c" using old len by simp
    show "pres_at ts (?c ! k) = Some q" using old pres by simp
    fix j assume j: "j \<in> insert i pre" "pres_at ts j = Some q"
    show "sc ! j \<le> sc ! (?c ! k)"
    proof (cases "j = i")
      case True
      then have "k = s" using j p q slot by simp
      then show ?thesis using True s(1) by auto
    next
      case False
      then show ?thesis using old j inner [OF old(1)] by (metis insertE order_trans)
    qed
  next
    fix k q assume k: "k < length ?c" "pres_at ts (?c ! k) = Some q"
    then have "k < length chosen" "pres_at ts (chosen ! k) = Some q" using len pres by auto
    then show "map_of groups q = Some k" using I(7) by blast
  next
    fix j assume j: "j \<in> insert i pre" "pres_at ts j = None"
    then have "j \<in> set chosen" using I(8) p by auto
    then obtain k where k: "k < length chosen" "chosen ! k = j" by (auto simp: in_set_conv_nth)
    then have "k \<noteq> s" using s j by auto
    then have "?c ! k = j" using k by simp
    then show "j \<in> set ?c" using k len by (metis nth_mem)
  qed
qed

lemma represent_ok:
  assumes "rep_inv ts sc pre groups chosen" and "distinct is" and "set is \<inter> pre = {}"
  shows "\<exists>groups'. rep_inv ts sc (pre \<union> set is) groups' (represent ts sc is groups chosen)"
  using assms
proof (induction "is" arbitrary: pre groups chosen)
  case (Cons i xs)
  have i: "i \<notin> pre" "distinct xs" "set xs \<inter> insert i pre = {}" "pre \<union> set (i # xs) = insert i pre \<union> set xs"
    using Cons.prems(2,3) by auto
  show ?case
  proof (cases "pres_at ts i")
    case None
    show ?thesis using Cons.IH [OF rep_inv_new [OF Cons.prems(1) i(1) None] i(2,3)] None i(4) by simp
  next
    case (Some p)
    show ?thesis
    proof (cases "map_of groups p")
      case None
      show ?thesis using Cons.IH [OF rep_inv_group [OF Cons.prems(1) i(1) Some None] i(2,3)] Some None i(4) by simp
    next
      case slot: (Some s)
      show ?thesis using Cons.IH [OF rep_inv_better [OF Cons.prems(1) i(1) Some slot] i(2,3)] Some slot i(4) by simp
    qed
  qed
qed auto

lemma representatives_ok:
  assumes "distinct is"
  obtains groups where "rep_inv ts sc (set is) groups (representatives ts is sc)"
proof -
  have "rep_inv ts sc {} [] []" by (simp add: rep_inv_def)
  from represent_ok [OF this assms] show thesis using that by (auto simp: representatives_def)
qed

lemma representatives_mem:
  assumes "distinct is"
  shows "distinct (representatives ts is sc)" and "set (representatives ts is sc) \<subseteq> set is"
  using representatives_ok [OF assms, of ts sc] unfolding rep_inv_def by metis+

end
