(* ===== verification/SelectionProps.thy ===== *)
theory SelectionProps
  imports SelectionInv
begin

text \<open>
  What a selection promises: titles of the disc, each once; exactly one cut, the best scoring, of each
  episode of a proven roster; the best scoring cut of the main title.
\<close>

subsection \<open>The disc's titles\<close>

lemma from_titles_simps [simp]:
  "from_titles [] = []" "length (from_titles titles) = length titles"
  "i < length titles \<Longrightarrow> from_titles titles ! i =
     \<lparr>index = i, playlist_id = d_playlist_id (titles ! i), duration_secs = d_duration_secs (titles ! i),
      presentation = identity (titles ! i), audio_tags = map a_language (audio_streams (titles ! i)),
      episodes = d_episodes (titles ! i)\<rparr>"
  by (simp_all add: from_titles_def nth_enumerate_eq)

lemma indexed_from_titles: "indexed (from_titles titles)"
  by (simp add: indexed_def)

abbreviation episode :: "'c DiscTitle list \<Rightarrow> nat \<Rightarrow> nat option" where
  "episode titles i \<equiv> ordinal_of (d_episodes (titles ! i))"

text \<open>
  Evidence that proves \<open>k\<close> episodes: every title names the same roster, of exactly the disc's titles; no
  playlist is named twice; the episodes are numbered from 0; two titles are the same episode exactly when
  they are cuts of one programme.
\<close>

definition cuts_agree :: "'c DiscTitle \<Rightarrow> 'c DiscTitle \<Rightarrow> bool" where
  "cuts_agree t u \<longleftrightarrow> (\<forall>n m. ordinal_of (d_episodes t) = Some n \<longrightarrow> ordinal_of (d_episodes u) = Some m \<longrightarrow>
      (n = m \<longleftrightarrow> identity t = identity u \<and> identity u \<noteq> None))"

definition authored_roster :: "'c DiscTitle list \<Rightarrow> nat \<Rightarrow> bool" where
  "authored_roster titles k \<longleftrightarrow>
     (\<exists>roster. trim roster \<noteq> [] \<and> (\<forall>t \<in> set titles. \<exists>n. d_episodes t = Authored roster (length titles) n)) \<and>
     distinct (map d_playlist_id titles) \<and>
     0 < k \<and> (\<forall>n. (\<exists>i < length titles. episode titles i = Some n) \<longleftrightarrow> n < k) \<and>
     (\<forall>i j. i < j \<longrightarrow> j < length titles \<longrightarrow> cuts_agree (titles ! i) (titles ! j))"

lemma set_from_titles: "x \<in> set (from_titles titles) \<longleftrightarrow> (\<exists>i < length titles. x = from_titles titles ! i)"
  by (auto simp: in_set_conv_nth)

lemma ord_from_titles: "(\<exists>t \<in> set (from_titles titles). ord t = Some n) \<longleftrightarrow> (\<exists>i < length titles. episode titles i = Some n)"
proof
  assume "\<exists>t \<in> set (from_titles titles). ord t = Some n"
  then obtain i where "i < length titles" "ord (from_titles titles ! i) = Some n" by (metis set_from_titles)
  then show "\<exists>i < length titles. episode titles i = Some n" by (intro exI [of _ i]) simp
next
  assume "\<exists>i < length titles. episode titles i = Some n"
  then obtain i where i: "i < length titles" "episode titles i = Some n" by blast
  have "from_titles titles ! i \<in> set (from_titles titles)" using i(1) by (intro nth_mem) simp
  moreover have "ord (from_titles titles ! i) = Some n" using i by simp
  ultimately show "\<exists>t \<in> set (from_titles titles). ord t = Some n" by blast
qed

lemma distinct_wrt: "distinct xs \<longleftrightarrow> sorted_wrt (\<noteq>) xs"
  by (induction xs) auto

lemma roster_good_titles: "roster_good (from_titles titles) k \<longleftrightarrow> authored_roster titles k"
proof -
  let ?ts = "from_titles titles" and ?n = "length titles"
  have "title_ok ?n (?ts ! i) \<and> authored (?ts ! i) \<longleftrightarrow> (\<exists>r n. d_episodes (titles ! i) = Authored r ?n n \<and> trim r \<noteq> [])"
    if "i < ?n" for i
    using that by (cases "d_episodes (titles ! i)") (simp_all add: title_ok_def conj_commute)
  then have ok: "list_all (title_ok ?n) ?ts \<and> list_all authored ?ts \<longleftrightarrow>
      (\<forall>i < ?n. \<exists>r n. d_episodes (titles ! i) = Authored r ?n n \<and> trim r \<noteq> [])"
    unfolding list_all_length from_titles_simps(2) by blast
  have "agree (?ts ! i) (?ts ! j) = cuts_agree (titles ! i) (titles ! j)" if "i < j" "j < ?n" for i j
    using that by (simp add: agree_def cuts_agree_def)
  then have agree: "sorted_wrt agree ?ts \<longleftrightarrow> (\<forall>i j. i < j \<longrightarrow> j < ?n \<longrightarrow> cuts_agree (titles ! i) (titles ! j))"
    unfolding sorted_wrt_iff_nth_less from_titles_simps(2) by blast
  have "sorted_wrt compat ?ts \<longleftrightarrow> distinct (map d_playlist_id titles) \<and>
      (\<forall>i j. i < j \<longrightarrow> j < ?n \<longrightarrow> roster_of (d_episodes (titles ! i)) = roster_of (d_episodes (titles ! j)))"
    if "list_all authored ?ts"
  proof -
    have a: "\<exists>r. roster_of (d_episodes (titles ! i)) = Some r" if "i < ?n" for i
      using \<open>list_all authored ?ts\<close> that by (auto simp: list_all_length)
    have "sorted_wrt compat ?ts \<longleftrightarrow> (\<forall>i j. i < j \<longrightarrow> j < ?n \<longrightarrow>
        roster_of (d_episodes (titles ! i)) = roster_of (d_episodes (titles ! j)) \<and> d_playlist_id (titles ! i) \<noteq> d_playlist_id (titles ! j))"
      using a by (simp add: sorted_wrt_iff_nth_less compat_def)
    moreover have "distinct (map d_playlist_id titles) \<longleftrightarrow> (\<forall>i j. i < j \<longrightarrow> j < ?n \<longrightarrow> d_playlist_id (titles ! i) \<noteq> d_playlist_id (titles ! j))"
      unfolding distinct_wrt sorted_wrt_iff_nth_less by simp
    ultimately show ?thesis by blast
  qed
  note compat = this
  have same: "(\<forall>i < ?n. \<exists>r n. d_episodes (titles ! i) = Authored r ?n n \<and> trim r \<noteq> []) \<and>
      (\<forall>i j. i < j \<longrightarrow> j < ?n \<longrightarrow> roster_of (d_episodes (titles ! i)) = roster_of (d_episodes (titles ! j))) \<longleftrightarrow>
      (\<exists>roster. trim roster \<noteq> [] \<and> (\<forall>t \<in> set titles. \<exists>n. d_episodes t = Authored roster ?n n))" (is "?l \<longleftrightarrow> ?r") if "0 < ?n"
  proof
    assume l: ?l
    from conjunct1 [OF l, rule_format, OF that]
    obtain r0 n0 where r0: "d_episodes (titles ! 0) = Authored r0 ?n n0" "trim r0 \<noteq> []" by (elim exE conjE)
    have "\<exists>n. d_episodes (titles ! i) = Authored r0 ?n n" if i: "i < ?n" for i
    proof -
      from conjunct1 [OF l, rule_format, OF i] obtain r n where rn: "d_episodes (titles ! i) = Authored r ?n n" by (elim exE conjE)
      have "roster_of (d_episodes (titles ! 0)) = roster_of (d_episodes (titles ! i))" 
      proof (cases "0 < i")
        case True
        from conjunct2 [OF l, rule_format, OF True i] show ?thesis .
      qed simp
      then show ?thesis using r0 rn by simp
    qed
    then have "\<forall>t \<in> set titles. \<exists>n. d_episodes t = Authored r0 ?n n" by (metis in_set_conv_nth)
    then show ?r using r0(2) by blast
  next
    assume ?r
    then obtain roster where t: "trim roster \<noteq> []" and all: "\<forall>t \<in> set titles. \<exists>n. d_episodes t = Authored roster ?n n" by blast
    have r: "trim roster \<noteq> []" "\<exists>n. d_episodes (titles ! i) = Authored roster ?n n" if "i < ?n" for i
      using t all that by auto
    have "roster_of (d_episodes (titles ! i)) = Some roster" if "i < ?n" for i using r(2) [OF that] by auto
    then have "\<forall>i j. i < j \<longrightarrow> j < ?n \<longrightarrow> roster_of (d_episodes (titles ! i)) = roster_of (d_episodes (titles ! j))" by simp
    then show ?l using r t by blast
  qed
  have ord: "(\<exists>t \<in> set ?ts. ord t = Some n) \<longleftrightarrow> (\<exists>i < ?n. episode titles i = Some n)" for n
    by (rule ord_from_titles)
  have ords: "{n. \<exists>t \<in> set ?ts. ord t = Some n} = {..<k} \<longleftrightarrow> (\<forall>n. (\<exists>i < ?n. episode titles i = Some n) \<longleftrightarrow> n < k)"
    unfolding ord by (auto simp: set_eq_iff)
  show ?thesis
  proof (cases "0 < ?n")
    case True
    show ?thesis unfolding roster_good_def titles_ok_def authored_roster_def from_titles_simps(2)
      using ok agree compat same [OF True] ords by blast
  next
    case False
    then have "\<not> roster_good ?ts k" "\<not> authored_roster titles k" by (auto simp: roster_good_def authored_roster_def)
    then show ?thesis by blast
  qed
qed

subsection \<open>Titles of the disc, each once\<close>

lemma in_range_once_ok:
  "distinct (in_range_once n seen is) \<and> set (in_range_once n seen is) = {i \<in> set is. i < n} - set seen"
  by (induction n seen "is" rule: in_range_once.induct) auto

lemma best_variant_bound: "best < n \<Longrightarrow> i + length ts \<le> n \<Longrightarrow> best_variant p sc ts i best < n"
  by (induction p sc ts i best rule: best_variant.induct) (auto split: option.splits)

lemma main_title_bound: "main_title L aud pres ts = Some i \<Longrightarrow> i < length ts"
  by (cases ts) (auto simp: main_title_def intro!: best_variant_bound split: option.splits if_splits)

lemma longest_mem: "longest ts best = Some t \<Longrightarrow> t \<in> set ts \<or> best = Some t"
  by (induction ts best rule: longest.induct) (auto split: if_splits option.splits)

lemma members_ok:
  assumes "indexed ts"
  shows "distinct (map snd (sort_key fst (members_of ts)))" and "set (map snd (sort_key fst (members_of ts))) \<subseteq> {..<length ts}"
    and "i \<in> set (map snd (sort_key fst (members_of ts))) \<longleftrightarrow> i < length ts \<and> ord (ts ! i) \<noteq> None"
proof -
  have "map snd (members_of ts) = map index (filter (\<lambda>t. ord t \<noteq> None) ts)"
    by (induction ts) (auto simp: members_of_def map_filter_def)
  moreover have idx: "map index ts = [0..<length ts]"
    using assms by (intro nth_equalityI) (simp_all add: indexed_def)
  then have "distinct (map index ts)" by simp
  ultimately have d: "distinct (map snd (members_of ts))" by (simp add: distinct_map_filter)
  then show "distinct (map snd (sort_key fst (members_of ts)))" by (simp add: distinct_map)
  have mem: "j \<in> snd ` set (members_of ts) \<longleftrightarrow> j < length ts \<and> ord (ts ! j) \<noteq> None" for j
  proof -
    have "j \<in> snd ` set (members_of ts) \<longleftrightarrow> (\<exists>n. (n, j) \<in> set (members_of ts))" by force
    also have "\<dots> \<longleftrightarrow> (\<exists>t \<in> set ts. ord t \<noteq> None \<and> index t = j)" unfolding members_of_set by auto
    also have "\<dots> \<longleftrightarrow> (\<exists>i < length ts. ord (ts ! i) \<noteq> None \<and> index (ts ! i) = j)" by (metis in_set_conv_nth)
    also have "\<dots> \<longleftrightarrow> j < length ts \<and> ord (ts ! j) \<noteq> None" using assms by (auto simp: indexed_def)
    finally show ?thesis .
  qed
  then show "i \<in> set (map snd (sort_key fst (members_of ts))) \<longleftrightarrow> i < length ts \<and> ord (ts ! i) \<noteq> None" by simp
  show "set (map snd (sort_key fst (members_of ts))) \<subseteq> {..<length ts}" using mem by auto
qed

lemma select_mem:
  "case select L sel aud pres (from_titles titles) of
     Inr is \<Rightarrow> distinct is \<and> set is \<subseteq> {..<length titles}
   | Inl review \<Rightarrow> sel = Episodes \<and> distinct (candidates review) \<and> set (candidates review) \<subseteq> {..<length titles}"
proof (cases sel)
  case MainMovie
  then show ?thesis using main_title_bound [of L aud pres "from_titles titles"]
    by (auto simp: select_def split: option.splits)
next
  case AllTitles
  then show ?thesis by (auto simp: select_def)
next
  case Longest
  have "t \<in> set (from_titles titles) \<Longrightarrow> index t < length titles" for t by (auto simp: in_set_conv_nth)
  then show ?thesis using Longest longest_mem [of "from_titles titles" None] by (auto simp: select_def split: option.splits)
next
  case (Titles xs)
  then show ?thesis using in_range_once_ok [of "length titles" "[]" xs] by (auto simp: select_def)
next
  case Episodes
  show ?thesis
  proof (cases "episode_roster (from_titles titles)")
    case (Inl e)
    have d: "distinct [0..<length titles]" by simp
    show ?thesis using Episodes Inl representatives_mem [OF d, of "from_titles titles" "scores L aud pres (from_titles titles)"]
      by (auto simp: select_def)
  next
    case (Inr ms)
    then have "ms = map snd (sort_key fst (members_of (from_titles titles)))"
      using episode_roster_ok [OF indexed_from_titles, of titles] by simp
    then have m: "distinct ms" "set ms \<subseteq> {..<length titles}" using members_ok(1,2) [OF indexed_from_titles, of titles] by auto
    show ?thesis using Episodes Inr m(2) representatives_mem [OF m(1), of "from_titles titles" "scores L aud pres (from_titles titles)"]
      by (auto simp: select_def)
  qed
qed

text \<open>
C17: Whatever is selected, the answer is a list of titles the disc has, each once; so is the list of candidates a
review proposes, and only an episode selection asks for a review.
\<close>

theorem select_in_range:
  "case select L sel aud pres (from_titles titles) of
     Inr is \<Rightarrow> distinct is \<and> set is \<subseteq> {..<length titles}
   | Inl review \<Rightarrow> sel = Episodes \<and> distinct (candidates review) \<and> set (candidates review) \<subseteq> {..<length titles}"
  by (rule select_mem)

subsection \<open>The main title\<close>

definition main_cut :: "'c DiscTitle list \<Rightarrow> nat \<Rightarrow> bool" where
  "main_cut titles i \<longleftrightarrow> i = 0 \<or>
     (\<exists>p q. identity (titles ! 0) = Some p \<and> identity (titles ! i) = Some q \<and> branch_variant q p)"

definition first_best :: "nat list \<Rightarrow> (nat \<Rightarrow> bool) \<Rightarrow> nat \<Rightarrow> nat \<Rightarrow> bool" where
  "first_best sc P n i \<longleftrightarrow> i < n \<and> P i \<and> (\<forall>j < n. P j \<longrightarrow> sc ! j \<le> sc ! i \<and> (j < i \<longrightarrow> sc ! j < sc ! i))"

lemma first_best_Suc:
  "first_best sc P n b \<Longrightarrow> first_best sc P (Suc n) (if sc ! b < sc ! n \<and> P n then n else b)"
  unfolding first_best_def by (auto simp: less_Suc_eq not_less)

lemma best_variant_first:
  assumes "first_best sc P i b" and "\<And>k. k < length ts \<Longrightarrow>
      P (i + k) \<longleftrightarrow> (case presentation (ts ! k) of None \<Rightarrow> False | Some q \<Rightarrow> branch_variant q p)"
  shows "first_best sc P (i + length ts) (best_variant p sc ts i b)"
  using assms
proof (induction ts arbitrary: i b)
  case (Cons t ts)
  have P: "P i \<longleftrightarrow> (case presentation t of None \<Rightarrow> False | Some q \<Rightarrow> branch_variant q p)" using Cons.prems(2) [of 0] by simp
  have "first_best sc P (Suc i) (if sc ! b < sc ! i \<and> P i then i else b)" by (rule first_best_Suc [OF Cons.prems(1)])
  from Cons.IH [OF this] show ?case using Cons.prems(2) [of "Suc _"] P by simp
qed simp

text \<open>
C16: The main title is title 0 unless another cut of it (the content both share, in the same order in each, is more than
half of each) covers strictly more of the wanted languages: it is the first best scoring cut, and there is one exactly
when the disc has titles.
\<close>

theorem main_title_exact:
  "case main_title L aud pres (from_titles titles) of
     None \<Rightarrow> titles = []
   | Some i \<Rightarrow> first_best (scores L aud pres (from_titles titles)) (main_cut titles) (length titles) i"
proof (cases titles)
  case Nil
  then show ?thesis by (simp add: main_title_def)
next
  case (Cons t rest)
  let ?ts = "from_titles titles" and ?sc = "scores L aud pres (from_titles titles)"
  obtain u us where ts: "?ts = u # us" "length us = length rest" using Cons
    by (cases ?ts) (auto dest: arg_cong [of _ _ length])
  have u: "u = ?ts ! 0" "\<And>k. k < length us \<Longrightarrow> us ! k = ?ts ! Suc k" using ts by simp_all
  have p0: "presentation u = identity (titles ! 0)" using u(1) Cons by simp
  have one: "first_best ?sc (main_cut titles) 1 0" by (simp add: first_best_def main_cut_def)
  have no: "first_best ?sc (main_cut titles) (length titles) 0" if "identity (titles ! 0) = None"
    using that Cons by (auto simp: first_best_def main_cut_def)
  show ?thesis
  proof (cases "presentation u")
    case None
    then show ?thesis using ts p0 no by (simp add: main_title_def)
  next
    case (Some p)
    have "main_cut titles (1 + k) \<longleftrightarrow> (case presentation (us ! k) of None \<Rightarrow> False | Some q \<Rightarrow> branch_variant q p)"
      if "k < length us" for k
      using that u(2) [OF that] ts Cons p0 [symmetric] Some by (auto simp: main_cut_def split: option.split)
    from best_variant_first [OF one this]
    have "first_best ?sc (main_cut titles) (length titles) (best_variant p ?sc us 1 0)" using ts Cons by simp
    then show ?thesis using ts Some by (cases us) (auto simp: main_title_def)
  qed
qed

subsection \<open>The episodes\<close>

lemma represent_order:
  assumes "rep_inv ts sc pre groups chosen" and "distinct is" and "set is \<inter> pre = {}"
    and "\<And>i j. i \<in> pre \<union> set is \<Longrightarrow> j \<in> pre \<union> set is \<Longrightarrow> i \<noteq> j \<Longrightarrow> f i = f j \<longleftrightarrow> pres_at ts i = pres_at ts j \<and> pres_at ts j \<noteq> None"
    and "sorted (map f is)" and "\<And>i j. i \<in> pre \<Longrightarrow> j \<in> set is \<Longrightarrow> f i \<le> (f j :: nat)"
    and "sorted_wrt (<) (map f chosen)" and "f ` set chosen = f ` pre"
  shows "sorted_wrt (<) (map f (represent ts sc is groups chosen)) \<and> f ` set (represent ts sc is groups chosen) = f ` (pre \<union> set is)"
  using assms
proof (induction "is" arbitrary: pre groups chosen)
  case (Cons i xs)
  have i: "i \<notin> pre" "distinct xs" "set xs \<inter> insert i pre = {}" "pre \<union> set (i # xs) = insert i pre \<union> set xs"
    using Cons.prems(2,3) by auto
  have srt: "sorted (map f xs)" "\<And>j. j \<in> set xs \<Longrightarrow> f i \<le> f j" using Cons.prems(5) by auto
  have le: "f j \<le> f i" if "j \<in> pre" for j using Cons.prems(6) that by simp
  have upper: "k \<in> insert i pre \<Longrightarrow> j \<in> set xs \<Longrightarrow> f k \<le> f j" for k j using Cons.prems(6) srt(2) by auto
  note I = rep_invD [OF Cons.prems(1)]
  have new: "sorted_wrt (<) (map f (chosen @ [i])) \<and> f ` set (chosen @ [i]) = f ` insert i pre" if no: "\<And>j. j \<in> pre \<Longrightarrow> f j \<noteq> f i"
  proof -
    have "f x < f i" if "x \<in> pre" for x using le no that by (metis le_neq_implies_less)
    then show ?thesis using Cons.prems(7,8) by (auto simp: sorted_wrt_append)
  qed
  have eq: "f i = f j \<longleftrightarrow> pres_at ts i = pres_at ts j \<and> pres_at ts j \<noteq> None" if "j \<in> pre" for j
    using Cons.prems(4) [of i j] i(1) that by auto
  show ?case
  proof (cases "pres_at ts i")
    case None
    have "f j \<noteq> f i" if "j \<in> pre" for j using eq [OF that] None by auto
    note n = new [OF this]
    show ?thesis
      using Cons.IH [OF rep_inv_new [OF Cons.prems(1) i(1) None] i(2,3) Cons.prems(4) srt(1) upper] n None i(4) by simp
  next
    case (Some p)
    show ?thesis
    proof (cases "map_of groups p")
      case None
      have "f j \<noteq> f i" if "j \<in> pre" for j using eq [OF that] I(3) [of p] None Some that by auto
      note n = new [OF this]
      show ?thesis
        using Cons.IH [OF rep_inv_group [OF Cons.prems(1) i(1) Some None] i(2,3) Cons.prems(4) srt(1) upper] n Some None i(4) by simp
    next
      case slot: (Some s)
      note b = rep_inv_better [OF Cons.prems(1) i(1) Some slot]
      have s: "s < length chosen" "pres_at ts (chosen ! s) = Some p" using I(4,5) slot by blast+
      then have "chosen ! s \<in> pre" using I(1) by auto
      then have same: "f i = f (chosen ! s)" using eq s(2) Some by simp
      then have m: "map f (if sc ! (chosen ! s) < sc ! i then chosen[s := i] else chosen) = map f chosen"
        using s(1) by (simp add: map_update list_update_same_conv)
      have "f ` insert i pre = f ` pre" using same \<open>chosen ! s \<in> pre\<close> by auto
      then have n: "sorted_wrt (<) (map f (if sc ! (chosen ! s) < sc ! i then chosen[s := i] else chosen))"
        "f ` set (if sc ! (chosen ! s) < sc ! i then chosen[s := i] else chosen) = f ` insert i pre"
        unfolding set_map [symmetric] m using Cons.prems(7,8) by simp_all
      show ?thesis using Cons.IH [OF b i(2,3) Cons.prems(4) srt(1) upper n] Some slot i(4) by simp
    qed
  qed
qed auto

lemma members_ordinal: "(n, i) \<in> set (members_of (from_titles titles)) \<Longrightarrow> the (ord (from_titles titles ! i)) = n"
proof -
  assume "(n, i) \<in> set (members_of (from_titles titles))"
  then obtain j where j: "j < length titles" "ord (from_titles titles ! j) = Some n" "index (from_titles titles ! j) = i"
    unfolding members_of_set by (metis set_from_titles)
  then show ?thesis by simp
qed

text \<open>
C14: Episodes are selected exactly on proof, and then completely: the answer is a list of titles only when the evidence
proves a roster of \<open>k\<close> episodes, and then it is episode 0 to \<open>k - 1\<close> in this order, one title for each, and
no other title of the same episode covers more of the wanted languages; without the proof the answer is a review.
\<close>

theorem episodes_exact:
  "case select L Episodes aud pres (from_titles titles) of
     Inl review \<Rightarrow> \<not> (\<exists>k. authored_roster titles k)
   | Inr rs \<Rightarrow> (\<exists>k. authored_roster titles k \<and> map (episode titles) rs = map Some [0..<k]) \<and>
       (\<forall>i < length titles. \<forall>n. episode titles i = Some n \<longrightarrow>
          scores L aud pres (from_titles titles) ! i \<le> scores L aud pres (from_titles titles) ! (rs ! n))"
proof (cases "episode_roster (from_titles titles)")
  case (Inl e)
  then show ?thesis using episode_roster_ok [OF indexed_from_titles, of titles] by (simp add: select_def roster_good_titles)
next
  case (Inr ms)
  let ?ts = "from_titles titles"
  let ?sc = "scores L aud pres ?ts" and ?f = "\<lambda>i. the (ord (?ts ! i))"
  have ms: "ms = map snd (sort_key fst (members_of ?ts))" and ex: "\<exists>k. roster_good ?ts k"
    using episode_roster_ok [OF indexed_from_titles, of titles] Inr by simp_all
  obtain k where k: "roster_good ?ts k" "authored_roster titles k" using ex roster_good_titles by blast
  have mem: "i \<in> set ms \<longleftrightarrow> i < length titles \<and> episode titles i \<noteq> None" for i
    using members_ok(3) [OF indexed_from_titles, of i titles] unfolding ms [symmetric] by auto
  have d: "distinct ms" using members_ok(1) [OF indexed_from_titles, of titles] unfolding ms [symmetric] .
  have "map ?f ms = map fst (sort_key fst (members_of ?ts))"
    unfolding ms using members_ordinal by (auto simp del: from_titles_simps(3))
  then have srt: "sorted (map ?f ms)" by (simp add: sorted_sort_key)
  have agree: "sorted_wrt agree ?ts" using k(1) by (simp add: roster_good_def titles_ok_def)
  have E: "?f i = ?f j \<longleftrightarrow> pres_at ?ts i = pres_at ?ts j \<and> pres_at ?ts j \<noteq> None" if ij: "i \<in> set ms" "j \<in> set ms" "i \<noteq> j" for i j
  proof -
    have "agree (?ts ! i) (?ts ! j) \<or> agree (?ts ! j) (?ts ! i)"
      using agree ij mem by (simp add: sorted_wrt_iff_nth_less del: from_titles_simps(3)) (metis linorder_neqE_nat)
    then show ?thesis using ij mem by (auto simp: agree_def)
  qed
  let ?rs = "representatives ?ts ms ?sc"
  obtain groups where rep: "rep_inv ?ts ?sc (set ms) groups ?rs" using representatives_ok [OF d] .
  have init: "rep_inv ?ts ?sc {} [] []" by (simp add: rep_inv_def)
  have "sorted_wrt (<) (map ?f ?rs) \<and> ?f ` set ?rs = ?f ` set ms"
    using represent_order [OF init d, of ?f] E srt by (simp add: representatives_def)
  then have ord: "sorted_wrt (<) (map ?f ?rs)" "set (map ?f ?rs) = ?f ` set ms" by simp_all
  have "?f ` set ms = {..<k}"
  proof -
    have "n \<in> ?f ` set ms \<longleftrightarrow> (\<exists>i < length titles. episode titles i = Some n)" for n using mem by (auto simp: image_iff) force+
    then show ?thesis using k(2) by (auto simp: authored_roster_def)
  qed
  then have "map ?f ?rs = [0..<k]"
    using ord strict_sorted_equal [of "map ?f ?rs" "[0..<k]"] by (simp add: lessThan_atLeast0)
  then have nth: "length ?rs = k" "\<And>n. n < k \<Longrightarrow> ?f (?rs ! n) = n"
    by (auto dest: arg_cong [of _ _ length] simp: list_eq_iff_nth_eq)
  have sub: "set ?rs \<subseteq> set ms" using rep_invD(1) [OF rep] .
  have eps: "map (episode titles) ?rs = map Some [0..<k]"
  proof (rule nth_equalityI)
    fix n assume "n < length (map (episode titles) ?rs)"
    then have n: "n < k" using nth(1) by simp
    then have r: "?rs ! n \<in> set ms" using sub nth(1) by auto
    then have "?rs ! n < length titles" "episode titles (?rs ! n) \<noteq> None" using mem by auto
    then have "episode titles (?rs ! n) = Some n" using nth(2) [OF n] by auto
    then show "map (episode titles) ?rs ! n = map Some [0..<k] ! n" using n nth(1) by simp
  qed (simp add: nth(1))
  have best: "?sc ! i \<le> ?sc ! (?rs ! n)" if i: "i < length titles" "episode titles i = Some n" for i n
  proof -
    have im: "i \<in> set ms" using mem i by simp
    have "n < k" using k(2) i unfolding authored_roster_def by blast
    obtain s where s: "s < length ?rs" "?f (?rs ! s) = n" "?sc ! i \<le> ?sc ! (?rs ! s)"
    proof (cases "pres_at ?ts i")
      case None
      then have "i \<in> set ?rs" using rep_invD(8) [OF rep im] by blast
      then obtain s where "s < length ?rs" "?rs ! s = i" by (auto simp: in_set_conv_nth)
      then show thesis using that i by auto
    next
      case (Some p)
      then obtain s where s: "map_of groups p = Some s" using rep_invD(3) [OF rep, of p] im by fastforce
      have s': "s < length ?rs" "pres_at ?ts (?rs ! s) = Some p" "?sc ! i \<le> ?sc ! (?rs ! s)"
        using rep_invD(4,5) [OF rep s] rep_invD(6) [OF rep s im Some] by blast+
      have "?rs ! s \<in> set ms" using sub s'(1) by auto
      then have "?f (?rs ! s) = ?f i" using E [OF _ im, of "?rs ! s"] s'(2) Some by (cases "?rs ! s = i") auto
      then show thesis using that s' i by simp
    qed
    then have "s = n" using nth by auto
    then show ?thesis using s(3) by simp
  qed
  show ?thesis using Inr k(2) eps best by (auto simp: select_def)
qed

text \<open>Three playlists: the first episode, the second in English, the second again with French sound.\<close>

definition sample_lang :: "string Isolang" where
  "sample_lang = \<lparr>from_639_1 = (\<lambda>s. None), from_639_3 = (\<lambda>s. if s = ''eng'' \<or> s = ''fra'' then Some s else None),
     from_name_lowercase = (\<lambda>s. if s = ''french'' then Some ''fra'' else None), und = ''und''\<rparr>"

definition sample_title :: "nat \<Rightarrow> nat \<Rightarrow> string \<Rightarrow> nat \<Rightarrow> nat DiscTitle" where
  "sample_title list_id content lang n =
     \<lparr>audio_streams = [\<lparr>a_pid = 4352, a_language = lang\<rparr>], subtitle_streams = [], d_playlist_id = list_id, d_duration_secs = Fin 1500,
      d_segments = [\<lparr>seg_content = content, seg_start = 0, seg_end = 1500\<rparr>], d_episodes = Authored ''r'' 3 (Some n)\<rparr>"

definition sample_titles :: "nat DiscTitle list" where
  "sample_titles = [sample_title 1 10 ''eng'' 0, sample_title 2 11 ''eng'' 1, sample_title 3 11 ''fra'' 1]"

lemma sample_episodes: "select sample_lang Episodes (Langs [''fre'']) None (from_titles sample_titles) = Inr [0, 2]"
  by code_simp

theorem episodes_exact_witness:
  "select sample_lang Episodes (Langs [''fre'']) None (from_titles sample_titles) = Inr [0, 2] \<and>
     (\<exists>k. authored_roster sample_titles k \<and> map (episode sample_titles) [0, 2] = map Some [0..<k])"
  using episodes_exact [where L = sample_lang and aud = "Langs [''fre'']" and pres = None and titles = sample_titles] sample_episodes by simp

end
