(* ===== verification/Preflight.thy ===== *)
theory Preflight
  imports SelectionProps
begin

text \<open>
  The check of a job against a scanned disc (\<open>src/src/preflight.rs\<close>) and what its verdict and the stream
  policy of \<open>src/src/streams.rs\<close> promise: a job that is ready selects titles the disc has, keeps the streams it
  asks for and loses no class of streams silently. A key set is a parameter, with the two questions the
  engine asks the disc library about it.
\<close>

subsection \<open>The check\<close>

datatype KeyScope = WholeDisc | ScopeTitles "nat list" | ScopeNone

datatype DecryptStatus = KeysReady | NotEncrypted | KeysMissing

record 'k KeyLib =
  decrypt_status :: "'k \<Rightarrow> DecryptStatus"
  covers :: "'k \<Rightarrow> KeyScope \<Rightarrow> bool"
  decryptable_without_keys :: bool

datatype RipMode = Single | Multi

record 'k Job =
  j_selection :: Selection
  j_mode :: RipMode
  j_raw :: bool
  j_streams :: StreamChoice
  j_keys :: "'k option"

record Reason =
  r_key :: string
  r_detail :: "string option"

datatype Preflight = Ready | Blocked "Reason list"

definition mk_reason :: "string \<Rightarrow> Reason" where
  "mk_reason k = \<lparr>r_key = k, r_detail = None\<rparr>"

definition reason_with :: "string \<Rightarrow> string \<Rightarrow> Reason" where
  "reason_with k d = \<lparr>r_key = k, r_detail = Some d\<rparr>"

definition range_reasons :: "Selection \<Rightarrow> nat \<Rightarrow> Reason list" where
  "range_reasons sel n =
     (case sel of
        Titles is \<Rightarrow>
          (if is = [] then [mk_reason ''empty-selection''] else []) @
          map (\<lambda>i. reason_with ''title-out-of-range'' (decimal i)) (filter (\<lambda>i. n \<le> i) is)
      | _ \<Rightarrow> [])"

definition keyed :: "'k KeyLib \<Rightarrow> 'k Job \<Rightarrow> nat list \<Rightarrow> bool" where
  "keyed K job resolved =
     (case j_keys job of
        Some ring \<Rightarrow>
          (decrypt_status K ring = KeysReady \<or> decrypt_status K ring = NotEncrypted) \<and>
          covers K ring (case j_mode job of Multi \<Rightarrow> WholeDisc | Single \<Rightarrow> ScopeTitles resolved)
      | None \<Rightarrow> decryptable_without_keys K)"

definition preflight ::
  "'l Isolang \<Rightarrow> 'k KeyLib \<Rightarrow> bool \<Rightarrow> 'c DiscTitle list \<Rightarrow> 'k Job \<Rightarrow> Preflight" where
  "preflight L K encrypted titles job =
     (if titles = [] then Blocked [mk_reason ''no-titles'']
      else
        (let r1 = range_reasons (j_selection job) (length titles);
             res = resolve_selection L titles (j_selection job) (audio (j_streams job)) None;
             r2 = r1 @ (case res of Inl review \<Rightarrow> [reason_with ''selection-review-required'' (review_key (reason review))] | Inr _ \<Rightarrow> []);
             resolved = (case res of Inr is \<Rightarrow> is | Inl _ \<Rightarrow> []);
             r3 = (if r2 = [] \<and> resolved = [] then [mk_reason ''empty-selection''] else r2);
             r4 = (if r3 = [] then map (reason_with ''unknown-language'') (unknown_language_tags L (j_streams job)) else r3);
             r5 = (if r4 = []
                   then map (reason_with ''language-unmatched'')
                          (unmatched_everywhere L (j_streams job) (map (\<lambda>i. TitleTracks.truncate (titles ! i)) (filter (\<lambda>i. i < length titles) resolved)))
                   else r4);
             r6 = r5 @ (if encrypted \<and> \<not> j_raw job \<and> \<not> keyed K job resolved then [mk_reason ''encrypted-no-key''] else [])
         in if r6 = [] then Ready else Blocked r6))"

subsection \<open>The stream policy\<close>

text \<open>Whether a filter asks for a stream with a language tag.\<close>

definition wanted :: "'l Isolang \<Rightarrow> StreamFilter \<Rightarrow> string \<Rightarrow> bool" where
  "wanted L f lang \<longleftrightarrow>
     (case f of All \<Rightarrow> True | NoStreams \<Rightarrow> False
      | Langs tags \<Rightarrow> (\<exists>l. stream_lang L lang = Some l \<and> (\<exists>t \<in> set tags. normalize_lang L t = Some l)))"

definition unknown_in :: "'l Isolang \<Rightarrow> StreamFilter \<Rightarrow> string list" where
  "unknown_in L f = (case f of Langs tags \<Rightarrow> filter (\<lambda>t. normalize_lang L t = None) tags | _ \<Rightarrow> [])"

lemma compile_tags_ok:
  "case compile_tags L ts of
     Inl e \<Rightarrow> (\<exists>t. e = UnknownLanguage t \<and> (\<exists>rest. filter (\<lambda>t. normalize_lang L t = None) ts = t # rest))
   | Inr ls \<Rightarrow> filter (\<lambda>t. normalize_lang L t = None) ts = [] \<and> (\<forall>l. l \<in> set ls \<longleftrightarrow> (\<exists>t \<in> set ts. normalize_lang L t = Some l))"
proof (induction ts)
  case (Cons t ts)
  then show ?case by (cases "normalize_lang L t"; cases "compile_tags L ts") auto
qed simp

lemma compile_ok:
  "case compile L f of
     Inl e \<Rightarrow> (\<exists>t rest. e = UnknownLanguage t \<and> unknown_in L f = t # rest)
   | Inr w \<Rightarrow> unknown_in L f = [] \<and> (\<forall>lang. keeps L w lang = wanted L f lang)"
proof (cases f)
  case (Langs tags)
  then show ?thesis using compile_tags_ok [of L tags]
    by (cases "compile_tags L tags") (auto simp: compile_def unknown_in_def keeps_def wanted_def split: option.splits)
qed (simp_all add: compile_def unknown_in_def keeps_def wanted_def)

text \<open>The unknown tags of a list, after those already found.\<close>

definition add_once :: "string list \<Rightarrow> string list \<Rightarrow> string list" where
  "add_once out xs = foldl (\<lambda>ys t. if t \<in> set ys then ys else ys @ [t]) out xs"

lemma add_once_simps [simp]:
  "add_once out [] = out" "add_once [] (x # xs) = add_once [x] xs"
  by (simp_all add: add_once_def)

lemma add_once_starts: "\<exists>rest. add_once (t # out) xs = t # rest"
  by (induction xs arbitrary: out) (auto simp: add_once_def)

lemma add_filter_ok: "add_filter L f out = add_once out (unknown_in L f)"
proof -
  have "add_unknown L ts out = add_once out (filter (\<lambda>t. normalize_lang L t = None) ts)" for ts
    by (induction L ts out rule: add_unknown.induct) (auto simp: add_once_def)
  then show ?thesis by (simp add: add_filter_def unknown_in_def split: StreamFilter.split)
qed

definition unknown_all :: "'l Isolang \<Rightarrow> StreamChoice \<Rightarrow> string list" where
  "unknown_all L c = unknown_in L (audio c) @ unknown_in L (normal (subtitles c)) @ unknown_in L (forced (subtitles c))"

lemma unknown_language_tags_ok:
  "unknown_all L c = [] \<Longrightarrow> unknown_language_tags L c = []"
  "unknown_all L c = t # ts \<Longrightarrow> \<exists>rest. unknown_language_tags L c = t # rest"
proof -
  have eq: "unknown_language_tags L c = add_once [] (unknown_all L c)"
    by (simp add: unknown_language_tags_def add_filter_ok unknown_all_def add_once_def)
  show "unknown_all L c = [] \<Longrightarrow> unknown_language_tags L c = []" using eq by simp
  show "unknown_all L c = t # ts \<Longrightarrow> \<exists>rest. unknown_language_tags L c = t # rest" using eq add_once_starts [of t "[]"] by simp
qed

text \<open>The PIDs a filter leaves of a class.\<close>

definition pids_of :: "PidFilter \<Rightarrow> nat list \<Rightarrow> nat list" where
  "pids_of f every = (case f of AllPids \<Rightarrow> every | Only ps \<Rightarrow> ps)"

lemma resolve_audio_ok:
  "case resolve_audio L t f of
     Inl e \<Rightarrow> (\<exists>tag rest. e = UnknownLanguage tag \<and> unknown_in L f = tag # rest)
   | Inr p \<Rightarrow> unknown_in L f = [] \<and> (p = AllPids \<longleftrightarrow> f = All) \<and>
       pids_of p (map a_pid (audio_streams t)) = map a_pid (filter (\<lambda>a. wanted L f (a_language a)) (audio_streams t))"
proof (cases "f = All")
  case False
  then show ?thesis using compile_ok [of L f] by (cases "compile L f") (auto simp: resolve_audio_def pids_of_def)
qed (simp add: resolve_audio_def unknown_in_def pids_of_def wanted_def)

lemma resolve_subtitles_ok:
  "case resolve_subtitles L t f of
     Inl e \<Rightarrow> (\<exists>tag rest. e = UnknownLanguage tag \<and> unknown_in L (normal f) @ unknown_in L (forced f) = tag # rest)
   | Inr p \<Rightarrow> unknown_in L (normal f) @ unknown_in L (forced f) = [] \<and> (p = AllPids \<longleftrightarrow> normal f = All \<and> forced f = All) \<and>
       pids_of p (map s_pid (subtitle_streams t)) =
         map s_pid (filter (\<lambda>s. wanted L (if s_forced s then forced f else normal f) (s_language s)) (subtitle_streams t))"
proof (cases "normal f = All \<and> forced f = All")
  case False
  have "keeps L (if b then v else w) lang = (if b then keeps L v lang else keeps L w lang)"
    "wanted L (if b then g else h) lang = (if b then wanted L g lang else wanted L h lang)" for b v w g h lang by simp_all
  then show ?thesis using False compile_ok [of L "normal f"] compile_ok [of L "forced f"]
    by (cases "compile L (normal f)"; cases "compile L (forced f)") (auto simp: resolve_subtitles_def pids_of_def)
qed (simp add: resolve_subtitles_def unknown_in_def pids_of_def wanted_def)

lemma choice_resolve_ok:
  "case choice_resolve L c t of
     Inl (UnknownLanguage tag) \<Rightarrow> \<exists>rest. unknown_language_tags L c = tag # rest
   | Inr s \<Rightarrow> unknown_language_tags L c = [] \<and>
       (is_all c = (sel_audio s = AllPids \<and> sel_subtitle s = AllPids)) \<and>
       pids_of (sel_audio s) (map a_pid (audio_streams t)) =
         map a_pid (filter (\<lambda>a. wanted L (audio c) (a_language a)) (audio_streams t)) \<and>
       pids_of (sel_subtitle s) (map s_pid (subtitle_streams t)) =
         map s_pid (filter (\<lambda>x. wanted L (if s_forced x then forced (subtitles c) else normal (subtitles c)) (s_language x))
           (subtitle_streams t))"
proof (cases "resolve_audio L t (audio c)")
  case (Inl e)
  then show ?thesis using resolve_audio_ok [where L = L and t = t and f = "audio c"] unknown_language_tags_ok [of L c]
    by (auto simp: choice_resolve_def resolve_stream_selection_forced_def unknown_all_def)
next
  case a: (Inr p)
  show ?thesis
  proof (cases "resolve_subtitles L t (subtitles c)")
    case (Inl e)
    then show ?thesis using a resolve_audio_ok [where L = L and t = t and f = "audio c"] resolve_subtitles_ok [where L = L and t = t and f = "subtitles c"] unknown_language_tags_ok [of L c]
      by (auto simp: choice_resolve_def resolve_stream_selection_forced_def unknown_all_def)
  next
    case (Inr q)
    have "unknown_all L c = []" using a Inr resolve_audio_ok [where L = L and t = t and f = "audio c"] resolve_subtitles_ok [where L = L and t = t and f = "subtitles c"]
      by (simp add: unknown_all_def)
    then show ?thesis
      using a Inr resolve_audio_ok [where L = L and t = t and f = "audio c"] resolve_subtitles_ok [where L = L and t = t and f = "subtitles c"] unknown_language_tags_ok(1) [of L c]
      by (simp add: choice_resolve_def resolve_stream_selection_forced_def is_all_def)
  qed
qed

text \<open>
C15: The stream choice of a job is translated exactly: it fails only on a tag no language answers to, and then names the
first one that the check of the job lists; else it keeps, in their order, exactly the audio streams one of the audio
tags asks for, and of the subtitles the forced ones by the forced list and the others by the normal list.
\<close>

theorem stream_selection_exact:
  "case choice_resolve L c t of
     Inl (UnknownLanguage tag) \<Rightarrow> \<exists>rest. unknown_language_tags L c = tag # rest
   | Inr s \<Rightarrow> unknown_language_tags L c = [] \<and>
       (is_all c = (sel_audio s = AllPids \<and> sel_subtitle s = AllPids)) \<and>
       pids_of (sel_audio s) (map a_pid (audio_streams t)) =
         map a_pid (filter (\<lambda>a. wanted L (audio c) (a_language a)) (audio_streams t)) \<and>
       pids_of (sel_subtitle s) (map s_pid (subtitle_streams t)) =
         map s_pid (filter (\<lambda>x. wanted L (if s_forced x then forced (subtitles c) else normal (subtitles c)) (s_language x))
           (subtitle_streams t))"
  by (rule choice_resolve_ok)

subsection \<open>The verdict\<close>

lemma check_class_ok:
  "fst (check_class L t f k) = Missed \<longleftrightarrow> (\<exists>tags. f = Langs tags) \<and> class_languages t k \<noteq> [] \<and> (\<forall>l \<in> set (class_languages t k). \<not> wanted L f l)"
  "fst (check_class L t f k) = Matched \<longleftrightarrow> (\<exists>tags. f = Langs tags) \<and> (\<exists>l \<in> set (class_languages t k). wanted L f l)"
proof -
  have any: "list_ex (\<lambda>l. case stream_lang L l of None \<Rightarrow> False | Some pl \<Rightarrow> pl \<in> set (List.map_filter (normalize_lang L) tags)) ls \<longleftrightarrow>
      (\<exists>l \<in> set ls. wanted L (Langs tags) l)" for tags ls
    by (auto simp: list_ex_iff wanted_def map_filter_def image_iff split: option.splits) (metis option.sel)+
  show "fst (check_class L t f k) = Missed \<longleftrightarrow> (\<exists>tags. f = Langs tags) \<and> class_languages t k \<noteq> [] \<and> (\<forall>l \<in> set (class_languages t k). \<not> wanted L f l)"
    "fst (check_class L t f k) = Matched \<longleftrightarrow> (\<exists>tags. f = Langs tags) \<and> (\<exists>l \<in> set (class_languages t k). wanted L f l)"
    by (auto simp: check_class_def any Let_def split: StreamFilter.splits)
qed

text \<open>Each class filtered by language that a title carries is kept on some title.\<close>

definition classes_kept :: "'l Isolang \<Rightarrow> StreamChoice \<Rightarrow> TitleTracks list \<Rightarrow> bool" where
  "classes_kept L c ts \<longleftrightarrow> (\<forall>k tags. (k, Langs tags) \<in> set (classes c) \<longrightarrow> (\<exists>t \<in> set ts. class_languages t k \<noteq> []) \<longrightarrow>
      (\<exists>t \<in> set ts. \<exists>l \<in> set (class_languages t k). wanted L (Langs tags) l))"

lemma unmatched_everywhere_ok: "unmatched_everywhere L c ts = [] \<longleftrightarrow> classes_kept L c ts"
proof -
  have one: "(\<exists>t \<in> set ts. fst (check_class L t f k) = Missed) \<and> \<not> (\<exists>t \<in> set ts. fst (check_class L t f k) = Matched) \<longleftrightarrow>
      (\<exists>tags. f = Langs tags) \<and> (\<exists>t \<in> set ts. class_languages t k \<noteq> []) \<and>
      \<not> (\<exists>t \<in> set ts. \<exists>l \<in> set (class_languages t k). wanted L f l)" for k f
    unfolding check_class_ok by blast
  have "unmatched_everywhere L c ts = [] \<longleftrightarrow> (\<forall>k f. (k, f) \<in> set (classes c) \<longrightarrow>
      \<not> ((\<exists>t \<in> set ts. fst (check_class L t f k) = Missed) \<and> \<not> (\<exists>t \<in> set ts. fst (check_class L t f k) = Matched)))"
    by (auto simp: unmatched_everywhere_def filter_empty_conv list_ex_iff)
  also have "\<dots> \<longleftrightarrow> classes_kept L c ts" unfolding one classes_kept_def by blast
  finally show ?thesis .
qed

lemma resolves_iff: "(\<exists>s. choice_resolve L c t = Inr s) \<longleftrightarrow> unknown_language_tags L c = []"
  using choice_resolve_ok [of L c t] by (cases "choice_resolve L c t") (auto split: StreamSelError.splits)

lemma range_reasons_ok:
  assumes "resolve_selection L titles sel aud pres = Inr is" and "is \<noteq> []"
  shows "range_reasons sel (length titles) = [] \<longleftrightarrow> (case sel of Titles xs \<Rightarrow> set xs = set is | _ \<Rightarrow> True)"
proof (cases sel)
  case (Titles xs)
  have run: "is = in_range_once (length titles) [] xs" using assms(1) Titles by (simp add: resolve_selection_def select_def)
  have eq: "set is = {i \<in> set xs. i < length titles}" using in_range_once_ok [of "length titles" "[]" xs] run by simp
  have "xs \<noteq> []" using assms(2) run by (cases xs) simp_all
  then have "range_reasons sel (length titles) = [] \<longleftrightarrow> (\<forall>i \<in> set xs. i < length titles)"
    using Titles by (auto simp: range_reasons_def filter_empty_conv)
  also have "\<dots> \<longleftrightarrow> set xs = set is" unfolding eq by blast
  finally show ?thesis using Titles by simp
qed (simp_all add: range_reasons_def)

abbreviation tracks :: "'c DiscTitle \<Rightarrow> TitleTracks" where
  "tracks t \<equiv> TitleTracks.truncate t"

lemma preflight_ready_iff:
  "preflight L K encrypted titles job = Ready \<longleftrightarrow>
     titles \<noteq> [] \<and> range_reasons (j_selection job) (length titles) = [] \<and>
     (\<exists>is. resolve_selection L titles (j_selection job) (audio (j_streams job)) None = Inr is \<and> is \<noteq> [] \<and>
        unknown_language_tags L (j_streams job) = [] \<and>
        unmatched_everywhere L (j_streams job) (map (\<lambda>i. tracks (titles ! i)) (filter (\<lambda>i. i < length titles) is)) = [] \<and>
        \<not> (encrypted \<and> \<not> j_raw job \<and> \<not> keyed K job is))"
proof (cases "titles = []")
  case False
  show ?thesis
  proof (cases "resolve_selection L titles (j_selection job) (audio (j_streams job)) None")
    case (Inl review)
    then show ?thesis using False by (simp add: preflight_def Let_def)
  next
    case (Inr xs)
    show ?thesis using False Inr by (cases "range_reasons (j_selection job) (length titles) = []"; cases "xs = []";
        cases "unknown_language_tags L (j_streams job) = []") (simp_all add: preflight_def Let_def)
  qed
qed (simp add: preflight_def)

lemma resolve_selection_mem:
  "resolve_selection L titles sel aud pres = Inr is \<Longrightarrow> set is \<subseteq> {..<length titles}"
  using select_mem [where L = L and sel = sel and aud = aud and pres = pres and titles = titles] by (simp add: resolve_selection_def)

text \<open>
C13: A job is ready exactly when it can run: its selection picks at least one title, every title it names exists, its
stream choice can be translated for each of them, every class of streams it filters by language and that a chosen title
carries is kept on at least one of them, and an encrypted disc is copied raw or has its keys.
\<close>

theorem preflight_exact:
  "preflight L K encrypted titles job = Ready \<longleftrightarrow>
     (\<exists>is. resolve_selection L titles (j_selection job) (audio (j_streams job)) None = Inr is \<and> is \<noteq> [] \<and>
        (case j_selection job of Titles xs \<Rightarrow> set xs = set is | _ \<Rightarrow> True) \<and>
        (\<forall>i \<in> set is. \<exists>s. choice_resolve L (j_streams job) (tracks (titles ! i)) = Inr s) \<and>
        classes_kept L (j_streams job) (map (\<lambda>i. tracks (titles ! i)) is) \<and>
        (encrypted \<longrightarrow> j_raw job \<or> keyed K job is))"
proof -
  let ?res = "resolve_selection L titles (j_selection job) (audio (j_streams job)) None"
  have one: "range_reasons (j_selection job) (length titles) = [] \<and> unknown_language_tags L (j_streams job) = [] \<and>
      unmatched_everywhere L (j_streams job) (map (\<lambda>i. tracks (titles ! i)) (filter (\<lambda>i. i < length titles) xs)) = [] \<longleftrightarrow>
      (case j_selection job of Titles ys \<Rightarrow> set ys = set xs | _ \<Rightarrow> True) \<and>
      (\<forall>i \<in> set xs. \<exists>s. choice_resolve L (j_streams job) (tracks (titles ! i)) = Inr s) \<and>
      classes_kept L (j_streams job) (map (\<lambda>i. tracks (titles ! i)) xs)"
    if xs: "?res = Inr xs" "xs \<noteq> []" for xs
  proof -
    have "filter (\<lambda>i. i < length titles) xs = xs" using resolve_selection_mem [OF xs(1)] by (auto simp: filter_id_conv)
    moreover have "(\<forall>i \<in> set xs. \<exists>s. choice_resolve L (j_streams job) (tracks (titles ! i)) = Inr s) \<longleftrightarrow>
        unknown_language_tags L (j_streams job) = []" using xs(2) unfolding resolves_iff by (cases xs) auto
    ultimately show ?thesis using range_reasons_ok [OF xs] unmatched_everywhere_ok [of L "j_streams job"] by simp
  qed
  have "titles \<noteq> []" if "?res = Inr xs" "xs \<noteq> []" for xs using resolve_selection_mem [OF that(1)] that(2) by auto
  then show ?thesis unfolding preflight_ready_iff using one by blast
qed

text \<open>The French cut of both episodes of the sample disc, with its keys.\<close>

definition sample_job :: "unit Job" where
  "sample_job = \<lparr>j_selection = Episodes, j_mode = Single, j_raw = False,
     j_streams = \<lparr>audio = Langs [''French''], subtitles = split_same All\<rparr>, j_keys = Some ()\<rparr>"

definition sample_keys :: "unit KeyLib" where
  "sample_keys = \<lparr>decrypt_status = (\<lambda>_. KeysReady), covers = (\<lambda>_ scope. scope = ScopeTitles [0, 2]), decryptable_without_keys = False\<rparr>"

lemma sample_ready: "preflight sample_lang sample_keys True sample_titles sample_job = Ready"
  by code_simp

theorem preflight_exact_witness:
  "\<exists>is. resolve_selection sample_lang sample_titles Episodes (Langs [''French'']) None = Inr is \<and> is \<noteq> [] \<and> keyed sample_keys sample_job is"
  using preflight_exact [where L = sample_lang and K = sample_keys and encrypted = True and titles = sample_titles and job = sample_job]
    sample_ready by (auto simp: sample_job_def)

end
