(* ===== verification/Float64Ops.thy ===== *)
theory Float64Ops
  imports Float64
begin

text \<open>The methods of \<open>f64\<close> that ignore a NaN operand, absolute values and rounding to an integer.\<close>

definition f64_max :: "f64 \<Rightarrow> f64 \<Rightarrow> f64" where
  "f64_max x y = (if x = NaN then y else if y = NaN then x else if f64_less x y then y else x)"

definition f64_min :: "f64 \<Rightarrow> f64 \<Rightarrow> f64" where
  "f64_min x y = (if x = NaN then y else if y = NaN then x else if f64_less y x then y else x)"

definition f64_abs :: "f64 \<Rightarrow> f64" where
  "f64_abs x = (case x of NegInf \<Rightarrow> PosInf | Fin a \<Rightarrow> Fin \<bar>a\<bar> | _ \<Rightarrow> x)"

text \<open>Halves round away from zero.\<close>

definition f64_round :: "f64 \<Rightarrow> f64" where
  "f64_round x = (case x of Fin a \<Rightarrow> Fin (of_int (if 0 \<le> a then \<lfloor>a + 1 / 2\<rfloor> else \<lceil>a - 1 / 2\<rceil>)) | _ \<Rightarrow> x)"

end
