(* ===== verification/Remux.thy ===== *)
theory Remux
  imports SelectionProps Float64Ops
begin

text \<open>
  The verified remux of one title into a library file (\<open>src/src/remux.rs\<close>): mux beside the target, sync,
  verify, and only then move into place. Every file operation can fail, a stop can arrive at each check, and
  other processes may put a file at the target, or at a name an unpublished output is kept under, meanwhile.
  The mux, the reader of the muxed file and the lock are the library's: their outcomes are inputs.
\<close>

subsection \<open>Files\<close>

text \<open>A path is a folder and a name in it; a file is its bytes and its identity.\<close>

datatype path = Path (p_dir: string) (p_name: string)

record RFile =
  f_bytes :: "nat list"
  f_id :: nat

type_synonym rfs = "path \<Rightarrow> RFile option"

datatype io_kind = NotFoundKind | AlreadyExists | Unsupported | OtherKind nat

datatype verify_kind = VEmpty | NoTracks | NoRuntime | RuntimeMismatch f64 f64

datatype remux_error =
  Halted | TargetExists | StagingInvalid | UrlInvalid | NoTitles | TitleRange nat nat | MuxIncomplete nat
  | VerifyFailed verify_kind | CopySizeMismatch nat nat | TimedOut string | WorkerLost string
  | Io io_kind | Unpublished path io_kind | LibError nat

text \<open>An error of the disc library: a stop, or its code.\<close>

datatype lib_error = LibHalted | LibCode nat

definition lib_err :: "lib_error \<Rightarrow> remux_error" where
  "lib_err e = (case e of LibHalted \<Rightarrow> Halted | LibCode n \<Rightarrow> LibError n)"

definition lib_res :: "lib_error + 'a \<Rightarrow> remux_error + 'a" where
  "lib_res r = (case r of Inl e \<Rightarrow> Inl (lib_err e) | Inr a \<Rightarrow> Inr a)"

definition partial_path :: "path \<Rightarrow> path" where
  "partial_path t = Path (p_dir t) (p_name t @ ''.partial'')"

definition verified_path :: "path \<Rightarrow> path" where
  "verified_path t = Path (p_dir t) (p_name t @ ''.verified'')"

definition KEPT_NAMES :: nat where "KEPT_NAMES = 16"

definition kept_names :: "path \<Rightarrow> path list" where
  "kept_names t =
     [verified_path t] @
     map (\<lambda>n. Path (p_dir t) (p_name (verified_path t) @ ''.'' @ decimal n)) [1..<KEPT_NAMES] @
     map (\<lambda>n. Path (p_dir t) (''freemkv-remux-'' @ decimal n @ ''.verified'')) [1..<KEPT_NAMES + 1]"

subsection \<open>Waiting on a worker\<close>

text \<open>What one slice of the wait sees: the worker's result, its end without one, or nothing yet.\<close>

datatype 'r rx = Done 'r | Disconnected | Nothing

record 'r WaitObs =
  w_rx :: "'r rx"
  w_cancelled :: bool
  w_stalled :: bool

fun watch_worker :: "string \<Rightarrow> 'r WaitObs list \<Rightarrow> (remux_error + 'r) option" where
  "watch_worker op [] = None"
| "watch_worker op (o1 # os) =
     (case w_rx o1 of
        Done r \<Rightarrow> Some (Inr r)
      | Disconnected \<Rightarrow> Some (Inl (WorkerLost op))
      | Nothing \<Rightarrow>
          if w_cancelled o1 then Some (Inl Halted)
          else if w_stalled o1 then Some (Inl (TimedOut op))
          else watch_worker op os)"

subsection \<open>Verifying\<close>

record MkvProbe =
  p_tracks :: nat
  p_last_cue_secs :: "f64 option"
  p_duration_secs :: "f64 option"

definition RUNTIME_SLACK_SECS :: f64 where "RUNTIME_SLACK_SECS = Fin 10"
definition RUNTIME_SLACK_FRACTION :: f64 where "RUNTIME_SLACK_FRACTION = round64 (1 / 50)"

definition muxed_runtime :: "MkvProbe \<Rightarrow> f64 option" where
  "muxed_runtime p = or_else (p_last_cue_secs p) (p_duration_secs p)"

definition check_probe :: "f64 \<Rightarrow> MkvProbe \<Rightarrow> remux_error + MkvProbe" where
  "check_probe expected p =
     (if p_tracks p = 0 then Inl (VerifyFailed NoTracks)
      else if is_finite expected \<and> f64_less (Fin 0) expected
      then (case Option.bind (muxed_runtime p) (\<lambda>r. if is_finite r then Some r else None) of
              None \<Rightarrow> Inl (VerifyFailed NoRuntime)
            | Some runtime \<Rightarrow>
                (let slack = f64_max RUNTIME_SLACK_SECS (f64_mul expected RUNTIME_SLACK_FRACTION)
                 in if f64_less slack (f64_abs (f64_sub runtime expected))
                    then Inl (VerifyFailed (RuntimeMismatch runtime expected)) else Inr p))
      else Inr p)"

definition nonempty_len :: "path \<Rightarrow> io_kind option \<Rightarrow> rfs \<Rightarrow> remux_error + nat" where
  "nonempty_len p err f =
     (case err of
        Some k \<Rightarrow> Inl (Io k)
      | None \<Rightarrow>
          (case f p of
             None \<Rightarrow> Inl (Io NotFoundKind)
           | Some x \<Rightarrow> if f_bytes x = [] then Inl (VerifyFailed VEmpty) else Inr (length (f_bytes x))))"

text \<open>The verify on its worker: the probe reads the bytes of the file. \<open>None\<close>: it never returns.\<close>

record VerifyEnv =
  ve_stat :: "io_kind option"
  ve_open :: "io_kind option"
  ve_spawn :: "io_kind option"
  ve_wait :: "unit WaitObs list"

type_synonym probe_fn = "nat list \<Rightarrow> lib_error + MkvProbe"

definition verify_watched :: "probe_fn \<Rightarrow> VerifyEnv \<Rightarrow> f64 \<Rightarrow> path \<Rightarrow> rfs \<Rightarrow> (remux_error + MkvProbe) option" where
  "verify_watched probe e expected p f =
     (case nonempty_len p (ve_stat e) f of
        Inl x \<Rightarrow> Some (Inl x)
      | Inr _ \<Rightarrow>
          (case (ve_open e, ve_spawn e) of
             (Some k, _) \<Rightarrow> Some (Inl (Io k))
           | (None, Some k) \<Rightarrow> Some (Inl (Io k))
           | (None, None) \<Rightarrow>
               map_option (\<lambda>r. bind_res r (\<lambda>_. bind_res (lib_res (probe (f_bytes (the (f p))))) (check_probe expected)))
                 (watch_worker ''verify'' (ve_wait e))))"

text \<open>\<open>verify_mkv\<close>: the same checks without the worker.\<close>

definition verify_mkv :: "probe_fn \<Rightarrow> io_kind option \<Rightarrow> io_kind option \<Rightarrow> f64 \<Rightarrow> path \<Rightarrow> rfs \<Rightarrow> remux_error + MkvProbe" where
  "verify_mkv probe stat_err open_err expected p f =
     bind_res (nonempty_len p stat_err f)
       (\<lambda>_. case open_err of Some k \<Rightarrow> Inl (Io k) | None \<Rightarrow> bind_res (lib_res (probe (f_bytes (the (f p))))) (check_probe expected))"

subsection \<open>The staged copy\<close>

text \<open>
  The worker's loop over the sizes its reads return; a read of nothing is the end of the file. \<open>None\<close>: the
  reads run out before the end.
\<close>

datatype chunk = Quit | ReadErr io_kind | WriteErr nat io_kind | Chunk nat

fun copy_all :: "chunk list \<Rightarrow> nat list \<Rightarrow> nat list \<Rightarrow> ((remux_error + nat) \<times> nat list) option" where
  "copy_all [] src dst = None"
| "copy_all (c # cs) src dst =
     (case c of
        Quit \<Rightarrow> Some (Inl Halted, dst)
      | ReadErr k \<Rightarrow> Some (Inl (Io k), dst)
      | WriteErr n k \<Rightarrow> Some (Inl (Io k), dst @ take n src)
      | Chunk n \<Rightarrow>
          (let n = min n (length src)
           in if n = 0 then Some (Inr (length dst), dst) else copy_all cs (drop n src) (dst @ take n src)))"

record CopyEnv =
  cp_open :: "io_kind option"
  cp_create :: "io_kind option"
  cp_id :: nat
  cp_spawn :: "io_kind option"
  cp_wait :: "unit WaitObs list"
  cp_chunks :: "chunk list"
  cp_part :: nat
  cp_truncated :: bool
  cp_stat :: "io_kind option"

definition set_bytes :: "path \<Rightarrow> nat list \<Rightarrow> rfs \<Rightarrow> rfs" where
  "set_bytes p bs f = (case f p of None \<Rightarrow> f | Some x \<Rightarrow> f(p \<mapsto> x\<lparr>f_bytes := bs\<rparr>))"

text \<open>A worker given up on leaves part of the copy, and the local stage is emptied.\<close>

definition copy_staged :: "CopyEnv \<Rightarrow> path \<Rightarrow> path \<Rightarrow> rfs \<Rightarrow> ((remux_error + unit) \<times> rfs) option" where
  "copy_staged e source dest f =
     (case (cp_open e, f source) of
        (Some k, _) \<Rightarrow> Some (Inl (Io k), f)
      | (None, None) \<Rightarrow> Some (Inl (Io NotFoundKind), f)
      | (None, Some x) \<Rightarrow>
          if cp_create e \<noteq> None then Some (Inl (Io (the (cp_create e))), f)
          else if f dest \<noteq> None then Some (Inl (Io AlreadyExists), f)
          else
            (let f1 = f(dest \<mapsto> \<lparr>f_bytes = [], f_id = cp_id e\<rparr>)
             in case cp_spawn e of Some k \<Rightarrow> Some (Inl (Io k), f1)
              | None \<Rightarrow>
                  (case watch_worker ''copy'' (cp_wait e) of
                     None \<Rightarrow> None
                   | Some (Inl err) \<Rightarrow>
                       (let f2 = set_bytes dest (take (cp_part e) (f_bytes x)) f1
                        in Some (Inl err, if cp_truncated e then set_bytes source [] f2 else f2))
                   | Some (Inr _) \<Rightarrow>
                       (case copy_all (cp_chunks e) (f_bytes x) [] of
                          None \<Rightarrow> None
                        | Some (Inl err, bs) \<Rightarrow> Some (Inl err, set_bytes dest bs f1)
                        | Some (Inr n, bs) \<Rightarrow>
                            (let f2 = set_bytes dest bs f1; total = length (f_bytes x)
                             in if n \<noteq> total then Some (Inl (CopySizeMismatch n total), f2)
                                else case cp_stat e of
                                       Some k \<Rightarrow> Some (Inl (Io k), f2)
                                     | None \<Rightarrow> if length bs \<noteq> total then Some (Inl (CopySizeMismatch (length bs) total), f2)
                                               else Some (Inr (), f2))))))"

subsection \<open>Publishing\<close>

definition remove_stale_partial :: "io_kind option \<Rightarrow> path \<Rightarrow> rfs \<Rightarrow> (remux_error + unit) \<times> rfs" where
  "remove_stale_partial err p f =
     (if f p = None then (Inr (), f)
      else case err of Some NotFoundKind \<Rightarrow> (Inr (), f) | Some k \<Rightarrow> (Inl (Io k), f) | None \<Rightarrow> (Inr (), f(p := None)))"

text \<open>\<open>symlink_metadata\<close>, whose errors are no answer.\<close>

definition target_present :: "io_kind option \<Rightarrow> path \<Rightarrow> rfs \<Rightarrow> remux_error + bool" where
  "target_present err t f =
     (case err of Some NotFoundKind \<Rightarrow> Inr False | Some k \<Rightarrow> Inl (Io k) | None \<Rightarrow> Inr (f t \<noteq> None))"

definition refuse_existing :: "bool \<Rightarrow> io_kind option \<Rightarrow> path \<Rightarrow> rfs \<Rightarrow> remux_error + unit" where
  "refuse_existing replace err t f =
     (if replace then Inr ()
      else bind_res (target_present err t f) (\<lambda>b. if b then Inl TargetExists else Inr ()))"

definition move_file :: "path \<Rightarrow> path \<Rightarrow> rfs \<Rightarrow> rfs" where
  "move_file a b f = f(b := f a, a := None)"

text \<open>The rename over the target, or the publish that fails when the target is there.\<close>

definition land :: "bool \<Rightarrow> io_kind option \<Rightarrow> path \<Rightarrow> path \<Rightarrow> rfs \<Rightarrow> (remux_error + unit) \<times> rfs" where
  "land replace err landing t f =
     (case (if \<not> replace \<and> f t \<noteq> None then Some AlreadyExists else err) of
        None \<Rightarrow> (Inr (), move_file landing t f)
      | Some k \<Rightarrow> (Inl (if k = AlreadyExists \<and> \<not> replace then TargetExists else Io k), f))"

record KeepEnv =
  kp_create :: "path \<Rightarrow> bool"
  kp_id :: "path \<Rightarrow> nat"
  kp_id_read :: "path \<Rightarrow> bool"
  kp_others :: "path \<Rightarrow> RFile option \<Rightarrow> RFile option"
  kp_rename :: "path \<Rightarrow> bool"
  kp_removed :: "path \<Rightarrow> bool"

definition keep_at :: "KeepEnv \<Rightarrow> path \<Rightarrow> path \<Rightarrow> rfs \<Rightarrow> bool \<times> rfs" where
  "keep_at e landing name f =
     (if f name \<noteq> None \<or> \<not> kp_create e name then (False, f)
      else
        (let placeholder = \<lparr>f_bytes = [], f_id = kp_id e name\<rparr>;
             f1 = f(name := kp_others e name (Some placeholder))
         in if kp_rename e name then (True, move_file landing name f1)
            else if kp_id_read e name \<and>
                    (case f1 name of None \<Rightarrow> False | Some x \<Rightarrow> f_bytes x = [] \<and> f_id x = kp_id e name) \<and> kp_removed e name
            then (False, f1(name := None)) else (False, f1)))"

fun keep_unpublished :: "KeepEnv \<Rightarrow> path \<Rightarrow> path list \<Rightarrow> rfs \<Rightarrow> path option \<times> rfs" where
  "keep_unpublished e landing [] f = (None, f)"
| "keep_unpublished e landing (n # ns) f =
     (case keep_at e landing n f of (True, f') \<Rightarrow> (Some n, f') | (False, f') \<Rightarrow> keep_unpublished e landing ns f')"

subsection \<open>Mux, verify, move into place\<close>

record MuxOutcome =
  completed :: bool
  m_halted :: bool

text \<open>An incomplete mux is never a written title; titles are counted from 1 in its error.\<close>

definition finished :: "bool \<Rightarrow> nat \<Rightarrow> MuxOutcome \<Rightarrow> remux_error + MuxOutcome" where
  "finished cancelled idx m =
     (if completed m then Inr m
      else if m_halted m \<or> cancelled then Inl Halted else Inl (MuxIncomplete (idx + 1)))"

record RemuxReport =
  rp_outcome :: MuxOutcome
  rp_verified :: MkvProbe
  rp_replaced :: bool

text \<open>\<open>v_written\<close> is what the mux left at the partial path; \<open>v_meanwhile\<close> and \<open>v_late\<close> are others at the target.\<close>

record LandEnv =
  v_utf8 :: bool
  v_lock :: "lib_error option"
  v_stale :: "io_kind option"
  v_written :: "RFile option"
  v_mux :: "lib_error + MuxOutcome"
  v_mux_cancelled :: bool
  v_sync :: "lib_error option"
  v_verify :: VerifyEnv
  v_stale2 :: "io_kind option"
  v_copy :: CopyEnv
  v_sync2 :: "lib_error option"
  v_verify2 :: VerifyEnv
  v_meanwhile :: "RFile option \<Rightarrow> RFile option"
  v_refuse :: "io_kind option"
  v_present :: "io_kind option"
  v_cancelled :: bool
  v_late :: "RFile option \<Rightarrow> RFile option"
  v_land :: "io_kind option"
  v_keep :: KeepEnv
  v_removed :: "path \<Rightarrow> bool"

definition at_path :: "path \<Rightarrow> (RFile option \<Rightarrow> RFile option) \<Rightarrow> rfs \<Rightarrow> rfs" where
  "at_path p g f = f(p := g (f p))"

text \<open>The replace phase, with the file to move. The flag says whether its guard still removes it.\<close>

definition publish_phase ::
  "LandEnv \<Rightarrow> bool \<Rightarrow> path \<Rightarrow> path \<Rightarrow> MuxOutcome \<Rightarrow> MkvProbe \<Rightarrow> rfs \<Rightarrow> (remux_error + RemuxReport) \<times> rfs \<times> bool" where
  "publish_phase e replace t landing m pr f0 =
     (let f = at_path t (v_meanwhile e) f0
      in case refuse_existing replace (v_refuse e) t f of
        Inl x \<Rightarrow> (Inl x, f, True)
      | Inr _ \<Rightarrow>
          (case target_present (v_present e) t f of
            Inl x \<Rightarrow> (Inl x, f, True)
          | Inr replaced \<Rightarrow>
              if v_cancelled e then (Inl Halted, f, True)
              else
                (let f = at_path t (v_late e) f
                 in case land replace (v_land e) landing t f of
                      (Inr _, f') \<Rightarrow> (Inr \<lparr>rp_outcome = m, rp_verified = pr, rp_replaced = replaced\<rparr>, f', False)
                    | (Inl x, f') \<Rightarrow>
                        if \<not> replace \<and> x = Io Unsupported
                        then (case keep_unpublished (v_keep e) landing (kept_names t) f' of
                                (Some kept, f'') \<Rightarrow> (Inl (Unpublished kept Unsupported), f'', False)
                              | (None, f'') \<Rightarrow> (Inl x, f'', True))
                        else (Inl x, f', True))))"

definition drop_partial :: "LandEnv \<Rightarrow> path \<Rightarrow> bool \<Rightarrow> rfs \<Rightarrow> rfs" where
  "drop_partial e p armed f = (if armed \<and> v_removed e p then f(p := None) else f)"

text \<open>The staged copy beside the target, verified again, then the replace phase from there.\<close>

definition staged_phase ::
  "probe_fn \<Rightarrow> LandEnv \<Rightarrow> bool \<Rightarrow> f64 \<Rightarrow> path \<Rightarrow> path \<Rightarrow> MuxOutcome \<Rightarrow> MkvProbe \<Rightarrow> rfs \<Rightarrow>
   ((remux_error + RemuxReport) \<times> rfs) option" where
  "staged_phase probe e replace expected t partial m pr f0 =
     (let tp = partial_path t
      in case remove_stale_partial (v_stale2 e) tp f0 of
        (Inl x, f) \<Rightarrow> Some (Inl x, f)
      | (Inr _, f) \<Rightarrow>
          map_option (\<lambda>(r, f, armed). (r, drop_partial e tp armed f))
            (case copy_staged (v_copy e) partial tp f of
               None \<Rightarrow> None
             | Some (Inl x, f) \<Rightarrow> Some (Inl x, f, True)
             | Some (Inr _, f) \<Rightarrow>
                 (case v_sync2 e of
                    Some x \<Rightarrow> Some (Inl (lib_err x), f, True)
                  | None \<Rightarrow>
                      (case verify_watched probe (v_verify2 e) expected tp f of
                         None \<Rightarrow> None
                       | Some (Inl x) \<Rightarrow> Some (Inl x, f, True)
                       | Some (Inr _) \<Rightarrow> Some (publish_phase e replace t tp m pr f)))))"

definition land_verified ::
  "probe_fn \<Rightarrow> LandEnv \<Rightarrow> bool \<Rightarrow> nat \<Rightarrow> f64 \<Rightarrow> path \<Rightarrow> path option \<Rightarrow> rfs \<Rightarrow>
   ((remux_error + RemuxReport) \<times> rfs) option" where
  "land_verified probe e replace idx expected t staged f0 =
     (let tp = partial_path t; partial = (case staged of None \<Rightarrow> tp | Some p \<Rightarrow> p)
      in if partial = t \<or> (staged \<noteq> None \<and> partial = tp) then Some (Inl StagingInvalid, f0)
         else if \<not> v_utf8 e then Some (Inl UrlInvalid, f0)
         else case v_lock e of Some x \<Rightarrow> Some (Inl (lib_err x), f0)
         | None \<Rightarrow>
           (case remove_stale_partial (v_stale e) partial f0 of
              (Inl x, f) \<Rightarrow> Some (Inl x, f)
            | (Inr _, f1) \<Rightarrow>
                (let f = f1(partial := v_written e); keep = (\<lambda>(r, f). (r, f, True))
                 in map_option (\<lambda>(r, f, armed). (r, drop_partial e partial armed f))
                  (case bind_res (lib_res (v_mux e)) (finished (v_mux_cancelled e) idx) of
                     Inl x \<Rightarrow> Some (Inl x, f, True)
                   | Inr m \<Rightarrow>
                       (case v_sync e of
                          Some x \<Rightarrow> Some (Inl (lib_err x), f, True)
                        | None \<Rightarrow>
                            (case verify_watched probe (v_verify e) expected partial f of
                               None \<Rightarrow> None
                             | Some (Inl x) \<Rightarrow> Some (Inl x, f, True)
                             | Some (Inr pr) \<Rightarrow>
                                 if staged = None then Some (publish_phase e replace t partial m pr f)
                                 else map_option keep (staged_phase probe e replace expected t partial m pr f)))))))"

subsection \<open>The whole remux\<close>

definition pick_title ::
  "'l Isolang \<Rightarrow> 'c DiscTitle list \<Rightarrow> nat option \<Rightarrow> StreamFilter \<Rightarrow> remux_error + nat" where
  "pick_title L titles want aud =
     (if titles = [] then Inl NoTitles
      else case (case want of Some i \<Rightarrow> if i < length titles then Some i else None
                 | None \<Rightarrow> main_title L aud None (from_titles titles)) of
             Some i \<Rightarrow> Inr i
           | None \<Rightarrow> Inl (TitleRange (case want of Some i \<Rightarrow> i | None \<Rightarrow> 0) (length titles)))"

definition title_selection :: "'l Isolang \<Rightarrow> 'c DiscTitle \<Rightarrow> StreamChoice \<Rightarrow> StreamSelError + StreamSelection" where
  "title_selection L t c =
     (if is_all c then Inr \<lparr>sel_audio = AllPids, sel_subtitle = AllPids\<rparr>
      else choice_resolve L c (TitleTracks.truncate t))"

end
