(* ===== verification/RemuxProps.thy ===== *)
theory RemuxProps
  imports Remux
begin

text \<open>
  A remux never damages the library: the target holds either what others left there or a file that was
  muxed to its end, synced and verified.
\<close>

subsection \<open>Names and frames\<close>

lemma partial_not_target: "partial_path t \<noteq> t"
  by (cases t) (simp add: partial_path_def)

definition good_file :: "probe_fn \<Rightarrow> f64 \<Rightarrow> RFile \<Rightarrow> MkvProbe \<Rightarrow> bool" where
  "good_file probe expected x pr \<longleftrightarrow> f_bytes x \<noteq> [] \<and> bind_res (lib_res (probe (f_bytes x))) (check_probe expected) = Inr pr"

lemma verify_ok:
  "verify_watched probe ve expected p f = Some (Inr pr) \<Longrightarrow> \<exists>x. f p = Some x \<and> good_file probe expected x pr"
  by (auto simp: verify_watched_def nonempty_len_def good_file_def split: option.splits if_splits sum.splits)
    (auto simp: bind_res_eq_Inr)

text \<open>
  What trying to keep the output under a name leaves there when it does not succeed: a file already there stays;
  else what others made of our placeholder, which is removed only while it is still the empty file we created.
\<close>

definition left_at :: "KeepEnv \<Rightarrow> path \<Rightarrow> RFile option \<Rightarrow> RFile option" where
  "left_at e p before =
     (let ours = Some \<lparr>f_bytes = [], f_id = kp_id e p\<rparr>; now = kp_others e p ours
      in if before \<noteq> None \<or> \<not> kp_create e p then before
         else if now = ours \<and> kp_id_read e p \<and> kp_removed e p then None else now)"

lemma keep_at_left:
  assumes "keep_at e landing name f = (False, f')"
  shows "f' = f(name := left_at e name (f name))"
proof (cases "f name \<noteq> None \<or> \<not> kp_create e name")
  case True
  then show ?thesis using assms by (auto simp: keep_at_def left_at_def)
next
  case False
  have own: "(case y of None \<Rightarrow> False | Some x \<Rightarrow> f_bytes x = [] \<and> f_id x = n) \<longleftrightarrow> y = Some \<lparr>f_bytes = [], f_id = n\<rparr>"
    for y :: "RFile option" and n
    by (cases y) auto
  show ?thesis using False assms by (auto simp: keep_at_def left_at_def Let_def own split: if_splits)
qed

lemma keep_at_ok:
  assumes "keep_at e landing name f = (b, f')" and "f landing = Some x"
  shows "p \<noteq> landing \<Longrightarrow> p \<noteq> name \<Longrightarrow> f' p = f p"
    and "b \<Longrightarrow> f name = None \<and> name \<noteq> landing \<and> f' name = Some x \<and> f' landing = None"
    and "\<not> b \<Longrightarrow> f' landing = Some x"
proof -
  have ne: "f name = None \<Longrightarrow> name \<noteq> landing" using assms(2) by auto
  show "p \<noteq> landing \<Longrightarrow> p \<noteq> name \<Longrightarrow> f' p = f p"
    "b \<Longrightarrow> f name = None \<and> name \<noteq> landing \<and> f' name = Some x \<and> f' landing = None"
    "\<not> b \<Longrightarrow> f' landing = Some x"
    using assms ne by (auto simp: keep_at_def Let_def move_file_def split: if_splits)
qed

text \<open>The names tried before the one that took the output, or all of them, each left as \<open>left_at\<close> says.\<close>

definition after_tries :: "KeepEnv \<Rightarrow> path list \<Rightarrow> rfs \<Rightarrow> rfs" where
  "after_tries e tried f = (\<lambda>p. if p \<in> set tried then left_at e p (f p) else f p)"

lemma after_tries_Nil [simp]: "after_tries e [] f = f"
  by (simp add: after_tries_def)

lemma keep_unpublished_none:
  assumes "keep_unpublished e landing ns f = (None, f')" and "distinct ns"
  shows "f' = after_tries e ns f"
  using assms
proof (induction ns arbitrary: f)
  case (Cons n ns)
  obtain f1 where at: "keep_at e landing n f = (False, f1)" and run: "keep_unpublished e landing ns f1 = (None, f')"
    using Cons.prems(1) by (auto split: prod.splits bool.splits)
  have "f' = after_tries e ns f1" using Cons.IH [OF run] Cons.prems(2) by simp
  then show ?case using keep_at_left [OF at] Cons.prems(2) by (auto simp: after_tries_def)
qed simp

lemma keep_unpublished_some:
  assumes "keep_unpublished e landing ns f = (Some k, f')" and "f landing = Some x" and "distinct ns"
  shows "\<exists>tried rest. ns = tried @ k # rest \<and> f k = None \<and> k \<noteq> landing \<and> f' k = Some x \<and> f' landing = None \<and>
    (\<forall>p. p \<noteq> k \<longrightarrow> p \<noteq> landing \<longrightarrow> f' p = after_tries e tried f p)"
  using assms
proof (induction ns arbitrary: f)
  case (Cons n ns)
  obtain b f1 where at: "keep_at e landing n f = (b, f1)" by fastforce
  note K = keep_at_ok [OF at Cons.prems(2)]
  show ?case
  proof (cases b)
    case True
    then have "k = n" "f' = f1" using Cons.prems(1) at by simp_all
    then show ?thesis using K(1) K(2) [OF True] by (intro exI [of _ "[]"] exI [of _ ns]) auto
  next
    case False
    then have run: "keep_unpublished e landing ns f1 = (Some k, f')" using Cons.prems(1) at by simp
    have d: "distinct ns" "n \<notin> set ns" using Cons.prems(3) by simp_all
    obtain tried rest where I: "ns = tried @ k # rest" "f1 k = None" "k \<noteq> landing" "f' k = Some x" "f' landing = None"
      "\<forall>p. p \<noteq> k \<longrightarrow> p \<noteq> landing \<longrightarrow> f' p = after_tries e tried f1 p"
      using Cons.IH [OF run K(3) [OF False] d(1)] by blast
    have kn: "k \<noteq> n" "n \<notin> set tried" using I(1) d(2) by auto
    have f1: "f1 = f(n := left_at e n (f n))" using keep_at_left at False by simp
    have "f' p = after_tries e (n # tried) f p" if "p \<noteq> k" "p \<noteq> landing" for p
      using I(6) that kn(2) by (auto simp: f1 after_tries_def)
    moreover have "f k = None" using I(2) kn(1) f1 by simp
    ultimately show ?thesis using I by (intro exI [of _ "n # tried"] exI [of _ rest]) simp
  qed
qed simp

text \<open>
  What a run may do outside the files it owns: nothing, but for the names tried for an output that could not be
  published.
\<close>

definition kept_at :: "(remux_error + 'a) \<Rightarrow> path option" where
  "kept_at r = (case r of Inl (Unpublished k kd) \<Rightarrow> Some k | _ \<Rightarrow> None)"

definition tried_by :: "path \<Rightarrow> (remux_error + 'a) \<Rightarrow> path list \<Rightarrow> bool" where
  "tried_by t r tried \<longleftrightarrow>
     (case r of
        Inl (Unpublished k kd) \<Rightarrow> \<exists>rest. kept_names t = tried @ k # rest
      | Inl (Io kd) \<Rightarrow> tried = [] \<or> kd = Unsupported \<and> tried = kept_names t
      | _ \<Rightarrow> tried = [])"

definition tidy :: "KeepEnv \<Rightarrow> path set \<Rightarrow> path \<Rightarrow> (remux_error + 'a) \<Rightarrow> rfs \<Rightarrow> rfs \<Rightarrow> bool" where
  "tidy e own t r f f' \<longleftrightarrow>
     (\<exists>tried. tried_by t r tried \<and> (\<forall>p. p \<notin> own \<longrightarrow> kept_at r \<noteq> Some p \<longrightarrow> f' p = after_tries e tried f p))"

lemma kept_at_other: "kept_at r \<noteq> Some p \<longleftrightarrow> (\<forall>kd. r \<noteq> Inl (Unpublished p kd))"
  by (auto simp: kept_at_def split: sum.splits remux_error.splits)

lemma tidy_same: "(\<And>p. p \<notin> own \<Longrightarrow> f' p = f p) \<Longrightarrow> kept_at r = None \<Longrightarrow> tidy e own t r f f'"
  by (auto simp: tidy_def tried_by_def kept_at_def split: sum.splits remux_error.splits intro!: exI [of _ "[]"])

lemma tidy_from:
  assumes "tidy e own t r g f'" and "own \<subseteq> own'" and "\<And>p. p \<notin> own' \<Longrightarrow> g p = f p" and "\<And>p. p \<notin> own' \<Longrightarrow> h p = f' p"
  shows "tidy e own' t r f h"
proof -
  obtain tried where t: "tried_by t r tried" "\<forall>p. p \<notin> own \<longrightarrow> kept_at r \<noteq> Some p \<longrightarrow> f' p = after_tries e tried g p"
    using assms(1) unfolding tidy_def by blast
  have "h p = after_tries e tried f p" if "p \<notin> own'" "kept_at r \<noteq> Some p" for p
    using t(2) that assms(2,3,4) by (auto simp: after_tries_def)
  then show ?thesis using t(1) unfolding tidy_def by blast
qed

subsection \<open>The replace phase\<close>

text \<open>What others made of the target by the time of the move.\<close>

abbreviation others1 :: "LandEnv \<Rightarrow> RFile option \<Rightarrow> RFile option" where
  "others1 e x \<equiv> v_meanwhile e x"

abbreviation others2 :: "LandEnv \<Rightarrow> RFile option \<Rightarrow> RFile option" where
  "others2 e x \<equiv> v_late e (v_meanwhile e x)"

definition landed ::
  "LandEnv \<Rightarrow> bool \<Rightarrow> path \<Rightarrow> path \<Rightarrow> RFile \<Rightarrow> rfs \<Rightarrow> (remux_error + RemuxReport) \<Rightarrow> rfs \<Rightarrow> bool \<Rightarrow> bool" where
  "landed e replace t landing x f r f' armed \<longleftrightarrow>
     tidy (v_keep e) {t, landing} t r f f' \<and>
     (case r of
        Inr rep \<Rightarrow> f' t = Some x \<and> \<not> armed \<and> (\<not> replace \<longrightarrow> others2 e (f t) = None) \<and> \<not> v_cancelled e \<and> f' landing = None
      | Inl (Unpublished k kd) \<Rightarrow> \<not> replace \<and> k \<in> set (kept_names t) \<and> f k = None \<and> k \<noteq> landing \<and> f' k = Some x \<and>
          \<not> armed \<and> f' t = others2 e (f t)
      | Inl _ \<Rightarrow> armed \<and> f' t \<in> {others1 e (f t), others2 e (f t)})"

lemma publish_phase_ok:
  assumes run: "publish_phase e replace t landing m pr f = (r, f', armed)" and x: "f landing = Some x" and ne: "landing \<noteq> t"
    and d: "distinct (t # kept_names t)"
  shows "landed e replace t landing x f r f' armed"
    and "r = Inr rep \<Longrightarrow> rp_outcome rep = m \<and> rp_verified rep = pr"
proof -
  let ?f1 = "at_path t (v_meanwhile e) f" and ?f2 = "at_path t (v_late e) (at_path t (v_meanwhile e) f)"
  have f2: "?f2 landing = Some x" "?f2 t = others2 e (f t)" "\<And>p. p \<noteq> t \<Longrightarrow> ?f2 p = f p" using x ne by (simp_all add: at_path_def)
  consider (early) z where "r = Inl z" "f' = ?f1" "armed" "\<forall>k kd. z \<noteq> Unpublished k kd"
    | (land) replaced q g where "land replace (v_land e) landing t ?f2 = (q, g)" "\<not> v_cancelled e"
      "(r, f', armed) = (case (q, g) of
          (Inr _, f') \<Rightarrow> (Inr \<lparr>rp_outcome = m, rp_verified = pr, rp_replaced = replaced\<rparr>, f', False)
        | (Inl x, f') \<Rightarrow>
            if \<not> replace \<and> x = Io Unsupported
            then (case keep_unpublished (v_keep e) landing (kept_names t) f' of
                    (Some kept, f'') \<Rightarrow> (Inl (Unpublished kept Unsupported), f'', False)
                  | (None, f'') \<Rightarrow> (Inl x, f'', True))
            else (Inl x, f', True))"
    using run unfolding publish_phase_def Let_def
    by (auto simp: refuse_existing_def target_present_def bind_res_def split: sum.splits if_splits option.splits io_kind.splits prod.splits)
  then have "landed e replace t landing x f r f' armed \<and> (\<forall>rep. r = Inr rep \<longrightarrow> rp_outcome rep = m \<and> rp_verified rep = pr)"
  proof cases
    case early
    then have "tidy (v_keep e) {t, landing} t r f f'"
      by (intro tidy_same) (cases z; auto simp: at_path_def kept_at_def)+
    then show ?thesis using early by (cases z) (auto simp: landed_def at_path_def)
  next
    case land
    show ?thesis
    proof (cases q)
      case (Inr u)
      then have "g = move_file landing t ?f2" "\<not> replace \<longrightarrow> others2 e (f t) = None"
        using land(1) f2(2) by (auto simp: land_def split: option.splits if_splits)
      moreover from this have "tidy (v_keep e) {t, landing} t r f f'"
        using land(3) Inr f2(3) by (intro tidy_same) (auto simp: move_file_def kept_at_def)
      ultimately show ?thesis using land(2,3) Inr f2 ne by (auto simp: landed_def move_file_def)
    next
      case (Inl z)
      then have g: "g = ?f2" and z: "\<forall>k kd. z \<noteq> Unpublished k kd" using land(1) by (auto simp: land_def split: option.splits if_splits)
      show ?thesis
      proof (cases "\<not> replace \<and> z = Io Unsupported")
        case False
        then have r: "r = Inl z" "f' = ?f2" "armed" using land(3) Inl g by auto
        then have "tidy (v_keep e) {t, landing} t r f f'" using z f2(3) by (intro tidy_same) (cases z; simp add: kept_at_def)+
        then show ?thesis using r z f2 by (cases z) (auto simp: landed_def)
      next
        case True
        obtain k h where k: "keep_unpublished (v_keep e) landing (kept_names t) ?f2 = (k, h)" by fastforce
        have dn: "distinct (kept_names t)" "t \<notin> set (kept_names t)" using d by simp_all
        show ?thesis
        proof (cases k)
          case None
          then have r: "r = Inl (Io Unsupported)" "f' = h" "armed" using land(3) Inl g k True by auto
          have h: "h = after_tries (v_keep e) (kept_names t) ?f2" using keep_unpublished_none k None dn(1) by simp
          then have "h t = others2 e (f t)" using f2(2) dn(2) by (simp add: after_tries_def)
          moreover have "tidy (v_keep e) {t, landing} t r f f'"
            unfolding tidy_def r(1,2) h using f2(3)
            by (intro exI [of _ "kept_names t"]) (auto simp: tried_by_def after_tries_def)
          ultimately show ?thesis using r by (auto simp: landed_def)
        next
          case (Some n)
          then have r: "r = Inl (Unpublished n Unsupported)" "f' = h" "\<not> armed" using land(3) Inl g k True by auto
          obtain tried rest where K: "kept_names t = tried @ n # rest" "?f2 n = None" "n \<noteq> landing" "h n = Some x"
            "\<forall>p. p \<noteq> n \<longrightarrow> p \<noteq> landing \<longrightarrow> h p = after_tries (v_keep e) tried ?f2 p"
            using keep_unpublished_some [OF k [unfolded Some] f2(1) dn(1)] by blast
          have n: "n \<in> set (kept_names t)" "t \<notin> set tried" "n \<noteq> t" using K(1) dn(2) by auto
          have "h t = others2 e (f t)" using K(5) n ne f2(2) by (simp add: after_tries_def)
          moreover have "tidy (v_keep e) {t, landing} t r f f'"
            unfolding tidy_def r(1,2) using K(1,5) f2(3)
            by (intro exI [of _ tried]) (auto simp: tried_by_def kept_at_def after_tries_def)
          moreover have "f n = None" using K(2) f2(3) [OF n(3)] by simp
          ultimately show ?thesis using True K n(1) r by (auto simp: landed_def)
        qed
      qed
    qed
  qed
  then show "landed e replace t landing x f r f' armed" "r = Inr rep \<Longrightarrow> rp_outcome rep = m \<and> rp_verified rep = pr" by blast+
qed

subsection \<open>The whole landing\<close>

definition remux_outcome ::
  "probe_fn \<Rightarrow> f64 \<Rightarrow> LandEnv \<Rightarrow> bool \<Rightarrow> path \<Rightarrow> path \<Rightarrow> rfs \<Rightarrow> (remux_error + RemuxReport) \<Rightarrow> rfs \<Rightarrow> bool" where
  "remux_outcome probe expected e replace t partial f r f' \<longleftrightarrow>
     tidy (v_keep e) {t, partial, partial_path t} t r f f' \<and>
     (case r of
        Inr rep \<Rightarrow> (\<exists>x pr. f' t = Some x \<and> good_file probe expected x pr) \<and> completed (rp_outcome rep) \<and>
          (\<not> replace \<longrightarrow> others2 e (f t) = None) \<and> \<not> v_cancelled e
      | Inl (Unpublished k kd) \<Rightarrow> \<not> replace \<and> k \<in> set (kept_names t) \<and> f k = None \<and> f' t = others2 e (f t) \<and>
          (\<exists>x pr. f' k = Some x \<and> good_file probe expected x pr)
      | Inl _ \<Rightarrow> f' t \<in> {f t, others1 e (f t), others2 e (f t)})"

lemma outcome_early:
  assumes "\<And>p. p \<notin> {partial, partial_path t} \<Longrightarrow> f' p = f p" and "partial \<noteq> t" and "\<forall>k kd. z \<noteq> Unpublished k kd"
  shows "remux_outcome probe expected e replace t partial f (Inl z) f'"
proof -
  have "f' t = f t" using assms(1) [of t] assms(2) partial_not_target [of t] by simp
  moreover have "tidy (v_keep e) {t, partial, partial_path t} t (Inl z :: remux_error + RemuxReport) f f'"
    by (rule tidy_same) (use assms(1,3) in \<open>auto simp: kept_at_def split: remux_error.splits\<close>)
  ultimately show ?thesis using assms(3) by (cases z) (simp_all add: remux_outcome_def)
qed

lemma outcome_landed:
  assumes "landed e replace t landing x g r f' armed" and "good_file probe expected x pr" and "\<And>rep. r = Inr rep \<Longrightarrow> completed (rp_outcome rep)"
    and g: "\<And>p. p \<notin> {partial, partial_path t} \<Longrightarrow> g p = f p" and l: "landing \<in> {partial, partial_path t}" and "partial \<noteq> t"
    and some: "\<And>p. p \<in> {partial, partial_path t} \<Longrightarrow> p \<noteq> landing \<Longrightarrow> g p \<noteq> None"
    and h: "\<And>p. p \<noteq> landing \<Longrightarrow> h p = f' p" "\<not> armed \<Longrightarrow> h = f'"
  shows "remux_outcome probe expected e replace t partial f r h"
proof -
  note L = assms(1) [unfolded landed_def]
  have lt: "landing \<noteq> t" using l assms(6) partial_not_target [of t] by auto
  have gt: "g t = f t" using g [of t] assms(6) partial_not_target [of t] by simp
  have ht: "h t = f' t" using h(1) [of t] lt by simp
  have frame: "tidy (v_keep e) {t, partial, partial_path t} t r f h"
    by (rule tidy_from [of _ "{t, landing}" _ _ g f']) (use L l g h(1) in auto)
  show ?thesis
  proof (cases r)
    case (Inr rep)
    then have "f' t = Some x" "\<not> replace \<longrightarrow> others2 e (g t) = None" "\<not> v_cancelled e" using L by simp_all
    then show ?thesis using Inr ht gt frame assms(2,3) by (auto simp: remux_outcome_def)
  next
    case (Inl z)
    show ?thesis
    proof (cases "\<exists>k kd. z = Unpublished k kd")
      case True
      then obtain k kd where z: "z = Unpublished k kd" by blast
      then have k: "\<not> replace" "k \<in> set (kept_names t)" "g k = None" "k \<noteq> landing" "f' k = Some x" "\<not> armed" "f' t = others2 e (g t)"
        using L Inl by simp_all
      have "k \<notin> {partial, partial_path t}" using some k(3,4) by blast
      then have "f k = None" using g k(3) by metis
      then show ?thesis using k h(2) z Inl gt frame assms(2) by (auto simp: remux_outcome_def)
    next
      case False
      then have "f' t \<in> {others1 e (g t), others2 e (g t)}" using L Inl by (cases z) simp_all
      then have "h t \<in> {f t, others1 e (f t), others2 e (f t)}" using ht gt by auto
      then show ?thesis using False Inl frame by (cases z) (simp_all add: remux_outcome_def)
    qed
  qed
qed

lemma drop_partial_ok: "p \<noteq> q \<Longrightarrow> drop_partial e q armed f p = f p" "drop_partial e q False f = f"
  by (simp_all add: drop_partial_def)

lemma stale_ok:
  assumes "remove_stale_partial err q f = (r, f')"
  shows "p \<noteq> q \<Longrightarrow> f' p = f p" and "r = Inl z \<Longrightarrow> f' = f \<and> (\<forall>k kd. z \<noteq> Unpublished k kd)"
  using assms by (auto simp: remove_stale_partial_def split: if_splits option.splits io_kind.splits)

lemma never_unpublished [simp]:
  "watch_worker op ws \<noteq> Some (Inl (Unpublished k kd))" "check_probe expected pr \<noteq> Inl (Unpublished k kd)"
  "lib_res q \<noteq> Inl (Unpublished k kd)" "lib_err le \<noteq> Unpublished k kd" "copy_all cs src dst \<noteq> Some (Inl (Unpublished k kd), bs)"
proof -
  show "watch_worker op ws \<noteq> Some (Inl (Unpublished k kd))"
    by (induction op ws rule: watch_worker.induct) (auto split: rx.splits)
  show "check_probe expected pr \<noteq> Inl (Unpublished k kd)" by (auto simp: check_probe_def Let_def split: option.splits)
  have le: "lib_err x \<noteq> Unpublished k kd" for x by (simp add: lib_err_def split: lib_error.split)
  then show "lib_err le \<noteq> Unpublished k kd" .
  show "lib_res q \<noteq> Inl (Unpublished k kd)" using le by (simp add: lib_res_def split: sum.split)
  show "copy_all cs src dst \<noteq> Some (Inl (Unpublished k kd), bs)"
    by (induction cs src dst rule: copy_all.induct) (auto simp: Let_def split: chunk.splits)
qed

lemma verify_error [simp]: "verify_watched probe ve expected p f \<noteq> Some (Inl (Unpublished k kd))"
  by (auto simp: verify_watched_def nonempty_len_def bind_res_eq_Inl split: option.splits if_splits sum.splits)

lemma copy_staged_ok:
  assumes "copy_staged ce source dest f = Some (r, f')"
  shows "p \<noteq> source \<Longrightarrow> p \<noteq> dest \<Longrightarrow> f' p = f p" and "r \<noteq> Inl (Unpublished k kd)"
    and "r = Inr () \<Longrightarrow> source \<noteq> dest \<Longrightarrow> f' source = f source"
  using assms by (auto simp: copy_staged_def set_bytes_def Let_def split: option.splits if_splits sum.splits prod.splits)

lemma staged_phase_ok:
  assumes run: "staged_phase probe e replace expected t partial m pr f = Some (r, f')" and ne: "partial \<noteq> t" "partial \<noteq> partial_path t"
    and d: "distinct (t # kept_names t)" and m: "completed m" and there: "f partial \<noteq> None"
  shows "remux_outcome probe expected e replace t partial f r f'"
proof -
  let ?tp = "partial_path t"
  obtain s1 f1 where stale: "remove_stale_partial (v_stale2 e) ?tp f = (s1, f1)" by fastforce
  note S = stale_ok [OF stale]
  show ?thesis
  proof (cases s1)
    case (Inl z)
    then have "r = Inl z" "f' = f" using run stale S(2) by (auto simp: staged_phase_def Let_def)
    then show ?thesis using outcome_early [of partial t f f z] S(2) Inl ne(1) by blast
  next
    case (Inr u)
    obtain r0 f0 armed where body: "f' = drop_partial e ?tp armed f0" "r = r0"
      "(case copy_staged (v_copy e) partial ?tp f1 of
               None \<Rightarrow> None
             | Some (Inl x, f) \<Rightarrow> Some (Inl x, f, True)
             | Some (Inr _, f) \<Rightarrow>
                 (case v_sync2 e of
                    Some x \<Rightarrow> Some (Inl (lib_err x), f, True)
                  | None \<Rightarrow>
                      (case verify_watched probe (v_verify2 e) expected ?tp f of
                         None \<Rightarrow> None
                       | Some (Inl x) \<Rightarrow> Some (Inl x, f, True)
                       | Some (Inr _) \<Rightarrow> Some (publish_phase e replace t ?tp m pr f)))) = Some (r0, f0, armed)"
      using run stale Inr by (auto simp: staged_phase_def Let_def)
    then obtain c f2 where copy: "copy_staged (v_copy e) partial ?tp f1 = Some (c, f2)" by (cases "copy_staged (v_copy e) partial ?tp f1") auto
    note C = copy_staged_ok [OF copy]
    have f2: "f2 p = f p" if "p \<notin> {partial, ?tp}" for p using C(1) [of p] S(1) [of p] that by simp
    have early: "remux_outcome probe expected e replace t partial f (Inl z) f'" if "f0 = f2" "\<forall>k kd. z \<noteq> Unpublished k kd" for z
      by (rule outcome_early) (use f2 ne that body(1) drop_partial_ok(1) in auto)
    show ?thesis
    proof (cases c)
      case (Inl z)
      then show ?thesis using early [of z] body copy C(2) by auto
    next
      case c: (Inr uu)
      have src: "f2 partial = f partial" using C(3) c ne(2) S(1) [of partial] by simp
      show ?thesis
      proof (cases "v_sync2 e")
        case (Some x)
        then show ?thesis using early [of "lib_err x"] body copy c by auto
      next
        case None
        then obtain v where v: "verify_watched probe (v_verify2 e) expected ?tp f2 = Some v"
          using body copy c by (cases "verify_watched probe (v_verify2 e) expected ?tp f2") auto
        show ?thesis
        proof (cases v)
          case (Inl z)
          then show ?thesis using early [of z] body copy c None v verify_error [of probe "v_verify2 e" expected ?tp f2] by auto
        next
          case (Inr pr2)
          obtain x where x: "f2 ?tp = Some x" "good_file probe expected x pr2" using verify_ok v Inr by blast
          have run2: "publish_phase e replace t ?tp m pr f2 = (r, f0, armed)" using body copy c None v Inr by simp
          note P = publish_phase_ok [OF run2 x(1) partial_not_target d]
          show ?thesis
          proof (rule outcome_landed [OF P(1) x(2)])
            show "completed (rp_outcome rep)" if "r = Inr rep" for rep using P(2) [OF that] m by simp
            show "f2 p = f p" if "p \<notin> {partial, ?tp}" for p by (rule f2 [OF that])
            show "f2 p \<noteq> None" if "p \<in> {partial, ?tp}" "p \<noteq> ?tp" for p using that src there by simp
            show "f' p = f0 p" if "p \<noteq> ?tp" for p using that body(1) drop_partial_ok(1) by simp
            show "f' = f0" if "\<not> armed" using that body(1) drop_partial_ok(2) by simp
          qed (use ne in simp_all)
        qed
      qed
    qed
  qed
qed

lemma outcome_same: "\<forall>k kd. z \<noteq> Unpublished k kd \<Longrightarrow> remux_outcome probe expected e replace t partial f (Inl z) f"
  by (cases z) (simp_all add: remux_outcome_def tidy_same kept_at_def)

text \<open>From a state that differs only at the partial paths.\<close>

lemma outcome_from:
  assumes "remux_outcome probe expected e replace t partial g r h" and g: "\<And>p. p \<notin> {partial, partial_path t} \<Longrightarrow> g p = f p"
    and "partial \<noteq> t" and "g partial \<noteq> None" and free: "\<And>k kd. r = Inl (Unpublished k kd) \<Longrightarrow> g (partial_path t) = None \<Longrightarrow> f (partial_path t) = None"
  shows "remux_outcome probe expected e replace t partial f r h"
proof -
  have gt: "g t = f t" using g [of t] assms(3) partial_not_target [of t] by simp
  have "f k = None" if "r = Inl (Unpublished k kd)" for k kd
  proof -
    have "g k = None" using assms(1) that by (simp add: remux_outcome_def)
    then show ?thesis using g [of k] free [OF that] assms(4) by (cases "k = partial"; cases "k = partial_path t") auto
  qed
  moreover have "tidy (v_keep e) {t, partial, partial_path t} t r f h"
    by (rule tidy_from [of _ "{t, partial, partial_path t}" _ _ g h]) (use assms(1) g in \<open>auto simp: remux_outcome_def\<close>)
  ultimately show ?thesis using assms(1) gt unfolding remux_outcome_def by (auto split: sum.splits remux_error.splits)
qed

lemma outcome_drop:
  assumes "remux_outcome probe expected e replace t partial g r f0" and "g partial \<noteq> None" and "partial \<noteq> t"
    and h: "\<And>p. p \<noteq> partial \<Longrightarrow> h p = f0 p"
  shows "remux_outcome probe expected e replace t partial g r h"
proof -
  have "h t = f0 t" using h [of t] assms(3) by simp
  moreover have "h k = f0 k" if "g k = None" for k using h [of k] that assms(2) by (cases "k = partial") auto
  moreover have "tidy (v_keep e) {t, partial, partial_path t} t r g h"
    by (rule tidy_from [of _ "{t, partial, partial_path t}" _ _ g f0]) (use assms(1) h in \<open>auto simp: remux_outcome_def\<close>)
  ultimately show ?thesis using assms(1) unfolding remux_outcome_def by (auto split: sum.splits remux_error.splits)
qed

lemma land_verified_ok:
  assumes run: "land_verified probe e replace idx expected t staged f = Some (r, f')" and d: "distinct (t # kept_names t)"
    and partial: "partial = (case staged of None \<Rightarrow> partial_path t | Some q \<Rightarrow> q)"
  shows "remux_outcome probe expected e replace t partial f r f'"
proof (cases "partial = t \<or> (staged \<noteq> None \<and> partial = partial_path t) \<or> \<not> v_utf8 e \<or> v_lock e \<noteq> None")
  note run' = run [unfolded land_verified_def Let_def, folded partial]
  case True
  then have "\<exists>z. r = Inl z \<and> (\<forall>k kd. z \<noteq> Unpublished k kd) \<and> f' = f"
    using run' by (auto split: if_splits option.splits)
  then show ?thesis using outcome_same by blast
next
  note run' = run [unfolded land_verified_def Let_def, folded partial]
  case False
  then have ne: "partial \<noteq> t" "staged \<noteq> None \<Longrightarrow> partial \<noteq> partial_path t" by auto
  obtain s1 f1 where stale: "remove_stale_partial (v_stale e) partial f = (s1, f1)" by fastforce
  note S = stale_ok [OF stale]
  show ?thesis
  proof (cases s1)
    case (Inl z)
    then have "r = Inl z" "f' = f" using run' stale S(2) False by auto
    then show ?thesis using outcome_same S(2) Inl by blast
  next
    case (Inr u)
    define g where "g = f1(partial := v_written e)"
    have g: "g p = f p" if "p \<noteq> partial" for p using S(1) [of p] that by (simp add: g_def)
    define out where "out =
      (case bind_res (lib_res (v_mux e)) (finished (v_mux_cancelled e) idx) of
         Inl x \<Rightarrow> Some (Inl x, g, True)
       | Inr m \<Rightarrow>
           (case v_sync e of
              Some x \<Rightarrow> Some (Inl (lib_err x), g, True)
            | None \<Rightarrow>
                (case verify_watched probe (v_verify e) expected partial g of
                   None \<Rightarrow> None
                 | Some (Inl x) \<Rightarrow> Some (Inl x, g, True)
                 | Some (Inr pr) \<Rightarrow>
                     if staged = None then Some (publish_phase e replace t partial m pr g)
                     else map_option (\<lambda>(r, f). (r, f, True)) (staged_phase probe e replace expected t partial m pr g))))"
    have "map_option (\<lambda>(r, f, armed). (r, drop_partial e partial armed f)) out = Some (r, f')"
      using run' stale Inr False unfolding out_def g_def by auto
    then obtain r0 f0 armed where b: "out = Some (r0, f0, armed)" "f' = drop_partial e partial armed f0" "r = r0" by (cases out) auto
    note body = b(2,3) b(1) [unfolded out_def]
    have early: "remux_outcome probe expected e replace t partial f (Inl z) f'" if "f0 = g" "\<forall>k kd. z \<noteq> Unpublished k kd" for z
      by (rule outcome_early) (use g ne(1) that body(1) drop_partial_ok(1) in auto)
    have fin: "finished b i m = Inl z \<Longrightarrow> z \<noteq> Unpublished k kd" "finished b i m = Inr m' \<Longrightarrow> completed m'" for b i m m' z k kd
      by (auto simp: finished_def split: if_splits)
    show ?thesis
    proof (cases "bind_res (lib_res (v_mux e)) (finished (v_mux_cancelled e) idx)")
      case (Inl z)
      then have "\<forall>k kd. z \<noteq> Unpublished k kd" using fin(1) unfolding bind_res_eq_Inl by (metis never_unpublished(3))
      then show ?thesis using early [of z] body Inl by auto
    next
      case m: (Inr m)
      then have cm: "completed m" using fin(2) by (auto simp: bind_res_eq_Inr)
      show ?thesis
      proof (cases "v_sync e")
        case (Some x)
        then show ?thesis using early [of "lib_err x"] body m by auto
      next
        case None
        then obtain v where v: "verify_watched probe (v_verify e) expected partial g = Some v"
          using body m by (cases "verify_watched probe (v_verify e) expected partial g") auto
        show ?thesis
        proof (cases v)
          case (Inl z)
          then show ?thesis using early [of z] body m None v verify_error [of probe "v_verify e" expected partial g] by auto
        next
          case (Inr pr)
          obtain x where x: "g partial = Some x" "good_file probe expected x pr" using verify_ok v Inr by blast
          show ?thesis
          proof (cases "staged = None")
            case True
            then have tp: "partial = partial_path t" using partial by simp
            have run2: "publish_phase e replace t partial m pr g = (r, f0, armed)" using body m None v Inr True by simp
            note P = publish_phase_ok [OF run2 x(1) ne(1) d]
            show ?thesis
            proof (rule outcome_landed [OF P(1) x(2)])
              show "completed (rp_outcome rep)" if "r = Inr rep" for rep using P(2) [OF that] cm by simp
              show "g p = f p" if "p \<notin> {partial, partial_path t}" for p using g that by simp
              show "g p \<noteq> None" if "p \<in> {partial, partial_path t}" "p \<noteq> partial" for p using that tp by simp
              show "f' p = f0 p" if "p \<noteq> partial" for p using that body(1) drop_partial_ok(1) by simp
              show "f' = f0" if "\<not> armed" using that body(1) drop_partial_ok(2) by simp
            qed (use ne in simp_all)
          next
            case False
            then have tp: "partial \<noteq> partial_path t" using ne(2) by simp
            have run2: "staged_phase probe e replace expected t partial m pr g = Some (r, f0)" and "armed"
              using body m None v Inr False by auto
            have "remux_outcome probe expected e replace t partial g r f0"
              by (rule staged_phase_ok [OF run2 ne(1) tp d cm]) (simp add: x(1))
            then have "remux_outcome probe expected e replace t partial g r f'"
              by (rule outcome_drop) (use x(1) ne(1) body(1) drop_partial_ok(1) in auto)
            then show ?thesis by (rule outcome_from) (use g ne(1) tp x(1) in auto)
          qed
        qed
      qed
    qed
  qed
qed

text \<open>
C6: A remux never damages the library. However the mux, the syncs, the reads back, the copy and the moves fail, wherever
a stop arrives, and whatever others put at the target meanwhile: when the remux reports success the target holds a file
that was muxed to its end, is not empty, and whose content passes the verification, and without permission to replace
nothing was there when it was moved in; when it reports failure the target is as it was or as others left it; an output
kept for a manual publish is a verified file under a name that was free. No other file is touched: outside the target
and the two partial paths every file is as it was, except under the names tried before the kept one (all of them when
none took the output, and none at all in any other outcome). There a file that was present stays; under a free name what
others put over our empty placeholder stays, and only the very placeholder we created is ever removed.
\<close>

theorem remux_lands_verified:
  assumes "land_verified probe e replace idx expected t staged f = Some (r, f')" and "distinct (t # kept_names t)"
  shows "(case r of
      Inr rep \<Rightarrow> (\<exists>x pr. f' t = Some x \<and> f_bytes x \<noteq> [] \<and> bind_res (lib_res (probe (f_bytes x))) (check_probe expected) = Inr pr) \<and>
        completed (rp_outcome rep) \<and> (\<not> replace \<longrightarrow> v_late e (v_meanwhile e (f t)) = None) \<and> \<not> v_cancelled e
    | Inl (Unpublished k kd) \<Rightarrow> \<not> replace \<and> f k = None \<and> f' t = v_late e (v_meanwhile e (f t)) \<and>
        (\<exists>x pr. f' k = Some x \<and> f_bytes x \<noteq> [] \<and> bind_res (lib_res (probe (f_bytes x))) (check_probe expected) = Inr pr)
    | Inl _ \<Rightarrow> f' t \<in> {f t, v_meanwhile e (f t), v_late e (v_meanwhile e (f t))}) \<and>
    (\<exists>tried.
      (case r of
         Inl (Unpublished k kd) \<Rightarrow> \<exists>rest. kept_names t = tried @ k # rest
       | Inl (Io kd) \<Rightarrow> tried = [] \<or> kd = Unsupported \<and> tried = kept_names t
       | _ \<Rightarrow> tried = []) \<and>
      (\<forall>p. p \<notin> {t, partial_path t} \<union> set_option staged \<and> (\<forall>kd. r \<noteq> Inl (Unpublished p kd)) \<longrightarrow>
        f' p = (let ours = Some \<lparr>f_bytes = [], f_id = kp_id (v_keep e) p\<rparr>; now = kp_others (v_keep e) p ours
          in if p \<notin> set tried \<or> f p \<noteq> None \<or> \<not> kp_create (v_keep e) p then f p
             else if now = ours \<and> kp_id_read (v_keep e) p \<and> kp_removed (v_keep e) p then None else now))) \<and>
    (\<forall>landing g h. keep_unpublished (v_keep e) landing (kept_names t) g = (None, h) \<longrightarrow>
       (\<forall>p y. g p = Some y \<longrightarrow> h p = Some y) \<and>
       (\<forall>p y. p \<in> set (kept_names t) \<and> g p = None \<and> kp_create (v_keep e) p \<and>
          kp_others (v_keep e) p (Some \<lparr>f_bytes = [], f_id = kp_id (v_keep e) p\<rparr>) = Some y \<and>
          y \<noteq> \<lparr>f_bytes = [], f_id = kp_id (v_keep e) p\<rparr> \<longrightarrow> h p = Some y))"
proof (intro conjI allI impI)
  define partial where "partial = (case staged of None \<Rightarrow> partial_path t | Some q \<Rightarrow> q)"
  note out = land_verified_ok [OF assms partial_def, unfolded remux_outcome_def good_file_def]
  show "case r of
      Inr rep \<Rightarrow> (\<exists>x pr. f' t = Some x \<and> f_bytes x \<noteq> [] \<and> bind_res (lib_res (probe (f_bytes x))) (check_probe expected) = Inr pr) \<and>
        completed (rp_outcome rep) \<and> (\<not> replace \<longrightarrow> v_late e (v_meanwhile e (f t)) = None) \<and> \<not> v_cancelled e
    | Inl (Unpublished k kd) \<Rightarrow> \<not> replace \<and> f k = None \<and> f' t = v_late e (v_meanwhile e (f t)) \<and>
        (\<exists>x pr. f' k = Some x \<and> f_bytes x \<noteq> [] \<and> bind_res (lib_res (probe (f_bytes x))) (check_probe expected) = Inr pr)
    | Inl _ \<Rightarrow> f' t \<in> {f t, v_meanwhile e (f t), v_late e (v_meanwhile e (f t))}"
    using conjunct2 [OF out] by (cases r) (auto split: remux_error.splits)
  have "tidy (v_keep e) ({t, partial_path t} \<union> set_option staged) t r f f'"
    by (rule tidy_from [OF conjunct1 [OF out]]) (auto simp: partial_def split: option.splits)
  then obtain tried where tried: "tried_by t r tried"
    "\<And>p. p \<notin> {t, partial_path t} \<union> set_option staged \<Longrightarrow> kept_at r \<noteq> Some p \<Longrightarrow> f' p = after_tries (v_keep e) tried f p"
    unfolding tidy_def by blast
  show "\<exists>tried.
      (case r of
         Inl (Unpublished k kd) \<Rightarrow> \<exists>rest. kept_names t = tried @ k # rest
       | Inl (Io kd) \<Rightarrow> tried = [] \<or> kd = Unsupported \<and> tried = kept_names t
       | _ \<Rightarrow> tried = []) \<and>
      (\<forall>p. p \<notin> {t, partial_path t} \<union> set_option staged \<and> (\<forall>kd. r \<noteq> Inl (Unpublished p kd)) \<longrightarrow>
        f' p = (let ours = Some \<lparr>f_bytes = [], f_id = kp_id (v_keep e) p\<rparr>; now = kp_others (v_keep e) p ours
          in if p \<notin> set tried \<or> f p \<noteq> None \<or> \<not> kp_create (v_keep e) p then f p
             else if now = ours \<and> kp_id_read (v_keep e) p \<and> kp_removed (v_keep e) p then None else now))"
  proof (intro exI [of _ tried] conjI allI impI)
    show "case r of
         Inl (Unpublished k kd) \<Rightarrow> \<exists>rest. kept_names t = tried @ k # rest
       | Inl (Io kd) \<Rightarrow> tried = [] \<or> kd = Unsupported \<and> tried = kept_names t
       | _ \<Rightarrow> tried = []" by (rule tried(1) [unfolded tried_by_def])
    fix p assume p: "p \<notin> {t, partial_path t} \<union> set_option staged \<and> (\<forall>kd. r \<noteq> Inl (Unpublished p kd))"
    have "f' p = after_tries (v_keep e) tried f p" using tried(2) [of p] p by (simp add: kept_at_other)
    then show "f' p = (let ours = Some \<lparr>f_bytes = [], f_id = kp_id (v_keep e) p\<rparr>; now = kp_others (v_keep e) p ours
          in if p \<notin> set tried \<or> f p \<noteq> None \<or> \<not> kp_create (v_keep e) p then f p
             else if now = ours \<and> kp_id_read (v_keep e) p \<and> kp_removed (v_keep e) p then None else now)"
      by (simp add: after_tries_def left_at_def Let_def)
  qed
next
  fix landing g h p y
  assume "keep_unpublished (v_keep e) landing (kept_names t) g = (None, h)"
  then have h: "h = after_tries (v_keep e) (kept_names t) g" using assms(2) keep_unpublished_none by simp
  show "h p = Some y" if "g p = Some y" using that by (simp add: h after_tries_def left_at_def)
  show "h p = Some y" if "p \<in> set (kept_names t) \<and> g p = None \<and> kp_create (v_keep e) p \<and>
      kp_others (v_keep e) p (Some \<lparr>f_bytes = [], f_id = kp_id (v_keep e) p\<rparr>) = Some y \<and>
      y \<noteq> \<lparr>f_bytes = [], f_id = kp_id (v_keep e) p\<rparr>"
    using that by (simp add: h after_tries_def left_at_def)
qed

text \<open>A small remux: a mux of three bytes with two tracks, into a folder that holds another title.\<close>

definition sample_target :: path where "sample_target = Path ''/m'' ''a.mkv''"

definition sample_probe :: probe_fn where
  "sample_probe bs = (if length bs = 3 then Inr \<lparr>p_tracks = 2, p_last_cue_secs = None, p_duration_secs = None\<rparr> else Inl (LibCode 1))"

definition sample_verify :: VerifyEnv where
  "sample_verify = \<lparr>ve_stat = None, ve_open = None, ve_spawn = None,
     ve_wait = [\<lparr>w_rx = Nothing, w_cancelled = False, w_stalled = False\<rparr>, \<lparr>w_rx = Done (), w_cancelled = False, w_stalled = False\<rparr>]\<rparr>"

definition sample_land_env :: LandEnv where
  "sample_land_env = \<lparr>v_utf8 = True, v_lock = None, v_stale = None, v_written = Some \<lparr>f_bytes = [4, 5, 6], f_id = 7\<rparr>,
     v_mux = Inr \<lparr>completed = True, m_halted = False\<rparr>, v_mux_cancelled = False, v_sync = None, v_verify = sample_verify,
     v_stale2 = None,
     v_copy = \<lparr>cp_open = None, cp_create = None, cp_id = 9, cp_spawn = None, cp_wait = [], cp_chunks = [], cp_part = 0,
       cp_truncated = False, cp_stat = None\<rparr>,
     v_sync2 = None, v_verify2 = sample_verify, v_meanwhile = id, v_refuse = None, v_present = None, v_cancelled = False,
     v_late = id, v_land = None,
     v_keep = \<lparr>kp_create = (\<lambda>_. True), kp_id = (\<lambda>_. 3), kp_id_read = (\<lambda>_. True), kp_others = (\<lambda>_ x. x),
       kp_rename = (\<lambda>_. True), kp_removed = (\<lambda>_. True)\<rparr>,
     v_removed = (\<lambda>_. True)\<rparr>"

definition sample_report :: RemuxReport where
  "sample_report = \<lparr>rp_outcome = \<lparr>completed = True, m_halted = False\<rparr>,
     rp_verified = \<lparr>p_tracks = 2, p_last_cue_secs = None, p_duration_secs = None\<rparr>, rp_replaced = False\<rparr>"

lemma sample_names_distinct: "distinct (sample_target # kept_names sample_target)"
  by code_simp

lemma sample_run:
  "land_verified sample_probe sample_land_env False 0 (Fin 0) sample_target None (\<lambda>p. None)
    = Some (Inr sample_report, (\<lambda>p. None)(sample_target \<mapsto> \<lparr>f_bytes = [4, 5, 6], f_id = 7\<rparr>))"
proof -
  have ne: "partial_path sample_target \<noteq> sample_target" by (rule partial_not_target)
  have check: "check_probe (Fin 0) \<lparr>p_tracks = 2, p_last_cue_secs = None, p_duration_secs = None\<rparr>
      = Inr \<lparr>p_tracks = 2, p_last_cue_secs = None, p_duration_secs = None\<rparr>"
    by (simp add: check_probe_def)
  show ?thesis
    using ne
    by (simp add: land_verified_def Let_def sample_land_env_def remove_stale_partial_def bind_res_def lib_res_def finished_def
        verify_watched_def nonempty_len_def sample_verify_def sample_probe_def check publish_phase_def at_path_def
        refuse_existing_def target_present_def land_def move_file_def sample_report_def drop_partial_def fun_upd_twist)
qed

theorem remux_lands_verified_witness:
  "\<exists>(x :: RFile) pr. f_bytes x \<noteq> [] \<and> bind_res (lib_res (sample_probe (f_bytes x))) (check_probe (Fin 0)) = Inr pr"
proof -
  note out = remux_lands_verified [OF sample_run sample_names_distinct]
  show ?thesis using conjunct1 [OF conjunct1 [OF out, unfolded sum.case]] by blast
qed

end
