(* ===== verification/TitleLoop.thy ===== *)
theory TitleLoop
  imports Remux
begin

text \<open>
  The loop over the titles of a rip (\<open>src/src/mux.rs\<close>) and the mux of the titles of an image with it
  (\<open>src/src/remux.rs\<close>): what ends the loop, what it skips, and which file of a failed title it removes.
  An error is what the disc library's classifiers say of it. The front end's sink and the mux of one title are
  operations on a state; log lines are left out.
\<close>

subsection \<open>One title\<close>

datatype TitleResult = TitleOk | DiscLevelNoKey | SkippableStub | TitleFailed | TitleHalted

record 'e ErrLib =
  is_halt :: "'e \<Rightarrow> bool"
  is_disc_level_no_key :: "'e \<Rightarrow> bool"
  is_skippable_title_stub :: "'e \<Rightarrow> bool"
  error_code :: "'e \<Rightarrow> nat option"
  error_kind :: "'e \<Rightarrow> nat"
  error_text :: "'e \<Rightarrow> string"
  e_mkv_invalid :: nat

definition classify_title_error :: "'e ErrLib \<Rightarrow> 'e \<Rightarrow> TitleResult" where
  "classify_title_error K x =
     (if is_halt K x then TitleHalted
      else if is_disc_level_no_key K x then DiscLevelNoKey
      else if is_skippable_title_stub K x then SkippableStub
      else TitleFailed)"

datatype TitleAction = Continue | Skip | StopHalt | StopNoKey | StopFatal

definition decide_title :: "TitleResult \<Rightarrow> bool \<Rightarrow> bool \<Rightarrow> bool \<Rightarrow> TitleAction" where
  "decide_title r is_feature multi_title explicit =
     (case r of
        TitleOk \<Rightarrow> Continue
      | TitleHalted \<Rightarrow> StopHalt
      | DiscLevelNoKey \<Rightarrow> StopNoKey
      | SkippableStub \<Rightarrow> if \<not> is_feature \<and> multi_title \<and> \<not> explicit then Skip else StopFatal
      | TitleFailed \<Rightarrow> StopFatal)"

record Failure =
  title_index :: nat
  fail_code :: "nat option"
  fail_kind :: nat
  fail_data :: string

datatype RipOutcome = RipOk nat | RipNoKey | RipFailed Failure | RipHalted

text \<open>The code and the data of an error's \<open>E<code>: <data>\<close> form (\<open>src/src/image.rs\<close>).\<close>

definition parse_error_code :: "string \<Rightarrow> (nat \<times> string) option" where
  "parse_error_code s =
     (case strip_prefix ''E'' s of
        None \<Rightarrow> None
      | Some rest \<Rightarrow>
          (let digit = (\<lambda>c. 48 \<le> (of_char c :: nat) \<and> (of_char c :: nat) \<le> 57); tail = dropWhile digit rest
           in case from_str_radix 10 65535 (takeWhile digit rest) of
                None \<Rightarrow> None
              | Some code \<Rightarrow> Some (code, case strip_prefix '':'' tail of None \<Rightarrow> [] | Some d \<Rightarrow> trim d)))"

definition error_data :: "'e ErrLib \<Rightarrow> 'e \<Rightarrow> string" where
  "error_data K x = (case parse_error_code (error_text K x) of None \<Rightarrow> [] | Some (_, d) \<Rightarrow> d)"

record 'e TitleError =
  t_result :: TitleResult
  t_error :: 'e

definition title_error :: "'e ErrLib \<Rightarrow> 'e \<Rightarrow> 'e TitleError" where
  "title_error K x = \<lparr>t_result = classify_title_error K x, t_error = x\<rparr>"

subsection \<open>The loop\<close>

datatype 'e RunEvent =
  TitleStartEvent nat string
| TitleDoneEvent nat string "'e option"
| TitleFailedEvent nat 'e
| TitleSkippedEvent nat bool

record ('e, 's) TitleOps =
  should_cancel :: "'s \<Rightarrow> bool \<times> 's"
  emit :: "'e RunEvent \<Rightarrow> 's \<Rightarrow> 's"
  mux_one :: "nat \<Rightarrow> 's \<Rightarrow> 'e TitleError option \<times> 's"

text \<open>How one turn of the loop ends; \<open>Dropped\<close> is a failure the loop goes on after.\<close>

datatype StepEnd = Written | Passed | Dropped Failure | Stop RipOutcome

definition code_of :: "'e ErrLib \<Rightarrow> 'e \<Rightarrow> nat option" where
  "code_of K x = or_else (error_code K x) (map_option fst (parse_error_code (error_text K x)))"

definition failure_of :: "'e ErrLib \<Rightarrow> nat \<Rightarrow> 'e \<Rightarrow> Failure" where
  "failure_of K idx x =
     \<lparr>title_index = idx, fail_code = code_of K x, fail_kind = error_kind K x, fail_data = error_data K x\<rparr>"

definition title_step ::
  "'e ErrLib \<Rightarrow> ('e, 's) TitleOps \<Rightarrow> bool \<Rightarrow> bool \<Rightarrow> bool \<Rightarrow> nat \<Rightarrow> 's \<Rightarrow> StepEnd \<times> 's" where
  "title_step K ops multi_title explicit keep_going idx s =
     (case should_cancel ops s of
        (True, s) \<Rightarrow> (Stop RipHalted, s)
      | (False, s) \<Rightarrow>
          (case mux_one ops idx s of
             (None, s) \<Rightarrow> (Written, s)
           | (Some x, s) \<Rightarrow>
               (let told = emit ops (TitleFailedEvent idx (t_error x)) s
                in case decide_title (t_result x) (idx = 0) multi_title explicit of
                     Continue \<Rightarrow> (Written, s)
                   | Skip \<Rightarrow> (Passed, emit ops (TitleSkippedEvent idx (code_of K (t_error x) = Some (e_mkv_invalid K))) s)
                   | StopHalt \<Rightarrow> (Stop RipHalted, told)
                   | StopNoKey \<Rightarrow> (Stop RipNoKey, told)
                   | StopFatal \<Rightarrow>
                       (if keep_going then (Dropped (failure_of K idx (t_error x)), told)
                        else (Stop (RipFailed (failure_of K idx (t_error x))), told)))))"

text \<open>The count of the titles written and the last failure gone past.\<close>

fun title_walk ::
  "'e ErrLib \<Rightarrow> ('e, 's) TitleOps \<Rightarrow> bool \<Rightarrow> bool \<Rightarrow> bool \<Rightarrow> nat list \<Rightarrow> nat \<Rightarrow> Failure option \<Rightarrow> 's \<Rightarrow>
   RipOutcome \<times> 's" where
  "title_walk K ops m explicit keep [] written last_failure s =
     ((case last_failure of Some f \<Rightarrow> if written = 0 then RipFailed f else RipOk written | None \<Rightarrow> RipOk written), s)"
| "title_walk K ops m explicit keep (i # is) written last_failure s =
     (case title_step K ops m explicit keep i s of
        (Written, s) \<Rightarrow> title_walk K ops m explicit keep is (written + 1) last_failure s
      | (Passed, s) \<Rightarrow> title_walk K ops m explicit keep is written last_failure s
      | (Dropped f, s) \<Rightarrow> title_walk K ops m explicit keep is written (Some f) s
      | (Stop out, s) \<Rightarrow> (out, s))"

definition title_loop ::
  "'e ErrLib \<Rightarrow> ('e, 's) TitleOps \<Rightarrow> nat list \<Rightarrow> bool \<Rightarrow> bool \<Rightarrow> 's \<Rightarrow> RipOutcome \<times> 's" where
  "title_loop K ops is explicit keep s = title_walk K ops (length is > 1) explicit keep is 0 None s"

definition run_titles_with :: "'e ErrLib \<Rightarrow> ('e, 's) TitleOps \<Rightarrow> nat list \<Rightarrow> bool \<Rightarrow> 's \<Rightarrow> RipOutcome \<times> 's" where
  "run_titles_with K ops is explicit s = title_loop K ops is explicit False s"

definition run_episodes :: "'e ErrLib \<Rightarrow> ('e, 's) TitleOps \<Rightarrow> nat list \<Rightarrow> 's \<Rightarrow> RipOutcome \<times> 's" where
  "run_episodes K ops is s = title_loop K ops is False True s"

text \<open>\<open>run_titles\<close> classifies the error of the mux it is given.\<close>

definition classified ::
  "'e ErrLib \<Rightarrow> (nat \<Rightarrow> 's \<Rightarrow> 'e option \<times> 's) \<Rightarrow> nat \<Rightarrow> 's \<Rightarrow> 'e TitleError option \<times> 's" where
  "classified K mux i s = (case mux i s of (r, s) \<Rightarrow> (map_option (title_error K) r, s))"

definition run_titles ::
  "'e ErrLib \<Rightarrow> ('e, 's) TitleOps \<Rightarrow> (nat \<Rightarrow> 's \<Rightarrow> 'e option \<times> 's) \<Rightarrow> nat list \<Rightarrow> bool \<Rightarrow> 's \<Rightarrow> RipOutcome \<times> 's" where
  "run_titles K ops mux is explicit s = run_titles_with K (ops\<lparr>mux_one := classified K mux\<rparr>) is explicit s"

subsection \<open>The titles of an image\<close>

text \<open>
  What the mux of one title meets: the answer to the poll before it, what the mux and others leave on the
  disk, the identity its output reported when it opened (none on some file systems), whether the
  destination is a regular file when the title failed, and whether its removal succeeds.
\<close>

record TitleEnv =
  t_poll :: bool
  t_mux :: "lib_error + MuxOutcome"
  t_files :: "rfs \<Rightarrow> rfs"
  t_opened :: "nat option option"
  t_cancelled :: bool
  t_regular :: bool
  t_removed :: bool

record TitleRun =
  r_at :: nat
  r_files :: rfs
  r_events :: "remux_error RunEvent list"

text \<open>\<open>output_path\<close> is what the library's URL parser makes of a file sink; a folder has no file.\<close>

definition output_file :: "(string \<Rightarrow> path option) \<Rightarrow> string \<Rightarrow> path option" where
  "output_file output_path dest = (if dest \<noteq> [] \<and> last dest = CHR ''/'' then None else output_path dest)"

definition still_opened :: "TitleEnv \<Rightarrow> path option \<Rightarrow> rfs \<Rightarrow> path option" where
  "still_opened e out f =
     (case (out, t_opened e) of
        (Some p, Some (Some ident)) \<Rightarrow>
          (if t_regular e \<and> map_option f_id (f p) = Some ident then Some p else None)
      | _ \<Rightarrow> None)"

definition tell :: "remux_error RunEvent \<Rightarrow> TitleRun \<Rightarrow> TitleRun" where
  "tell e s = s\<lparr>r_events := r_events s @ [e]\<rparr>"

definition mux_title_of ::
  "(nat \<Rightarrow> TitleEnv) \<Rightarrow> (string \<Rightarrow> path option) \<Rightarrow> (nat \<Rightarrow> string) \<Rightarrow> nat \<Rightarrow> TitleRun \<Rightarrow> remux_error option \<times> TitleRun" where
  "mux_title_of env output_path dest idx s0 =
     (let e = env (r_at s0); d = dest idx;
          s = (tell (TitleStartEvent idx d) s0)\<lparr>r_at := r_at s0 + 1, r_files := t_files e (r_files s0)\<rparr>;
          result = bind_res (lib_res (t_mux e)) (finished (t_cancelled e) idx);
          err = (case result of Inl x \<Rightarrow> Some x | Inr _ \<Rightarrow> None);
          s = (case (err, still_opened e (output_file output_path d) (r_files s)) of
                 (Some _, Some p) \<Rightarrow> if t_removed e then s\<lparr>r_files := (r_files s)(p := None)\<rparr> else s
               | _ \<Rightarrow> s)
      in (err, tell (TitleDoneEvent idx d err) s))"

definition image_ops :: "(nat \<Rightarrow> TitleEnv) \<Rightarrow> (remux_error, TitleRun) TitleOps" where
  "image_ops env = \<lparr>should_cancel = (\<lambda>s. (t_poll (env (r_at s)), s)), emit = tell, mux_one = (\<lambda>_ s. (None, s))\<rparr>"

definition mux_titles ::
  "remux_error ErrLib \<Rightarrow> (nat \<Rightarrow> TitleEnv) \<Rightarrow> (string \<Rightarrow> path option) \<Rightarrow> (nat \<Rightarrow> string) \<Rightarrow> nat list \<Rightarrow> bool \<Rightarrow> TitleRun \<Rightarrow>
   RipOutcome \<times> TitleRun" where
  "mux_titles K env output_path dest titles explicit s =
     run_titles K (image_ops env) (mux_title_of env output_path dest) titles explicit s"

text \<open>Keys refused before any title: told as the failure of the first title, and a stop is silent.\<close>

definition refused_up_front ::
  "remux_error ErrLib \<Rightarrow> remux_error \<Rightarrow> (nat \<Rightarrow> string) \<Rightarrow> nat list \<Rightarrow> TitleRun \<Rightarrow> RipOutcome \<times> TitleRun" where
  "refused_up_front K x dest titles s =
     (let first = (case titles of [] \<Rightarrow> 0 | i # _ \<Rightarrow> i); verdict = classify_title_error K x;
          s = (if verdict \<noteq> TitleHalted \<and> titles \<noteq> []
               then tell (TitleDoneEvent first (dest first) (Some x)) (tell (TitleStartEvent first (dest first)) s) else s)
      in (case verdict of
            TitleHalted \<Rightarrow> RipHalted
          | DiscLevelNoKey \<Rightarrow> RipNoKey
          | _ \<Rightarrow> RipFailed \<lparr>title_index = first, fail_code = error_code K x, fail_kind = error_kind K x, fail_data = error_data K x\<rparr>,
          s))"

text \<open>The keys are one resolve over the titles of the plan.\<close>

definition mux_image_titles ::
  "remux_error ErrLib \<Rightarrow> remux_error option \<Rightarrow> (nat \<Rightarrow> TitleEnv) \<Rightarrow> (string \<Rightarrow> path option) \<Rightarrow> (nat \<Rightarrow> string) \<Rightarrow> nat list \<Rightarrow> bool \<Rightarrow>
   TitleRun \<Rightarrow> RipOutcome \<times> TitleRun" where
  "mux_image_titles K keys env output_path dest titles explicit s =
     (case keys of
        Some x \<Rightarrow> refused_up_front K x dest titles s
      | None \<Rightarrow> mux_titles K env output_path dest titles explicit s)"

end
