(* ===== verification/TitleLoopProps.thy ===== *)
theory TitleLoopProps
  imports TitleLoop
begin

text \<open>
  What a rip of several titles reports: the history of its muxes decides its outcome, nothing is muxed after
  a stop, and the clean-up after a failed title touches no file but the one that title opened.
\<close>

subsection \<open>The history of a run\<close>

type_synonym 'e history = "(nat \<times> 'e TitleError option) list"

text \<open>The same operations, with a record of every mux and its result.\<close>

definition watched :: "('e, 's) TitleOps \<Rightarrow> ('e, 's \<times> 'e history) TitleOps" where
  "watched ops =
     \<lparr>should_cancel = (\<lambda>(s, h). case should_cancel ops s of (b, s) \<Rightarrow> (b, s, h)),
      emit = (\<lambda>e (s, h). (emit ops e s, h)),
      mux_one = (\<lambda>i (s, h). case mux_one ops i s of (r, s) \<Rightarrow> (r, s, h @ [(i, r)]))\<rparr>"

definition was_written :: "nat \<times> 'e TitleError option \<Rightarrow> bool" where
  "was_written z \<longleftrightarrow> (case snd z of None \<Rightarrow> True | Some x \<Rightarrow> t_result x = TitleOk)"

definition was_skipped :: "bool \<Rightarrow> bool \<Rightarrow> nat \<times> 'e TitleError option \<Rightarrow> bool" where
  "was_skipped m explicit z \<longleftrightarrow>
     (case snd z of None \<Rightarrow> False | Some x \<Rightarrow> t_result x = SkippableStub \<and> fst z \<noteq> 0 \<and> m \<and> \<not> explicit)"

definition failed_hard :: "bool \<Rightarrow> bool \<Rightarrow> nat \<times> 'e TitleError option \<Rightarrow> bool" where
  "failed_hard m explicit z \<longleftrightarrow>
     (case snd z of
        None \<Rightarrow> False
      | Some x \<Rightarrow> t_result x = TitleFailed \<or> t_result x = SkippableStub \<and> (fst z = 0 \<or> \<not> m \<or> explicit))"

definition passes :: "bool \<Rightarrow> bool \<Rightarrow> bool \<Rightarrow> nat \<times> 'e TitleError option \<Rightarrow> bool" where
  "passes m explicit keep z \<longleftrightarrow> was_written z \<or> was_skipped m explicit z \<or> keep \<and> failed_hard m explicit z"

definition failure_at :: "'e ErrLib \<Rightarrow> nat \<times> 'e TitleError option \<Rightarrow> Failure" where
  "failure_at K z = failure_of K (fst z) (t_error (the (snd z)))"

text \<open>What the outcome says of the muxes of a run and of the titles left.\<close>

definition told ::
  "'e ErrLib \<Rightarrow> bool \<Rightarrow> bool \<Rightarrow> bool \<Rightarrow> nat \<Rightarrow> Failure option \<Rightarrow> 'e history \<Rightarrow> nat list \<Rightarrow> RipOutcome \<Rightarrow> bool" where
  "told K m explicit keep w lst h rest out \<longleftrightarrow>
     (case out of
        RipOk n \<Rightarrow> rest = [] \<and> list_all (passes m explicit keep) h \<and> n = w + length (filter was_written h) \<and>
          (n = 0 \<longrightarrow> lst = None \<and> list_all (was_skipped m explicit) h)
      | RipNoKey \<Rightarrow> h \<noteq> [] \<and> list_all (passes m explicit keep) (butlast h) \<and>
          map_option t_result (snd (last h)) = Some DiscLevelNoKey
      | RipHalted \<Rightarrow> (rest \<noteq> [] \<and> list_all (passes m explicit keep) h) \<or>
          (h \<noteq> [] \<and> list_all (passes m explicit keep) (butlast h) \<and> map_option t_result (snd (last h)) = Some TitleHalted)
      | RipFailed f \<Rightarrow>
          (if keep
           then rest = [] \<and> list_all (passes m explicit keep) h \<and> w = 0 \<and> filter was_written h = [] \<and>
             (case filter (failed_hard m explicit) h of [] \<Rightarrow> lst = Some f | zs \<Rightarrow> f = failure_at K (last zs))
           else h \<noteq> [] \<and> list_all (passes m explicit keep) (butlast h) \<and> failed_hard m explicit (last h) \<and> f = failure_at K (last h)))"

lemma title_step_watched:
  "title_step K (watched ops) m explicit keep i (s, h) =
     (case title_step K ops m explicit keep i s of
        (z, s') \<Rightarrow> (z, s', if fst (should_cancel ops s) then h else h @ [(i, fst (mux_one ops i (snd (should_cancel ops s))))]))"
  by (simp add: title_step_def watched_def Let_def split: prod.splits bool.splits option.splits TitleAction.splits)

lemma title_step_cases:
  assumes "title_step K ops m explicit keep i s = (z, s')"
  obtains (cancel) "fst (should_cancel ops s)" "z = Stop RipHalted"
  | (written) r where "\<not> fst (should_cancel ops s)" "fst (mux_one ops i (snd (should_cancel ops s))) = r"
      "z = Written" "was_written (i, r)" "\<not> was_skipped m explicit (i, r)" "\<not> failed_hard m explicit (i, r)"
  | (skipped) r where "\<not> fst (should_cancel ops s)" "fst (mux_one ops i (snd (should_cancel ops s))) = r"
      "z = Passed" "was_skipped m explicit (i, r)" "\<not> was_written (i, r)" "\<not> failed_hard m explicit (i, r)"
  | (dropped) r where "\<not> fst (should_cancel ops s)" "fst (mux_one ops i (snd (should_cancel ops s))) = r" "keep"
      "z = Dropped (failure_at K (i, r))" "failed_hard m explicit (i, r)" "\<not> was_written (i, r)" "\<not> was_skipped m explicit (i, r)"
  | (failed) r where "\<not> fst (should_cancel ops s)" "fst (mux_one ops i (snd (should_cancel ops s))) = r" "\<not> keep"
      "z = Stop (RipFailed (failure_at K (i, r)))" "failed_hard m explicit (i, r)"
  | (nokey) r where "\<not> fst (should_cancel ops s)" "fst (mux_one ops i (snd (should_cancel ops s))) = r"
      "z = Stop RipNoKey" "map_option t_result r = Some DiscLevelNoKey"
  | (halted) r where "\<not> fst (should_cancel ops s)" "fst (mux_one ops i (snd (should_cancel ops s))) = r"
      "z = Stop RipHalted" "map_option t_result r = Some TitleHalted"
proof (cases "should_cancel ops s")
  case (Pair b s1)
  show ?thesis
  proof (cases b)
    case True
    then show ?thesis using assms Pair cancel by (simp add: title_step_def)
  next
    case b: False
    obtain r s2 where mux: "mux_one ops i s1 = (r, s2)" by fastforce
    have pre: "\<not> fst (should_cancel ops s)" "fst (mux_one ops i (snd (should_cancel ops s))) = r" using Pair b mux by simp_all
    show ?thesis
    proof (cases r)
      case None
      then have "z = Written" using assms Pair b mux by (simp add: title_step_def)
      then show ?thesis using written [OF pre] None by (simp add: was_written_def was_skipped_def failed_hard_def)
    next
      case (Some x)
      note defs = was_written_def was_skipped_def failed_hard_def failure_at_def decide_title_def
      have step: "(z, s') = (case decide_title (t_result x) (i = 0) m explicit of
           Continue \<Rightarrow> (Written, s2)
         | Skip \<Rightarrow> (Passed, emit ops (TitleSkippedEvent i (code_of K (t_error x) = Some (e_mkv_invalid K))) s2)
         | StopHalt \<Rightarrow> (Stop RipHalted, emit ops (TitleFailedEvent i (t_error x)) s2)
         | StopNoKey \<Rightarrow> (Stop RipNoKey, emit ops (TitleFailedEvent i (t_error x)) s2)
         | StopFatal \<Rightarrow>
             (if keep then (Dropped (failure_of K i (t_error x)), emit ops (TitleFailedEvent i (t_error x)) s2)
              else (Stop (RipFailed (failure_of K i (t_error x))), emit ops (TitleFailedEvent i (t_error x)) s2)))"
        using assms Pair b mux Some by (simp add: title_step_def Let_def)
      show ?thesis
      proof (cases "t_result x")
        case TitleOk
        then show ?thesis using written [OF pre] step Some by (simp add: defs)
      next
        case DiscLevelNoKey
        then show ?thesis using nokey [OF pre] step Some by (simp add: defs)
      next
        case SkippableStub
        then show ?thesis using skipped [OF pre] dropped [OF pre] failed [OF pre] step Some
          by (cases "i \<noteq> 0 \<and> m \<and> \<not> explicit"; cases keep) (auto simp: defs)
      next
        case TitleFailed
        then show ?thesis using dropped [OF pre] failed [OF pre] step Some by (cases keep) (auto simp: defs)
      next
        case TitleHalted
        then show ?thesis using halted [OF pre] step Some by (simp add: defs)
      qed
    qed
  qed
qed

lemma title_walk_watched:
  assumes "title_walk K (watched ops) m explicit keep is w lst (s, h0) = (out, s', h)" and "\<not> keep \<longrightarrow> lst = None"
  shows "title_walk K ops m explicit keep is w lst s = (out, s') \<and>
    (\<exists>h1 rest. h = h0 @ h1 \<and> is = map fst h1 @ rest \<and> told K m explicit keep w lst h1 rest out)"
  using assms
proof (induction "is" arbitrary: w lst s h0)
  case Nil
  then show ?case by (auto simp: told_def split: option.splits if_splits)
next
  case (Cons i "is")
  obtain z s1 where st: "title_step K ops m explicit keep i s = (z, s1)" by fastforce
  let ?r = "fst (mux_one ops i (snd (should_cancel ops s)))"
  have go: thesis
    if run: "title_walk K (watched ops) m explicit keep is w' lst' (s1, h0 @ [(i, ?r)]) = (out, s', h)" "\<not> keep \<longrightarrow> lst' = None"
      and same: "title_walk K ops m explicit keep (i # is) w lst s = title_walk K ops m explicit keep is w' lst' s1"
      and told: "\<And>h1 rest. told K m explicit keep w' lst' h1 rest out \<Longrightarrow> told K m explicit keep w lst ((i, ?r) # h1) rest out"
      and fin: "title_walk K ops m explicit keep (i # is) w lst s = (out, s') \<and>
        (\<exists>h1 rest. h = h0 @ h1 \<and> i # is = map fst h1 @ rest \<and> told K m explicit keep w lst h1 rest out) \<Longrightarrow> thesis"
    for w' lst' thesis
  proof -
    obtain h1 rest where "title_walk K ops m explicit keep is w' lst' s1 = (out, s')" "h = h0 @ [(i, ?r)] @ h1"
        "is = map fst h1 @ rest" "told K m explicit keep w' lst' h1 rest out"
      using Cons.IH [OF run] by auto
    then show thesis using told same by (intro fin conjI exI [of _ "(i, ?r) # h1"] exI [of _ rest]) auto
  qed
  note run = Cons.prems(1) [simplified title_walk.simps title_step_watched st prod.case]
  from st show ?case
  proof (cases rule: title_step_cases)
    case cancel
    then show ?thesis using run st by (auto simp: told_def)
  next
    case (written r)
    show ?thesis
      by (rule go [of "w + 1" lst]) (use run st written Cons.prems(2) in \<open>auto simp: told_def passes_def split: RipOutcome.splits list.splits if_splits\<close>)
  next
    case (skipped r)
    show ?thesis
      by (rule go [of w lst]) (use run st skipped Cons.prems(2) in \<open>auto simp: told_def passes_def split: RipOutcome.splits list.splits if_splits\<close>)
  next
    case (dropped r)
    show ?thesis
      by (rule go [of w "Some (failure_at K (i, ?r))"])
        (use run st dropped in \<open>auto simp: told_def passes_def split: RipOutcome.splits list.splits if_splits\<close>)
  next
    case (failed r)
    then show ?thesis using run st by (auto simp: told_def intro!: exI [of _ "[(i, r)]"])
  next
    case (nokey r)
    then show ?thesis using run st by (auto simp: told_def intro!: exI [of _ "[(i, r)]"])
  next
    case (halted r)
    then show ?thesis using run st by (auto simp: told_def intro!: exI [of _ "[(i, r)]"])
  qed
qed


subsection \<open>The files of a rip\<close>

text \<open>What every operation keeps, the loop keeps.\<close>

lemma title_step_keeps:
  assumes "I s" and "\<And>s. I s \<Longrightarrow> I (snd (should_cancel ops s))" and "\<And>e s. I s \<Longrightarrow> I (emit ops e s)"
    and "\<And>i s. I s \<Longrightarrow> I (snd (mux_one ops i s))"
  shows "I (snd (title_step K ops m explicit keep i s))"
proof -
  obtain b s1 r s2 where "should_cancel ops s = (b, s1)" "mux_one ops i s1 = (r, s2)" by fastforce
  moreover from this have "I s1" "I s2" using assms(1) assms(2) [of s] assms(4) [of s1 i] by simp_all
  ultimately show ?thesis using assms(3)
    by (auto simp: title_step_def Let_def split: bool.splits option.splits TitleAction.splits)
qed

lemma title_walk_keeps:
  assumes "I s" and "\<And>s. I s \<Longrightarrow> I (snd (should_cancel ops s))" and "\<And>e s. I s \<Longrightarrow> I (emit ops e s)"
    and "\<And>i s. I s \<Longrightarrow> I (snd (mux_one ops i s))"
  shows "I (snd (title_walk K ops m explicit keep is w lst s))"
  using assms(1)
proof (induction "is" arbitrary: w lst s)
  case (Cons i "is")
  obtain z s1 where st: "title_step K ops m explicit keep i s = (z, s1)" by fastforce
  then have "I s1" using title_step_keeps [OF Cons.prems assms(2-4), of K m explicit keep i] by simp
  then show ?case using Cons.IH st by (cases z) simp_all
qed simp

lemma mux_title_of_keeps:
  assumes x: "r_files s p = Some x" and f: "t_files (env (r_at s)) (r_files s) p = Some x"
    and ne: "t_opened (env (r_at s)) \<noteq> Some (Some (f_id x))"
  shows "r_files (snd (mux_title_of env output_path dest i s)) p = Some x"
proof -
  let ?e = "env (r_at s)" and ?f = "t_files (env (r_at s)) (r_files s)"
  have "still_opened ?e out ?f \<noteq> Some p" for out
    using f ne by (auto simp: still_opened_def split: option.splits if_splits)
  then show ?thesis using f
    by (auto simp: mux_title_of_def Let_def tell_def split: sum.splits option.splits)
qed

text \<open>
C8: A rip of the titles of an image removes no file it did not open: a file that the muxes and the others on the
machine leave alone, and whose identity no output of the rip reported, is there at the end as it was, whatever titles
failed or were stopped.
\<close>

theorem mux_titles_keeps_others:
  assumes "r_files s p = Some x"
    and "\<And>k f. f p = Some x \<Longrightarrow> t_files (env k) f p = Some x"
    and "\<And>k. t_opened (env k) \<noteq> Some (Some (f_id x))"
  shows "r_files (snd (mux_image_titles K keys env output_path dest titles explicit s)) p = Some x"
proof (cases keys)
  case None
  let ?ops = "image_ops env\<lparr>mux_one := classified K (mux_title_of env output_path dest)\<rparr>"
  have "r_files (snd (title_walk K ?ops m explicit False titles w lst s)) p = Some x" for m w lst
  proof (rule title_walk_keeps [where I = "\<lambda>s. r_files s p = Some x"])
    show "r_files (snd (mux_one ?ops i s)) p = Some x" if "r_files s p = Some x" for i s
      using mux_title_of_keeps [of s p x env output_path dest i] that assms(2,3)
      by (cases "mux_title_of env output_path dest i s") (simp add: classified_def)
  qed (use assms(1) in \<open>simp_all add: image_ops_def tell_def\<close>)
  then show ?thesis using None by (simp add: mux_image_titles_def mux_titles_def run_titles_def run_titles_with_def title_loop_def)
next
  case (Some y)
  then show ?thesis using assms(1) by (simp add: mux_image_titles_def refused_up_front_def Let_def tell_def)
qed

text \<open>Two titles into one folder: the mux of the first fails after it opened its output.\<close>

definition sample_error_lib :: "remux_error ErrLib" where
  "sample_error_lib = \<lparr>is_halt = (\<lambda>x. x = Halted), is_disc_level_no_key = (\<lambda>_. False), is_skippable_title_stub = (\<lambda>_. False),
     error_code = (\<lambda>_. None), error_kind = (\<lambda>_. 0), error_text = (\<lambda>_. []), e_mkv_invalid = 9\<rparr>"

definition sample_dest :: "nat \<Rightarrow> string" where
  "sample_dest i = (if i = 0 then ''mkv:///o/a'' else ''mkv:///o/b'')"

definition sample_output :: "string \<Rightarrow> path option" where
  "sample_output d = Some (Path ''/o'' (drop 9 d))"

definition sample_file :: RFile where
  "sample_file = \<lparr>f_bytes = [1], f_id = 3\<rparr>"

definition sample_title_env :: "nat \<Rightarrow> TitleEnv" where
  "sample_title_env k = \<lparr>t_poll = False, t_mux = Inr \<lparr>completed = (k \<noteq> 0), m_halted = False\<rparr>,
     t_files = (\<lambda>f. f(Path ''/o'' (if k = 0 then ''a'' else ''b'') \<mapsto> \<lparr>f_bytes = [2], f_id = 7 + k\<rparr>)),
     t_opened = Some (Some (7 + k)), t_cancelled = False, t_regular = True, t_removed = True\<rparr>"

definition sample_title_run :: TitleRun where
  "sample_title_run = \<lparr>r_at = 0, r_files = [Path ''/o'' ''c'' \<mapsto> sample_file], r_events = []\<rparr>"

lemma sample_removed:
  "r_files (snd (mux_image_titles sample_error_lib None sample_title_env sample_output sample_dest [0, 1] False sample_title_run))
     (Path ''/o'' ''a'') = None"
  by code_simp

theorem mux_titles_keeps_others_witness:
  "r_files (snd (mux_image_titles sample_error_lib None sample_title_env sample_output sample_dest [0, 1] False sample_title_run))
     (Path ''/o'' ''c'') = Some sample_file"
  by (rule mux_titles_keeps_others) (simp_all add: sample_title_run_def sample_title_env_def sample_file_def)

end
