(* ===== verification/Speed.thy ===== *)
theory Speed
  imports Float64Ops
begin

text \<open>
  The speed and the time left that every front end shows (\<open>src/src/speed.rs\<close>). An instant, and a duration, is
  a count of nanoseconds; going back before the first instant gives no cut-off, and nothing is older then.
\<close>

definition BYTES_PER_MIB :: f64 where "BYTES_PER_MIB = f64_mul (Fin 1024) (Fin 1024)"
definition STATIC_PHASE_SECS :: f64 where "STATIC_PHASE_SECS = Fin 60"
definition STATIC_WINDOW_SECS :: f64 where "STATIC_WINDOW_SECS = Fin 10"
definition GROWTH_PHASE_SECS :: f64 where "GROWTH_PHASE_SECS = Fin 300"
definition MAX_WINDOW_SECS :: f64 where "MAX_WINDOW_SECS = Fin 60"
definition ETA_WARMUP_SECS :: f64 where "ETA_WARMUP_SECS = Fin 10"
definition MAX_PLAUSIBLE_MBS :: f64 where "MAX_PLAUSIBLE_MBS = Fin 1024"

subsection \<open>Durations\<close>

definition NANOS :: nat where "NANOS = 1000000000"

definition as_secs :: "nat \<Rightarrow> f64" where
  "as_secs d = f64_add (f64_of_nat (d div NANOS)) (f64_div (f64_of_nat (d mod NANOS)) (f64_of_nat NANOS))"

text \<open>\<open>from_secs_f64\<close>: to the nearest nanosecond, ties to even. It panics on what is not a duration.\<close>

definition from_secs :: "f64 \<Rightarrow> nat option" where
  "from_secs x = (case x of Fin a \<Rightarrow> if 0 \<le> a then Some (nat (round_half_even (a * of_nat NANOS))) else None | _ \<Rightarrow> None)"

subsection \<open>The estimator\<close>

definition display_window_secs :: "f64 \<Rightarrow> f64" where
  "display_window_secs elapsed =
     (if f64_less elapsed STATIC_PHASE_SECS then STATIC_WINDOW_SECS
      else if f64_less elapsed (f64_add STATIC_PHASE_SECS GROWTH_PHASE_SECS)
      then (let t = f64_sub elapsed STATIC_PHASE_SECS
            in f64_add STATIC_WINDOW_SECS (f64_mul (f64_sub MAX_WINDOW_SECS STATIC_WINDOW_SECS) (f64_div t GROWTH_PHASE_SECS)))
      else MAX_WINDOW_SECS)"

record SpeedEstimator =
  samples :: "(nat \<times> u64) list"
  pass_start :: "(nat \<times> u64) option"
  responsive :: bool

definition new_estimator :: SpeedEstimator where
  "new_estimator = \<lparr>samples = [], pass_start = None, responsive = False\<rparr>"

definition set_responsive :: "bool \<Rightarrow> SpeedEstimator \<Rightarrow> SpeedEstimator" where
  "set_responsive b s = s\<lparr>responsive := b\<rparr>"

definition anchor :: "nat \<Rightarrow> u64 \<Rightarrow> SpeedEstimator \<Rightarrow> SpeedEstimator" where
  "anchor now bytes s =
     (case pass_start s of
        None \<Rightarrow> s\<lparr>pass_start := Some (now, bytes)\<rparr>
      | Some (_, start) \<Rightarrow> if bytes < start then s\<lparr>samples := [], pass_start := Some (now, bytes)\<rparr> else s)"

definition prune :: "nat \<Rightarrow> nat \<Rightarrow> (nat \<times> u64) list \<Rightarrow> (nat \<times> u64) list" where
  "prune now window xs = (if window \<le> now then dropWhile (\<lambda>(t, _). t < now - window) xs else xs)"

definition window_rate :: "(nat \<times> u64) list \<Rightarrow> f64" where
  "window_rate xs =
     (if length xs < 2 then Fin 0
      else
        (case (hd xs, last xs) of
           ((t0, b0), (t1, b1)) \<Rightarrow>
             (let dt = as_secs (t1 - t0)
              in if f64_le dt (Fin 0) then Fin 0
                 else f64_min (f64_div (f64_div (f64_of_nat (b1 - b0)) BYTES_PER_MIB) dt) MAX_PLAUSIBLE_MBS)))"

text \<open>\<open>None\<close> would be a panic.\<close>

definition observe :: "nat \<Rightarrow> u64 \<Rightarrow> SpeedEstimator \<Rightarrow> (f64 \<times> SpeedEstimator) option" where
  "observe now bytes s0 =
     (let s = anchor now bytes s0;
          elapsed = (case pass_start s of Some (t, _) \<Rightarrow> as_secs (now - t) | None \<Rightarrow> Fin 0);
          window = (if responsive s then STATIC_WINDOW_SECS else display_window_secs elapsed)
      in map_option (\<lambda>w. let xs = prune now w (samples s) @ [(now, bytes)] in (window_rate xs, s\<lparr>samples := xs\<rparr>)) (from_secs window))"

definition eta_speed_mbs :: "nat \<Rightarrow> f64 \<Rightarrow> SpeedEstimator \<Rightarrow> f64" where
  "eta_speed_mbs now display s =
     (case pass_start s of
        None \<Rightarrow> display
      | Some (t0, b0) \<Rightarrow>
          (let elapsed = as_secs (now - t0)
           in if f64_less elapsed ETA_WARMUP_SECS then display
              else if samples s = [] then display
              else if snd (last (samples s)) - b0 = 0 then display
              else f64_min (f64_div (f64_div (f64_of_nat (snd (last (samples s)) - b0)) BYTES_PER_MIB) elapsed) MAX_PLAUSIBLE_MBS))"

definition sample_at :: "nat \<Rightarrow> u64 \<Rightarrow> u64 \<Rightarrow> SpeedEstimator \<Rightarrow> ((u64 \<times> u64 option) \<times> SpeedEstimator) option" where
  "sample_at now done whole s0 =
     map_option (\<lambda>(display, s).
       (let rate = eta_speed_mbs now display s;
            bps = f64_to_u64 (f64_mul display BYTES_PER_MIB)
        in ((bps,
             if f64_less (round64 (1 / 10000)) rate \<and> done < whole
             then Some (f64_to_u64 (f64_round (f64_div (f64_div (f64_of_nat (whole - done)) BYTES_PER_MIB) rate)))
             else None), s)))
       (observe now done s0)"

end
