(* ===== verification/SpeedProps.thy ===== *)
theory SpeedProps
  imports Speed Float64Inv
begin

text \<open>
  The estimator never panics, never shows a speed no drive reaches, and its window holds the newest samples of
  the pass, in order and no older than a minute.
\<close>

subsection \<open>Rounding between integers\<close>

lemma round_half_even_le:
  assumes "q \<le> of_int n" shows "round_half_even q \<le> n"
proof (cases "\<lfloor>q\<rfloor> = n")
  case True
  then have "q = of_int n" using assms by linarith
  then show ?thesis by (simp add: round_half_even_def Let_def)
next
  case False
  then have "\<lfloor>q\<rfloor> + 1 \<le> n" using assms by linarith
  then show ?thesis by (simp add: round_half_even_def Let_def)
qed

lemma round64_nonneg:
  assumes "0 \<le> q" shows "at_least 0 (round64 q)"
proof (cases "q = 0")
  case False
  then have "0 \<le> round_half_even (q / pow2 (max (ilog2 \<bar>q\<bar> - 52) (- 1074)))"
    using assms by (intro round_half_even_ge) (simp add: less_imp_le)
  then have "0 \<le> of_int (round_half_even (q / pow2 (max (ilog2 \<bar>q\<bar> - 52) (- 1074)))) * pow2 (max (ilog2 \<bar>q\<bar> - 52) (- 1074))"
    by (simp add: less_imp_le)
  then show ?thesis using False by (auto simp: round64_def Let_def)
qed simp

lemma round64_within:
  assumes "of_nat a \<le> q" and "q \<le> of_nat b" and "b \<le> 2 ^ 52"
  shows "\<exists>v. round64 q = Fin v \<and> of_nat a \<le> v \<and> v \<le> of_nat b"
proof (cases "q = 0")
  case False
  then have q: "0 < q" using assms(1) of_nat_0_le_iff [of a, where 'a = rat] by linarith
  define e where "e = max (ilog2 \<bar>q\<bar> - 52) (- 1074)"
  have b52: "(of_nat b :: rat) \<le> 2 ^ 52" using assms(3) by (metis of_nat_le_iff of_nat_numeral of_nat_power)
  have "ilog2 q < 53"
  proof (rule ccontr)
    assume "\<not> ilog2 q < 53"
    then have "pow2 53 \<le> q" using pow2_mono [of 53 "ilog2 q"] ilog2_le [OF q] by simp
    then show False using assms(2) b52 by (simp add: pow2_def)
  qed
  then have e: "e \<le> 0" using q by (simp add: e_def)
  define m :: int where "m = 2 ^ nat (- e)"
  have m: "of_int m * pow2 e = 1" "0 < m" using e by (simp_all add: m_def pow2_def)
  have scale: "of_nat n / pow2 e = of_int (int n * m)" for n
  proof -
    have "of_int (int n * m) * pow2 e = of_nat n" using m(1) by (simp add: mult.assoc)
    moreover have "pow2 e \<noteq> 0" by (metis less_irrefl pow2_pos)
    ultimately show ?thesis by (simp add: divide_eq_eq)
  qed
  define r where "r = round_half_even (q / pow2 e)"
  have "of_int (int a * m) \<le> q / pow2 e" "q / pow2 e \<le> of_int (int b * m)"
    unfolding scale [symmetric] using assms(1,2) less_imp_le [OF pow2_pos [of e]] by (simp_all add: divide_right_mono)
  then have "int a * m \<le> r" "r \<le> int b * m" unfolding r_def by (blast intro: round_half_even_ge round_half_even_le)+
  then have "of_int (int a * m) * pow2 e \<le> of_int r * pow2 e" "of_int r * pow2 e \<le> of_int (int b * m) * pow2 e"
    by (simp_all only: mult_right_mono of_int_le_iff less_imp_le [OF pow2_pos])
  then have v: "of_nat a \<le> of_int r * pow2 e" "of_int r * pow2 e \<le> of_nat b"
    using m(1) by (simp_all add: mult.assoc)
  have "(2 :: rat) ^ 52 < pow2 1024" by (simp add: pow2_def)
  moreover have "0 \<le> of_int r * pow2 e" using v(1) of_nat_0_le_iff [of a, where 'a = rat] by linarith
  ultimately have "\<bar>of_int r * pow2 e\<bar> < pow2 1024" using v(2) b52 by linarith
  then have "round64 q = Fin (of_int r * pow2 e)"
    using False by (simp add: round64_def Let_def e_def r_def)
  then show ?thesis using v by blast
qed (use assms in auto)

lemma round64_nat: "n \<le> 2 ^ 52 \<Longrightarrow> round64 (of_nat n) = Fin (of_nat n)"
  using round64_within [of n "of_nat n" n] by fastforce

lemma round64_numeral: "(numeral k :: nat) \<le> 2 ^ 52 \<Longrightarrow> round64 (numeral k) = Fin (numeral k)"
  using round64_nat [of "numeral k"] by simp

subsection \<open>The window\<close>

definition between :: "nat \<Rightarrow> nat \<Rightarrow> f64 \<Rightarrow> bool" where
  "between a b x \<longleftrightarrow> (\<exists>v. x = Fin v \<and> of_nat a \<le> v \<and> v \<le> of_nat b)"

lemma between_nat [simp]: "between a b (Fin (of_nat n)) \<longleftrightarrow> a \<le> n \<and> n \<le> b"
  by (simp add: between_def)

lemma display_window_between: "between 10 60 (display_window_secs x)"
proof -
  have c: "f64_add STATIC_PHASE_SECS GROWTH_PHASE_SECS = Fin 360" "f64_sub MAX_WINDOW_SECS STATIC_WINDOW_SECS = Fin 50"
    by (simp_all add: f64_add_def f64_sub_def f64_neg_def STATIC_PHASE_SECS_def GROWTH_PHASE_SECS_def MAX_WINDOW_SECS_def
        STATIC_WINDOW_SECS_def round64_numeral)
  have ends: "between 10 60 STATIC_WINDOW_SECS" "between 10 60 MAX_WINDOW_SECS"
    by (simp_all add: between_def STATIC_WINDOW_SECS_def MAX_WINDOW_SECS_def)
  show ?thesis
  proof (cases "\<not> f64_less x STATIC_PHASE_SECS \<and> f64_less x (Fin 360)")
    case False
    then show ?thesis using ends by (auto simp: display_window_secs_def c)
  next
    case True
    then obtain a where x: "x = Fin a" "60 \<le> a" "a < 360" by (cases x) (auto simp: STATIC_PHASE_SECS_def)
    obtain t where t: "round64 (a - 60) = Fin t" "0 \<le> t" "t \<le> 300" using round64_within [of 0 "a - 60" 300] x by auto
    obtain u where u: "round64 (t / 300) = Fin u" "0 \<le> u" "u \<le> 1" using round64_within [of 0 "t / 300" 1] t by auto
    obtain w where w: "round64 (50 * u) = Fin w" "0 \<le> w" "w \<le> 50" using round64_within [of 0 "50 * u" 50] u by auto
    obtain v where v: "round64 (10 + w) = Fin v" "10 \<le> v" "v \<le> 60" using round64_within [of 10 "10 + w" 60] w by auto
    have ops: "f64_sub x STATIC_PHASE_SECS = Fin t" "f64_div (Fin t) GROWTH_PHASE_SECS = Fin u" "f64_mul (Fin 50) (Fin u) = Fin w"
        "f64_add STATIC_WINDOW_SECS (Fin w) = Fin v"
      using x(1) t(1) u(1) w(1) v(1)
      by (simp_all add: f64_add_def f64_sub_def f64_neg_def f64_mul_def f64_div_def STATIC_PHASE_SECS_def GROWTH_PHASE_SECS_def
          STATIC_WINDOW_SECS_def)
    have "display_window_secs x = Fin v" using True unfolding display_window_secs_def c Let_def ops by simp
    then show ?thesis using v by (simp add: between_def)
  qed
qed

lemma from_secs_window:
  assumes "between 10 60 x" shows "\<exists>w. from_secs x = Some w \<and> w \<le> 60 * NANOS"
proof -
  obtain v where v: "x = Fin v" "10 \<le> v" "v \<le> 60" using assms by (auto simp: between_def)
  have "round_half_even (v * of_nat NANOS) \<le> int (60 * NANOS)"
    by (rule round_half_even_le) (use v in \<open>auto intro!: mult_right_mono\<close>)
  then show ?thesis using v by (simp add: from_secs_def)
qed

subsection \<open>The rate\<close>

definition nonneg :: "f64 \<Rightarrow> bool" where
  "nonneg x \<longleftrightarrow> x = NaN \<or> at_least 0 x"

lemma nonneg_div: "nonneg x \<Longrightarrow> nonneg y \<Longrightarrow> nonneg (f64_div x y)"
  using round64_nonneg
  by (cases x; cases y) (auto simp: nonneg_def f64_div_def inf_sign_def)

lemma nonneg_of_nat [simp]: "nonneg (f64_of_nat n)"
  by (simp add: nonneg_def f64_of_nat_def round64_nonneg)

lemma mib [simp]: "BYTES_PER_MIB = Fin 1048576"
  by (simp add: BYTES_PER_MIB_def f64_mul_def round64_numeral)

lemma nonneg_min: "nonneg x \<Longrightarrow> between 0 1024 (f64_min x MAX_PLAUSIBLE_MBS)"
  by (cases x) (auto simp: nonneg_def f64_min_def MAX_PLAUSIBLE_MBS_def between_def)

lemma window_rate_between: "between 0 1024 (window_rate xs)"
proof -
  have "nonneg dt" if "\<not> f64_le dt (Fin 0)" for dt
    using that by (cases dt) (auto simp: nonneg_def f64_le_def)
  then have "between 0 1024 (f64_min (f64_div (f64_div (f64_of_nat n) BYTES_PER_MIB) dt) MAX_PLAUSIBLE_MBS)"
    if "\<not> f64_le dt (Fin 0)" for n dt
    using that by (intro nonneg_min nonneg_div nonneg_of_nat) (simp_all add: nonneg_def)
  then show ?thesis by (auto simp: window_rate_def Let_def between_def split: prod.split)
qed

lemma speed_le: "between 0 1024 x \<Longrightarrow> f64_to_u64 (f64_mul x BYTES_PER_MIB) \<le> 2 ^ 30"
proof -
  assume "between 0 1024 x"
  then obtain v where v: "x = Fin v" "0 \<le> v" "v \<le> 1024" by (auto simp: between_def)
  obtain w where w: "round64 (v * 1048576) = Fin w" "0 \<le> w" "w \<le> 2 ^ 30"
    using round64_within [of 0 "v * 1048576" "2 ^ 30"] v by auto
  then have "\<lfloor>w\<rfloor> \<le> 2 ^ 30" by (simp add: floor_le_iff)
  then have "nat \<lfloor>w\<rfloor> \<le> nat (2 ^ 30)" by (rule nat_mono)
  then show ?thesis using v w by (simp add: f64_mul_def f64_to_u64_def min.coboundedI1)
qed

subsection \<open>A pass\<close>

text \<open>The samples of a pass: when, the bytes done, the bytes in all.\<close>

fun feed :: "(nat \<times> u64 \<times> u64) list \<Rightarrow> SpeedEstimator \<Rightarrow> ((u64 \<times> u64 option) list \<times> SpeedEstimator) option" where
  "feed [] s = Some ([], s)"
| "feed ((now, done, whole) # obs) s =
     (case sample_at now done whole s of
        None \<Rightarrow> None
      | Some (x, s) \<Rightarrow> map_option (\<lambda>(xs, s). (x # xs, s)) (feed obs s))"

text \<open>The samples in the window are those of this pass, in order, none older than a minute at the newest.\<close>

definition est_ok :: "nat \<Rightarrow> SpeedEstimator \<Rightarrow> bool" where
  "est_ok now s \<longleftrightarrow>
     (case pass_start s of
        None \<Rightarrow> samples s = []
      | Some (t0, b0) \<Rightarrow>
          samples s \<noteq> [] \<and> sorted (map fst (samples s)) \<and> fst (last (samples s)) \<le> now \<and>
          (\<forall>(t, b) \<in> set (samples s). t0 \<le> t \<and> b0 \<le> b \<and> fst (last (samples s)) \<le> t + 60 * NANOS))"

lemma sorted_le_last: "sorted ys \<Longrightarrow> y \<in> set ys \<Longrightarrow> y \<le> last ys" for y :: nat
  by (induction ys) auto

lemma anchor_ok:
  assumes "est_ok t s" and "t \<le> now"
  obtains t0 b0 where "pass_start (anchor now b s) = Some (t0, b0)" "t0 \<le> now" "b0 \<le> b"
    "sorted (map fst (samples (anchor now b s)))" "\<And>u c. (u, c) \<in> set (samples (anchor now b s)) \<Longrightarrow> t0 \<le> u \<and> b0 \<le> c \<and> u \<le> now"
proof -
  have le: "u \<le> now" if "sorted (map fst xs)" "fst (last xs) \<le> t" "(u, c) \<in> set xs" for xs and u c :: nat
  proof -
    have "u \<in> set (map fst xs)" "xs \<noteq> []" using that(3) by force+
    then have "u \<le> fst (last xs)" using sorted_le_last [OF that(1)] by (simp add: last_map)
    then show ?thesis using that(2) assms(2) by simp
  qed
  show ?thesis
  proof (cases "pass_start s")
    case None
    then show ?thesis using assms that by (auto simp: est_ok_def anchor_def)
  next
    case (Some p)
    obtain t0 b0 where p: "p = (t0, b0)" by fastforce
    have ok: "samples s \<noteq> []" "sorted (map fst (samples s))" "fst (last (samples s)) \<le> t"
      "\<And>u c. (u, c) \<in> set (samples s) \<Longrightarrow> t0 \<le> u \<and> b0 \<le> c" using assms(1) Some p by (auto simp: est_ok_def)
    have "t0 \<le> now" using ok(4) [of "fst (last (samples s))" "snd (last (samples s))"] ok(1,3) assms(2) by simp
    then show ?thesis using that [of t0 b0] that [of now b] Some p ok le [OF ok(2,3)]
      by (cases "b < b0") (auto simp: anchor_def)
  qed
qed

lemma prune_sub: "set (prune now w xs) \<subseteq> set xs"
  by (auto simp: prune_def dest: set_dropWhileD)

lemma prune_sorted: "sorted (map fst xs) \<Longrightarrow> sorted (map fst (prune now w xs))"
  by (induction xs) (auto simp: prune_def)

lemma prune_new:
  assumes "sorted (map fst xs)" and "(u, c) \<in> set (prune now w xs)"
  shows "now \<le> u + w"
proof (cases "w \<le> now")
  case True
  then have "(u, c) \<in> set (dropWhile (\<lambda>(t, _). t < now - w) xs)" using assms(2) by (simp add: prune_def)
  then have "now - w \<le> u" using assms(1) by (induction xs) (auto split: if_splits)
  then show ?thesis by simp
qed simp

lemma observe_ok:
  assumes "est_ok t s" and "t \<le> now"
  shows "\<exists>x s'. observe now b s = Some (x, s') \<and> between 0 1024 x \<and> est_ok now s' \<and> pass_start s' \<noteq> None \<and> last (samples s') = (now, b)"
proof -
  let ?s = "anchor now b s"
  obtain t0 b0 where a: "pass_start ?s = Some (t0, b0)" "t0 \<le> now" "b0 \<le> b" "sorted (map fst (samples ?s))"
      "\<And>u c. (u, c) \<in> set (samples ?s) \<Longrightarrow> t0 \<le> u \<and> b0 \<le> c \<and> u \<le> now" 
  proof (rule anchor_ok [OF assms, of b])
    fix t0 b0 assume "pass_start ?s = Some (t0, b0)" "t0 \<le> now" "b0 \<le> b" "sorted (map fst (samples ?s))"
      "\<And>u c. (u, c) \<in> set (samples ?s) \<Longrightarrow> t0 \<le> u \<and> b0 \<le> c \<and> u \<le> now"
    then show thesis by (rule that)
  qed
  define window where "window = (if responsive ?s then STATIC_WINDOW_SECS else display_window_secs (as_secs (now - t0)))"
  have "between 10 60 window" using display_window_between by (auto simp: window_def between_def STATIC_WINDOW_SECS_def)
  then obtain w where w: "from_secs window = Some w" "w \<le> 60 * NANOS" using from_secs_window by blast
  let ?xs = "prune now w (samples ?s) @ [(now, b)]"
  have run: "observe now b s = Some (window_rate ?xs, ?s\<lparr>samples := ?xs\<rparr>)"
    using a(1) w(1) by (cases "responsive ?s") (simp_all add: observe_def Let_def window_def)
  have "now \<le> u + 60 * NANOS" if "(u, c) \<in> set (prune now w (samples ?s))" for u c
    using prune_new [OF a(4) that] w(2) by simp
  moreover have "sorted (map fst ?xs)"
    using prune_sorted [OF a(4)] a(5) prune_sub [of now w "samples ?s"] by (auto simp: sorted_append)
  ultimately have "est_ok now (?s\<lparr>samples := ?xs\<rparr>)"
    using a prune_sub [of now w "samples ?s"] by (auto simp: est_ok_def)
  then show ?thesis using run window_rate_between a(1) by simp
qed

lemma sample_at_ok:
  assumes "est_ok t s" and "t \<le> now"
  shows "\<exists>bps eta s'. sample_at now b n s = Some ((bps, eta), s') \<and> est_ok now s' \<and> pass_start s' \<noteq> None \<and> last (samples s') = (now, b) \<and>
    bps \<le> 2 ^ 30 \<and> (eta \<noteq> None \<longrightarrow> b < n)"
proof -
  obtain x s' where o: "observe now b s = Some (x, s')" "between 0 1024 x" "est_ok now s'" "pass_start s' \<noteq> None" "last (samples s') = (now, b)"
    using observe_ok [OF assms] by blast
  then show ?thesis using speed_le [OF o(2)] by (auto simp: sample_at_def Let_def)
qed

lemma feed_ok:
  assumes "est_ok t s" and "sorted (t # map fst obs)"
  shows "\<exists>outs s'. feed obs s = Some (outs, s') \<and> length outs = length obs \<and> est_ok (last (t # map fst obs)) s' \<and>
    (obs \<noteq> [] \<longrightarrow> pass_start s' \<noteq> None \<and> last (samples s') = (fst (last obs), fst (snd (last obs)))) \<and>
    list_all (\<lambda>((now, b, n), (bps, eta)). bps \<le> 2 ^ 30 \<and> (eta \<noteq> None \<longrightarrow> b < n)) (zip obs outs)"
  using assms
proof (induction obs arbitrary: t s)
  case (Cons z obs)
  obtain now b n where z: "z = (now, b, n)" by (cases z) auto
  obtain bps eta s1 where s1: "sample_at now b n s = Some ((bps, eta), s1)" "est_ok now s1" "pass_start s1 \<noteq> None" "last (samples s1) = (now, b)"
      "bps \<le> 2 ^ 30" "eta \<noteq> None \<longrightarrow> b < n"
    using sample_at_ok [of t s now b n] Cons.prems z by auto
  have "sorted (now # map fst obs)" using Cons.prems(2) z by simp
  from Cons.IH [OF s1(2) this] s1 z show ?case by (cases obs) auto
qed simp

text \<open>
C39: The estimator never panics: fed with the samples of a pass at non-decreasing times, from a fresh start, it answers
each one. No speed it shows is above 1024 MiB a second, there is a time left only while bytes are left, and its window
holds samples of this pass in order, the newest last, none of them more than a minute older.
\<close>

theorem speed_samples_sound:
  assumes "sorted (map fst obs)" and "obs \<noteq> []"
  shows "\<exists>outs s t0 b0. feed obs new_estimator = Some (outs, s) \<and> length outs = length obs \<and>
    list_all (\<lambda>((now, b, n), (bps, eta)). bps \<le> 2 ^ 30 \<and> (eta = None \<or> b < n)) (zip obs outs) \<and>
    last (samples s) = (fst (last obs), fst (snd (last obs))) \<and> pass_start s = Some (t0, b0) \<and>
    sorted (map fst (samples s)) \<and>
    list_all (\<lambda>(t, b). t0 \<le> t \<and> b0 \<le> b \<and> fst (last obs) \<le> t + 60 * NANOS) (samples s)"
proof -
  have start: "est_ok 0 new_estimator" by (simp add: est_ok_def new_estimator_def)
  have "sorted (0 # map fst obs)" using assms(1) by simp
  from feed_ok [OF start this] obtain outs s where f: "feed obs new_estimator = Some (outs, s)" "length outs = length obs"
      "est_ok (last (0 # map fst obs)) s" "pass_start s \<noteq> None" "last (samples s) = (fst (last obs), fst (snd (last obs)))"
      "list_all (\<lambda>((now, b, n), (bps, eta)). bps \<le> 2 ^ 30 \<and> (eta \<noteq> None \<longrightarrow> b < n)) (zip obs outs)"
    using assms(2) by auto
  have "last (0 # map fst obs) = fst (last obs)" using assms(2) by (simp add: last_map)
  then show ?thesis using f by (auto simp: est_ok_def list_all_iff)
qed

theorem speed_samples_sound_witness:
  "\<exists>outs s t0 b0. feed [(5, 100, 1000), (2000000005, 5000, 9000)] new_estimator = Some (outs, s) \<and>
     length outs = 2 \<and> pass_start s = Some (t0, b0) \<and> last (samples s) = (2000000005, 5000)"
  using speed_samples_sound [of "[(5, 100, 1000), (2000000005, 5000, 9000)]"] by auto

end
