(* ===== verification/EngineHalt.thy ===== *)
theory EngineHalt
  imports Prelude
begin

text \<open>
  The one cancellation view of the engine and the result of its entries (\<open>src/src/engine_halt.rs\<close>). Each read of
  a token, a flag or the sink's probe is an observation; what threads run between two reads shows in the next one.
\<close>

record HaltObs =
  o_op :: bool
  o_extra :: bool
  o_sink :: bool

record EngineHalt =
  op_private :: bool
  extra :: bool
  sink :: bool
  seen :: bool
  wedged :: bool

text \<open>\<open>extra\<close> and \<open>sink\<close> say that there is one. A private token is never cancelled.\<close>

definition new_halt :: "bool \<Rightarrow> EngineHalt" where
  "new_halt ex = \<lparr>op_private = False, extra = ex, sink = False, seen = False, wedged = False\<rparr>"

definition legacy :: "bool \<Rightarrow> EngineHalt" where
  "legacy ex = \<lparr>op_private = True, extra = ex, sink = False, seen = False, wedged = False\<rparr>"

definition with_sink :: "EngineHalt \<Rightarrow> EngineHalt" where
  "with_sink h = h\<lparr>sink := True\<rparr>"

definition raised :: "EngineHalt \<Rightarrow> HaltObs \<Rightarrow> bool" where
  "raised h x \<longleftrightarrow> (\<not> op_private h \<and> o_op x) \<or> (extra h \<and> o_extra x) \<or> (sink h \<and> o_sink x)"

definition is_cancelled :: "HaltObs \<Rightarrow> EngineHalt \<Rightarrow> bool \<times> EngineHalt" where
  "is_cancelled x h =
     (if seen h then (True, h)
      else let now = raised h x in (now, if now then h\<lparr>seen := True\<rparr> else h))"

definition mark_wedged :: "EngineHalt \<Rightarrow> EngineHalt" where
  "mark_wedged h = h\<lparr>wedged := True\<rparr>"

definition is_wired :: "EngineHalt \<Rightarrow> bool" where
  "is_wired h \<longleftrightarrow> \<not> op_private h \<or> extra h \<or> sink h"

text \<open>A wait of \<open>d\<close>: each turn a read and the time gone by then. \<open>None\<close>: the turns run out.\<close>

fun wait :: "nat \<Rightarrow> (HaltObs \<times> nat) list \<Rightarrow> EngineHalt \<Rightarrow> (bool \<times> EngineHalt) option" where
  "wait d [] h = None"
| "wait d ((x, elapsed) # turns) h =
     (case is_cancelled x h of
        (True, h) \<Rightarrow> Some (True, h)
      | (False, h) \<Rightarrow> if d - elapsed = 0 then Some (False, h) else wait d turns h)"

text \<open>
  The token handed to the disc library: the op token itself, the flag, or a child a bridge cancels. The child
  starts cancelled when the op already is.
\<close>

datatype Linked = OpToken | ExtraFlag | Child bool

definition linked :: "HaltObs \<Rightarrow> EngineHalt \<Rightarrow> Linked \<times> EngineHalt" where
  "linked x h =
     (if \<not> extra h \<and> \<not> sink h then (OpToken, h)
      else if extra h \<and> \<not> sink h \<and> op_private h then (ExtraFlag, h)
      else case is_cancelled x h of (b, h) \<Rightarrow> (Child b, h))"

text \<open>The bridge of a child, over the reads it makes until the work is done; the reads end before.\<close>

fun bridge :: "HaltObs list \<Rightarrow> EngineHalt \<Rightarrow> bool \<times> EngineHalt" where
  "bridge [] h = (False, h)"
| "bridge (x # xs) h = (case is_cancelled x h of (True, h) \<Rightarrow> (True, h) | (False, h) \<Rightarrow> bridge xs h)"

subsection \<open>How an entry ends\<close>

datatype ('e, 'a) EngineOutcome = Finished 'a | Stopped "'a option" | FailedWith 'e

text \<open>\<open>None\<close> on the left is the library's \<open>Halted\<close>.\<close>

definition from_result :: "HaltObs \<Rightarrow> ('a \<Rightarrow> bool) \<Rightarrow> 'e option + 'a \<Rightarrow> EngineHalt \<Rightarrow> ('e option, 'a) EngineOutcome \<times> EngineHalt" where
  "from_result x halted r h =
     (case r of
        Inr a \<Rightarrow> (if halted a then Stopped (Some a) else Finished a, h)
      | Inl None \<Rightarrow> (case is_cancelled x h of (b, h) \<Rightarrow> (if b then Stopped None else FailedWith None, h))
      | Inl (Some e) \<Rightarrow> (FailedWith (Some e), h))"

definition outcome_value :: "('e, 'a) EngineOutcome \<Rightarrow> 'a option" where
  "outcome_value z = (case z of Finished a \<Rightarrow> Some a | Stopped a \<Rightarrow> a | FailedWith _ \<Rightarrow> None)"

definition is_stopped :: "('e, 'a) EngineOutcome \<Rightarrow> bool" where
  "is_stopped z = (case z of Stopped _ \<Rightarrow> True | _ \<Rightarrow> False)"

subsection \<open>A stop once seen stays\<close>

fun answers :: "HaltObs list \<Rightarrow> EngineHalt \<Rightarrow> bool list \<times> EngineHalt" where
  "answers [] h = ([], h)"
| "answers (x # xs) h = (case is_cancelled x h of (b, h) \<Rightarrow> (case answers xs h of (bs, h) \<Rightarrow> (b # bs, h)))"

lemma is_cancelled_eq: "is_cancelled x h = (seen h \<or> raised h x, h\<lparr>seen := seen h \<or> raised h x\<rparr>)"
  by (cases h) (simp add: is_cancelled_def Let_def)

lemma raised_seen [simp]: "raised (h\<lparr>seen := b\<rparr>) x = raised h x"
  by (simp add: raised_def)

lemma answers_eq:
  "answers xs h = (map (\<lambda>k. seen h \<or> list_ex (raised h) (take (Suc k) xs)) [0..<length xs],
                   h\<lparr>seen := seen h \<or> list_ex (raised h) xs\<rparr>)"
proof (induction xs arbitrary: h)
  case Nil
  show ?case by (cases h) simp
next
  case (Cons x xs)
  have r: "raised (h\<lparr>seen := b\<rparr>) = raised h" for b by (rule ext) simp
  have m: "map f [0..<Suc n] = f 0 # map (f \<circ> Suc) [0..<n]" for f :: "nat \<Rightarrow> bool" and n
    by (simp add: upt_conv_Cons map_Suc_upt flip: map_map del: upt_Suc)
  show ?case
    by (simp add: is_cancelled_eq Cons.IH r m comp_def del: upt_Suc)
qed

text \<open>
C40: A stop once seen is seen by every later read, though the probe that raised it falls back, and no read sees a stop
that none raised: the answers are those of the disjunction of all reads so far. An entry then ends as stopped only when
a stop was seen or its result says so; a stop of the library that nobody asked for is a failure.
\<close>

theorem stop_sticky:
  "case answers xs h of
     (bs, h') \<Rightarrow>
       bs = map (\<lambda>k. seen h \<or> list_ex (raised h) (take (Suc k) xs)) [0..<length xs] \<and>
       (case from_result x halted r h' of
          (Finished a, _) \<Rightarrow> r = Inr a \<and> \<not> halted a
        | (Stopped (Some a), _) \<Rightarrow> r = Inr a \<and> halted a
        | (Stopped None, _) \<Rightarrow> r = Inl None \<and> (seen h \<or> list_ex (raised h) (xs @ [x]))
        | (FailedWith z, _) \<Rightarrow> r = Inl z \<and> (case z of Some _ \<Rightarrow> True | None \<Rightarrow> \<not> seen h \<and> \<not> list_ex (raised h) (xs @ [x])))"
  unfolding answers_eq prod.case
  by (cases r) (auto simp: from_result_def is_cancelled_eq split: sum.splits option.splits)

end
