(* ===== verification/Labels.thy ===== *)
theory Labels
  imports Streams
begin

text \<open>
  What a disc label says (\<open>src/src/metadata/tmdb.rs\<close>, \<open>src/src/metadata/mod.rs\<close>): the cleaned title, the years, the season,
  the disc, the variants a lookup asks for, and whether a match is sure. A label is text with code points below
  256; the tables of the standard library for the case and the kind of a character are a parameter.
\<close>

record Unicode =
  is_alphanumeric :: "char \<Rightarrow> bool"
  char_lower :: "char \<Rightarrow> string"
  char_upper :: "char \<Rightarrow> string"

definition to_lowercase :: "Unicode \<Rightarrow> string \<Rightarrow> string" where
  "to_lowercase U s = concat (map (char_lower U) s)"

definition is_ascii_digit :: "char \<Rightarrow> bool" where
  "is_ascii_digit c = (let n = of_char c :: nat in 48 \<le> n \<and> n \<le> 57)"

definition is_ascii_upper :: "char \<Rightarrow> bool" where
  "is_ascii_upper c = (let n = of_char c :: nat in 65 \<le> n \<and> n \<le> 90)"

definition is_ascii_alphabetic :: "char \<Rightarrow> bool" where
  "is_ascii_alphabetic c = (let n = of_char c :: nat in 65 \<le> n \<and> n \<le> 90 \<or> 97 \<le> n \<and> n \<le> 122)"

definition parse_u16 :: "string \<Rightarrow> nat option" where
  "parse_u16 s = from_str_radix 10 65535 s"

definition trim_end_matches :: "(char \<Rightarrow> bool) \<Rightarrow> string \<Rightarrow> string" where
  "trim_end_matches P s = rev (dropWhile P (rev s))"

definition strip_suffix :: "string \<Rightarrow> string \<Rightarrow> string option" where
  "strip_suffix suf s = map_option rev (strip_prefix (rev suf) (rev s))"

text \<open>The rest after the first occurrence of a word.\<close>

fun find_after :: "string \<Rightarrow> string \<Rightarrow> string option" where
  "find_after w [] = strip_prefix w []"
| "find_after w (c # cs) = (case strip_prefix w (c # cs) of Some r \<Rightarrow> Some r | None \<Rightarrow> find_after w cs)"

text \<open>The first of some words a test finds something for.\<close>

fun first_some :: "('a \<Rightarrow> 'b option) \<Rightarrow> 'a list \<Rightarrow> 'b option" where
  "first_some f [] = None"
| "first_some f (x # xs) = (case f x of Some y \<Rightarrow> Some y | None \<Rightarrow> first_some f xs)"

subsection \<open>Titles\<close>

fun norm_from :: "Unicode \<Rightarrow> bool \<Rightarrow> string \<Rightarrow> string" where
  "norm_from U sep [] = []"
| "norm_from U sep (c # cs) =
     (if is_alphanumeric U c then char_lower U c @ norm_from U False cs
      else if \<not> sep then CHR '' '' # norm_from U True cs
      else norm_from U sep cs)"

definition norm :: "Unicode \<Rightarrow> string \<Rightarrow> string" where
  "norm U s = trim_end_matches is_ws (norm_from U True s)"

definition digit_value :: "char \<Rightarrow> nat" where
  "digit_value c = of_char c - 48"

fun strip_paren_year :: "string \<Rightarrow> string \<times> nat list" where
  "strip_paren_year [] = ([], [])"
| "strip_paren_year (c # cs) =
     (if c = CHR ''('' \<and> 4 < length cs \<and> cs ! 4 = CHR '')'' \<and> list_all is_ascii_digit (take 4 cs)
      then (case strip_paren_year (drop 5 cs) of (out, years) \<Rightarrow>
              (out, foldl (\<lambda>year d. year * 10 + digit_value d) 0 (take 4 cs) # years))
      else (case strip_paren_year cs of (out, years) \<Rightarrow> (c # out, years)))"

definition SEASON_WORDS :: "string list" where
  "SEASON_WORDS = [''season'', ''series'', ''saison'', ''staffel'', ''seizoen'']"

definition DISC_WORDS :: "string list" where
  "DISC_WORDS = [''disc'', ''disk'']"

definition in_1_99 :: "nat \<Rightarrow> bool" where
  "in_1_99 n \<longleftrightarrow> 1 \<le> n \<and> n \<le> 99"

definition number_in_range :: "string \<Rightarrow> bool" where
  "number_in_range digits = (case parse_u16 digits of None \<Rightarrow> False | Some n \<Rightarrow> in_1_99 n)"

definition strip_trailing_word_number :: "Unicode \<Rightarrow> string list \<Rightarrow> (string \<Rightarrow> bool) \<Rightarrow> string \<Rightarrow> string option" where
  "strip_trailing_word_number U words number_ok s =
     (let start = trim_end_matches is_ascii_digit s
      in if length start = length s \<or> \<not> number_ok (drop (length start) s) then None
         else
           (let head = trim_end_matches is_ws start
            in first_some (\<lambda>w. case strip_suffix w head of
                                 None \<Rightarrow> None
                               | Some rest \<Rightarrow>
                                   if rest = [] \<or> \<not> is_alphanumeric U (last rest) then Some (trim_end_matches is_ws rest) else None)
                 words))"

definition strip_trailing_season :: "Unicode \<Rightarrow> string \<Rightarrow> string option" where
  "strip_trailing_season U s = strip_trailing_word_number U SEASON_WORDS (\<lambda>_. True) s"

definition strip_trailing_disc :: "Unicode \<Rightarrow> string \<Rightarrow> string option" where
  "strip_trailing_disc U s = strip_trailing_word_number U DISC_WORDS number_in_range s"

definition title_suffixes :: "string list" where
  "title_suffixes = [''4k ultra hd'', ''4k uhd'', ''ultra hd'', ''blu ray'', ''bluray'', ''dvd'']"

definition peel_once :: "Unicode \<Rightarrow> string \<Rightarrow> string option" where
  "peel_once U trimmed =
     or_else (first_some (\<lambda>suf. strip_suffix suf trimmed) title_suffixes)
       (or_else (strip_trailing_season U trimmed) (strip_trailing_disc U trimmed))"

lemma strip_prefix_eq: "strip_prefix w s = Some r \<Longrightarrow> s = w @ r"
  by (induction w s rule: strip_prefix.induct) (auto split: if_splits)

lemma strip_suffix_eq: "strip_suffix w s = Some r \<Longrightarrow> s = r @ w"
  by (auto simp: strip_suffix_def dest!: strip_prefix_eq) (metis rev_append rev_rev_ident)

lemma strip_prefix_shorter: "strip_prefix w s = Some r \<Longrightarrow> w \<noteq> [] \<Longrightarrow> length r < length s"
  by (auto dest: strip_prefix_eq)

lemma find_after_shorter: "find_after w s = Some r \<Longrightarrow> w \<noteq> [] \<Longrightarrow> length r < length s"
  by (induction s) (auto dest: strip_prefix_shorter split: option.splits)

lemma first_some_eq: "first_some f xs = Some y \<Longrightarrow> \<exists>x \<in> set xs. f x = Some y"
  by (induction xs) (auto split: option.splits)

lemma trim_end_length: "length (trim_end_matches P s) \<le> length s"
  using length_dropWhile_le [of P "rev s"] by (simp add: trim_end_matches_def)

lemma strip_trailing_shorter: "strip_trailing_word_number U words ok s = Some r \<Longrightarrow> length r < length s"
  by (auto simp: strip_trailing_word_number_def Let_def dest!: first_some_eq split: if_splits option.splits)
    (metis (no_types, opaque_lifting) le_less_trans le_neq_implies_less length_append add_leD1 strip_suffix_eq trim_end_length)+

lemma peel_once_shorter: "peel_once U s = Some r \<Longrightarrow> length r < length s"
  by (auto simp: peel_once_def or_else_def strip_trailing_season_def strip_trailing_disc_def title_suffixes_def
      dest!: strip_trailing_shorter first_some_eq strip_suffix_eq split: option.splits)

text \<open>The peels interleave until none applies.\<close>

function peel_loop :: "Unicode \<Rightarrow> string \<Rightarrow> string" where
  "peel_loop U clipped =
     (let trimmed = trim_end_matches (\<lambda>c. \<not> is_alphanumeric U c) clipped
      in case peel_once U trimmed of Some rest \<Rightarrow> peel_loop U rest | None \<Rightarrow> trimmed)"
  by pat_completeness auto
termination
proof (relation "measure (\<lambda>(U, s). length s)")
  show "((U, rest), (U, clipped)) \<in> measure (\<lambda>(U, s). length s)"
    if "trimmed = trim_end_matches (\<lambda>c. \<not> is_alphanumeric U c) clipped" "peel_once U trimmed = Some rest" for U clipped trimmed rest
    using peel_once_shorter [OF that(2)] trim_end_length [of "\<lambda>c. \<not> is_alphanumeric U c" clipped] that(1) by simp
qed simp

declare peel_loop.simps [simp del]

definition capitalize :: "Unicode \<Rightarrow> string \<Rightarrow> string" where
  "capitalize U w = (case w of [] \<Rightarrow> [] | c # cs \<Rightarrow> char_upper U c @ to_lowercase U cs)"

definition spaced :: "string \<Rightarrow> string" where
  "spaced s = map (\<lambda>c. if c = CHR ''_'' \<or> c = CHR ''-'' then CHR '' '' else c) s"

definition clean_title :: "Unicode \<Rightarrow> string \<Rightarrow> string" where
  "clean_title U label =
     join_with '' '' (map (capitalize U) (split_whitespace (trim
       (peel_loop U (to_lowercase U (fst (strip_paren_year (spaced label))))))))"

subsection \<open>Seasons and discs\<close>

definition separators :: "char set" where
  "separators = {CHR '' '', CHR ''_'', CHR ''-'', CHR ''.'', CHR '':''}"

definition leading_number :: "string \<Rightarrow> nat option" where
  "leading_number s =
     (case parse_u16 (takeWhile is_ascii_digit (dropWhile (\<lambda>c. c \<in> separators) s)) of
        None \<Rightarrow> None
      | Some n \<Rightarrow> if in_1_99 n then Some n else None)"

text \<open>Every place a word stands at, from left to right; no word is empty.\<close>

function number_after :: "string \<Rightarrow> string \<Rightarrow> nat option" where
  "number_after w s =
     (if w = [] then None
      else case find_after w s of
             None \<Rightarrow> None
           | Some rest \<Rightarrow> (case leading_number rest of Some n \<Rightarrow> Some n | None \<Rightarrow> number_after w rest))"
  by pat_completeness auto
termination
  by (relation "measure (\<lambda>(w, s). length s)") (auto dest: find_after_shorter)

declare number_after.simps [simp del]

definition number_after_word :: "Unicode \<Rightarrow> string \<Rightarrow> string list \<Rightarrow> nat option" where
  "number_after_word U s words = first_some (\<lambda>w. number_after w (to_lowercase U s)) words"

fun split_at :: "(char \<Rightarrow> bool) \<Rightarrow> string \<Rightarrow> string list" where
  "split_at P [] = [[]]"
| "split_at P (c # cs) = (if P c then [] # split_at P cs else case split_at P cs of [] \<Rightarrow> [[c]] | w # ws \<Rightarrow> (c # w) # ws)"

definition compact_number :: "string \<Rightarrow> string \<Rightarrow> nat option" where
  "compact_number low pfx =
     (case strip_prefix pfx low of
        None \<Rightarrow> None
      | Some rest \<Rightarrow>
          if rest \<noteq> [] \<and> list_all is_ascii_digit rest
          then (case parse_u16 rest of None \<Rightarrow> None | Some n \<Rightarrow> if in_1_99 n then Some n else None)
          else None)"

definition compact_token_number :: "Unicode \<Rightarrow> string \<Rightarrow> string list \<Rightarrow> nat option" where
  "compact_token_number U s prefixes =
     first_some (\<lambda>tok. first_some (compact_number (to_lowercase U tok)) prefixes) (split_at (\<lambda>c. c \<in> separators) s)"

definition season_from_label :: "Unicode \<Rightarrow> string \<Rightarrow> nat option" where
  "season_from_label U label = or_else (number_after_word U label SEASON_WORDS) (compact_token_number U label [''s''])"

definition disc_from_label :: "Unicode \<Rightarrow> string \<Rightarrow> nat option" where
  "disc_from_label U label =
     or_else (number_after_word U label DISC_WORDS) (compact_token_number U label [''disc'', ''disk'', ''bd'', ''d''])"

subsection \<open>Trailing junk\<close>

definition EDITION_WORDS :: "string list" where
  "EDITION_WORDS =
     [''ultimate'', ''extended'', ''theatrical'', ''director'', ''directors'', ''special'', ''collector'', ''collectors'',
      ''anniversary'', ''final'', ''unrated'', ''remastered'', ''limited'', ''deluxe'', ''steelbook'', ''edition'', ''cut'',
      ''version'']"

definition REGION_WORDS :: "string list" where
  "REGION_WORDS = [''uk'', ''usa'', ''us'', ''eu'', ''na'', ''ww'', ''aus'', ''region'']"

definition FORMAT_WORDS :: "string list" where
  "FORMAT_WORDS = [''bd'', ''bdrom'', ''uhd'', ''4k'', ''hd'', ''sd'', ''dvd'', ''bluray'', ''video'']"

definition is_roman_numeral :: "string \<Rightarrow> bool" where
  "is_roman_numeral s \<longleftrightarrow> s \<noteq> [] \<and> list_all (\<lambda>c. c \<in> set ''ivxlcdm'') s"

text \<open>In the last test the bytes of a text of capitals are its characters.\<close>

definition is_trailing_junk :: "Unicode \<Rightarrow> string \<Rightarrow> bool" where
  "is_trailing_junk U tok =
     (if tok = [] then False
      else if list_all is_ascii_digit tok then False
      else
        (let low = to_lowercase U tok
         in if is_roman_numeral low then False
            else if low \<in> set EDITION_WORDS \<or> low \<in> set REGION_WORDS \<or> low \<in> set FORMAT_WORDS then True
            else if list_ex is_ascii_alphabetic tok \<and> list_ex is_ascii_digit tok then True
            else length tok \<le> 4 \<and> list_all is_ascii_upper tok))"

subsection \<open>Query variants\<close>

definition MAX_QUERY_VARIANTS :: nat where "MAX_QUERY_VARIANTS = 5"

function variants_from :: "Unicode \<Rightarrow> string list \<Rightarrow> string list \<Rightarrow> nat \<Rightarrow> string list" where
  "variants_from U toks found e =
     (let q = clean_title U (join_with '' '' (take e toks));
          kept = min (length (split_whitespace q)) e;
          found = (if q \<noteq> [] \<and> q \<notin> set found then found @ [q] else found)
      in if MAX_QUERY_VARIANTS \<le> length found \<or> kept \<le> 1 \<or> \<not> is_trailing_junk U (toks ! (kept - 1)) then found
         else variants_from U toks found (kept - 1))"
  by pat_completeness auto
termination
  by (relation "measure (\<lambda>(U, toks, found, e). e)") auto

declare variants_from.simps [simp del]

definition query_variants :: "Unicode \<Rightarrow> string \<Rightarrow> string list" where
  "query_variants U label =
     (let toks = split_whitespace (fst (strip_paren_year (spaced label))) in variants_from U toks [] (length toks))"

subsection \<open>Sure matches\<close>

definition year_matches :: "nat \<Rightarrow> nat list \<Rightarrow> bool" where
  "year_matches year explicit \<longleftrightarrow> 0 < year \<and> list_all (\<lambda>y. y = year) explicit"

definition is_confident_match :: "Unicode \<Rightarrow> string \<Rightarrow> string \<Rightarrow> nat \<Rightarrow> bool" where
  "is_confident_match U label title year \<longleftrightarrow>
     year_matches year (snd (strip_paren_year label)) \<and> list_ex (\<lambda>v. norm U v = norm U title) (query_variants U label)"

subsection \<open>Query strings\<close>

text \<open>The bytes of a text, and a byte in a URL: unreserved as it is, a space as a plus, else in two hex digits.\<close>

definition utf8 :: "string \<Rightarrow> nat list" where
  "utf8 s = concat (map (\<lambda>c. let n = of_char c :: nat in if n < 128 then [n] else [192 + n div 64, 128 + n mod 64]) s)"

definition unreserved :: "nat \<Rightarrow> bool" where
  "unreserved b \<longleftrightarrow> 65 \<le> b \<and> b \<le> 90 \<or> 97 \<le> b \<and> b \<le> 122 \<or> 48 \<le> b \<and> b \<le> 57 \<or> b = 45 \<or> b = 95 \<or> b = 46"

definition upper_hex :: "nat \<Rightarrow> char" where
  "upper_hex d = (if d < 10 then char_of (48 + d) else char_of (55 + d))"

definition url_byte :: "nat \<Rightarrow> string" where
  "url_byte b =
     (if unreserved b then [char_of b] else if b = 32 then ''+'' else [CHR ''%'', upper_hex (b div 16), upper_hex (b mod 16)])"

definition urlencoded :: "string \<Rightarrow> string" where
  "urlencoded s = concat (map url_byte (utf8 s))"

definition api_base :: string where "api_base = ''https://api.themoviedb.org''"

definition search_multi_url :: "string \<Rightarrow> string \<Rightarrow> string" where
  "search_multi_url query api_key =
     api_base @ ''/3/search/multi?api_key='' @ urlencoded api_key @ ''&query='' @ urlencoded query @ ''&page=1''"

subsection \<open>The kind of a title\<close>

datatype MediaKind = Tv | Movie

definition kind_str :: "MediaKind \<Rightarrow> string" where
  "kind_str k = (case k of Tv \<Rightarrow> ''tv'' | Movie \<Rightarrow> ''movie'')"

definition kind_parse :: "string \<Rightarrow> MediaKind" where
  "kind_parse text = (if map ascii_lower (trim text) = ''tv'' then Tv else Movie)"

definition is_tv :: "MediaKind \<Rightarrow> bool" where
  "is_tv k \<longleftrightarrow> k = Tv"

end
