(* ===== verification/Tmdb.thy ===== *)
theory Tmdb
  imports Labels Float64Ops
begin

text \<open>
  The naming lookup (\<open>src/src/metadata/tmdb.rs\<close>): a JSON answer read into matches, the best of them, the loop over
  the variants of a label, the ranked search, the episodes of a season and where a disc starts in it. The service
  is a parameter: a query gives a value or the failure the loop sees. An object is its fields, the number of a
  value as the service wrote it.
\<close>

subsection \<open>Answers\<close>

datatype json =
  JNull | JBool bool | JNat nat | JNum f64 | JStr string | JArr "json list" | JObj "(string \<times> json) list"

definition get :: "json \<Rightarrow> string \<Rightarrow> json option" where
  "get v k = (case v of JObj kvs \<Rightarrow> map_of kvs k | _ \<Rightarrow> None)"

definition field :: "json \<Rightarrow> string \<Rightarrow> json" where
  "field v k = (case get v k of Some x \<Rightarrow> x | None \<Rightarrow> JNull)"

definition as_str :: "json \<Rightarrow> string option" where
  "as_str v = (case v of JStr s \<Rightarrow> Some s | _ \<Rightarrow> None)"

definition as_array :: "json \<Rightarrow> json list option" where
  "as_array v = (case v of JArr xs \<Rightarrow> Some xs | _ \<Rightarrow> None)"

definition as_u64 :: "json \<Rightarrow> nat option" where
  "as_u64 v = (case v of JNat n \<Rightarrow> Some n | _ \<Rightarrow> None)"

definition as_f64 :: "json \<Rightarrow> f64 option" where
  "as_f64 v = (case v of JNat n \<Rightarrow> Some (f64_of_nat n) | JNum x \<Rightarrow> Some x | _ \<Rightarrow> None)"

definition unwrap_or :: "'a option \<Rightarrow> 'a \<Rightarrow> 'a" where
  "unwrap_or x d = (case x of None \<Rightarrow> d | Some a \<Rightarrow> a)"

record TmdbResult =
  title :: string
  year :: nat
  poster_url :: string
  overview :: string
  media_type :: MediaKind
  tmdb_id :: nat

text \<open>The year is the first four bytes of the date; four characters with one beyond ASCII are no number.\<close>

definition parse_result :: "json \<Rightarrow> (TmdbResult \<times> f64) option" where
  "parse_result v =
     (let mt = unwrap_or (as_str (field v ''media_type'')) []
      in if mt \<noteq> ''movie'' \<and> mt \<noteq> ''tv'' then None
         else
           (let kind = kind_parse mt
            in case Option.bind (get v (if is_tv kind then ''name'' else ''title'')) as_str of
                 None \<Rightarrow> None
               | Some t \<Rightarrow>
                   if t = [] then None
                   else
                     (let date = unwrap_or (Option.bind (get v (if is_tv kind then ''first_air_date'' else ''release_date'')) as_str) [];
                          y = unwrap_or (if length date < 4 then None else parse_u16 (take 4 date)) 0;
                          poster = (case as_str (field v ''poster_path'') of
                                      Some p \<Rightarrow> if p \<noteq> [] \<and> hd p = CHR ''/'' then ''https://image.tmdb.org/t/p/w300'' @ p else []
                                    | None \<Rightarrow> [])
                      in Some (\<lparr>title = t, year = y, poster_url = poster, overview = unwrap_or (as_str (field v ''overview'')) [],
                                media_type = kind, tmdb_id = unwrap_or (as_u64 (field v ''id'')) 0\<rparr>,
                               unwrap_or (as_f64 (field v ''popularity'')) (Fin 0)))))"

subsection \<open>The best match\<close>

type_synonym rank = "nat \<times> bool \<times> bool \<times> f64"

definition key_gt :: "rank \<Rightarrow> rank \<Rightarrow> bool" where
  "key_gt a b =
     (case (a, b) of ((a0, a1, a2, a3), (b0, b1, b2, b3)) \<Rightarrow>
        if a0 \<noteq> b0 then a0 > b0 else if a1 \<noteq> b1 then a1 else if a2 \<noteq> b2 then a2 else f64_less b3 a3)"

definition rank_of :: "Unicode \<Rightarrow> string \<Rightarrow> bool \<Rightarrow> nat list \<Rightarrow> TmdbResult \<times> f64 \<Rightarrow> rank" where
  "rank_of U query prefer_tv years c =
     (let r = fst c; want = norm U query; exact = 0 < year r \<and> want \<noteq> [] \<and> norm U (title r) = want
      in (of_bool exact + of_bool (exact \<and> year_matches (year r) years), 0 < year r, prefer_tv \<and> is_tv (media_type r), snd c))"

fun best_of :: "(TmdbResult \<times> f64 \<Rightarrow> rank) \<Rightarrow> json list \<Rightarrow> (TmdbResult \<times> rank) option \<Rightarrow> (TmdbResult \<times> rank) option" where
  "best_of key [] best = best"
| "best_of key (v # vs) best =
     (case parse_result v of
        None \<Rightarrow> best_of key vs best
      | Some c \<Rightarrow>
          best_of key vs
            (if (case best of None \<Rightarrow> True | Some (_, k) \<Rightarrow> key_gt (key c) k) then Some (fst c, key c) else best))"

definition pick_best :: "Unicode \<Rightarrow> string \<Rightarrow> json list \<Rightarrow> bool \<Rightarrow> nat list \<Rightarrow> TmdbResult option" where
  "pick_best U query results prefer_tv years =
     map_option fst (best_of (rank_of U query prefer_tv years) results None)"

text \<open>The ranked search: a stable sort, exact first, then dated, then by popularity.\<close>

definition shown_before :: "TmdbResult \<times> f64 \<times> bool \<Rightarrow> TmdbResult \<times> f64 \<times> bool \<Rightarrow> bool" where
  "shown_before a b =
     (case (a, b) of ((ra, pa, ea), (rb, pb, eb)) \<Rightarrow>
        if ea \<noteq> eb then ea
        else if (0 < year ra) \<noteq> (0 < year rb) then 0 < year ra
        else f64_less pb pa)"

fun insort_shown :: "TmdbResult \<times> f64 \<times> bool \<Rightarrow> (TmdbResult \<times> f64 \<times> bool) list \<Rightarrow> (TmdbResult \<times> f64 \<times> bool) list" where
  "insort_shown x [] = [x]"
| "insort_shown x (y # ys) = (if shown_before y x then y # insort_shown x ys else x # y # ys)"

definition rank_search_results :: "Unicode \<Rightarrow> string \<Rightarrow> json list \<Rightarrow> nat \<Rightarrow> TmdbResult list" where
  "rank_search_results U query results limit =
     (let parsed = map (\<lambda>(r, pop). (r, pop, 0 < year r \<and> norm U (title r) = norm U query)) (List.map_filter parse_result results)
      in map fst (take limit (foldr insort_shown parsed [])))"

definition exact_match :: "Unicode \<Rightarrow> TmdbResult list \<Rightarrow> string \<Rightarrow> MediaKind \<Rightarrow> nat \<Rightarrow> TmdbResult option" where
  "exact_match U results name kind y =
     (case filter (\<lambda>r. media_type r = kind \<and> norm U (title r) = norm U name \<and> (y = 0 \<or> year r = y)) results of
        [hit] \<Rightarrow> Some hit
      | _ \<Rightarrow> None)"

subsection \<open>The lookup\<close>

datatype Failed = FetchStop | FetchNext

definition status_failure :: "nat \<Rightarrow> Failed" where
  "status_failure code = (if code = 401 \<or> code = 429 \<or> (500 \<le> code \<and> code \<le> 599) then FetchStop else FetchNext)"

type_synonym fetch = "string \<Rightarrow> Failed + json"

text \<open>The loop gives the sure match, or the best guess and whether a query failed.\<close>

fun ask_variants ::
  "Unicode \<Rightarrow> fetch \<Rightarrow> bool \<Rightarrow> nat list \<Rightarrow> string list \<Rightarrow> TmdbResult option \<Rightarrow> bool \<Rightarrow> TmdbResult + TmdbResult option \<times> bool" where
  "ask_variants U fetch tv years [] fallback failed = Inr (fallback, failed)"
| "ask_variants U fetch tv years (q # qs) fallback failed =
     (if trim q = [] then ask_variants U fetch tv years qs fallback failed
      else case fetch q of
        Inl FetchStop \<Rightarrow> Inr (fallback, True)
      | Inl FetchNext \<Rightarrow> ask_variants U fetch tv years qs fallback True
      | Inr resp \<Rightarrow>
          (case as_array (field resp ''results'') of
             None \<Rightarrow> ask_variants U fetch tv years qs fallback True
           | Some results \<Rightarrow>
               (case pick_best U q results tv years of
                  None \<Rightarrow> ask_variants U fetch tv years qs fallback failed
                | Some best \<Rightarrow>
                    if year_matches (year best) years \<and> norm U (title best) = norm U q then Inl best
                    else ask_variants U fetch tv years qs (if fallback = None then Some best else fallback) failed)))"

text \<open>\<open>Inl\<close> is \<open>LookupFailed\<close> with the best guess it carries.\<close>

definition lookup_using :: "Unicode \<Rightarrow> string \<Rightarrow> fetch \<Rightarrow> TmdbResult option + TmdbResult option" where
  "lookup_using U label fetch =
     (case ask_variants U fetch (season_from_label U label \<noteq> None) (snd (strip_paren_year label)) (query_variants U label) None False of
        Inl best \<Rightarrow> Inr (Some best)
      | Inr (fallback, failed) \<Rightarrow>
          (if (case fallback of None \<Rightarrow> False | Some best \<Rightarrow> is_confident_match U label (title best) (year best)) then Inr fallback
           else if failed then Inl fallback
           else Inr fallback))"

definition lookup_with :: "Unicode \<Rightarrow> string \<Rightarrow> string \<Rightarrow> fetch \<Rightarrow> TmdbResult option + TmdbResult option" where
  "lookup_with U label api_key fetch = (if api_key = [] then Inr None else lookup_using U label fetch)"

definition best_effort :: "TmdbResult option + TmdbResult option \<Rightarrow> TmdbResult option" where
  "best_effort found = (case found of Inl g \<Rightarrow> g | Inr r \<Rightarrow> r)"

definition search_with :: "Unicode \<Rightarrow> string \<Rightarrow> string \<Rightarrow> nat \<Rightarrow> fetch \<Rightarrow> TmdbResult list" where
  "search_with U query api_key limit fetch =
     (if api_key = [] \<or> trim query = [] then []
      else case fetch query of
             Inl _ \<Rightarrow> []
           | Inr resp \<Rightarrow>
               (case as_array (field resp ''results'') of None \<Rightarrow> [] | Some results \<Rightarrow> rank_search_results U query results limit))"

subsection \<open>Episodes\<close>

definition u16_max :: nat where "u16_max = 65535"

definition to_u16 :: "nat \<Rightarrow> nat option" where
  "to_u16 n = (if n \<le> u16_max then Some n else None)"

record Episode =
  number :: nat
  name :: string
  runtime_min :: nat

record EpisodeAssignment =
  ep_number :: nat
  ep_name :: string

definition parse_episode :: "json \<Rightarrow> Episode option" where
  "parse_episode e =
     map_option
       (\<lambda>n. \<lparr>number = n, name = unwrap_or (as_str (field e ''name'')) [],
             runtime_min = unwrap_or (Option.bind (as_u64 (field e ''runtime'')) to_u16) 0\<rparr>)
       (Option.bind (as_u64 (field e ''episode_number'')) to_u16)"

definition parse_episodes :: "json \<Rightarrow> Episode list" where
  "parse_episodes v = (case as_array (field v ''episodes'') of None \<Rightarrow> [] | Some xs \<Rightarrow> List.map_filter parse_episode xs)"

definition season_episodes_with :: "nat \<Rightarrow> string \<Rightarrow> json option \<Rightarrow> Episode list" where
  "season_episodes_with tv_id api_key answer =
     (if api_key = [] \<or> tv_id = 0 then [] else unwrap_or (map_option parse_episodes answer) [])"

definition sat_add16 :: "nat \<Rightarrow> nat \<Rightarrow> nat" where
  "sat_add16 a b = min (a + b) u16_max"

definition numbered_episode_names :: "nat \<Rightarrow> Episode list \<Rightarrow> nat \<Rightarrow> EpisodeAssignment list" where
  "numbered_episode_names count eps start =
     map (\<lambda>i. let e = sat_add16 start (unwrap_or (to_u16 i) u16_max)
              in \<lparr>ep_number = e, ep_name = unwrap_or (map_option name (find (\<lambda>c. number c = e) eps)) []\<rparr>)
       [0..<count]"

definition runtime_plausible :: "f64 \<Rightarrow> nat \<Rightarrow> bool" where
  "runtime_plausible secs ep_min \<longleftrightarrow>
     ep_min = 0 \<or>
     (let title_min = f64_div secs (Fin 60); tol = f64_max (f64_mul (f64_of_nat ep_min) (Fin (1 / 4))) (Fin 5)
      in f64_le (f64_abs (f64_sub title_min (f64_of_nat ep_min))) tol)"

text \<open>Here the index is cut to 16 bits.\<close>

definition map_episodes :: "f64 list \<Rightarrow> Episode list \<Rightarrow> nat \<Rightarrow> EpisodeAssignment list" where
  "map_episodes title_secs eps start =
     map (\<lambda>(i, secs). let e = sat_add16 start (i mod 65536)
                      in \<lparr>ep_number = e,
                          ep_name = (case find (\<lambda>c. number c = e) eps of
                                       None \<Rightarrow> []
                                     | Some c \<Rightarrow> if runtime_plausible secs (runtime_min c) then name c else [])\<rparr>)
       (enumerate 0 title_secs)"

definition ALIGN_MIN_GAIN_MIN :: f64 where "ALIGN_MIN_GAIN_MIN = Fin 1"

definition align_eps :: f64 where "align_eps = round64 (1 / 1000000000)"

text \<open>The distance of a disc from the episodes at a start, and how many titles it rests on.\<close>

definition start_fit :: "f64 list \<Rightarrow> (nat \<Rightarrow> nat option) \<Rightarrow> nat \<Rightarrow> f64 \<times> nat" where
  "start_fit title_secs runtime_of start =
     foldl (\<lambda>(far, signal) (i, secs).
              if f64_le secs (Fin 0) then (far, signal)
              else case runtime_of (start + i) of
                     None \<Rightarrow> (far, signal)
                   | Some m \<Rightarrow>
                       if 0 < m then (f64_add far (f64_abs (f64_sub (f64_div secs (Fin 60)) (f64_of_nat m))), signal + 1)
                       else (far, signal))
       (Fin 0, 0) (enumerate 0 title_secs)"

record Align =
  best_start :: nat
  best_avg :: f64
  best_signal :: nat
  best_tied :: bool
  fallback_avg :: "f64 option"

definition align_step :: "f64 list \<Rightarrow> (nat \<Rightarrow> nat option) \<Rightarrow> nat \<Rightarrow> nat \<Rightarrow> Align \<Rightarrow> Align" where
  "align_step title_secs runtime_of fallback start st =
     (case start_fit title_secs runtime_of start of
        (far, signal) \<Rightarrow>
          if signal = 0 then st
          else
            (let avg = f64_div far (f64_of_nat signal);
                 st = (if start = fallback then st\<lparr>fallback_avg := Some avg\<rparr> else st)
             in if best_signal st = 0 \<or> f64_less avg (f64_sub (best_avg st) align_eps)
                then st\<lparr>best_start := start, best_avg := avg, best_signal := signal, best_tied := False\<rparr>
                else if f64_le (f64_abs (f64_sub avg (best_avg st))) align_eps then st\<lparr>best_tied := True\<rparr>
                else st))"

definition align_disc_offset :: "f64 list \<Rightarrow> Episode list \<Rightarrow> nat \<Rightarrow> nat" where
  "align_disc_offset title_secs eps fallback =
     (let count = length title_secs
      in if count = 0 \<or> eps = [] then fallback
         else if u16_max < count then fallback
         else
           (let min_ep = max (Min (set (map number eps))) 1; max_ep = Max (set (map number eps))
            in if max_ep < count - 1 then fallback
               else if max_ep - (count - 1) < min_ep then fallback
               else
                 (let runtime_of = map_of (map (\<lambda>e. (number e, runtime_min e)) eps);
                      st = foldl (\<lambda>st start. align_step title_secs runtime_of fallback start st)
                             \<lparr>best_start = fallback, best_avg = PosInf, best_signal = 0, best_tied = False, fallback_avg = None\<rparr>
                             [min_ep..<Suc (max_ep - (count - 1))]
                  in if best_signal st = 0 \<or> best_tied st then fallback
                     else if (case fallback_avg st of None \<Rightarrow> False | Some fa \<Rightarrow> f64_less (f64_sub fa (best_avg st)) ALIGN_MIN_GAIN_MIN)
                     then fallback
                     else best_start st)))"

end
