(* ===== verification/TmdbProps.thy ===== *)
theory TmdbProps
  imports Tmdb
begin

text \<open>
  What the naming lookup promises: a sure match is never lost and a guess is never passed for one after a failure;
  a disc is moved in its season only for a clear gain and never out of it; labels and queries keep their bounds.
\<close>

subsection \<open>The lookup\<close>

text \<open>What one query gives: whether it was answered, and its best match.\<close>

definition answered :: "fetch \<Rightarrow> string \<Rightarrow> bool" where
  "answered fetch q \<longleftrightarrow> (case fetch q of Inl _ \<Rightarrow> False | Inr resp \<Rightarrow> as_array (field resp ''results'') \<noteq> None)"

definition guess :: "Unicode \<Rightarrow> fetch \<Rightarrow> bool \<Rightarrow> nat list \<Rightarrow> string \<Rightarrow> TmdbResult option" where
  "guess U fetch tv years q =
     (case fetch q of
        Inl _ \<Rightarrow> None
      | Inr resp \<Rightarrow> Option.bind (as_array (field resp ''results'')) (\<lambda>rs. pick_best U q rs tv years))"

definition sure :: "Unicode \<Rightarrow> nat list \<Rightarrow> string \<Rightarrow> TmdbResult \<Rightarrow> bool" where
  "sure U years q r \<longleftrightarrow> year_matches (year r) years \<and> norm U (title r) = norm U q"

definition none_sure :: "Unicode \<Rightarrow> fetch \<Rightarrow> bool \<Rightarrow> nat list \<Rightarrow> string list \<Rightarrow> bool" where
  "none_sure U fetch tv years qs \<longleftrightarrow> list_all (\<lambda>q. case guess U fetch tv years q of None \<Rightarrow> True | Some r \<Rightarrow> \<not> sure U years q r) qs"

definition asked :: "fetch \<Rightarrow> string list \<Rightarrow> string list" where
  "asked fetch qs = takeWhile (\<lambda>q. fetch q \<noteq> Inl FetchStop) qs"

definition nonblank :: "string list \<Rightarrow> string list" where
  "nonblank qs = filter (\<lambda>q. trim q \<noteq> []) qs"

lemma or_else_assoc: "or_else (or_else a b) c = or_else a (or_else b c)"
  by (cases a) (simp_all add: or_else_def)

lemma or_else_simps [simp]: "or_else None b = b" "or_else (Some a) b = Some a" "or_else x None = x"
  by (simp_all add: or_else_def split: option.split)

lemma first_some_Cons: "first_some f (x # xs) = or_else (f x) (first_some f xs)"
  by (simp add: or_else_def)

lemma asked_Cons: "asked fetch (q # qs) = (if fetch q = Inl FetchStop then [] else q # asked fetch qs)"
  by (simp add: asked_def)

lemma none_sure_Cons:
  "none_sure U fetch tv years (q # qs) \<longleftrightarrow>
     (case guess U fetch tv years q of None \<Rightarrow> True | Some r \<Rightarrow> \<not> sure U years q r) \<and> none_sure U fetch tv years qs"
  by (simp add: none_sure_def)

definition ask_spec ::
  "Unicode \<Rightarrow> fetch \<Rightarrow> bool \<Rightarrow> nat list \<Rightarrow> string list \<Rightarrow> TmdbResult option \<Rightarrow> bool \<Rightarrow> TmdbResult + TmdbResult option \<times> bool \<Rightarrow> bool" where
  "ask_spec U fetch tv years qs fb failed z \<longleftrightarrow>
     (case z of
        Inl best \<Rightarrow> \<exists>q \<in> set qs. guess U fetch tv years q = Some best \<and> sure U years q best
      | Inr p \<Rightarrow>
          p = (or_else fb (first_some (guess U fetch tv years) (asked fetch qs)), failed \<or> \<not> list_all (answered fetch) qs) \<and>
          none_sure U fetch tv years (asked fetch qs))"

lemma ask_variants_ok: "ask_spec U fetch tv years (nonblank qs) fb failed (ask_variants U fetch tv years qs fb failed)"
proof (induction qs arbitrary: fb failed)
  case Nil
  show ?case by (simp add: ask_spec_def nonblank_def asked_def none_sure_def)
next
  case (Cons q qs)
  have step: ?case
    if "trim q \<noteq> []" and z: "ask_variants U fetch tv years (q # qs) fb failed = ask_variants U fetch tv years qs fb' failed'"
      and "fb' = or_else fb (guess U fetch tv years q)" "failed' = (failed \<or> \<not> answered fetch q)" "fetch q \<noteq> Inl FetchStop"
      and "case guess U fetch tv years q of None \<Rightarrow> True | Some r \<Rightarrow> \<not> sure U years q r" for fb' failed'
    using Cons [of fb' failed'] that(1,3-) unfolding z
    by (cases "ask_variants U fetch tv years qs fb' failed'")
      (auto simp: ask_spec_def nonblank_def asked_Cons none_sure_Cons first_some_Cons or_else_assoc simp del: first_some.simps)
  show ?case
  proof (cases "trim q = []")
    case True
    then have same: "nonblank (q # qs) = nonblank qs"
        "ask_variants U fetch tv years (q # qs) fb failed = ask_variants U fetch tv years qs fb failed"
      by (simp_all add: nonblank_def)
    show ?thesis unfolding same by (rule Cons)
  next
    case q: False
    consider "fetch q = Inl FetchStop" | "fetch q = Inl FetchNext"
      | resp where "fetch q = Inr resp" "as_array (field resp ''results'') = None"
      | resp rs where "fetch q = Inr resp" "as_array (field resp ''results'') = Some rs" "pick_best U q rs tv years = None"
      | resp rs best where "fetch q = Inr resp" "as_array (field resp ''results'') = Some rs" "pick_best U q rs tv years = Some best"
          "guess U fetch tv years q = Some best" "answered fetch q"
    proof (cases "fetch q")
      case (Inl z)
      then show ?thesis using that(1,2) by (cases z) auto
    next
      case (Inr resp)
      then show ?thesis using that(3-5)
        by (cases "as_array (field resp ''results'')"; cases "pick_best U q (the (as_array (field resp ''results''))) tv years")
          (auto simp: guess_def answered_def)
    qed
    then show ?thesis
    proof cases
      case 1
      then show ?thesis using q by (simp add: ask_spec_def nonblank_def asked_Cons none_sure_def answered_def)
    next
      case 2
      then show ?thesis using q by (intro step [of fb True]) (simp_all add: guess_def answered_def)
    next
      case 3
      then show ?thesis using q by (intro step [of fb True]) (simp_all add: guess_def answered_def)
    next
      case 4
      then show ?thesis using q by (intro step [of fb failed]) (simp_all add: guess_def answered_def)
    next
      case 5
      show ?thesis
      proof (cases "sure U years q best")
        case True
        then show ?thesis using q 5 by (simp add: ask_spec_def nonblank_def sure_def)
      next
        case False
        then show ?thesis using q 5
          by (intro step [of "if fb = None then Some best else fb" failed]) (auto simp: sure_def or_else_def split: option.split)
      qed
    qed
  qed
qed

lemma sure_confident:
  assumes "q \<in> set (query_variants U label)" and "sure U (snd (strip_paren_year label)) q r"
  shows "is_confident_match U label (title r) (year r)"
  using assms by (auto simp: is_confident_match_def sure_def list_ex_iff)

definition variants :: "Unicode \<Rightarrow> string \<Rightarrow> string list" where
  "variants U label = nonblank (query_variants U label)"

definition best_guess :: "Unicode \<Rightarrow> string \<Rightarrow> fetch \<Rightarrow> string \<Rightarrow> TmdbResult option" where
  "best_guess U label fetch = guess U fetch (season_from_label U label \<noteq> None) (snd (strip_paren_year label))"

definition confident :: "Unicode \<Rightarrow> string \<Rightarrow> TmdbResult \<Rightarrow> bool" where
  "confident U label r = is_confident_match U label (title r) (year r)"

text \<open>
C37: The lookup of a label. A match it is sure of is the answer of one of the variants, and its title and year are those the label
gives. With none, a guess is an answer only when every variant was answered, and it is the guess of the first variant
that has one; no match is an answer only when every variant was answered and none has one. When a query failed and nothing
found is sure, the answer is a failure that carries the first guess, and no variant asked gave a sure match that was passed over.
\<close>

theorem lookup_exact:
  "case lookup_using U label fetch of
     Inr (Some r) \<Rightarrow>
       (\<exists>q \<in> set (variants U label). best_guess U label fetch q = Some r) \<and>
       (confident U label r \<or>
        list_all (answered fetch) (variants U label) \<and> first_some (best_guess U label fetch) (variants U label) = Some r \<and>
        none_sure U fetch (season_from_label U label \<noteq> None) (snd (strip_paren_year label)) (variants U label))
   | Inr None \<Rightarrow>
       list_all (answered fetch) (variants U label) \<and> first_some (best_guess U label fetch) (variants U label) = None
   | Inl g \<Rightarrow>
       \<not> list_all (answered fetch) (variants U label) \<and>
       g = first_some (best_guess U label fetch) (asked fetch (variants U label)) \<and>
       (case g of None \<Rightarrow> True | Some r \<Rightarrow> \<not> confident U label r) \<and>
       none_sure U fetch (season_from_label U label \<noteq> None) (snd (strip_paren_year label)) (asked fetch (variants U label))"
proof -
  let ?tv = "season_from_label U label \<noteq> None" and ?ys = "snd (strip_paren_year label)"
  have all: "asked fetch qs = qs" if "list_all (answered fetch) qs" for qs
    using that by (auto simp: asked_def list_all_iff answered_def takeWhile_eq_all_conv)
  have some: "\<exists>q \<in> set qs. best_guess U label fetch q = Some r" if "first_some (best_guess U label fetch) (asked fetch qs) = Some r" for qs r
    using first_some_eq [OF that] by (auto simp: asked_def dest: set_takeWhileD)
  have ask: "ask_spec U fetch ?tv ?ys (variants U label) None False (ask_variants U fetch ?tv ?ys (query_variants U label) None False)"
    unfolding variants_def by (rule ask_variants_ok)
  show ?thesis
  proof (cases "ask_variants U fetch ?tv ?ys (query_variants U label) None False")
    case (Inl best)
    then obtain q where q: "q \<in> set (variants U label)" "best_guess U label fetch q = Some best" "sure U ?ys q best"
      using ask by (auto simp: ask_spec_def best_guess_def)
    then have "q \<in> set (query_variants U label)" by (simp add: variants_def nonblank_def)
    then have "confident U label best" using sure_confident q(3) by (simp add: confident_def)
    then show ?thesis using q Inl by (auto simp: lookup_using_def simp del: not_None_eq)
  next
    case (Inr p)
    obtain fb failed where p: "p = (fb, failed)" by fastforce
    have fb: "fb = first_some (best_guess U label fetch) (asked fetch (variants U label))"
        "failed = (\<not> list_all (answered fetch) (variants U label))" "none_sure U fetch ?tv ?ys (asked fetch (variants U label))"
      using ask unfolding Inr p by (simp_all add: ask_spec_def best_guess_def del: not_None_eq)
    show ?thesis
    proof (cases fb)
      case None
      then show ?thesis using Inr p fb all [of "variants U label"] by (cases failed) (simp_all add: lookup_using_def del: not_None_eq)
    next
      case (Some r)
      then have in_q: "\<exists>q \<in> set (variants U label). best_guess U label fetch q = Some r" using fb(1) some by simp
      show ?thesis
      proof (cases "confident U label r")
        case True
        then show ?thesis using Inr p Some in_q by (simp add: lookup_using_def confident_def del: not_None_eq)
      next
        case False
        then show ?thesis using Inr p Some fb in_q all [of "variants U label"]
          by (cases failed) (simp_all add: lookup_using_def confident_def del: not_None_eq)
      qed
    qed
  qed
qed

subsection \<open>Where a disc starts\<close>

definition fit_avg :: "f64 list \<Rightarrow> Episode list \<Rightarrow> nat \<Rightarrow> f64 option" where
  "fit_avg title_secs eps start =
     (case start_fit title_secs (map_of (map (\<lambda>e. (number e, runtime_min e)) eps)) start of
        (far, signal) \<Rightarrow> if signal = 0 then None else Some (f64_div far (f64_of_nat signal)))"

definition align_inv :: "f64 list \<Rightarrow> Episode list \<Rightarrow> nat \<Rightarrow> nat list \<Rightarrow> Align \<Rightarrow> bool" where
  "align_inv title_secs eps fallback done st \<longleftrightarrow>
     (if best_signal st = 0 then best_start st = fallback
      else best_start st \<in> set done \<and> fit_avg title_secs eps (best_start st) = Some (best_avg st)) \<and>
     fallback_avg st = (if fallback \<in> set done then fit_avg title_secs eps fallback else None)"

lemma align_step_inv:
  assumes "align_inv title_secs eps fallback done st"
  shows "align_inv title_secs eps fallback (done @ [start])
    (align_step title_secs (map_of (map (\<lambda>e. (number e, runtime_min e)) eps)) fallback start st)"
proof -
  let ?m = "map_of (map (\<lambda>e. (number e, runtime_min e)) eps)"
  obtain far signal where f: "start_fit title_secs ?m start = (far, signal)" by fastforce
  show ?thesis
  proof (cases "signal = 0")
    case True
    then have "fit_avg title_secs eps start = None" using f by (simp add: fit_avg_def)
    then show ?thesis using assms f True by (auto simp: align_step_def align_inv_def)
  next
    case False
    then have "fit_avg title_secs eps start = Some (f64_div far (f64_of_nat signal))" using f by (simp add: fit_avg_def)
    then show ?thesis using assms f False
      by (cases "start = fallback") (auto simp: align_step_def align_inv_def Let_def)
  qed
qed

lemma align_fold_inv:
  "align_inv title_secs eps fallback done st \<Longrightarrow>
   align_inv title_secs eps fallback (done @ starts)
     (foldl (\<lambda>st start. align_step title_secs (map_of (map (\<lambda>e. (number e, runtime_min e)) eps)) fallback start st) st starts)"
proof (induction starts arbitrary: "done" st)
  case (Cons s starts)
  show ?case using Cons.IH [OF align_step_inv [OF Cons.prems, of s]] by simp
qed simp

text \<open>
C38: A disc never leaves its season. The start it is given is the fallback, or one at which all its titles fall on numbers
between the first and the last episode, and the titles have episodes to be compared with
there; and when the fallback could be compared too, its average distance is at least a minute worse.
\<close>

theorem align_in_season:
  "let r = align_disc_offset title_secs eps fallback in
     r = fallback \<or>
     (title_secs \<noteq> [] \<and> eps \<noteq> [] \<and> 1 \<le> r \<and> Min (set (map number eps)) \<le> r \<and>
      r + (length title_secs - 1) \<le> Max (set (map number eps)) \<and> length title_secs \<le> u16_max \<and>
      (\<exists>avg. fit_avg title_secs eps r = Some avg \<and>
         (case (if max (Min (set (map number eps))) 1 \<le> fallback \<and> fallback + (length title_secs - 1) \<le> Max (set (map number eps))
                then fit_avg title_secs eps fallback else None) of
            None \<Rightarrow> True
          | Some fa \<Rightarrow> \<not> f64_less (f64_sub fa avg) ALIGN_MIN_GAIN_MIN)))"
proof (cases "align_disc_offset title_secs eps fallback = fallback")
  case False
  let ?n = "length title_secs - 1" and ?lo = "max (Min (set (map number eps))) 1" and ?hi = "Max (set (map number eps))"
  define start where "start = \<lparr>best_start = fallback, best_avg = PosInf, best_signal = 0, best_tied = False, fallback_avg = None\<rparr>"
  define st where "st = foldl (\<lambda>st start. align_step title_secs (map_of (map (\<lambda>e. (number e, runtime_min e)) eps)) fallback start st)
      start [?lo..<Suc (?hi - ?n)]"
  note unfolded = align_disc_offset_def [of title_secs eps fallback, unfolded Let_def]
  have n1: "\<not> (length title_secs = 0 \<or> eps = [])"
    using False unfolding unfolded by (rule contrapos_nn) (simp only: if_True simp_thms)
  have n2: "\<not> u16_max < length title_secs"
    using False unfolding unfolded if_not_P [OF n1] by (rule contrapos_nn) (simp only: if_True simp_thms)
  have n3: "\<not> ?hi < ?n"
    using False unfolding unfolded if_not_P [OF n1] if_not_P [OF n2] by (rule contrapos_nn) (simp only: if_True simp_thms)
  have n4: "\<not> ?hi - ?n < ?lo"
    using False unfolding unfolded if_not_P [OF n1] if_not_P [OF n2] if_not_P [OF n3]
    by (rule contrapos_nn) (simp only: if_True simp_thms)
  have g: "title_secs \<noteq> []" "eps \<noteq> []" "length title_secs \<le> u16_max" "?n \<le> ?hi" "?lo \<le> ?hi - ?n" using n1 n2 n3 n4 by auto
  have r: "align_disc_offset title_secs eps fallback =
      (if best_signal st = 0 \<or> best_tied st then fallback
       else if (case fallback_avg st of None \<Rightarrow> False | Some fa \<Rightarrow> f64_less (f64_sub fa (best_avg st)) ALIGN_MIN_GAIN_MIN) then fallback
       else best_start st)"
    unfolding unfolded if_not_P [OF n1] if_not_P [OF n2] if_not_P [OF n3] if_not_P [OF n4] st_def start_def by (rule refl)
  have "align_inv title_secs eps fallback ([] @ [?lo..<Suc (?hi - ?n)]) st"
    unfolding st_def by (rule align_fold_inv) (simp add: align_inv_def start_def)
  then have inv: "align_inv title_secs eps fallback [?lo..<Suc (?hi - ?n)] st" by simp
  have pos: "best_signal st \<noteq> 0" and at: "align_disc_offset title_secs eps fallback = best_start st"
    and gain: "case fallback_avg st of None \<Rightarrow> True | Some fa \<Rightarrow> \<not> f64_less (f64_sub fa (best_avg st)) ALIGN_MIN_GAIN_MIN"
    using False r by (auto split: if_splits option.splits)
  have b: "best_start st \<in> set [?lo..<Suc (?hi - ?n)]" "fit_avg title_secs eps (best_start st) = Some (best_avg st)"
      "fallback_avg st = (if fallback \<in> set [?lo..<Suc (?hi - ?n)] then fit_avg title_secs eps fallback else None)"
    using inv pos unfolding align_inv_def by simp_all
  have range: "fallback \<in> set [?lo..<Suc (?hi - ?n)] \<longleftrightarrow> ?lo \<le> fallback \<and> fallback + ?n \<le> ?hi" using g(4,5) by auto
  have "1 \<le> best_start st" "Min (set (map number eps)) \<le> best_start st" "best_start st + ?n \<le> ?hi" using b(1) g(4) by auto
  then show ?thesis
    using gain b(2) g unfolding at Let_def b(3) range by blast
qed simp

subsection \<open>Labels and queries\<close>

definition unhex :: "char \<Rightarrow> nat" where
  "unhex c = (let n = of_char c :: nat in if n < 65 then n - 48 else n - 55)"

text \<open>What a server reads of a query.\<close>

fun url_decode :: "string \<Rightarrow> nat list" where
  "url_decode [] = []"
| "url_decode (c # cs) =
     (if c = CHR ''+'' then 32 # url_decode cs
      else if c = CHR ''%'' then (case cs of h # l # rest \<Rightarrow> (16 * unhex h + unhex l) # url_decode rest | _ \<Rightarrow> [])
      else of_char c # url_decode cs)"

lemma char_of_neq: "n < 256 \<Longrightarrow> m < 256 \<Longrightarrow> n \<noteq> m \<Longrightarrow> (char_of n :: char) \<noteq> char_of (m :: nat)"
  by (metis of_char_of mod_less)

lemma unhex_upper: "d < 16 \<Longrightarrow> unhex (upper_hex d) = d"
  by (auto simp: unhex_def upper_hex_def Let_def)

lemma url_byte_decode: "b < 256 \<Longrightarrow> url_decode (url_byte b @ rest) = b # url_decode rest"
proof -
  assume b: "b < 256"
  have c: "CHR ''+'' = char_of (43 :: nat)" "CHR ''%'' = char_of (37 :: nat)" by code_simp+
  consider "unreserved b" | "\<not> unreserved b" "b = 32" | "\<not> unreserved b" "b \<noteq> 32" by blast
  then show ?thesis
  proof cases
    case 1
    then have "b \<noteq> 43" "b \<noteq> 37" by (auto simp: unreserved_def)
    then have "char_of b \<noteq> CHR ''+''" "char_of b \<noteq> CHR ''%''" using char_of_neq b unfolding c by simp_all
    then show ?thesis using 1 b by (simp add: url_byte_def)
  next
    case 2
    then show ?thesis by (simp add: url_byte_def)
  next
    case 3
    then have "16 * unhex (upper_hex (b div 16)) + unhex (upper_hex (b mod 16)) = b" using b by (simp add: unhex_upper)
    then show ?thesis using 3 by (simp add: url_byte_def)
  qed
qed

lemma utf8_byte: "b \<in> set (utf8 s) \<Longrightarrow> b < 256"
proof -
  have lt: "of_char c < (256 :: nat)" for c :: char by (metis of_char_mod_256 mod_less_divisor zero_less_numeral)
  have "(of_char c :: nat) div 64 < 64" for c :: char using lt [of c] by linarith
  then show "b \<in> set (utf8 s) \<Longrightarrow> b < 256" by (auto intro: less_trans simp: utf8_def Let_def split: if_splits)
qed

text \<open>A query is read by the server as the bytes it was made of, whatever a label holds.\<close>

lemma url_round_trip: "url_decode (urlencoded s) = utf8 s"
proof -
  have "url_decode (concat (map url_byte bs)) = bs" if "\<And>b. b \<in> set bs \<Longrightarrow> b < 256" for bs
    using that by (induction bs) (simp_all add: url_byte_decode)
  then show ?thesis using utf8_byte by (simp add: urlencoded_def)
qed

lemma leading_number_range: "leading_number s = Some n \<Longrightarrow> in_1_99 n"
  by (auto simp: leading_number_def split: option.splits if_splits)

lemma number_after_range: "number_after w s = Some n \<Longrightarrow> in_1_99 n"
proof (induction w s rule: number_after.induct)
  case (1 w s)
  then show ?case
    by (subst (asm) number_after.simps) (auto split: if_splits option.splits dest: leading_number_range)
qed

lemma compact_number_range: "compact_number low pfx = Some n \<Longrightarrow> in_1_99 n"
  by (auto simp: compact_number_def split: option.splits if_splits)

lemma from_label_range:
  "season_from_label U label = Some n \<Longrightarrow> in_1_99 n"
  "disc_from_label U label = Some n \<Longrightarrow> in_1_99 n"
  by (auto simp: season_from_label_def disc_from_label_def or_else_def number_after_word_def compact_token_number_def
      dest!: first_some_eq number_after_range compact_number_range split: option.splits)

lemma variants_bounded:
  assumes "distinct found" "[] \<notin> set found" "length found < MAX_QUERY_VARIANTS"
  shows "distinct (variants_from U toks found e) \<and> [] \<notin> set (variants_from U toks found e) \<and>
    length (variants_from U toks found e) \<le> MAX_QUERY_VARIANTS"
  using assms
proof (induction U toks found e rule: variants_from.induct)
  case (1 U toks found e)
  define q where "q = clean_title U (join_with '' '' (take e toks))"
  define kept where "kept = min (length (split_whitespace q)) e"
  define found' where "found' = (if q \<noteq> [] \<and> q \<notin> set found then found @ [q] else found)"
  have f: "distinct found'" "[] \<notin> set found'" "length found' \<le> MAX_QUERY_VARIANTS" using 1(2-) by (auto simp: found'_def)
  note unfolded = variants_from.simps [of U toks found e, unfolded Let_def, folded q_def, folded kept_def found'_def]
  show ?case
  proof (cases "MAX_QUERY_VARIANTS \<le> length found' \<or> kept \<le> 1 \<or> \<not> is_trailing_junk U (toks ! (kept - 1))")
    case True
    then have "variants_from U toks found e = found'" unfolding unfolded by (rule if_P)
    then show ?thesis using f by simp
  next
    case False
    then have "variants_from U toks found e = variants_from U toks found' (kept - 1)" unfolding unfolded by (rule if_not_P)
    then show ?thesis using "1.IH" [OF q_def kept_def found'_def False f(1,2)] False by simp
  qed
qed

text \<open>
Whatever a label holds, reading it stays in bounds. A season and a disc are between 1 and 99; a lookup asks at most five
queries, all different and none empty; and the query in the URL is decoded to the bytes of the label and nothing else.
\<close>

theorem label_queries_bounded:
  "(case season_from_label U label of None \<Rightarrow> True | Some n \<Rightarrow> 1 \<le> n \<and> n \<le> 99) \<and>
   (case disc_from_label U label of None \<Rightarrow> True | Some n \<Rightarrow> 1 \<le> n \<and> n \<le> 99) \<and>
   length (query_variants U label) \<le> 5 \<and> distinct (query_variants U label) \<and> [] \<notin> set (query_variants U label) \<and>
   map (url_decode \<circ> urlencoded) (query_variants U label) = map utf8 (query_variants U label)"
  using variants_bounded [of "[]" U] from_label_range [of U label]
  by (auto simp: query_variants_def Let_def MAX_QUERY_VARIANTS_def in_1_99_def url_round_trip split: option.split)

end
