(* ===== verification/ImageOpen.thy ===== *)
theory ImageOpen
  imports TitleLoop MapfileIO Preflight
begin

text \<open>
  The open of a disc image and its keys (\<open>src/src/image.rs\<close>): the sidecar map, the disc scanned or handed in
  and checked against the image, the key set resolved once, and the one top-up a mux may still ask for. The
  disc library's readers, scans, key sets and resolver are parameters: what a call of them gives is an
  observation of the step that makes it. Traces and log lines are left out.
\<close>

subsection \<open>Discs, key sets and errors\<close>

datatype ImageSource = Iso string | Dir string

definition source_path :: "ImageSource \<Rightarrow> string" where
  "source_path src = (case src of Iso p \<Rightarrow> p | Dir p \<Rightarrow> p)"

definition mapfile_path_for :: "string \<Rightarrow> string" where
  "mapfile_path_for p = p @ ''.mapfile''"

text \<open>What the open reads of a disc of the library.\<close>

record OpenDisc =
  od_capacity :: nat
  od_needs_lookup :: bool
  od_intrinsic :: "string option"
  od_volume :: "nat list option"
  od_titles :: nat

text \<open>An I/O error carries a number of the operating system, or a kind and a text of its own.\<close>

datatype io_source = RawOs nat | OfKind nat string

datatype key_error =
  KeyHalted | NoDiscKey string | WholeDiscKeyMissing | FmtsKeyMissing | DecryptFailed | AacsVidNeedsDisc
| KeyServiceUnavailable | KeyServiceUnauthorized | KeyServiceRateLimited
| KeydbConnect string | KeydbHttp nat | KeydbInvalid | KeydbWrite string | KeydbParse | KeydbLoad string
| KeydbUnsupportedScheme string | KeydbTooManyRedirects
| KeyIo io_source | InvalidMap string | ImageTruncated nat nat | OtherKeyError nat string

definition is_missing :: "key_error \<Rightarrow> bool" where
  "is_missing e = (case e of NoDiscKey _ \<Rightarrow> True | WholeDiscKeyMissing \<Rightarrow> True | _ \<Rightarrow> False)"

text \<open>
  The key sets \<open>KeyRing\<close> of the library, as questions about the disc in hand, and its functions on hexadecimal
  text and on the key file.
\<close>

record 'k RingLib =
  is_for :: "'k \<Rightarrow> bool"
  is_aacs :: "'k \<Rightarrow> bool"
  ring_covers :: "'k \<Rightarrow> KeyScope \<Rightarrow> bool"
  forensic_pending :: "'k \<Rightarrow> bool"
  ring_vidfp :: "'k \<Rightarrow> nat list option"
  proven_fingerprints :: "'k \<Rightarrow> nat list list"
  strip_hex_prefix :: "string \<Rightarrow> string"
  disc_hash_hex :: "nat list \<Rightarrow> string"
  hex_bytes :: "nat \<Rightarrow> string \<Rightarrow> nat list option"
  sha :: "string \<Rightarrow> nat list \<Rightarrow> nat list"

datatype 'k KeyInput = Resolve | Known 'k | Seeded 'k

definition held_set :: "'k KeyInput \<Rightarrow> 'k option" where
  "held_set i = (case i of Known k \<Rightarrow> Some k | Seeded k \<Rightarrow> Some k | Resolve \<Rightarrow> None)"

definition scope_keyed :: "'k RingLib \<Rightarrow> OpenDisc \<Rightarrow> 'k \<Rightarrow> KeyScope \<Rightarrow> bool" where
  "scope_keyed K d k s =
     (let aacs_needed = (od_needs_lookup d \<and> s \<noteq> ScopeNone)
      in (is_aacs K k \<or> \<not> aacs_needed) \<and> ring_covers K k s)"

definition covers_scope :: "'k RingLib \<Rightarrow> OpenDisc \<Rightarrow> 'k \<Rightarrow> KeyScope \<Rightarrow> bool" where
  "covers_scope K d k s = (is_for K k \<and> scope_keyed K d k s)"

definition main_scope :: "OpenDisc \<Rightarrow> nat list" where
  "main_scope d = (if od_titles d = 0 then [] else [0])"

datatype RipOutput = Streams | DecryptedImage | RawImage

definition rip_scope :: "OpenDisc \<Rightarrow> nat list \<Rightarrow> RipOutput \<Rightarrow> KeyScope" where
  "rip_scope d titles out =
     (case out of RawImage \<Rightarrow> ScopeNone | DecryptedImage \<Rightarrow> WholeDisc
      | Streams \<Rightarrow> ScopeTitles (if titles = [] then main_scope d else titles))"

definition known :: "'k RingLib \<Rightarrow> OpenDisc \<Rightarrow> 'k \<Rightarrow> KeyScope \<Rightarrow> key_error + 'k" where
  "known K d k s =
     (if \<not> is_for K k then Inl DecryptFailed
      else if forensic_pending K k then Inl FmtsKeyMissing
      else if \<not> scope_keyed K d k s
      then Inl (NoDiscKey (case od_intrinsic d of None \<Rightarrow> [] | Some h \<Rightarrow> strip_hex_prefix K h))
      else Inr k)"

subsection \<open>The sidecar map\<close>

text \<open>The errors of reading it: those of the parser, a text that is not UTF-8, and those of the operating system.\<close>

definition load_sidecar :: "io_error + Mapfile \<Rightarrow> key_error + Mapfile option" where
  "load_sidecar r =
     (case r of
        Inr m \<Rightarrow> Inr (Some m)
      | Inl NotFound \<Rightarrow> Inr None
      | Inl (MapfileInvalid k) \<Rightarrow> Inl (InvalidMap k)
      | Inl NotUtf8 \<Rightarrow> Inl (InvalidMap ''sidecar'')
      | Inl (OsError n) \<Rightarrow> Inl (KeyIo (RawOs n)))"

definition in_hand_vid_fingerprint ::
  "'k RingLib \<Rightarrow> OpenDisc \<Rightarrow> nat list option \<Rightarrow> 'k option \<Rightarrow> nat list option" where
  "in_hand_vid_fingerprint K d vid seed =
     or_else
       (map_option (vid_fingerprint (sha K))
         (or_else (case vid of Some v \<Rightarrow> (if v = replicate 16 0 then None else Some v) | None \<Rightarrow> None) (od_volume d)))
       (Option.bind seed (ring_vidfp K))"

definition identity_ok :: "Mapfile \<Rightarrow> DiscIdentity \<Rightarrow> key_error + unit" where
  "identity_ok m i = (case check_identity m i of Inl _ \<Rightarrow> Inl (InvalidMap ''disc-mismatch'') | Inr _ \<Rightarrow> Inr ())"

definition vid_needs_disc :: "key_error \<times> bool \<Rightarrow> nat list option \<Rightarrow> Mapfile option \<Rightarrow> key_error" where
  "vid_needs_disc e vid_in_hand sidecar =
     (if is_missing (fst e) \<and> vid_in_hand = None \<and> (case sidecar of Some m \<Rightarrow> vidfp m \<noteq> None | None \<Rightarrow> False) \<and> snd e
      then AacsVidNeedsDisc else fst e)"
subsection \<open>A disc handed in\<close>

definition KEY_FILE :: string where "KEY_FILE = ''/AACS/Unit_Key_RO.inf''"

definition not_os_error :: "key_error + 'a \<Rightarrow> key_error + 'a option" where
  "not_os_error r = (case r of Inr v \<Rightarrow> Inr (Some v) | Inl (KeyIo s) \<Rightarrow> Inl (KeyIo s) | Inl _ \<Rightarrow> Inr None)"

text \<open>What the reader of the image gives: its capacity, its file system, the extents and the bytes of a file.\<close>

record ReadEnv =
  re_capacity :: nat
  re_fs :: "key_error + unit"
  re_extents :: "string \<Rightarrow> key_error + (nat \<times> nat) list"
  re_file :: "string \<Rightarrow> key_error + nat list"

definition key_file_unread :: "Mapfile option \<Rightarrow> unit option \<Rightarrow> ReadEnv \<Rightarrow> key_error + bool" where
  "key_file_unread sidecar filesystem env =
     (case sidecar of
        None \<Rightarrow> Inr False
      | Some m \<Rightarrow>
          (let unread = ranges_with m [NonTried, NonTrimmed, NonScraped, Unreadable]
           in bind_res (case filesystem of Some _ \<Rightarrow> not_os_error (re_extents env KEY_FILE) | None \<Rightarrow> Inr None)
                (\<lambda>extents.
                   Inr (case extents of
                          None \<Rightarrow> unread \<noteq> []
                        | Some es \<Rightarrow> intersect unread (map (\<lambda>(s, n). (s * 2048, n * 2048)) es) \<noteq> []))))"

definition identifies :: "Mapfile \<Rightarrow> nat list option \<Rightarrow> nat list list \<Rightarrow> bool" where
  "identifies m vid_in_hand proven_keys \<longleftrightarrow>
     disc_hash m \<noteq> None \<or> (vidfp m \<noteq> None \<and> vid_in_hand \<noteq> None) \<or>
     list_ex (\<lambda>f. f \<in> set proven_keys) (legacy_keyfps m)"

definition norm_hash :: "'k RingLib \<Rightarrow> string \<Rightarrow> string" where
  "norm_hash K h = map ascii_lower (strip_hex_prefix K h)"

definition check_prescanned ::
  "'k RingLib \<Rightarrow> OpenDisc \<Rightarrow> ReadEnv \<Rightarrow> Mapfile option \<Rightarrow> nat list option \<Rightarrow> nat list list \<Rightarrow> key_error + unit" where
  "check_prescanned K d env sidecar vid_in_hand proven_keys =
     (let got = re_capacity env; want = od_capacity d
      in if got < want then Inl (ImageTruncated (got * 2048) (want * 2048))
         else
           bind_res (not_os_error (re_fs env)) (\<lambda>filesystem.
           bind_res (key_file_unread sidecar filesystem env) (\<lambda>unread.
           bind_res
             (if filesystem \<noteq> None \<and> \<not> unread
              then bind_res (not_os_error (re_file env KEY_FILE))
                     (\<lambda>inf. Inr (map_option (\<lambda>bs. norm_hash K (disc_hash_hex K bs)) inf))
              else Inr None)
             (\<lambda>image_hash.
                (let hash_ok = (case (image_hash, map_option (norm_hash K) (od_intrinsic d)) of
                                  (Some i, Some h) \<Rightarrow> i = h
                                | (None, Some _) \<Rightarrow>
                                    unread \<and> (case sidecar of None \<Rightarrow> False | Some m \<Rightarrow> identifies m vid_in_hand proven_keys)
                                | (_, None) \<Rightarrow> True)
                 in if got \<noteq> want \<or> \<not> hash_ok then Inl (InvalidMap ''disc-mismatch'') else Inr ())))))"

subsection \<open>The open\<close>

text \<open>
  A scan: whether a Stop is raised before it, as it fails and at its end. A rip without a halt sees none.
\<close>

record ScanEnv =
  sc_before :: bool
  sc_result :: "key_error + OpenDisc"
  sc_failing :: bool
  sc_after :: bool

definition scan_image_halted :: "bool \<Rightarrow> ScanEnv \<Rightarrow> key_error + OpenDisc" where
  "scan_image_halted halted env =
     (if halted \<and> sc_before env then Inl KeyHalted
      else case sc_result env of
             Inl e \<Rightarrow> Inl (if halted \<and> sc_failing env then KeyHalted else e)
           | Inr d \<Rightarrow> (if halted \<and> sc_after env then Inl KeyHalted else Inr d))"

record 'k OpenOptions =
  oo_keys :: "'k KeyInput"
  oo_disc :: "OpenDisc option"
  oo_scope :: "KeyScope option"
  oo_vid :: "nat list option"
  oo_halt :: bool

record OpenEnv =
  oe_stopped :: bool
  oe_sidecar :: "io_error + Mapfile"
  oe_reader :: "key_error + unit"
  oe_read :: ReadEnv
  oe_scan :: ScanEnv

record 'k Probed =
  pb_source :: ImageSource
  pb_sidecar :: "Mapfile option"
  pb_disc :: OpenDisc
  pb_prescanned :: bool
  pb_keys :: "'k KeyInput"
  pb_scope :: "KeyScope option"
  pb_vid_in_hand :: "nat list option"

definition disc_identity :: "'k RingLib \<Rightarrow> OpenDisc \<Rightarrow> 'k option \<Rightarrow> DiscIdentity" where
  "disc_identity K d keys =
     identity_of (hex_bytes K) (sha K) (od_intrinsic d) (od_volume d)
       (map_option (ring_vidfp K) keys) (map_option (proven_fingerprints K) keys)"

definition probed_disc ::
  "'k RingLib \<Rightarrow> ImageSource \<Rightarrow> 'k OpenOptions \<Rightarrow> OpenEnv \<Rightarrow> Mapfile option \<Rightarrow> key_error + OpenDisc" where
  "probed_disc K src opts env sidecar =
     (case oo_disc opts of
        Some d \<Rightarrow>
          (case src of
             Dir _ \<Rightarrow> Inl DecryptFailed
           | Iso _ \<Rightarrow>
               bind_res (oe_reader env) (\<lambda>_.
               bind_res
                 (check_prescanned K d (oe_read env) sidecar
                    (in_hand_vid_fingerprint K d (oo_vid opts) (held_set (oo_keys opts)))
                    (case held_set (oo_keys opts) of None \<Rightarrow> [] | Some k \<Rightarrow> proven_fingerprints K k))
                 (\<lambda>_. Inr d)))
      | None \<Rightarrow> scan_image_halted (oo_halt opts) (oe_scan env))"

definition probe :: "'k RingLib \<Rightarrow> ImageSource \<Rightarrow> 'k OpenOptions \<Rightarrow> OpenEnv \<Rightarrow> key_error + 'k Probed" where
  "probe K src opts env =
     (if oo_halt opts \<and> oe_stopped env then Inl KeyHalted
      else
        bind_res (load_sidecar (oe_sidecar env)) (\<lambda>sidecar.
        bind_res (probed_disc K src opts env sidecar) (\<lambda>d.
          (let vid_in_hand = in_hand_vid_fingerprint K d (oo_vid opts) (held_set (oo_keys opts))
           in bind_res
                (case sidecar of
                   None \<Rightarrow> Inr ()
                 | Some m \<Rightarrow> identity_ok m ((disc_identity K d None)\<lparr>d_vidfp := vid_in_hand, proven := []\<rparr>))
                (\<lambda>_. Inr \<lparr>pb_source = src, pb_sidecar = sidecar, pb_disc = d, pb_prescanned = (oo_disc opts \<noteq> None),
                          pb_keys = oo_keys opts, pb_scope = oo_scope opts, pb_vid_in_hand = vid_in_hand\<rparr>)))))"
subsection \<open>The keys of an opened image\<close>

text \<open>What the resolver of the library gives for a scope and a seed: a set, or an error and whether a Volume ID would help.\<close>

type_synonym 'k resolver = "KeyScope \<Rightarrow> 'k option \<Rightarrow> (key_error \<times> bool) + 'k"

text \<open>The refusal of a top-up that made a request: its code, its data, and what an I/O error came from.\<close>

record Remembered =
  rm_code :: nat
  rm_data :: string
  rm_io :: "io_source option"

record 'k TopUp =
  tu_keys :: 'k
  tu_titles :: "nat list"
  tu_asked :: bool
  tu_failure :: "Remembered option"

definition new_top_up :: "'k \<Rightarrow> KeyScope \<Rightarrow> 'k TopUp" where
  "new_top_up k s =
     \<lparr>tu_keys = k, tu_titles = (case s of ScopeTitles ts \<Rightarrow> ts | _ \<Rightarrow> []), tu_asked = False, tu_failure = None\<rparr>"

record 'k OpenedImage =
  oi_source :: ImageSource
  oi_disc :: OpenDisc
  oi_keys :: 'k
  oi_sources :: bool
  oi_prescanned :: bool
  oi_top_up :: "'k TopUp"

definition resolved :: "'k resolver \<Rightarrow> KeyScope \<Rightarrow> 'k option \<Rightarrow> 'k Probed \<Rightarrow> key_error + 'k" where
  "resolved rs s seed p =
     (case rs s seed of Inl e \<Rightarrow> Inl (vid_needs_disc e (pb_vid_in_hand p) (pb_sidecar p)) | Inr k \<Rightarrow> Inr k)"

definition key_set :: "'k RingLib \<Rightarrow> 'k resolver \<Rightarrow> 'k Probed \<Rightarrow> KeyScope \<Rightarrow> key_error + ('k \<times> bool)" where
  "key_set K rs p s =
     (case pb_keys p of
        Known k \<Rightarrow> bind_res (known K (pb_disc p) k s) (\<lambda>k. Inr (k, False))
      | Seeded k \<Rightarrow>
          (if covers_scope K (pb_disc p) k s \<and> \<not> forensic_pending K k then Inr (k, True)
           else bind_res (resolved rs s (Some k) p) (\<lambda>k. Inr (k, True)))
      | Resolve \<Rightarrow> bind_res (resolved rs s None p) (\<lambda>k. Inr (k, True)))"

definition key :: "'k RingLib \<Rightarrow> 'k resolver \<Rightarrow> 'k Probed \<Rightarrow> key_error + 'k OpenedImage" where
  "key K rs p =
     (let s = (case pb_scope p of Some s \<Rightarrow> s | None \<Rightarrow> ScopeTitles (main_scope (pb_disc p)))
      in bind_res (key_set K rs p s) (\<lambda>(k, sources).
           bind_res
             (case pb_sidecar p of
                None \<Rightarrow> Inr ()
              | Some m \<Rightarrow>
                  (let i = disc_identity K (pb_disc p) (Some k)
                   in identity_ok m (i\<lparr>d_vidfp := or_else (d_vidfp i) (pb_vid_in_hand p)\<rparr>)))
             (\<lambda>_. Inr \<lparr>oi_source = pb_source p, oi_disc = pb_disc p, oi_keys = k, oi_sources = sources,
                        oi_prescanned = pb_prescanned p, oi_top_up = new_top_up k s\<rparr>)))"

definition open_image_with ::
  "'k RingLib \<Rightarrow> 'k resolver \<Rightarrow> ImageSource \<Rightarrow> 'k OpenOptions \<Rightarrow> OpenEnv \<Rightarrow> key_error + 'k OpenedImage" where
  "open_image_with K rs src opts env = bind_res (probe K src opts env) (key K rs)"

definition key_traced :: "'k RingLib \<Rightarrow> 'k resolver \<Rightarrow> KeyScope \<Rightarrow> 'k Probed \<Rightarrow> key_error + 'k OpenedImage" where
  "key_traced K rs s p = key K rs (p\<lparr>pb_scope := Some s\<rparr>)"

subsection \<open>The top-up\<close>

text \<open>The codes and the display form of the library's errors, the parser of an HTTP status, and the kind of a number.\<close>

record ErrorLib =
  err_code :: "key_error \<Rightarrow> nat"
  err_text :: "key_error \<Rightarrow> string"
  parse_status :: "string \<Rightarrow> nat option"

definition remembered :: "ErrorLib \<Rightarrow> key_error \<Rightarrow> Remembered option" where
  "remembered E e =
     (if is_missing e \<or> e = KeyHalted then None
      else Some \<lparr>rm_code = err_code E e,
                 rm_data = (case parse_error_code (err_text E e) of None \<Rightarrow> [] | Some (_, d) \<Rightarrow> d),
                 rm_io = (case e of KeyIo s \<Rightarrow> Some s | _ \<Rightarrow> None)\<rparr>)"

text \<open>The constants of the library are the codes of its errors; the data of an error does not change its code.\<close>

definition rebuild :: "ErrorLib \<Rightarrow> Remembered \<Rightarrow> key_error" where
  "rebuild E r =
     (case rm_io r of
        Some (RawOs n) \<Rightarrow> KeyIo (RawOs n)
      | Some (OfKind k _) \<Rightarrow> KeyIo (OfKind k [])
      | None \<Rightarrow>
          (let d = rm_data r; is_code = (\<lambda>e. rm_code r = err_code E e)
           in if is_code KeyServiceUnavailable then KeyServiceUnavailable
              else if is_code KeyServiceUnauthorized then KeyServiceUnauthorized
              else if is_code KeyServiceRateLimited then KeyServiceRateLimited
              else if is_code AacsVidNeedsDisc then AacsVidNeedsDisc
              else if is_code FmtsKeyMissing then FmtsKeyMissing
              else if is_code DecryptFailed then DecryptFailed
              else if is_code (KeydbConnect []) then KeydbConnect d
              else if is_code (KeydbHttp 0) then KeydbHttp (case parse_status E d of Some n \<Rightarrow> n | None \<Rightarrow> 0)
              else if is_code KeydbInvalid then KeydbInvalid
              else if is_code (KeydbWrite []) then KeydbWrite d
              else if is_code KeydbParse then KeydbParse
              else if is_code (KeydbLoad []) then KeydbLoad d
              else if is_code (KeydbUnsupportedScheme []) then KeydbUnsupportedScheme d
              else if is_code KeydbTooManyRedirects then KeydbTooManyRedirects
              else KeyIo (OfKind 0 (''E'' @ decimal (rm_code r) @ '': '' @ d))))"

text \<open>
  One call: whether the image can be read again, what the resolver gives with the sources (\<open>True\<close>) or with none,
  whether its walk has a step, and the sidecar as a refusal reads it. The last component tells a request.
\<close>

record 'k KeysEnv =
  ke_reader :: "key_error + unit"
  ke_resolve :: "bool \<Rightarrow> 'k resolver"
  ke_walked :: bool
  ke_sidecar :: "io_error + Mapfile"

definition union_titles :: "nat list \<Rightarrow> nat list \<Rightarrow> nat list" where
  "union_titles xs ys = remdups (sort (xs @ ys))"

definition keys_for ::
  "'k RingLib \<Rightarrow> ErrorLib \<Rightarrow> OpenDisc \<Rightarrow> bool \<Rightarrow> 'k KeysEnv \<Rightarrow> nat list \<Rightarrow> 'k TopUp \<Rightarrow> (key_error + 'k) \<times> 'k TopUp \<times> bool" where
  "keys_for K E d sources env titles st =
     (if scope_keyed K d (tu_keys st) (ScopeTitles titles) then (Inr (tu_keys st), st, False)
      else if \<not> sources then (known K d (tu_keys st) (ScopeTitles titles), st, False)
      else
        (let union = union_titles (tu_titles st) titles; ask = \<not> tu_asked st
         in case ke_reader env of
              Inl e \<Rightarrow> (Inl e, st, False)
            | Inr _ \<Rightarrow>
                (let vid_in_hand = in_hand_vid_fingerprint K d None (Some (tu_keys st));
                     made = (ask \<and> ke_walked env);
                     st1 = st\<lparr>tu_asked := tu_asked st \<or> made\<rparr>
                 in case ke_resolve env ask (ScopeTitles union) (Some (tu_keys st)) of
                      Inr k \<Rightarrow> (Inr k, st1\<lparr>tu_keys := k, tu_titles := union\<rparr>, made)
                    | Inl (e, help) \<Rightarrow>
                        (if \<not> ask \<and> is_missing e \<and> tu_failure st1 \<noteq> None
                         then (Inl (rebuild E (the (tu_failure st1))), st1, made)
                         else
                           (let sidecar = (case load_sidecar (ke_sidecar env) of Inr m \<Rightarrow> m | Inl _ \<Rightarrow> None);
                                e1 = (if is_missing e then vid_needs_disc (e, help) vid_in_hand sidecar else e)
                            in (Inl e1, (if made then st1\<lparr>tu_failure := remembered E e1\<rparr> else st1), made))))))"

text \<open>The calls of a rip, each under its own circumstances.\<close>

fun key_calls ::
  "'k RingLib \<Rightarrow> ErrorLib \<Rightarrow> OpenDisc \<Rightarrow> bool \<Rightarrow> ('k KeysEnv \<times> nat list) list \<Rightarrow> 'k TopUp \<Rightarrow> ((key_error + 'k) \<times> bool) list" where
  "key_calls K E d sources [] st = []"
| "key_calls K E d sources ((env, titles) # cs) st =
     (case keys_for K E d sources env titles st of
        (r, st', made) \<Rightarrow> (r, made) # key_calls K E d sources cs st')"

end
