(* ===== verification/RunPlan.thy ===== *)
theory RunPlan
  imports Multipass Names ImageOpen
begin

text \<open>
  The run of a plan (\<open>src/src/plan.rs\<close>): which chain the destination picks, the one title a title run reads, whose
  keys it reads with, and what a whole-image run does around its passes: the lock, the keys, the rename. The URL
  parser, the drive session, the mux and the keys of a drive are the library's; what they give is an observation.
  Reports to the sink are left out.
\<close>

subsection \<open>Plans\<close>

text \<open>What the library's parser makes of a URL.\<close>

datatype StreamUrl = UDisc "string option" | UIso string | UDir string | UM2ts string | UNull | UOther

record RipPlan =
  rp_source :: StreamUrl
  rp_dest :: StreamUrl
  rp_titles :: Selection
  rp_streams :: StreamChoice
  rp_raw :: bool
  rp_multipass :: bool

datatype Output = Image string bool | Tree string | TitlesOut

definition whole_disc_source :: "RipPlan \<Rightarrow> bool" where
  "whole_disc_source p = (case rp_source p of UDisc _ \<Rightarrow> True | _ \<Rightarrow> False)"

definition run_output :: "string \<Rightarrow> RipPlan \<Rightarrow> Output" where
  "run_output null_device p =
     (case rp_dest p of
        UIso file \<Rightarrow> Image file False
      | UNull \<Rightarrow> (if whole_disc_source p then Image null_device True else TitlesOut)
      | UDir file \<Rightarrow> Tree file
      | _ \<Rightarrow> TitlesOut)"

datatype plan_error =
  SourceInvalid | DestInvalid | NoTitles | DirRawRejected | DeviceNotReady
| PlanKey key_error | PlanReview SelectionReview | PlanStreams StreamSelError

definition plan_key :: "key_error + 'a \<Rightarrow> plan_error + 'a" where
  "plan_key r = (case r of Inl e \<Rightarrow> Inl (PlanKey e) | Inr x \<Rightarrow> Inr x)"

subsection \<open>The title of a title run\<close>

definition names_titles :: "Selection \<Rightarrow> bool" where
  "names_titles s = (case s of Titles _ \<Rightarrow> True | _ \<Rightarrow> False)"

definition title_index_of :: "'l Isolang \<Rightarrow> RipPlan \<Rightarrow> 'c DiscTitle list option \<Rightarrow> plan_error + nat" where
  "title_index_of L p disc =
     (case (rp_titles p, disc) of
        (Titles [i], _) \<Rightarrow> Inr i
      | (MainMovie, None) \<Rightarrow> Inr 0
      | (sel, Some titles) \<Rightarrow>
          (if names_titles sel then Inl DestInvalid
           else if titles = [] then Inl NoTitles
           else case resolve_selection L titles sel (audio (rp_streams p)) None of
                  Inl review \<Rightarrow> Inl (PlanReview review)
                | Inr [one] \<Rightarrow> Inr one
                | Inr _ \<Rightarrow> Inl DestInvalid)
      | _ \<Rightarrow> Inl DestInvalid)"

record TitleOptions =
  to_selection :: "StreamSelection option"
  to_batch :: nat

definition keep_all :: StreamSelection where
  "keep_all = \<lparr>sel_audio = AllPids, sel_subtitle = AllPids\<rparr>"

definition plan_selection ::
  "'l Isolang \<Rightarrow> RipPlan \<Rightarrow> TitleOptions \<Rightarrow> 'c DiscTitle option \<Rightarrow> plan_error + StreamSelection" where
  "plan_selection L p t title =
     (case to_selection t of
        Some s \<Rightarrow> Inr s
      | None \<Rightarrow>
          (if is_all (rp_streams p) then Inr keep_all
           else case title of
                  None \<Rightarrow> Inl SourceInvalid
                | Some tt \<Rightarrow>
                    (case choice_resolve L (rp_streams p) (TitleTracks.truncate tt) of
                       Inl e \<Rightarrow> Inl (PlanStreams e) | Inr s \<Rightarrow> Inr s)))"

definition get :: "'a list \<Rightarrow> nat \<Rightarrow> 'a option" where
  "get xs i = (if i < length xs then Some (xs ! i) else None)"

subsection \<open>A title of a URL\<close>

text \<open>
  What the run observes of its source: the open of an image up to its keys and its resolver, a scan of its own,
  the keys of a loose clip, and the titles of a disc.
\<close>

record ('k, 'c) UrlEnv =
  ue_titles :: "OpenDisc \<Rightarrow> 'c DiscTitle list"
  ue_open :: OpenEnv
  ue_scan :: ScanEnv
  ue_resolver :: "'k resolver"
  ue_clip :: "key_error + 'k option"

definition image_of :: "StreamUrl \<Rightarrow> ImageSource option" where
  "image_of u = (case u of UIso file \<Rightarrow> Some (Iso file) | UDir file \<Rightarrow> Some (Dir file) | _ \<Rightarrow> None)"

definition url_options :: "'k OpenOptions" where
  "url_options = \<lparr>oo_keys = Resolve, oo_disc = None, oo_scope = None, oo_vid = None, oo_halt = True\<rparr>"

definition url_image ::
  "'l Isolang \<Rightarrow> 'k RingLib \<Rightarrow> RipPlan \<Rightarrow> bool \<Rightarrow> bool \<Rightarrow> ImageSource \<Rightarrow> ('k, 'c) UrlEnv \<Rightarrow>
   plan_error + nat \<times> 'k option \<times> 'c DiscTitle option" where
  "url_image L K p need_keys need_title src env =
     (let explicit = (if names_titles (rp_titles p) then map_sum id Some (title_index_of L p (None :: 'c DiscTitle list option)) else Inr None)
      in bind_res explicit (\<lambda>explicit.
           if \<not> need_keys \<and> \<not> need_title
           then bind_res
                  (case explicit of
                     Some i \<Rightarrow> Inr i
                   | None \<Rightarrow>
                       (if rp_titles p = MainMovie \<and> audio (rp_streams p) = All
                        then title_index_of L p (None :: 'c DiscTitle list option)
                        else bind_res (plan_key (scan_image_halted True (ue_scan env)))
                               (\<lambda>d. title_index_of L p (Some (ue_titles env d)))))
                  (\<lambda>i. Inr (i, None, None))
           else
             bind_res (plan_key (probe K src url_options (ue_open env))) (\<lambda>probed.
             bind_res
               (case explicit of
                  Some i \<Rightarrow> Inr i | None \<Rightarrow> title_index_of L p (Some (ue_titles env (pb_disc probed))))
               (\<lambda>i. bind_res
                  (plan_key (key_traced K (ue_resolver env) (if need_keys then ScopeTitles [i] else ScopeNone) probed))
                  (\<lambda>im. Inr (i, if need_keys then Some (oi_keys im) else None, get (ue_titles env (oi_disc im)) i))))))"

definition url_source ::
  "'l Isolang \<Rightarrow> 'k RingLib \<Rightarrow> RipPlan \<Rightarrow> bool \<Rightarrow> bool \<Rightarrow> ('k, 'c) UrlEnv \<Rightarrow>
   plan_error + nat \<times> 'k option \<times> 'c DiscTitle option" where
  "url_source L K p need_keys need_title env =
     (case image_of (rp_source p) of
        Some src \<Rightarrow> url_image L K p need_keys need_title src env
      | None \<Rightarrow>
          bind_res (title_index_of L p (None :: 'c DiscTitle list option)) (\<lambda>i.
            case rp_source p of
              UM2ts _ \<Rightarrow>
                (if need_keys then bind_res (plan_key (ue_clip env)) (\<lambda>k. Inr (i, k, None)) else Inr (i, None, None))
            | _ \<Rightarrow> Inr (i, None, None)))"
subsection \<open>A title run\<close>

text \<open>A drive session as a title run reads it: its disc, if it was scanned, and the batch the drive takes.\<close>

record 'c Session =
  se_disc :: "'c DiscTitle list option"
  se_batch :: nat

datatype ('c, 'k) Held = HeldSession "'c Session" | HeldDisc | HeldHost | HeldTitle "'c DiscTitle"

record ('k, 'c) TitleEnv =
  te_url :: "('k, 'c) UrlEnv"
  te_drive :: "plan_error + 'c Session"
  te_acquire :: "KeyScope \<Rightarrow> plan_error + 'k"
  te_decryptable :: "'k option \<Rightarrow> KeyScope \<Rightarrow> plan_error + unit"

text \<open>What the mux of the library is handed.\<close>

record 'k TitleMux =
  tm_index :: nat
  tm_keys :: "'k option"
  tm_selection :: StreamSelection
  tm_batch :: nat

definition session_mux ::
  "'l Isolang \<Rightarrow> RipPlan \<Rightarrow> TitleOptions \<Rightarrow> 'k option \<Rightarrow> 'c Session \<Rightarrow> plan_error + 'k TitleMux" where
  "session_mux L p t keys s =
     (case se_disc s of
        None \<Rightarrow> Inl NoTitles
      | Some titles \<Rightarrow>
          bind_res (title_index_of L p (Some titles)) (\<lambda>i.
          bind_res (plan_selection L p t (get titles i)) (\<lambda>sel.
            Inr \<lparr>tm_index = i, tm_keys = keys, tm_selection = sel, tm_batch = (if to_batch t = 0 then se_batch s else to_batch t)\<rparr>)))"

definition title_off_drive ::
  "'l Isolang \<Rightarrow> RipPlan \<Rightarrow> TitleOptions \<Rightarrow> 'k option \<Rightarrow> ('k, 'c) TitleEnv \<Rightarrow> plan_error + 'k TitleMux" where
  "title_off_drive L p t keys env =
     bind_res (te_drive env) (\<lambda>s.
     bind_res (title_index_of L p (se_disc s)) (\<lambda>i.
     bind_res
       (case keys of
          Some k \<Rightarrow> Inr (Some k)
        | None \<Rightarrow> (if rp_raw p then Inr None else bind_res (te_acquire env (ScopeTitles [i])) (\<lambda>k. Inr (Some k))))
       (\<lambda>keys.
          if se_disc s = None then Inl NoTitles
          else bind_res (te_decryptable env keys (ScopeTitles [i])) (\<lambda>_. session_mux L p t keys s))))"

definition title_run ::
  "'l Isolang \<Rightarrow> 'k RingLib \<Rightarrow> RipPlan \<Rightarrow> TitleOptions \<Rightarrow> 'k option \<Rightarrow> ('c, 'k) Held option \<Rightarrow> ('k, 'c) TitleEnv \<Rightarrow>
   plan_error + 'k TitleMux" where
  "title_run L K p t keys held env =
     (case held of
        Some (HeldSession s) \<Rightarrow> session_mux L p t keys s
      | Some (HeldTitle title) \<Rightarrow>
          bind_res (plan_selection L p t (Some title)) (\<lambda>sel.
            Inr \<lparr>tm_index = 0, tm_keys = keys, tm_selection = sel, tm_batch = to_batch t\<rparr>)
      | Some HeldDisc \<Rightarrow> Inl SourceInvalid
      | Some HeldHost \<Rightarrow> Inl SourceInvalid
      | None \<Rightarrow>
          (if whole_disc_source p then title_off_drive L p t keys env
           else
             bind_res
               (url_source L K p (keys = None \<and> \<not> rp_raw p) (to_selection t = None \<and> \<not> is_all (rp_streams p)) (te_url env))
               (\<lambda>(i, found, title).
                  bind_res (plan_selection L p t title) (\<lambda>sel.
                    Inr \<lparr>tm_index = i, tm_keys = or_else keys found, tm_selection = sel, tm_batch = to_batch t\<rparr>))))"

subsection \<open>A whole-image run\<close>

record 'k ImageEnv =
  ie_drive :: "plan_error + 'k"
  ie_whole :: "key_error + unit"
  ie_open :: OpenEnv
  ie_resolver :: "'k resolver"
  ie_decryptable :: "'k option \<Rightarrow> KeyScope \<Rightarrow> key_error + unit"
  ie_lock :: "key_error + unit"
  ie_capacity :: nat
  ie_passes :: "('k option \<Rightarrow> plan_error + MultipassResult) option"
  ie_one_pass :: "'k option \<Rightarrow> plan_error + CopyResult"
  ie_wedged :: bool
  ie_abandoned :: bool
  ie_aacs :: bool
  ie_finish :: "DecryptedNames option"
  ie_delete_fails :: bool

definition open_source :: "'k RingLib \<Rightarrow> RipPlan \<Rightarrow> KeyScope \<Rightarrow> 'k ImageEnv \<Rightarrow> plan_error + 'k" where
  "open_source K p s env =
     (let decryptable = (\<lambda>k. bind_res (plan_key (ie_decryptable env (Some k) s)) (\<lambda>_. Inr k))
      in case rp_source p of
           UDisc _ \<Rightarrow> bind_res (ie_drive env) decryptable
         | _ \<Rightarrow>
             (case image_of (rp_source p) of
                None \<Rightarrow> Inl SourceInvalid
              | Some src \<Rightarrow>
                  bind_res (case src of Iso _ \<Rightarrow> plan_key (ie_whole env) | Dir _ \<Rightarrow> Inr ()) (\<lambda>_.
                  bind_res (plan_key (open_image_with K (ie_resolver env) src (url_options\<lparr>oo_scope := Some s\<rparr>) (ie_open env)))
                    (\<lambda>im. decryptable (oi_keys im)))))"

text \<open>The keys of a source the run opened itself; none for one it was handed.\<close>

definition whole_source ::
  "'k RingLib \<Rightarrow> RipPlan \<Rightarrow> ('c, 'k) Held option \<Rightarrow> KeyScope \<Rightarrow> 'k ImageEnv \<Rightarrow> plan_error + 'k option" where
  "whole_source K p held s env =
     (case held of
        Some HeldDisc \<Rightarrow> Inr None
      | Some HeldHost \<Rightarrow> Inr None
      | Some _ \<Rightarrow> Inl DestInvalid
      | None \<Rightarrow> bind_res (open_source K p s env) (\<lambda>k. Inr (Some k)))"

datatype LockEnd = NoLock | LockLeft | LockDeleted

record ImageReport =
  ir_copy :: CopyResult
  ir_recovery :: "MultipassResult option"
  ir_names :: "DecryptedNames option"

text \<open>The names of a copy, and whether the rename of the finished image was run.\<close>

definition image_names :: "CopyResult \<Rightarrow> MultipassResult option \<Rightarrow> 'k ImageEnv \<Rightarrow> DecryptedNames option \<times> bool" where
  "image_names copy rec env =
     (let stuck = (case rec of None \<Rightarrow> ie_wedged env | Some r \<Rightarrow> wedged r)
      in if cr_halted copy \<or> (case rec of None \<Rightarrow> False | Some r \<Rightarrow> mr_halted r) \<or> stuck then (None, False)
         else if ie_abandoned env then (if ie_aacs env then Some (Kept Unexpected) else None, False)
         else (ie_finish env, True))"

definition copied_by :: "'k ImageEnv \<Rightarrow> 'k option \<Rightarrow> plan_error + CopyResult \<times> MultipassResult option" where
  "copied_by env keys =
     (case ie_passes env of
        Some rip \<Rightarrow>
          bind_res (rip keys) (\<lambda>r.
            Inr (copy_result (ie_capacity env) (mr_good r) (mr_unreadable r) (mr_pending r) 0 (mr_halted r), Some r))
      | None \<Rightarrow> bind_res (ie_one_pass env keys) (\<lambda>c. Inr (c, None)))"

text \<open>The report, what became of the lock, and whether the rename was run.\<close>

definition image_run ::
  "'k RingLib \<Rightarrow> RipPlan \<Rightarrow> bool \<Rightarrow> 'k option \<Rightarrow> ('c, 'k) Held option \<Rightarrow> bool \<Rightarrow> 'k ImageEnv \<Rightarrow>
   (plan_error + ImageReport) \<times> LockEnd \<times> bool" where
  "image_run K p null keys held locked env =
     (let s = (if rp_raw p then ScopeNone else WholeDisc)
      in case whole_source K p held s env of
           Inl e \<Rightarrow> (Inl e, NoLock, False)
         | Inr opened \<Rightarrow>
             (case if null \<or> locked then Inr False else map_sum PlanKey (\<lambda>_. True) (ie_lock env) of
                Inl e \<Rightarrow> (Inl e, NoLock, False)
              | Inr took \<Rightarrow>
                  (let ring = (case opened of
                                 None \<Rightarrow> keys
                               | Some k \<Rightarrow> or_else keys (if rp_raw p then None else Some k))
                   in case copied_by env ring of
                        Inl e \<Rightarrow> (Inl e, if took then LockLeft else NoLock, False)
                      | Inr (c, rec) \<Rightarrow>
                          (let (names, did) = (if rp_raw p \<or> null then (None, False) else image_names c rec env);
                               finished = (cr_good c > 0 \<and> \<not> cr_halted c)
                           in (Inr \<lparr>ir_copy = c, ir_recovery = rec, ir_names = names\<rparr>,
                               if \<not> took then NoLock else if finished \<and> \<not> ie_delete_fails env then LockDeleted else LockLeft,
                               did)))))"
subsection \<open>A tree run\<close>

text \<open>The ring the files of a tree are read with; ciphertext is refused.\<close>

definition tree_run ::
  "'k RingLib \<Rightarrow> RipPlan \<Rightarrow> 'k option \<Rightarrow> ('c, 'k) Held option \<Rightarrow> 'k ImageEnv \<Rightarrow> plan_error + 'k option" where
  "tree_run K p keys held env =
     (if rp_raw p then Inl DirRawRejected
      else bind_res (whole_source K p held WholeDisc env) (\<lambda>opened.
             Inr (case opened of None \<Rightarrow> keys | Some k \<Rightarrow> Some (case keys of Some ring \<Rightarrow> ring | None \<Rightarrow> k))))"

end
