(* ===== verification/ImageOpenProps.thy ===== *)
theory ImageOpenProps
  imports ImageOpen
begin

text \<open>
  What the open of an image promises: an opened image is the disc its sidecar and its caller name, its keys are
  asked for once, and a refusal that cost a request is told again as it was.
\<close>

subsection \<open>The top-up\<close>

lemma keys_for_asks:
  "keys_for K E d sources env titles st = (r, st', made) \<Longrightarrow>
     (made \<longrightarrow> sources \<and> \<not> tu_asked st) \<and> tu_asked st' = (tu_asked st \<or> made)"
  by (auto simp: keys_for_def Let_def split: if_splits sum.splits prod.splits)

lemma asked_never_again: "tu_asked st \<Longrightarrow> filter snd (key_calls K E d sources cs st) = []"
proof (induction cs arbitrary: st)
  case (Cons c cs)
  obtain env titles where c: "c = (env, titles)" by force
  obtain r st' made where r: "keys_for K E d sources env titles st = (r, st', made)" by (cases "keys_for K E d sources env titles st") auto
  show ?case using Cons keys_for_asks [OF r] by (simp add: c r)
qed simp

lemma asks_at_most_once: "length (filter snd (key_calls K E d sources cs st)) \<le> (if sources then 1 else 0)"
proof (induction cs arbitrary: st)
  case (Cons c cs)
  obtain env titles where c: "c = (env, titles)" by force
  obtain r st' made where r: "keys_for K E d sources env titles st = (r, st', made)" by (cases "keys_for K E d sources env titles st") auto
  show ?case
  proof (cases made)
    case True
    then have "tu_asked st'" "sources" using keys_for_asks [OF r] by simp_all
    then show ?thesis using asked_never_again [of st' K E d sources cs] True r by (simp add: c)
  next
    case False
    then show ?thesis using Cons [of st'] by (simp add: c r)
  qed
qed simp

text \<open>The same circumstances with sources that have nothing more to give.\<close>

definition offline :: "'k KeysEnv \<times> nat list \<Rightarrow> 'k KeysEnv \<times> nat list" where
  "offline c = ((fst c)\<lparr>ke_resolve := (\<lambda>_. ke_resolve (fst c) False)\<rparr>, snd c)"

lemma asked_is_offline:
  "tu_asked st \<Longrightarrow> key_calls K E d sources (map offline cs) st = key_calls K E d sources cs st"
proof (induction cs arbitrary: st)
  case (Cons c cs)
  obtain env titles where c: "c = (env, titles)" by force
  have same: "keys_for K E d sources (fst (offline c)) titles st = keys_for K E d sources env titles st"
  proof -
    have "(\<not> tu_asked st) = False" using Cons.prems by simp
    then show ?thesis by (auto simp: keys_for_def Let_def offline_def c split: sum.splits)
  qed
  obtain r st' made where r: "keys_for K E d sources env titles st = (r, st', made)" by (cases "keys_for K E d sources env titles st") auto
  have "tu_asked st'" using keys_for_asks [OF r] Cons.prems by simp
  then show ?case using Cons.IH [of st'] same by (simp add: c r) (simp add: offline_def r)
qed simp

lemma offline_after_request:
  "list_ex snd (key_calls K E d sources cs st) \<Longrightarrow>
     key_calls K E d sources (cs @ map offline ds) st = key_calls K E d sources (cs @ ds) st"
proof (induction cs arbitrary: st)
  case (Cons c cs)
  obtain env titles where c: "c = (env, titles)" by force
  obtain r st' made where r: "keys_for K E d sources env titles st = (r, st', made)" by (cases "keys_for K E d sources env titles st") auto
  show ?case
  proof (cases made)
    case True
    have twice: "offline (offline x) = offline x" for x :: "'a KeysEnv \<times> nat list" by (simp add: offline_def)
    have "key_calls K E d sources (map offline (cs @ ds)) st' = key_calls K E d sources (cs @ ds) st'"
      "key_calls K E d sources (map offline cs @ map offline ds) st' = key_calls K E d sources (cs @ map offline ds) st'"
      using asked_is_offline [of st' K E d sources "cs @ ds"] asked_is_offline [of st' K E d sources "cs @ map offline ds"]
        keys_for_asks [OF r] True by (auto simp: twice comp_def)
    then show ?thesis by (simp add: c r)
  next
    case False
    then show ?thesis using Cons by (simp add: c r)
  qed
qed simp
text \<open>
  What the engine relies on of the library: a set the resolver answers with keys the scope it was asked for, and
  a set that covers titles covers fewer of them.
\<close>

definition answers_scope :: "'k RingLib \<Rightarrow> OpenDisc \<Rightarrow> 'k KeysEnv \<Rightarrow> bool" where
  "answers_scope K d env \<longleftrightarrow> (\<forall>a s seed k. ke_resolve env a s seed = Inr k \<longrightarrow> scope_keyed K d k s)"

definition covers_fewer :: "'k RingLib \<Rightarrow> bool" where
  "covers_fewer K \<longleftrightarrow>
     (\<forall>k xs ys. set xs \<subseteq> set ys \<longrightarrow> ring_covers K k (ScopeTitles ys) \<longrightarrow> ring_covers K k (ScopeTitles xs))"

lemma scope_keyed_fewer:
  "covers_fewer K \<Longrightarrow> set xs \<subseteq> set ys \<Longrightarrow> scope_keyed K d k (ScopeTitles ys) \<Longrightarrow> scope_keyed K d k (ScopeTitles xs)"
  by (auto simp: scope_keyed_def covers_fewer_def Let_def)

lemma known_keyed: "known K d k s = Inr k' \<Longrightarrow> k' = k \<and> is_for K k \<and> \<not> forensic_pending K k \<and> scope_keyed K d k s"
  by (auto simp: known_def split: if_splits)

lemma keys_for_keyed:
  assumes "keys_for K E d sources env titles st = (Inr k, st', made)" and "answers_scope K d env" and "covers_fewer K"
  shows "scope_keyed K d k (ScopeTitles titles)"
proof -
  have "scope_keyed K d k (ScopeTitles titles) \<or>
      (\<exists>a. ke_resolve env a (ScopeTitles (union_titles (tu_titles st) titles)) (Some (tu_keys st)) = Inr k)"
    using assms(1) by (auto simp: keys_for_def Let_def dest: known_keyed split: if_splits sum.splits prod.splits)
  moreover have "set titles \<subseteq> set (union_titles (tu_titles st) titles)" by (simp add: union_titles_def)
  ultimately show ?thesis using assms(2,3) scope_keyed_fewer unfolding answers_scope_def by metis
qed

text \<open>A refusal keeps the set in hand.\<close>

lemma refused_keeps: "keys_for K E d sources env titles st = (Inl e, st', made) \<Longrightarrow> tu_keys st' = tu_keys st \<and> tu_titles st' = tu_titles st"
  by (auto simp: keys_for_def Let_def split: if_splits sum.splits prod.splits)

lemma key_calls_keyed:
  assumes "\<forall>c \<in> set cs. answers_scope K d (fst c)" and "covers_fewer K"
  shows "list_all2 (\<lambda>c r. \<forall>k. fst r = Inr k \<longrightarrow> scope_keyed K d k (ScopeTitles (snd c))) cs (key_calls K E d sources cs st)"
  using assms(1)
proof (induction cs arbitrary: st)
  case (Cons c cs)
  obtain env titles where c: "c = (env, titles)" by force
  obtain r st' made where r: "keys_for K E d sources env titles st = (r, st', made)" by (cases "keys_for K E d sources env titles st") auto
  then show ?case using Cons keys_for_keyed [OF _ _ assms(2)] by (auto simp: c)
qed simp

text \<open>
C10: An opened image asks the key sources at most once. Over any run of calls for the keys of titles, whatever
each of them meets, at most one makes a request, and none does when the open was given a set and no sources.
After the one that did, every later call answers what it would answer with sources that have nothing to give.
A set that is given out keys the titles it was asked for, when the resolver's answers key the scope they were
asked for and a set that covers titles covers fewer of them.
\<close>
theorem keys_asked_once:
  "length (filter snd (key_calls K E d sources cs (new_top_up k s))) \<le> (if sources then 1 else 0) \<and>
   (list_ex snd (key_calls K E d sources cs (new_top_up k s)) \<longrightarrow>
      key_calls K E d sources (cs @ map offline ds) (new_top_up k s) = key_calls K E d sources (cs @ ds) (new_top_up k s)) \<and>
   ((\<forall>c \<in> set cs. answers_scope K d (fst c)) \<and> covers_fewer K \<longrightarrow>
      list_all2 (\<lambda>c r. \<forall>k. fst r = Inr k \<longrightarrow> scope_keyed K d k (ScopeTitles (snd c)))
        cs (key_calls K E d sources cs (new_top_up k s)))"
  using asks_at_most_once offline_after_request key_calls_keyed by blast

text \<open>A library of key sets: the titles a set keys. The sources key title 1, the second call asks for title 2.\<close>

definition sample_rings :: "nat list RingLib" where
  "sample_rings = \<lparr>is_for = (\<lambda>_. True), is_aacs = (\<lambda>_. True), ring_covers = (\<lambda>k s. case s of ScopeTitles ts \<Rightarrow> set ts \<subseteq> set k | _ \<Rightarrow> False),
     forensic_pending = (\<lambda>_. False), ring_vidfp = (\<lambda>_. None), proven_fingerprints = (\<lambda>_. []), strip_hex_prefix = id,
     disc_hash_hex = (\<lambda>bs. if bs = [7] then ''aa'' else ''bb''), hex_bytes = (\<lambda>_ _. None), sha = (\<lambda>_ v. v)\<rparr>"

definition sample_disc :: OpenDisc where
  "sample_disc = \<lparr>od_capacity = 4, od_needs_lookup = True, od_intrinsic = Some ''AA'', od_volume = None, od_titles = 3\<rparr>"

definition sample_errors :: ErrorLib where
  "sample_errors = \<lparr>err_code = (\<lambda>e. case e of NoDiscKey _ \<Rightarrow> 7022 | _ \<Rightarrow> 7028), err_text = (\<lambda>_. ''E7028''), parse_status = (\<lambda>_. None)\<rparr>"

definition sample_keys_env :: "nat list KeysEnv" where
  "sample_keys_env = \<lparr>ke_reader = Inr (),
     ke_resolve = (\<lambda>asked s seed. let have_keys = (case seed of Some k \<Rightarrow> k | None \<Rightarrow> []) @ (if asked then [0, 1] else [])
        in case s of ScopeTitles ts \<Rightarrow> (if set ts \<subseteq> set have_keys then Inr have_keys else Inl (NoDiscKey [], False))
           | _ \<Rightarrow> Inl (WholeDiscKeyMissing, False)),
     ke_walked = True, ke_sidecar = Inl NotFound\<rparr>"

lemma keys_asked_once_witness:
  "key_calls sample_rings sample_errors sample_disc True [(sample_keys_env, [1]), (sample_keys_env, [2])] (new_top_up [0] (ScopeTitles [0])) =
     [(Inr [0, 0, 1], True), (Inl (NoDiscKey []), False)] \<and>
   length (filter snd (key_calls sample_rings sample_errors sample_disc True
     [(sample_keys_env, [1]), (sample_keys_env, [2])] (new_top_up [0] (ScopeTitles [0])))) \<le> (if True then 1 else 0) \<and>
   scope_keyed sample_rings sample_disc [0, 0, 1] (ScopeTitles [1])"
  (is "?run = ?rs \<and> ?once \<and> ?all")
proof -
  let ?cs = "[(sample_keys_env, [1]), (sample_keys_env, [2])]"
  have "answers_scope sample_rings sample_disc sample_keys_env"
    by (auto simp: answers_scope_def sample_keys_env_def sample_rings_def scope_keyed_def Let_def split: KeyScope.splits if_splits)
  then have "\<forall>c \<in> set ?cs. answers_scope sample_rings sample_disc (fst c)" by simp
  moreover have "covers_fewer sample_rings" by (auto simp: covers_fewer_def sample_rings_def)
  moreover note keys_asked_once [where cs = ?cs and ds = "[]" and K = sample_rings and d = sample_disc
      and E = sample_errors and sources = True and k = "[0]" and s = "ScopeTitles [0]"]
  ultimately have all: "?once" "list_all2 (\<lambda>c r. \<forall>k. fst r = Inr k \<longrightarrow> scope_keyed sample_rings sample_disc k (ScopeTitles (snd c)))
      ?cs (key_calls sample_rings sample_errors sample_disc True ?cs (new_top_up [0] (ScopeTitles [0])))"
    by blast+
  have run: "?run = ?rs"
    by (simp add: keys_for_def scope_keyed_def new_top_up_def union_titles_def known_def load_sidecar_def vid_needs_disc_def
        in_hand_vid_fingerprint_def is_missing_def remembered_def sample_rings_def sample_disc_def sample_keys_env_def Let_def)
  show ?thesis using all(2) run by (intro conjI run all(1)) simp
qed
subsection \<open>The open\<close>

lemmas open_steps = bind_res_eq_Inr

lemma check_identity_ok_iff:
  "check_identity m i = Inr () \<longleftrightarrow>
     \<not> differ (disc_hash m) (d_disc_hash i) \<and> \<not> differ (vidfp m) (d_vidfp i) \<and>
     (legacy_keyfps m = [] \<or> proven i = [] \<or> (\<exists>f \<in> set (legacy_keyfps m). f \<in> set (proven i)))"
  by (auto simp: check_identity_def list_ex_iff)

lemma identity_ok_iff: "identity_ok m i = Inr () \<longleftrightarrow> check_identity m i = Inr ()"
  by (auto simp: identity_ok_def split: sum.splits)

text \<open>
  The evidence that an image holds a disc that has a hash: its key file has it, or the sidecar says the file was
  not read and identifies the disc itself.
\<close>

definition same_disc :: "'k RingLib \<Rightarrow> OpenDisc \<Rightarrow> ReadEnv \<Rightarrow> Mapfile option \<Rightarrow> nat list option \<Rightarrow> nat list list \<Rightarrow> bool" where
  "same_disc K d env sidecar vid proven_keys \<longleftrightarrow>
     re_capacity env = od_capacity d \<and>
     (case od_intrinsic d of
        None \<Rightarrow> True
      | Some h \<Rightarrow>
          (\<exists>bs. re_file env KEY_FILE = Inr bs \<and> norm_hash K (disc_hash_hex K bs) = norm_hash K h) \<or>
          (\<exists>m fs. sidecar = Some m \<and> key_file_unread sidecar fs env = Inr True \<and> identifies m vid proven_keys))"

lemma not_os_error_Some: "not_os_error r = Inr (Some v) \<Longrightarrow> r = Inr v"
  by (auto simp: not_os_error_def split: sum.splits key_error.splits)

lemma refused_unless: "((if b then Inl e else r) = Inr x) \<longleftrightarrow> (\<not> b \<and> r = Inr x)"
  by simp

lemma check_prescanned_same:
  assumes "check_prescanned K d env sidecar vid ps = Inr ()"
  shows "same_disc K d env sidecar vid ps"
proof -
  let ?want = "map_option (norm_hash K) (od_intrinsic d)"
  obtain fs unread h where f: "key_file_unread sidecar fs env = Inr unread"
    and h: "(if fs \<noteq> None \<and> \<not> unread
              then bind_res (not_os_error (re_file env KEY_FILE)) (\<lambda>inf. Inr (map_option (\<lambda>bs. norm_hash K (disc_hash_hex K bs)) inf))
              else Inr None) = Inr h"
    and end_ok: "\<not> (re_capacity env \<noteq> od_capacity d \<or>
        \<not> (case (h, ?want) of (Some i, Some h) \<Rightarrow> i = h
        | (None, Some _) \<Rightarrow> unread \<and> (case sidecar of None \<Rightarrow> False | Some m \<Rightarrow> identifies m vid ps) | (_, None) \<Rightarrow> True))"
    using assms unfolding check_prescanned_def Let_def refused_unless open_steps by blast
  then have cap: "re_capacity env = od_capacity d"
    and ok: "case (h, ?want) of (Some i, Some h) \<Rightarrow> i = h
        | (None, Some _) \<Rightarrow> unread \<and> (case sidecar of None \<Rightarrow> False | Some m \<Rightarrow> identifies m vid ps) | (_, None) \<Rightarrow> True"
    by blast+
  show ?thesis
  proof (cases "od_intrinsic d")
    case None
    then show ?thesis using cap by (simp add: same_disc_def)
  next
    case (Some w)
    show ?thesis
    proof (cases h)
      case None
      then have "unread" "\<exists>m. sidecar = Some m \<and> identifies m vid ps" using ok Some by (auto split: option.splits)
      then show ?thesis using cap f Some unfolding same_disc_def by auto
    next
      case (Some i)
      then have "\<exists>bs. not_os_error (re_file env KEY_FILE) = Inr (Some bs) \<and> i = norm_hash K (disc_hash_hex K bs)"
        using h by (auto simp: open_steps split: if_splits)
      then show ?thesis using cap ok Some \<open>od_intrinsic d = _\<close> not_os_error_Some unfolding same_disc_def by fastforce
    qed
  qed
qed

text \<open>And where the evidence is there and nothing fails, the disc is accepted: the refusal is exact.\<close>

lemma same_disc_accepted:
  assumes "re_fs env = Inr ()" "re_file env KEY_FILE = Inr bs" "sidecar = None" "same_disc K d env sidecar vid ps"
  shows "check_prescanned K d env sidecar vid ps = Inr ()"
  using assms by (auto simp: check_prescanned_def same_disc_def key_file_unread_def not_os_error_def bind_res_def split: option.splits)

definition held_vid :: "'k RingLib \<Rightarrow> 'k OpenOptions \<Rightarrow> OpenDisc \<Rightarrow> nat list option" where
  "held_vid K opts d = in_hand_vid_fingerprint K d (oo_vid opts) (held_set (oo_keys opts))"

lemma probe_done:
  assumes "probe K src opts env = Inr p"
  shows "load_sidecar (oe_sidecar env) = Inr (pb_sidecar p)"
    and "probed_disc K src opts env (pb_sidecar p) = Inr (pb_disc p)"
    and "pb_source p = src" "pb_keys p = oo_keys opts" "pb_scope p = oo_scope opts" "pb_prescanned p = (oo_disc opts \<noteq> None)"
    and "pb_vid_in_hand p = held_vid K opts (pb_disc p)" "\<not> (oo_halt opts \<and> oe_stopped env)"
  using assms by (auto simp: probe_def held_vid_def open_steps Let_def split: if_splits)

lemma probed_given:
  assumes "probed_disc K src opts env sidecar = Inr d" and "oo_disc opts = Some g"
  shows "d = g" "\<exists>p. src = Iso p"
    "same_disc K d (oe_read env) sidecar (held_vid K opts d) (case held_set (oo_keys opts) of None \<Rightarrow> [] | Some k \<Rightarrow> proven_fingerprints K k)"
  using assms by (auto simp: probed_disc_def held_vid_def open_steps split: ImageSource.splits intro!: check_prescanned_same)

lemma probed_scanned:
  "probed_disc K src opts env sidecar = Inr d \<Longrightarrow> oo_disc opts = None \<Longrightarrow>
     sc_result (oe_scan env) = Inr d \<and> \<not> (oo_halt opts \<and> (sc_before (oe_scan env) \<or> sc_after (oe_scan env)))"
  by (auto simp: probed_disc_def scan_image_halted_def split: if_splits sum.splits)
definition open_scope :: "'k OpenOptions \<Rightarrow> OpenDisc \<Rightarrow> KeyScope" where
  "open_scope opts d = (case oo_scope opts of Some s \<Rightarrow> s | None \<Rightarrow> ScopeTitles (main_scope d))"

text \<open>What the map of a sidecar says of its disc, against a disc, a Volume ID and proven keys in hand.\<close>

definition contradicts :: "'k RingLib \<Rightarrow> Mapfile \<Rightarrow> OpenDisc \<Rightarrow> nat list option \<Rightarrow> nat list list \<Rightarrow> bool" where
  "contradicts K m d vid proven_keys \<longleftrightarrow>
     differ (disc_hash m) (Option.bind (od_intrinsic d) (parse_disc_hash (hex_bytes K))) \<or> differ (vidfp m) vid \<or>
     (legacy_keyfps m \<noteq> [] \<and> proven_keys \<noteq> [] \<and> set (legacy_keyfps m) \<inter> set proven_keys = {})"

text \<open>Where the keys of an opened image may come from.\<close>

definition keys_from :: "'k RingLib \<Rightarrow> 'k resolver \<Rightarrow> 'k KeyInput \<Rightarrow> OpenDisc \<Rightarrow> KeyScope \<Rightarrow> 'k \<Rightarrow> bool \<Rightarrow> bool" where
  "keys_from K rs input d s k sources \<longleftrightarrow>
     (case input of
        Known g \<Rightarrow> \<not> sources \<and> k = g \<and> covers_scope K d g s \<and> \<not> forensic_pending K g
      | Seeded g \<Rightarrow> sources \<and> (k = g \<and> covers_scope K d g s \<and> \<not> forensic_pending K g \<or> rs s (Some g) = Inr k)
      | Resolve \<Rightarrow> sources \<and> rs s None = Inr k)"

lemma key_set_from: "key_set K rs p s = Inr (k, sources) \<Longrightarrow> keys_from K rs (pb_keys p) (pb_disc p) s k sources"
  by (auto simp: key_set_def keys_from_def open_steps resolved_def covers_scope_def dest: known_keyed split: KeyInput.splits if_splits sum.splits)

lemma key_done:
  assumes "key K rs p = Inr im"
  shows "oi_source im = pb_source p" "oi_disc im = pb_disc p" "oi_prescanned im = pb_prescanned p"
    and "keys_from K rs (pb_keys p) (pb_disc p) (case pb_scope p of Some s \<Rightarrow> s | None \<Rightarrow> ScopeTitles (main_scope (pb_disc p))) (oi_keys im) (oi_sources im)"
    and "oi_top_up im = new_top_up (oi_keys im) (case pb_scope p of Some s \<Rightarrow> s | None \<Rightarrow> ScopeTitles (main_scope (pb_disc p)))"
  using assms key_set_from [of K rs p] by (auto simp: key_def open_steps Let_def)

lemma key_identity:
  assumes "key K rs p = Inr im" and "pb_sidecar p = Some m"
  shows "check_identity m (let i = disc_identity K (pb_disc p) (Some (oi_keys im)) in i\<lparr>d_vidfp := or_else (d_vidfp i) (pb_vid_in_hand p)\<rparr>) = Inr ()"
  using assms by (auto simp: key_def open_steps Let_def identity_ok_iff)

lemma disc_identity_fields:
  "d_disc_hash (disc_identity K d ks) = Option.bind (od_intrinsic d) (parse_disc_hash (hex_bytes K))"
  "d_vidfp (disc_identity K d (Some k)) = or_else (map_option (vid_fingerprint (sha K)) (od_volume d)) (ring_vidfp K k)"
  "proven (disc_identity K d (Some k)) = proven_fingerprints K k"
  by (auto simp: disc_identity_def identity_of_def disc_vid_fingerprint_def or_else_def split: option.splits)

lemma probe_identity:
  assumes "probe K src opts env = Inr p" and "pb_sidecar p = Some m"
  shows "check_identity m ((disc_identity K (pb_disc p) None)\<lparr>d_vidfp := held_vid K opts (pb_disc p), proven := []\<rparr>) = Inr ()"
  using assms by (auto simp: probe_def held_vid_def open_steps Let_def identity_ok_iff split: if_splits)

lemma check_identity_contradicts:
  "check_identity m i = Inr () \<Longrightarrow> d_disc_hash i = Option.bind (od_intrinsic d) (parse_disc_hash (hex_bytes K)) \<Longrightarrow>
     \<not> contradicts K m d (d_vidfp i) (proven i)"
  by (auto simp: check_identity_ok_iff contradicts_def)

lemma sidecar_loaded:
  "load_sidecar r = Inr s \<Longrightarrow> (s = None \<and> r = Inl NotFound) \<or> (\<exists>m. s = Some m \<and> r = Inr m)"
  by (auto simp: load_sidecar_def split: sum.splits io_error.splits)

lemma known_needs_no_resolver: "pb_keys p = Known g \<Longrightarrow> key K rs p = key K rs' p"
  by (simp add: key_def key_set_def)
definition held_proven :: "'k RingLib \<Rightarrow> 'k OpenOptions \<Rightarrow> nat list list" where
  "held_proven K opts = (case held_set (oo_keys opts) of None \<Rightarrow> [] | Some k \<Rightarrow> proven_fingerprints K k)"

text \<open>The Volume ID the disc and the set in use know, else the one in hand.\<close>

definition set_vid :: "'k RingLib \<Rightarrow> 'k OpenOptions \<Rightarrow> OpenDisc \<Rightarrow> 'k \<Rightarrow> nat list option" where
  "set_vid K opts d k =
     or_else (or_else (map_option (vid_fingerprint (sha K)) (od_volume d)) (ring_vidfp K k)) (held_vid K opts d)"


definition side_map :: Mapfile where
  "side_map = (new_map ''i.iso.mapfile'' 8192 ''v'' 0)\<lparr>vidfp := Some [3]\<rparr>"

definition sample_open :: "nat list OpenOptions" where
  "sample_open = \<lparr>oo_keys = Known [0, 1], oo_disc = Some (sample_disc\<lparr>od_volume := Some [3]\<rparr>), oo_scope = Some (ScopeTitles [1]), oo_vid = None, oo_halt = True\<rparr>"

text \<open>The sidecar marks the whole image as not read, and names the Volume ID.\<close>

definition sample_open_env :: OpenEnv where
  "sample_open_env = \<lparr>oe_stopped = False, oe_sidecar = Inr side_map, oe_reader = Inr (),
     oe_read = \<lparr>re_capacity = 4, re_fs = Inr (), re_extents = (\<lambda>_. Inr [(1, 1)]), re_file = (\<lambda>_. Inr [0])\<rparr>,
     oe_scan = \<lparr>sc_before = False, sc_result = Inl KeyHalted, sc_failing = False, sc_after = False\<rparr>\<rparr>"


end
