(* ===== verification/RunPlanProps.thy ===== *)
theory RunPlanProps
  imports RunPlan Preflight ImageOpenProps
begin

text \<open>
  What the run of a plan promises: the one title of a title run is the one the plan selects on the disc the run
  reads, its keys are those of that title, and a finished image is renamed exactly when no pass can still be
  owed or still be writing.
\<close>

subsection \<open>A title run\<close>

text \<open>
  The titles of the disc a run reads, if it reads one: those of the session it was handed or opened, those of the
  image it probed or scanned. An image read with given keys, all streams and a title that needs no table is not
  opened for its titles, and neither is a clip.
\<close>

definition disc_read ::
  "'k RingLib \<Rightarrow> RipPlan \<Rightarrow> ('c, 'k) Held option \<Rightarrow> bool \<Rightarrow> bool \<Rightarrow> ('k, 'c) TitleEnv \<Rightarrow> 'c DiscTitle list option \<Rightarrow> bool" where
  "disc_read K p held nk nt env found \<longleftrightarrow>
     (case held of
        Some (HeldSession s) \<Rightarrow> se_disc s \<noteq> None \<and> found = se_disc s
      | Some _ \<Rightarrow> found = None
      | None \<Rightarrow>
          (if whole_disc_source p then \<exists>s. te_drive env = Inr s \<and> se_disc s \<noteq> None \<and> found = se_disc s
           else case image_of (rp_source p) of
               None \<Rightarrow> found = None
             | Some src \<Rightarrow>
                 (if nk \<or> nt
                  then \<exists>probed. probe K src url_options (ue_open (te_url env)) = Inr probed \<and>
                         found = Some (ue_titles (te_url env) (pb_disc probed))
                  else if names_titles (rp_titles p) \<or> rp_titles p = MainMovie \<and> audio (rp_streams p) = All then found = None
                  else \<exists>d. scan_image_halted True (ue_scan (te_url env)) = Inr d \<and> found = Some (ue_titles (te_url env) d))))"

text \<open>The title of a plan: the one it names, the one it selects on the disc, or without a disc the first as the main movie.\<close>

definition title_for :: "'l Isolang \<Rightarrow> RipPlan \<Rightarrow> 'c DiscTitle list option \<Rightarrow> nat \<Rightarrow> bool" where
  "title_for L p found i \<longleftrightarrow>
     (case rp_titles p of
        Titles is \<Rightarrow> is = [i]
      | sel \<Rightarrow>
          (case found of
             None \<Rightarrow> sel = MainMovie \<and> i = 0
           | Some titles \<Rightarrow> i < length titles \<and> resolve_selection L titles sel (audio (rp_streams p)) None = Inr [i]))"

lemma title_index_done:
  assumes "title_index_of L p disc = Inr i"
  shows "title_for L p disc i"
  using assms resolve_selection_mem [of L "the disc" "rp_titles p" "audio (rp_streams p)" None "[i]"]
  by (auto simp: title_index_of_def title_for_def names_titles_def split: Selection.splits option.splits list.splits if_splits sum.splits)

lemma named_title: "names_titles (rp_titles p) \<Longrightarrow> title_for L p d i \<longleftrightarrow> title_for L p d' i"
  by (auto simp: title_for_def names_titles_def split: Selection.splits)

text \<open>The streams kept: the caller's, all, or those the plan's choice resolves to on the very title that is read.\<close>

definition keeps_streams :: "'l Isolang \<Rightarrow> RipPlan \<Rightarrow> TitleOptions \<Rightarrow> 'c DiscTitle option \<Rightarrow> StreamSelection \<Rightarrow> bool" where
  "keeps_streams L p t title sel \<longleftrightarrow>
     (case to_selection t of
        Some s \<Rightarrow> sel = s
      | None \<Rightarrow>
          (if is_all (rp_streams p) then sel = keep_all
           else \<exists>tt. title = Some tt \<and> choice_resolve L (rp_streams p) (TitleTracks.truncate tt) = Inr sel))"

lemma plan_selection_keeps: "plan_selection L p t title = Inr sel \<Longrightarrow> keeps_streams L p t title sel"
  by (auto simp: plan_selection_def keeps_streams_def split: option.splits if_splits sum.splits)

lemma keeps_other:
  "keeps_streams L p t title sel \<Longrightarrow> (to_selection t = None \<and> \<not> is_all (rp_streams p) \<Longrightarrow> title = title') \<Longrightarrow> keeps_streams L p t title' sel"
  by (auto simp: keeps_streams_def split: option.splits if_splits)

text \<open>Where the keys a title is read with come from, when the caller gave none.\<close>

definition run_keys :: "RipPlan \<Rightarrow> ('c, 'k) Held option \<Rightarrow> ('k, 'c) TitleEnv \<Rightarrow> nat \<Rightarrow> 'k option \<Rightarrow> bool" where
  "run_keys p held env i ring \<longleftrightarrow>
     (if held \<noteq> None \<or> rp_raw p then ring = None
      else if whole_disc_source p then \<exists>k. te_acquire env (ScopeTitles [i]) = Inr k \<and> ring = Some k
      else case rp_source p of
          UIso file \<Rightarrow> \<exists>k. ue_resolver (te_url env) (ScopeTitles [i]) None = Inr k \<and> ring = Some k
        | UDir file \<Rightarrow> \<exists>k. ue_resolver (te_url env) (ScopeTitles [i]) None = Inr k \<and> ring = Some k
        | UM2ts file \<Rightarrow> ue_clip (te_url env) = Inr ring
        | _ \<Rightarrow> ring = None)"

lemma plan_key_Inr: "plan_key r = Inr x \<longleftrightarrow> r = Inr x"
  by (simp add: plan_key_def split: sum.splits)

lemma key_traced_resolved:
  assumes "key_traced K rs s p = Inr im" and "pb_keys p = Resolve"
  shows "rs s None = Inr (oi_keys im) \<and> oi_disc im = pb_disc p"
  using key_done(2,4) [of K rs "p\<lparr>pb_scope := Some s\<rparr>" im] assms by (simp add: key_traced_def keys_from_def)

lemma url_image_done:
  assumes run: "url_image L K p nk nt src env = Inr (i, ring, title)" and src: "image_of (rp_source p) = Some src"
    and te: "te_url te = env" "\<not> whole_disc_source p"
  shows "\<exists>found. disc_read K p None nk nt te found \<and> title_for L p found i \<and>
    (nt \<longrightarrow> title = Option.bind found (\<lambda>titles. get titles i)) \<and>
    (if nk then \<exists>k. ue_resolver env (ScopeTitles [i]) None = Inr k \<and> ring = Some k else ring = None)"
proof -
  obtain ex where ex: "(if names_titles (rp_titles p) then map_sum id Some (title_index_of L p (None :: 'b DiscTitle list option)) else Inr None) = Inr ex"
    using run by (auto simp: url_image_def bind_res_eq_Inr Let_def)
  have named: "title_for L p found j" if "ex = Some j" for j found
    using ex that title_index_done [of L p "None :: 'b DiscTitle list option" j] named_title [of p L None j found]
    by (cases "title_index_of L p (None :: 'b DiscTitle list option)") (auto split: if_splits)
  have unnamed: "ex = None \<longleftrightarrow> \<not> names_titles (rp_titles p)"
    using ex by (auto split: if_splits sum.splits simp: map_sum_def)
  show ?thesis
  proof (cases "\<not> nk \<and> \<not> nt")
    case True
    have ring: "ring = None" using run True by (auto simp: url_image_def bind_res_eq_Inr Let_def)
    have pick: "(case ex of Some i \<Rightarrow> Inr i
        | None \<Rightarrow> (if rp_titles p = MainMovie \<and> audio (rp_streams p) = All then title_index_of L p (None :: 'b DiscTitle list option)
             else bind_res (plan_key (scan_image_halted True (ue_scan env))) (\<lambda>d. title_index_of L p (Some (ue_titles env d))))) = Inr i"
      using run True ex by (auto simp: url_image_def bind_res_eq_Inr Let_def)
    consider (named) "names_titles (rp_titles p)" | (first) "\<not> names_titles (rp_titles p)" "rp_titles p = MainMovie \<and> audio (rp_streams p) = All"
      | (scan) "\<not> names_titles (rp_titles p)" "\<not> (rp_titles p = MainMovie \<and> audio (rp_streams p) = All)" by blast
    then show ?thesis
    proof cases
      case named
      then have "title_for L p (None :: 'b DiscTitle list option) i" using pick unnamed \<open>\<And>j found. ex = Some j \<Longrightarrow> title_for L p found j\<close>
        by (cases ex) auto
      then show ?thesis using True ring named src te by (intro exI [of _ None]) (simp add: disc_read_def)
    next
      case first
      then have "title_for L p (None :: 'b DiscTitle list option) i" using pick unnamed title_index_done by (cases ex) auto
      then show ?thesis using True ring first src te by (intro exI [of _ None]) (simp add: disc_read_def)
    next
      case scan
      then obtain d where "scan_image_halted True (ue_scan env) = Inr d" "title_index_of L p (Some (ue_titles env d)) = Inr i"
        using pick unnamed by (cases ex) (auto simp: bind_res_eq_Inr plan_key_Inr)
      then show ?thesis using True ring scan src te title_index_done
        by (intro exI [of _ "Some (ue_titles env d)"]) (auto simp: disc_read_def)
    qed
  next
    case False
    obtain pb im where pb: "probe K src url_options (ue_open env) = Inr pb"
      and i: "(case ex of Some i \<Rightarrow> Inr i | None \<Rightarrow> title_index_of L p (Some (ue_titles env (pb_disc pb)))) = Inr i"
      and im: "key_traced K (ue_resolver env) (if nk then ScopeTitles [i] else ScopeNone) pb = Inr im"
      and ring: "ring = (if nk then Some (oi_keys im) else None)" and title: "title = get (ue_titles env (oi_disc im)) i"
      using run False ex by (auto simp: url_image_def bind_res_eq_Inr plan_key_Inr Let_def)
    have "pb_keys pb = Resolve" using probe_done(4) [OF pb] by (simp add: url_options_def)
    note im = key_traced_resolved [OF im this]
    have "title_for L p (Some (ue_titles env (pb_disc pb))) i" using i named title_index_done by (cases ex) auto
    moreover have "disc_read K p None nk nt te (Some (ue_titles env (pb_disc pb)))" using pb src te False by (auto simp: disc_read_def)
    ultimately show ?thesis using im ring title by (intro exI [of _ "Some (ue_titles env (pb_disc pb))"]) (auto split: if_splits)
  qed
qed

lemma session_done:
  assumes "session_mux L p t keys s = Inr m"
  shows "\<exists>titles. se_disc s = Some titles \<and> title_for L p (Some titles) (tm_index m) \<and> tm_keys m = keys \<and>
    keeps_streams L p t (get titles (tm_index m)) (tm_selection m) \<and> title_index_of L p (se_disc s) = Inr (tm_index m)"
  using assms by (auto simp: session_mux_def bind_res_eq_Inr dest: plan_selection_keeps title_index_done split: option.splits)

lemma drive_done:
  fixes env :: "('k, 'c) TitleEnv"
  assumes "title_off_drive L p t keys env = Inr m" and "whole_disc_source p"
  shows "\<exists>titles. disc_read K p None nk nt env (Some titles) \<and> title_for L p (Some titles) (tm_index m) \<and>
    keeps_streams L p t (get titles (tm_index m)) (tm_selection m) \<and>
    (case keys of Some k \<Rightarrow> tm_keys m = Some k | None \<Rightarrow> run_keys p (None :: ('c, 'k) Held option) env (tm_index m) (tm_keys m)) \<and>
    te_decryptable env (tm_keys m) (ScopeTitles [tm_index m]) = Inr ()"
proof -
  obtain s i ring where s: "te_drive env = Inr s" "title_index_of L p (se_disc s) = Inr i" and m: "session_mux L p t ring s = Inr m"
    and ring: "(case keys of Some k \<Rightarrow> Inr (Some k)
        | None \<Rightarrow> (if rp_raw p then Inr None else bind_res (te_acquire env (ScopeTitles [i])) (\<lambda>k. Inr (Some k)))) = Inr ring"
    and gate: "te_decryptable env ring (ScopeTitles [i]) = Inr ()"
    using assms(1) unfolding title_off_drive_def bind_res_eq_Inr refused_unless by auto
  obtain titles where t: "se_disc s = Some titles" "title_for L p (Some titles) (tm_index m)" "tm_keys m = ring"
      "keeps_streams L p t (get titles (tm_index m)) (tm_selection m)" "tm_index m = i"
    using session_done [OF m] s(2) by auto
  have "disc_read K p None nk nt env (Some titles)" using s t assms(2) by (simp add: disc_read_def)
  moreover have "case keys of Some k \<Rightarrow> tm_keys m = Some k | None \<Rightarrow> run_keys p (None :: ('c, 'k) Held option) env (tm_index m) (tm_keys m)"
    unfolding t(3,5) using ring assms(2) by (auto simp: run_keys_def bind_res_eq_Inr split: option.splits if_splits)
  ultimately show ?thesis using t gate by auto
qed

lemma url_done:
  fixes env :: "('k, 'c) TitleEnv"
  assumes run: "url_source L K p nk nt (te_url env) = Inr (i, ring, title)" and "\<not> whole_disc_source p" and nk: "nk \<Longrightarrow> \<not> rp_raw p"
  shows "\<exists>found. disc_read K p None nk nt env found \<and> title_for L p found i \<and>
    (nt \<longrightarrow> title = Option.bind found (\<lambda>titles. get titles i)) \<and>
    (if nk then run_keys p (None :: ('c, 'k) Held option) env i ring else ring = None)"
proof (cases "image_of (rp_source p)")
  case None
  have "title_for L p (None :: 'c DiscTitle list option) i"
    using run None title_index_done by (cases "rp_source p") (auto simp: url_source_def bind_res_eq_Inr plan_key_Inr split: if_splits)
  moreover have "title = None" "if nk then run_keys p (None :: ('c, 'k) Held option) env i ring else ring = None"
    using run None assms(2) nk
    by (cases "rp_source p"; auto simp: url_source_def run_keys_def image_of_def bind_res_eq_Inr plan_key_Inr split: if_splits)+
  ultimately show ?thesis using None assms(2) by (intro exI [of _ None]) (simp add: disc_read_def)
next
  case (Some src)
  then have "url_image L K p nk nt src (te_url env) = Inr (i, ring, title)" using run by (simp add: url_source_def)
  moreover have "run_keys p (None :: ('c, 'k) Held option) env i ring" if "nk" "\<exists>k. ue_resolver (te_url env) (ScopeTitles [i]) None = Inr k \<and> ring = Some k"
    using Some that nk assms(2) by (cases "rp_source p") (auto simp: run_keys_def image_of_def)
  ultimately show ?thesis using url_image_done [OF _ Some refl assms(2)] by metis
qed

text \<open>
C11: A title run reads the title the plan asks for, with the keys and the streams of that title. The disc read is the
scanned session the run was handed or opened, or the image it probed or scanned; no titles are read off an image only
when the caller gave keys (or none are wanted), the streams need no title, and the title is named or is the main movie
with every audio stream. The title is the one the plan names; else, on the titles read, exactly the one the selection
resolves to, and title 0 only for a main movie when no titles were read. Keys the caller gave are used as they are;
without them a raw plan and a handed source read with none, and a source the run opened is read with the keys acquired
for exactly that title (those of the clip for a loose clip). Off a drive the run passed the decryption gate with those
keys for that title. The streams kept are those the caller chose, else all, else what the plan's choice resolves to on
that very title of those titles, or on the title the caller handed over.
\<close>
theorem title_run_sound:
  assumes "title_run L K p t keys held env = Inr m"
  shows "(case held of
       Some (HeldTitle title) \<Rightarrow> tm_index m = 0 \<and> keeps_streams L p t (Some title) (tm_selection m)
     | _ \<Rightarrow> \<exists>found. disc_read K p held (keys = None \<and> \<not> rp_raw p) (to_selection t = None \<and> \<not> is_all (rp_streams p)) env found \<and>
         title_for L p found (tm_index m) \<and>
         keeps_streams L p t (Option.bind found (\<lambda>titles. get titles (tm_index m))) (tm_selection m)) \<and>
    (case keys of Some k \<Rightarrow> tm_keys m = Some k | None \<Rightarrow> run_keys p held env (tm_index m) (tm_keys m)) \<and>
    (held = None \<and> whole_disc_source p \<longrightarrow> te_decryptable env (tm_keys m) (ScopeTitles [tm_index m]) = Inr ())"
proof (cases held)
  case None
  let ?nk = "keys = None \<and> \<not> rp_raw p" and ?nt = "to_selection t = None \<and> \<not> is_all (rp_streams p)"
  show ?thesis
  proof (cases "whole_disc_source p")
    case True
    then have "title_off_drive L p t keys env = Inr m" using assms None by (simp add: title_run_def)
    from drive_done [where K = K and nk = ?nk and nt = ?nt, OF this True] obtain titles where
      d: "disc_read K p None ?nk ?nt env (Some titles)" "title_for L p (Some titles) (tm_index m)"
        "keeps_streams L p t (get titles (tm_index m)) (tm_selection m)"
        "case keys of Some k \<Rightarrow> tm_keys m = Some k | None \<Rightarrow> run_keys p held env (tm_index m) (tm_keys m)"
        "te_decryptable env (tm_keys m) (ScopeTitles [tm_index m]) = Inr ()" using None by blast
    then have "\<exists>found. disc_read K p held ?nk ?nt env found \<and> title_for L p found (tm_index m) \<and>
         keeps_streams L p t (Option.bind found (\<lambda>titles. get titles (tm_index m))) (tm_selection m)"
      using None by (intro exI [of _ "Some titles"]) simp
    then show ?thesis using d(4,5) None by simp
  next
    case False
    then obtain i ring title where u: "url_source L K p ?nk ?nt (te_url env) = Inr (i, ring, title)"
      and m: "tm_index m = i" "tm_keys m = or_else keys ring" "keeps_streams L p t title (tm_selection m)"
      using assms None by (auto simp: title_run_def bind_res_eq_Inr dest: plan_selection_keeps)
    obtain found where f: "disc_read K p None ?nk ?nt env found" "title_for L p found i"
        "?nt \<longrightarrow> title = Option.bind found (\<lambda>titles. get titles i)"
        "if ?nk then run_keys p held env i ring else ring = None"
      using url_done [OF u False] None by blast
    have "keeps_streams L p t (Option.bind found (\<lambda>titles. get titles i)) (tm_selection m)" using keeps_other [OF m(3)] f(3) by blast
    moreover have "case keys of Some k \<Rightarrow> tm_keys m = Some k | None \<Rightarrow> run_keys p held env (tm_index m) (tm_keys m)"
      using f(4) m None by (cases keys) (auto simp: or_else_def run_keys_def split: option.splits if_splits)
    ultimately show ?thesis using f m None False by auto
  qed
next
  case (Some h)
  show ?thesis
  proof (cases h)
    case (HeldSession s)
    then have "session_mux L p t keys s = Inr m" using assms Some by (simp add: title_run_def)
    then show ?thesis using session_done [of L p t keys s m] Some HeldSession
      by (auto simp: disc_read_def run_keys_def split: option.splits)
  qed (use assms Some in \<open>auto simp: title_run_def bind_res_eq_Inr run_keys_def dest: plan_selection_keeps split: option.splits\<close>)
qed
subsection \<open>A whole-image run\<close>

text \<open>No Stop and no wedge in the copy, nor in the recovery that made it.\<close>

definition ended_clean :: "'k ImageEnv \<Rightarrow> ImageReport \<Rightarrow> bool" where
  "ended_clean env rep \<longleftrightarrow>
     \<not> cr_halted (ir_copy rep) \<and>
     (case ir_recovery rep of None \<Rightarrow> \<not> ie_wedged env | Some r \<Rightarrow> \<not> mr_halted r \<and> \<not> wedged r)"

text \<open>The ring a whole-image run reads with.\<close>

definition reads_with :: "'k RingLib \<Rightarrow> RipPlan \<Rightarrow> 'k option \<Rightarrow> ('c, 'k) Held option \<Rightarrow> 'k ImageEnv \<Rightarrow> 'k option \<Rightarrow> bool" where
  "reads_with K p keys held env ring \<longleftrightarrow>
     (case keys of
        Some k \<Rightarrow> ring = Some k
      | None \<Rightarrow>
          (if held \<noteq> None \<or> rp_raw p then ring = None
           else \<exists>k. open_source K p WholeDisc env = Inr k \<and> ring = Some k))"

lemma whole_source_done:
  "whole_source K p held s env = Inr opened \<Longrightarrow>
     (case opened of None \<Rightarrow> held \<noteq> None | Some k \<Rightarrow> held = None \<and> open_source K p s env = Inr k)"
  by (auto simp: whole_source_def bind_res_eq_Inr split: option.splits Held.splits)

lemma image_names_ran:
  "snd (image_names (ir_copy rep) (ir_recovery rep) env) \<longleftrightarrow> ended_clean env rep \<and> \<not> ie_abandoned env"
  by (auto simp: image_names_def ended_clean_def Let_def split: option.splits)

subsection \<open>Samples\<close>

text \<open>Title 1 of a drive; the keys of exactly that title are number 7.\<close>

definition sample_plan :: RipPlan where
  "sample_plan = \<lparr>rp_source = UDisc None, rp_dest = UOther, rp_titles = Titles [1],
     rp_streams = \<lparr>audio = All, subtitles = \<lparr>normal = All, forced = All\<rparr>\<rparr>, rp_raw = False, rp_multipass = False\<rparr>"

definition sample_title_env :: "(nat, nat) TitleEnv" where
  "sample_title_env = \<lparr>te_url = \<lparr>ue_titles = (\<lambda>_. []), ue_open = sample_open_env,
       ue_scan = \<lparr>sc_before = False, sc_result = Inl KeyHalted, sc_failing = False, sc_after = False\<rparr>,
       ue_resolver = (\<lambda>_ _. Inl (KeyHalted, False)), ue_clip = Inl KeyHalted\<rparr>,
     te_drive = Inr \<lparr>se_disc = Some sample_titles, se_batch = 32\<rparr>,
     te_acquire = (\<lambda>s. if s = ScopeTitles [1] then Inr 7 else Inl NoTitles), te_decryptable = (\<lambda>_ _. Inr ())\<rparr>"

definition any_streams :: TitleOptions where
  "any_streams = \<lparr>to_selection = None, to_batch = 0\<rparr>"

definition any_ring :: "nat RingLib" where
  "any_ring = \<lparr>is_for = (\<lambda>_. True), is_aacs = (\<lambda>_. True), ring_covers = (\<lambda>_ _. True), forensic_pending = (\<lambda>_. False),
     ring_vidfp = (\<lambda>_. None), proven_fingerprints = (\<lambda>_. []), strip_hex_prefix = id, disc_hash_hex = (\<lambda>_. []),
     hex_bytes = (\<lambda>_ _. None), sha = (\<lambda>_ v. v)\<rparr>"

lemma title_run_sound_witness:
  "\<exists>m. title_run sample_lang any_ring sample_plan any_streams None None sample_title_env = Inr m \<and>
     tm_index m = 1 \<and> tm_keys m = Some 7 \<and> tm_batch m = 32 \<and> tm_selection m = keep_all \<and>
     disc_read any_ring sample_plan (None :: (nat, nat) Held option) True False sample_title_env (Some sample_titles)"
proof -
  have "\<exists>m. title_run sample_lang any_ring sample_plan any_streams None None sample_title_env = Inr m \<and> tm_keys m = Some 7 \<and> tm_batch m = 32"
    by (simp add: title_run_def whole_disc_source_def title_off_drive_def session_mux_def title_index_of_def plan_selection_def get_def
        is_all_def sample_plan_def sample_title_env_def sample_titles_def any_streams_def)
  then obtain m where m: "title_run sample_lang any_ring sample_plan any_streams None None sample_title_env = Inr m" "tm_keys m = Some 7" "tm_batch m = 32"
    by blast
  have title: "title_for sample_lang sample_plan found i \<longleftrightarrow> i = 1" for found :: "nat DiscTitle list option" and i
    by (auto simp: title_for_def sample_plan_def)
  have streams: "keeps_streams sample_lang sample_plan any_streams title sel \<longleftrightarrow> sel = keep_all" for title :: "nat DiscTitle option" and sel
    by (simp add: keeps_streams_def any_streams_def sample_plan_def is_all_def)
  have disc: "disc_read any_ring sample_plan (None :: (nat, nat) Held option) True nt sample_title_env found \<longleftrightarrow> found = Some sample_titles" for found nt
    by (auto simp: disc_read_def sample_plan_def sample_title_env_def whole_disc_source_def)
  show ?thesis using title_run_sound [OF m(1)] m title streams disc by (auto simp: sample_plan_def)
qed

definition sample_image_env :: "nat ImageEnv" where
  "sample_image_env = \<lparr>ie_drive = Inl NoTitles, ie_whole = Inr (), ie_open = sample_open_env,
     ie_resolver = (\<lambda>_ _. Inl (KeyHalted, False)), ie_decryptable = (\<lambda>_ _. Inr ()), ie_lock = Inr (), ie_capacity = 10,
     ie_passes = None, ie_one_pass = (\<lambda>ring. Inr (copy_result 10 (case ring of Some k \<Rightarrow> k | None \<Rightarrow> 0) 0 0 0 False)),
     ie_wedged = False, ie_abandoned = False, ie_aacs = True, ie_finish = Some (Renamed 3), ie_delete_fails = False\<rparr>"


end
