(* ===== verification/Spec2Isabelle.thy ===== *)
theory Spec2Isabelle
  imports CopyProps ChainInv PatchProps Recovery Durability NamesProps Preflight RemuxProps TitleLoopProps SpeedProps EngineHalt TmdbProps RunPlanProps
begin

text \<open>
  A verification development for the rip engine of \<open>freemkv\<close> (\<open>src/src\<close>): what turns an optical disc, or an image of
  one, into files, and keeps what it has when drives, files, queues, services and users fail it.

  \<^bold>\<open>The program and its parts.\<close> A front end builds a plan (\<open>plan.rs\<close>). Its destination picks a chain. A whole-image
  run recovers the disc (\<open>multipass.rs\<close>): Pass 1 sweeps it (\<open>recovery/mod.rs\<close>, \<open>recovery/sweep.rs\<close>) with a policy for
  failed reads (\<open>recovery/read_error.rs\<close>); Passes 2..N re-read its damage (\<open>recovery/patch.rs\<close>) with a chain of
  recovery techniques (\<open>recovery/section_recover.rs\<close>). Each pass has a producer, which reads, and a consumer, which
  writes the image and records spans in the damage map (\<open>recovery/mapfile.rs\<close>), whose file lets an interrupted rip
  resume. Then the loss is judged, and the finished image gets its decrypted names (\<open>recovery/names.rs\<close>). A title
  run selects titles (\<open>selection.rs\<close>, \<open>presentation.rs\<close>, \<open>job.rs\<close>) and streams (\<open>streams.rs\<close>), checks the job
  (\<open>preflight.rs\<close>), opens an image with its keys (\<open>image.rs\<close>, \<open>keys.rs\<close>), muxes the titles (\<open>mux.rs\<close>) and lands each
  in the library (\<open>remux.rs\<close>). Around them: the stop view (\<open>engine_halt.rs\<close>), the displayed speed (\<open>speed.rs\<close>) and
  the names of titles (\<open>metadata/tmdb.rs\<close>).

  \<^bold>\<open>The damage map.\<close> Theory \<open>Prelude\<close> has the machine integers (naturals below \<open>2 ^ 64\<close>, each operation written with
  the check, the saturation or the wrap of the code) and the collections of facts. \<open>Ranges\<close>: \<open>merge_byte_ranges\<close>,
  \<open>intersect\<close>, \<open>subtract\<close>, \<open>snap_to_sectors\<close>, with the locale \<open>byte_ranges\<close> (interpretation \<open>br\<close>) as the contract of
  scoping a work list; \<open>RangesAlign\<close>: whole sectors stay whole. \<open>MapfileCore\<close>: the runs, \<open>splice\<close>, \<open>promote\<close>, the
  queries, the statistics. \<open>MapfileInv\<close>: the canonical form, the status of each byte as the abstract value, and the
  refinement: recording is an update of that function; the locale \<open>damage_map\<close> (interpretation \<open>dm\<close>) is what the
  passes use of it. \<open>MapfileText\<close> and \<open>MapfileTextInv\<close>: printer and parser, gap filling, the round trip. \<open>MapfileIO\<close>
  and \<open>MapfileIOInv\<close>: persistence as sequences of file-system states, atomic replacement, removals of the temporary
  file that fail unseen, loads that are refused, break off or meet what is not text, the identity check.

  \<^bold>\<open>Pass 1.\<close> \<open>ReadError\<close>, \<open>ReadErrorInv\<close>: the context \<open>ReadCtx\<close> and \<open>handle_read_error\<close>, its reachable contexts and
  when it ends a pass. \<open>Handoff\<close>: the bounded send, the teardown that disowns a consumer. \<open>Sweep\<close>, \<open>SweepInv\<close>: the
  producer as a function of what each turn of its loop observes. \<open>SweepSink\<close>, \<open>SweepSinkInv\<close>: the consumer over image,
  map and file system. \<open>SweepRun\<close>, \<open>SweepPass\<close>: the two together. \<open>CopyDispatch\<close>, \<open>CopyProps\<close>: what a re-issued copy
  does with a saved map, the set-up of a sweep, staged images. \<open>SweepLink\<close>, \<open>SweepLinkInv\<close>: a sweep from set-up to
  result, with what a set-up that failed at any step leaves of image and map (\<open>Left\<close>); \<open>SweepSample\<close>: a small disc,
  evaluated.

  \<^bold>\<open>Passes 2..N.\<close> \<open>SubRanges\<close>: the still-bad set of a section. \<open>Handlers\<close>, \<open>Techniques\<close>: one read, and the loops of
  the six techniques over the stream of what reads and stop checks observe. \<open>Protocol\<close>: the locale \<open>protocol\<close>, the
  moves a technique may make; \<open>ProtocolRuns\<close>: every technique makes only those. \<open>HandlerInv\<close> interprets it three
  times (\<open>acc\<close>: account of the bytes, \<open>pr\<close>: prompt end, \<open>bk\<close>: bookkeeping). \<open>Chain\<close>, \<open>ChainInv\<close>: scorecard, order
  and deadlines of a section's chain. \<open>Patch\<close>, \<open>PatchInv\<close>, \<open>PatchProps\<close>: the tier walk, the consumer, the gates, the
  figures. \<open>Saved\<close>: the locale \<open>map_consumer\<close>, the law a consumer must keep so that the saved map never claims what
  the image does not hold, interpreted for both consumers (\<open>sweep_cons\<close>, \<open>patch_cons\<close>). \<open>Durability\<close>: where that
  law stops short of stable storage.

  \<^bold>\<open>The recovery.\<close> \<open>Float64\<close>, \<open>Float64Inv\<close>, \<open>Float64Ops\<close>: binary64 arithmetic, rounded exactly. \<open>Loss\<close>, \<open>LossProps\<close>:
  playback time lost, the abort gate, the pass plan and exit rules. \<open>Multipass\<close>: \<open>recover\<close> (multipass, or the
  default single pass) and \<open>one_pass\<close> over the real passes, each leaving image and map however it ends. \<open>RipInv\<close>, \<open>RipProps\<close>: the locale \<open>keeps_rip\<close> (interpretation \<open>rip\<close>) of what each pass keeps of image
  and map, and what follows for a run of passes; \<open>Recovery\<close>: the properties of the whole. \<open>Names\<close>, \<open>NamesInv\<close>,
  \<open>NamesProps\<close>: the rename behind its undo log, each file operation able to fail and each write to be cut.

  \<^bold>\<open>Titles.\<close> \<open>Streams\<close>, \<open>SelectionModel\<close>, \<open>SelectionInv\<close>, \<open>SelectionProps\<close>, \<open>Preflight\<close>: stream policy, title
  selection, the verdict on a job. \<open>ImageOpen\<close>, \<open>ImageOpenProps\<close>: the open of an image and its one key top-up.
  \<open>RunPlan\<close>, \<open>RunPlanProps\<close>: the title of a title run, and what surrounds the passes of an image run. \<open>TitleLoop\<close>,
  \<open>TitleLoopProps\<close>: the loop over titles and the clean-up after one that failed. \<open>Remux\<close>, \<open>RemuxProps\<close>: partial,
  sync, verify, publish. \<open>EngineHalt\<close>, \<open>Speed\<close>, \<open>SpeedProps\<close>, \<open>Labels\<close>, \<open>Tmdb\<close>, \<open>TmdbProps\<close> as their names say.

  \<^bold>\<open>How code is modelled.\<close> A struct is a record, an enum a datatype, an operation a function from state to result and
  state; each early return and error is a branch. What a call of the outside gives (a drive's read, a send, a file
  operation, a stop flag, a clock) is an argument, an observation of the step that makes the call, so a theorem
  holds for every behaviour of it. A loop over observations is a recursion on their list and gives \<open>None\<close> when they
  run out; the termination theorems say how many are enough, whatever is observed: nine turns of the read loop for
  each sector of a sweep's regions and nine for each region, so eighteen for each sector of the disc. Loops that
  end by themselves are recursions with a measure. Widths that matter (\<open>u16\<close>, \<open>u32\<close>, \<open>u64\<close>, 64-bit checksums) are
  written out; texts are lists of characters below code point 256.

  \<^bold>\<open>Parameters\<close>, with what is relied on as named hypotheses: the parser of hexadecimal bytes, SHA-256, the tables of
  languages and of Unicode, the key sets and the resolver of the disc library, its UDF rename planner and checker,
  its muxer, reader and locks, the JSON of the naming service.

  \<^bold>\<open>What the lemmas show.\<close> Integrity: whatever fails, a byte marked Finished is the disc's byte in the image
  (\<open>sweep_pass_integrity\<close>, \<open>patch_integrity\<close>, \<open>multipass_integrity\<close>), and a rip called complete is the disc
  (\<open>sweep_complete_exact\<close>, \<open>multipass_complete\<close>). Refinement of the map and its text to a function on bytes.
  Termination of the sweep and of the recovery, and a prompt end after a Stop. Crash safety of map writes, renames
  and library files. Exactness of the decisions: dispatch, gates, selection, preflight, title loop, lookup. Keys are
  asked for once and for what is read.

  \<^bold>\<open>Left out.\<close> Log lines, milestones and progress ticks; the question whether a path exists does not fail. In
  \<open>Names\<close> a map write is one atomic step (\<open>MapfileIOInv\<close> shows it may be). In \<open>SweepSink\<close> the due check and the record
  after it read one clock. Not modelled: the watcher threads of \<open>run.rs\<close> and the event bridge of \<open>mux.rs\<close>, the list of
  key sources (\<open>keys.rs\<close>, \<open>resolve.rs\<close>), the forwarding readers and sinks (\<open>recovery/whole_disc.rs\<close>, \<open>extract.rs\<close>,
  \<open>sink.rs\<close>), drive facts (\<open>drive.rs\<close>, \<open>drive_info.rs\<close>) and the HTTP client of \<open>metadata/tmdb.rs\<close>: they hold no
  decision of the engine, or only call the disc library and the network.
\<close>

end
